(* ===== verification/Py_Prelude.thy ===== *)
theory Py_Prelude
  imports Complex_Main "HOL-Library.AList"
begin

text \<open>
  The vocabulary the components share: Python dictionaries, strings and the floats that may be
  infinite, the exceptions of the HTTP layer, and the interface (a locale) that every keyed
  table of the program satisfies.

  \<^item> A Python \<open>dict\<close> is an association list in insertion order: \<open>d[k] = v\<close> overwrites in place or
    appends (\<open>dset\<close>), \<open>d.get(k, x)\<close> is \<open>dget\<close>, \<open>d.pop(k, None)\<close> is \<open>dpop\<close>,
    \<open>d.setdefault(k, x)\<close> is \<open>dsetdefault\<close>.  The order is kept because the code observes it
    (\<open>iter_models\<close>, \<open>resolve_model\<close>, the autoscaler's victim choice).
  \<^item> Python floats are read as real numbers; the value \<open>inf\<close> that the metrics client uses for an
    unreachable backend is the constructor \<open>PInf\<close>.  Rounding is not modelled.
  \<^item> A Python \<open>str\<close> is a \<open>string\<close>; the identifiers the code splits and compares are ASCII.
\<close>

named_theorems dict_simps \<open>lookup and domain equations of the dictionary operations\<close>

section \<open>Dictionaries\<close>

type_synonym ('k, 'v) dict = "('k \<times> 'v) list"

definition dget :: "('k, 'v) dict \<Rightarrow> 'k \<Rightarrow> 'v \<Rightarrow> 'v" where
  "dget d k x = (case map_of d k of None \<Rightarrow> x | Some v \<Rightarrow> v)"

definition dset :: "'k \<Rightarrow> 'v \<Rightarrow> ('k, 'v) dict \<Rightarrow> ('k, 'v) dict" where
  "dset k v d = AList.update k v d"

definition dpop :: "'k \<Rightarrow> ('k, 'v) dict \<Rightarrow> ('k, 'v) dict" where
  "dpop k d = AList.delete k d"

definition dhas :: "('k, 'v) dict \<Rightarrow> 'k \<Rightarrow> bool" where
  "dhas d k = (map_of d k \<noteq> None)"

definition dsetdefault :: "'k \<Rightarrow> 'v \<Rightarrow> ('k, 'v) dict \<Rightarrow> ('k, 'v) dict" where
  "dsetdefault k v d = (if dhas d k then d else dset k v d)"

definition dkeys :: "('k, 'v) dict \<Rightarrow> 'k list" where
  "dkeys d = map fst d"

text \<open>\<open>d.update(e)\<close>: the entries of \<open>e\<close>, in order, on top of \<open>d\<close>.\<close>

definition dupdate :: "('k, 'v) dict \<Rightarrow> ('k, 'v) dict \<Rightarrow> ('k, 'v) dict" where
  "dupdate d e = fold (\<lambda>(k, v). dset k v) e d"

text \<open>Every dictionary of the program has each key once.\<close>

definition dict_ok :: "('k, 'v) dict \<Rightarrow> bool" where
  "dict_ok d = distinct (map fst d)"

lemma map_of_dset [dict_simps, simp]: "map_of (dset k v d) = (map_of d)(k \<mapsto> v)"
  by (simp add: dset_def update_conv')

lemma map_of_dpop [dict_simps, simp]: "map_of (dpop k d) = (map_of d)(k := None)"
  by (simp add: dpop_def delete_conv')

lemma dget_dset [dict_simps, simp]: "dget (dset k v d) k' x = (if k' = k then v else dget d k' x)"
  by (simp add: dget_def)

lemma dget_dpop [dict_simps, simp]: "dget (dpop k d) k' x = (if k' = k then x else dget d k' x)"
  by (simp add: dget_def)

lemma dhas_dset [dict_simps, simp]: "dhas (dset k v d) k' = (k' = k \<or> dhas d k')"
  by (simp add: dhas_def)

lemma dhas_dpop [dict_simps, simp]: "dhas (dpop k d) k' = (k' \<noteq> k \<and> dhas d k')"
  by (simp add: dhas_def)

lemma dict_ok_dset [intro, simp]: "dict_ok d \<Longrightarrow> dict_ok (dset k v d)"
  by (simp add: dict_ok_def dset_def distinct_update)

lemma dict_ok_dpop [intro, simp]: "dict_ok d \<Longrightarrow> dict_ok (dpop k d)"
  by (simp add: dict_ok_def dpop_def distinct_delete)

lemma dict_ok_Nil [simp]: "dict_ok []"
  by (simp add: dict_ok_def)

lemma dhas_iff_keys: "dhas d k \<longleftrightarrow> k \<in> set (dkeys d)"
  by (auto simp: dhas_def dkeys_def map_of_eq_None_iff)

lemma set_dset_subset: "set (dset k v d) \<subseteq> insert (k, v) (set d)"
  by (induction d) (auto simp: dset_def)

lemma set_dpop_subset: "set (dpop k d) \<subseteq> set d"
  by (auto simp: dpop_def AList.delete_eq)

lemma dkeys_dset: "set (dkeys (dset k v d)) = insert k (set (dkeys d))"
  by (simp add: dkeys_def dset_def dom_update)

lemma dkeys_dpop: "set (dkeys (dpop k d)) = set (dkeys d) - {k}"
  by (simp add: dkeys_def dpop_def delete_keys [symmetric]) (induction d, auto simp: AList.delete_eq)

lemma dkeys_dset_present: "dhas d k \<Longrightarrow> dkeys (dset k v d) = dkeys d"
  by (induction d) (auto simp: dkeys_def dset_def dhas_def split: if_splits)

lemma dset_absent: "\<not> dhas d k \<Longrightarrow> dset k v d = d @ [(k, v)]"
  by (induction d) (auto simp: dset_def dhas_def split: if_splits)

lemma map_of_dupdate: "dict_ok e \<Longrightarrow> map_of (dupdate d e) = map_of d ++ map_of e"
proof (induction e arbitrary: d)
  case Nil
  then show ?case by (simp add: dupdate_def)
next
  case (Cons p e)
  obtain k v where p: "p = (k, v)" by (cases p)
  have fresh: "map_of e k = None" and ok: "dict_ok e"
    using Cons.prems p by (auto simp: dict_ok_def map_of_eq_None_iff)
  have "dupdate d (p # e) = dupdate (dset k v d) e"
    by (simp add: dupdate_def p)
  then have "map_of (dupdate d (p # e)) = (map_of d)(k \<mapsto> v) ++ map_of e"
    by (simp only: Cons.IH [OF ok] map_of_dset)
  then show ?case
    using fresh by (auto simp: p map_add_def fun_eq_iff split: option.splits)
qed

lemma dict_ok_dupdate [intro, simp]: "dict_ok d \<Longrightarrow> dict_ok (dupdate d e)"
  by (induction e arbitrary: d) (auto simp: dupdate_def)

lemma fold_dset_fresh:
  "distinct (map (f \<circ> fst) ps) \<Longrightarrow> (\<And>p. p \<in> set ps \<Longrightarrow> \<not> dhas d (f (fst p))) \<Longrightarrow>
     fold (\<lambda>(k, v). dset (f k) v) ps d = d @ map (\<lambda>(k, v). (f k, v)) ps"
proof (induction ps arbitrary: d)
  case (Cons p ps)
  have "\<not> dhas (dset (f (fst p)) (snd p) d) (f (fst q))" if "q \<in> set ps" for q
    using that Cons.prems by (auto simp: image_iff)
  then show ?case
    using Cons by (auto simp: case_prod_beta dset_absent)
qed simp

lemma dpop_absent: "\<not> dhas d k \<Longrightarrow> dpop k d = d"
  by (simp add: dhas_iff_keys dkeys_def dpop_def delete_idem)

lemma dupdate_fresh: "dict_ok e \<Longrightarrow> (\<And>k. dhas e k \<Longrightarrow> \<not> dhas d k) \<Longrightarrow> dupdate d e = d @ e"
  using fold_dset_fresh [of id e d] by (auto simp: dupdate_def dict_ok_def dhas_iff_keys dkeys_def)

section \<open>The keyed-table interface\<close>

text \<open>
  What a client of a keyed table relies on: a write is read back, other keys are untouched, a
  removal forgets, and the well-formedness of the table is kept.  The client lemmas are proved
  once, here, and hold of every table of the program by interpretation.
\<close>

locale keyed_table =
  fixes lkp :: "'t \<Rightarrow> 'k \<Rightarrow> 'v option"
    and put :: "'k \<Rightarrow> 'v \<Rightarrow> 't \<Rightarrow> 't"
    and del :: "'k \<Rightarrow> 't \<Rightarrow> 't"
    and ok :: "'t \<Rightarrow> bool"
  assumes lkp_put: "ok t \<Longrightarrow> lkp (put k v t) = (lkp t)(k \<mapsto> v)"
    and lkp_del: "ok t \<Longrightarrow> lkp (del k t) = (lkp t)(k := None)"
    and ok_put: "ok t \<Longrightarrow> ok (put k v t)"
    and ok_del: "ok t \<Longrightarrow> ok (del k t)"
begin

lemmas table_laws = lkp_put lkp_del ok_put ok_del

lemma put_put_last: "ok t \<Longrightarrow> lkp (put k v (put k w t)) = lkp (put k v t)"
  by (simp add: table_laws)

lemma put_swap: "ok t \<Longrightarrow> k \<noteq> k' \<Longrightarrow> lkp (put k v (put k' w t)) = lkp (put k' w (put k v t))"
  by (simp add: table_laws fun_upd_twist)

lemma del_put: "ok t \<Longrightarrow> lkp t k = None \<Longrightarrow> lkp (del k (put k v t)) = lkp t"
  by (auto simp: table_laws)

lemma fold_put_frame:
  "ok t \<Longrightarrow> k \<notin> fst ` set ps \<Longrightarrow> lkp (fold (\<lambda>(a, b). put a b) ps t) k = lkp t k"
  by (induction ps arbitrary: t) (auto simp: table_laws)

lemma fold_del_lkp:
  "ok t \<Longrightarrow> lkp (fold del ks t) k = (if k \<in> set ks then None else lkp t k)"
  by (induction ks arbitrary: t) (auto simp: table_laws)

lemma fold_del_ok: "ok t \<Longrightarrow> ok (fold del ks t)"
  by (induction ks arbitrary: t) (auto simp: table_laws)

end

interpretation dict: keyed_table "map_of :: ('k, 'v) dict \<Rightarrow> 'k \<Rightarrow> 'v option" dset dpop dict_ok
  by unfold_locales (auto simp: dict_simps)

section \<open>Floats that may be infinite\<close>

datatype fnum = Fin real | PInf

instantiation fnum :: linorder
begin

fun less_eq_fnum :: "fnum \<Rightarrow> fnum \<Rightarrow> bool" where
  "less_eq_fnum (Fin a) (Fin b) = (a \<le> b)"
| "less_eq_fnum _ PInf = True"
| "less_eq_fnum PInf (Fin _) = False"

fun less_fnum :: "fnum \<Rightarrow> fnum \<Rightarrow> bool" where
  "less_fnum (Fin a) (Fin b) = (a < b)"
| "less_fnum (Fin _) PInf = True"
| "less_fnum PInf _ = False"

instance
proof
  fix x y z :: fnum
  show "x < y \<longleftrightarrow> x \<le> y \<and> \<not> y \<le> x"
    by (cases x; cases y) auto
  show "x \<le> x"
    by (cases x) auto
  show "x \<le> y \<Longrightarrow> y \<le> z \<Longrightarrow> x \<le> z"
    by (cases x; cases y; cases z) auto
  show "x \<le> y \<Longrightarrow> y \<le> x \<Longrightarrow> x = y"
    by (cases x; cases y) auto
  show "x \<le> y \<or> y \<le> x"
    by (cases x; cases y) auto
qed

end

fun fadd :: "fnum \<Rightarrow> fnum \<Rightarrow> fnum" where
  "fadd (Fin a) (Fin b) = Fin (a + b)"
| "fadd _ _ = PInf"

text \<open>Multiplication by a positive weight, the only product the load score takes.\<close>

fun fscale :: "real \<Rightarrow> fnum \<Rightarrow> fnum" where
  "fscale w (Fin a) = Fin (w * a)"
| "fscale w PInf = PInf"

lemma fadd_mono: "a \<le> b \<Longrightarrow> c \<le> d \<Longrightarrow> fadd a c \<le> fadd b d"
  by (cases a; cases b; cases c; cases d) auto

lemma fadd_PInf [simp]: "fadd x PInf = PInf" "fadd PInf x = PInf"
  by (cases x; simp)+

section \<open>Strings\<close>

definition starts_with :: "string \<Rightarrow> string \<Rightarrow> bool" where
  "starts_with p s = (take (length p) s = p)"

text \<open>\<open>s.partition(sep)\<close>: the text before the first \<open>sep\<close>, whether it was found, the text after.\<close>

fun str_partition :: "string \<Rightarrow> string \<Rightarrow> string \<times> bool \<times> string" where
  "str_partition sep [] = ([], sep = [], [])"
| "str_partition sep (c # s) =
     (if starts_with sep (c # s) then ([], True, drop (length sep) (c # s))
      else (case str_partition sep s of (h, f, t) \<Rightarrow> (c # h, f, t)))"

definition sep2 :: string where "sep2 = ''::''"

definition is_space :: "char \<Rightarrow> bool" where
  "is_space c = (c \<in> {CHR '' '', CHR 0x09, CHR 0x0A, CHR 0x0B, CHR 0x0C, CHR 0x0D,
     CHR 0x1C, CHR 0x1D, CHR 0x1E, CHR 0x1F})"

definition str_lstrip :: "string \<Rightarrow> string" where
  "str_lstrip s = dropWhile is_space s"

definition str_strip :: "string \<Rightarrow> string" where
  "str_strip s = rev (str_lstrip (rev (str_lstrip s)))"

definition char_lower :: "char \<Rightarrow> char" where
  "char_lower c = (let n = of_char c :: nat in if 65 \<le> n \<and> n \<le> 90 then char_of (n + 32) else c)"

definition str_lower :: "string \<Rightarrow> string" where
  "str_lower s = map char_lower s"

text \<open>ASCII letters and digits.\<close>

definition is_digit :: "char \<Rightarrow> bool" where
  "is_digit c = (let n = of_char c :: nat in 48 \<le> n \<and> n \<le> 57)"

definition is_alpha :: "char \<Rightarrow> bool" where
  "is_alpha c = (let n = of_char c :: nat in 65 \<le> n \<and> n \<le> 90 \<or> 97 \<le> n \<and> n \<le> 122)"

definition is_alnum :: "char \<Rightarrow> bool" where
  "is_alnum c = (is_alpha c \<or> is_digit c)"

lemma strip_all_nonspace: "list_all (\<lambda>c. \<not> is_space c) s \<Longrightarrow> str_strip s = s"
proof -
  assume a: "list_all (\<lambda>c. \<not> is_space c) s"
  have "dropWhile is_space t = t" if "list_all (\<lambda>c. \<not> is_space c) t" for t
    using that by (cases t) auto
  then show ?thesis
    using a by (simp add: str_strip_def str_lstrip_def)
qed

section \<open>Exceptions of the HTTP layer\<close>

text \<open>\<open>HTTPException(status_code, detail)\<close>; the detail is kept as a tag of the raise site.\<close>

record http_exc =
  hx_status :: nat
  hx_detail :: string

definition mk_exc :: "nat \<Rightarrow> string \<Rightarrow> http_exc" where
  "mk_exc c d = \<lparr>hx_status = c, hx_detail = d\<rparr>"

lemma mk_exc_sel [simp]: "hx_status (mk_exc c d) = c" "hx_detail (mk_exc c d) = d"
  by (simp_all add: mk_exc_def)

section \<open>Lists\<close>

lemma filter_shrink: "length (filter P xs) < length xs \<longleftrightarrow> (\<exists>x\<in>set xs. \<not> P x)"
  by (metis filter_True length_filter_less less_irrefl)

lemma fold_invariant:
  "I s \<Longrightarrow> (\<And>x s. x \<in> set xs \<Longrightarrow> I s \<Longrightarrow> I (f x s)) \<Longrightarrow> I (fold f xs s)"
  by (induction xs arbitrary: s) auto

end
