(* ===== verification/Group_Config.thy ===== *)
theory Group_Config
  imports Py_Prelude
begin

text \<open>
  The configuration both services read: the data of packages/config-schema/schema.py as it is
  held after parsing, the overlay merges of apps/router-server/src/llm_router/overlay.py and of
  apps/backend/app/services/overlay.py, and the model resolution of llm_router/lora.py.

  A JSON document is a \<open>jval\<close>.  A group keeps the keys the code inspects as fields: \<open>instances\<close>
  and \<open>model_config\<close> may be absent (\<open>None\<close>), \<open>fallback\<close> and \<open>autoscale\<close> may also be the JSON
  null, so they are a \<open>field\<close>.  The two merges are transcribed separately, as the code has them,
  and proved to agree on the model groups.
\<close>

section \<open>JSON values\<close>

datatype jval =
    JNull
  | JBool bool
  | JInt int
  | JFloat real
  | JStr string
  | JList "jval list"
  | JObj "(string \<times> jval) list"

fun truthy :: "jval \<Rightarrow> bool" where
  "truthy JNull = False"
| "truthy (JBool b) = b"
| "truthy (JInt n) = (n \<noteq> 0)"
| "truthy (JFloat r) = (r \<noteq> 0)"
| "truthy (JStr s) = (s \<noteq> [])"
| "truthy (JList xs) = (xs \<noteq> [])"
| "truthy (JObj d) = (d \<noteq> [])"

text \<open>\<open>d.get(k)\<close> on a parsed object: null for a missing key.\<close>

definition jget :: "(string, jval) dict \<Rightarrow> string \<Rightarrow> jval" where
  "jget d k = dget d k JNull"

fun jtext :: "jval \<Rightarrow> string" where
  "jtext (JStr s) = s"
| "jtext _ = []"

fun jopt_text :: "jval \<Rightarrow> string option" where
  "jopt_text (JStr s) = Some s"
| "jopt_text _ = None"

text \<open>\<open>a or b\<close>.\<close>

definition jor :: "jval \<Rightarrow> jval \<Rightarrow> jval" where
  "jor a b = (if truthy a then a else b)"

section \<open>Configuration records\<close>

datatype 'a field = Absent | Null | Val 'a

record inst_cfg =
  ic_id :: string
  ic_host :: "string option"
  ic_port :: int
  ic_extra :: "(string, jval) dict"

record group_cfg =
  gc_instances :: "inst_cfg list option"
  gc_model_config :: "(string, jval) dict option"
  gc_fallback :: "string list field"
  gc_autoscale :: "(string, jval) dict field"

record root_cfg =
  rc_engines :: "(string, group_cfg) dict"
  rc_embedding :: "(string, jval) dict field"
  rc_rest :: "(string, jval) dict"

definition group_instances :: "group_cfg \<Rightarrow> inst_cfg list" where
  "group_instances g = (case gc_instances g of None \<Rightarrow> [] | Some xs \<Rightarrow> xs)"

text \<open>\<open>g.get("model_config") or {}\<close>\<close>

definition group_mc :: "group_cfg \<Rightarrow> (string, jval) dict" where
  "group_mc g = (case gc_model_config g of None \<Rightarrow> [] | Some d \<Rightarrow> d)"

section \<open>Model resolution (lora.py)\<close>

fun is_named_module :: "jval \<Rightarrow> bool" where
  "is_named_module (JObj d) = truthy (jget d ''name'')"
| "is_named_module _ = False"

definition lora_modules :: "group_cfg \<Rightarrow> jval list" where
  "lora_modules g =
     (case jor (jget (group_mc g) ''lora_modules'') (JList []) of
        JList mods \<Rightarrow> filter is_named_module mods
      | _ \<Rightarrow> [])"

fun lora_name :: "jval \<Rightarrow> jval" where
  "lora_name (JObj d) = jget d ''name''"
| "lora_name _ = JNull"

definition engine_kind :: "group_cfg \<Rightarrow> jval" where
  "engine_kind g = jor (jget (group_mc g) ''kind'') (JStr ''chat'')"

record target =
  tg_route_key :: string
  tg_model_cfg :: group_cfg
  tg_forward_name :: jval
  tg_is_lora :: bool
  tg_kind :: jval

definition base_target :: "string \<Rightarrow> group_cfg \<Rightarrow> target" where
  "base_target requested g =
     \<lparr>tg_route_key = requested, tg_model_cfg = g,
      tg_forward_name = dget (group_mc g) ''model_tag'' (JStr requested),
      tg_is_lora = False, tg_kind = engine_kind g\<rparr>"

definition lora_target :: "string \<Rightarrow> string \<Rightarrow> group_cfg \<Rightarrow> target" where
  "lora_target requested grp g =
     \<lparr>tg_route_key = grp, tg_model_cfg = g, tg_forward_name = JStr requested,
      tg_is_lora = True, tg_kind = engine_kind g\<rparr>"

definition serves_lora :: "string \<Rightarrow> group_cfg \<Rightarrow> bool" where
  "serves_lora requested g = (JStr requested \<in> lora_name ` set (lora_modules g))"

text \<open>The loop over the groups, in configuration order, first match wins.\<close>

fun find_lora :: "string \<Rightarrow> (string, group_cfg) dict \<Rightarrow> target option" where
  "find_lora requested [] = None"
| "find_lora requested ((grp, g) # rest) =
     (if serves_lora requested g then Some (lora_target requested grp g)
      else find_lora requested rest)"

definition resolve_model :: "root_cfg \<Rightarrow> string \<Rightarrow> target option" where
  "resolve_model config requested =
     (case map_of (rc_engines config) requested of
        Some g \<Rightarrow> Some (base_target requested g)
      | None \<Rightarrow> find_lora requested (rc_engines config))"

definition fallback_names :: "root_cfg \<Rightarrow> string \<Rightarrow> string list" where
  "fallback_names config key =
     (case map_of (rc_engines config) key of
        None \<Rightarrow> []
      | Some g \<Rightarrow> (case gc_fallback g of Val names \<Rightarrow> names | _ \<Rightarrow> []))"

fun chain_loop ::
  "root_cfg \<Rightarrow> jval \<Rightarrow> string list \<Rightarrow> string list \<Rightarrow> target list \<Rightarrow> target list" where
  "chain_loop config kind [] seen chain = chain"
| "chain_loop config kind (name # names) seen chain =
     (if name \<in> set seen then chain_loop config kind names seen chain
      else case resolve_model config name of
             None \<Rightarrow> chain_loop config kind names seen chain
           | Some t \<Rightarrow>
               (if tg_kind t \<noteq> kind then chain_loop config kind names seen chain
                else chain_loop config kind names (tg_route_key t # seen) (chain @ [t])))"

definition build_route_chain :: "root_cfg \<Rightarrow> target \<Rightarrow> target list" where
  "build_route_chain config primary =
     chain_loop config (tg_kind primary) (fallback_names config (tg_route_key primary))
       [tg_route_key primary] [primary]"

text \<open>A base group row is (id, kind); a LoRA row is (id, parent, kind).\<close>

datatype model_row = BaseRow string jval | LoraRow jval string jval

definition iter_models :: "root_cfg \<Rightarrow> model_row list" where
  "iter_models config =
     concat (map (\<lambda>(grp, g).
        BaseRow grp (engine_kind g) # map (\<lambda>m. LoraRow (lora_name m) grp (JStr ''chat'')) (lora_modules g))
       (rc_engines config))"

section \<open>The router's merge (llm_router/overlay.py)\<close>

text \<open>\<open>{i.get("id"): n for n, i in enumerate(base_instances)}\<close>\<close>

definition idx_by_id :: "inst_cfg list \<Rightarrow> (string, nat) dict" where
  "idx_by_id base = fold (\<lambda>(n, i). dset (ic_id i) n) (enumerate 0 base) []"

fun override_instances :: "(string, nat) dict \<Rightarrow> inst_cfg list \<Rightarrow> inst_cfg list \<Rightarrow> inst_cfg list" where
  "override_instances idx [] base = base"
| "override_instances idx (i # rest) base =
     override_instances idx rest
       (case map_of idx (ic_id i) of Some n \<Rightarrow> base[n := i] | None \<Rightarrow> base @ [i])"

definition router_merge_group :: "group_cfg \<Rightarrow> group_cfg \<Rightarrow> group_cfg" where
  "router_merge_group base entry =
     (let b1 = (case gc_model_config entry of
                  None \<Rightarrow> base
                | Some ov \<Rightarrow> (if ov = [] then base
                             else base\<lparr>gc_model_config := Some (dupdate (group_mc base) ov)\<rparr>));
          b2 = (if gc_fallback entry = Absent then b1 else b1\<lparr>gc_fallback := gc_fallback entry\<rparr>);
          b3 = (if gc_autoscale entry = Absent then b2 else b2\<lparr>gc_autoscale := gc_autoscale entry\<rparr>);
          insts = group_instances b3
      in b3\<lparr>gc_instances :=
              Some (override_instances (idx_by_id insts) (group_instances entry) insts)\<rparr>)"

fun router_merge_engines ::
  "(string, group_cfg) dict \<Rightarrow> (string, group_cfg) dict \<Rightarrow> (string, group_cfg) dict" where
  "router_merge_engines engines [] = engines"
| "router_merge_engines engines ((grp, entry) # rest) =
     router_merge_engines
       (case map_of engines grp of
          None \<Rightarrow> dset grp entry engines
        | Some base \<Rightarrow> dset grp (router_merge_group base entry) engines) rest"

definition router_merge_into :: "root_cfg \<Rightarrow> root_cfg \<Rightarrow> root_cfg" where
  "router_merge_into base overlay =
     base\<lparr>rc_engines := router_merge_engines (rc_engines base) (rc_engines overlay)\<rparr>"

section \<open>The backend's merge (services/overlay.py)\<close>

definition merge_group_cfg :: "group_cfg \<Rightarrow> group_cfg \<Rightarrow> group_cfg" where
  "merge_group_cfg base entry =
     (let b1 = (case gc_model_config entry of
                  None \<Rightarrow> base
                | Some ov \<Rightarrow> (if ov = [] then base
                             else base\<lparr>gc_model_config := Some (dupdate (group_mc base) ov)\<rparr>));
          b2 = (if gc_autoscale entry = Absent then b1 else b1\<lparr>gc_autoscale := gc_autoscale entry\<rparr>);
          b3 = (if gc_fallback entry = Absent then b2 else b2\<lparr>gc_fallback := gc_fallback entry\<rparr>);
          insts = group_instances b3
      in b3\<lparr>gc_instances :=
              Some (override_instances (idx_by_id insts) (group_instances entry) insts)\<rparr>)"

definition merge_engine_step ::
  "string \<times> group_cfg \<Rightarrow> (string, group_cfg) dict \<Rightarrow> (string, group_cfg) dict" where
  "merge_engine_step ge engines =
     (case ge of (grp, entry) \<Rightarrow>
        (case map_of engines grp of
           None \<Rightarrow> dset grp entry engines
         | Some base \<Rightarrow> dset grp (merge_group_cfg base entry) engines))"

definition merge_model_params :: "string \<times> jval \<Rightarrow> (string, jval) dict \<Rightarrow> (string, jval) dict" where
  "merge_model_params np dest =
     (case np of (name, params) \<Rightarrow>
        (case (jget dest name, params) of
           (JObj old, JObj new) \<Rightarrow> dset name (JObj (dupdate old new)) dest
         | _ \<Rightarrow> dset name params dest))"

text \<open>
  \<open>base_emb.setdefault(key, {})\<close>; the schema makes the two model maps objects wherever they are
  present, so the last branch is not reached on a validated base.
\<close>

definition merge_embedding_key :: "string \<times> jval \<Rightarrow> (string, jval) dict \<Rightarrow> (string, jval) dict" where
  "merge_embedding_key kv emb =
     (case kv of (key, val) \<Rightarrow>
        (if key = ''embedding_models'' \<or> key = ''reranking_models'' then
           (case (val, dget emb key (JObj [])) of
              (JObj models, JObj dest) \<Rightarrow> dset key (JObj (fold merge_model_params models dest)) emb
            | _ \<Rightarrow> dset key val emb)
         else dset key val emb))"

definition merge_into :: "root_cfg \<Rightarrow> root_cfg \<Rightarrow> root_cfg" where
  "merge_into base overlay =
     (let merged = base\<lparr>rc_engines := fold merge_engine_step (rc_engines overlay) (rc_engines base)\<rparr>
      in case (rc_embedding overlay, rc_embedding merged) of
           (Val ov, Val emb) \<Rightarrow>
             (if ov \<noteq> [] \<and> emb \<noteq> []
              then merged\<lparr>rc_embedding := Val (fold merge_embedding_key ov emb)\<rparr> else merged)
         | _ \<Rightarrow> merged)"

definition overlay_owns :: "root_cfg \<Rightarrow> string \<Rightarrow> string \<Rightarrow> bool" where
  "overlay_owns overlay grp instance_id =
     (case map_of (rc_engines overlay) grp of
        None \<Rightarrow> False
      | Some entry \<Rightarrow> (\<exists>i \<in> set (group_instances entry). ic_id i = instance_id))"

definition config_owns :: "root_cfg \<Rightarrow> string \<Rightarrow> string \<Rightarrow> bool" where
  "config_owns base_raw grp instance_id =
     (case map_of (rc_engines base_raw) grp of
        None \<Rightarrow> False
      | Some entry \<Rightarrow> (\<exists>i \<in> set (group_instances entry). ic_id i = instance_id))"

text \<open>
  \<open>RootConfig.model_validate\<close> is pydantic's; which documents it accepts is the parameter \<open>valid\<close>.
\<close>

definition build_merged_config ::
  "(root_cfg \<Rightarrow> bool) \<Rightarrow> root_cfg \<Rightarrow> root_cfg \<Rightarrow> root_cfg option" where
  "build_merged_config valid base overlay =
     (let m = merge_into base overlay in if valid m then Some m else None)"


section \<open>Instance override\<close>

definition inst_lookup :: "inst_cfg list \<Rightarrow> string \<Rightarrow> inst_cfg option" where
  "inst_lookup xs k = map_of (map (\<lambda>i. (ic_id i, i)) xs) k"

definition inst_over :: "inst_cfg list \<Rightarrow> inst_cfg \<Rightarrow> inst_cfg" where
  "inst_over ov i = (case inst_lookup ov (ic_id i) of None \<Rightarrow> i | Some j \<Rightarrow> j)"

lemma inst_lookup_Nil [simp]: "inst_lookup [] k = None"
  by (simp add: inst_lookup_def)

lemma inst_lookup_Cons [simp]:
  "inst_lookup (i # xs) k = (if ic_id i = k then Some i else inst_lookup xs k)"
  by (simp add: inst_lookup_def)

lemma inst_lookup_append:
  "inst_lookup (xs @ ys) k = (case inst_lookup xs k of None \<Rightarrow> inst_lookup ys k | Some i \<Rightarrow> Some i)"
  by (induction xs) auto

lemma inst_lookup_id: "inst_lookup xs k = Some i \<Longrightarrow> ic_id i = k \<and> i \<in> set xs"
  by (induction xs) (auto split: if_splits)

lemma inst_lookup_None: "inst_lookup xs k = None \<longleftrightarrow> k \<notin> ic_id ` set xs"
  by (induction xs) auto

lemma inst_lookup_self: "distinct (map ic_id xs) \<Longrightarrow> i \<in> set xs \<Longrightarrow> inst_lookup xs (ic_id i) = Some i"
  by (induction xs) (auto simp: image_iff)

lemma ic_id_inst_over [simp]: "ic_id (inst_over ov i) = ic_id i"
  by (auto simp: inst_over_def dest: inst_lookup_id split: option.split)

lemma map_id_over [simp]: "map ic_id (map (inst_over ov) xs) = map ic_id xs"
  by (induction xs) auto

definition idx_spec :: "(string, nat) dict \<Rightarrow> string list \<Rightarrow> bool" where
  "idx_spec idx ids = (\<forall>k n. map_of idx k = Some n \<longleftrightarrow> n < length ids \<and> ids ! n = k)"

lemma idx_fold:
  "distinct (map ic_id base) \<Longrightarrow> k \<in> ic_id ` set base \<longrightarrow> \<not> dhas d k \<Longrightarrow>
   map_of (fold (\<lambda>(n, i). dset (ic_id i) n) (enumerate m base) d) k = Some n \<longleftrightarrow>
     map_of d k = Some n \<or> (m \<le> n \<and> n < m + length base \<and> ic_id (base ! (n - m)) = k)"
proof (induction base arbitrary: m d)
  case Nil
  then show ?case by auto
next
  case (Cons b base)
  have IH: "map_of (fold (\<lambda>(n, i). dset (ic_id i) n) (enumerate (Suc m) base) (dset (ic_id b) m d)) k = Some n \<longleftrightarrow>
     map_of (dset (ic_id b) m d) k = Some n \<or>
     (Suc m \<le> n \<and> n < Suc m + length base \<and> ic_id (base ! (n - Suc m)) = k)"
    by (rule Cons.IH) (use Cons.prems in \<open>auto simp: image_iff\<close>)
  have eq: "map_of (fold (\<lambda>(n, i). dset (ic_id i) n) (enumerate m (b # base)) d) k = Some n \<longleftrightarrow>
     map_of (dset (ic_id b) m d) k = Some n \<or>
     (Suc m \<le> n \<and> n < Suc m + length base \<and> ic_id (base ! (n - Suc m)) = k)"
    using IH by simp
  have fresh: "ic_id b \<notin> ic_id ` set base"
    using Cons.prems by simp
  consider "n < m" | "n = m" | j where "n = Suc m + j"
    using less_imp_Suc_add [of m n] by (metis add_Suc linorder_neqE_nat)
  then show ?case
  proof cases
    case 1
    then show ?thesis
      unfolding eq using Cons.prems by (auto simp: dhas_def)
  next
    case 2
    then show ?thesis
      unfolding eq using Cons.prems by (auto simp: dhas_def)
  next
    case 3
    have "ic_id (base ! j) \<noteq> ic_id b" if "j < length base"
      using fresh that by (metis image_eqI nth_mem)
    then show ?thesis
      unfolding eq using 3 Cons.prems by (auto simp: dhas_def)
  qed
qed

lemma idx_by_id_spec: "distinct (map ic_id base) \<Longrightarrow> idx_spec (idx_by_id base) (map ic_id base)"
  using idx_fold [of base _ "[]" 0] by (auto simp: idx_spec_def idx_by_id_def dhas_def)

lemma distinct_ids_nth:
  "distinct (map ic_id b) \<Longrightarrow> n < length b \<Longrightarrow> m < length b \<Longrightarrow> ic_id (b ! n) = ic_id (b ! m) \<Longrightarrow> n = m"
  by (metis distinct_conv_nth length_map nth_map)

lemma inst_over_hit:
  assumes "distinct (map ic_id b)" "n < length b" "ic_id (b ! n) = ic_id i" "ic_id i \<notin> ic_id ` set ov"
  shows "map (inst_over ov) (b[n := i]) = map (inst_over (i # ov)) b"
proof (rule nth_equalityI)
  show "length (map (inst_over ov) (b[n := i])) = length (map (inst_over (i # ov)) b)"
    by simp
next
  fix m assume "m < length (map (inst_over ov) (b[n := i]))"
  then have m: "m < length b" by simp
  show "map (inst_over ov) (b[n := i]) ! m = map (inst_over (i # ov)) b ! m"
  proof (cases "m = n")
    case True
    then show ?thesis
      using assms inst_lookup_None [of ov "ic_id i"] by (simp add: inst_over_def)
  next
    case False
    then have "ic_id i \<noteq> ic_id (b ! m)"
      using distinct_ids_nth [OF assms(1) assms(2) m] assms(3) by auto
    then show ?thesis
      using False m by (simp add: inst_over_def)
  qed
qed

lemma override_spec_gen:
  assumes "distinct (map ic_id ov)" "idx_spec idx (map ic_id b)" "distinct (map ic_id b)"
  shows "override_instances idx ov (b @ a) =
         map (inst_over ov) b @ a @ filter (\<lambda>j. ic_id j \<notin> ic_id ` set b) ov"
  using assms
proof (induction ov arbitrary: b a)
  case Nil
  have "inst_over [] = id" by (auto simp: inst_over_def)
  then show ?case by simp
next
  case (Cons i ov)
  have fresh: "ic_id i \<notin> ic_id ` set ov" using Cons.prems(1) by simp
  show ?case
  proof (cases "map_of idx (ic_id i)")
    case None
    have out: "ic_id i \<notin> ic_id ` set b"
    proof
      assume "ic_id i \<in> ic_id ` set b"
      then obtain m where "m < length b" "ic_id (b ! m) = ic_id i"
        by (metis image_iff in_set_conv_nth)
      then have "map_of idx (ic_id i) = Some m"
        using Cons.prems(2) by (simp add: idx_spec_def)
      then show False using None by simp
    qed
    then have "inst_over (i # ov) j = inst_over ov j" if "j \<in> set b" for j
      using that by (auto simp: inst_over_def)
    then have "map (inst_over (i # ov)) b = map (inst_over ov) b"
      by simp
    then show ?thesis
      using None out Cons.IH [of b "a @ [i]"] Cons.prems by simp
  next
    case (Some n)
    then have n: "n < length b" "ic_id (b ! n) = ic_id i"
      using Cons.prems(2) by (auto simp: idx_spec_def)
    have ids: "map ic_id (b[n := i]) = map ic_id b"
      using n by (metis list_update_id map_update)
    then have idset: "ic_id ` set (b[n := i]) = ic_id ` set b"
      by (metis list.set_map)
    have "override_instances idx (i # ov) (b @ a) = override_instances idx ov (b[n := i] @ a)"
      using Some n by (simp add: list_update_append1)
    also have "\<dots> = map (inst_over ov) (b[n := i]) @ a @ filter (\<lambda>j. ic_id j \<notin> ic_id ` set b) ov"
      using Cons.IH [of "b[n := i]" a] Cons.prems ids idset by simp
    also have "map (inst_over ov) (b[n := i]) = map (inst_over (i # ov)) b"
      by (rule inst_over_hit) (use Cons.prems n fresh in auto)
    finally show ?thesis
      using n by (metis (no_types, lifting) filter.simps(2) image_eqI nth_mem)
  qed
qed

lemma override_spec:
  assumes "distinct (map ic_id ov)" "distinct (map ic_id b)"
  shows "override_instances (idx_by_id b) ov b =
         map (inst_over ov) b @ filter (\<lambda>j. ic_id j \<notin> ic_id ` set b) ov"
  using override_spec_gen [OF assms(1) idx_by_id_spec [OF assms(2)] assms(2), of "[]"] by simp

lemma override_ids:
  assumes "distinct (map ic_id ov)" "distinct (map ic_id b)"
  shows "map ic_id (override_instances (idx_by_id b) ov b) =
         map ic_id b @ filter (\<lambda>k. k \<notin> ic_id ` set b) (map ic_id ov)"
    and "distinct (map ic_id (override_instances (idx_by_id b) ov b))"
proof -
  show eq: "map ic_id (override_instances (idx_by_id b) ov b) =
         map ic_id b @ filter (\<lambda>k. k \<notin> ic_id ` set b) (map ic_id ov)"
    by (simp only: override_spec [OF assms] map_append map_id_over) (simp add: filter_map o_def)
  show "distinct (map ic_id (override_instances (idx_by_id b) ov b))"
    unfolding eq using assms by auto
qed

lemma inst_lookup_map_over:
  "inst_lookup (map (inst_over ov) b) k =
     (case inst_lookup b k of None \<Rightarrow> None
      | Some i \<Rightarrow> Some (case inst_lookup ov k of None \<Rightarrow> i | Some j \<Rightarrow> j))"
  by (induction b) (auto simp: inst_over_def split: option.splits dest: inst_lookup_id)

lemma inst_lookup_filter_out:
  "inst_lookup (filter (\<lambda>j. ic_id j \<notin> A) ov) k = (if k \<in> A then None else inst_lookup ov k)"
  by (induction ov) auto

text \<open>What a merged group serves: the overlay's entry for an id, else the base one.\<close>

lemma override_lookup:
  assumes "distinct (map ic_id ov)" "distinct (map ic_id b)"
  shows "inst_lookup (override_instances (idx_by_id b) ov b) k =
         (case inst_lookup ov k of Some j \<Rightarrow> Some j | None \<Rightarrow> inst_lookup b k)"
  unfolding override_spec [OF assms]
  using inst_lookup_None [of b k]
  by (simp add: inst_lookup_append inst_lookup_map_over inst_lookup_filter_out split: option.splits)
    auto

lemma override_idem:
  assumes "distinct (map ic_id ov)" "distinct (map ic_id b)"
  defines "r \<equiv> override_instances (idx_by_id b) ov b"
  shows "override_instances (idx_by_id r) ov r = r"
proof -
  have dr: "distinct (map ic_id r)"
    unfolding r_def by (rule override_ids(2) [OF assms(1,2)])
  have "ic_id ` set r = set (map ic_id r)" by simp
  then have sub: "ic_id ` set ov \<subseteq> ic_id ` set r"
    by (simp only: r_def override_ids(1) [OF assms(1,2)]) auto
  have fixp: "inst_over ov i = i" if "i \<in> set r" for i
    using inst_lookup_self [OF dr that] override_lookup [OF assms(1,2), of "ic_id i", folded r_def]
    by (auto simp: inst_over_def split: option.splits)
  have none: "filter (\<lambda>j. ic_id j \<notin> ic_id ` set r) ov = []"
    using sub by (auto simp: filter_empty_conv)
  have same: "map (inst_over ov) r = r"
    using fixp by (rule map_idI)
  show ?thesis
    unfolding override_spec [OF assms(1) dr] none same by simp
qed

text \<open>The ids a merged list serves need no assumption on duplicates.\<close>

lemma idx_fold_sound:
  "map_of (fold (\<lambda>(n, i). dset (ic_id i) n) (enumerate m base) d) k = Some n \<Longrightarrow>
   map_of d k = Some n \<or> (m \<le> n \<and> n < m + length base \<and> ic_id (base ! (n - m)) = k)"
proof (induction base arbitrary: m d)
  case Nil
  then show ?case by simp
next
  case (Cons b base)
  then have "map_of (dset (ic_id b) m d) k = Some n \<or>
      (Suc m \<le> n \<and> n < Suc m + length base \<and> ic_id (base ! (n - Suc m)) = k)"
    using Cons.IH [of "Suc m" "dset (ic_id b) m d"] by simp
  then show ?case
  proof
    assume "map_of (dset (ic_id b) m d) k = Some n"
    then show ?thesis by (auto split: if_splits)
  next
    assume j: "Suc m \<le> n \<and> n < Suc m + length base \<and> ic_id (base ! (n - Suc m)) = k"
    then have "n - m = Suc (n - Suc m)" by arith
    then show ?thesis using j by simp
  qed
qed

lemma idx_fold_complete:
  "k \<in> ic_id ` set base \<or> dhas d k \<Longrightarrow>
   dhas (fold (\<lambda>(n, i). dset (ic_id i) n) (enumerate m base) d) k"
  by (induction base arbitrary: m d) auto

lemma override_ids_gen:
  assumes "\<And>k n. map_of idx k = Some n \<Longrightarrow> n < length b \<and> ic_id (b ! n) = k"
    and "\<And>k. k \<in> ic_id ` set b \<Longrightarrow> dhas idx k"
  shows "map ic_id (override_instances idx ov (b @ a)) =
         map ic_id b @ map ic_id a @ filter (\<lambda>k. k \<notin> ic_id ` set b) (map ic_id ov)"
  using assms
proof (induction ov arbitrary: b a)
  case Nil
  then show ?case by simp
next
  case (Cons i ov)
  show ?case
  proof (cases "map_of idx (ic_id i)")
    case None
    then have "ic_id i \<notin> ic_id ` set b"
      using Cons.prems(2) [of "ic_id i"] by (auto simp: dhas_def)
    then show ?thesis
      using None Cons.IH [OF Cons.prems, of "a @ [i]"] by simp
  next
    case (Some n)
    then have n: "n < length b" "ic_id (b ! n) = ic_id i"
      using Cons.prems(1) by auto
    have ids: "map ic_id (b[n := i]) = map ic_id b"
      using n by (metis list_update_id map_update)
    then have idset: "ic_id ` set (b[n := i]) = ic_id ` set b"
      by (metis list.set_map)
    have mem: "ic_id i \<in> ic_id ` set b"
      using n by (metis image_eqI nth_mem)
    have "map ic_id (override_instances idx ov (b[n := i] @ a)) =
        map ic_id (b[n := i]) @ map ic_id a @ filter (\<lambda>k. k \<notin> ic_id ` set (b[n := i])) (map ic_id ov)"
    proof (rule Cons.IH)
      fix k m
      assume km: "map_of idx k = Some m"
      then have "m < length b" "ic_id (b ! m) = k"
        using Cons.prems(1) by auto
      then show "m < length (b[n := i]) \<and> ic_id (b[n := i] ! m) = k"
        using n by (cases "m = n") auto
    next
      fix k
      assume "k \<in> ic_id ` set (b[n := i])"
      then show "dhas idx k"
        unfolding idset by (rule Cons.prems(2))
    qed
    then show ?thesis
      using Some n mem unfolding ids idset by (simp add: list_update_append1)
  qed
qed

lemma override_id_set:
  "ic_id ` set (override_instances (idx_by_id b) ov b) = ic_id ` set b \<union> ic_id ` set ov"
proof -
  have ids: "map ic_id (override_instances (idx_by_id b) ov (b @ [])) =
      map ic_id b @ map ic_id ([] :: inst_cfg list) @ filter (\<lambda>k. k \<notin> ic_id ` set b) (map ic_id ov)"
  proof (rule override_ids_gen)
    show "n < length b \<and> ic_id (b ! n) = k" if "map_of (idx_by_id b) k = Some n" for k n
      using idx_fold_sound [of 0 b "[]" k n] that by (simp add: idx_by_id_def)
    show "dhas (idx_by_id b) k" if "k \<in> ic_id ` set b" for k
      using idx_fold_complete [of k b "[]" 0] that by (simp add: idx_by_id_def)
  qed
  have "ic_id ` set (override_instances (idx_by_id b) ov b) =
      set (map ic_id (override_instances (idx_by_id b) ov (b @ [])))"
    by simp
  then show ?thesis
    by (simp only: ids) auto
qed

section \<open>Merging engines\<close>

lemma dset_same: "map_of d k = Some v \<Longrightarrow> dset k v d = d"
  unfolding dset_def by (rule update_triv)

lemma dupdate_absorb: "\<forall>(k, v) \<in> set e. map_of d k = Some v \<Longrightarrow> dupdate d e = d"
  by (induction e) (auto simp: dupdate_def dset_same)

lemma dupdate_idem: "dict_ok e \<Longrightarrow> dupdate (dupdate d e) e = dupdate d e"
  by (rule dupdate_absorb) (auto simp: map_of_dupdate dict_ok_def)

lemma merge_group_agree: "merge_group_cfg base entry = router_merge_group base entry"
  by (cases base) (simp add: merge_group_cfg_def router_merge_group_def group_mc_def group_instances_def
      Let_def split: option.split)

definition merged_group :: "group_cfg option \<Rightarrow> group_cfg \<Rightarrow> group_cfg" where
  "merged_group base entry =
     (case base of None \<Rightarrow> entry | Some b \<Rightarrow> router_merge_group b entry)"

lemma router_merge_fold:
  "router_merge_engines engines ov =
     fold (\<lambda>(g, e) en. dset g (merged_group (map_of en g) e) en) ov engines"
  by (induction engines ov rule: router_merge_engines.induct)
    (auto simp: merged_group_def split: option.split)

lemma merge_engine_step_eq:
  "merge_engine_step (g, e) en = dset g (merged_group (map_of en g) e) en"
  by (simp add: merge_engine_step_def merged_group_def merge_group_agree split: option.split)

lemma merge_fold_agree: "fold merge_engine_step ov en = router_merge_engines en ov"
  unfolding router_merge_fold by (rule fold_cong) (auto simp: merge_engine_step_eq)

lemma rc_engines_merge_into: "rc_engines (merge_into b ov) = router_merge_engines (rc_engines b) (rc_engines ov)"
  by (simp add: merge_into_def Let_def merge_fold_agree split: field.split)

lemma merged_engines_lookup:
  "dict_ok ov \<Longrightarrow> map_of (router_merge_engines en ov) g =
     (case map_of ov g of None \<Rightarrow> map_of en g | Some e \<Rightarrow> Some (merged_group (map_of en g) e))"
proof (induction ov arbitrary: en)
  case Nil
  then show ?case by simp
next
  case (Cons p ov)
  obtain h e where p: "p = (h, e)" by (cases p)
  have ok: "dict_ok ov" and fresh: "map_of ov h = None"
    using Cons.prems p by (auto simp: dict_ok_def map_of_eq_None_iff)
  have step: "router_merge_engines en (p # ov) =
      router_merge_engines (dset h (merged_group (map_of en h) e) en) ov"
    unfolding router_merge_fold p by simp
  show ?case
    unfolding step using Cons.IH [OF ok] fresh by (cases "g = h") (simp_all add: p split: option.split)
qed

lemma group_instances_merge:
  "group_instances (router_merge_group b e) =
     override_instances (idx_by_id (group_instances b)) (group_instances e) (group_instances b)"
  by (simp add: router_merge_group_def Let_def group_instances_def split: option.split)

lemma group_instances_merged:
  "ic_id ` set (group_instances (merged_group b e)) =
     (case b of None \<Rightarrow> {} | Some g \<Rightarrow> ic_id ` set (group_instances g)) \<union>
     ic_id ` set (group_instances e)"
  by (simp add: merged_group_def group_instances_merge override_id_set split: option.split)

lemma gc_model_config_merge:
  "group_mc (router_merge_group b e) = dupdate (group_mc b) (group_mc e)"
  by (simp add: router_merge_group_def Let_def group_mc_def dupdate_def split: option.split)

section \<open>Properties of the merge and of model resolution\<close>

text \<open>
  C9: the router and the backend compute the same model groups from the same file and overlay,
  although each has its own copy of the merge.
\<close>

theorem merges_agree: "rc_engines (router_merge_into base ov) = rc_engines (merge_into base ov)"
  by (simp add: router_merge_into_def rc_engines_merge_into)

text \<open>
  In the merged configuration a group serves exactly the instance ids that the file or the
  overlay declares for it (so removing one of the two never loses the other's replicas).
\<close>

theorem merged_serves_iff:
  assumes "dict_ok (rc_engines ov)"
  shows "config_owns (merge_into base ov) grp iid \<longleftrightarrow> config_owns base grp iid \<or> overlay_owns ov grp iid"
proof -
  have ids: "(\<exists>i \<in> set (group_instances g). ic_id i = iid) \<longleftrightarrow> iid \<in> ic_id ` set (group_instances g)" for g
    by auto
  show ?thesis
    unfolding config_owns_def overlay_owns_def rc_engines_merge_into merged_engines_lookup [OF assms] ids
    by (auto simp: group_instances_merged split: option.splits)
qed

definition demo_inst :: "string \<Rightarrow> int \<Rightarrow> inst_cfg" where
  "demo_inst i p = \<lparr>ic_id = i, ic_host = None, ic_port = p, ic_extra = []\<rparr>"

definition demo_group :: "(string, jval) dict \<Rightarrow> string list \<Rightarrow> inst_cfg list \<Rightarrow> group_cfg" where
  "demo_group mc fb is =
     \<lparr>gc_instances = Some is, gc_model_config = Some mc, gc_fallback = Val fb, gc_autoscale = Absent\<rparr>"

definition demo_root :: "(string, group_cfg) dict \<Rightarrow> root_cfg" where
  "demo_root en = \<lparr>rc_engines = en, rc_embedding = Absent, rc_rest = []\<rparr>"

lemmas demo_defs = demo_inst_def demo_group_def demo_root_def group_instances_def group_mc_def

lemma merged_serves_iff_witness:
  "config_owns (merge_into (demo_root [(''q'', demo_group [] [] [demo_inst ''a'' 1])])
       (demo_root [(''q'', demo_group [] [] [demo_inst ''b'' 2])])) ''q'' ''a''"
  by (subst merged_serves_iff) (simp_all add: demo_defs dict_ok_def config_owns_def overlay_owns_def)

text \<open>
  For the instance the merged group holds under an id, the overlay's declaration wins and a
  base declaration is kept as it was otherwise.
\<close>

theorem merged_instance_lookup:
  assumes "distinct (map ic_id (group_instances entry))" "distinct (map ic_id (group_instances b))"
  shows "inst_lookup (group_instances (merge_group_cfg b entry)) k =
         (case inst_lookup (group_instances entry) k of
            Some j \<Rightarrow> Some j | None \<Rightarrow> inst_lookup (group_instances b) k)"
  unfolding merge_group_agree group_instances_merge by (rule override_lookup [OF assms])

lemma merged_instance_lookup_witness:
  "inst_lookup (group_instances (merge_group_cfg (demo_group [] [] [demo_inst ''a'' 1, demo_inst ''b'' 1])
      (demo_group [] [] [demo_inst ''a'' 9, demo_inst ''c'' 3]))) ''a'' = Some (demo_inst ''a'' 9)"
  by (subst merged_instance_lookup) (simp_all add: demo_defs)

section \<open>Model resolution: lemmas\<close>

lemma find_lora_Some:
  "find_lora r en = Some t \<Longrightarrow>
   \<exists>grp g. (grp, g) \<in> set en \<and> serves_lora r g \<and> t = lora_target r grp g"
proof (induction en)
  case Nil
  then show ?case by simp
next
  case (Cons p en)
  obtain a b where p: "p = (a, b)" by (cases p)
  show ?case
  proof (cases "serves_lora r b")
    case True
    then show ?thesis using Cons.prems p by (intro exI [of _ a] exI [of _ b]) simp
  next
    case False
    then show ?thesis using Cons p by (metis find_lora.simps(2) list.set_intros(2))
  qed
qed

lemma find_lora_None: "find_lora r en = None \<longleftrightarrow> (\<forall>(grp, g) \<in> set en. \<not> serves_lora r g)"
  by (induction en) (auto split: if_splits)

lemma resolve_base: "map_of (rc_engines c) r = Some g \<Longrightarrow> resolve_model c r = Some (base_target r g)"
  by (simp add: resolve_model_def)

lemma resolve_cases:
  assumes "resolve_model c r = Some t"
  obtains (base) g where "map_of (rc_engines c) r = Some g" "t = base_target r g"
  | (lora) grp g where "map_of (rc_engines c) r = None" "(grp, g) \<in> set (rc_engines c)"
      "serves_lora r g" "t = lora_target r grp g"
  using assms find_lora_Some by (fastforce simp: resolve_model_def split: option.splits)

lemma resolve_kind: "resolve_model c r = Some t \<Longrightarrow> tg_kind t = engine_kind (tg_model_cfg t)"
  by (erule resolve_cases) (auto simp: base_target_def lora_target_def)

lemma resolve_not_lora: "resolve_model c r = Some t \<Longrightarrow> \<not> tg_is_lora t \<Longrightarrow> tg_route_key t = r"
  by (erule resolve_cases) (auto simp: base_target_def lora_target_def)

text \<open>
  A resolved name names a configured group whose settings the target carries: itself (a base
  model), or, when no group has that name, a group that serves a LoRA of that name.
\<close>

theorem resolve_model_sound:
  assumes "dict_ok (rc_engines config)" "resolve_model config requested = Some t"
  shows "map_of (rc_engines config) (tg_route_key t) = Some (tg_model_cfg t) \<and>
         tg_kind t = engine_kind (tg_model_cfg t) \<and>
         (if dhas (rc_engines config) requested then \<not> tg_is_lora t \<and> tg_route_key t = requested
          else tg_is_lora t \<and> tg_forward_name t = JStr requested \<and>
               serves_lora requested (tg_model_cfg t))"
  using assms(2)
proof (cases rule: resolve_cases)
  case (base g)
  then show ?thesis by (simp add: base_target_def dhas_def)
next
  case (lora grp g)
  then have "map_of (rc_engines config) grp = Some g"
    using assms(1) by (simp add: dict_ok_def)
  then show ?thesis
    using lora by (simp add: lora_target_def dhas_def)
qed

definition demo_lora :: "string \<Rightarrow> (string, jval) dict" where
  "demo_lora n = [(''lora_modules'', JList [JObj [(''name'', JStr n)]])]"

definition demo_two :: root_cfg where
  "demo_two = demo_root [(''q'', demo_group (demo_lora ''sql'') [''sql'', ''p''] []), (''p'', demo_group [] [] [])]"

lemmas demo_cfg = demo_two_def demo_lora_def demo_defs dict_ok_def resolve_model_def serves_lora_def
  lora_modules_def jor_def jget_def dget_def dhas_def

lemma demo_two_resolves:
  "resolve_model demo_two ''sql'' = Some (lora_target ''sql'' ''q'' (demo_group (demo_lora ''sql'') [''sql'', ''p''] []))"
  "resolve_model demo_two ''p'' = Some (base_target ''p'' (demo_group [] [] []))"
  "dict_ok (rc_engines demo_two)"
  by (simp_all add: demo_cfg)

lemma resolve_model_sound_witness:
  "map_of (rc_engines demo_two) ''q'' = Some (demo_group (demo_lora ''sql'') [''sql'', ''p''] [])"
  using resolve_model_sound [OF demo_two_resolves(3) demo_two_resolves(1)] by (simp add: lora_target_def)

fun row_name :: "model_row \<Rightarrow> jval" where
  "row_name (BaseRow n k) = JStr n"
| "row_name (LoraRow n p k) = n"

lemma row_names_engines:
  "JStr r \<in> set (map row_name (concat (map (\<lambda>(grp, g).
        BaseRow grp (engine_kind g) # map (\<lambda>m. LoraRow (lora_name m) grp (JStr ''chat'')) (lora_modules g)) en)))
   \<longleftrightarrow> r \<in> set (dkeys en) \<or> (\<exists>(grp, g) \<in> set en. serves_lora r g)"
proof (induction en)
  case Nil
  then show ?case by (simp add: dkeys_def)
next
  case (Cons p en)
  obtain grp g where p: "p = (grp, g)" by (cases p)
  show ?case
    using Cons.IH unfolding p by (simp add: dkeys_def serves_lora_def o_def) blast
qed

text \<open>
  \<open>/v1/models\<close> advertises exactly the names that a request can resolve.
\<close>

theorem iter_models_exact:
  "JStr r \<in> row_name ` set (iter_models config) \<longleftrightarrow> resolve_model config r \<noteq> None"
proof -
  have "resolve_model config r \<noteq> None \<longleftrightarrow>
      r \<in> set (dkeys (rc_engines config)) \<or> (\<exists>(grp, g) \<in> set (rc_engines config). serves_lora r g)"
    using find_lora_None [of r "rc_engines config"] dhas_iff_keys [of "rc_engines config" r]
    by (auto simp: resolve_model_def dhas_def split: option.splits)
  also have "\<dots> \<longleftrightarrow> JStr r \<in> row_name ` set (iter_models config)"
    unfolding iter_models_def set_map [symmetric] by (rule row_names_engines [symmetric])
  finally show ?thesis by simp
qed

section \<open>The fallback chain: lemmas\<close>

lemma chain_loop_skip:
  assumes "name \<in> set seen \<or> resolve_model c name = None \<or>
      tg_kind (the (resolve_model c name)) \<noteq> kind"
  shows "chain_loop c kind (name # names) seen chain = chain_loop c kind names seen chain"
  using assms by (auto split: option.split)

lemma chain_loop_take:
  assumes "name \<notin> set seen" "resolve_model c name = Some t" "tg_kind t = kind"
  shows "chain_loop c kind (name # names) seen chain =
         chain_loop c kind names (tg_route_key t # seen) (chain @ [t])"
  using assms by simp

text \<open>What a list of further targets is made of.\<close>

definition drawn_from :: "root_cfg \<Rightarrow> jval \<Rightarrow> string list \<Rightarrow> string list \<Rightarrow> target list \<Rightarrow> bool" where
  "drawn_from c kind names seen ts =
     (\<forall>t \<in> set ts. tg_kind t = kind \<and> (\<exists>n \<in> set names. n \<notin> set seen \<and> resolve_model c n = Some t))"

lemma chain_loop_app:
  "\<exists>ts. chain_loop c kind names seen chain = chain @ ts \<and> drawn_from c kind names seen ts"
proof (induction names arbitrary: seen chain)
  case Nil
  then show ?case by (simp add: drawn_from_def)
next
  case (Cons name names)
  show ?case
  proof (cases "name \<in> set seen \<or> resolve_model c name = None \<or>
      tg_kind (the (resolve_model c name)) \<noteq> kind")
    case True
    obtain ts where "chain_loop c kind names seen chain = chain @ ts" "drawn_from c kind names seen ts"
      using Cons.IH by blast
    then show ?thesis
      unfolding chain_loop_skip [OF True] by (auto simp: drawn_from_def)
  next
    case False
    then obtain t where t: "name \<notin> set seen" "resolve_model c name = Some t" "tg_kind t = kind"
      by auto
    obtain ts where ts: "chain_loop c kind names (tg_route_key t # seen) (chain @ [t]) = (chain @ [t]) @ ts"
      "drawn_from c kind names (tg_route_key t # seen) ts"
      using Cons.IH by blast
    show ?thesis
      unfolding chain_loop_take [OF t] ts(1) using ts(2) t
      by (intro exI [of _ "t # ts"]) (auto simp: drawn_from_def)
  qed
qed

text \<open>Which fallback names are groups of their own (or are not served at all).\<close>

definition plain_fallbacks :: "root_cfg \<Rightarrow> string list \<Rightarrow> bool" where
  "plain_fallbacks c names = (\<forall>n \<in> set names. case resolve_model c n of None \<Rightarrow> True | Some t \<Rightarrow> \<not> tg_is_lora t)"

lemma chain_loop_distinct:
  "plain_fallbacks c names \<Longrightarrow> distinct (map tg_route_key chain) \<Longrightarrow>
   set (map tg_route_key chain) = set seen \<Longrightarrow>
   distinct (map tg_route_key (chain_loop c kind names seen chain))"
proof (induction names arbitrary: seen chain)
  case Nil
  then show ?case by simp
next
  case (Cons name names)
  have plain: "plain_fallbacks c names"
    using Cons.prems(1) by (simp add: plain_fallbacks_def)
  show ?case
  proof (cases "name \<in> set seen \<or> resolve_model c name = None \<or>
      tg_kind (the (resolve_model c name)) \<noteq> kind")
    case True
    show ?thesis
      unfolding chain_loop_skip [OF True] by (rule Cons.IH [OF plain Cons.prems(2,3)])
  next
    case False
    then obtain t where t: "name \<notin> set seen" "resolve_model c name = Some t" "tg_kind t = kind"
      by auto
    have "\<not> tg_is_lora t"
      using Cons.prems(1) t(2) by (simp add: plain_fallbacks_def)
    then have key: "tg_route_key t = name"
      using t(2) resolve_not_lora by blast
    have "tg_route_key t \<notin> set (map tg_route_key chain)"
      using key t(1) Cons.prems(3) by simp
    then show ?thesis
      unfolding chain_loop_take [OF t] using Cons.prems(2,3) by (intro Cons.IH [OF plain]) simp_all
  qed
qed

text \<open>
  A fallback chain begins with the primary, and every later entry is a name of the primary
  group's \<open>fallback\<close> list, resolved, of the primary's kind and not the primary group itself.
\<close>

theorem build_route_chain_sound:
  "\<exists>ts. build_route_chain config primary = primary # ts \<and>
     (\<forall>t \<in> set ts. tg_kind t = tg_kind primary \<and>
        (\<exists>n \<in> set (fallback_names config (tg_route_key primary)).
           n \<noteq> tg_route_key primary \<and> resolve_model config n = Some t))"
  using chain_loop_app [of config "tg_kind primary" "fallback_names config (tg_route_key primary)"
      "[tg_route_key primary]" "[primary]"]
  unfolding build_route_chain_def drawn_from_def by simp

lemma build_route_chain_sound_witness:
  "\<exists>ts. build_route_chain demo_two (lora_target ''sql'' ''q'' (demo_group (demo_lora ''sql'') [''sql'', ''p''] []))
     = lora_target ''sql'' ''q'' (demo_group (demo_lora ''sql'') [''sql'', ''p''] []) # ts"
  using build_route_chain_sound [of demo_two
      "lora_target ''sql'' ''q'' (demo_group (demo_lora ''sql'') [''sql'', ''p''] [])"]
  by blast

text \<open>
  When no fallback name is a LoRA, a request is sent to no group twice.
\<close>

theorem build_route_chain_distinct:
  assumes "plain_fallbacks config (fallback_names config (tg_route_key primary))"
  shows "distinct (map tg_route_key (build_route_chain config primary))"
  unfolding build_route_chain_def by (rule chain_loop_distinct [OF assms]) simp_all

lemma build_route_chain_distinct_witness:
  "distinct (map tg_route_key (build_route_chain demo_two (base_target ''p'' (demo_group [] [] []))))"
  by (rule build_route_chain_distinct)
    (simp add: plain_fallbacks_def fallback_names_def demo_cfg base_target_def)

text \<open>
  The exception.  The chain is deduplicated by the name in the list, not by the group it
  resolves to, so a group whose \<open>fallback\<close> names its own LoRA is tried twice.
\<close>

theorem build_route_chain_lora_duplicate:
  "map tg_route_key (build_route_chain demo_two
      (base_target ''q'' (demo_group (demo_lora ''sql'') [''sql'', ''p''] []))) = [''q'', ''q'', ''p'']"
proof -
  have "fallback_names demo_two ''q'' = [''sql'', ''p'']"
    by (simp add: fallback_names_def demo_cfg)
  then show ?thesis
    by (simp add: build_route_chain_def demo_two_resolves base_target_def lora_target_def)
      (simp add: engine_kind_def demo_cfg)
qed

end
