(* ===== verification/Router_State.thy ===== *)
theory Router_State
  imports Py_Prelude "HOL-Library.Multiset"
begin

text \<open>
  The router's per-backend runtime state: apps/router-server/src/llm_router/backend_runtime_state.py
  over the dictionaries that main.py puts on \<open>app.state\<close>.  \<open>rstate\<close> is \<open>app.state\<close>; every
  operation that reads the clock takes the instant \<open>now\<close> as an argument.  The counters, health
  marks and drain marks are keyed by \<open>group::instance\<close>; the theory proves when that key is
  unambiguous, that the in-flight counter inverts, and that marks expire by themselves.
\<close>

section \<open>State\<close>

text \<open>One scraped metrics record (\<open>VLLMInstanceMetrics\<close>), the fields routing reads.\<close>

record metric =
  mt_running :: fnum
  mt_waiting :: fnum
  mt_kv :: fnum
  mt_prompt_tokens :: fnum
  mt_generation_tokens :: fnum
  mt_is_sleeping :: bool

record health =
  hl_fail_count :: int
  hl_cooldown_until :: real
  hl_last_error :: "string option"

record rstate =
  metrics_cache :: "(string, (string, metric) dict) dict"
  backend_inflight :: "(string, int) dict"
  backend_health :: "(string, health) dict"
  draining :: "(string, real) dict"
  rr_counters :: "(string, nat) dict"
  routing_strategy :: string
  live_addrs :: "(string \<times> string, string \<times> int) dict"

definition INFLIGHT_WEIGHT :: real where "INFLIGHT_WEIGHT = 5"
definition FAIL_OPEN_PENALTY :: real where "FAIL_OPEN_PENALTY = 10 ^ 9"

definition make_backend_key :: "string \<Rightarrow> string \<Rightarrow> string" where
  "make_backend_key model_key instance_id = model_key @ sep2 @ instance_id"

section \<open>In-flight accounting\<close>

definition get_inflight :: "rstate \<Rightarrow> string \<Rightarrow> string \<Rightarrow> int" where
  "get_inflight s m i = dget (backend_inflight s) (make_backend_key m i) 0"

definition incr_inflight :: "rstate \<Rightarrow> string \<Rightarrow> string \<Rightarrow> rstate" where
  "incr_inflight s m i =
     (let key = make_backend_key m i
      in s\<lparr>backend_inflight := dset key (dget (backend_inflight s) key 0 + 1) (backend_inflight s)\<rparr>)"

definition decr_inflight :: "rstate \<Rightarrow> string \<Rightarrow> string \<Rightarrow> rstate" where
  "decr_inflight s m i =
     (let key = make_backend_key m i; current = dget (backend_inflight s) key 0
      in if current \<le> 1 then s\<lparr>backend_inflight := dpop key (backend_inflight s)\<rparr>
         else s\<lparr>backend_inflight := dset key (current - 1) (backend_inflight s)\<rparr>)"

section \<open>Cooldown and health\<close>

definition no_health :: health where
  "no_health = \<lparr>hl_fail_count = 0, hl_cooldown_until = 0, hl_last_error = None\<rparr>"

definition is_backend_in_cooldown :: "real \<Rightarrow> rstate \<Rightarrow> string \<Rightarrow> string \<Rightarrow> bool" where
  "is_backend_in_cooldown now s m i =
     (hl_cooldown_until (dget (backend_health s) (make_backend_key m i) no_health) > now)"

definition mark_backend_failure ::
  "real \<Rightarrow> rstate \<Rightarrow> string \<Rightarrow> string \<Rightarrow> string \<Rightarrow> real \<Rightarrow> rstate" where
  "mark_backend_failure now s m i err cooldown_seconds =
     (let key = make_backend_key m i;
          fail_count = hl_fail_count (dget (backend_health s) key no_health) + 1
      in s\<lparr>backend_health :=
             dset key \<lparr>hl_fail_count = fail_count, hl_cooldown_until = now + cooldown_seconds,
                       hl_last_error = Some err\<rparr> (backend_health s)\<rparr>)"

definition mark_backend_success :: "rstate \<Rightarrow> string \<Rightarrow> string \<Rightarrow> rstate" where
  "mark_backend_success s m i =
     (let key = make_backend_key m i
      in if dhas (backend_health s) key
         then s\<lparr>backend_health :=
                  dset key \<lparr>hl_fail_count = 0, hl_cooldown_until = 0, hl_last_error = None\<rparr>
                    (backend_health s)\<rparr>
         else s)"

section \<open>Graceful drain\<close>

definition mark_draining :: "real \<Rightarrow> rstate \<Rightarrow> string \<Rightarrow> string \<Rightarrow> real \<Rightarrow> rstate" where
  "mark_draining now s m i ttl =
     s\<lparr>draining := dset (make_backend_key m i) (now + ttl) (draining s)\<rparr>"

definition clear_draining :: "rstate \<Rightarrow> string \<Rightarrow> string \<Rightarrow> rstate" where
  "clear_draining s m i = s\<lparr>draining := dpop (make_backend_key m i) (draining s)\<rparr>"

text \<open>Reading a mark drops it when it has expired, so the read also returns the state.\<close>

definition is_draining :: "real \<Rightarrow> rstate \<Rightarrow> string \<Rightarrow> string \<Rightarrow> bool \<times> rstate" where
  "is_draining now s m i =
     (let key = make_backend_key m i
      in case map_of (draining s) key of
           None \<Rightarrow> (False, s)
         | Some expires \<Rightarrow>
             (if expires \<le> now then (False, s\<lparr>draining := dpop key (draining s)\<rparr>)
              else (True, s)))"

section \<open>The backend key\<close>

lemma starts_with_append [simp]: "starts_with p (p @ s)"
  by (simp add: starts_with_def)

text \<open>
  A group name in which the separator cannot begin: no \<open>::\<close> inside, no \<open>:\<close> at the end.
\<close>

fun clean_group :: "string \<Rightarrow> bool" where
  "clean_group [] = True"
| "clean_group [c] = (c \<noteq> CHR '':'')"
| "clean_group (c # d # s) = (\<not> (c = CHR '':'' \<and> d = CHR '':'') \<and> clean_group (d # s))"

lemma clean_group_ConsD: "clean_group (c # s) \<Longrightarrow> clean_group s"
  by (cases s) auto

lemma clean_group_no_sep: "clean_group (c # s) \<Longrightarrow> \<not> starts_with sep2 (c # s @ sep2 @ t)"
  by (cases s) (auto simp: starts_with_def sep2_def)

lemma sep2_Cons: "sep2 @ t = CHR '':'' # CHR '':'' # t"
  by (simp add: sep2_def)

lemma str_partition_sep2: "str_partition sep2 (sep2 @ t) = ([], True, t)"
proof -
  have "starts_with sep2 (CHR '':'' # CHR '':'' # t)"
    using starts_with_append [of sep2 t] by (simp only: sep2_Cons)
  then have "str_partition sep2 (CHR '':'' # CHR '':'' # t)
      = ([], True, drop (length sep2) (CHR '':'' # CHR '':'' # t))"
    by (simp only: str_partition.simps if_True)
  then show ?thesis
    by (simp only: sep2_Cons) (simp add: sep2_def)
qed

lemma str_partition_key:
  "clean_group g \<Longrightarrow> str_partition sep2 (make_backend_key g i) = (g, True, i)"
proof (induction g)
  case Nil
  show ?case using str_partition_sep2 by (simp add: make_backend_key_def)
next
  case (Cons c g)
  have "str_partition sep2 (make_backend_key g i) = (g, True, i)"
    using Cons.IH clean_group_ConsD [OF Cons.prems] .
  then show ?case
    using clean_group_no_sep [OF Cons.prems, of i] by (simp add: make_backend_key_def)
qed

lemma make_backend_key_inj:
  assumes "clean_group g" "clean_group g'" "make_backend_key g i = make_backend_key g' i'"
  shows "g = g' \<and> i = i'"
proof -
  have "(g, True, i) = (g', True, i')"
    by (simp only: str_partition_key [OF assms(1), symmetric]
        str_partition_key [OF assms(2), symmetric] assms(3))
  then show ?thesis by simp
qed

section \<open>The counter interface\<close>

text \<open>
  What the proxy relies on: an increment followed by a decrement of the same backend leaves
  every counter as it was, and backends with another key are untouched.
\<close>

locale inflight_counter =
  fixes ky :: "'k \<Rightarrow> 'b"
    and cnt :: "'s \<Rightarrow> 'k \<Rightarrow> int"
    and inc :: "'k \<Rightarrow> 's \<Rightarrow> 's"
    and dec :: "'k \<Rightarrow> 's \<Rightarrow> 's"
    and cok :: "'s \<Rightarrow> bool"
  assumes cnt_inc: "cnt (inc k s) k' = (if ky k' = ky k then cnt s k + 1 else cnt s k')"
    and cnt_dec: "cok s \<Longrightarrow> cnt (dec k s) k' = (if ky k' = ky k then max 0 (cnt s k - 1) else cnt s k')"
    and cnt_ky: "ky k = ky k' \<Longrightarrow> cnt s k = cnt s k'"
    and cnt_nonneg: "cok s \<Longrightarrow> 0 \<le> cnt s k"
    and cok_inc: "cok s \<Longrightarrow> cok (inc k s)"
    and cok_dec: "cok s \<Longrightarrow> cok (dec k s)"
begin

lemma inc_dec:
  assumes "cok s"
  shows "cnt (dec k (inc k s)) k' = cnt s k'"
  using cnt_nonneg [OF assms, of k] cok_inc [OF assms, of k] cnt_ky [of k' k s]
  by (simp add: cnt_inc cnt_dec)

lemma cok_fold_inc: "cok s \<Longrightarrow> cok (fold inc ks s)"
  by (induction ks arbitrary: s) (auto simp: cok_inc)

lemma cok_fold_dec: "cok s \<Longrightarrow> cok (fold dec ks s)"
  by (induction ks arbitrary: s) (auto simp: cok_dec)

lemma cnt_fold_inc: "cnt (fold inc ks s) k = cnt s k + int (count_list (map ky ks) (ky k))"
  by (induction ks arbitrary: s) (auto simp: cnt_inc intro: cnt_ky)

lemma cnt_fold_dec:
  "cok s \<Longrightarrow> cnt (fold dec ks s) k = max 0 (cnt s k - int (count_list (map ky ks) (ky k)))"
proof (induction ks arbitrary: s)
  case Nil
  then show ?case using cnt_nonneg [of s k] by simp
next
  case (Cons x ks)
  have "cnt (dec x s) k = (if ky k = ky x then max 0 (cnt s k - 1) else cnt s k)"
    using cnt_dec [OF Cons.prems, of x k] cnt_ky [of k x s] by simp
  then show ?case
    using Cons.IH [OF cok_dec [OF Cons.prems, of x]] by (auto simp: max_def)
qed

text \<open>Any set of requests that each start once and finish once, in any order.\<close>

lemma starts_then_finishes:
  assumes "cok s" and "mset (map ky ks) = mset (map ky js)"
  shows "cnt (fold dec js (fold inc ks s)) k = cnt s k"
proof -
  have "count_list (map ky ks) (ky k) = count_list (map ky js) (ky k)"
    using assms(2) by (metis count_mset)
  then show ?thesis
    using cnt_nonneg [OF assms(1), of k]
    by (simp add: cnt_fold_dec cok_fold_inc assms(1) cnt_fold_inc)
qed

end

text \<open>The invariant of the counter map: one entry per key, every entry positive.\<close>

definition inflight_ok :: "rstate \<Rightarrow> bool" where
  "inflight_ok s = (dict_ok (backend_inflight s) \<and> (\<forall>(k, n) \<in> set (backend_inflight s). 0 < n))"

lemma inflight_ok_nonneg: "inflight_ok s \<Longrightarrow> 0 \<le> dget (backend_inflight s) k 0"
  by (auto simp: inflight_ok_def dget_def split: option.splits dest!: map_of_SomeD)

lemma inflight_ok_incr: "inflight_ok s \<Longrightarrow> inflight_ok (incr_inflight s m i)"
  using inflight_ok_nonneg [of s "make_backend_key m i"]
    set_dset_subset [of "make_backend_key m i" _ "backend_inflight s"]
  by (fastforce simp: inflight_ok_def incr_inflight_def Let_def)

lemma inflight_ok_decr: "inflight_ok s \<Longrightarrow> inflight_ok (decr_inflight s m i)"
  using set_dset_subset [of "make_backend_key m i" _ "backend_inflight s"]
    set_dpop_subset [of "make_backend_key m i" "backend_inflight s"]
  by (fastforce simp: inflight_ok_def decr_inflight_def Let_def)

interpretation infl: inflight_counter
  "\<lambda>(m, i). make_backend_key m i" "\<lambda>s (m, i). get_inflight s m i"
  "\<lambda>(m, i) s. incr_inflight s m i" "\<lambda>(m, i) s. decr_inflight s m i" inflight_ok
proof (unfold_locales, goal_cases)
  case (1 k s k')
  show ?case
    by (cases k; cases k') (simp add: get_inflight_def incr_inflight_def Let_def)
next
  case (2 s k k')
  obtain m i m' i' where [simp]: "k = (m, i)" "k' = (m', i')" by (cases k; cases k') auto
  show ?case
    using inflight_ok_nonneg [OF 2, of "make_backend_key m i"]
    by (auto simp: get_inflight_def decr_inflight_def Let_def)
next
  case (3 k k' s)
  then show ?case by (cases k; cases k') (simp add: get_inflight_def)
next
  case (4 s k)
  then show ?case by (cases k) (simp add: get_inflight_def inflight_ok_nonneg)
next
  case (5 s k)
  then show ?case by (cases k) (simp add: inflight_ok_incr)
next
  case (6 s k)
  then show ?case by (cases k) (simp add: inflight_ok_decr)
qed

section \<open>The expiring-mark interface\<close>

text \<open>
  A mark with a time to live: set, it holds strictly before its expiry and at no later instant,
  without any further action; it can be cleared early.  Drain marks in the router's memory and
  the lease tables of the shared store satisfy the same contract.
\<close>

locale expiring_mark =
  fixes marked :: "real \<Rightarrow> 's \<Rightarrow> 'k \<Rightarrow> bool"
    and mark :: "real \<Rightarrow> real \<Rightarrow> 'k \<Rightarrow> 's \<Rightarrow> 's"
    and clear :: "'k \<Rightarrow> 's \<Rightarrow> 's"
  assumes marked_mark: "marked t (mark now ttl k s) k = (t < now + ttl)"
    and marked_clear: "\<not> marked t (clear k s) k"
    and marked_antimono: "marked t s k \<Longrightarrow> t' \<le> t \<Longrightarrow> marked t' s k"
begin

text \<open>Re-marking at least every \<open>ttl\<close> keeps the mark up; stopping the heartbeat lets it lapse.\<close>

lemma heartbeat_keeps: "t \<le> now' \<Longrightarrow> 0 < ttl \<Longrightarrow> marked t (mark now' ttl k (mark now ttl k s)) k"
  by (simp add: marked_mark)

lemma lapses: "now + ttl \<le> t \<Longrightarrow> \<not> marked t (mark now ttl k s) k"
  by (simp add: marked_mark)

lemma stays_lapsed: "\<not> marked t s k \<Longrightarrow> t \<le> t' \<Longrightarrow> \<not> marked t' s k"
  using marked_antimono by blast

end

lemma is_draining_iff:
  "fst (is_draining now s m i) =
     (case map_of (draining s) (make_backend_key m i) of None \<Rightarrow> False | Some e \<Rightarrow> now < e)"
  by (simp add: is_draining_def Let_def split: option.split)

interpretation drain_mark: expiring_mark
  "\<lambda>t s (m, i). fst (is_draining t s m i)" "\<lambda>now ttl (m, i) s. mark_draining now s m i ttl"
  "\<lambda>(m, i) s. clear_draining s m i"
  by unfold_locales
    (auto simp: is_draining_iff mark_draining_def clear_draining_def split: option.splits)

lemma is_draining_frame: "\<exists>d. snd (is_draining now s m i) = s\<lparr>draining := d\<rparr>"
  by (cases "map_of (draining s) (make_backend_key m i)")
    (auto simp: is_draining_def Let_def intro: exI [of _ "draining s"])

text \<open>Reading a mark answers every later read the same way: the self-healing is invisible.\<close>

lemma is_draining_read_pure:
  assumes "now \<le> now'"
  shows "fst (is_draining now' (snd (is_draining now s m i)) m' i') = fst (is_draining now' s m' i')"
  using assms by (auto simp: is_draining_def Let_def split: option.splits)

lemmas mark_defs = mark_backend_failure_def mark_backend_success_def incr_inflight_def
  decr_inflight_def mark_draining_def clear_draining_def

end
