(* ===== verification/Routing_Strategies.thy ===== *)
theory Routing_Strategies
  imports Group_Config Router_State "HOL-Library.List_Lexorder" "HOL-Library.Char_ord"
begin

text \<open>
  apps/router-server/src/llm_router/routing_strategies.py: the load scores, the seven strategies
  with their registry, and the dispatcher \<open>select_instance\<close> with its eligibility filters and error
  branches (and backend_selector.py, its wrapper).  A strategy returns the chosen instance and the
  state, because round robin advances a counter.  The random source is an argument: two numbers
  \<open>(a, b)\<close> stand for the draws of \<open>random.choice\<close> and \<open>random.sample\<close>.  SHA-1 is the parameter
  \<open>hash_key\<close>, the environment's affinity margin the parameter \<open>margin\<close>.
\<close>

section \<open>Scores\<close>

text \<open>\<open>VLLMInstanceMetrics.compute_load_score\<close> with its default weights.\<close>

definition compute_load_score :: "metric \<Rightarrow> fnum" where
  "compute_load_score m =
     fadd (fadd (fscale 10 (mt_waiting m)) (fscale 3 (mt_running m))) (fscale 100 (mt_kv m))"

definition cached_metric :: "rstate \<Rightarrow> string \<Rightarrow> string \<Rightarrow> metric option" where
  "cached_metric s model_key iid = map_of (dget (metrics_cache s) model_key []) iid"

definition cooldown_penalty :: "real \<Rightarrow> rstate \<Rightarrow> string \<Rightarrow> string \<Rightarrow> fnum" where
  "cooldown_penalty now s model_key iid =
     (if is_backend_in_cooldown now s model_key iid then Fin FAIL_OPEN_PENALTY else Fin 0)"

definition inflight_penalty :: "rstate \<Rightarrow> string \<Rightarrow> string \<Rightarrow> fnum" where
  "inflight_penalty s model_key iid = Fin (real_of_int (get_inflight s model_key iid) * INFLIGHT_WEIGHT)"

definition score_instance :: "real \<Rightarrow> rstate \<Rightarrow> string \<Rightarrow> inst_cfg \<Rightarrow> fnum" where
  "score_instance now s model_key i =
     (let base = (case cached_metric s model_key (ic_id i) of
                    None \<Rightarrow> Fin 0 | Some m \<Rightarrow> compute_load_score m)
      in fadd (fadd base (inflight_penalty s model_key (ic_id i)))
           (cooldown_penalty now s model_key (ic_id i)))"

definition is_instance_sleeping :: "rstate \<Rightarrow> string \<Rightarrow> string \<Rightarrow> bool" where
  "is_instance_sleeping s model_key iid =
     (case cached_metric s model_key iid of None \<Rightarrow> False | Some m \<Rightarrow> mt_is_sleeping m)"

definition inflight_score :: "real \<Rightarrow> rstate \<Rightarrow> string \<Rightarrow> inst_cfg \<Rightarrow> fnum" where
  "inflight_score now s model_key i =
     fadd (inflight_penalty s model_key (ic_id i)) (cooldown_penalty now s model_key (ic_id i))"

fun least_loop :: "('a \<Rightarrow> fnum) \<Rightarrow> 'a \<Rightarrow> fnum \<Rightarrow> 'a list \<Rightarrow> 'a" where
  "least_loop score best best_score [] = best"
| "least_loop score best best_score (i # rest) =
     (if score i < best_score then least_loop score i (score i) rest
      else least_loop score best best_score rest)"

definition least_by :: "('a \<Rightarrow> fnum) \<Rightarrow> 'a list \<Rightarrow> 'a" where
  "least_by score candidates =
     least_loop score (hd candidates) (score (hd candidates)) (tl candidates)"

section \<open>Strategies\<close>

record select_ctx =
  sc_app :: rstate
  sc_model_key :: string
  sc_candidates :: "inst_cfg list"
  sc_all_instances :: "inst_cfg list"
  sc_session_key :: "string option"
  sc_prompt_prefix :: "string option"

type_synonym rand = "nat \<times> nat"
type_synonym strategy = "real \<Rightarrow> rand \<Rightarrow> select_ctx \<Rightarrow> inst_cfg \<times> rstate"

definition round_robin :: strategy where
  "round_robin now r ctx =
     (let s = sc_app ctx; n = dget (rr_counters s) (sc_model_key ctx) 0
      in (sc_candidates ctx ! (n mod length (sc_candidates ctx)),
          s\<lparr>rr_counters := dset (sc_model_key ctx) (n + 1) (rr_counters s)\<rparr>))"

definition random_pick :: strategy where
  "random_pick now r ctx =
     (sc_candidates ctx ! (fst r mod length (sc_candidates ctx)), sc_app ctx)"

definition least_inflight :: strategy where
  "least_inflight now r ctx =
     (least_by (inflight_score now (sc_app ctx) (sc_model_key ctx)) (sc_candidates ctx), sc_app ctx)"

definition least_load :: strategy where
  "least_load now r ctx =
     (least_by (score_instance now (sc_app ctx) (sc_model_key ctx)) (sc_candidates ctx), sc_app ctx)"

text \<open>\<open>random.sample(xs, 2)\<close>: two different positions, in the order drawn.\<close>

definition sample2 :: "rand \<Rightarrow> 'a list \<Rightarrow> 'a list" where
  "sample2 r xs =
     (let n = length xs; i = fst r mod n; j = (i + 1 + snd r mod (n - 1)) mod n in [xs ! i, xs ! j])"

definition p2c :: strategy where
  "p2c now r ctx =
     (least_by (score_instance now (sc_app ctx) (sc_model_key ctx)) (sample2 r (sc_candidates ctx)),
      sc_app ctx)"

definition affinity_home :: "(string \<Rightarrow> nat) \<Rightarrow> select_ctx \<Rightarrow> string \<Rightarrow> inst_cfg" where
  "affinity_home hash_key ctx key =
     (let roster = (if sc_all_instances ctx \<noteq> [] then sc_all_instances ctx else sc_candidates ctx);
          ring = sort_key ic_id roster
      in ring ! (hash_key key mod length ring))"

definition affinity :: "(string \<Rightarrow> nat) \<Rightarrow> real \<Rightarrow> string option \<Rightarrow> strategy" where
  "affinity hash_key margin key now r ctx =
     (case key of
        None \<Rightarrow> least_load now r ctx
      | Some k \<Rightarrow>
          if k = [] then least_load now r ctx
          else
            (let home = affinity_home hash_key ctx k;
                 score = score_instance now (sc_app ctx) (sc_model_key ctx);
                 best = least_by score (sc_candidates ctx)
             in if ic_id home \<in> ic_id ` set (sc_candidates ctx)
                   \<and> \<not> is_backend_in_cooldown now (sc_app ctx) (sc_model_key ctx) (ic_id home)
                   \<and> score home \<le> fadd (score best) (Fin margin)
                then (home, sc_app ctx) else (best, sc_app ctx)))"

definition session_affinity :: "(string \<Rightarrow> nat) \<Rightarrow> real \<Rightarrow> strategy" where
  "session_affinity hash_key margin now r ctx = affinity hash_key margin (sc_session_key ctx) now r ctx"

definition prefix_affinity :: "(string \<Rightarrow> nat) \<Rightarrow> real \<Rightarrow> strategy" where
  "prefix_affinity hash_key margin now r ctx = affinity hash_key margin (sc_prompt_prefix ctx) now r ctx"

definition STRATEGIES :: "(string \<Rightarrow> nat) \<Rightarrow> real \<Rightarrow> (string, strategy) dict" where
  "STRATEGIES hash_key margin =
     [(''round_robin'', round_robin),
      (''random'', random_pick),
      (''least_inflight'', least_inflight),
      (''least_load'', least_load),
      (''p2c'', p2c),
      (''session_affinity'', session_affinity hash_key margin),
      (''prefix_affinity'', prefix_affinity hash_key margin)]"

definition strategy_fn :: "(string \<Rightarrow> nat) \<Rightarrow> real \<Rightarrow> string option \<Rightarrow> strategy" where
  "strategy_fn hash_key margin name =
     dget (STRATEGIES hash_key margin)
       (case name of None \<Rightarrow> ''least_load'' | Some n \<Rightarrow> if n = [] then ''least_load'' else n)
       least_load"

section \<open>The dispatcher\<close>

text \<open>The comprehension over \<open>is_draining\<close>: every read may drop an expired mark.\<close>

fun not_draining :: "real \<Rightarrow> string \<Rightarrow> inst_cfg list \<Rightarrow> rstate \<Rightarrow> inst_cfg list \<times> rstate" where
  "not_draining now model_key [] s = ([], s)"
| "not_draining now model_key (i # rest) s =
     (let (d, s1) = is_draining now s model_key (ic_id i);
          (kept, s2) = not_draining now model_key rest s1
      in (if d then kept else i # kept, s2))"

definition eligible :: "rstate \<Rightarrow> string \<Rightarrow> string set \<Rightarrow> inst_cfg list \<Rightarrow> inst_cfg list" where
  "eligible s model_key exclude instances =
     filter (\<lambda>i. \<not> is_instance_sleeping s model_key (ic_id i))
       (filter (\<lambda>i. ic_id i \<notin> exclude) instances)"

definition select_instance ::
  "(string \<Rightarrow> nat) \<Rightarrow> real \<Rightarrow> real \<Rightarrow> rand \<Rightarrow> rstate \<Rightarrow> string \<Rightarrow> group_cfg \<Rightarrow> string option \<Rightarrow>
   string set \<Rightarrow> string option \<Rightarrow> string option \<Rightarrow> (http_exc + inst_cfg) \<times> rstate" where
  "select_instance hash_key margin now r s model_key cfg strategy exclude session_key prompt_prefix =
     (let instances = group_instances cfg in
      if instances = [] then (Inl (mk_exc 500 ''no instances configured''), s)
      else if filter (\<lambda>i. ic_id i \<notin> exclude) instances = []
      then (Inl (mk_exc 503 ''No remaining instance''), s)
      else
        let awake = eligible s model_key exclude instances in
        if awake = [] then (Inl (mk_exc 503 ''all asleep''), s)
        else
          let (nd, s1) = not_draining now model_key awake s;
              candidates = (if nd \<noteq> [] then nd else awake)
          in if length candidates = 1 then (Inr (hd candidates), s1)
             else
               let ctx = \<lparr>sc_app = s1, sc_model_key = model_key, sc_candidates = candidates,
                          sc_all_instances = instances, sc_session_key = session_key,
                          sc_prompt_prefix = prompt_prefix\<rparr>;
                   (chosen, s2) = strategy_fn hash_key margin strategy now r ctx
               in (Inr chosen, s2))"

definition select_instance_least_load ::
  "(string \<Rightarrow> nat) \<Rightarrow> real \<Rightarrow> real \<Rightarrow> rand \<Rightarrow> rstate \<Rightarrow> string \<Rightarrow> group_cfg \<Rightarrow> string set \<Rightarrow>
   (http_exc + inst_cfg) \<times> rstate" where
  "select_instance_least_load hash_key margin now r s model_key cfg exclude =
     select_instance hash_key margin now r s model_key cfg (Some ''least_load'') exclude None None"

section \<open>Minimum with first-wins ties\<close>

text \<open>The first of the least elements: strictly below everything before it.\<close>

definition first_least :: "('a \<Rightarrow> fnum) \<Rightarrow> 'a list \<Rightarrow> 'a \<Rightarrow> bool" where
  "first_least score xs r =
     (\<exists>pre post. xs = pre @ r # post \<and> (\<forall>x \<in> set pre. score r < score x) \<and>
        (\<forall>x \<in> set post. score r \<le> score x))"

lemma first_leastI:
  "xs = pre @ r # post \<Longrightarrow> \<forall>x \<in> set pre. score r < score x \<Longrightarrow> \<forall>x \<in> set post. score r \<le> score x \<Longrightarrow>
   first_least score xs r"
  by (auto simp: first_least_def)

lemma first_least_mem: "first_least score xs r \<Longrightarrow> r \<in> set xs"
  by (auto simp: first_least_def)

lemma first_least_le: "first_least score xs r \<Longrightarrow> x \<in> set xs \<Longrightarrow> score r \<le> score x"
  by (auto simp: first_least_def order_le_less)

lemma least_loop_first: "first_least score (b # xs) (least_loop score b (score b) xs)"
proof (induction xs arbitrary: b)
  case Nil
  show ?case unfolding first_least_def by (intro exI [of _ "[]"]) simp
next
  case (Cons y ys)
  show ?case
  proof (cases "score y < score b")
    case True
    let ?r = "least_loop score y (score y) ys"
    obtain pre post where pp: "y # ys = pre @ ?r # post" "\<forall>x \<in> set pre. score ?r < score x"
      "\<forall>x \<in> set post. score ?r \<le> score x"
      using Cons.IH [of y] unfolding first_least_def by blast
    have "score ?r < score b"
      using first_least_le [OF Cons.IH [of y], of y] True by simp
    then have "first_least score (b # y # ys) ?r"
      using pp by (intro first_leastI [of _ "b # pre" _ post]) simp_all
    then show ?thesis
      using True by simp
  next
    case False
    let ?r = "least_loop score b (score b) ys"
    obtain pre post where pp: "b # ys = pre @ ?r # post" "\<forall>x \<in> set pre. score ?r < score x"
      "\<forall>x \<in> set post. score ?r \<le> score x"
      using Cons.IH [of b] unfolding first_least_def by blast
    have by': "score b \<le> score y" using False by simp
    show ?thesis
    proof (cases pre)
      case Nil
      then have "?r = b" "post = ys" using pp(1) by (metis append_Nil list.inject)+
      then show ?thesis
        using False by' pp(3) by (intro first_leastI [of _ "[]" _ "y # ys"]) simp_all
    next
      case (Cons c pre')
      then have "c = b" "ys = pre' @ ?r # post" "score ?r < score b"
        using pp by auto
      then show ?thesis
        using False by' pp(2,3) Cons
        by (intro first_leastI [of _ "b # y # pre'" _ post]) (auto intro: less_le_trans)
    qed
  qed
qed

lemma least_by_first: "xs \<noteq> [] \<Longrightarrow> first_least score xs (least_by score xs)"
  using least_loop_first [of score "hd xs" "tl xs"] by (simp add: least_by_def)

lemmas least_by_mem = first_least_mem [OF least_by_first]
lemmas least_by_le = first_least_le [OF least_by_first]

section \<open>The selector interface\<close>

text \<open>
  What the dispatcher promises a strategy, and what a strategy promises back: the pick is one of
  the group's instances, its id is among the candidates', and the state is untouched but for the
  round-robin counters.
\<close>

definition ctx_ok :: "select_ctx \<Rightarrow> bool" where
  "ctx_ok ctx = (2 \<le> length (sc_candidates ctx) \<and> set (sc_candidates ctx) \<subseteq> set (sc_all_instances ctx))"

locale selector =
  fixes pick :: strategy
  assumes pick_id: "ctx_ok ctx \<Longrightarrow> ic_id (fst (pick now r ctx)) \<in> ic_id ` set (sc_candidates ctx)"
    and pick_roster: "ctx_ok ctx \<Longrightarrow> fst (pick now r ctx) \<in> set (sc_all_instances ctx)"
    and pick_frame: "\<exists>rr. snd (pick now r ctx) = (sc_app ctx)\<lparr>rr_counters := rr\<rparr>"
begin

text \<open>A property of ids that every candidate has, the pick has.\<close>

lemma pick_property:
  assumes "ctx_ok ctx" and "\<And>i. i \<in> set (sc_candidates ctx) \<Longrightarrow> P (ic_id i)"
  shows "P (ic_id (fst (pick now r ctx)))"
  using pick_id [OF assms(1), of now r] assms(2) by auto

lemma pick_draining: "draining (snd (pick now r ctx)) = draining (sc_app ctx)"
  using pick_frame [of now r ctx] by auto

end

lemma ctx_ok_nonempty: "ctx_ok ctx \<Longrightarrow> sc_candidates ctx \<noteq> []"
  by (auto simp: ctx_ok_def)

lemma selector_of_mem:
  assumes "\<And>ctx now r. ctx_ok ctx \<Longrightarrow> fst (f now r ctx) \<in> set (sc_candidates ctx)"
    and "\<And>ctx now r. \<exists>rr. snd (f now r ctx) = (sc_app ctx)\<lparr>rr_counters := rr\<rparr>"
  shows "selector f"
proof
  fix ctx :: select_ctx and now r
  assume ok: "ctx_ok ctx"
  show "ic_id (fst (f now r ctx)) \<in> ic_id ` set (sc_candidates ctx)"
    using assms(1) [OF ok] by blast
  show "fst (f now r ctx) \<in> set (sc_all_instances ctx)"
    using assms(1) [OF ok] ok unfolding ctx_ok_def by blast
qed (rule assms(2))

lemma ctx_frame_refl: "\<exists>rr. s = s\<lparr>rr_counters := rr\<rparr>"
  by (rule exI [of _ "rr_counters s"]) simp

lemma sample2_mem: "2 \<le> length xs \<Longrightarrow> set (sample2 r xs) \<subseteq> set xs"
  by (auto simp: sample2_def Let_def intro!: nth_mem mod_less_divisor)

lemma least_load_mem: "ctx_ok ctx \<Longrightarrow> fst (least_load now r ctx) \<in> set (sc_candidates ctx)"
  by (simp add: least_load_def least_by_mem ctx_ok_nonempty)

lemma affinity_home_mem:
  assumes "ctx_ok ctx"
  shows "affinity_home h ctx k \<in> set (sc_all_instances ctx)"
proof -
  have "sc_all_instances ctx \<noteq> []"
    using assms by (auto simp: ctx_ok_def)
  moreover from this have "h k mod length (sort_key ic_id (sc_all_instances ctx)) <
      length (sort_key ic_id (sc_all_instances ctx))"
    by (intro mod_less_divisor) simp
  ultimately show ?thesis
    using nth_mem [of "h k mod length (sort_key ic_id (sc_all_instances ctx))"
        "sort_key ic_id (sc_all_instances ctx)"]
    by (simp add: affinity_home_def Let_def)
qed

lemma affinity_cases:
  obtains (least) "affinity h m key now r ctx = least_load now r ctx"
  | (home) k where "key = Some k" "affinity h m key now r ctx = (affinity_home h ctx k, sc_app ctx)"
    "ic_id (affinity_home h ctx k) \<in> ic_id ` set (sc_candidates ctx)"
proof (cases key)
  case None
  then show ?thesis by (intro that(1)) (simp add: affinity_def)
next
  case (Some k)
  show ?thesis
  proof (cases "affinity h m key now r ctx = least_load now r ctx")
    case True
    then show ?thesis by (rule least)
  next
    case False
    then show ?thesis
      by (intro home [OF Some]) (auto simp: affinity_def Let_def least_load_def Some split: if_splits)
  qed
qed

lemma affinity_selector: "selector (affinity h m key)"
proof
  fix ctx :: select_ctx and now r
  assume ok: "ctx_ok ctx"
  have sub: "set (sc_candidates ctx) \<subseteq> set (sc_all_instances ctx)"
    using ok by (simp add: ctx_ok_def)
  show "ic_id (fst (affinity h m key now r ctx)) \<in> ic_id ` set (sc_candidates ctx)"
    using least_load_mem [OF ok, of now r] by (cases rule: affinity_cases [of h m key now r ctx]) auto
  show "fst (affinity h m key now r ctx) \<in> set (sc_all_instances ctx)"
    using least_load_mem [OF ok, of now r] sub affinity_home_mem [OF ok, of h]
    by (cases rule: affinity_cases [of h m key now r ctx]) auto
next
  fix ctx :: select_ctx and now r
  show "\<exists>rr. snd (affinity h m key now r ctx) = (sc_app ctx)\<lparr>rr_counters := rr\<rparr>"
    by (cases rule: affinity_cases [of h m key now r ctx]) (auto simp: least_load_def ctx_frame_refl)
qed

interpretation rr: selector round_robin
  by (rule selector_of_mem) (auto simp: round_robin_def Let_def dest: ctx_ok_nonempty intro!: nth_mem)

interpretation rnd: selector random_pick
  by (rule selector_of_mem)
    (auto simp: random_pick_def ctx_frame_refl dest: ctx_ok_nonempty intro!: nth_mem)

interpretation li: selector least_inflight
  by (rule selector_of_mem)
    (auto simp: least_inflight_def ctx_frame_refl least_by_mem ctx_ok_nonempty)

interpretation ll: selector least_load
  by (rule selector_of_mem) (auto simp: least_load_mem, auto simp: least_load_def ctx_frame_refl)

interpretation p2: selector p2c
proof (rule selector_of_mem)
  fix ctx :: select_ctx and now r
  assume "ctx_ok ctx"
  then have "set (sample2 r (sc_candidates ctx)) \<subseteq> set (sc_candidates ctx)"
    by (intro sample2_mem) (simp add: ctx_ok_def)
  moreover have "sample2 r (sc_candidates ctx) \<noteq> []"
    by (simp add: sample2_def Let_def)
  ultimately show "fst (p2c now r ctx) \<in> set (sc_candidates ctx)"
    using least_by_mem by (fastforce simp: p2c_def)
qed (simp add: p2c_def ctx_frame_refl)

interpretation sess: selector "session_affinity h m"
  using affinity_selector [of h m] unfolding selector_def session_affinity_def by blast

interpretation pref: selector "prefix_affinity h m"
  using affinity_selector [of h m] unfolding selector_def prefix_affinity_def by blast

lemma strategy_fn_selector: "selector (strategy_fn h m name)"
proof -
  have "dget (STRATEGIES h m) n least_load \<in>
      {round_robin, random_pick, least_inflight, least_load, p2c, session_affinity h m, prefix_affinity h m}" for n
    by (simp add: STRATEGIES_def dget_def)
  then have "strategy_fn h m name \<in>
      {round_robin, random_pick, least_inflight, least_load, p2c, session_affinity h m, prefix_affinity h m}"
    by (simp only: strategy_fn_def)
  then show ?thesis
    using rr.selector_axioms rnd.selector_axioms li.selector_axioms ll.selector_axioms
      p2.selector_axioms sess.selector_axioms pref.selector_axioms by auto
qed

section \<open>Draining candidates\<close>

lemma not_draining_result:
  "fst (not_draining now m is s) = filter (\<lambda>i. \<not> fst (is_draining now s m (ic_id i))) is"
proof (induction "is" arbitrary: s)
  case Nil
  then show ?case by simp
next
  case (Cons i rest)
  then show ?case
    using is_draining_read_pure [of now now s m "ic_id i"] by (simp add: split_beta Let_def)
qed

lemma not_draining_frame:
  "\<exists>d. snd (not_draining now m is s) = s\<lparr>draining := d\<rparr>"
proof (induction "is" arbitrary: s)
  case Nil
  then show ?case by (auto intro: exI [of _ "draining s"])
next
  case (Cons i rest)
  obtain d where d: "snd (is_draining now s m (ic_id i)) = s\<lparr>draining := d\<rparr>"
    using is_draining_frame by blast
  obtain e where "snd (not_draining now m rest (s\<lparr>draining := d\<rparr>)) = s\<lparr>draining := d\<rparr>\<lparr>draining := e\<rparr>"
    using Cons.IH by blast
  then show ?case
    using d by (auto simp: split_beta Let_def)
qed

section \<open>Shape of a selection\<close>

text \<open>The candidates a strategy sees: the awake ones, less the draining ones if any remains.\<close>

definition routable :: "real \<Rightarrow> rstate \<Rightarrow> string \<Rightarrow> string set \<Rightarrow> inst_cfg list \<Rightarrow> inst_cfg list" where
  "routable now s m exclude is =
     (let awake = eligible s m exclude is;
          nd = filter (\<lambda>i. \<not> fst (is_draining now s m (ic_id i))) awake
      in if nd \<noteq> [] then nd else awake)"

definition select_context ::
  "real \<Rightarrow> rstate \<Rightarrow> string \<Rightarrow> string set \<Rightarrow> inst_cfg list \<Rightarrow> string option \<Rightarrow> string option \<Rightarrow> select_ctx" where
  "select_context now s m exclude is sk pp =
     \<lparr>sc_app = snd (not_draining now m (eligible s m exclude is) s), sc_model_key = m,
      sc_candidates = routable now s m exclude is, sc_all_instances = is,
      sc_session_key = sk, sc_prompt_prefix = pp\<rparr>"

lemma eligible_subset: "set (eligible s m ex is) \<subseteq> set is"
  by (auto simp: eligible_def)

lemma routable_subset: "set (routable now s m ex is) \<subseteq> set (eligible s m ex is)"
  by (auto simp: routable_def Let_def)

lemma routable_empty: "routable now s m ex is = [] \<longleftrightarrow> eligible s m ex is = []"
  by (auto simp: routable_def Let_def)

lemma select_context_ok:
  "2 \<le> length (routable now s m ex is) \<Longrightarrow> ctx_ok (select_context now s m ex is sk pp)"
  using routable_subset [of now s m ex "is"] eligible_subset [of s m ex "is"]
  by (auto simp: ctx_ok_def select_context_def)

lemma select_ok_shape:
  assumes "eligible s m ex (group_instances cfg) \<noteq> []"
    and "c = select_context now s m ex (group_instances cfg) sk pp"
  shows "select_instance h mg now r s m cfg st ex sk pp =
     (if length (sc_candidates c) = 1 then (Inr (hd (sc_candidates c)), sc_app c)
      else (Inr (fst (strategy_fn h mg st now r c)), snd (strategy_fn h mg st now r c)))"
proof -
  have ne: "group_instances cfg \<noteq> []" "filter (\<lambda>i. ic_id i \<notin> ex) (group_instances cfg) \<noteq> []"
    using assms(1) by (auto simp: eligible_def simp del: filter_filter)
  then show ?thesis
    using assms not_draining_result [of now m "eligible s m ex (group_instances cfg)" s]
    by (simp add: select_instance_def Let_def split_beta select_context_def routable_def)
qed

lemma select_err_shape:
  assumes "eligible s m ex (group_instances cfg) = []"
  shows "select_instance h mg now r s m cfg st ex sk pp =
     (Inl (if group_instances cfg = [] then mk_exc 500 ''no instances configured''
           else if filter (\<lambda>i. ic_id i \<notin> ex) (group_instances cfg) = [] then mk_exc 503 ''No remaining instance''
           else mk_exc 503 ''all asleep''), s)"
  using assms by (simp add: select_instance_def Let_def)

lemma length_cases: "xs \<noteq> [] \<Longrightarrow> length xs = 1 \<or> 2 \<le> length xs"
  by (cases xs) (auto simp: Suc_le_eq)

text \<open>Whatever every routable instance's id satisfies, the chosen one's id satisfies.\<close>

lemma select_property:
  assumes "fst (select_instance h mg now r s m cfg st ex sk pp) = Inr i"
    and "\<And>j. j \<in> set (routable now s m ex (group_instances cfg)) \<Longrightarrow> P (ic_id j)"
  shows "P (ic_id i) \<and> i \<in> set (group_instances cfg)"
proof -
  let ?c = "select_context now s m ex (group_instances cfg) sk pp"
  have ne: "eligible s m ex (group_instances cfg) \<noteq> []"
    using assms(1) select_err_shape [of s m ex cfg] by fastforce
  then have cne: "sc_candidates ?c \<noteq> []"
    by (simp add: select_context_def routable_empty)
  have cs: "sc_candidates ?c = routable now s m ex (group_instances cfg)"
    by (simp add: select_context_def)
  show ?thesis
  proof (cases "length (sc_candidates ?c) = 1")
    case True
    then have i: "i = hd (sc_candidates ?c)"
      using assms(1) by (simp add: select_ok_shape [OF ne refl])
    then have "i \<in> set (sc_candidates ?c)" using cne by simp
    then show ?thesis
      using assms(2) routable_subset eligible_subset unfolding cs by blast
  next
    case False
    then have ok: "ctx_ok ?c"
      using length_cases [OF cne] cs select_context_ok by metis
    have i: "i = fst (strategy_fn h mg st now r ?c)"
      using False assms(1) by (simp add: select_ok_shape [OF ne refl])
    have "P (ic_id i)"
      unfolding i by (rule selector.pick_property [OF strategy_fn_selector ok])
        (use assms(2) cs in auto)
    moreover have "i \<in> set (group_instances cfg)"
      using selector.pick_roster [OF strategy_fn_selector ok, of h mg st now r]
      by (simp add: i select_context_def)
    ultimately show ?thesis by simp
  qed
qed

section \<open>Properties\<close>

text \<open>
  C3: the instance the dispatcher returns, under every strategy, is configured for the group, was
  not excluded by the failover loop and is not asleep; and if some eligible instance is not
  draining, the chosen one is not draining.
\<close>

theorem select_instance_safe:
  assumes "fst (select_instance hash_key margin now r s m cfg strategy exclude sk pp) = Inr i"
  shows "i \<in> set (group_instances cfg) \<and> ic_id i \<notin> exclude \<and>
         \<not> is_instance_sleeping s m (ic_id i) \<and>
         ((\<exists>j \<in> set (eligible s m exclude (group_instances cfg)). \<not> fst (is_draining now s m (ic_id j))) \<longrightarrow>
            \<not> fst (is_draining now s m (ic_id i)))"
proof -
  let ?is = "group_instances cfg"
  let ?P = "\<lambda>k. k \<notin> exclude \<and> \<not> is_instance_sleeping s m k \<and>
      ((\<exists>j \<in> set (eligible s m exclude ?is). \<not> fst (is_draining now s m (ic_id j))) \<longrightarrow>
            \<not> fst (is_draining now s m k))"
  have "?P (ic_id j)" if "j \<in> set (routable now s m exclude ?is)" for j
  proof -
    have "filter (\<lambda>i. \<not> fst (is_draining now s m (ic_id i))) (eligible s m exclude ?is) = [] \<or>
        \<not> fst (is_draining now s m (ic_id j))"
      using that by (auto simp: routable_def Let_def split: if_splits)
    moreover have "j \<in> set (eligible s m exclude ?is)"
      using that routable_subset by blast
    ultimately show ?thesis
      by (auto simp: eligible_def filter_empty_conv)
  qed
  then show ?thesis
    using select_property [OF assms, of ?P] by simp
qed

text \<open>
  Selection fails exactly when no instance is both untried and awake, and the status tells the
  cases apart: 500 for a group without instances, 503 when all were tried or all are asleep.
\<close>

theorem select_instance_errors:
  "(case fst (select_instance hash_key margin now r s m cfg strategy exclude sk pp) of
      Inr i \<Rightarrow> eligible s m exclude (group_instances cfg) \<noteq> []
    | Inl e \<Rightarrow> eligible s m exclude (group_instances cfg) = [] \<and>
        snd (select_instance hash_key margin now r s m cfg strategy exclude sk pp) = s \<and>
        hx_status e = (if group_instances cfg = [] then 500 else 503))"
proof (cases "eligible s m exclude (group_instances cfg) = []")
  case True
  then show ?thesis by (simp add: select_err_shape)
next
  case False
  then show ?thesis by (simp add: select_ok_shape [OF False refl])
qed

section \<open>What each strategy guarantees: lemmas\<close>

lemma cached_metric_frame: "cached_metric (s\<lparr>draining := d\<rparr>) m k = cached_metric s m k"
  by (simp add: cached_metric_def)

lemma score_frame: "score_instance now (s\<lparr>draining := d\<rparr>) m = score_instance now s m"
  by (simp add: fun_eq_iff score_instance_def cached_metric_def inflight_penalty_def get_inflight_def
      cooldown_penalty_def is_backend_in_cooldown_def)

lemma cooldown_frame: "is_backend_in_cooldown now (s\<lparr>draining := d\<rparr>) m k = is_backend_in_cooldown now s m k"
  by (simp add: is_backend_in_cooldown_def)

lemma select_context_app:
  "\<exists>d. sc_app (select_context now s m ex is sk pp) = s\<lparr>draining := d\<rparr>"
  using not_draining_frame by (simp add: select_context_def)

lemma select_context_score:
  "score_instance now (sc_app (select_context now s m ex is sk pp)) m = score_instance now s m"
  using select_context_app [of now s m ex "is" sk pp] score_frame by fastforce

lemma select_context_sel [simp]:
  "sc_candidates (select_context now s m ex is sk pp) = routable now s m ex is"
  "sc_all_instances (select_context now s m ex is sk pp) = is"
  "sc_model_key (select_context now s m ex is sk pp) = m"
  "sc_session_key (select_context now s m ex is sk pp) = sk"
  "sc_prompt_prefix (select_context now s m ex is sk pp) = pp"
  by (simp_all add: select_context_def)

lemma strategy_fn_simps [simp]:
  "strategy_fn h mg None = least_load"
  "strategy_fn h mg (Some ''least_load'') = least_load"
  "strategy_fn h mg (Some ''round_robin'') = round_robin"
  "strategy_fn h mg (Some ''p2c'') = p2c"
  "strategy_fn h mg (Some ''session_affinity'') = session_affinity h mg"
  "strategy_fn h mg (Some ''prefix_affinity'') = prefix_affinity h mg"
  by (simp_all add: strategy_fn_def STRATEGIES_def dget_def)

lemma select_unknown_strategy:
  "n \<noteq> [] \<Longrightarrow> \<not> dhas (STRATEGIES h mg) n \<Longrightarrow> strategy_fn h mg (Some n) = least_load"
  by (simp add: strategy_fn_def dget_def dhas_def)

lemma first_least_single: "xs = [x] \<Longrightarrow> first_least score xs x"
  by (intro first_leastI [of _ "[]" _ "[]"]) simp_all

lemma single_hd: "length xs = 1 \<Longrightarrow> xs = [hd xs]"
  by (cases xs) simp_all

definition demo_rs :: rstate where
  "demo_rs = \<lparr>metrics_cache = [], backend_inflight = [], backend_health = [], draining = [],
              rr_counters = [], routing_strategy = ''least_load'', live_addrs = []\<rparr>"

definition demo_pair :: group_cfg where
  "demo_pair = demo_group [] [] [demo_inst ''a'' 1, demo_inst ''b'' 2]"

lemma demo_pair_instances [simp]: "group_instances demo_pair = [demo_inst ''a'' 1, demo_inst ''b'' 2]"
  by (simp add: demo_pair_def demo_defs)

lemma demo_ids [simp]: "ic_id (demo_inst k p) = k"
  by (simp add: demo_inst_def)

lemma demo_rs_reads [simp]:
  "is_instance_sleeping demo_rs m k = False"
  "is_draining now demo_rs m k = (False, demo_rs)"
  "is_backend_in_cooldown 0 demo_rs m k = False"
  "cached_metric demo_rs m k = None"
  "get_inflight demo_rs m k = 0"
  by (simp_all add: demo_rs_def is_instance_sleeping_def cached_metric_def is_draining_def dget_def
      is_backend_in_cooldown_def no_health_def get_inflight_def)

lemma demo_routable [simp]:
  "eligible demo_rs m ex is = filter (\<lambda>i. ic_id i \<notin> ex) is"
  "routable 0 demo_rs m ex is = filter (\<lambda>i. ic_id i \<notin> ex) is"
  by (simp_all add: eligible_def routable_def)

lemma demo_select_b:
  "fst (select_instance (\<lambda>_. 0) 50 0 (0, 0) demo_rs ''q'' demo_pair None {''a''} None None)
     = Inr (demo_inst ''b'' 2)"
  by (subst select_ok_shape [OF _ refl]) simp_all

lemma select_instance_safe_witness: "ic_id (demo_inst ''b'' 2) \<notin> {''a''}"
  using select_instance_safe [OF demo_select_b] by blast

section \<open>What each strategy guarantees\<close>

text \<open>
  The default policy serves the first instance, in configuration order, of least load score.
\<close>

theorem select_least_load_first_least:
  assumes "eligible s m exclude (group_instances cfg) \<noteq> []"
  shows "\<exists>i. fst (select_instance hash_key margin now r s m cfg None exclude sk pp) = Inr i \<and>
     first_least (score_instance now s m) (routable now s m exclude (group_instances cfg)) i"
proof -
  let ?R = "routable now s m exclude (group_instances cfg)"
  have ne: "?R \<noteq> []" using assms by (simp add: routable_empty)
  show ?thesis
    using least_by_first [OF ne] first_least_single [OF single_hd, of ?R "score_instance now s m"]
    by (cases "length ?R = 1")
      (simp_all add: select_ok_shape [OF assms refl] least_load_def select_context_score)
qed

lemma select_least_load_first_least_witness:
  "\<exists>i. fst (select_instance (\<lambda>_. 0) 50 0 (0, 0) demo_rs ''q'' demo_pair None {} None None) = Inr i"
  using select_least_load_first_least [of demo_rs "''q''" "{}" demo_pair "\<lambda>_. 0" 50 0 "(0, 0)" None None]
  by auto

definition instance_load :: "rstate \<Rightarrow> string \<Rightarrow> inst_cfg \<Rightarrow> fnum" where
  "instance_load s m i =
     fadd (case cached_metric s m (ic_id i) of None \<Rightarrow> Fin 0 | Some mt \<Rightarrow> compute_load_score mt)
       (inflight_penalty s m (ic_id i))"

lemma score_split: "score_instance now s m i = fadd (instance_load s m i) (cooldown_penalty now s m (ic_id i))"
  by (simp add: score_instance_def instance_load_def Let_def)

lemma cooled_score:
  "is_backend_in_cooldown now s m (ic_id i) \<Longrightarrow> Fin 0 \<le> instance_load s m i \<Longrightarrow>
   Fin FAIL_OPEN_PENALTY \<le> score_instance now s m i"
  by (cases "instance_load s m i") (simp_all add: score_split cooldown_penalty_def)

lemma warm_score:
  "\<not> is_backend_in_cooldown now s m (ic_id i) \<Longrightarrow> score_instance now s m i = instance_load s m i"
  by (cases "instance_load s m i") (simp_all add: score_split cooldown_penalty_def)

text \<open>
  A backend in failure cooldown is not served by the default policy while some routable backend
  is out of cooldown and its load is below the fail-open penalty.
\<close>

theorem select_avoids_cooldown:
  assumes "j \<in> set (routable now s m exclude (group_instances cfg))"
    and "\<not> is_backend_in_cooldown now s m (ic_id j)"
    and "instance_load s m j < Fin FAIL_OPEN_PENALTY"
    and "\<forall>i \<in> set (routable now s m exclude (group_instances cfg)). Fin 0 \<le> instance_load s m i"
    and "fst (select_instance hash_key margin now r s m cfg None exclude sk pp) = Inr i"
  shows "\<not> is_backend_in_cooldown now s m (ic_id i)"
proof
  assume cd: "is_backend_in_cooldown now s m (ic_id i)"
  let ?R = "routable now s m exclude (group_instances cfg)"
  have ne: "eligible s m exclude (group_instances cfg) \<noteq> []"
    using assms(1) routable_subset [of now s m exclude "group_instances cfg"] by auto
  have fl: "first_least (score_instance now s m) ?R i"
    using least_by_first [of ?R] first_least_single [OF single_hd, of ?R] assms(5) routable_empty ne
    by (auto simp: select_ok_shape [OF ne refl] least_load_def select_context_score split: if_splits)
  have "score_instance now s m i \<le> score_instance now s m j"
    by (rule first_least_le [OF fl assms(1)])
  also have "\<dots> < Fin FAIL_OPEN_PENALTY"
    using assms(2,3) by (simp add: warm_score)
  also have "\<dots> \<le> score_instance now s m i"
    using cooled_score [OF cd] assms(4) first_least_mem [OF fl] by blast
  finally show False by simp
qed

lemma select_avoids_cooldown_witness:
  "\<not> is_backend_in_cooldown 0 demo_rs ''q'' (ic_id (demo_inst ''b'' 2))"
  by (rule select_avoids_cooldown [OF _ _ _ _ demo_select_b, of "demo_inst ''b'' 2"])
    (simp_all add: instance_load_def inflight_penalty_def FAIL_OPEN_PENALTY_def)

lemma affinity_bound:
  assumes "sc_candidates ctx \<noteq> []" "0 \<le> margin" "j \<in> set (sc_candidates ctx)"
  shows "score_instance now (sc_app ctx) (sc_model_key ctx) (fst (affinity h margin key now r ctx))
     \<le> fadd (score_instance now (sc_app ctx) (sc_model_key ctx) j) (Fin margin)"
proof -
  let ?sc = "score_instance now (sc_app ctx) (sc_model_key ctx)"
  have up: "x \<le> fadd x (Fin margin)" for x
    using assms(2) by (cases x) simp_all
  have best: "?sc (least_by ?sc (sc_candidates ctx)) \<le> ?sc j"
    by (rule least_by_le [OF assms(1,3)])
  have "fadd (?sc (least_by ?sc (sc_candidates ctx))) (Fin margin) \<le> fadd (?sc j) (Fin margin)"
    by (rule fadd_mono [OF best]) simp
  then show ?thesis
    using best up [of "?sc j"] by (auto simp: affinity_def least_load_def Let_def split: option.split)
qed

text \<open>
  Session affinity is never worse than the least loaded choice by more than the margin,
  whatever the session key, the hash and the roster.
\<close>

theorem session_affinity_margin:
  assumes "eligible s m exclude (group_instances cfg) \<noteq> []" "0 \<le> margin"
  shows "\<exists>i. fst (select_instance hash_key margin now r s m cfg (Some ''session_affinity'') exclude sk pp) = Inr i \<and>
     (\<forall>j \<in> set (routable now s m exclude (group_instances cfg)).
        score_instance now s m i \<le> fadd (score_instance now s m j) (Fin margin))"
proof -
  let ?c = "select_context now s m exclude (group_instances cfg) sk pp"
  let ?R = "routable now s m exclude (group_instances cfg)"
  have ne: "?R \<noteq> []" using assms(1) by (simp add: routable_empty)
  have up: "x \<le> fadd x (Fin margin)" for x
    using assms(2) by (cases x) simp_all
  show ?thesis
  proof (cases "length ?R = 1")
    case True
    then have R: "?R = [hd ?R]" by (rule single_hd)
    have "score_instance now s m (hd ?R) \<le> fadd (score_instance now s m j) (Fin margin)" if "j \<in> set ?R" for j
      using that up by (subst (asm) R) simp
    then show ?thesis
      using True by (simp add: select_ok_shape [OF assms(1) refl])
  next
    case False
    then show ?thesis
      using affinity_bound [of ?c margin _ now hash_key sk r] ne assms(2)
      by (simp add: select_ok_shape [OF assms(1) refl] session_affinity_def select_context_score)
  qed
qed

lemma session_affinity_margin_witness:
  "\<exists>i. fst (select_instance (\<lambda>_. 1) 50 0 (0, 0) demo_rs ''q'' demo_pair (Some ''session_affinity'') {}
      (Some ''u'') None) = Inr i"
  using session_affinity_margin [of demo_rs "''q''" "{}" demo_pair 50 "\<lambda>_. 1" 0 "(0, 0)" "Some ''u''" None]
  by auto

text \<open>
  Session affinity is sticky: the home replica of a key depends on the full roster and the key
  only, and it is served whenever it is routable, out of cooldown and within the margin of every
  routable replica.
\<close>

theorem session_affinity_sticky:
  fixes hash_key :: "string \<Rightarrow> nat"
  defines "home \<equiv> \<lambda>cfg key. sort_key ic_id (group_instances cfg) !
             (hash_key key mod length (group_instances cfg))"
  assumes "key \<noteq> []" "home cfg key \<in> set (routable now s m exclude (group_instances cfg))"
    and "\<not> is_backend_in_cooldown now s m (ic_id (home cfg key))"
    and "\<forall>j \<in> set (routable now s m exclude (group_instances cfg)).
           score_instance now s m (home cfg key) \<le> fadd (score_instance now s m j) (Fin margin)"
  shows "fst (select_instance hash_key margin now r s m cfg (Some ''session_affinity'') exclude (Some key) pp)
     = Inr (home cfg key)"
proof -
  let ?c = "select_context now s m exclude (group_instances cfg) (Some key) pp"
  let ?R = "routable now s m exclude (group_instances cfg)"
  have ne: "eligible s m exclude (group_instances cfg) \<noteq> []"
    using assms(3) routable_subset [of now s m exclude "group_instances cfg"] by auto
  have Rne: "?R \<noteq> []" using ne by (simp add: routable_empty)
  have ine: "group_instances cfg \<noteq> []" using ne by (auto simp: eligible_def)
  have hm: "affinity_home hash_key ?c key = home cfg key"
    using ine by (simp add: affinity_home_def Let_def home_def)
  obtain d where d: "sc_app ?c = s\<lparr>draining := d\<rparr>" using select_context_app by blast
  have cd: "\<not> is_backend_in_cooldown now (sc_app ?c) m (ic_id (home cfg key))"
    using assms(4) unfolding d cooldown_frame .
  have "least_by (score_instance now s m) ?R \<in> set ?R"
    by (rule least_by_mem [OF Rne])
  then have le: "score_instance now s m (home cfg key) \<le>
      fadd (score_instance now s m (least_by (score_instance now s m) ?R)) (Fin margin)"
    using assms(5) by blast
  show ?thesis
  proof (cases "length ?R = 1")
    case True
    then have "home cfg key = hd ?R" using assms(3) single_hd [OF True] by (metis empty_iff list.set(1) set_ConsD)
    then show ?thesis using True by (simp add: select_ok_shape [OF ne refl])
  next
    case False
    have "affinity hash_key margin (Some key) now r ?c = (home cfg key, sc_app ?c)"
      using assms(2,3) cd le by (simp add: affinity_def Let_def hm select_context_score)
    then show ?thesis
      using False by (simp add: select_ok_shape [OF ne refl] session_affinity_def)
  qed
qed

lemma session_affinity_sticky_witness:
  "fst (select_instance (\<lambda>_. 1) 50 0 (0, 0) demo_rs ''q'' demo_pair (Some ''session_affinity'') {}
      (Some ''u'') None) = Inr (demo_inst ''b'' 2)"
  using session_affinity_sticky [of "''u''" demo_pair "\<lambda>_. 1" 0 demo_rs "''q''" "{}" 50 "(0, 0)" None]
  by (simp add: score_instance_def inflight_penalty_def cooldown_penalty_def)

lemma other_position:
  fixes i b n :: nat
  assumes "i < n" "b < n - 1"
  shows "(i + 1 + b) mod n \<noteq> i"
proof (cases "i + 1 + b < n")
  case True
  then show ?thesis by simp
next
  case False
  define c where "c = i + 1 + b - n"
  have "i + 1 + b = n + c" "c < n" "c \<noteq> i"
    using assms False by (auto simp: c_def)
  then show ?thesis by (metis mod_add_self1 mod_less)
qed

lemma sample2_positions:
  assumes "2 \<le> length xs"
  obtains i j where "sample2 r xs = [xs ! i, xs ! j]" "i < length xs" "j < length xs" "i \<noteq> j"
proof -
  define n where "n = length xs"
  define i where "i = fst r mod n"
  define b where "b = snd r mod (n - 1)"
  have n: "2 \<le> n" using assms by (simp add: n_def)
  then have ib: "i < n" "b < n - 1"
    by (auto simp: i_def b_def intro!: mod_less_divisor)
  have "sample2 r xs = [xs ! i, xs ! ((i + 1 + b) mod n)]"
    by (simp add: sample2_def Let_def i_def b_def n_def)
  moreover have "(i + 1 + b) mod n < n"
    using n by (intro mod_less_divisor) simp
  ultimately show ?thesis
    using ib other_position [OF ib] unfolding n_def by (intro that [of i "(i + 1 + b) mod length xs"]) auto
qed

text \<open>
  Power of two choices compares two different routable positions and serves the less loaded,
  so it never serves a replica that is strictly more loaded than all the others.
\<close>

theorem select_p2c_not_worst:
  assumes "2 \<le> length (routable now s m exclude (group_instances cfg))"
  shows "\<exists>i a b. fst (select_instance hash_key margin now r s m cfg (Some ''p2c'') exclude sk pp) = Inr i \<and>
     a \<noteq> b \<and> a < length (routable now s m exclude (group_instances cfg)) \<and>
     b < length (routable now s m exclude (group_instances cfg)) \<and>
     i = routable now s m exclude (group_instances cfg) ! a \<and>
     score_instance now s m i \<le> score_instance now s m (routable now s m exclude (group_instances cfg) ! b)"
proof -
  let ?R = "routable now s m exclude (group_instances cfg)"
  have ne: "eligible s m exclude (group_instances cfg) \<noteq> []"
    using assms routable_empty [of now s m exclude "group_instances cfg"] by auto
  have two: "length ?R \<noteq> Suc 0" using assms by simp
  obtain i j where ij: "sample2 r ?R = [?R ! i, ?R ! j]" "i < length ?R" "j < length ?R" "i \<noteq> j"
    using sample2_positions [OF assms] by blast
  have chosen: "fst (select_instance hash_key margin now r s m cfg (Some ''p2c'') exclude sk pp) =
      Inr (least_by (score_instance now s m) [?R ! i, ?R ! j])"
    using two by (simp add: select_ok_shape [OF ne refl] p2c_def select_context_score ij(1))
  show ?thesis
  proof (cases "score_instance now s m (?R ! j) < score_instance now s m (?R ! i)")
    case True
    then show ?thesis
      unfolding chosen using ij by (intro exI [of _ "?R ! j"] exI [of _ j] exI [of _ i])
        (auto simp: least_by_def)
  next
    case False
    then show ?thesis
      unfolding chosen using ij by (intro exI [of _ "?R ! i"] exI [of _ i] exI [of _ j])
        (auto simp: least_by_def)
  qed
qed

lemma select_p2c_not_worst_witness:
  "\<exists>i. fst (select_instance (\<lambda>_. 1) 50 0 (3, 7) demo_rs ''q'' demo_pair (Some ''p2c'') {} None None) = Inr i"
  using select_p2c_not_worst [of 0 demo_rs "''q''" "{}" demo_pair "\<lambda>_. 1" 50 "(3, 7)" None None] by auto

section \<open>Round robin over a run of requests\<close>

text \<open>\<open>k\<close> successive selections with nothing else happening in between.\<close>

fun select_run ::
  "nat \<Rightarrow> (rstate \<Rightarrow> (http_exc + inst_cfg) \<times> rstate) \<Rightarrow> rstate \<Rightarrow> (http_exc + inst_cfg) list" where
  "select_run 0 f s = []"
| "select_run (Suc k) f s = (case f s of (x, s') \<Rightarrow> x # select_run k f s')"

definition same_routing :: "real \<Rightarrow> rstate \<Rightarrow> rstate \<Rightarrow> bool" where
  "same_routing now s s' = (metrics_cache s' = metrics_cache s \<and>
     (\<forall>m k. fst (is_draining now s' m k) = fst (is_draining now s m k)))"

lemma not_draining_same: "same_routing now s (snd (not_draining now m is s))"
proof (induction "is" arbitrary: s)
  case Nil
  then show ?case by (simp add: same_routing_def)
next
  case (Cons i rest)
  have "same_routing now s (snd (is_draining now s m (ic_id i)))"
    using is_draining_read_pure [of now now s m "ic_id i"] is_draining_frame [of now s m "ic_id i"]
    by (auto simp: same_routing_def)
  then show ?case
    using Cons.IH [of "snd (is_draining now s m (ic_id i))"]
    by (simp add: same_routing_def split_beta Let_def)
qed

lemma routable_same: "same_routing now s s' \<Longrightarrow> routable now s' m ex is = routable now s m ex is"
  by (simp add: routable_def eligible_def same_routing_def is_instance_sleeping_def cached_metric_def)

lemma round_robin_step:
  assumes "2 \<le> length (routable now s m ex (group_instances cfg))"
  defines "R \<equiv> routable now s m ex (group_instances cfg)"
  shows "\<exists>s'. select_instance h mg now r s m cfg (Some ''round_robin'') ex sk pp =
     (Inr (R ! (dget (rr_counters s) m 0 mod length R)), s') \<and> same_routing now s s' \<and>
     dget (rr_counters s') m 0 = dget (rr_counters s) m 0 + 1"
proof -
  let ?c = "select_context now s m ex (group_instances cfg) sk pp"
  have ne: "eligible s m ex (group_instances cfg) \<noteq> []"
    using assms(1) routable_empty [of now s m ex "group_instances cfg"] by auto
  obtain d where d: "sc_app ?c = s\<lparr>draining := d\<rparr>" using select_context_app by blast
  have same: "same_routing now s (sc_app ?c)"
    using not_draining_same by (simp add: select_context_def)
  have one: "length R \<noteq> Suc 0" using assms by simp
  let ?s' = "(sc_app ?c)\<lparr>rr_counters := dset m (dget (rr_counters s) m 0 + 1) (rr_counters s)\<rparr>"
  have "select_instance h mg now r s m cfg (Some ''round_robin'') ex sk pp =
     (Inr (R ! (dget (rr_counters s) m 0 mod length R)), ?s')"
    using one by (simp add: select_ok_shape [OF ne refl] round_robin_def Let_def R_def d)
  moreover have "same_routing now s ?s'"
    using same by (simp add: same_routing_def is_draining_iff)
  ultimately show ?thesis by (intro exI [of _ ?s']) simp
qed

lemma round_robin_run:
  assumes "2 \<le> length (routable now s m ex (group_instances cfg))"
  defines "R \<equiv> routable now s m ex (group_instances cfg)"
  shows "select_run k (\<lambda>s. select_instance h mg now r s m cfg (Some ''round_robin'') ex sk pp) s =
     map (\<lambda>j. Inr (R ! ((dget (rr_counters s) m 0 + j) mod length R))) [0..<k]"
  using assms(1) unfolding R_def
proof (induction k arbitrary: s)
  case 0
  then show ?case by simp
next
  case (Suc k)
  let ?R = "\<lambda>s. routable now s m ex (group_instances cfg)"
  obtain s' where s': "select_instance h mg now r s m cfg (Some ''round_robin'') ex sk pp =
     (Inr (?R s ! (dget (rr_counters s) m 0 mod length (?R s))), s')" "same_routing now s s'"
     "dget (rr_counters s') m 0 = dget (rr_counters s) m 0 + 1"
    using round_robin_step [OF Suc.prems] by blast
  have "?R s' = ?R s" by (rule routable_same [OF s'(2)])
  then show ?case
    using Suc.IH [of s'] Suc.prems s' by (simp add: upt_conv_Cons map_Suc_upt [symmetric] del: upt_Suc)
qed

lemma rotation_map: "map (\<lambda>j. xs ! ((c + j) mod length xs)) [0..<length xs] = rotate c xs"
  by (rule nth_equalityI) (simp_all add: nth_rotate)

text \<open>
  Round robin is fair: over as many requests as there are routable replicas every replica is
  served exactly once, from whatever point the counter stands at.
\<close>

theorem round_robin_fair:
  assumes "2 \<le> length (routable now s m exclude (group_instances cfg))"
  shows "mset (select_run (length (routable now s m exclude (group_instances cfg)))
           (\<lambda>s. select_instance hash_key margin now r s m cfg (Some ''round_robin'') exclude sk pp) s) =
         mset (map Inr (routable now s m exclude (group_instances cfg)))"
proof -
  let ?R = "routable now s m exclude (group_instances cfg)"
  have "select_run (length ?R) (\<lambda>s. select_instance hash_key margin now r s m cfg (Some ''round_robin'') exclude sk pp) s
      = map Inr (rotate (dget (rr_counters s) m 0) ?R)"
    unfolding round_robin_run [OF assms] rotation_map [symmetric] by simp
  then show ?thesis
    by (simp add: rotate_drop_take union_code [symmetric] flip: mset_append map_append)
      (metis append_take_drop_id mset_append union_commute mset_map)
qed

lemma round_robin_fair_witness:
  "mset (select_run 2 (\<lambda>s. select_instance (\<lambda>_. 0) 50 0 (0, 0) s ''q'' demo_pair (Some ''round_robin'') {} None None) demo_rs)
     = {#Inr (demo_inst ''a'' 1), Inr (demo_inst ''b'' 2)#}"
  using round_robin_fair [of 0 demo_rs "''q''" "{}" demo_pair "\<lambda>_. 0" 50 "(0, 0)" None None]
  by (simp add: numeral_2_eq_2)

end
