(* ===== verification/Router_Proxy.thy ===== *)
theory Router_Proxy
  imports Routing_Strategies
begin

text \<open>
  apps/router-server/src/llm_router/router.py: the control endpoints, usage extraction, and the
  proxy \<open>_proxy_to_backend\<close> with its failover loop, fallback chain and in-flight accounting.

  The world outside is the record \<open>world\<close>: what the backend answers to the k-th request this call
  sends, the random draws and the clock at that attempt.  A response carries its status, its
  content type and what reading its body gives (\<open>None\<close>: the read raises).  \<open>json.loads\<close> of an event
  line is the parameter \<open>loads\<close>, and \<open>str()\<close> of a JSON value inside an f-string is \<open>py_str\<close>.
  \<open>pxy\<close> holds the handler's local variables; the cleanup flags of the code are kept as they are.
\<close>

section \<open>Control endpoints\<close>

text \<open>A JSON value in an f-string.\<close>

definition jtext :: "(jval \<Rightarrow> string) \<Rightarrow> jval \<Rightarrow> string" where
  "jtext py_str v = (case v of JStr s \<Rightarrow> s | _ \<Rightarrow> py_str v)"

text \<open>The third component is the shared store's draining table, \<open>None\<close> when it cannot be written.\<close>

definition drain_backend ::
  "(jval \<Rightarrow> string) \<Rightarrow> real \<Rightarrow> jval \<Rightarrow> jval \<Rightarrow> real \<Rightarrow> rstate \<Rightarrow> (string, real) dict option \<Rightarrow>
   (http_exc + int) \<times> rstate \<times> (string, real) dict option" where
  "drain_backend py_str now model_key instance_id ttl s shared =
     (if \<not> truthy model_key \<or> \<not> truthy instance_id
      then (Inl (mk_exc 400 ''model_key and instance_id required''), s, shared)
      else
        let m = jtext py_str model_key; i = jtext py_str instance_id; s' = mark_draining now s m i ttl
        in (Inr (get_inflight s' m i), s', map_option (dset (make_backend_key m i) (now + ttl)) shared))"

definition undrain_backend ::
  "(jval \<Rightarrow> string) \<Rightarrow> jval \<Rightarrow> jval \<Rightarrow> rstate \<Rightarrow> (string, real) dict option \<Rightarrow>
   (http_exc + unit) \<times> rstate \<times> (string, real) dict option" where
  "undrain_backend py_str model_key instance_id s shared =
     (if \<not> truthy model_key \<or> \<not> truthy instance_id
      then (Inl (mk_exc 400 ''model_key and instance_id required''), s, shared)
      else
        let m = jtext py_str model_key; i = jtext py_str instance_id
        in (Inr (), clear_draining s m i, map_option (dpop (make_backend_key m i)) shared))"

text \<open>Readiness: (groups, routable instances), or 503 while there is no config or no client.\<close>

definition ready :: "root_cfg option \<Rightarrow> bool \<Rightarrow> rstate \<Rightarrow> http_exc + nat \<times> nat" where
  "ready config started s =
     (case config of
        None \<Rightarrow> Inl (mk_exc 503 ''config not loaded'')
      | Some c \<Rightarrow> if \<not> started then Inl (mk_exc 503 ''starting'')
                  else Inr (length (rc_engines c), length (live_addrs s)))"

definition strategy_names :: "string list" where
  "strategy_names = dkeys (STRATEGIES (\<lambda>_. 0) 0)"

definition set_routing :: "jval \<Rightarrow> rstate \<Rightarrow> (http_exc + string) \<times> rstate" where
  "set_routing name s =
     (case name of
        JStr n \<Rightarrow> if n \<in> set strategy_names then (Inr n, s\<lparr>routing_strategy := n\<rparr>)
                  else (Inl (mk_exc 400 ''unknown strategy''), s)
      | _ \<Rightarrow> (Inl (mk_exc 400 ''unknown strategy''), s))"

section \<open>Usage\<close>

text \<open>Python's \<open>a + b\<close> on parsed JSON: \<open>None\<close> is a TypeError.\<close>

fun as_number :: "jval \<Rightarrow> (int + real) option" where
  "as_number (JInt n) = Some (Inl n)"
| "as_number (JBool b) = Some (Inl (if b then 1 else 0))"
| "as_number (JFloat r) = Some (Inr r)"
| "as_number _ = None"

definition num_real :: "int + real \<Rightarrow> real" where
  "num_real x = (case x of Inl n \<Rightarrow> of_int n | Inr r \<Rightarrow> r)"

definition jadd :: "jval \<Rightarrow> jval \<Rightarrow> jval option" where
  "jadd a b =
     (case (as_number a, as_number b) of
        (Some (Inl m), Some (Inl n)) \<Rightarrow> Some (JInt (m + n))
      | (Some x, Some y) \<Rightarrow> Some (JFloat (num_real x + num_real y))
      | _ \<Rightarrow> (case (a, b) of
                (JStr s, JStr t) \<Rightarrow> Some (JStr (s @ t))
              | (JList s, JList t) \<Rightarrow> Some (JList (s @ t))
              | _ \<Rightarrow> None))"

type_synonym jobj = "(string, jval) dict"

text \<open>The outer option is the exception, the inner one the function's \<open>None\<close>.\<close>

definition normalize_usage :: "jval \<Rightarrow> jobj option option" where
  "normalize_usage usage =
     (case usage of
        JObj u \<Rightarrow>
          (if dhas u ''prompt_tokens'' \<or> dhas u ''completion_tokens'' \<or> dhas u ''total_tokens'' then Some (Some u)
           else if dhas u ''input_tokens'' \<or> dhas u ''output_tokens'' then
             (let pt = jget u ''input_tokens''; ct = jget u ''output_tokens'' in
              case (if pt \<noteq> JNull \<or> ct \<noteq> JNull then jadd (jor pt (JInt 0)) (jor ct (JInt 0)) else Some JNull) of
                None \<Rightarrow> None
              | Some tt \<Rightarrow> Some (Some [(''prompt_tokens'', pt), (''completion_tokens'', ct), (''total_tokens'', tt)]))
           else Some None)
      | _ \<Rightarrow> Some None)"

definition usage_from_body :: "(string \<Rightarrow> jval option) \<Rightarrow> string option \<Rightarrow> jval" where
  "usage_from_body loads body =
     (case body of
        None \<Rightarrow> JNull
      | Some b \<Rightarrow>
          (case loads b of
             None \<Rightarrow> JNull
           | Some v \<Rightarrow>
               (case jor v (JObj []) of
                  JObj obj \<Rightarrow>
                    (let usage = (if jget obj ''usage'' = JNull \<and> dhas obj ''input_tokens'' then JObj obj
                                  else jget obj ''usage'')
                     in case usage of JObj u \<Rightarrow> JObj u | _ \<Rightarrow> JNull)
                | _ \<Rightarrow> JNull)))"

section \<open>Sniffing usage out of a stream\<close>

fun split_on :: "char \<Rightarrow> string \<Rightarrow> string list" where
  "split_on c [] = [[]]"
| "split_on c (x # xs) =
     (if x = c then [] # split_on c xs
      else (case split_on c xs of [] \<Rightarrow> [[x]] | l # ls \<Rightarrow> (x # l) # ls))"

fun contains :: "string \<Rightarrow> string \<Rightarrow> bool" where
  "contains p [] = (p = [])"
| "contains p (c # s) = (starts_with p (c # s) \<or> contains p s)"

definition nl2 :: string where "nl2 = [CHR 0x0A, CHR 0x0A]"
definition quoted_usage :: string where
  "quoted_usage = [CHR 0x22] @ ''usage'' @ [CHR 0x22]"

definition merge_usage :: "jobj option \<Rightarrow> jval \<Rightarrow> jobj option" where
  "merge_usage captured u =
     (case u of
        JObj d \<Rightarrow> Some (dupdate (case captured of None \<Rightarrow> [] | Some c \<Rightarrow> c) (filter (\<lambda>(k, v). v \<noteq> JNull) d))
      | _ \<Rightarrow> captured)"

text \<open>
  One line of an event.  \<open>(obj.get("message") or {}).get("usage")\<close> raises when \<open>message\<close> is a
  truthy value that is no object: the result is then \<open>None\<close>.  Both usages are read before either is
  merged, so the raising line captures nothing; what earlier lines captured stays.
\<close>

definition scan_line :: "(string \<Rightarrow> jval option) \<Rightarrow> string \<Rightarrow> jobj option \<Rightarrow> jobj option option" where
  "scan_line loads raw captured =
     (let line = str_strip raw in
      if \<not> starts_with ''data:'' line then Some captured
      else if \<not> contains quoted_usage line then Some captured
      else
        let data = str_strip (drop 5 line) in
        if data = [] \<or> data = ''[DONE]'' then Some captured
        else case loads data of
               Some (JObj obj) \<Rightarrow>
                 (case jor (jget obj ''message'') (JObj []) of
                    JObj msg \<Rightarrow> Some (merge_usage (merge_usage captured (jget obj ''usage'')) (jget msg ''usage''))
                  | _ \<Rightarrow> None)
             | _ \<Rightarrow> Some captured)"

text \<open>The first component says that a line raised; the lines before it have been captured.\<close>

fun scan_lines :: "(string \<Rightarrow> jval option) \<Rightarrow> string list \<Rightarrow> jobj option \<Rightarrow> bool \<times> jobj option" where
  "scan_lines loads [] captured = (False, captured)"
| "scan_lines loads (l # ls) captured =
     (case scan_line loads l captured of None \<Rightarrow> (True, captured) | Some c \<Rightarrow> scan_lines loads ls c)"

lemma partition_shrinks:
  "str_partition sep buf = (h, True, t) \<Longrightarrow> sep \<noteq> [] \<Longrightarrow> length t < length buf"
proof (induction buf arbitrary: h)
  case Nil
  then show ?case by simp
next
  case (Cons c buf)
  show ?case
  proof (cases "starts_with sep (c # buf)")
    case True
    then show ?thesis using Cons.prems by (cases sep) auto
  next
    case False
    obtain h' f t' where p: "str_partition sep buf = (h', f, t')" by (cases "str_partition sep buf")
    then have "f" "t = t'" using Cons.prems False by simp_all
    then show ?thesis using Cons.IH [of h'] p Cons.prems(2) by simp
  qed
qed

text \<open>\<open>captured\<close> is updated in place: what the events before a raise captured is kept.\<close>

function scan_sse :: "(string \<Rightarrow> jval option) \<Rightarrow> string \<Rightarrow> jobj option \<Rightarrow> bool \<times> string \<times> jobj option" where
  "scan_sse loads buffer captured =
     (case str_partition nl2 buffer of
        (event, found, rest) \<Rightarrow>
          if found then
            (case scan_lines loads (split_on (CHR 0x0A) event) captured of
               (True, c) \<Rightarrow> (True, buffer, c)
             | (False, c) \<Rightarrow> scan_sse loads rest c)
          else (False, buffer, captured))"
  by pat_completeness auto
termination
  by (relation "measure (\<lambda>(loads, buffer, captured). length buffer)")
    (auto simp: nl2_def dest: partition_shrinks [OF sym])

declare scan_sse.simps [simp del]

section \<open>Affinity keys and the strategy of a group\<close>

text \<open>
  The group's override may be any JSON value.  One that is no string names no strategy and the
  dispatcher falls back to its default; a list or an object cannot be looked up at all: the
  dispatcher raises as soon as it has more than one candidate to choose from.
\<close>

definition resolve_strategy :: "rstate \<Rightarrow> group_cfg \<Rightarrow> jval" where
  "resolve_strategy s cfg =
     jor (jget (group_mc cfg) ''routing_strategy'') (jor (JStr (routing_strategy s)) (JStr ''least_load''))"

definition strategy_name :: "jval \<Rightarrow> string option" where
  "strategy_name v = (case v of JStr n \<Rightarrow> Some n | _ \<Rightarrow> None)"

definition unhashable :: "jval \<Rightarrow> bool" where
  "unhashable v = (case v of JList _ \<Rightarrow> True | JObj _ \<Rightarrow> True | _ \<Rightarrow> False)"

text \<open>\<open>STRATEGIES.get(name)\<close> raising: the state it is reached in, the expired drain marks dropped.\<close>

definition lookup_raises :: "real \<Rightarrow> rstate \<Rightarrow> string \<Rightarrow> group_cfg \<Rightarrow> jval \<Rightarrow> string set \<Rightarrow> rstate option" where
  "lookup_raises now s key cfg strat tried =
     (let awake = eligible s key tried (group_instances cfg);
          (nd, s') = not_draining now key awake s
      in if unhashable strat \<and> 1 < length (if nd \<noteq> [] then nd else awake) then Some s' else None)"

definition session_key :: "string option \<Rightarrow> jobj \<Rightarrow> string option" where
  "session_key header body =
     (case header of
        Some sid \<Rightarrow> if sid \<noteq> [] then Some sid
                    else (case jget body ''user'' of JStr u \<Rightarrow> if u = [] then None else Some u | _ \<Rightarrow> None)
      | None \<Rightarrow> (case jget body ''user'' of JStr u \<Rightarrow> if u = [] then None else Some u | _ \<Rightarrow> None))"

text \<open>\<open>" ".join\<close> raises on a part whose text is no string.\<close>

fun join_texts :: "jval list \<Rightarrow> string option" where
  "join_texts [] = Some []"
| "join_texts (JStr s # []) = Some s"
| "join_texts (JStr s # rest) = map_option (\<lambda>t. s @ '' '' @ t) (join_texts rest)"
| "join_texts (_ # rest) = None"

fun text_part :: "jval \<Rightarrow> jval option" where
  "text_part (JObj p) = (if jget p ''type'' = JStr ''text'' then Some (dget p ''text'' (JStr [])) else None)"
| "text_part _ = None"

fun content_text :: "jval \<Rightarrow> string option" where
  "content_text (JStr s) = Some s"
| "content_text (JList parts) = join_texts (List.map_filter text_part parts)"
| "content_text _ = Some []"

fun message_pieces :: "(jval \<Rightarrow> string) \<Rightarrow> nat \<Rightarrow> jval list \<Rightarrow> string list \<Rightarrow> nat \<Rightarrow> string list option" where
  "message_pieces py_str limit [] out n = Some out"
| "message_pieces py_str limit (JObj m # ms) out n =
     (case content_text (jget m ''content'') of
        None \<Rightarrow> None
      | Some txt \<Rightarrow>
          (let role = (case dget m ''role'' (JStr []) of JStr r \<Rightarrow> r | v \<Rightarrow> py_str v);
               piece = role @ '':'' @ txt; n' = n + length piece
           in if n' \<ge> limit then Some (out @ [piece])
              else message_pieces py_str limit ms (out @ [piece]) n'))"
| "message_pieces py_str limit (_ # ms) out n = message_pieces py_str limit ms out n"

fun join_lines :: "string list \<Rightarrow> string" where
  "join_lines [] = []"
| "join_lines [s] = s"
| "join_lines (s # t # rest) = s @ [CHR 0x0A] @ join_lines (t # rest)"

definition or_none :: "string \<Rightarrow> string option" where
  "or_none s = (if s = [] then None else Some s)"

definition prompt_prefix :: "(jval \<Rightarrow> string) \<Rightarrow> nat \<Rightarrow> jobj \<Rightarrow> string option option" where
  "prompt_prefix py_str limit body =
     (case jget body ''messages'' of
        JList (m # ms) \<Rightarrow>
          map_option (\<lambda>out. or_none (take limit (join_lines out))) (message_pieces py_str limit (m # ms) [] 0)
      | _ \<Rightarrow> Some (case jget body ''prompt'' of
                JStr p \<Rightarrow> or_none (take limit p)
              | JList (JStr p # _) \<Rightarrow> or_none (take limit p)
              | _ \<Rightarrow> None))"

section \<open>The request log\<close>

record log_row =
  lg_model :: string
  lg_instance :: "string option"
  lg_path :: string
  lg_status :: "nat option"
  lg_prompt_tokens :: jval
  lg_completion_tokens :: jval
  lg_total_tokens :: jval
  lg_error :: "string option"
  lg_api_key :: "string option"

text \<open>
  \<open>rows = None\<close> stands for a store that is absent or rejects the write (the failure is logged and
  swallowed).  The outer \<open>None\<close> is the exception of the token sum, raised before the store is asked.
\<close>

definition record_request ::
  "string option \<Rightarrow> string option \<Rightarrow> string \<Rightarrow> nat option \<Rightarrow> jval \<Rightarrow> string option \<Rightarrow> string option \<Rightarrow>
   log_row list option \<Rightarrow> log_row list option option" where
  "record_request model_key instance_id path status usage err api_key rows =
     (case (rows, model_key) of
        (Some rs, Some m) \<Rightarrow>
          (if m = [] then Some rows
           else case normalize_usage usage of
                  None \<Rightarrow> None
                | Some u \<Rightarrow>
                    (let d = (case u of None \<Rightarrow> [] | Some d \<Rightarrow> d)
                     in Some (Some (rs @
                          [\<lparr>lg_model = m, lg_instance = instance_id, lg_path = path, lg_status = status,
                            lg_prompt_tokens = jget d ''prompt_tokens'',
                            lg_completion_tokens = jget d ''completion_tokens'',
                            lg_total_tokens = jget d ''total_tokens'',
                            lg_error = err, lg_api_key = api_key\<rparr>]))))
      | _ \<Rightarrow> Some rows)"

section \<open>The proxy: state\<close>

record resp =
  rs_status :: nat
  rs_ctype :: string
  rs_body :: "string option"

datatype upstream = Transport string | Answer resp

record world =
  w_up :: "nat \<Rightarrow> upstream"
  w_rand :: "nat \<Rightarrow> rand"
  w_now :: "nat \<Rightarrow> real"

record sent =
  sn_group :: string
  sn_instance :: string
  sn_host :: string
  sn_port :: int
  sn_path :: string
  sn_body :: jobj

text \<open>
  The handler's locals.  \<open>px_open\<close> says whether the response is still open (a failover closes it but
  leaves the variable set); \<open>px_owns\<close> and \<open>px_counted\<close> are the cleanup flags, and \<open>px_raised\<close> says
  that an exception other than \<open>HTTPException\<close> left the loop of a group.
\<close>

record pxy =
  px_app :: rstate
  px_sent :: "sent list"
  px_model :: "string option"
  px_instance :: "string option"
  px_response :: "resp option"
  px_open :: bool
  px_owns :: bool
  px_counted :: bool
  px_exc :: "http_exc option"
  px_exhausted :: bool
  px_raised :: bool

record proxy_env =
  pe_hash :: "string \<Rightarrow> nat"
  pe_margin :: real
  pe_py_str :: "jval \<Rightarrow> string"
  pe_session_header :: "string option"
  pe_path :: string
  pe_world :: world

definition chat_only_paths :: "string list" where
  "chat_only_paths = [''/v1/chat/completions'', ''/v1/completions'', ''/v1/messages'',
                      ''/v1/messages/count_tokens'']"

definition openai_stream_paths :: "string list" where
  "openai_stream_paths = [''/v1/chat/completions'', ''/v1/completions'']"

definition inject_usage :: "string \<Rightarrow> jobj \<Rightarrow> jobj" where
  "inject_usage path body =
     (if path \<in> set openai_stream_paths \<and> truthy (jget body ''stream'')
      then (let opts = (case jget body ''stream_options'' of JObj o' \<Rightarrow> o' | _ \<Rightarrow> [])
            in dset ''stream_options'' (JObj (dsetdefault ''include_usage'' (JBool True) opts)) body)
      else body)"

text \<open>Where a request to an instance goes: its published address, else the configured one.\<close>

definition instance_addr :: "rstate \<Rightarrow> string \<Rightarrow> inst_cfg \<Rightarrow> string \<times> int" where
  "instance_addr s model_key i =
     (case map_of (live_addrs s) (model_key, ic_id i) of
        Some addr \<Rightarrow> addr
      | None \<Rightarrow> (case ic_host i of None \<Rightarrow> ''localhost'' | Some h \<Rightarrow> h, ic_port i))"

definition max_attempts :: "group_cfg \<Rightarrow> nat" where
  "max_attempts cfg = max 1 (min (length (group_instances cfg)) 3)"

section \<open>The proxy: one group\<close>

text \<open>
  \<open>for attempt in range(max_attempts)\<close>, with \<open>left\<close> attempts to go; \<open>left = 1\<close> is the last one.
\<close>

definition cooldown_seconds :: real where "cooldown_seconds = 10"

definition send_to :: "proxy_env \<Rightarrow> string \<Rightarrow> jobj \<Rightarrow> inst_cfg \<Rightarrow> rstate \<Rightarrow> pxy \<Rightarrow> pxy" where
  "send_to pe key body i app st =
     st\<lparr>px_app := incr_inflight app key (ic_id i), px_counted := True, px_instance := Some (ic_id i),
        px_sent := px_sent st @ [\<lparr>sn_group = key, sn_instance = ic_id i,
          sn_host = fst (instance_addr app key i), sn_port = snd (instance_addr app key i),
          sn_path = pe_path pe, sn_body = body\<rparr>]\<rparr>"

text \<open>After a failed attempt: cooldown, release the slot, forget the stream.\<close>

definition fail_over :: "real \<Rightarrow> string \<Rightarrow> string \<Rightarrow> string \<Rightarrow> pxy \<Rightarrow> pxy" where
  "fail_over now key iid err st =
     st\<lparr>px_app := decr_inflight (mark_backend_failure now (px_app st) key iid err cooldown_seconds) key iid,
        px_counted := False, px_owns := False\<rparr>"

fun attempt_loop ::
  "proxy_env \<Rightarrow> string \<Rightarrow> group_cfg \<Rightarrow> jobj \<Rightarrow> jval \<Rightarrow> string option \<Rightarrow> string option \<Rightarrow>
   string set \<Rightarrow> nat \<Rightarrow> pxy \<Rightarrow> pxy" where
  "attempt_loop pe key cfg body strat sk pp tried 0 st = st"
| "attempt_loop pe key cfg body strat sk pp tried (Suc left) st =
     (let k = length (px_sent st); now = w_now (pe_world pe) k in
      case lookup_raises now (px_app st) key cfg strat tried of
        Some app \<Rightarrow> st\<lparr>px_app := app, px_exhausted := True, px_raised := True\<rparr>
      | None \<Rightarrow>
      case select_instance (pe_hash pe) (pe_margin pe) now (w_rand (pe_world pe) k) (px_app st) key cfg
             (strategy_name strat) tried sk pp of
        (Inl e, app) \<Rightarrow> st\<lparr>px_app := app, px_exc := Some e, px_exhausted := True\<rparr>
      | (Inr i, app) \<Rightarrow>
          (let st1 = send_to pe key body i app st in
           case w_up (pe_world pe) k of
             Transport err \<Rightarrow>
               (let st2 = fail_over now key (ic_id i) err st1 in
                if left \<noteq> 0
                then attempt_loop pe key cfg body strat sk pp (insert (ic_id i) tried) left st2
                else st2\<lparr>px_exc := Some (mk_exc 503 ''All backends unavailable''), px_exhausted := True,
                         px_response := None\<rparr>)
           | Answer r \<Rightarrow>
               (let st2 = st1\<lparr>px_response := Some r, px_open := True, px_owns := True\<rparr> in
                if rs_status r \<ge> 500 \<and> left \<noteq> 0
                then attempt_loop pe key cfg body strat sk pp (insert (ic_id i) tried) left
                       ((fail_over now key (ic_id i) ''Received status code'' st2)\<lparr>px_open := False\<rparr>)
                else st2)))"

section \<open>The proxy: the chain and the answer\<close>

definition forward_body :: "target \<Rightarrow> jobj \<Rightarrow> jobj" where
  "forward_body t body = dset ''model'' (tg_forward_name t) body"

text \<open>One group of the chain; \<open>None\<close> when computing the affinity key raises.\<close>

definition try_group :: "proxy_env \<Rightarrow> jobj \<Rightarrow> target \<Rightarrow> pxy \<Rightarrow> pxy option" where
  "try_group pe body t st =
     (let cfg = tg_model_cfg t; fb = forward_body t body;
          strat = resolve_strategy (px_app st) cfg;
          sk = (if strat = JStr ''session_affinity'' then session_key (pe_session_header pe) fb else None);
          st' = st\<lparr>px_model := Some (tg_route_key t)\<rparr>
      in case (if strat = JStr ''prefix_affinity'' then prompt_prefix (pe_py_str pe) 512 fb else Some None) of
           None \<Rightarrow> None
         | Some pp \<Rightarrow>
             Some (attempt_loop pe (tg_route_key t) cfg fb strat sk pp {} (max_attempts cfg)
                     (st'\<lparr>px_response := None, px_exhausted := False, px_raised := False\<rparr>)))"

text \<open>The walk keeps the state at the exception, for the handler's cleanup.\<close>

fun walk_chain :: "proxy_env \<Rightarrow> jobj \<Rightarrow> target list \<Rightarrow> pxy \<Rightarrow> bool \<times> pxy" where
  "walk_chain pe body [] st = (True, st)"
| "walk_chain pe body (t # ts) st =
     (case try_group pe body t st of
        None \<Rightarrow> (False, st\<lparr>px_model := Some (tg_route_key t)\<rparr>)
      | Some st' \<Rightarrow>
          (if px_raised st' then (False, st')
           else if px_response st' \<noteq> None \<and> \<not> px_exhausted st' then (True, st')
           else walk_chain pe body ts st'))"

datatype served =
    Stream resp bool string string  \<comment> \<open>response, still open, group and instance it came from\<close>
  | Buffered resp

definition px_key :: "pxy \<Rightarrow> string" where
  "px_key st = (case px_model st of None \<Rightarrow> [] | Some k \<Rightarrow> k)"

definition px_iid :: "pxy \<Rightarrow> string" where
  "px_iid st = (case px_instance st of None \<Rightarrow> [] | Some k \<Rightarrow> k)"

text \<open>The \<open>finally\<close> block.\<close>

definition cleanup :: "pxy \<Rightarrow> pxy" where
  "cleanup st =
     (if px_counted st
      then st\<lparr>px_app := decr_inflight (px_app st) (px_key st) (px_iid st), px_counted := False, px_owns := False\<rparr>
      else st\<lparr>px_owns := False\<rparr>)"

text \<open>The generic \<open>except Exception\<close> block, then \<open>finally\<close>.\<close>

definition crash :: "real \<Rightarrow> string \<Rightarrow> pxy \<Rightarrow> (http_exc + served) \<times> pxy" where
  "crash now err st =
     (Inl (mk_exc 500 ''Internal server error''),
      cleanup (if px_instance st \<noteq> None \<and> px_model st \<noteq> None
               then st\<lparr>px_app := mark_backend_failure now (px_app st) (px_key st) (px_iid st) err cooldown_seconds\<rparr>
               else st))"

definition settle :: "real \<Rightarrow> pxy \<Rightarrow> (http_exc + served) \<times> pxy" where
  "settle now st =
     (case px_response st of
        None \<Rightarrow>
          (Inl (case px_exc st of Some e \<Rightarrow> e | None \<Rightarrow> mk_exc 503 ''All backends unavailable''), cleanup st)
      | Some r \<Rightarrow>
          (let st1 = (if rs_status r < 500
                      then st\<lparr>px_app := mark_backend_success (px_app st) (px_key st) (px_iid st)\<rparr>
                      else st\<lparr>px_app := mark_backend_failure now (px_app st) (px_key st) (px_iid st)
                                         ''Received status code'' cooldown_seconds\<rparr>)
           in if contains ''text/event-stream'' (rs_ctype r)
              then (Inr (Stream r (px_open st) (px_key st) (px_iid st)),
                    st1\<lparr>px_owns := False, px_counted := False\<rparr>)
              else if px_open st \<and> rs_body r \<noteq> None then (Inr (Buffered r), cleanup st1)
              else crash now ''body not readable'' st1))"

definition pxy_init :: "rstate \<Rightarrow> pxy" where
  "pxy_init s =
     \<lparr>px_app = s, px_sent = [], px_model = None, px_instance = None, px_response = None, px_open = False,
      px_owns = False, px_counted = False, px_exc = None, px_exhausted = False,
      px_raised = False\<rparr>"

text \<open>
  A requested name that is no string matches no group; a list or an object as the name cannot be a
  dictionary key and raises.
\<close>

definition requested_target :: "root_cfg \<Rightarrow> jval \<Rightarrow> target option option" where
  "requested_target config v =
     (case v of JStr n \<Rightarrow> Some (resolve_model config n) | JList _ \<Rightarrow> None | JObj _ \<Rightarrow> None | _ \<Rightarrow> Some None)"

definition proxy_to_backend ::
  "proxy_env \<Rightarrow> root_cfg \<Rightarrow> jval option \<Rightarrow> rstate \<Rightarrow> (http_exc + served) \<times> pxy" where
  "proxy_to_backend pe config request_json s =
     (let st0 = pxy_init s; now0 = w_now (pe_world pe) 0 in
      case request_json of
        Some (JObj body) \<Rightarrow>
          (if \<not> truthy (jget body ''model'') then (Inl (mk_exc 400 ''Missing model field''), cleanup st0)
           else case requested_target config (jget body ''model'') of
                  None \<Rightarrow> crash now0 ''unhashable'' st0
                | Some None \<Rightarrow> (Inl (mk_exc 404 ''Model not found''), cleanup st0)
                | Some (Some t) \<Rightarrow>
                    (if pe_path pe \<in> set chat_only_paths \<and> tg_kind t \<noteq> JStr ''chat''
                     then (Inl (mk_exc 404 ''pooling model''), cleanup st0)
                     else
                       (case walk_chain pe (inject_usage (pe_path pe) body) (build_route_chain config t) st0 of
                          (ok, st) \<Rightarrow>
                            (let now = w_now (pe_world pe) (length (px_sent st))
                             in if ok then settle now st else crash now ''affinity key'' st))))
      | _ \<Rightarrow> crash now0 ''bad request body'' st0)"

section \<open>The streaming generator\<close>

text \<open>
  The generator over the chunks the upstream still delivers; \<open>ends\<close> says whether the stream ends
  normally or breaks.  Chunks are forwarded before they are scanned.
\<close>

fun stream_chunks ::
  "(string \<Rightarrow> jval option) \<Rightarrow> string list \<Rightarrow> bool \<Rightarrow> string \<Rightarrow> jobj option \<Rightarrow> string list \<Rightarrow>
   bool \<times> jobj option \<times> string list" where
  "stream_chunks loads [] ends buffer captured out = (ends, captured, out)"
| "stream_chunks loads (c # cs) ends buffer captured out =
     (case scan_sse loads (buffer @ c) captured of
        (True, _, captured') \<Rightarrow> (False, captured', out @ [c])
      | (False, b', captured') \<Rightarrow> stream_chunks loads cs ends b' captured' (out @ [c]))"

text \<open>On a response that was closed earlier the first read raises and nothing is delivered.\<close>

definition event_stream ::
  "(string \<Rightarrow> jval option) \<Rightarrow> real \<Rightarrow> string list \<Rightarrow> bool \<Rightarrow> served \<Rightarrow> rstate \<Rightarrow>
   (bool \<times> jobj option \<times> string list) \<times> rstate" where
  "event_stream loads now chunks ends sv s =
     (case sv of
        Buffered r \<Rightarrow> ((True, None, []), s)
      | Stream r is_open key iid \<Rightarrow>
          (let (ok, captured, out) =
                 (if is_open then stream_chunks loads chunks ends [] None [] else (False, None, []));
               s1 = (if ok then s else mark_backend_failure now s key iid ''stream'' cooldown_seconds)
           in ((ok, captured, out), decr_inflight s1 key iid)))"

text \<open>Pooling endpoints: the group's backend, a mismatch, or the separate embedding server.\<close>

datatype pooling_route = ToBackend target | KindMismatch | ToEmbeddingServer

definition dispatch_pooling :: "root_cfg \<Rightarrow> string \<Rightarrow> jval option \<Rightarrow> pooling_route option" where
  "dispatch_pooling config expected_kind request_json =
     (let requested = (case request_json of
                         Some (JObj d) \<Rightarrow> jget d ''model'' | _ \<Rightarrow> JNull)
      in if \<not> truthy requested then Some ToEmbeddingServer
         else case requested_target config requested of
                None \<Rightarrow> None
              | Some None \<Rightarrow> Some ToEmbeddingServer
              | Some (Some t) \<Rightarrow> Some (if tg_kind t = JStr expected_kind then ToBackend t else KindMismatch))"

section \<open>Frames\<close>

text \<open>What selection, health marks and drain marks leave alone.\<close>

lemma select_frame:
  "\<exists>d rr. snd (select_instance h mg now r s m cfg st ex sk pp) = s\<lparr>draining := d, rr_counters := rr\<rparr>"
proof (cases "eligible s m ex (group_instances cfg) = []")
  case True
  then show ?thesis
    by (simp add: select_err_shape) (metis rstate.surjective rstate.update_convs(4,5))
next
  case False
  let ?c = "select_context now s m ex (group_instances cfg) sk pp"
  obtain d where d: "sc_app ?c = s\<lparr>draining := d\<rparr>" using select_context_app by blast
  obtain rr where rr: "snd (strategy_fn h mg st now r ?c) = s\<lparr>draining := d, rr_counters := rr\<rparr>"
    using selector.pick_frame [OF strategy_fn_selector, of h mg st now r ?c] unfolding d by blast
  show ?thesis
  proof (cases "length (sc_candidates ?c) = 1")
    case True
    then show ?thesis
      unfolding select_ok_shape [OF False refl]
      by (intro exI [of _ d] exI [of _ "rr_counters s"]) (simp add: d)
  next
    case False
    then show ?thesis
      unfolding select_ok_shape [OF \<open>eligible s m ex (group_instances cfg) \<noteq> []\<close> refl]
      by (intro exI [of _ d] exI [of _ rr]) (simp add: rr)
  qed
qed

lemma select_keeps:
  assumes "select_instance h mg now r s m cfg st ex sk pp = (x, app)"
  shows "backend_inflight app = backend_inflight s" "backend_health app = backend_health s"
    "live_addrs app = live_addrs s" "metrics_cache app = metrics_cache s"
  using select_frame [of h mg now r s m cfg st ex sk pp] assms by auto

lemma lookup_raises_frame:
  assumes "lookup_raises now s key cfg strat tried = Some app"
  shows "\<exists>d. app = s\<lparr>draining := d\<rparr>"
proof -
  have "app = snd (not_draining now key (eligible s key tried (group_instances cfg)) s)"
    using assms by (auto simp: lookup_raises_def split_beta Let_def split: if_splits)
  then show ?thesis
    using select_context_app [of now s key tried "group_instances cfg" None None]
    by (simp add: select_context_def)
qed

lemma lookup_raises_keeps:
  assumes "lookup_raises now s key cfg strat tried = Some app"
  shows "backend_inflight app = backend_inflight s" "live_addrs app = live_addrs s"
  using lookup_raises_frame [OF assms] by auto

lemma get_inflight_cong: "backend_inflight s' = backend_inflight s \<Longrightarrow> get_inflight s' m i = get_inflight s m i"
  by (simp add: get_inflight_def)

lemma inflight_ok_cong: "backend_inflight s' = backend_inflight s \<Longrightarrow> inflight_ok s' = inflight_ok s"
  by (simp add: inflight_ok_def)

lemma health_frame [simp]:
  "backend_inflight (mark_backend_failure now s m i e c) = backend_inflight s"
  "backend_inflight (mark_backend_success s m i) = backend_inflight s"
  "live_addrs (mark_backend_failure now s m i e c) = live_addrs s"
  "live_addrs (mark_backend_success s m i) = live_addrs s"
  "live_addrs (incr_inflight s m i) = live_addrs s"
  "live_addrs (decr_inflight s m i) = live_addrs s"
  by (simp_all add: mark_defs Let_def)

lemma incr_then_release:
  assumes "inflight_ok s" "backend_inflight s' = backend_inflight (incr_inflight s m i)"
  shows "inflight_ok (decr_inflight s' m i)"
    and "get_inflight (decr_inflight s' m i) m' i' = get_inflight s m' i'"
proof -
  have eq: "backend_inflight (decr_inflight s' m i) = backend_inflight (decr_inflight (incr_inflight s m i) m i)"
    unfolding decr_inflight_def Let_def using assms(2) by simp
  show "inflight_ok (decr_inflight s' m i)"
    unfolding inflight_ok_cong [OF eq] by (intro inflight_ok_decr inflight_ok_incr assms(1))
  show "get_inflight (decr_inflight s' m i) m' i' = get_inflight s m' i'"
    unfolding get_inflight_cong [OF eq] using infl.inc_dec [OF assms(1), of "(m, i)" "(m', i')"] by simp
qed

lemma get_inflight_incr:
  "get_inflight (incr_inflight s m i) m' i' =
     get_inflight s m' i' + (if make_backend_key m' i' = make_backend_key m i then 1 else 0)"
  by (simp add: get_inflight_def incr_inflight_def Let_def)

section \<open>One group: accounting\<close>

definition held :: "string \<Rightarrow> pxy \<Rightarrow> string \<Rightarrow> string \<Rightarrow> int" where
  "held key st m i = (if px_counted st \<and> make_backend_key m i = make_backend_key key (px_iid st) then 1 else 0)"

definition idle :: "pxy \<Rightarrow> bool" where
  "idle st = (\<not> px_counted st \<and> \<not> px_open st \<and> \<not> px_raised st \<and> inflight_ok (px_app st))"

definition balanced :: "rstate \<Rightarrow> string \<Rightarrow> pxy \<Rightarrow> bool" where
  "balanced s0 key st =
     (inflight_ok (px_app st) \<and>
      (\<forall>m i. get_inflight (px_app st) m i = get_inflight s0 m i + held key st m i))"

definition group_post :: "string \<Rightarrow> pxy \<Rightarrow> pxy \<Rightarrow> bool" where
  "group_post key st st' =
     (balanced (px_app st) key st' \<and> px_open st' = px_counted st' \<and>
      px_exhausted st' = (\<not> px_counted st') \<and> (px_counted st' \<longrightarrow> px_response st' \<noteq> None) \<and>
      (px_raised st' \<longrightarrow> \<not> px_counted st') \<and> px_model st' = px_model st)"

lemma fail_over_idle:
  assumes "inflight_ok (px_app st)" "backend_inflight app = backend_inflight (px_app st)"
    and "backend_inflight (px_app st1) = backend_inflight (incr_inflight app key iid)"
  shows "inflight_ok (px_app (fail_over now key iid err st1))"
    and "get_inflight (px_app (fail_over now key iid err st1)) m i = get_inflight (px_app st) m i"
proof -
  have ok: "inflight_ok app" using assms(1) inflight_ok_cong [OF assms(2)] by simp
  have bi: "backend_inflight (mark_backend_failure now (px_app st1) key iid err cooldown_seconds) =
      backend_inflight (incr_inflight app key iid)"
    using assms(3) by simp
  show "inflight_ok (px_app (fail_over now key iid err st1))"
    using incr_then_release(1) [OF ok bi] by (simp add: fail_over_def)
  show "get_inflight (px_app (fail_over now key iid err st1)) m i = get_inflight (px_app st) m i"
    using incr_then_release(2) [OF ok bi] get_inflight_cong [OF assms(2)] by (simp add: fail_over_def)
qed

lemma group_post_trans:
  "\<forall>m i. get_inflight (px_app st2) m i = get_inflight (px_app st) m i \<Longrightarrow> px_model st2 = px_model st \<Longrightarrow>
   group_post key st2 st' \<Longrightarrow> group_post key st st'"
  by (simp add: group_post_def balanced_def)

lemma attempt_loop_post:
  "idle st \<Longrightarrow> \<not> px_exhausted st \<Longrightarrow> left \<noteq> 0 \<Longrightarrow>
   group_post key st (attempt_loop pe key cfg body strat sk pp tried left st)"
proof (induction left arbitrary: st tried)
  case 0
  then show ?case by simp
next
  case (Suc left)
  let ?k = "length (px_sent st)"
  obtain x app where sel: "select_instance (pe_hash pe) (pe_margin pe) (w_now (pe_world pe) ?k)
      (w_rand (pe_world pe) ?k) (px_app st) key cfg (strategy_name strat) tried sk pp = (x, app)"
    by (cases "select_instance (pe_hash pe) (pe_margin pe) (w_now (pe_world pe) ?k)
      (w_rand (pe_world pe) ?k) (px_app st) key cfg (strategy_name strat) tried sk pp") simp
  note keep = select_keeps [OF sel]
  have okst: "inflight_ok (px_app st)" using Suc.prems(1) by (simp add: idle_def)
  show ?case
  proof (cases "lookup_raises (w_now (pe_world pe) ?k) (px_app st) key cfg strat tried")
    case (Some a)
    note ka = lookup_raises_keeps [OF Some]
    show ?thesis
      using Suc.prems Some get_inflight_cong [OF ka(1)] inflight_ok_cong [OF ka(1)]
      by (simp add: group_post_def balanced_def held_def idle_def)
  next
  case look: None
  show ?thesis
  proof (cases x)
    case (Inl e)
    then show ?thesis
      using Suc.prems sel look get_inflight_cong [OF keep(1)] inflight_ok_cong [OF keep(1)]
      by (simp add: group_post_def balanced_def held_def idle_def)
  next
    case (Inr i)
    let ?st1 = "send_to pe key body i app st"
    have bi1: "backend_inflight (px_app ?st1) = backend_inflight (incr_inflight app key (ic_id i))"
      by (simp add: send_to_def)
    show ?thesis
    proof (cases "w_up (pe_world pe) ?k")
      case (Transport err)
      let ?st2 = "fail_over (w_now (pe_world pe) ?k) key (ic_id i) err ?st1"
      note fo = fail_over_idle [OF okst keep(1) bi1]
      have same: "px_model ?st2 = px_model st" "px_exhausted ?st2 = px_exhausted st" "\<not> px_counted ?st2"
        "px_open ?st2 = px_open st" "px_raised ?st2 = px_raised st"
        by (simp_all add: fail_over_def send_to_def)
      show ?thesis
      proof (cases "left = 0")
        case True
        then show ?thesis
          using sel look Inr Transport Suc.prems fo same
          by (simp add: group_post_def balanced_def held_def idle_def)
      next
        case False
        have "group_post key ?st2 (attempt_loop pe key cfg body strat sk pp (insert (ic_id i) tried) left ?st2)"
          by (rule Suc.IH) (use same Suc.prems fo False in \<open>simp_all add: idle_def\<close>)
        then show ?thesis
          using sel look Inr Transport False fo same
          by (intro group_post_trans [of ?st2 st]) simp_all
      qed
    next
      case (Answer r)
      let ?st2 = "?st1\<lparr>px_response := Some r, px_open := True, px_owns := True\<rparr>"
      show ?thesis
      proof (cases "rs_status r \<ge> 500 \<and> left \<noteq> 0")
        case True
        have bi2: "backend_inflight (px_app ?st2) = backend_inflight (incr_inflight app key (ic_id i))"
          using bi1 by simp
        let ?st3 = "(fail_over (w_now (pe_world pe) ?k) key (ic_id i) ''Received status code'' ?st2)\<lparr>px_open := False\<rparr>"
        note fo = fail_over_idle [OF okst keep(1) bi2]
        have same: "px_model ?st3 = px_model st" "px_exhausted ?st3 = px_exhausted st" "\<not> px_counted ?st3"
          "px_raised ?st3 = px_raised st"
          by (simp_all add: fail_over_def send_to_def)
        have "group_post key ?st3 (attempt_loop pe key cfg body strat sk pp (insert (ic_id i) tried) left ?st3)"
          by (rule Suc.IH) (use same Suc.prems fo True in \<open>simp_all add: idle_def\<close>)
        then show ?thesis
          using sel look Inr Answer True fo same
          by (intro group_post_trans [of ?st3 st]) simp_all
      next
        case False
        have ok: "inflight_ok app" using okst inflight_ok_cong [OF keep(1)] by simp
        have "group_post key st ?st2"
          using Suc.prems inflight_ok_incr [OF ok] get_inflight_cong [OF keep(1)]
          by (simp add: group_post_def balanced_def held_def send_to_def get_inflight_incr px_iid_def idle_def)
        then show ?thesis
          using sel look Inr Answer False by (auto simp: Let_def)
      qed
    qed
  qed
  qed
qed

lemma attempt_loop_raised:
  "px_raised (attempt_loop pe key cfg body strat sk pp tried left st) \<Longrightarrow> \<not> px_raised st \<Longrightarrow>
   px_exhausted (attempt_loop pe key cfg body strat sk pp tried left st)"
proof (induction left arbitrary: st tried)
  case 0
  then show ?case by simp
next
  case (Suc left)
  then show ?case
    by (auto simp: Let_def fail_over_def send_to_def split: option.splits sum.splits prod.splits upstream.splits if_splits)
qed

section \<open>The chain: accounting\<close>

lemma max_attempts_pos: "max_attempts cfg \<noteq> 0" "max_attempts cfg \<le> 3"
  by (simp_all add: max_attempts_def)

lemma try_group_post:
  assumes "idle st" "try_group pe body t st = Some st'"
  shows "group_post (tg_route_key t) (st\<lparr>px_model := Some (tg_route_key t)\<rparr>) st'"
proof -
  let ?st = "st\<lparr>px_model := Some (tg_route_key t), px_response := None, px_exhausted := False, px_raised := False\<rparr>"
  have "\<exists>strat sk pp fb. st' = attempt_loop pe (tg_route_key t) (tg_model_cfg t) fb strat sk pp {}
      (max_attempts (tg_model_cfg t)) ?st"
    using assms(2) by (auto simp: try_group_def Let_def split: option.splits)
  moreover have "idle ?st" using assms(1) by (simp add: idle_def)
  ultimately have "group_post (tg_route_key t) ?st st'"
    using attempt_loop_post max_attempts_pos by auto
  then show ?thesis by (simp add: group_post_def balanced_def)
qed

definition chain_post :: "rstate \<Rightarrow> bool \<times> pxy \<Rightarrow> bool" where
  "chain_post s0 r =
     (balanced s0 (px_key (snd r)) (snd r) \<and> px_open (snd r) = px_counted (snd r) \<and>
      (px_counted (snd r) \<longrightarrow> px_response (snd r) \<noteq> None) \<and> (\<not> fst r \<longrightarrow> \<not> px_counted (snd r)))"

lemma walk_chain_post: "idle st \<Longrightarrow> chain_post (px_app st) (walk_chain pe body ts st)"
proof (induction ts arbitrary: st)
  case Nil
  then show ?case by (simp add: chain_post_def balanced_def idle_def held_def)
next
  case (Cons t ts)
  show ?case
  proof (cases "try_group pe body t st")
    case None
    then show ?thesis
      using Cons.prems by (simp add: chain_post_def balanced_def idle_def held_def)
  next
    case (Some st')
    note gp = try_group_post [OF Cons.prems Some]
    have key: "px_key st' = tg_route_key t" using gp by (simp add: group_post_def px_key_def)
    show ?thesis
    proof (cases "px_raised st'")
      case True
      then show ?thesis
        using Some gp key by (simp add: chain_post_def group_post_def)
    next
    case calm: False
    show ?thesis
    proof (cases "px_response st' \<noteq> None \<and> \<not> px_exhausted st'")
      case True
      then show ?thesis
        using Some gp key calm by (simp add: chain_post_def group_post_def)
    next
      case False
      then have nc: "\<not> px_counted st'" using gp by (auto simp: group_post_def)
      then have "idle st'" using gp calm by (simp add: idle_def group_post_def balanced_def)
      from Cons.IH [OF this] have "chain_post (px_app st') (walk_chain pe body ts st')" .
      moreover have "get_inflight (px_app st') m i = get_inflight (px_app st) m i" for m i
        using gp nc by (simp add: group_post_def balanced_def held_def)
      moreover have "walk_chain pe body (t # ts) st = walk_chain pe body ts st'"
        using Some False calm by auto
      ultimately show ?thesis
        by (simp add: chain_post_def balanced_def)
    qed
    qed
  qed
qed

section \<open>The answer: accounting\<close>

lemma get_inflight_decr:
  "inflight_ok s \<Longrightarrow> get_inflight (decr_inflight s m i) m' i' =
     (if make_backend_key m' i' = make_backend_key m i then max 0 (get_inflight s m i - 1)
      else get_inflight s m' i')"
  using infl.cnt_dec [of s "(m, i)" "(m', i')"] by simp

lemma get_inflight_same_key:
  "make_backend_key m' i' = make_backend_key m i \<Longrightarrow> get_inflight s m' i' = get_inflight s m i"
  by (simp add: get_inflight_def)

lemma get_inflight_nonneg: "inflight_ok s \<Longrightarrow> 0 \<le> get_inflight s m i"
  by (simp add: get_inflight_def inflight_ok_nonneg)

lemma cleanup_balanced:
  assumes "balanced s0 (px_key st) st" "inflight_ok s0"
  shows "inflight_ok (px_app (cleanup st))"
    and "get_inflight (px_app (cleanup st)) m i = get_inflight s0 m i"
proof -
  have ok: "inflight_ok (px_app st)" using assms(1) by (simp add: balanced_def)
  have cnt: "get_inflight (px_app st) m i = get_inflight s0 m i + held (px_key st) st m i" for m i
    using assms(1) by (simp add: balanced_def)
  show "inflight_ok (px_app (cleanup st))"
    using ok inflight_ok_decr by (simp add: cleanup_def)
  show "get_inflight (px_app (cleanup st)) m i = get_inflight s0 m i"
    using cnt [of m i] cnt [of "px_key st" "px_iid st"] get_inflight_nonneg [OF assms(2), of m i]
      get_inflight_same_key [of m i "px_key st" "px_iid st" s0]
    by (auto simp: cleanup_def get_inflight_decr [OF ok] held_def)
qed

lemma balanced_health:
  "balanced s0 k (st\<lparr>px_app := mark_backend_failure now (px_app st) m i e c\<rparr>) = balanced s0 k st"
  "balanced s0 k (st\<lparr>px_app := mark_backend_success (px_app st) m i\<rparr>) = balanced s0 k st"
  by (simp_all add: balanced_def inflight_ok_def get_inflight_def held_def px_iid_def)

lemma px_key_app [simp]: "px_key (st\<lparr>px_app := a\<rparr>) = px_key st" "px_iid (st\<lparr>px_app := a\<rparr>) = px_iid st"
  by (simp_all add: px_key_def px_iid_def)

text \<open>What a finished handler owes: nothing, or the slot its stream still occupies.\<close>

definition owes :: "(http_exc + served) \<Rightarrow> string \<Rightarrow> string \<Rightarrow> int" where
  "owes res m i =
     (case res of
        Inr (Stream r is_open k iid) \<Rightarrow>
          (if is_open \<and> make_backend_key m i = make_backend_key k iid then 1 else 0)
      | _ \<Rightarrow> 0)"

definition settled :: "rstate \<Rightarrow> (http_exc + served) \<times> pxy \<Rightarrow> bool" where
  "settled s0 res =
     (inflight_ok (px_app (snd res)) \<and>
      (\<forall>m i. get_inflight (px_app (snd res)) m i = get_inflight s0 m i + owes (fst res) m i))"

lemma crash_settled:
  assumes "balanced s0 (px_key st) st" "inflight_ok s0"
  shows "settled s0 (crash now err st)"
  using cleanup_balanced [OF assms] assms
    cleanup_balanced [of s0 "st\<lparr>px_app := mark_backend_failure now (px_app st) (px_key st) (px_iid st) err cooldown_seconds\<rparr>"]
  by (auto simp: settled_def crash_def owes_def balanced_health)

lemma settle_settled:
  assumes "chain_post s0 (True, st)" "inflight_ok s0"
  shows "settled s0 (settle now st)"
proof -
  have bal: "balanced s0 (px_key st) st" and open_counted: "px_open st = px_counted st"
    using assms(1) by (simp_all add: chain_post_def)
  show ?thesis
  proof (cases "px_response st")
    case None
    then show ?thesis
      using cleanup_balanced [OF bal assms(2)] by (simp add: settle_def settled_def owes_def)
  next
    case (Some r)
    define st1 where "st1 = (if rs_status r < 500
        then st\<lparr>px_app := mark_backend_success (px_app st) (px_key st) (px_iid st)\<rparr>
        else st\<lparr>px_app := mark_backend_failure now (px_app st) (px_key st) (px_iid st)
                           ''Received status code'' cooldown_seconds\<rparr>)"
    have st1: "balanced s0 (px_key st1) st1" "px_counted st1 = px_counted st" "px_open st1 = px_open st"
      "px_key st1 = px_key st" "px_iid st1 = px_iid st"
      using bal by (simp_all add: st1_def balanced_health)
    have shape: "settle now st =
        (if contains ''text/event-stream'' (rs_ctype r)
         then (Inr (Stream r (px_open st) (px_key st) (px_iid st)), st1\<lparr>px_owns := False, px_counted := False\<rparr>)
         else if px_open st \<and> rs_body r \<noteq> None then (Inr (Buffered r), cleanup st1)
         else crash now ''body not readable'' st1)"
      by (auto simp: settle_def Some Let_def st1_def)
    have "settled s0 (Inr (Stream r (px_open st) (px_key st) (px_iid st)), st1\<lparr>px_owns := False, px_counted := False\<rparr>)"
      using st1 open_counted by (simp add: settled_def owes_def balanced_def held_def)
    moreover have "settled s0 (Inr (Buffered r), cleanup st1)"
      using cleanup_balanced [OF st1(1) assms(2)] by (simp add: settled_def owes_def)
    ultimately show ?thesis
      using crash_settled [OF st1(1) assms(2)] by (simp add: shape)
  qed
qed

lemma pxy_init_idle: "inflight_ok s \<Longrightarrow> idle (pxy_init s) \<and> balanced s (px_key (pxy_init s)) (pxy_init s)"
  by (simp add: idle_def pxy_init_def balanced_def held_def)

lemma proxy_settled:
  assumes "inflight_ok s"
  shows "settled s (proxy_to_backend pe config rj s)"
proof -
  have init: "idle (pxy_init s)" "balanced s (px_key (pxy_init s)) (pxy_init s)" "px_app (pxy_init s) = s"
    using pxy_init_idle [OF assms] by (simp_all add: pxy_init_def)
  have early: "settled s (Inl e, cleanup (pxy_init s))" for e
    using cleanup_balanced [OF init(2) assms] by (simp add: settled_def owes_def)
  have cr: "settled s (crash now err (pxy_init s))" for now err
    by (rule crash_settled [OF init(2) assms])
  have walked: "settled s (if ok then settle now st else crash now err st)"
    if "walk_chain pe body ts (pxy_init s) = (ok, st)" for body ts ok st now err
  proof -
    have cp: "chain_post s (ok, st)"
      using walk_chain_post [OF init(1), of pe body ts] that init(3) by simp
    then have "balanced s (px_key st) st" by (simp add: chain_post_def)
    then show ?thesis
      using settle_settled [OF _ assms] crash_settled [OF _ assms] cp by (cases ok) simp_all
  qed
  show ?thesis
    unfolding proxy_to_backend_def Let_def
    using early cr walked by (auto split: option.split jval.split prod.split)
qed

section \<open>Properties\<close>

text \<open>
  C1: in-flight accounting, from counts that are not negative.  Whatever the backends answer, when the
  handler has returned every backend's in-flight count is what it was, except that a live stream being served still holds one
  slot of its backend.  When that stream has ended, normally or not, every count is what it was;
  when the stream handed out was one that failover had already closed, its end releases one more
  slot of that backend than was taken, never below zero, and no other count changes.
\<close>

theorem proxy_inflight_balanced:
  assumes "inflight_ok s" "proxy_to_backend pe config request_json s = (res, st)"
  shows "get_inflight (px_app st) m i = get_inflight s m i + owes res m i \<and>
     (\<forall>r live k iid. res = Inr (Stream r live k iid) \<longrightarrow>
        get_inflight (snd (event_stream loads now chunks ends (Stream r live k iid) (px_app st))) m i =
        (if \<not> live \<and> make_backend_key m i = make_backend_key k iid then max 0 (get_inflight s m i - 1)
         else get_inflight s m i))"
proof -
  have ok: "inflight_ok (px_app st)"
    and cnt: "get_inflight (px_app st) m i = get_inflight s m i + owes res m i" for m i
    using proxy_settled [OF assms(1), of pe config request_json] assms(2) by (simp_all add: settled_def)
  have "get_inflight (snd (event_stream loads now chunks ends (Stream r live k iid) (px_app st))) m i =
        (if \<not> live \<and> make_backend_key m i = make_backend_key k iid then max 0 (get_inflight s m i - 1)
         else get_inflight s m i)" if res: "res = Inr (Stream r live k iid)" for r live k iid
  proof -
    obtain b c out where sc: "(if live then stream_chunks loads chunks ends [] None [] else (False, None, [])) = (b, c, out)"
      by (metis prod.collapse)
    let ?s1 = "if b then px_app st else mark_backend_failure now (px_app st) k iid ''stream'' cooldown_seconds"
    have bi: "backend_inflight ?s1 = backend_inflight (px_app st)" by simp
    have ok1: "inflight_ok ?s1" using ok inflight_ok_cong [OF bi] by simp
    have eq: "snd (event_stream loads now chunks ends (Stream r live k iid) (px_app st)) = decr_inflight ?s1 k iid"
      by (simp add: event_stream_def sc Let_def)
    show ?thesis
      unfolding eq get_inflight_decr [OF ok1] get_inflight_cong [OF bi]
      using cnt [of m i] cnt [of k iid] res get_inflight_nonneg [OF assms(1), of m i]
        get_inflight_same_key [of m i k iid s]
      by (auto simp: owes_def)
  qed
  then show ?thesis using cnt by blast
qed

definition demo_world :: "upstream list \<Rightarrow> world" where
  "demo_world us = \<lparr>w_up = \<lambda>k. us ! k, w_rand = \<lambda>k. (0, 0), w_now = \<lambda>k. 0\<rparr>"

definition demo_pe :: "upstream list \<Rightarrow> proxy_env" where
  "demo_pe us = \<lparr>pe_hash = \<lambda>_. 0, pe_margin = 50, pe_py_str = \<lambda>_. [], pe_session_header = None,
     pe_path = ''/tokenize'', pe_world = demo_world us\<rparr>"

definition demo_asleep :: metric where
  "demo_asleep = \<lparr>mt_running = Fin 0, mt_waiting = Fin 0, mt_kv = Fin 0, mt_prompt_tokens = Fin 0,
     mt_generation_tokens = Fin 0, mt_is_sleeping = True\<rparr>"

text \<open>A group of two replicas, the second asleep, with one request already in flight on the first.\<close>

definition busy_rs :: rstate where
  "busy_rs = demo_rs\<lparr>metrics_cache := [(''q'', [(''b'', demo_asleep)])],
                     backend_inflight := [(make_backend_key ''q'' ''a'', 1)]\<rparr>"

definition pair_root :: root_cfg where
  "pair_root = demo_root [(''q'', demo_pair)]"

definition demo_body :: "jval option" where
  "demo_body = Some (JObj [(''model'', JStr ''q'')])"

definition sse503 :: resp where
  "sse503 = \<lparr>rs_status = 503, rs_ctype = ''text/event-stream'', rs_body = None\<rparr>"

lemma busy_ok: "inflight_ok busy_rs"
  by (simp add: inflight_ok_def busy_rs_def dict_ok_def)

lemma proxy_inflight_balanced_witness:
  "get_inflight (px_app (snd (proxy_to_backend (demo_pe [Transport ''down'']) pair_root demo_body busy_rs))) ''q'' ''a''
     = 1 + owes (fst (proxy_to_backend (demo_pe [Transport ''down'']) pair_root demo_body busy_rs)) ''q'' ''a''"
proof -
  have "get_inflight busy_rs ''q'' ''a'' = 1" by code_simp
  then show ?thesis
    using proxy_inflight_balanced [OF busy_ok, of "demo_pe [Transport ''down'']" pair_root demo_body]
    by (metis prod.collapse)
qed

text \<open>
  The exception.  When the last answer was a 5xx that failover already closed and selection
  then finds nothing left, the closed response is still handed out as a stream, and its generator
  releases the slot a second time: here another request's slot on the same backend is lost.
\<close>

theorem stale_stream_undercounts:
  "get_inflight busy_rs ''q'' ''a'' = 1 \<and>
   fst (proxy_to_backend (demo_pe [Answer sse503]) pair_root demo_body busy_rs) = Inr (Stream sse503 False ''q'' ''a'') \<and>
   get_inflight (px_app (snd (proxy_to_backend (demo_pe [Answer sse503]) pair_root demo_body busy_rs))) ''q'' ''a'' = 1 \<and>
   get_inflight (snd (event_stream (\<lambda>_. None) 0 [] True (Stream sse503 False ''q'' ''a'')
     (px_app (snd (proxy_to_backend (demo_pe [Answer sse503]) pair_root demo_body busy_rs))))) ''q'' ''a'' = 0"
  by code_simp

section \<open>What is sent, and where: lemmas\<close>

definition sends_in :: "proxy_env \<Rightarrow> rstate \<Rightarrow> string \<Rightarrow> group_cfg \<Rightarrow> jobj \<Rightarrow> string set \<Rightarrow> nat \<Rightarrow> sent list \<Rightarrow> bool" where
  "sends_in pe app key cfg body tried n new =
     (length new \<le> n \<and> distinct (map sn_instance new) \<and> set (map sn_instance new) \<inter> tried = {} \<and>
      (\<forall>x \<in> set new. sn_group x = key \<and> sn_path x = pe_path pe \<and> sn_body x = body \<and>
         (\<exists>i \<in> set (group_instances cfg). sn_instance x = ic_id i \<and>
            (sn_host x, sn_port x) = instance_addr app key i)))"

lemma instance_addr_cong: "live_addrs s' = live_addrs s \<Longrightarrow> instance_addr s' k i = instance_addr s k i"
  by (simp add: instance_addr_def)

lemma sends_in_cong:
  "live_addrs s' = live_addrs s \<Longrightarrow> sends_in pe s' key cfg body tried n new = sends_in pe s key cfg body tried n new"
  by (simp add: sends_in_def instance_addr_def)

lemma sends_in_Nil: "sends_in pe s key cfg body tried n []"
  by (simp add: sends_in_def)

lemma sends_in_Cons:
  assumes "sends_in pe s key cfg body (insert (ic_id i) tried) n new" "ic_id i \<notin> tried"
    and "i \<in> set (group_instances cfg)"
  shows "sends_in pe s key cfg body tried (Suc n)
     (\<lparr>sn_group = key, sn_instance = ic_id i, sn_host = fst (instance_addr s key i),
       sn_port = snd (instance_addr s key i), sn_path = pe_path pe, sn_body = body\<rparr> # new)"
  using assms by (auto simp: sends_in_def)

lemma select_untried:
  assumes "select_instance h mg now r s m cfg st ex sk pp = (Inr i, app)"
  shows "ic_id i \<notin> ex" "i \<in> set (group_instances cfg)"
proof -
  have "ic_id j \<notin> ex" if "j \<in> set (routable now s m ex (group_instances cfg))" for j
    using that routable_subset [of now s m ex "group_instances cfg"] by (auto simp: eligible_def)
  then show "ic_id i \<notin> ex" "i \<in> set (group_instances cfg)"
    using select_property [of h mg now r s m cfg st ex sk pp i "\<lambda>k. k \<notin> ex"] assms by auto
qed

definition failed :: "upstream \<Rightarrow> bool" where
  "failed u = (case u of Transport _ \<Rightarrow> True | Answer r \<Rightarrow> 500 \<le> rs_status r)"

text \<open>
  The answers of the sends \<open>n0 ..< n\<close>: all failed when the group is exhausted; otherwise all but the
  last failed and the last is the response kept, still open.
\<close>

definition outcome :: "proxy_env \<Rightarrow> nat \<Rightarrow> pxy \<Rightarrow> bool" where
  "outcome pe n0 st =
     (let n = length (px_sent st) in
      if px_exhausted st then \<forall>k. n0 \<le> k \<and> k < n \<longrightarrow> failed (w_up (pe_world pe) k)
      else n0 < n \<and> (\<forall>k. n0 \<le> k \<and> k < n - 1 \<longrightarrow> failed (w_up (pe_world pe) k)) \<and> px_open st \<and>
           (\<exists>r. w_up (pe_world pe) (n - 1) = Answer r \<and> px_response st = Some r))"

lemma outcome_extend: "outcome pe (Suc n) st \<Longrightarrow> failed (w_up (pe_world pe) n) \<Longrightarrow> outcome pe n st"
  by (auto simp: outcome_def Let_def) (metis Suc_leI le_neq_implies_less)+

text \<open>A response variable set but exhausted was answered by some send.\<close>

lemma attempt_loop_trace:
  "\<not> px_exhausted st \<Longrightarrow> left \<noteq> 0 \<Longrightarrow>
   \<exists>new. px_sent (attempt_loop pe key cfg body strat sk pp tried left st) = px_sent st @ new \<and>
     sends_in pe (px_app st) key cfg body tried left new \<and>
     live_addrs (px_app (attempt_loop pe key cfg body strat sk pp tried left st)) = live_addrs (px_app st) \<and>
     outcome pe (length (px_sent st)) (attempt_loop pe key cfg body strat sk pp tried left st)"
proof (induction left arbitrary: st tried)
  case 0
  then show ?case by simp
next
  case (Suc left)
  let ?k = "length (px_sent st)"
  obtain x app where sel: "select_instance (pe_hash pe) (pe_margin pe) (w_now (pe_world pe) ?k)
      (w_rand (pe_world pe) ?k) (px_app st) key cfg (strategy_name strat) tried sk pp = (x, app)"
    by (cases "select_instance (pe_hash pe) (pe_margin pe) (w_now (pe_world pe) ?k)
      (w_rand (pe_world pe) ?k) (px_app st) key cfg (strategy_name strat) tried sk pp") simp
  note keep = select_keeps [OF sel]
  show ?case
  proof (cases "lookup_raises (w_now (pe_world pe) ?k) (px_app st) key cfg strat tried")
    case (Some a)
    then show ?thesis
      using lookup_raises_keeps(2) [OF Some] sends_in_Nil by (auto simp: outcome_def Let_def)
  next
  case look: None
  show ?thesis
  proof (cases x)
    case (Inl e)
    then show ?thesis
      using sel look keep(3) sends_in_Nil by (auto simp: outcome_def Let_def)
  next
    case (Inr i)
    note i = select_untried [OF sel [unfolded Inr]]
    let ?st1 = "send_to pe key body i app st"
    let ?new1 = "\<lparr>sn_group = key, sn_instance = ic_id i, sn_host = fst (instance_addr (px_app st) key i),
       sn_port = snd (instance_addr (px_app st) key i), sn_path = pe_path pe, sn_body = body\<rparr>"
    have st1: "px_sent ?st1 = px_sent st @ [?new1]" "live_addrs (px_app ?st1) = live_addrs (px_app st)"
      "px_exhausted ?st1 = px_exhausted st"
      using instance_addr_cong [OF keep(3)] keep(3) by (simp_all add: send_to_def)
    have stop: "sends_in pe (px_app st) key cfg body tried (Suc left) [?new1]"
      using sends_in_Cons [OF sends_in_Nil i] sends_in_def by (simp add: sends_in_def)
    have go: "\<exists>new. px_sent (attempt_loop pe key cfg body strat sk pp (insert (ic_id i) tried) left st2) = px_sent st @ new \<and>
         sends_in pe (px_app st) key cfg body tried (Suc left) new \<and>
         live_addrs (px_app (attempt_loop pe key cfg body strat sk pp (insert (ic_id i) tried) left st2)) = live_addrs (px_app st) \<and>
         outcome pe ?k (attempt_loop pe key cfg body strat sk pp (insert (ic_id i) tried) left st2)"
      if h: "px_sent st2 = px_sent ?st1" "live_addrs (px_app st2) = live_addrs (px_app st)" "\<not> px_exhausted st2"
        "left \<noteq> 0" "failed (w_up (pe_world pe) ?k)" for st2
    proof -
      obtain new where new:
        "px_sent (attempt_loop pe key cfg body strat sk pp (insert (ic_id i) tried) left st2) = px_sent st2 @ new"
        "sends_in pe (px_app st2) key cfg body (insert (ic_id i) tried) left new"
        "live_addrs (px_app (attempt_loop pe key cfg body strat sk pp (insert (ic_id i) tried) left st2)) = live_addrs (px_app st2)"
        "outcome pe (length (px_sent st2)) (attempt_loop pe key cfg body strat sk pp (insert (ic_id i) tried) left st2)"
        using Suc.IH [OF h(3,4), of "insert (ic_id i) tried"] by blast
      have "sends_in pe (px_app st) key cfg body tried (Suc left) (?new1 # new)"
        by (rule sends_in_Cons [OF _ i]) (use new(2) sends_in_cong [OF h(2)] in blast)
      moreover have "outcome pe ?k (attempt_loop pe key cfg body strat sk pp (insert (ic_id i) tried) left st2)"
        by (rule outcome_extend [OF _ h(5)]) (use new(4) h(1) st1(1) in simp)
      ultimately show ?thesis
        using new(1,3) h(1,2) st1(1) by (intro exI [of _ "?new1 # new"]) simp
    qed
    show ?thesis
    proof (cases "w_up (pe_world pe) ?k")
      case (Transport err)
      let ?st2 = "fail_over (w_now (pe_world pe) ?k) key (ic_id i) err ?st1"
      have st2: "px_sent ?st2 = px_sent ?st1" "live_addrs (px_app ?st2) = live_addrs (px_app st)"
        "\<not> px_exhausted ?st2"
        using st1 Suc.prems(1) by (simp_all add: fail_over_def)
      have f: "failed (w_up (pe_world pe) ?k)" using Transport by (simp add: failed_def)
      show ?thesis
      proof (cases "left = 0")
        case True
        then show ?thesis
          using sel look Inr Transport st2 st1(1) stop f
          by (auto simp: outcome_def Let_def less_Suc_eq)
      next
        case False
        show ?thesis
          using go [OF st2 False f] sel look Inr Transport False by (simp add: Let_def)
      qed
    next
      case (Answer r)
      let ?st2 = "?st1\<lparr>px_response := Some r, px_open := True, px_owns := True\<rparr>"
      show ?thesis
      proof (cases "rs_status r \<ge> 500 \<and> left \<noteq> 0")
        case True
        let ?st3 = "(fail_over (w_now (pe_world pe) ?k) key (ic_id i) ''Received status code'' ?st2)\<lparr>px_open := False\<rparr>"
        have st3: "px_sent ?st3 = px_sent ?st1" "live_addrs (px_app ?st3) = live_addrs (px_app st)"
          "\<not> px_exhausted ?st3"
          using st1 Suc.prems(1) by (simp_all add: fail_over_def)
        have f: "failed (w_up (pe_world pe) ?k)" using Answer True by (simp add: failed_def)
        show ?thesis
          using go [OF st3 _ f] sel look Inr Answer True by (simp add: Let_def)
      next
        case False
        then have "attempt_loop pe key cfg body strat sk pp tried (Suc left) st = ?st2"
          using sel look Inr Answer by (auto simp: Let_def)
        then show ?thesis
          using st1 stop Answer Suc.prems(1) by (auto simp: outcome_def Let_def)
      qed
    qed
  qed
  qed
qed

section \<open>The chain: trace\<close>

definition send_for :: "proxy_env \<Rightarrow> rstate \<Rightarrow> jobj \<Rightarrow> target \<Rightarrow> sent \<Rightarrow> bool" where
  "send_for pe app body t x =
     (sn_group x = tg_route_key t \<and> sn_path x = pe_path pe \<and> sn_body x = forward_body t body \<and>
      (\<exists>i \<in> set (group_instances (tg_model_cfg t)). sn_instance x = ic_id i \<and>
         (sn_host x, sn_port x) = instance_addr app (tg_route_key t) i))"

abbreviation dest :: "sent \<Rightarrow> string \<times> string" where
  "dest x \<equiv> (sn_group x, sn_instance x)"

definition chain_sends :: "proxy_env \<Rightarrow> rstate \<Rightarrow> jobj \<Rightarrow> target list \<Rightarrow> sent list \<Rightarrow> bool" where
  "chain_sends pe app body ts new =
     (length new \<le> 3 * length ts \<and> (\<forall>x \<in> set new. \<exists>t \<in> set ts. send_for pe app body t x) \<and>
      (distinct (map tg_route_key ts) \<longrightarrow> distinct (map dest new)))"

definition all_failed :: "proxy_env \<Rightarrow> nat \<Rightarrow> nat \<Rightarrow> bool" where
  "all_failed pe a b = (\<forall>k. a \<le> k \<and> k < b \<longrightarrow> failed (w_up (pe_world pe) k))"

definition chain_outcome :: "proxy_env \<Rightarrow> nat \<Rightarrow> bool \<Rightarrow> pxy \<Rightarrow> bool" where
  "chain_outcome pe n0 ok st =
     (let n = length (px_sent st) in
      all_failed pe n0 n \<or>
      (ok \<and> n0 < n \<and> all_failed pe n0 (n - 1) \<and> px_open st \<and>
       (\<exists>r. w_up (pe_world pe) (n - 1) = Answer r \<and> px_response st = Some r)))"

lemma all_failed_join: "all_failed pe a b \<Longrightarrow> all_failed pe b c \<Longrightarrow> all_failed pe a c"
  by (auto simp: all_failed_def) (metis not_le_imp_less)

lemma chain_outcome_extend:
  "all_failed pe a b \<Longrightarrow> a \<le> b \<Longrightarrow> chain_outcome pe b ok st \<Longrightarrow> chain_outcome pe a ok st"
  by (auto simp: chain_outcome_def Let_def intro: all_failed_join)

lemma try_group_trace:
  assumes "try_group pe body t st = Some st'"
  shows "\<exists>new. px_sent st' = px_sent st @ new \<and>
     sends_in pe (px_app st) (tg_route_key t) (tg_model_cfg t) (forward_body t body) {} 3 new \<and>
     live_addrs (px_app st') = live_addrs (px_app st) \<and> outcome pe (length (px_sent st)) st' \<and>
     (px_raised st' \<longrightarrow> px_exhausted st')"
proof -
  let ?st = "st\<lparr>px_model := Some (tg_route_key t), px_response := None, px_exhausted := False, px_raised := False\<rparr>"
  obtain strat sk pp where st': "st' = attempt_loop pe (tg_route_key t) (tg_model_cfg t) (forward_body t body)
      strat sk pp {} (max_attempts (tg_model_cfg t)) ?st"
    using assms by (auto simp: try_group_def Let_def split: option.splits)
  have "\<exists>new. px_sent st' = px_sent ?st @ new \<and>
     sends_in pe (px_app ?st) (tg_route_key t) (tg_model_cfg t) (forward_body t body) {} (max_attempts (tg_model_cfg t)) new \<and>
     live_addrs (px_app st') = live_addrs (px_app ?st) \<and> outcome pe (length (px_sent ?st)) st'"
    unfolding st' by (rule attempt_loop_trace) (simp_all add: max_attempts_pos)
  moreover have "px_raised st' \<longrightarrow> px_exhausted st'"
    unfolding st' using attempt_loop_raised by force
  moreover have "sends_in pe app k c b {} (max_attempts cfg) new \<Longrightarrow> sends_in pe app k c b {} 3 new" for app k c b cfg new
    using max_attempts_pos(2) [of cfg] by (auto simp: sends_in_def)
  ultimately show ?thesis by auto
qed

lemma chain_sends_Cons:
  assumes "sends_in pe app (tg_route_key t) (tg_model_cfg t) (forward_body t body) {} 3 new"
    and "chain_sends pe app body ts new'"
  shows "chain_sends pe app body (t # ts) (new @ new')"
proof -
  have here: "send_for pe app body t x" if "x \<in> set new" for x
    using assms(1) that by (auto simp: sends_in_def send_for_def)
  have grp: "sn_group x = tg_route_key t" if "x \<in> set new" for x
    using here [OF that] by (simp add: send_for_def)
  have dist: "distinct (map dest new)"
    using assms(1) by (auto simp: sends_in_def distinct_map inj_on_def)
  have "distinct (map dest (new @ new'))" if d: "distinct (map tg_route_key (t # ts))"
  proof -
    have "sn_group y \<noteq> tg_route_key t" if y: "y \<in> set new'" for y
    proof -
      obtain u where "u \<in> set ts" "sn_group y = tg_route_key u"
        using assms(2) y by (auto simp: chain_sends_def send_for_def)
      then show ?thesis using d by (metis distinct.simps(2) image_eqI list.set_map list.simps(9))
    qed
    then show ?thesis
      using dist grp d assms(2) by (auto simp: chain_sends_def) blast
  qed
  moreover have "length (new @ new') \<le> 3 * length (t # ts)"
    using assms by (simp add: sends_in_def chain_sends_def)
  moreover have "\<exists>u \<in> set (t # ts). send_for pe app body u x" if "x \<in> set (new @ new')" for x
    using that here assms(2) by (auto simp: chain_sends_def)
  ultimately show ?thesis unfolding chain_sends_def by blast
qed

lemma chain_sends_cong:
  "live_addrs s' = live_addrs s \<Longrightarrow> chain_sends pe s' body ts new = chain_sends pe s body ts new"
  by (simp add: chain_sends_def send_for_def instance_addr_def)

lemma chain_sends_Nil: "chain_sends pe s body ts []"
  by (simp add: chain_sends_def)

lemma walk_chain_trace:
  "\<exists>new. px_sent (snd (walk_chain pe body ts st)) = px_sent st @ new \<and>
     chain_sends pe (px_app st) body ts new \<and>
     chain_outcome pe (length (px_sent st)) (fst (walk_chain pe body ts st)) (snd (walk_chain pe body ts st))"
proof (induction ts arbitrary: st)
  case Nil
  then show ?case by (auto simp: chain_sends_Nil chain_outcome_def all_failed_def Let_def)
next
  case (Cons t ts)
  show ?case
  proof (cases "try_group pe body t st")
    case None
    then show ?thesis by (auto simp: chain_sends_Nil chain_outcome_def all_failed_def Let_def)
  next
    case (Some st')
    obtain new where new: "px_sent st' = px_sent st @ new"
      "sends_in pe (px_app st) (tg_route_key t) (tg_model_cfg t) (forward_body t body) {} 3 new"
      "live_addrs (px_app st') = live_addrs (px_app st)" "outcome pe (length (px_sent st)) st'"
      "px_raised st' \<Longrightarrow> px_exhausted st'"
      using try_group_trace [OF Some] by blast
    have stop: "chain_sends pe (px_app st) body (t # ts) (new @ [])"
      by (rule chain_sends_Cons [OF new(2) chain_sends_Nil])
    show ?thesis
    proof (cases "px_raised st'")
      case True
      then have "all_failed pe (length (px_sent st)) (length (px_sent st'))"
        using new(4,5) by (simp add: outcome_def Let_def all_failed_def)
      then show ?thesis
        using Some True new(1) stop by (auto simp: chain_outcome_def Let_def)
    next
    case calm: False
    show ?thesis
    proof (cases "px_response st' \<noteq> None \<and> \<not> px_exhausted st'")
      case True
      have "chain_sends pe (px_app st) body (t # ts) (new @ [])"
        by (rule chain_sends_Cons [OF new(2) chain_sends_Nil])
      moreover have "chain_outcome pe (length (px_sent st)) True st'"
        using new(4) True by (simp add: outcome_def chain_outcome_def Let_def all_failed_def)
      ultimately show ?thesis using Some True new(1) calm by auto
    next
      case False
      have eq: "walk_chain pe body (t # ts) st = walk_chain pe body ts st'"
        using Some False calm by auto
      have af: "all_failed pe (length (px_sent st)) (length (px_sent st'))"
        using new(4) False by (auto simp: outcome_def Let_def all_failed_def split: if_splits)
      obtain new' where new': "px_sent (snd (walk_chain pe body ts st')) = px_sent st' @ new'"
        "chain_sends pe (px_app st') body ts new'"
        "chain_outcome pe (length (px_sent st')) (fst (walk_chain pe body ts st')) (snd (walk_chain pe body ts st'))"
        using Cons.IH by blast
      have "chain_sends pe (px_app st) body (t # ts) (new @ new')"
        by (rule chain_sends_Cons [OF new(2)]) (use new'(2) chain_sends_cong [OF new(3)] in blast)
      moreover have "chain_outcome pe (length (px_sent st)) (fst (walk_chain pe body ts st')) (snd (walk_chain pe body ts st'))"
        by (rule chain_outcome_extend [OF af _ new'(3)]) (simp add: new(1))
      ultimately show ?thesis
        unfolding eq using new(1) new'(1) by (intro exI [of _ "new @ new'"]) simp
    qed
    qed
  qed
qed

section \<open>The handler: trace\<close>

lemma sent_frame [simp]:
  "px_sent (cleanup st) = px_sent st"
  "px_sent (snd (crash now e st)) = px_sent st"
  "px_sent (snd (settle now st)) = px_sent st"
  "px_sent (pxy_init s) = []" "px_app (pxy_init s) = s"
  by (simp_all add: cleanup_def crash_def settle_def pxy_init_def Let_def split: option.split)

text \<open>A request that is rejected before any backend is chosen leaves no trace.\<close>

definition routed :: "proxy_env \<Rightarrow> root_cfg \<Rightarrow> jval option \<Rightarrow> target option" where
  "routed pe config rj =
     (case rj of
        Some (JObj body) \<Rightarrow>
          (if \<not> truthy (jget body ''model'') then None
           else case requested_target config (jget body ''model'') of
                  Some (Some t) \<Rightarrow>
                    if pe_path pe \<in> set chat_only_paths \<and> tg_kind t \<noteq> JStr ''chat'' then None else Some t
                | _ \<Rightarrow> None)
      | _ \<Rightarrow> None)"

lemma cleanup_init: "px_app (cleanup (pxy_init s)) = s"
  by (simp add: cleanup_def pxy_init_def)

lemma crash_init: "px_app (snd (crash now e (pxy_init s))) = s"
  by (simp add: crash_def pxy_init_def cleanup_def)

lemma proxy_unrouted:
  "routed pe config rj = None \<Longrightarrow>
   px_sent (snd (proxy_to_backend pe config rj s)) = [] \<and> px_app (snd (proxy_to_backend pe config rj s)) = s \<and>
   (\<exists>e. fst (proxy_to_backend pe config rj s) = Inl e \<and> hx_status e \<in> {400, 404, 500})"
  by (auto simp: routed_def proxy_to_backend_def Let_def cleanup_init crash_init split: option.splits jval.splits
      if_splits) (simp_all add: crash_def)

lemma proxy_routed:
  assumes "routed pe config rj = Some t"
  obtains body ok st now where
    "walk_chain pe body (build_route_chain config t) (pxy_init s) = (ok, st)"
    "proxy_to_backend pe config rj s = (if ok then settle now st else crash now ''affinity key'' st)"
    "\<exists>d. rj = Some (JObj d) \<and> body = inject_usage (pe_path pe) d"
proof -
  obtain d where d: "rj = Some (JObj d)" "truthy (jget d ''model'')"
    "requested_target config (jget d ''model'') = Some (Some t)"
    "\<not> (pe_path pe \<in> set chat_only_paths \<and> tg_kind t \<noteq> JStr ''chat'')"
    using assms by (auto simp: routed_def split: option.splits jval.splits if_splits)
  obtain ok st where w: "walk_chain pe (inject_usage (pe_path pe) d) (build_route_chain config t) (pxy_init s) = (ok, st)"
    by (cases "walk_chain pe (inject_usage (pe_path pe) d) (build_route_chain config t) (pxy_init s)")
  have "proxy_to_backend pe config rj s =
      (if ok then settle (w_now (pe_world pe) (length (px_sent st))) st
       else crash (w_now (pe_world pe) (length (px_sent st))) ''affinity key'' st)"
    using d w by (auto simp: proxy_to_backend_def Let_def)
  then show ?thesis using that w d(1) by blast
qed

lemma proxy_trace:
  assumes "routed pe config rj = Some t"
  shows "\<exists>d. rj = Some (JObj d) \<and>
     chain_sends pe s (inject_usage (pe_path pe) d) (build_route_chain config t)
       (px_sent (snd (proxy_to_backend pe config rj s)))"
proof -
  obtain body ok st now where w: "walk_chain pe body (build_route_chain config t) (pxy_init s) = (ok, st)"
    "proxy_to_backend pe config rj s = (if ok then settle now st else crash now ''affinity key'' st)"
    "\<exists>d. rj = Some (JObj d) \<and> body = inject_usage (pe_path pe) d"
    by (rule proxy_routed [OF assms])
  have "chain_sends pe s body (build_route_chain config t) (px_sent st)"
    using walk_chain_trace [of pe body "build_route_chain config t" "pxy_init s"] w(1) by auto
  moreover have "px_sent (snd (proxy_to_backend pe config rj s)) = px_sent st"
    unfolding w(2) by simp
  ultimately show ?thesis using w(3) by auto
qed

text \<open>
  C8: failover is bounded: a request that is routed is sent at most three times per group of its
  fallback chain, each time to an instance of one of those groups, at its address, under that
  group's own model name; and when every fallback name is a plain group (not a LoRA name, which can
  put a group into the chain twice) no instance is asked twice.
\<close>

theorem proxy_sends:
  assumes "routed pe config request_json = Some t"
  shows "\<exists>d. request_json = Some (JObj d) \<and>
     (let sends = px_sent (snd (proxy_to_backend pe config request_json s));
          chain = build_route_chain config t
      in length sends \<le> 3 * length chain \<and>
         (plain_fallbacks config (fallback_names config (tg_route_key t)) \<longrightarrow> distinct (map dest sends)) \<and>
         (\<forall>x \<in> set sends. \<exists>u \<in> set chain.
            send_for pe s (inject_usage (pe_path pe) d) u x))"
  using proxy_trace [OF assms(1), of s] chain_loop_distinct [of config "fallback_names config (tg_route_key t)" "[t]" "[tg_route_key t]" "tg_kind t"]
  by (fastforce simp: chain_sends_def Let_def build_route_chain_def)

lemma demo_routed: "routed (demo_pe us) pair_root demo_body = Some (base_target ''q'' demo_pair)"
  by (simp add: routed_def demo_body_def jget_def dget_def requested_target_def resolve_model_def
      pair_root_def demo_root_def demo_pe_def chat_only_paths_def)

lemma demo_no_fallback: "fallback_names pair_root ''q'' = []"
  by (simp add: fallback_names_def pair_root_def demo_root_def demo_pair_def demo_group_def)

lemma demo_plain: "plain_fallbacks pair_root (fallback_names pair_root (tg_route_key (base_target ''q'' demo_pair)))"
  by (simp add: base_target_def plain_fallbacks_def demo_no_fallback)

lemma proxy_sends_witness:
  "distinct (map dest (px_sent (snd (proxy_to_backend (demo_pe [Transport ''x'', Answer sse503]) pair_root demo_body demo_rs))))"
  using demo_plain proxy_sends [OF demo_routed, of "[Transport ''x'', Answer sse503]" demo_rs]
  unfolding Let_def by blast

text \<open>
  A request that is malformed, names no model, an unknown model or a model of another kind is
  answered 400, 404 or 500; no backend is contacted and the router's state does not change.
\<close>

theorem proxy_rejects_early:
  assumes "routed pe config request_json = None"
  shows "px_sent (snd (proxy_to_backend pe config request_json s)) = [] \<and>
     px_app (snd (proxy_to_backend pe config request_json s)) = s \<and>
     (\<exists>e. fst (proxy_to_backend pe config request_json s) = Inl e \<and> hx_status e \<in> {400, 404, 500})"
  by (rule proxy_unrouted [OF assms])

lemma proxy_rejects_early_witness:
  "px_app (snd (proxy_to_backend (demo_pe []) pair_root (Some (JObj [])) busy_rs)) = busy_rs"
  using proxy_rejects_early [of "demo_pe []" pair_root "Some (JObj [])" busy_rs]
  by (simp add: routed_def jget_def dget_def)

text \<open>
  C2: the first backend that answers below 500 is the one served: it is the last one contacted, and
  the client gets its response, streamed or buffered (a body that cannot be read is a 500).
\<close>

theorem proxy_first_healthy:
  assumes "proxy_to_backend pe config request_json s = (res, st)" "k < length (px_sent st)"
    and "w_up (pe_world pe) k = Answer r" "rs_status r < 500"
  shows "k = length (px_sent st) - 1 \<and>
     (if contains ''text/event-stream'' (rs_ctype r) then \<exists>key iid. res = Inr (Stream r True key iid)
      else if rs_body r \<noteq> None then res = Inr (Buffered r)
      else res = Inl (mk_exc 500 ''Internal server error''))"
proof -
  obtain t where t: "routed pe config request_json = Some t"
    using proxy_unrouted [of pe config request_json s] assms(1,2) by (cases "routed pe config request_json") auto
  obtain body ok st' now where w: "walk_chain pe body (build_route_chain config t) (pxy_init s) = (ok, st')"
    "proxy_to_backend pe config request_json s = (if ok then settle now st' else crash now ''affinity key'' st')"
    by (rule proxy_routed [OF t])
  have sent: "px_sent st' = px_sent st"
    using w(2) assms(1) sent_frame(2) [of now "''affinity key''" st'] sent_frame(3) [of now st']
    by (cases ok) (metis snd_conv)+
  have "chain_outcome pe 0 ok st'"
    using walk_chain_trace [of pe body "build_route_chain config t" "pxy_init s"] w(1) by auto
  then have out: "all_failed pe 0 (length (px_sent st)) \<or>
      ok \<and> all_failed pe 0 (length (px_sent st) - 1) \<and> px_open st' \<and>
      (\<exists>r. w_up (pe_world pe) (length (px_sent st) - 1) = Answer r \<and> px_response st' = Some r)"
    by (auto simp: chain_outcome_def Let_def sent)
  have nf: "\<not> failed (w_up (pe_world pe) k)" using assms(3,4) by (simp add: failed_def)
  then have "\<not> all_failed pe 0 (length (px_sent st))"
    using assms(2) by (auto simp: all_failed_def)
  then obtain r' where ok: "ok" and af: "all_failed pe 0 (length (px_sent st) - 1)" and op: "px_open st'"
    and r': "w_up (pe_world pe) (length (px_sent st) - 1) = Answer r'" "px_response st' = Some r'"
    using out by blast
  have "\<not> k < length (px_sent st) - 1"
    using af nf by (auto simp: all_failed_def)
  then have k: "k = length (px_sent st) - 1"
    using assms(2) by linarith
  then have r: "px_response st' = Some r"
    using r' assms(3) by simp
  show ?thesis
    using k w(2) ok op r assms(1,4) by (auto simp: settle_def Let_def crash_def split: if_splits)
qed

definition ok_resp :: resp where
  "ok_resp = \<lparr>rs_status = 200, rs_ctype = ''application/json'', rs_body = Some ''ok''\<rparr>"

lemma demo_served:
  "proxy_to_backend (demo_pe [Transport ''x'', Answer ok_resp]) pair_root demo_body demo_rs =
     (fst (proxy_to_backend (demo_pe [Transport ''x'', Answer ok_resp]) pair_root demo_body demo_rs),
      snd (proxy_to_backend (demo_pe [Transport ''x'', Answer ok_resp]) pair_root demo_body demo_rs))"
  "length (px_sent (snd (proxy_to_backend (demo_pe [Transport ''x'', Answer ok_resp]) pair_root demo_body demo_rs))) = 2"
  "w_up (pe_world (demo_pe [Transport ''x'', Answer ok_resp])) 1 = Answer ok_resp"
  "rs_status ok_resp < 500"
     apply simp
    apply code_simp
   apply (simp add: demo_pe_def demo_world_def)
  apply (simp add: ok_resp_def)
  done

lemma proxy_first_healthy_witness:
  "fst (proxy_to_backend (demo_pe [Transport ''x'', Answer ok_resp]) pair_root demo_body demo_rs) = Inr (Buffered ok_resp)"
  using proxy_first_healthy [OF demo_served(1) _ demo_served(3,4)] demo_served(2)
  by (simp add: ok_resp_def contains.simps starts_with_def)

section \<open>Usage capture does not depend on the chunks\<close>

lemma starts_with_long: "length p \<le> length s \<Longrightarrow> starts_with p (s @ t) = starts_with p s"
  by (simp add: starts_with_def)

lemma starts_with_len: "starts_with p s \<Longrightarrow> length p \<le> length s"
  by (metis starts_with_def length_take min.cobounded1)

lemma partition_found_len: "str_partition sep b = (h, True, t) \<Longrightarrow> length sep \<le> length b"
proof (induction b arbitrary: h)
  case Nil
  then show ?case by simp
next
  case (Cons x b)
  show ?case
  proof (cases "starts_with sep (x # b)")
    case True
    then show ?thesis by (rule starts_with_len)
  next
    case False
    obtain h' f t' where p: "str_partition sep b = (h', f, t')" by (cases "str_partition sep b")
    then have "f" "t = t'" using Cons.prems False by simp_all
    then show ?thesis using Cons.IH [of h'] p by simp
  qed
qed

lemma partition_append: "str_partition sep b = (h, True, t) \<Longrightarrow> str_partition sep (b @ c) = (h, True, t @ c)"
proof (induction b arbitrary: h)
  case Nil
  then show ?case by (cases c) (auto simp: starts_with_def)
next
  case (Cons x b)
  have len: "length sep \<le> length (x # b)" by (rule partition_found_len [OF Cons.prems])
  have same: "starts_with sep (x # (b @ c)) = starts_with sep (x # b)"
    using starts_with_long [OF len, of c] by simp
  show ?case
  proof (cases "starts_with sep (x # b)")
    case True
    then have "h = []" "t = drop (length sep) (x # b)" using Cons.prems by simp_all
    moreover have "str_partition sep (x # (b @ c)) = ([], True, drop (length sep) (x # (b @ c)))"
      using True same by simp
    moreover have "drop (length sep) (x # (b @ c)) = drop (length sep) (x # b) @ c"
      using len by (metis append_Cons drop_append diff_is_0_eq' drop0)
    ultimately show ?thesis by (simp only: append_Cons)
  next
    case False
    obtain h' f t' where p: "str_partition sep b = (h', f, t')" by (cases "str_partition sep b")
    then have "f" "t = t'" "h = x # h'" using Cons.prems False by simp_all
    then show ?thesis using Cons.IH [of h'] p False same by simp
  qed
qed

lemma scan_sse_append:
  "(case scan_sse loads b cap of
      (True, _, cap') \<Rightarrow> fst (scan_sse loads (b @ c) cap) \<and> snd (snd (scan_sse loads (b @ c) cap)) = cap'
    | (False, b', cap') \<Rightarrow> scan_sse loads (b @ c) cap = scan_sse loads (b' @ c) cap')"
proof (induction loads b cap rule: scan_sse.induct)
  case (1 loads b cap)
  obtain ev f rest where p: "str_partition nl2 b = (ev, f, rest)" by (cases "str_partition nl2 b")
  show ?case
  proof (cases f)
    case False
    then have "scan_sse loads b cap = (False, b, cap)" using p by (simp add: scan_sse.simps [of loads b])
    then show ?thesis by simp
  next
    case True
    have pa: "str_partition nl2 (b @ c) = (ev, True, rest @ c)"
      by (rule partition_append) (use p True in simp)
    obtain x cap1 where l: "scan_lines loads (split_on (CHR 0x0A) ev) cap = (x, cap1)"
      by (cases "scan_lines loads (split_on (CHR 0x0A) ev) cap")
    show ?thesis
    proof (cases x)
      case rx: True
      then show ?thesis
        using p True pa l by (simp add: scan_sse.simps [of loads b] scan_sse.simps [of loads "b @ c"])
    next
      case rx: False
      have eqs: "scan_sse loads b cap = scan_sse loads rest cap1"
        "scan_sse loads (b @ c) cap = scan_sse loads (rest @ c) cap1"
        using p True pa l rx by (simp_all add: scan_sse.simps [of loads b] scan_sse.simps [of loads "b @ c"])
      show ?thesis
        unfolding eqs by (rule 1) (use p True l rx in auto)
    qed
  qed
qed

lemma scan_sse_settled: "scan_sse loads b cap = (False, b', cap') \<Longrightarrow> scan_sse loads b' cap' = (False, b', cap')"
  using scan_sse_append [of loads b "[]" cap] by simp

lemma stream_chunks_scan:
  "scan_sse loads (b @ concat cs) cap = (x, b', cap') \<Longrightarrow>
   scan_sse loads b cap = (False, b, cap) \<Longrightarrow>
   \<exists>n \<le> length cs. stream_chunks loads cs ends b cap out = (ends \<and> \<not> x, cap', out @ take n cs) \<and>
     (if x then 0 < n \<and> fst (scan_sse loads (b @ concat (take n cs)) cap) \<and> \<not> fst (scan_sse loads (b @ concat (take (n - 1) cs)) cap)
      else n = length cs)"
proof (induction cs arbitrary: b cap out)
  case Nil
  then show ?case by simp
next
  case (Cons c cs)
  have all: "scan_sse loads ((b @ c) @ concat cs) cap = (x, b', cap')"
    using Cons.prems(1) by simp
  obtain x1 b1 cap1 where s1: "scan_sse loads (b @ c) cap = (x1, b1, cap1)" by (metis prod_cases3)
  show ?case
  proof (cases x1)
    case True
    then have "x" "cap1 = cap'"
      using scan_sse_append [of loads "b @ c" "concat cs" cap] s1 all by simp_all
    then show ?thesis using s1 True Cons.prems(2) by (intro exI [of _ 1]) simp
  next
    case False
    then have rest: "scan_sse loads (b1 @ concat cs) cap1 = (x, b', cap')"
      using scan_sse_append [of loads "b @ c" "concat cs" cap] all s1 by simp
    have "scan_sse loads b1 cap1 = (False, b1, cap1)"
      using scan_sse_settled [of loads "b @ c" cap b1 cap1] s1 False by simp
    have fed: "scan_sse loads (b @ concat (c # ds)) cap = scan_sse loads (b1 @ concat ds) cap1" for ds
      using scan_sse_append [of loads "b @ c" "concat ds" cap] s1 False by simp
    from Cons.IH [OF rest \<open>scan_sse loads b1 cap1 = (False, b1, cap1)\<close>, of "out @ [c]"]
    obtain n where n: "n \<le> length cs"
      "stream_chunks loads cs ends b1 cap1 (out @ [c]) = (ends \<and> \<not> x, cap', (out @ [c]) @ take n cs)"
      "if x then 0 < n \<and> fst (scan_sse loads (b1 @ concat (take n cs)) cap1) \<and> \<not> fst (scan_sse loads (b1 @ concat (take (n - 1) cs)) cap1)
       else n = length cs" by blast
    have "take (Suc n) (c # cs) = c # take n cs" "0 < n \<Longrightarrow> take (Suc n - 1) (c # cs) = c # take (n - 1) cs"
      by (simp_all add: take_Cons')
    then show ?thesis using s1 False n(1,2) n(3) fed [of "take n cs"] fed [of "take (n - 1) cs"]
      by (intro exI [of _ "Suc n"]) (simp split: if_splits)
  qed
qed

text \<open>
  C11: the usage captured from a stream, and whether reading it fails, depend on its bytes only and
  not on how they were cut into chunks: they are those of one scan of the whole.  Every chunk
  reaches the client unchanged and in order; when an event makes the scan raise, the client gets the
  chunks up to the one that completes it and the usage of the events before it is kept.
\<close>

theorem stream_usage_chunking:
  "(case scan_sse loads (concat chunks) None of
      (raised, rest, usage) \<Rightarrow>
        \<exists>n \<le> length chunks. stream_chunks loads chunks ends [] None [] = (ends \<and> \<not> raised, usage, take n chunks) \<and>
          (if raised then 0 < n \<and> fst (scan_sse loads (concat (take n chunks)) None) \<and>
                          \<not> fst (scan_sse loads (concat (take (n - 1) chunks)) None)
           else n = length chunks))"
proof -
  obtain x rest usage where s: "scan_sse loads (concat chunks) None = (x, rest, usage)" by (metis prod_cases3)
  have "scan_sse loads [] None = (False, [], None)"
    by (simp add: scan_sse.simps [of loads "[]"] nl2_def)
  from stream_chunks_scan [of loads "[]" chunks None x rest usage ends "[]", OF _ this] s show ?thesis
    by (simp only: s prod.case append_Nil)
qed

definition demo_loads :: "string \<Rightarrow> jval option" where
  "demo_loads s = Some (JObj [(''usage'', JObj [(''total_tokens'', JInt 7)])])"

text \<open>One usage event, cut in three: the same reading as of the bytes in one piece.\<close>

lemma demo_chunks:
  "stream_chunks demo_loads [''data: '', quoted_usage, nl2 @ ''da''] True [] None [] =
     (True, Some [(''total_tokens'', JInt 7)], [''data: '', quoted_usage, nl2 @ ''da''])"
  "scan_sse demo_loads (concat [''data: '', quoted_usage, nl2 @ ''da'']) None =
     (False, ''da'', Some [(''total_tokens'', JInt 7)])"
  by code_simp+

text \<open>
  The exception.  An event whose \<open>message\<close> is a string makes the usage scan raise, which breaks
  the client's stream and marks the backend failed although it answered.
\<close>

theorem scan_breaks_on_string_message:
  "stream_chunks (\<lambda>_. Some (JObj [(''message'', JStr ''hi'')])) [''data: '' @ quoted_usage @ nl2, ''data: more''] True [] None [] =
     (False, None, [''data: '' @ quoted_usage @ nl2])"
  by code_simp

end
