(* ===== verification/Router_Auth.thy ===== *)
theory Router_Auth
  imports Py_Prelude
begin

text \<open>
  apps/router-server/src/llm_router/auth.py: API-key authentication of inference requests, with
  the sliding-window rate limiter, the soft token quota and the 30 s positive cache.  \<open>auth_state\<close>
  holds the module's three dictionaries.  The environment is a function from names to strings
  (empty when unset), the shared store is the record of the three queries the router makes
  (\<open>None\<close> when there is no store), SHA-256 and \<open>jwt.decode\<close> are parameters.  A call reads the
  monotonic clock once (\<open>now\<close>) and the wall clock once (\<open>wall\<close>).
\<close>

section \<open>State\<close>

definition CACHE_TTL :: real where "CACHE_TTL = 30"
definition QUOTA_TTL :: real where "QUOTA_TTL = 15"

record cache_entry =
  ce_id :: "int option"
  ce_name :: string
  ce_rpm :: "int option"
  ce_quota :: "int option"
  ce_period :: "string option"
  ce_expires :: real

record auth_state =
  as_cache :: "(string, cache_entry) dict"
  as_hits :: "(string, real list) dict"
  as_quota :: "(string, int \<times> real \<times> real) dict"

record key_row =
  kr_id :: int
  kr_name :: string
  kr_rpm :: "int option"
  kr_quota :: "int option"
  kr_period :: "string option"

record op_row =
  or_label :: string
  or_role :: string

record auth_store =
  st_tokens_used :: "string \<Rightarrow> real option \<Rightarrow> int"
  st_key_by_hash :: "string \<Rightarrow> key_row option"
  st_operator_by_hash :: "string \<Rightarrow> op_row option"

section \<open>Rate limiter\<close>

definition falsy_int :: "int option \<Rightarrow> bool" where
  "falsy_int x = (x = None \<or> x = Some 0)"

definition check_rate :: "real \<Rightarrow> string \<Rightarrow> int option \<Rightarrow> auth_state \<Rightarrow> (http_exc + unit) \<times> auth_state" where
  "check_rate now name rpm_limit s =
     (if falsy_int rpm_limit then (Inr (), s)
      else
        let dq = dropWhile (\<lambda>t. t \<le> now - 60) (dget (as_hits s) name [])
        in if int (length dq) \<ge> the rpm_limit
           then (Inl (mk_exc 429 ''rate limit exceeded''), s\<lparr>as_hits := dset name dq (as_hits s)\<rparr>)
           else (Inr (), s\<lparr>as_hits := dset name (dq @ [now]) (as_hits s)\<rparr>))"

section \<open>Token quota\<close>

text \<open>
  The UTC calendar day of a day number since 1970-01-01 (\<open>datetime.replace(day=1)\<close> needs the day
  of the month): 400-year eras, years counted from March.
\<close>

definition day_of_month :: "int \<Rightarrow> int" where
  "day_of_month days =
     (let doe = (days + 719468) mod 146097;
          yoe = (doe - doe div 1460 + doe div 36524 - doe div 146096) div 365;
          doy = doe - (365 * yoe + yoe div 4 - yoe div 100);
          mp = (5 * doy + 2) div 153
      in doy - (153 * mp + 2) div 5 + 1)"

definition period_start :: "real \<Rightarrow> string option \<Rightarrow> real" where
  "period_start wall quota_period =
     (let days = \<lfloor>wall / 86400\<rfloor> in
      if quota_period = Some ''daily'' then of_int days * 86400
      else if quota_period = Some ''monthly'' then of_int (days - (day_of_month days - 1)) * 86400
      else 0)"

definition check_quota ::
  "real \<Rightarrow> real \<Rightarrow> auth_store option \<Rightarrow> string \<Rightarrow> int option \<Rightarrow> string option \<Rightarrow> auth_state \<Rightarrow>
   (http_exc + unit) \<times> auth_state" where
  "check_quota now wall store name token_quota quota_period s =
     (case store of
        None \<Rightarrow> (Inr (), s)
      | Some st \<Rightarrow>
          if falsy_int token_quota then (Inr (), s)
          else
            let ps = period_start wall quota_period;
                (used, s1) =
                  (case map_of (as_quota s) name of
                     Some (u, p, ex) \<Rightarrow>
                       if p = ps \<and> ex > now then (u, s)
                       else (let u' = st_tokens_used st name (if ps = 0 then None else Some ps)
                             in (u', s\<lparr>as_quota := dset name (u', ps, now + QUOTA_TTL) (as_quota s)\<rparr>))
                   | None \<Rightarrow>
                       (let u' = st_tokens_used st name (if ps = 0 then None else Some ps)
                        in (u', s\<lparr>as_quota := dset name (u', ps, now + QUOTA_TTL) (as_quota s)\<rparr>)))
            in if used \<ge> the token_quota then (Inl (mk_exc 429 ''token quota exceeded''), s1)
               else (Inr (), s1))"

section \<open>Credentials\<close>

definition require_enabled :: "(string \<Rightarrow> string) \<Rightarrow> bool" where
  "require_enabled env =
     (str_lower (str_strip (env ''LLMOPS_REQUIRE_API_KEY'')) \<in> {''1'', ''true'', ''yes'', ''on''})"

record auth_request =
  rq_authorization :: string
  rq_cookie :: "string option"

definition bearer :: "auth_request \<Rightarrow> string option" where
  "bearer rq =
     (let h = rq_authorization rq
      in if starts_with ''bearer '' (str_lower h) then Some (str_strip (drop 7 h)) else None)"

definition session_secret :: "(string \<Rightarrow> string) \<Rightarrow> string" where
  "session_secret env =
     (let explicit = str_strip (env ''LLMOPS_SESSION_SECRET'');
          admin = str_strip (env ''LLMOPS_ADMIN_TOKEN'')
      in if explicit \<noteq> [] then explicit else if admin \<noteq> [] then ''sess:'' @ admin else [])"

definition sor :: "string \<Rightarrow> string \<Rightarrow> string" where
  "sor a b = (if a \<noteq> [] then a else b)"

definition session_actor ::
  "(string \<Rightarrow> string \<Rightarrow> (string, string) dict option) \<Rightarrow> (string \<Rightarrow> string) \<Rightarrow> auth_request \<Rightarrow>
   (string \<times> string) option" where
  "session_actor jwt_decode env rq =
     (let cookie = (case rq_cookie rq of None \<Rightarrow> [] | Some c \<Rightarrow> c); secret = session_secret env
      in if cookie = [] \<or> secret = [] then None
         else case jwt_decode cookie secret of
                None \<Rightarrow> None
              | Some claims \<Rightarrow>
                  (let role = dget claims ''role'' []
                   in if role = [] then None
                      else Some (sor (dget claims ''email'' [])
                                  (sor (dget claims ''name'' [])
                                    (sor (dget claims ''sub'' []) ''sso'')), role)))"

section \<open>The decision\<close>

record auth_env =
  ae_env :: "string \<Rightarrow> string"
  ae_hash :: "string \<Rightarrow> string"
  ae_jwt :: "string \<Rightarrow> string \<Rightarrow> (string, string) dict option"

text \<open>The checks on a known key: rate first, then quota, then the attributed name.\<close>

definition admit_key ::
  "real \<Rightarrow> real \<Rightarrow> auth_store option \<Rightarrow> string \<Rightarrow> int option \<Rightarrow> int option \<Rightarrow> string option \<Rightarrow> auth_state \<Rightarrow>
   (http_exc + string option) \<times> auth_state" where
  "admit_key now wall store name rpm quota period s =
     (case check_rate now name rpm s of
        (Inl e, s1) \<Rightarrow> (Inl e, s1)
      | (Inr _, s1) \<Rightarrow>
          (case check_quota now wall store name quota period s1 of
             (Inl e, s2) \<Rightarrow> (Inl e, s2)
           | (Inr _, s2) \<Rightarrow> (Inr (Some name), s2)))"

definition authenticate ::
  "auth_env \<Rightarrow> real \<Rightarrow> real \<Rightarrow> auth_store option \<Rightarrow> auth_request \<Rightarrow> auth_state \<Rightarrow>
   (http_exc + string option) \<times> auth_state" where
  "authenticate ae now wall store rq s =
     (if \<not> require_enabled (ae_env ae) then (Inr None, s)
      else case session_actor (ae_jwt ae) (ae_env ae) rq of
        Some (actor, role) \<Rightarrow>
          (if role = ''viewer'' then (Inl (mk_exc 403 ''viewer role cannot run inference''), s)
           else (Inr (Some actor), s))
      | None \<Rightarrow>
          (let token = (case bearer rq of None \<Rightarrow> [] | Some t \<Rightarrow> t);
               admin = str_strip (ae_env ae ''LLMOPS_ADMIN_TOKEN'')
           in if token = [] then (Inl (mk_exc 401 ''missing API key''), s)
              else if admin \<noteq> [] \<and> token = admin then (Inr (Some ''dashboard''), s)
              else
                let key_hash = ae_hash ae token;
                    cached = (case map_of (as_cache s) key_hash of
                                Some c \<Rightarrow> if ce_expires c > now then Some c else None
                              | None \<Rightarrow> None)
                in case cached of
                     Some c \<Rightarrow> admit_key now wall store (ce_name c) (ce_rpm c) (ce_quota c) (ce_period c) s
                   | None \<Rightarrow>
                       (case Option.bind store (\<lambda>st. st_key_by_hash st key_hash) of
                          Some row \<Rightarrow>
                            admit_key now wall store (kr_name row) (kr_rpm row) (kr_quota row) (kr_period row)
                              (s\<lparr>as_cache := dset key_hash
                                  \<lparr>ce_id = Some (kr_id row), ce_name = kr_name row, ce_rpm = kr_rpm row,
                                   ce_quota = kr_quota row, ce_period = kr_period row,
                                   ce_expires = now + CACHE_TTL\<rparr> (as_cache s)\<rparr>)
                        | None \<Rightarrow>
                            (case Option.bind store (\<lambda>st. st_operator_by_hash st key_hash) of
                               Some op \<Rightarrow>
                                 (if or_role op = ''viewer''
                                  then (Inl (mk_exc 403 ''viewer role cannot run inference''), s)
                                  else (Inr (Some (or_label op)),
                                        s\<lparr>as_cache := dset key_hash
                                           \<lparr>ce_id = None, ce_name = or_label op, ce_rpm = None,
                                            ce_quota = None, ce_period = None,
                                            ce_expires = now + CACHE_TTL\<rparr> (as_cache s)\<rparr>))
                             | None \<Rightarrow> (Inl (mk_exc 401 ''invalid or revoked API key''), s)))))"

definition auth_init :: auth_state where
  "auth_init = \<lparr>as_cache = [], as_hits = [], as_quota = []\<rparr>"

section \<open>The limiter over a run of requests\<close>

text \<open>The instants, of a list of calls for one key, at which the limiter admits.\<close>

fun rate_run :: "string \<Rightarrow> int option \<Rightarrow> real list \<Rightarrow> auth_state \<Rightarrow> real list" where
  "rate_run name lmt [] s = []"
| "rate_run name lmt (t # ts) s =
     (case check_rate t name lmt s of
        (Inr _, s') \<Rightarrow> t # rate_run name lmt ts s'
      | (Inl _, s') \<Rightarrow> rate_run name lmt ts s')"

definition in_window :: "real \<Rightarrow> real list \<Rightarrow> nat" where
  "in_window t xs = length (filter (\<lambda>x. t - 60 < x \<and> x \<le> t) xs)"

lemma in_window_simps [simp]:
  "in_window t [] = 0"
  "in_window t (xs @ ys) = in_window t xs + in_window t ys"
  "in_window t [u] = (if t - 60 < u \<and> u \<le> t then 1 else 0)"
  by (simp_all add: in_window_def)

lemma dropWhile_sorted: "sorted xs \<Longrightarrow> dropWhile (\<lambda>t. t \<le> (c::real)) xs = filter (\<lambda>t. c < t) xs"
proof (induction xs)
  case (Cons x xs)
  then show ?case by (auto intro!: filter_True [symmetric] intro: less_le_trans)
qed simp

text \<open>The limiter's queue is the recent part of what it admitted.\<close>

definition queue_inv :: "string \<Rightarrow> int \<Rightarrow> real list \<Rightarrow> real \<Rightarrow> auth_state \<Rightarrow> bool" where
  "queue_inv name n A L s =
     (sorted A \<and> (\<forall>a \<in> set A. a \<le> L) \<and>
      (\<exists>c \<le> L - 60. dget (as_hits s) name [] = filter (\<lambda>t. c < t) A) \<and>
      (\<forall>t. int (in_window t A) \<le> max 0 n))"

lemma queue_inv_prune:
  assumes "queue_inv name n A L s" "L \<le> now"
  shows "dropWhile (\<lambda>t. t \<le> now - 60) (dget (as_hits s) name []) = filter (\<lambda>t. now - 60 < t) A"
proof -
  obtain c where c: "c \<le> L - 60" "dget (as_hits s) name [] = filter (\<lambda>t. c < t) A"
    using assms(1) by (auto simp: queue_inv_def)
  have "sorted (filter (\<lambda>t. c < t) A)"
    using assms(1) by (simp add: queue_inv_def sorted_wrt_filter)
  then have "dropWhile (\<lambda>t. t \<le> now - 60) (dget (as_hits s) name []) =
      filter (\<lambda>t. now - 60 < t) (filter (\<lambda>t. c < t) A)"
    unfolding c(2) by (rule dropWhile_sorted)
  also have "\<dots> = filter (\<lambda>t. now - 60 < t) A"
    using c(1) assms(2) by (auto intro!: filter_cong)
  finally show ?thesis .
qed

lemma queue_inv_step:
  assumes inv: "queue_inv name n A L s" and L: "L \<le> now" and lim: "n \<noteq> 0"
  shows "case check_rate now name (Some n) s of
      (Inr _, s') \<Rightarrow> queue_inv name n (A @ [now]) now s'
    | (Inl _, s') \<Rightarrow> queue_inv name n A now s'"
proof -
  let ?q = "filter (\<lambda>t. now - 60 < t) A"
  have q: "dropWhile (\<lambda>t. t \<le> now - 60) (dget (as_hits s) name []) = ?q"
    by (rule queue_inv_prune [OF inv L])
  have le: "\<forall>a \<in> set A. a \<le> now" using inv L by (auto simp: queue_inv_def)
  have win: "in_window t A \<le> length ?q" if "now \<le> t" for t
    unfolding in_window_def using that
    by (intro length_filter_conv_card [THEN order_eq_refl, THEN order_trans])
      (auto simp: length_filter_conv_card intro!: card_mono)
  show ?thesis
  proof (cases "int (length ?q) \<ge> n")
    case True
    then show ?thesis
      using inv L le lim q by (auto simp: check_rate_def falsy_int_def Let_def queue_inv_def intro: order_trans)
  next
    case False
    have "int (in_window t (A @ [now])) \<le> max 0 n" for t
    proof (cases "now \<le> t")
      case True
      then show ?thesis using win [OF True] False by auto
    next
      case False
      then show ?thesis using inv by (auto simp: queue_inv_def)
    qed
    moreover have "sorted (A @ [now])"
      using inv le by (simp add: queue_inv_def sorted_append)
    moreover have "filter (\<lambda>t. now - 60 < t) (A @ [now]) = ?q @ [now]" by simp
    ultimately show ?thesis
      using False lim q le by (auto simp: check_rate_def falsy_int_def Let_def queue_inv_def)
  qed
qed

lemma rate_run_window:
  assumes "queue_inv name n A L s" "sorted (L # ts)" "n \<noteq> 0"
  shows "int (in_window t (A @ rate_run name (Some n) ts s)) \<le> max 0 n"
  using assms
proof (induction ts arbitrary: A L s)
  case Nil
  then show ?case by (simp add: queue_inv_def)
next
  case (Cons u ts)
  obtain r s' where r: "check_rate u name (Some n) s = (r, s')" by (cases "check_rate u name (Some n) s")
  have st: "sorted (u # ts)" "L \<le> u" using Cons.prems(2) by simp_all
  show ?case
  proof (cases r)
    case (Inl e)
    then have "queue_inv name n A u s'"
      using queue_inv_step [OF Cons.prems(1) st(2) Cons.prems(3)] r by simp
    from Cons.IH [OF this st(1) Cons.prems(3)] show ?thesis
      using r Inl by simp
  next
    case (Inr a)
    then have "queue_inv name n (A @ [u]) u s'"
      using queue_inv_step [OF Cons.prems(1) st(2) Cons.prems(3)] r by simp
    from Cons.IH [OF this st(1) Cons.prems(3)] show ?thesis
      using r Inr by simp
  qed
qed

text \<open>
  C7: the rate limiter admits at most \<open>n\<close> requests of a key in any window of 60 seconds, wherever
  the window lies, over every run of requests at non-decreasing instants.
\<close>

theorem rate_limit_any_window:
  assumes "sorted ts" "0 < n" "dget (as_hits s) name [] = []"
  shows "int (in_window t (rate_run name (Some n) ts s)) \<le> n"
proof (cases ts)
  case Nil
  then show ?thesis using assms(2) by simp
next
  case (Cons u us)
  have "queue_inv name n [] u s"
    using assms(3) by (auto simp: queue_inv_def intro: exI [of _ "u - 60"])
  from rate_run_window [OF this, of ts t] show ?thesis
    using assms(1,2) Cons by simp
qed

lemma rate_limit_any_window_witness:
  "int (in_window 40 (rate_run ''k'' (Some 2) [0, 10, 20, 61] auth_init)) \<le> 2"
  using rate_limit_any_window [of "[0, 10, 20, 61]" 2 auth_init "''k''" 40]
  by (simp add: auth_init_def dget_def)

text \<open>A key under its limit is admitted: the limiter is not merely closed.\<close>

lemma rate_run_example: "rate_run ''k'' (Some 2) [0, 10, 20, 61] auth_init = [0, 10, 61]"
  by (simp add: check_rate_def falsy_int_def Let_def auth_init_def dget_def)

section \<open>Who is admitted\<close>

definition live_cache :: "real \<Rightarrow> auth_state \<Rightarrow> string \<Rightarrow> cache_entry option" where
  "live_cache now s h =
     (case map_of (as_cache s) h of Some c \<Rightarrow> if ce_expires c > now then Some c else None | None \<Rightarrow> None)"

lemma check_rate_cache [simp]: "as_cache (snd (check_rate now n l s)) = as_cache s"
  by (simp add: check_rate_def Let_def)

lemma check_quota_cache [simp]: "as_cache (snd (check_quota now w st n q p s)) = as_cache s"
  by (simp add: check_quota_def Let_def split: option.split prod.split)

lemma admit_key_cache: "as_cache (snd (admit_key now w st n r q p s)) = as_cache s"
proof -
  obtain x s1 where 1: "check_rate now n r s = (x, s1)" by (cases "check_rate now n r s")
  obtain y s2 where 2: "check_quota now w st n q p s1 = (y, s2)" by (cases "check_quota now w st n q p s1")
  have "as_cache s1 = as_cache s" "as_cache s2 = as_cache s1"
    using check_rate_cache [of now n r s] check_quota_cache [of now w st n q p s1] 1 2 by simp_all
  then show ?thesis by (simp add: admit_key_def 1 2 split: sum.split)
qed

lemma admit_key_name: "fst (admit_key now w st n r q p s) = Inr x \<Longrightarrow> x = Some n"
  by (auto simp: admit_key_def split: prod.splits sum.splits)

definition token_of :: "auth_request \<Rightarrow> string" where
  "token_of rq = (case bearer rq of None \<Rightarrow> [] | Some t \<Rightarrow> t)"

definition is_admin_token :: "(string \<Rightarrow> string) \<Rightarrow> string \<Rightarrow> bool" where
  "is_admin_token env t = (str_strip (env ''LLMOPS_ADMIN_TOKEN'') \<noteq> [] \<and> t = str_strip (env ''LLMOPS_ADMIN_TOKEN''))"

text \<open>A request seen by the router: the two clocks, the store as it is then, the request; and a run of them.\<close>

type_synonym auth_call = "real \<times> real \<times> auth_store option \<times> auth_request"

fun auth_run :: "auth_env \<Rightarrow> auth_call list \<Rightarrow> auth_state \<Rightarrow> auth_state" where
  "auth_run ae [] s = s"
| "auth_run ae ((now, wall, st, rq) # cs) s = auth_run ae cs (snd (authenticate ae now wall st rq s))"

text \<open>The store has an active API key of that hash and name, or an operator that is more than a viewer.\<close>

definition entitles :: "auth_store option \<Rightarrow> string \<Rightarrow> string \<Rightarrow> bool" where
  "entitles store h name =
     (case store of
        None \<Rightarrow> False
      | Some st \<Rightarrow>
          (\<exists>row. st_key_by_hash st h = Some row \<and> kr_name row = name) \<or>
          (st_key_by_hash st h = None \<and>
            (\<exists>op. st_operator_by_hash st h = Some op \<and> or_label op = name \<and> or_role op \<noteq> ''viewer'')))"

text \<open>
  The credentials the router accepts after the calls \<open>cs\<close>: a session that is more than a viewer's, the admin token, and
  a token that the store entitles now or entitled at one of the calls less than \<open>CACHE_TTL\<close> ago.
\<close>

definition entitled :: "auth_env \<Rightarrow> auth_call list \<Rightarrow> real \<Rightarrow> auth_store option \<Rightarrow> auth_request \<Rightarrow> string \<Rightarrow> bool" where
  "entitled ae cs now store rq name =
     ((\<exists>role. session_actor (ae_jwt ae) (ae_env ae) rq = Some (name, role) \<and> role \<noteq> ''viewer'') \<or>
      (session_actor (ae_jwt ae) (ae_env ae) rq = None \<and> token_of rq \<noteq> [] \<and>
        (is_admin_token (ae_env ae) (token_of rq) \<and> name = ''dashboard'' \<or>
         entitles store (ae_hash ae (token_of rq)) name \<or>
         (\<exists>(t, wall, st, rq') \<in> set cs. now < t + CACHE_TTL \<and> entitles st (ae_hash ae (token_of rq)) name))))"

text \<open>The decision once the token is neither missing nor the admin token.\<close>

lemma authenticate_keyed:
  assumes "require_enabled (ae_env ae)" "session_actor (ae_jwt ae) (ae_env ae) rq = None"
    and "token_of rq \<noteq> []" "\<not> is_admin_token (ae_env ae) (token_of rq)"
  defines "h \<equiv> ae_hash ae (token_of rq)"
  shows "authenticate ae now wall store rq s =
    (case live_cache now s h of
       Some c \<Rightarrow> admit_key now wall store (ce_name c) (ce_rpm c) (ce_quota c) (ce_period c) s
     | None \<Rightarrow>
         (case Option.bind store (\<lambda>st. st_key_by_hash st h) of
            Some row \<Rightarrow>
              admit_key now wall store (kr_name row) (kr_rpm row) (kr_quota row) (kr_period row)
                (s\<lparr>as_cache := dset h
                    \<lparr>ce_id = Some (kr_id row), ce_name = kr_name row, ce_rpm = kr_rpm row,
                     ce_quota = kr_quota row, ce_period = kr_period row,
                     ce_expires = now + CACHE_TTL\<rparr> (as_cache s)\<rparr>)
          | None \<Rightarrow>
              (case Option.bind store (\<lambda>st. st_operator_by_hash st h) of
                 Some op \<Rightarrow>
                   (if or_role op = ''viewer''
                    then (Inl (mk_exc 403 ''viewer role cannot run inference''), s)
                    else (Inr (Some (or_label op)),
                          s\<lparr>as_cache := dset h
                             \<lparr>ce_id = None, ce_name = or_label op, ce_rpm = None,
                              ce_quota = None, ce_period = None,
                              ce_expires = now + CACHE_TTL\<rparr> (as_cache s)\<rparr>))
               | None \<Rightarrow> (Inl (mk_exc 401 ''invalid or revoked API key''), s))))"
  unfolding authenticate_def Let_def token_of_def [symmetric] live_cache_def [symmetric]
    is_admin_token_def [symmetric] h_def
  using assms(1-4) by simp

lemma authenticate_early:
  assumes "require_enabled (ae_env ae)"
  shows "session_actor (ae_jwt ae) (ae_env ae) rq = Some (a, r) \<Longrightarrow>
      authenticate ae now wall store rq s =
        (if r = ''viewer'' then (Inl (mk_exc 403 ''viewer role cannot run inference''), s) else (Inr (Some a), s))"
    and "session_actor (ae_jwt ae) (ae_env ae) rq = None \<Longrightarrow> token_of rq = [] \<Longrightarrow>
      authenticate ae now wall store rq s = (Inl (mk_exc 401 ''missing API key''), s)"
    and "session_actor (ae_jwt ae) (ae_env ae) rq = None \<Longrightarrow> token_of rq \<noteq> [] \<Longrightarrow>
      is_admin_token (ae_env ae) (token_of rq) \<Longrightarrow>
      authenticate ae now wall store rq s = (Inr (Some ''dashboard''), s)"
  unfolding authenticate_def Let_def token_of_def [symmetric] is_admin_token_def [symmetric]
  using assms by simp_all

section \<open>Where a cached credential comes from\<close>

text \<open>Every entry was made by a call whose store entitled its name, and expires \<open>CACHE_TTL\<close> after that call.\<close>

definition vouched :: "auth_call list \<Rightarrow> auth_state \<Rightarrow> bool" where
  "vouched cs s =
     (\<forall>h c. map_of (as_cache s) h = Some c \<longrightarrow>
        (\<exists>(t, wall, st, rq) \<in> set cs. ce_expires c = t + CACHE_TTL \<and> entitles st h (ce_name c)))"

lemma vouched_more: "vouched cs s \<Longrightarrow> vouched (cs @ cs') s"
  unfolding vouched_def by fastforce

lemma vouched_dset:
  "vouched cs s \<Longrightarrow> (now, wall, st, rq) \<in> set cs \<Longrightarrow> ce_expires c = now + CACHE_TTL \<Longrightarrow> entitles st h (ce_name c) \<Longrightarrow>
   vouched cs (s\<lparr>as_cache := dset h c (as_cache s)\<rparr>)"
  by (auto simp: vouched_def)

lemma vouched_admit: "vouched cs (snd (admit_key now w st n r q p s)) = vouched cs s"
  by (simp add: vouched_def admit_key_cache)

lemma vouched_step:
  assumes "vouched cs s"
  shows "vouched (cs @ [(now, wall, store, rq)]) (snd (authenticate ae now wall store rq s))"
proof (cases "require_enabled (ae_env ae)")
  case False
  then show ?thesis using assms by (simp add: authenticate_def vouched_more)
next
  case True
  note en = True
  show ?thesis
  proof (cases "session_actor (ae_jwt ae) (ae_env ae) rq")
    case (Some ar)
    then show ?thesis using assms by (cases ar) (simp add: authenticate_early(1) [OF en] vouched_more)
  next
    case None
    note sess = None
    show ?thesis
    proof (cases "token_of rq = [] \<or> is_admin_token (ae_env ae) (token_of rq)")
      case True
      then show ?thesis
        using assms authenticate_early(2,3) [OF en sess] by (cases "token_of rq = []") (auto simp: vouched_more)
    next
      case False
      then have go: "token_of rq \<noteq> []" "\<not> is_admin_token (ae_env ae) (token_of rq)" by simp_all
      show ?thesis
        unfolding authenticate_keyed [OF en sess go] using vouched_more [OF assms, of "[(now, wall, store, rq)]"]
        by (auto simp: vouched_admit entitles_def bind_eq_None_conv bind_eq_Some_conv
            intro!: vouched_dset [of _ _ now wall store rq] split: option.split)
    qed
  qed
qed

lemma vouched_run: "vouched done_cs s \<Longrightarrow> vouched (done_cs @ cs) (auth_run ae cs s)"
proof (induction cs arbitrary: s done_cs)
  case (Cons c cs)
  obtain now wall st rq where c: "c = (now, wall, st, rq)" by (cases c)
  from Cons.IH [OF vouched_step [OF Cons.prems, of now wall st rq ae]] show ?case by (simp add: c)
qed simp

lemma vouched_reached: "vouched cs (auth_run ae cs auth_init)"
proof -
  have "vouched [] auth_init" by (simp add: vouched_def auth_init_def)
  from vouched_run [OF this, of cs ae] show ?thesis by simp
qed

lemma live_vouched:
  assumes "live_cache now (auth_run ae cs auth_init) h = Some c"
  shows "\<exists>(t, wall, st, rq) \<in> set cs. now < t + CACHE_TTL \<and> entitles st h (ce_name c)"
proof -
  have c: "map_of (as_cache (auth_run ae cs auth_init)) h = Some c" "now < ce_expires c"
    using assms by (auto simp: live_cache_def split: option.splits if_splits)
  then show ?thesis using vouched_reached [of cs ae] unfolding vouched_def by fastforce
qed

text \<open>
  C10: with enforcement on, and whatever requests were answered before, a request is only let through under the name
  of a credential that entitles it: a session that is more than a viewer's, the admin token, or a token that the store
  has as an active API key or as an operator's who is more than a viewer, now or at a request less than 30 s ago.
\<close>

theorem authenticate_sound:
  assumes "require_enabled (ae_env ae)" "fst (authenticate ae now wall store rq (auth_run ae cs auth_init)) = Inr who"
  shows "\<exists>name. who = Some name \<and> entitled ae cs now store rq name"
proof (cases "session_actor (ae_jwt ae) (ae_env ae) rq")
  case (Some ar)
  then show ?thesis
    using assms(2) by (cases ar) (auto simp: authenticate_early(1) [OF assms(1)] entitled_def split: if_splits)
next
  case None
  note sess = None
  show ?thesis
  proof (cases "token_of rq = [] \<or> is_admin_token (ae_env ae) (token_of rq)")
    case True
    then show ?thesis
      using assms(2) authenticate_early(2,3) [OF assms(1) sess]
      by (cases "token_of rq = []") (auto simp: entitled_def sess)
  next
    case False
    then have go: "token_of rq \<noteq> []" "\<not> is_admin_token (ae_env ae) (token_of rq)" by simp_all
    show ?thesis
    proof (cases "live_cache now (auth_run ae cs auth_init) (ae_hash ae (token_of rq))")
      case (Some c)
      then have "who = Some (ce_name c)"
        using assms(2) unfolding authenticate_keyed [OF assms(1) sess go] by (auto dest: admit_key_name)
      then show ?thesis using live_vouched [OF Some] sess go by (auto simp: entitled_def)
    next
      case no: None
      show ?thesis
        using assms(2) sess go no unfolding authenticate_keyed [OF assms(1) sess go] entitled_def entitles_def
        by (cases store) (auto split: option.splits if_splits dest: admit_key_name)
    qed
  qed
qed

definition demo_env :: auth_env where
  "demo_env = \<lparr>ae_env = \<lambda>k. if k = ''LLMOPS_REQUIRE_API_KEY'' then ''1'' else [],
               ae_hash = \<lambda>t. t, ae_jwt = \<lambda>_ _. None\<rparr>"

definition demo_store :: auth_store where
  "demo_store = \<lparr>st_tokens_used = \<lambda>_ _. 0,
     st_key_by_hash = \<lambda>h. if h = ''k1''
        then Some \<lparr>kr_id = 1, kr_name = ''app'', kr_rpm = Some 60, kr_quota = Some 1000, kr_period = None\<rparr>
        else None,
     st_operator_by_hash = \<lambda>_. None\<rparr>"

definition demo_rq :: "string \<Rightarrow> auth_request" where
  "demo_rq h = \<lparr>rq_authorization = h, rq_cookie = None\<rparr>"

lemma demo_enabled: "require_enabled (ae_env demo_env)"
  by (simp add: demo_env_def require_enabled_def str_lower_def str_strip_def str_lstrip_def is_space_def
      char_lower_def)

lemma demo_session: "session_actor (ae_jwt demo_env) (ae_env demo_env) (demo_rq h) = None"
  by (simp add: demo_env_def demo_rq_def session_actor_def)

lemma demo_token: "token_of (demo_rq ''Bearer k1'') = ''k1''"
  by code_simp

lemma demo_not_admin: "\<not> is_admin_token (ae_env demo_env) t"
  by (simp add: is_admin_token_def demo_env_def str_strip_def str_lstrip_def)

lemmas demo_keyed = authenticate_keyed [OF demo_enabled demo_session, of "''Bearer k1''",
    unfolded demo_token, OF _ demo_not_admin]

lemma demo_admitted:
  "fst (authenticate demo_env 0 0 (Some demo_store) (demo_rq ''Bearer k1'') auth_init) = Inr (Some ''app'')"
  by (simp add: demo_keyed, simp add: live_cache_def auth_init_def demo_env_def demo_store_def
      admit_key_def check_rate_def falsy_int_def Let_def dget_def check_quota_def)

lemma authenticate_sound_witness: "entitled demo_env [] 0 (Some demo_store) (demo_rq ''Bearer k1'') ''app''"
proof -
  have "fst (authenticate demo_env 0 0 (Some demo_store) (demo_rq ''Bearer k1'') (auth_run demo_env [] auth_init)) = Inr (Some ''app'')"
    using demo_admitted by simp
  from authenticate_sound [OF demo_enabled this] show ?thesis by simp
qed

section \<open>Revocation\<close>

text \<open>The store has neither an active key nor an operator of that hash.\<close>

definition cut_off :: "auth_store option \<Rightarrow> string \<Rightarrow> bool" where
  "cut_off store h = (case store of None \<Rightarrow> True | Some st \<Rightarrow> st_key_by_hash st h = None \<and> st_operator_by_hash st h = None)"

text \<open>
  C4: revocation, with enforcement on and for a request without a good session.  When the store has cut a token (not
  the admin token) off for every request after \<open>T\<close>, the token is refused with 401 from \<open>T + 30\<close> on, however often it
  was presented before, in the last 30 s too.
\<close>

theorem revoked_after_ttl:
  assumes "require_enabled (ae_env ae)" "session_actor (ae_jwt ae) (ae_env ae) rq = None"
    and "token_of rq \<noteq> []" "\<not> is_admin_token (ae_env ae) (token_of rq)"
    and "\<forall>(t, wall', st, rq') \<in> set cs. t \<le> T \<or> cut_off st (ae_hash ae (token_of rq))" "T + CACHE_TTL \<le> now"
    and "cut_off store (ae_hash ae (token_of rq))"
  shows "fst (authenticate ae now wall store rq (auth_run ae cs auth_init)) =
         Inl (mk_exc 401 ''invalid or revoked API key'')"
proof -
  let ?h = "ae_hash ae (token_of rq)"
  have "live_cache now (auth_run ae cs auth_init) ?h = None"
  proof (rule ccontr)
    assume "live_cache now (auth_run ae cs auth_init) ?h \<noteq> None"
    then obtain c where "live_cache now (auth_run ae cs auth_init) ?h = Some c" by blast
    from live_vouched [OF this] obtain t w st rq' where e: "(t, w, st, rq') \<in> set cs" "now < t + CACHE_TTL" "entitles st ?h (ce_name c)"
      by auto
    then have "T < t" using assms(6) by simp
    then have "cut_off st ?h" using assms(5) e(1) by auto
    with e(3) show False by (auto simp: entitles_def cut_off_def split: option.splits)
  qed
  then show ?thesis
    using assms(7) by (auto simp: authenticate_keyed [OF assms(1-4)] cut_off_def split: option.splits)
qed

lemma revoked_after_ttl_witness:
  "fst (authenticate demo_env 30 0 (Some (demo_store\<lparr>st_key_by_hash := \<lambda>_. None\<rparr>)) (demo_rq ''Bearer k1'')
     (auth_run demo_env [(0, 0, Some demo_store, demo_rq ''Bearer k1''),
        (20, 0, Some (demo_store\<lparr>st_key_by_hash := \<lambda>_. None\<rparr>), demo_rq ''Bearer k1'')] auth_init)) =
   Inl (mk_exc 401 ''invalid or revoked API key'')"
  by (rule revoked_after_ttl [OF demo_enabled demo_session, of "''Bearer k1''" _ 0])
    (simp_all add: demo_token demo_not_admin CACHE_TTL_def cut_off_def, simp_all add: demo_store_def)

section \<open>Quota\<close>

text \<open>
  The soft quota.  A quota check passes only on a usage figure below the quota, and that figure
  is the store's, read in this call or at most 15 seconds before for the same period.
\<close>

theorem check_quota_fresh:
  assumes "fst (check_quota now wall (Some st) name (Some q) period s) = Inr ()" "q \<noteq> 0"
  shows "st_tokens_used st name (if period_start wall period = 0 then None else Some (period_start wall period)) < q \<or>
     (\<exists>used ex. map_of (as_quota s) name = Some (used, period_start wall period, ex) \<and> now < ex \<and> used < q)"
  using assms by (auto simp: check_quota_def falsy_int_def Let_def split: option.splits prod.splits if_splits)

lemma check_quota_fresh_witness:
  "st_tokens_used demo_store ''app'' None < 1000"
  using check_quota_fresh [of 0 0 demo_store "''app''" 1000 None auth_init]
  by (simp add: check_quota_def falsy_int_def Let_def auth_init_def demo_store_def period_start_def)

lemma period_start_daily: "period_start wall (Some ''daily'') \<le> wall \<and> wall < period_start wall (Some ''daily'') + 86400"
  using floor_correct [of "wall / 86400"] by (simp add: period_start_def Let_def field_simps)

end
