(* ===== verification/Ops_Store.thy ===== *)
theory Ops_Store
  imports Router_State Router_Auth
begin

text \<open>
  packages/llmops-store/llmops_store.py: the shared database.  A table with an AUTOINCREMENT id is
  a \<open>table\<close> (rows in id order and the next id); a table with a TEXT primary key that the code
  upserts is a \<open>dict\<close>.  Every method is one statement that commits by itself, so an operation of
  the model is one atomic step on the record \<open>store\<close>.  \<open>now\<close> is the database clock of the call and
  the optional \<open>ts\<close> argument is kept: \<open>ts or time.time()\<close> in some methods, \<open>ts if ts is not None\<close>
  in others.  Where SQL leaves an order open (groups, ties) the model fixes one.  JSON columns hold
  the text.
\<close>

section \<open>Tables\<close>

record 'r table =
  tb_rows :: "(int \<times> 'r) list"
  tb_next :: int

definition empty_table :: "'r table" where
  "empty_table = \<lparr>tb_rows = [], tb_next = 1\<rparr>"

definition tinsert :: "'r \<Rightarrow> 'r table \<Rightarrow> int \<times> 'r table" where
  "tinsert r t = (tb_next t, t\<lparr>tb_rows := tb_rows t @ [(tb_next t, r)], tb_next := tb_next t + 1\<rparr>)"

definition tupdate :: "(int \<Rightarrow> 'r \<Rightarrow> bool) \<Rightarrow> ('r \<Rightarrow> 'r) \<Rightarrow> 'r table \<Rightarrow> nat \<times> 'r table" where
  "tupdate P f t =
     (length (filter (\<lambda>(i, r). P i r) (tb_rows t)),
      t\<lparr>tb_rows := map (\<lambda>(i, r). (i, if P i r then f r else r)) (tb_rows t)\<rparr>)"

definition tdelete :: "(int \<Rightarrow> 'r \<Rightarrow> bool) \<Rightarrow> 'r table \<Rightarrow> nat \<times> 'r table" where
  "tdelete P t =
     (length (filter (\<lambda>(i, r). P i r) (tb_rows t)),
      t\<lparr>tb_rows := filter (\<lambda>(i, r). \<not> P i r) (tb_rows t)\<rparr>)"

text \<open>\<open>SELECT ... WHERE P ORDER BY id DESC LIMIT n\<close>\<close>

definition tselect :: "(int \<Rightarrow> 'r \<Rightarrow> bool) \<Rightarrow> nat \<Rightarrow> 'r table \<Rightarrow> (int \<times> 'r) list" where
  "tselect P n t = take n (rev (filter (\<lambda>(i, r). P i r) (tb_rows t)))"

definition tget :: "int \<Rightarrow> 'r table \<Rightarrow> 'r option" where
  "tget i t = map_of (tb_rows t) i"

text \<open>\<open>DELETE ... WHERE id NOT IN (SELECT id ... ORDER BY id DESC LIMIT n)\<close>\<close>

definition tprune :: "nat \<Rightarrow> 'r table \<Rightarrow> nat \<times> 'r table" where
  "tprune n t =
     (length (tb_rows t) - n, t\<lparr>tb_rows := drop (length (tb_rows t) - n) (tb_rows t)\<rparr>)"

definition or_now :: "real option \<Rightarrow> real \<Rightarrow> real" where
  "or_now ts now = (case ts of None \<Rightarrow> now | Some t \<Rightarrow> if t = 0 then now else t)"

definition at_time :: "real option \<Rightarrow> real \<Rightarrow> real" where
  "at_time ts now = (case ts of None \<Rightarrow> now | Some t \<Rightarrow> t)"

section \<open>Rows\<close>

record event_row =
  ev_ts :: real
  ev_key :: string
  ev_kind :: string
  ev_from :: "string option"
  ev_to :: string
  ev_detail :: "string option"

record request_row =
  rr_ts :: real
  rr_model :: string
  rr_instance :: "string option"
  rr_path :: string
  rr_status :: "int option"
  rr_latency :: "real option"
  rr_prompt :: "int option"
  rr_completion :: "int option"
  rr_total :: "int option"
  rr_error :: "string option"
  rr_key :: "string option"

record apikey_row =
  ak_name :: string
  ak_hash :: string
  ak_prefix :: string
  ak_created :: real
  ak_last_used :: "real option"
  ak_revoked :: bool
  ak_rpm :: "int option"
  ak_quota :: "int option"
  ak_period :: "string option"

record operator_row =
  op_label :: string
  op_hash :: string
  op_prefix :: string
  op_role :: string
  op_created :: real
  op_last_used :: "real option"
  op_revoked :: bool

record audit_row =
  au_ts :: real
  au_actor :: string
  au_role :: "string option"
  au_method :: string
  au_path :: string
  au_target :: "string option"
  au_status :: int
  au_detail :: "string option"
  au_ip :: "string option"

record sink_row =
  sk_type :: string
  sk_url :: string
  sk_min_severity :: string
  sk_created :: real

record price_row =
  pr_input :: real
  pr_output :: real
  pr_currency :: string
  pr_updated :: real

record version_row =
  cv_ts :: real
  cv_actor :: "string option"
  cv_role :: "string option"
  cv_summary :: "string option"
  cv_sha :: string
  cv_overlay :: string

record live_row =
  lv_group :: string
  lv_instance :: string
  lv_node :: "string option"
  lv_host :: string
  lv_port :: int
  lv_state :: "string option"
  lv_expires :: real

record node_row =
  nd_hostname :: "string option"
  nd_capacity :: "string option"
  nd_engines :: "string option"
  nd_api_url :: "string option"
  nd_expires :: real

record observed_row =
  ob_node :: "string option"
  ob_state :: "string option"
  ob_view :: string
  ob_expires :: real

datatype run_status = Queued | Running | Completed | Failed | Cancelled

record run_row =
  rn_created :: real
  rn_name :: "string option"
  rn_model :: string
  rn_target :: string
  rn_datasets :: "string option"  \<comment> \<open>eval runs only\<close>
  rn_status :: run_status
  rn_params :: string
  rn_result :: "string option"
  rn_output :: "string option"
  rn_error :: "string option"
  rn_started :: "real option"
  rn_finished :: "real option"

record store =
  so_events :: "event_row table"
  so_requests :: "request_row table"
  so_keys :: "apikey_row table"
  so_operators :: "operator_row table"
  so_audit :: "audit_row table"
  so_sinks :: "sink_row table"
  so_prices :: "(string, price_row) dict"
  so_versions :: "version_row table"
  so_desired :: "(string, string \<times> real) dict"
  so_leases :: "(string, string \<times> real) dict"
  so_draining :: "(string, real) dict"
  so_live :: "(string, live_row) dict"
  so_nodes :: "(string, node_row) dict"
  so_assign :: "(string, string \<times> real) dict"
  so_observed :: "(string, observed_row) dict"
  so_perf :: "run_row table"
  so_eval :: "run_row table"

definition init_store :: store where
  "init_store =
     \<lparr>so_events = empty_table, so_requests = empty_table, so_keys = empty_table,
      so_operators = empty_table, so_audit = empty_table, so_sinks = empty_table, so_prices = [],
      so_versions = empty_table, so_desired = [], so_leases = [], so_draining = [], so_live = [],
      so_nodes = [], so_assign = [], so_observed = [], so_perf = empty_table, so_eval = empty_table\<rparr>"

section \<open>Events and requests\<close>

definition record_model_event ::
  "real \<Rightarrow> string \<Rightarrow> string \<Rightarrow> string option \<Rightarrow> string \<Rightarrow> string option \<Rightarrow> real option \<Rightarrow> store \<Rightarrow> store" where
  "record_model_event now key kind from_state to_state detail ts s =
     s\<lparr>so_events := snd (tinsert
         \<lparr>ev_ts = or_now ts now, ev_key = key, ev_kind = kind, ev_from = from_state, ev_to = to_state,
          ev_detail = detail\<rparr> (so_events s))\<rparr>"

definition store_record_request :: "real \<Rightarrow> real option \<Rightarrow> request_row \<Rightarrow> store \<Rightarrow> store" where
  "store_record_request now ts row s =
     s\<lparr>so_requests := snd (tinsert (row\<lparr>rr_ts := or_now ts now\<rparr>) (so_requests s))\<rparr>"

definition recent_events :: "string option \<Rightarrow> nat \<Rightarrow> store \<Rightarrow> (int \<times> event_row) list" where
  "recent_events key n s = tselect (\<lambda>_ r. key = None \<or> key = Some (ev_key r)) n (so_events s)"

definition recent_requests :: "string option \<Rightarrow> nat \<Rightarrow> store \<Rightarrow> (int \<times> request_row) list" where
  "recent_requests m n s = tselect (\<lambda>_ r. m = None \<or> m = Some (rr_model r)) n (so_requests s)"

section \<open>API keys\<close>

text \<open>\<open>None\<close>: the UNIQUE constraint on the hash fails and the insert raises.\<close>

definition create_api_key ::
  "real \<Rightarrow> string \<Rightarrow> string \<Rightarrow> string \<Rightarrow> int option \<Rightarrow> int option \<Rightarrow> string option \<Rightarrow> real option \<Rightarrow>
   store \<Rightarrow> (int \<times> store) option" where
  "create_api_key now name key_hash prefix rpm quota period ts s =
     (if \<exists>(i, r) \<in> set (tb_rows (so_keys s)). ak_hash r = key_hash then None
      else
        let (i, t) = tinsert \<lparr>ak_name = name, ak_hash = key_hash, ak_prefix = prefix,
               ak_created = or_now ts now, ak_last_used = None, ak_revoked = False, ak_rpm = rpm,
               ak_quota = quota, ak_period = period\<rparr> (so_keys s)
        in Some (i, s\<lparr>so_keys := t\<rparr>))"

text \<open>The listing never contains the hash.\<close>

definition list_api_keys :: "store \<Rightarrow> (int \<times> apikey_row) list" where
  "list_api_keys s = map (\<lambda>(i, r). (i, r\<lparr>ak_hash := []\<rparr>)) (rev (tb_rows (so_keys s)))"

definition get_active_api_key_by_hash :: "store \<Rightarrow> string \<Rightarrow> (int \<times> apikey_row) option" where
  "get_active_api_key_by_hash s h =
     (case find (\<lambda>(i, r). ak_hash r = h) (tb_rows (so_keys s)) of
        None \<Rightarrow> None
      | Some (i, r) \<Rightarrow> if ak_revoked r then None else Some (i, r))"

definition revoke_api_key :: "int \<Rightarrow> store \<Rightarrow> bool \<times> store" where
  "revoke_api_key key_id s =
     (let (n, t) = tupdate (\<lambda>i r. i = key_id \<and> \<not> ak_revoked r) (ak_revoked_update (\<lambda>_. True)) (so_keys s)
      in (n > 0, s\<lparr>so_keys := t\<rparr>))"

definition touch_api_key :: "real \<Rightarrow> int \<Rightarrow> real option \<Rightarrow> store \<Rightarrow> store" where
  "touch_api_key now key_id ts s =
     s\<lparr>so_keys := snd (tupdate (\<lambda>i r. i = key_id) (ak_last_used_update (\<lambda>_. Some (or_now ts now))) (so_keys s))\<rparr>"

definition osum :: "int option list \<Rightarrow> int" where
  "osum xs = sum_list (map (\<lambda>x. case x of None \<Rightarrow> 0 | Some n \<Rightarrow> n) xs)"

definition tokens_used_by_key :: "store \<Rightarrow> string \<Rightarrow> real option \<Rightarrow> int" where
  "tokens_used_by_key s name since =
     osum (map (\<lambda>(i, r). rr_total r)
       (filter (\<lambda>(i, r). rr_key r = Some name \<and> (case since of None \<Rightarrow> True | Some t \<Rightarrow> t \<le> rr_ts r))
         (tb_rows (so_requests s))))"

text \<open>Per key name: (requests, tokens, last timestamp).\<close>

definition named_requests :: "store \<Rightarrow> (string \<times> request_row) list" where
  "named_requests s =
     List.map_filter (\<lambda>(i, r). map_option (\<lambda>n. (n, r)) (rr_key r)) (tb_rows (so_requests s))"

definition api_key_usage :: "store \<Rightarrow> (string, nat \<times> int \<times> real) dict" where
  "api_key_usage s =
     map (\<lambda>n. let rs = map snd (filter (\<lambda>p. fst p = n) (named_requests s))
              in (n, length rs, osum (map rr_total rs), foldr max (map rr_ts rs) (rr_ts (hd rs))))
       (remdups (map fst (named_requests s)))"

section \<open>Operators\<close>

definition create_operator ::
  "real \<Rightarrow> string \<Rightarrow> string \<Rightarrow> string \<Rightarrow> string \<Rightarrow> real option \<Rightarrow> store \<Rightarrow> (int \<times> store) option" where
  "create_operator now label token_hash prefix role ts s =
     (if \<exists>(i, r) \<in> set (tb_rows (so_operators s)). op_hash r = token_hash then None
      else
        let (i, t) = tinsert \<lparr>op_label = label, op_hash = token_hash, op_prefix = prefix, op_role = role,
               op_created = or_now ts now, op_last_used = None, op_revoked = False\<rparr> (so_operators s)
        in Some (i, s\<lparr>so_operators := t\<rparr>))"

definition list_operators :: "store \<Rightarrow> (int \<times> operator_row) list" where
  "list_operators s = map (\<lambda>(i, r). (i, r\<lparr>op_hash := []\<rparr>)) (rev (tb_rows (so_operators s)))"

definition count_active_operators :: "store \<Rightarrow> nat" where
  "count_active_operators s = length (filter (\<lambda>(i, r). \<not> op_revoked r) (tb_rows (so_operators s)))"

definition get_active_operator_by_hash :: "store \<Rightarrow> string \<Rightarrow> (int \<times> operator_row) option" where
  "get_active_operator_by_hash s h =
     (case find (\<lambda>(i, r). op_hash r = h) (tb_rows (so_operators s)) of
        None \<Rightarrow> None
      | Some (i, r) \<Rightarrow> if op_revoked r then None else Some (i, r))"

definition touch_operator :: "real \<Rightarrow> int \<Rightarrow> real option \<Rightarrow> store \<Rightarrow> store" where
  "touch_operator now oid ts s =
     s\<lparr>so_operators := snd (tupdate (\<lambda>i r. i = oid) (op_last_used_update (\<lambda>_. Some (or_now ts now))) (so_operators s))\<rparr>"

definition revoke_operator :: "int \<Rightarrow> store \<Rightarrow> bool \<times> store" where
  "revoke_operator oid s =
     (let (n, t) = tupdate (\<lambda>i r. i = oid \<and> \<not> op_revoked r) (op_revoked_update (\<lambda>_. True)) (so_operators s)
      in (n > 0, s\<lparr>so_operators := t\<rparr>))"

definition set_operator_role :: "int \<Rightarrow> string \<Rightarrow> store \<Rightarrow> bool \<times> store" where
  "set_operator_role oid role s =
     (let (n, t) = tupdate (\<lambda>i r. i = oid \<and> \<not> op_revoked r) (op_role_update (\<lambda>_. role)) (so_operators s)
      in (n > 0, s\<lparr>so_operators := t\<rparr>))"

text \<open>\<open>None\<close>: the new hash already belongs to another operator and the update raises.\<close>

definition rotate_operator_token :: "int \<Rightarrow> string \<Rightarrow> string \<Rightarrow> store \<Rightarrow> (bool \<times> store) option" where
  "rotate_operator_token oid token_hash prefix s =
     (if (\<exists>(i, r) \<in> set (tb_rows (so_operators s)). i \<noteq> oid \<and> op_hash r = token_hash) \<and>
         (\<exists>(i, r) \<in> set (tb_rows (so_operators s)). i = oid \<and> \<not> op_revoked r) then None
      else
        let (n, t) = tupdate (\<lambda>i r. i = oid \<and> \<not> op_revoked r)
               (\<lambda>r. r\<lparr>op_hash := token_hash, op_prefix := prefix, op_last_used := None\<rparr>) (so_operators s)
        in Some (n > 0, s\<lparr>so_operators := t\<rparr>))"

text \<open>The three queries of the router's authentication.\<close>

definition auth_view :: "store \<Rightarrow> auth_store" where
  "auth_view s =
     \<lparr>st_tokens_used = tokens_used_by_key s,
      st_key_by_hash = \<lambda>h. map_option (\<lambda>(i, r). \<lparr>kr_id = i, kr_name = ak_name r, kr_rpm = ak_rpm r,
         kr_quota = ak_quota r, kr_period = ak_period r\<rparr>) (get_active_api_key_by_hash s h),
      st_operator_by_hash = \<lambda>h. map_option (\<lambda>(i, r). \<lparr>or_label = op_label r, or_role = op_role r\<rparr>)
         (get_active_operator_by_hash s h)\<rparr>"

section \<open>Audit log\<close>

text \<open>SQL \<open>LIKE\<close> as SQLite has it: any run for a percent sign, one character for an underscore, ASCII case folded.\<close>

fun like :: "string \<Rightarrow> string \<Rightarrow> bool" where
  "like [] s = (s = [])"
| "like (p # ps) [] = (p = CHR ''%'' \<and> like ps [])"
| "like (p # ps) (c # cs) =
     (if p = CHR ''%'' then like ps (c # cs) \<or> like (p # ps) cs
      else (p = CHR ''_'' \<or> char_lower p = char_lower c) \<and> like ps cs)"

definition record_audit :: "real \<Rightarrow> real option \<Rightarrow> audit_row \<Rightarrow> store \<Rightarrow> store" where
  "record_audit now ts row s = s\<lparr>so_audit := snd (tinsert (row\<lparr>au_ts := or_now ts now\<rparr>) (so_audit s))\<rparr>"

definition opt_all :: "'a option \<Rightarrow> ('a \<Rightarrow> bool) \<Rightarrow> bool" where
  "opt_all x P = (case x of None \<Rightarrow> True | Some a \<Rightarrow> P a)"

definition list_audit ::
  "string option \<Rightarrow> string option \<Rightarrow> string option \<Rightarrow> real option \<Rightarrow> real option \<Rightarrow> int option \<Rightarrow> int \<Rightarrow>
   store \<Rightarrow> (int \<times> audit_row) list" where
  "list_audit actor action target since until before lmt s =
     tselect (\<lambda>i r. opt_all actor (\<lambda>a. au_actor r = a) \<and> opt_all action (\<lambda>a. like ([CHR ''%''] @ a @ [CHR ''%'']) (au_path r))
        \<and> opt_all target (\<lambda>t. au_target r = Some t) \<and> opt_all since (\<lambda>t. t \<le> au_ts r)
        \<and> opt_all until (\<lambda>t. au_ts r \<le> t) \<and> opt_all before (\<lambda>b. i < b))
       (nat (max 1 (min lmt 1000))) (so_audit s)"

definition prune_audit :: "nat \<Rightarrow> store \<Rightarrow> nat \<times> store" where
  "prune_audit n s = (case tprune n (so_audit s) of (k, t) \<Rightarrow> (k, s\<lparr>so_audit := t\<rparr>))"

section \<open>Alert sinks and prices\<close>

definition create_alert_sink :: "real \<Rightarrow> string \<Rightarrow> string \<Rightarrow> string \<Rightarrow> real option \<Rightarrow> store \<Rightarrow> int \<times> store" where
  "create_alert_sink now ty url min_severity ts s =
     (let (i, t) = tinsert \<lparr>sk_type = ty, sk_url = url, sk_min_severity = min_severity,
                            sk_created = or_now ts now\<rparr> (so_sinks s)
      in (i, s\<lparr>so_sinks := t\<rparr>))"

definition list_alert_sinks :: "store \<Rightarrow> (int \<times> sink_row) list" where
  "list_alert_sinks s = tb_rows (so_sinks s)"

definition get_alert_sink :: "int \<Rightarrow> store \<Rightarrow> sink_row option" where
  "get_alert_sink i s = tget i (so_sinks s)"

definition delete_alert_sink :: "int \<Rightarrow> store \<Rightarrow> bool \<times> store" where
  "delete_alert_sink sid s =
     (let (n, t) = tdelete (\<lambda>i _. i = sid) (so_sinks s) in (n > 0, s\<lparr>so_sinks := t\<rparr>))"

definition set_model_price ::
  "real \<Rightarrow> string \<Rightarrow> real \<Rightarrow> real \<Rightarrow> string \<Rightarrow> real option \<Rightarrow> store \<Rightarrow> store" where
  "set_model_price now model inp outp currency ts s =
     s\<lparr>so_prices := dset model \<lparr>pr_input = inp, pr_output = outp, pr_currency = currency,
                               pr_updated = or_now ts now\<rparr> (so_prices s)\<rparr>"

definition delete_model_price :: "string \<Rightarrow> store \<Rightarrow> bool \<times> store" where
  "delete_model_price model s = (dhas (so_prices s) model, s\<lparr>so_prices := dpop model (so_prices s)\<rparr>)"

definition in_ts_window :: "real option \<Rightarrow> real option \<Rightarrow> real \<Rightarrow> bool" where
  "in_ts_window since until t = (opt_all since (\<lambda>a. a \<le> t) \<and> opt_all until (\<lambda>b. t \<le> b))"

record usage_row =
  us_requests :: nat
  us_prompt :: int
  us_completion :: int
  us_total :: int

definition usage_of :: "request_row list \<Rightarrow> usage_row" where
  "usage_of rs = \<lparr>us_requests = length rs, us_prompt = osum (map rr_prompt rs),
     us_completion = osum (map rr_completion rs), us_total = osum (map rr_total rs)\<rparr>"

text \<open>\<open>GROUP BY\<close>: one row per value; SQL leaves the order open.\<close>

definition group_usage :: "(request_row \<Rightarrow> 'k) \<Rightarrow> request_row list \<Rightarrow> ('k \<times> usage_row) list" where
  "group_usage key rs = map (\<lambda>k. (k, usage_of (filter (\<lambda>r. key r = k) rs))) (remdups (map key rs))"

definition token_usage_by_model :: "real option \<Rightarrow> real option \<Rightarrow> store \<Rightarrow> (string \<times> usage_row) list" where
  "token_usage_by_model since until s =
     sort_key (\<lambda>p. - us_total (snd p))
       (group_usage rr_model (filter (\<lambda>r. in_ts_window since until (rr_ts r)) (map snd (tb_rows (so_requests s)))))"

definition token_usage_by_key ::
  "real option \<Rightarrow> real option \<Rightarrow> store \<Rightarrow> ((string option \<times> string) \<times> usage_row) list" where
  "token_usage_by_key since until s =
     group_usage (\<lambda>r. (rr_key r, rr_model r))
       (filter (\<lambda>r. in_ts_window since until (rr_ts r) \<and> rr_key r \<noteq> None) (map snd (tb_rows (so_requests s))))"

section \<open>Latency aggregates\<close>

text \<open>Python's \<open>round\<close> of a non-negative number: to nearest, ties to even.\<close>

definition round_half_even :: "real \<Rightarrow> int" where
  "round_half_even x =
     (let f = \<lfloor>x\<rfloor>; d = x - of_int f
      in if d < 1 / 2 then f else if d > 1 / 2 then f + 1 else if even f then f else f + 1)"

definition percentile_index :: "nat \<Rightarrow> real \<Rightarrow> nat" where
  "percentile_index n pct =
     nat (max 0 (min (int n - 1) (round_half_even ((pct / 100) * (real n - 1)))))"

definition percentile :: "real list \<Rightarrow> real \<Rightarrow> real option" where
  "percentile vals pct =
     (if vals = [] then None else Some (sort vals ! percentile_index (length vals) pct))"

record summary_row =
  sm_count :: nat
  sm_errors :: nat
  sm_avg :: "real option"
  sm_max :: "real option"
  sm_total :: int
  sm_p50 :: "real option"
  sm_p95 :: "real option"

definition is_error_row :: "request_row \<Rightarrow> bool" where
  "is_error_row r = ((case rr_status r of None \<Rightarrow> False | Some c \<Rightarrow> 400 \<le> c) \<or> rr_error r \<noteq> None)"

definition summary_of :: "request_row list \<Rightarrow> summary_row" where
  "summary_of rs =
     (let lat = List.map_filter rr_latency rs
      in \<lparr>sm_count = length rs, sm_errors = length (filter is_error_row rs),
          sm_avg = (if lat = [] then None else Some (sum_list lat / real (length lat))),
          sm_max = (if lat = [] then None else Some (foldr max lat (hd lat))),
          sm_total = osum (map rr_total rs), sm_p50 = percentile lat 50, sm_p95 = percentile lat 95\<rparr>)"

definition usage_summary :: "real option \<Rightarrow> store \<Rightarrow> (string \<times> summary_row) list" where
  "usage_summary since s =
     (let rows = filter (\<lambda>r. opt_all since (\<lambda>t. t \<le> rr_ts r)) (map snd (tb_rows (so_requests s)))
      in sort_key (\<lambda>p. - int (sm_count (snd p)))
           (map (\<lambda>m. (m, summary_of (filter (\<lambda>r. rr_model r = m) rows))) (remdups (map rr_model rows))))"

section \<open>Config versions\<close>

definition latest_config_version_hash :: "store \<Rightarrow> string option" where
  "latest_config_version_hash s = map_option (\<lambda>(i, r). cv_sha r)
     (case tselect (\<lambda>_ _. True) 1 (so_versions s) of [] \<Rightarrow> None | p # _ \<Rightarrow> Some p)"

definition record_config_version ::
  "real \<Rightarrow> string \<Rightarrow> string \<Rightarrow> string option \<Rightarrow> string option \<Rightarrow> string option \<Rightarrow> real option \<Rightarrow>
   store \<Rightarrow> int option \<times> store" where
  "record_config_version now overlay sha actor role summary ts s =
     (if latest_config_version_hash s = Some sha then (None, s)
      else
        let (i, t) = tinsert \<lparr>cv_ts = or_now ts now, cv_actor = actor, cv_role = role,
               cv_summary = summary, cv_sha = sha, cv_overlay = overlay\<rparr> (so_versions s)
        in (Some i, s\<lparr>so_versions := t\<rparr>))"

definition list_config_versions :: "int option \<Rightarrow> int \<Rightarrow> store \<Rightarrow> (int \<times> version_row) list" where
  "list_config_versions before lmt s =
     tselect (\<lambda>i _. opt_all before (\<lambda>b. i < b)) (nat (max 1 (min lmt 500))) (so_versions s)"

definition get_config_version :: "int \<Rightarrow> store \<Rightarrow> version_row option" where
  "get_config_version i s = tget i (so_versions s)"

definition prune_config_versions :: "nat \<Rightarrow> store \<Rightarrow> nat \<times> store" where
  "prune_config_versions n s = (case tprune n (so_versions s) of (k, t) \<Rightarrow> (k, s\<lparr>so_versions := t\<rparr>))"

definition get_current_overlay :: "store \<Rightarrow> string option" where
  "get_current_overlay s = map_option (\<lambda>(i, r). cv_overlay r)
     (case tselect (\<lambda>_ _. True) 1 (so_versions s) of [] \<Rightarrow> None | p # _ \<Rightarrow> Some p)"

section \<open>Desired state, assignments\<close>

definition set_instance_desired :: "real \<Rightarrow> string \<Rightarrow> string \<Rightarrow> real option \<Rightarrow> store \<Rightarrow> store" where
  "set_instance_desired now key desired ts s =
     s\<lparr>so_desired := dset key (desired, or_now ts now) (so_desired s)\<rparr>"

definition list_instance_desired :: "store \<Rightarrow> (string, string) dict" where
  "list_instance_desired s = map (\<lambda>(k, d, t). (k, d)) (so_desired s)"

definition delete_instance_desired :: "string \<Rightarrow> store \<Rightarrow> store" where
  "delete_instance_desired key s = s\<lparr>so_desired := dpop key (so_desired s)\<rparr>"

definition set_assignment :: "real \<Rightarrow> string \<Rightarrow> string \<Rightarrow> real option \<Rightarrow> store \<Rightarrow> store" where
  "set_assignment now key node_id ts s =
     s\<lparr>so_assign := dset key (node_id, at_time ts now) (so_assign s)\<rparr>"

definition delete_assignment :: "string \<Rightarrow> store \<Rightarrow> store" where
  "delete_assignment key s = s\<lparr>so_assign := dpop key (so_assign s)\<rparr>"

definition list_assignments :: "string option \<Rightarrow> store \<Rightarrow> (string, string) dict" where
  "list_assignments node s =
     map (\<lambda>(k, n, t). (k, n)) (filter (\<lambda>(k, n, t). opt_all node (\<lambda>x. n = x)) (so_assign s))"

section \<open>Leader lease\<close>

text \<open>The conditional upsert, then the read back.\<close>

definition try_acquire_leader ::
  "real \<Rightarrow> string \<Rightarrow> string \<Rightarrow> real \<Rightarrow> real option \<Rightarrow> store \<Rightarrow> bool \<times> store" where
  "try_acquire_leader clock name holder ttl ts s =
     (let now = at_time ts clock;
          s1 = (case map_of (so_leases s) name of
                  None \<Rightarrow> s\<lparr>so_leases := dset name (holder, now + ttl) (so_leases s)\<rparr>
                | Some (h, ex) \<Rightarrow>
                    if ex < now \<or> h = holder
                    then s\<lparr>so_leases := dset name (holder, now + ttl) (so_leases s)\<rparr> else s)
      in (case map_of (so_leases s1) name of
            None \<Rightarrow> False | Some (h, ex) \<Rightarrow> h = holder \<and> ex > now, s1))"

definition release_leader :: "string \<Rightarrow> string \<Rightarrow> store \<Rightarrow> bool \<times> store" where
  "release_leader name holder s =
     (case map_of (so_leases s) name of
        None \<Rightarrow> (False, s)
      | Some (h, ex) \<Rightarrow> if h = holder then (True, s\<lparr>so_leases := dpop name (so_leases s)\<rparr>) else (False, s))"

definition get_leader :: "string \<Rightarrow> store \<Rightarrow> (string \<times> real) option" where
  "get_leader name s = map_of (so_leases s) name"

section \<open>Leased rows: drain marks, live addresses, nodes, observed state\<close>

definition set_draining :: "real \<Rightarrow> string \<Rightarrow> real \<Rightarrow> real option \<Rightarrow> store \<Rightarrow> store" where
  "set_draining now key ttl ts s = s\<lparr>so_draining := dset key (at_time ts now + ttl) (so_draining s)\<rparr>"

definition store_clear_draining :: "string \<Rightarrow> store \<Rightarrow> store" where
  "store_clear_draining key s = s\<lparr>so_draining := dpop key (so_draining s)\<rparr>"

definition list_draining :: "real \<Rightarrow> real option \<Rightarrow> store \<Rightarrow> (string, real) dict" where
  "list_draining now ts s = filter (\<lambda>(k, ex). ex > at_time ts now) (so_draining s)"

definition upsert_instance_live ::
  "real \<Rightarrow> string \<Rightarrow> string \<Rightarrow> string \<Rightarrow> string \<Rightarrow> int \<Rightarrow> real \<Rightarrow> string option \<Rightarrow> string option \<Rightarrow>
   real option \<Rightarrow> store \<Rightarrow> store" where
  "upsert_instance_live now key grp iid host port ttl node state ts s =
     s\<lparr>so_live := dset key \<lparr>lv_group = grp, lv_instance = iid, lv_node = node, lv_host = host,
         lv_port = port, lv_state = state, lv_expires = at_time ts now + ttl\<rparr> (so_live s)\<rparr>"

definition remove_instance_live :: "string \<Rightarrow> store \<Rightarrow> store" where
  "remove_instance_live key s = s\<lparr>so_live := dpop key (so_live s)\<rparr>"

definition prune_instances_live :: "real \<Rightarrow> real option \<Rightarrow> store \<Rightarrow> nat \<times> store" where
  "prune_instances_live now ts s =
     (length (filter (\<lambda>(k, r). lv_expires r \<le> at_time ts now) (so_live s)),
      s\<lparr>so_live := filter (\<lambda>(k, r). \<not> lv_expires r \<le> at_time ts now) (so_live s)\<rparr>)"

definition list_instances_live :: "real \<Rightarrow> real option \<Rightarrow> store \<Rightarrow> (string, live_row) dict" where
  "list_instances_live now ts s = filter (\<lambda>(k, r). lv_expires r > at_time ts now) (so_live s)"

definition upsert_node ::
  "real \<Rightarrow> string \<Rightarrow> string option \<Rightarrow> string option \<Rightarrow> real \<Rightarrow> real option \<Rightarrow> string option \<Rightarrow>
   string option \<Rightarrow> store \<Rightarrow> store" where
  "upsert_node now node_id hostname capacity ttl ts engines api_url s =
     s\<lparr>so_nodes := dset node_id \<lparr>nd_hostname = hostname, nd_capacity = capacity, nd_engines = engines,
         nd_api_url = api_url, nd_expires = at_time ts now + ttl\<rparr> (so_nodes s)\<rparr>"

definition list_nodes :: "real \<Rightarrow> real option \<Rightarrow> store \<Rightarrow> (string, node_row) dict" where
  "list_nodes now ts s = filter (\<lambda>(k, r). nd_expires r > at_time ts now) (so_nodes s)"

definition prune_nodes :: "real \<Rightarrow> real option \<Rightarrow> store \<Rightarrow> nat \<times> store" where
  "prune_nodes now ts s =
     (length (filter (\<lambda>(k, r). nd_expires r \<le> at_time ts now) (so_nodes s)),
      s\<lparr>so_nodes := filter (\<lambda>(k, r). \<not> nd_expires r \<le> at_time ts now) (so_nodes s)\<rparr>)"

definition upsert_instance_observed ::
  "real \<Rightarrow> string \<Rightarrow> string option \<Rightarrow> string option \<Rightarrow> string \<Rightarrow> real \<Rightarrow> real option \<Rightarrow> store \<Rightarrow> store" where
  "upsert_instance_observed now key node state view ttl ts s =
     s\<lparr>so_observed := dset key \<lparr>ob_node = node, ob_state = state, ob_view = view,
         ob_expires = at_time ts now + ttl\<rparr> (so_observed s)\<rparr>"

definition remove_instance_observed :: "string \<Rightarrow> store \<Rightarrow> store" where
  "remove_instance_observed key s = s\<lparr>so_observed := dpop key (so_observed s)\<rparr>"

definition list_instance_observed :: "real \<Rightarrow> real option \<Rightarrow> store \<Rightarrow> (string, observed_row) dict" where
  "list_instance_observed now ts s = filter (\<lambda>(k, r). ob_expires r > at_time ts now) (so_observed s)"

definition prune_instance_observed :: "real \<Rightarrow> real option \<Rightarrow> store \<Rightarrow> nat \<times> store" where
  "prune_instance_observed now ts s =
     (length (filter (\<lambda>(k, r). ob_expires r \<le> at_time ts now) (so_observed s)),
      s\<lparr>so_observed := filter (\<lambda>(k, r). \<not> ob_expires r \<le> at_time ts now) (so_observed s)\<rparr>)"

section \<open>Perf and eval runs\<close>

definition create_perf_run ::
  "real \<Rightarrow> string \<Rightarrow> string \<Rightarrow> string \<Rightarrow> string option \<Rightarrow> real option \<Rightarrow> store \<Rightarrow> int \<times> store" where
  "create_perf_run clock model url params name ts s =
     (let now = or_now ts clock;
          (i, t) = tinsert \<lparr>rn_created = now, rn_name = name, rn_model = model, rn_target = url,
             rn_datasets = None, rn_status = Running, rn_params = params, rn_result = None,
             rn_output = None, rn_error = None, rn_started = Some now, rn_finished = None\<rparr> (so_perf s)
      in (i, s\<lparr>so_perf := t\<rparr>))"

definition finish_row ::
  "run_status \<Rightarrow> string option \<Rightarrow> string option \<Rightarrow> string option \<Rightarrow> real \<Rightarrow> run_row \<Rightarrow> run_row" where
  "finish_row st res out err t r =
     r\<lparr>rn_status := st, rn_result := res, rn_output := out, rn_error := err, rn_finished := Some t\<rparr>"

definition finish_perf_run ::
  "real \<Rightarrow> int \<Rightarrow> run_status \<Rightarrow> string option \<Rightarrow> string option \<Rightarrow> string option \<Rightarrow> real option \<Rightarrow>
   store \<Rightarrow> store" where
  "finish_perf_run now rid st res out err ts s =
     s\<lparr>so_perf := snd (tupdate (\<lambda>i _. i = rid) (finish_row st res out err (or_now ts now)) (so_perf s))\<rparr>"

definition list_perf_runs :: "nat \<Rightarrow> store \<Rightarrow> (int \<times> run_row) list" where
  "list_perf_runs n s = tselect (\<lambda>_ _. True) n (so_perf s)"

definition get_perf_run :: "int \<Rightarrow> store \<Rightarrow> run_row option" where
  "get_perf_run rid s = tget rid (so_perf s)"

definition delete_perf_run :: "int \<Rightarrow> store \<Rightarrow> bool \<times> store" where
  "delete_perf_run rid s = (let (n, t) = tdelete (\<lambda>i _. i = rid) (so_perf s) in (n > 0, s\<lparr>so_perf := t\<rparr>))"

definition stale_row :: "run_row \<Rightarrow> run_row" where
  "stale_row r = r\<lparr>rn_status := Failed, rn_error := Some ''interrupted by restart''\<rparr>"

definition mark_stale_perf_runs :: "store \<Rightarrow> store" where
  "mark_stale_perf_runs s = s\<lparr>so_perf := snd (tupdate (\<lambda>_ r. rn_status r = Running) stale_row (so_perf s))\<rparr>"

definition create_eval_run ::
  "real \<Rightarrow> string \<Rightarrow> string \<Rightarrow> string \<Rightarrow> string \<Rightarrow> string option \<Rightarrow> real option \<Rightarrow> run_status \<Rightarrow>
   store \<Rightarrow> int \<times> store" where
  "create_eval_run clock model url datasets params name ts status s =
     (let now = or_now ts clock;
          (i, t) = tinsert \<lparr>rn_created = now, rn_name = name, rn_model = model, rn_target = url,
             rn_datasets = Some datasets, rn_status = status, rn_params = params, rn_result = None,
             rn_output = None, rn_error = None,
             rn_started = (if status = Queued then None else Some now), rn_finished = None\<rparr> (so_eval s)
      in (i, s\<lparr>so_eval := t\<rparr>))"

definition start_eval_run :: "real \<Rightarrow> int \<Rightarrow> real option \<Rightarrow> store \<Rightarrow> store" where
  "start_eval_run now rid ts s =
     s\<lparr>so_eval := snd (tupdate (\<lambda>i r. i = rid \<and> rn_status r = Queued)
         (\<lambda>r. r\<lparr>rn_status := Running, rn_started := Some (or_now ts now)\<rparr>) (so_eval s))\<rparr>"

definition finish_eval_run ::
  "real \<Rightarrow> int \<Rightarrow> run_status \<Rightarrow> string option \<Rightarrow> string option \<Rightarrow> string option \<Rightarrow> real option \<Rightarrow>
   store \<Rightarrow> store" where
  "finish_eval_run now rid st res out err ts s =
     s\<lparr>so_eval := snd (tupdate (\<lambda>i _. i = rid) (finish_row st res out err (or_now ts now)) (so_eval s))\<rparr>"

definition list_eval_runs :: "nat \<Rightarrow> store \<Rightarrow> (int \<times> run_row) list" where
  "list_eval_runs n s = tselect (\<lambda>_ _. True) n (so_eval s)"

definition get_eval_run :: "int \<Rightarrow> store \<Rightarrow> run_row option" where
  "get_eval_run rid s = tget rid (so_eval s)"

definition delete_eval_run :: "int \<Rightarrow> store \<Rightarrow> bool \<times> store" where
  "delete_eval_run rid s = (let (n, t) = tdelete (\<lambda>i _. i = rid) (so_eval s) in (n > 0, s\<lparr>so_eval := t\<rparr>))"

definition mark_stale_eval_runs :: "store \<Rightarrow> store" where
  "mark_stale_eval_runs s =
     s\<lparr>so_eval := snd (tupdate (\<lambda>_ r. rn_status r = Running \<or> rn_status r = Queued) stale_row (so_eval s))\<rparr>"

section \<open>Tables: lemmas\<close>

text \<open>Ids are unique and below the next one.\<close>

definition table_ok :: "'r table \<Rightarrow> bool" where
  "table_ok t = (distinct (map fst (tb_rows t)) \<and> (\<forall>(i, r) \<in> set (tb_rows t). i < tb_next t))"

lemma table_ok_empty [simp]: "table_ok empty_table"
  by (simp add: table_ok_def empty_table_def)

lemma table_ok_insert: "table_ok t \<Longrightarrow> table_ok (snd (tinsert r t))"
  by (force simp: table_ok_def tinsert_def)

lemma update_ids: "map fst (tb_rows (snd (tupdate P f t))) = map fst (tb_rows t)"
  by (simp add: tupdate_def case_prod_unfold o_def)

lemma table_ok_ids: "table_ok t = (distinct (map fst (tb_rows t)) \<and> (\<forall>i \<in> set (map fst (tb_rows t)). i < tb_next t))"
  by (auto simp: table_ok_def)

lemma table_ok_update: "table_ok t \<Longrightarrow> table_ok (snd (tupdate P f t))"
  unfolding table_ok_ids update_ids by (simp add: tupdate_def)

lemma table_ok_delete: "table_ok t \<Longrightarrow> table_ok (snd (tdelete P t))"
  by (auto simp: table_ok_def tdelete_def intro: distinct_map_filter)

lemma table_ok_prune: "table_ok t \<Longrightarrow> table_ok (snd (tprune n t))"
  by (auto simp: table_ok_def tprune_def drop_map [symmetric] intro: distinct_drop dest: in_set_dropD)

lemma tget_insert: "table_ok t \<Longrightarrow> tget i (snd (tinsert r t)) = (if i = tb_next t then Some r else tget i t)"
proof -
  assume "table_ok t"
  then have "map_of (tb_rows t) (tb_next t) = None"
    by (auto simp: table_ok_def map_of_eq_None_iff)
  then show ?thesis
    by (simp add: tget_def tinsert_def map_add_def split: option.split)
qed

lemma tget_update: "tget i (snd (tupdate P f t)) = map_option (\<lambda>r. if P i r then f r else r) (tget i t)"
proof -
  have "map_of (map (\<lambda>(i, r). (i, if P i r then f r else r)) rows) i =
      map_option (\<lambda>r. if P i r then f r else r) (map_of rows i)" for rows
    by (induction rows) auto
  then show ?thesis by (simp add: tget_def tupdate_def)
qed

lemma tselect_latest:
  "tselect (\<lambda>_ _. True) 1 t = (if tb_rows t = [] then [] else [last (tb_rows t)])"
  by (cases "tb_rows t" rule: rev_cases) (simp_all add: tselect_def case_prod_unfold)

lemma tprune_last:
  assumes "0 < n" "tb_rows t \<noteq> []"
  shows "tb_rows (snd (tprune n t)) \<noteq> []" "last (tb_rows (snd (tprune n t))) = last (tb_rows t)"
proof -
  have "length (tb_rows t) - n < length (tb_rows t)" using assms by simp
  then show "tb_rows (snd (tprune n t)) \<noteq> []" "last (tb_rows (snd (tprune n t))) = last (tb_rows t)"
    by (simp_all add: tprune_def last_drop)
qed

section \<open>Leased rows\<close>

text \<open>
  A leased table is an expiring mark whose lapsed rows may be pruned at any time: a prune is
  invisible to every read at the same or a later instant.
\<close>

locale leased_table = expiring_mark marked mark clear
  for marked :: "real \<Rightarrow> 's \<Rightarrow> 'k \<Rightarrow> bool"
    and mark :: "real \<Rightarrow> real \<Rightarrow> 'k \<Rightarrow> 's \<Rightarrow> 's"
    and clear :: "'k \<Rightarrow> 's \<Rightarrow> 's" +
  fixes prune :: "real \<Rightarrow> 's \<Rightarrow> 's"
    and well :: "'s \<Rightarrow> bool"
  assumes prune_invisible: "well s \<Longrightarrow> t' \<le> t \<Longrightarrow> marked t (prune t' s) k = marked t s k"
    and well_mark: "well s \<Longrightarrow> well (mark now ttl k s)"
    and well_prune: "well s \<Longrightarrow> well (prune t s)"
begin

lemma heartbeat_survives_prunes:
  assumes "well s" "t' \<le> t" "t < now + ttl"
  shows "marked t (prune t' (mark now ttl k s)) k"
  using prune_invisible [OF well_mark [OF assms(1)] assms(2)] marked_mark assms(3) by blast

lemma dead_after_prunes:
  assumes "well s" "sorted ts" "\<forall>u \<in> set ts. u \<le> t" "\<not> marked t s k"
  shows "\<not> marked t (fold prune ts s) k"
  using assms
proof (induction ts arbitrary: s)
  case Nil
  then show ?case by simp
next
  case (Cons u ts)
  then show ?case using prune_invisible [of s u t k] well_prune by simp
qed

end

definition lists_key :: "('k, 'v) dict \<Rightarrow> 'k \<Rightarrow> bool" where
  "lists_key d k = (k \<in> fst ` set d)"

lemma map_of_filter_value:
  "dict_ok d \<Longrightarrow> map_of (filter (\<lambda>(k, v). P v) d) k = (case map_of d k of Some v \<Rightarrow> if P v then Some v else None | None \<Rightarrow> None)"
proof (induction d)
  case Nil
  then show ?case by simp
next
  case (Cons p d)
  obtain a b where p: "p = (a, b)" by (cases p)
  have ok: "dict_ok d" and fresh: "map_of d a = None"
    using Cons.prems by (auto simp: p dict_ok_def map_of_eq_None_iff)
  then show ?case using Cons.IH [OF ok] by (auto simp: p split: option.splits)
qed

lemma dict_ok_filter: "dict_ok d \<Longrightarrow> dict_ok (filter P d)"
  by (simp add: dict_ok_def distinct_map_filter)

definition live_now :: "real \<Rightarrow> store \<Rightarrow> string \<Rightarrow> bool" where
  "live_now t s k = (case map_of (so_live s) k of None \<Rightarrow> False | Some r \<Rightarrow> t < lv_expires r)"

definition observed_now :: "real \<Rightarrow> store \<Rightarrow> string \<Rightarrow> bool" where
  "observed_now t s k = (case map_of (so_observed s) k of None \<Rightarrow> False | Some r \<Rightarrow> t < ob_expires r)"

definition draining_now :: "real \<Rightarrow> store \<Rightarrow> string \<Rightarrow> bool" where
  "draining_now t s k = (case map_of (so_draining s) k of None \<Rightarrow> False | Some e \<Rightarrow> t < e)"

lemma list_live_iff:
  "dict_ok (so_live s) \<Longrightarrow> dhas (list_instances_live t None s) k = live_now t s k"
  by (simp add: dhas_def list_instances_live_def live_now_def at_time_def map_of_filter_value split: option.split)

lemma list_draining_iff: "dict_ok (so_draining s) \<Longrightarrow> dhas (list_draining t None s) k = draining_now t s k"
  by (simp add: dhas_def list_draining_def draining_now_def at_time_def map_of_filter_value split: option.split)

interpretation live: leased_table live_now
  "\<lambda>now ttl k s. upsert_instance_live now k g i h p ttl n st None s" remove_instance_live
  "\<lambda>t s. snd (prune_instances_live t None s)" "\<lambda>s. dict_ok (so_live s)"
  by unfold_locales
    (auto simp: live_now_def upsert_instance_live_def remove_instance_live_def prune_instances_live_def
      at_time_def map_of_filter_value dict_ok_filter split: option.splits)

interpretation observed: leased_table observed_now
  "\<lambda>now ttl k s. upsert_instance_observed now k n st v ttl None s" remove_instance_observed
  "\<lambda>t s. snd (prune_instance_observed t None s)" "\<lambda>s. dict_ok (so_observed s)"
  by unfold_locales
    (auto simp: observed_now_def upsert_instance_observed_def remove_instance_observed_def
      prune_instance_observed_def at_time_def map_of_filter_value dict_ok_filter split: option.splits)

interpretation drain_row: expiring_mark draining_now
  "\<lambda>now ttl k s. set_draining now k ttl None s" store_clear_draining
  by unfold_locales
    (auto simp: draining_now_def set_draining_def store_clear_draining_def at_time_def split: option.splits)

section \<open>The lease interface\<close>

text \<open>
  A contended lease: an acquire renews or takes a free or lapsed lease and otherwise changes
  nothing; its answer says who holds it now.  The client lemma is mutual exclusion over any run.
\<close>

datatype 'h lease_step = Acquire real 'h | Release 'h

fun run_lease ::
  "(real \<Rightarrow> 'h \<Rightarrow> 's \<Rightarrow> bool \<times> 's) \<Rightarrow> ('h \<Rightarrow> 's \<Rightarrow> 's) \<Rightarrow> 'h lease_step list \<Rightarrow> 's \<Rightarrow> 's" where
  "run_lease acq rel [] s = s"
| "run_lease acq rel (Acquire now h # ss) s = run_lease acq rel ss (snd (acq now h s))"
| "run_lease acq rel (Release h # ss) s = run_lease acq rel ss (rel h s)"

definition lease_kept :: "('s \<Rightarrow> ('h \<times> real) option) \<Rightarrow> 'h \<Rightarrow> real \<Rightarrow> 's \<Rightarrow> bool" where
  "lease_kept held h d s = (\<exists>ex. held s = Some (h, ex) \<and> d \<le> ex)"

text \<open>The steps of others, and renewals of the holder, while the lease of \<open>h\<close> runs.\<close>

definition calm :: "'h \<Rightarrow> real \<Rightarrow> real \<Rightarrow> 'h lease_step \<Rightarrow> bool" where
  "calm h t0 t1 st = (case st of Acquire now g \<Rightarrow> t0 \<le> now \<and> now < t1 | Release g \<Rightarrow> g \<noteq> h)"

locale lease =
  fixes held_by :: "'s \<Rightarrow> ('h \<times> real) option"
    and acquire :: "real \<Rightarrow> 'h \<Rightarrow> 's \<Rightarrow> bool \<times> 's"
    and release :: "'h \<Rightarrow> 's \<Rightarrow> 's"
    and ttl :: real
  assumes acquire_state: "held_by (snd (acquire now h s)) =
      (case held_by s of
         Some (g, ex) \<Rightarrow> if g \<noteq> h \<and> now \<le> ex then Some (g, ex) else Some (h, now + ttl)
       | None \<Rightarrow> Some (h, now + ttl))"
    and acquire_answer: "fst (acquire now h s) =
      (case held_by (snd (acquire now h s)) of None \<Rightarrow> False | Some (g, ex) \<Rightarrow> g = h \<and> now < ex)"
    and release_state: "held_by (release h s) =
      (case held_by s of Some (g, ex) \<Rightarrow> if g = h then None else Some (g, ex) | None \<Rightarrow> None)"
    and ttl_pos: "0 < ttl"
begin

lemma acquired_keeps: "fst (acquire now h s) \<Longrightarrow> lease_kept held_by h (now + ttl) (snd (acquire now h s))"
  using acquire_state [of now h s] acquire_answer [of now h s]
  by (auto simp: lease_kept_def split: option.splits if_splits prod.splits)

lemma keeps_step:
  "lease_kept held_by h (t0 + ttl) s \<Longrightarrow> now < t0 + ttl \<Longrightarrow> t0 \<le> now \<Longrightarrow>
   lease_kept held_by h (t0 + ttl) (snd (acquire now g s))"
  using acquire_state [of now g s] by (auto simp: lease_kept_def split: if_splits)

lemma keeps_release:
  "lease_kept held_by h d s \<Longrightarrow> g \<noteq> h \<Longrightarrow> lease_kept held_by h d (release g s)"
  using release_state [of g s] by (auto simp: lease_kept_def)

lemma keeps_run:
  "lease_kept held_by h (t0 + ttl) s \<Longrightarrow> \<forall>st \<in> set ss. calm h t0 (t0 + ttl) st \<Longrightarrow>
   lease_kept held_by h (t0 + ttl) (run_lease acquire release ss s)"
proof (induction ss arbitrary: s)
  case Nil
  then show ?case by simp
next
  case (Cons st ss)
  then show ?case
    by (cases st) (auto simp: calm_def intro: keeps_step keeps_release)
qed

lemma exclusive:
  assumes "fst (acquire t0 h s)" "\<forall>st \<in> set ss. calm h t0 (t0 + ttl) st"
    and "now < t0 + ttl" "g \<noteq> h"
  shows "\<not> fst (acquire now g (run_lease acquire release ss (snd (acquire t0 h s))))"
proof -
  have "lease_kept held_by h (t0 + ttl) (run_lease acquire release ss (snd (acquire t0 h s)))"
    by (rule keeps_run [OF acquired_keeps [OF assms(1)] assms(2)])
  then show ?thesis
    using acquire_state [of now g "run_lease acquire release ss (snd (acquire t0 h s))"]
      acquire_answer [of now g "run_lease acquire release ss (snd (acquire t0 h s))"] assms(3,4)
    by (auto simp: lease_kept_def)
qed

lemma lapsed_is_free:
  assumes "held_by s = Some (h, ex)" "ex < now"
  shows "fst (acquire now g s)"
  using acquire_state [of now g s] acquire_answer [of now g s] assms ttl_pos by simp

end

text \<open>
  The store's \<open>leader_lease\<close> table, for a fixed role and the elector's time to live
  (\<open>max(2.0, ttl)\<close> in core/leader.py).
\<close>

definition elector_ttl :: "real \<Rightarrow> real" where "elector_ttl t = max 2 t"

lemma elector_ttl_pos: "0 < elector_ttl t" "2 \<le> elector_ttl t"
  by (simp_all add: elector_ttl_def)

interpretation role: lease "get_leader name" "\<lambda>now h s. try_acquire_leader now name h (elector_ttl ttl) None s"
  "\<lambda>h s. snd (release_leader name h s)" "elector_ttl ttl"
proof (unfold_locales, goal_cases)
  case (1 now h s)
  then show ?case by (auto simp: get_leader_def try_acquire_leader_def Let_def at_time_def split: option.splits)
next
  case (2 now h s)
  then show ?case by (simp add: get_leader_def try_acquire_leader_def Let_def at_time_def)
next
  case (3 h s)
  then show ?case by (auto simp: get_leader_def release_leader_def split: option.splits)
next
  case 4
  then show ?case by (rule elector_ttl_pos)
qed

section \<open>Properties of the store\<close>

text \<open>
  C13: At most one leader.  From a replica's successful acquire until its time to live has passed,
  every acquire of another replica fails, whatever the replicas did in between (renewals, attempts,
  releases by others).
\<close>

theorem leader_mutual_exclusion:
  assumes "fst (try_acquire_leader t0 name h (elector_ttl ttl) None s)"
    and "\<forall>st \<in> set steps. calm h t0 (t0 + elector_ttl ttl) st"
    and "now < t0 + elector_ttl ttl" "g \<noteq> h"
  shows "\<not> fst (try_acquire_leader now name g (elector_ttl ttl) None
     (run_lease (\<lambda>now h s. try_acquire_leader now name h (elector_ttl ttl) None s)
        (\<lambda>h s. snd (release_leader name h s)) steps
        (snd (try_acquire_leader t0 name h (elector_ttl ttl) None s))))"
  by (rule role.exclusive [OF assms])

lemma leader_mutual_exclusion_witness:
  "\<not> fst (try_acquire_leader 4 ''cp'' ''b'' (elector_ttl 5) None
     (run_lease (\<lambda>now h s. try_acquire_leader now ''cp'' h (elector_ttl 5) None s)
        (\<lambda>h s. snd (release_leader ''cp'' h s)) [Acquire 1 ''b'', Acquire 2 ''a'', Release ''b'']
        (snd (try_acquire_leader 0 ''cp'' ''a'' (elector_ttl 5) None init_store))))"
  by (rule leader_mutual_exclusion)
    (simp_all add: calm_def elector_ttl_def, simp add: try_acquire_leader_def init_store_def at_time_def Let_def)

text \<open>
  Failover.  Once a holder's lease has lapsed, the next replica that asks becomes the leader.
\<close>

theorem lapsed_lease_is_taken:
  assumes "get_leader name s = Some (h, ex)" "ex < now"
  shows "fst (try_acquire_leader now name g (elector_ttl ttl) None s)"
  by (rule role.lapsed_is_free [OF assms])

lemma lapsed_lease_is_taken_witness:
  "fst (try_acquire_leader 9 ''cp'' ''b'' (elector_ttl 5) None (init_store\<lparr>so_leases := [(''cp'', ''a'', 8)]\<rparr>))"
  by (rule lapsed_lease_is_taken [of _ _ "''a''" 8]) (simp_all add: get_leader_def)

text \<open>
  Pruning lapsed live-address rows is invisible: a heartbeat row is listed until its time to
  live is over however many prunes ran before, and every prune leaves later listings unchanged.
\<close>

theorem live_rows_prune_invisible:
  assumes "dict_ok (so_live s)" "t' \<le> t"
  shows "dhas (list_instances_live t None (snd (prune_instances_live t' None s))) k =
         dhas (list_instances_live t None s) k \<and>
     (t < now + ttl \<longrightarrow> dhas (list_instances_live t None (snd (prune_instances_live t' None
        (upsert_instance_live now k g i h p ttl n st None s)))) k)"
  using live.prune_invisible [OF assms] live.heartbeat_survives_prunes [OF assms] assms(1)
  by (simp add: list_live_iff live.well_prune live.well_mark)

lemma live_rows_prune_invisible_witness:
  "dhas (list_instances_live 5 None (snd (prune_instances_live 4 None
      (upsert_instance_live 0 ''q::a'' ''q'' ''a'' ''h'' 1 10 None None None init_store)))) ''q::a''"
  using live_rows_prune_invisible [of init_store 4 5 "''q::a''" 0 10 "''q''" "''a''" "''h''" 1 None None]
  by (simp add: init_store_def)

text \<open>The history of the config-version table: snapshots recorded and prunes.\<close>

datatype version_op = Snapshot real string string | Prune nat

fun version_run :: "version_op list \<Rightarrow> store \<Rightarrow> store" where
  "version_run [] s = s"
| "version_run (Snapshot now overlay sha # vs) s =
     version_run vs (snd (record_config_version now overlay sha None None None None s))"
| "version_run (Prune n # vs) s = version_run vs (snd (prune_config_versions n s))"

fun last_overlay :: "version_op list \<Rightarrow> string option \<Rightarrow> string option" where
  "last_overlay [] x = x"
| "last_overlay (Snapshot now overlay sha # vs) x = last_overlay vs (Some overlay)"
| "last_overlay (Prune n # vs) x = last_overlay vs x"

definition versions_hashed :: "(string \<Rightarrow> string) \<Rightarrow> store \<Rightarrow> bool" where
  "versions_hashed sha s = (\<forall>(i, r) \<in> set (tb_rows (so_versions s)). cv_sha r = sha (cv_overlay r))"

lemma current_overlay_last:
  "get_current_overlay s =
     (if tb_rows (so_versions s) = [] then None else Some (cv_overlay (snd (last (tb_rows (so_versions s))))))"
  "latest_config_version_hash s =
     (if tb_rows (so_versions s) = [] then None else Some (cv_sha (snd (last (tb_rows (so_versions s))))))"
  unfolding get_current_overlay_def latest_config_version_hash_def tselect_latest
  by (auto simp: case_prod_unfold)

lemma snapshot_current:
  assumes "inj sha" "versions_hashed sha s"
  shows "get_current_overlay (snd (record_config_version now ov (sha ov) a r sm ts s)) = Some ov"
    and "versions_hashed sha (snd (record_config_version now ov (sha ov) a r sm ts s))"
proof -
  show "versions_hashed sha (snd (record_config_version now ov (sha ov) a r sm ts s))"
    using assms(2) by (auto simp: record_config_version_def versions_hashed_def tinsert_def)
  show "get_current_overlay (snd (record_config_version now ov (sha ov) a r sm ts s)) = Some ov"
  proof (cases "latest_config_version_hash s = Some (sha ov)")
    case True
    then have ne: "tb_rows (so_versions s) \<noteq> []" and eq: "cv_sha (snd (last (tb_rows (so_versions s)))) = sha ov"
      by (auto simp: current_overlay_last split: if_splits)
    have "last (tb_rows (so_versions s)) \<in> set (tb_rows (so_versions s))" using ne by simp
    then have "cv_sha (snd (last (tb_rows (so_versions s)))) = sha (cv_overlay (snd (last (tb_rows (so_versions s)))))"
      using assms(2) by (auto simp: versions_hashed_def)
    then have "cv_overlay (snd (last (tb_rows (so_versions s)))) = ov"
      using eq assms(1) by (simp add: inj_eq)
    then show ?thesis using True ne by (simp add: record_config_version_def current_overlay_last)
  next
    case False
    then show ?thesis by (simp add: record_config_version_def current_overlay_last tinsert_def)
  qed
qed

lemma prune_current:
  "0 < n \<Longrightarrow> get_current_overlay (snd (prune_config_versions n s)) = get_current_overlay s"
  using tprune_last [of n "so_versions s"]
  by (cases "tb_rows (so_versions s) = []")
    (auto simp: prune_config_versions_def current_overlay_last case_prod_unfold, simp add: tprune_def)

lemma prune_hashed: "versions_hashed sha s \<Longrightarrow> versions_hashed sha (snd (prune_config_versions n s))"
  by (auto simp: prune_config_versions_def versions_hashed_def tprune_def dest: in_set_dropD)

text \<open>
  The overlay that a fresh replica hydrates is the one of the latest snapshot, although equal
  snapshots are skipped and old ones pruned (the content hash being injective on what is stored).
\<close>

theorem current_overlay_is_latest:
  assumes "inj sha" "versions_hashed sha s"
    and "\<forall>op \<in> set ops. (case op of Snapshot _ ov h \<Rightarrow> h = sha ov | Prune n \<Rightarrow> 0 < n)"
  shows "get_current_overlay (version_run ops s) = last_overlay ops (get_current_overlay s)"
  using assms(2,3)
proof (induction ops arbitrary: s)
  case Nil
  then show ?case by simp
next
  case (Cons op ops)
  show ?case
  proof (cases op)
    case (Snapshot now ov h)
    then have h: "h = sha ov" using Cons.prems(2) by simp
    show ?thesis
      using Cons.IH [OF snapshot_current(2) [OF assms(1) Cons.prems(1)]] Cons.prems(2)
        snapshot_current(1) [OF assms(1) Cons.prems(1)] by (simp add: Snapshot h)
  next
    case (Prune n)
    then show ?thesis
      using Cons.IH [OF prune_hashed [OF Cons.prems(1)], of n] Cons.prems(2) prune_current [of n s] by simp
  qed
qed

lemma current_overlay_is_latest_witness:
  "get_current_overlay (version_run [Snapshot 1 ''x'' ''x'', Snapshot 2 ''y'' ''y'', Prune 1, Snapshot 3 ''y'' ''y''] init_store)
     = Some ''y''"
  by (subst current_overlay_is_latest [of id])
    (simp_all add: versions_hashed_def init_store_def empty_table_def)

lemma round_half_even_mono:
  assumes "x \<le> y"
  shows "round_half_even x \<le> round_half_even y"
proof (cases "\<lfloor>x\<rfloor> = \<lfloor>y\<rfloor>")
  case True
  then show ?thesis using assms by (auto simp: round_half_even_def Let_def)
next
  case False
  then have "\<lfloor>x\<rfloor> + 1 \<le> \<lfloor>y\<rfloor>" using floor_mono [OF assms] by linarith
  moreover have "round_half_even x \<le> \<lfloor>x\<rfloor> + 1" "\<lfloor>y\<rfloor> \<le> round_half_even y"
    by (auto simp: round_half_even_def Let_def)
  ultimately show ?thesis by linarith
qed

lemma percentile_index_less: "0 < n \<Longrightarrow> percentile_index n pct < n"
  by (auto simp: percentile_index_def)

lemma percentile_index_mono: "p \<le> q \<Longrightarrow> percentile_index n p \<le> percentile_index n q"
proof -
  assume pq: "p \<le> q"
  show ?thesis
  proof (cases "n = 0")
    case True
    then show ?thesis by (simp add: percentile_index_def)
  next
    case False
    then have "p / 100 * (real n - 1) \<le> q / 100 * (real n - 1)"
      using pq by (intro mult_right_mono) auto
    from round_half_even_mono [OF this] show ?thesis
      by (auto simp: percentile_index_def intro!: nat_mono max.mono min.mono)
  qed
qed

text \<open>
  The reported latency percentiles are observed values, the 50th never above the 95th.
\<close>

theorem percentile_sound:
  assumes "vals \<noteq> []" "p \<le> q"
  shows "\<exists>a b. percentile vals p = Some a \<and> percentile vals q = Some b \<and> a \<in> set vals \<and> b \<in> set vals \<and> a \<le> b"
proof -
  let ?i = "percentile_index (length vals) p" and ?j = "percentile_index (length vals) q"
  have i: "?i < length (sort vals)" and j: "?j < length (sort vals)"
    using assms(1) percentile_index_less [of "length vals"] by simp_all
  have "sort vals ! ?i \<le> sort vals ! ?j"
    by (rule sorted_nth_mono [OF sorted_sort percentile_index_mono [OF assms(2)] j])
  moreover have "sort vals ! ?i \<in> set vals" "sort vals ! ?j \<in> set vals"
    using nth_mem [OF i] nth_mem [OF j] by simp_all
  ultimately show ?thesis using assms(1) by (simp add: percentile_def)
qed

lemma percentile_sound_witness:
  "\<exists>a b. percentile [3, 1, 2] 50 = Some a \<and> percentile [3, 1, 2] 95 = Some b \<and> a \<le> b"
  using percentile_sound [of "[3, 1, 2]" 50 95] by auto

section \<open>Revoked keys\<close>

datatype key_op =
    MintKey real string string string "int option" "int option" "string option"
  | RevokeKey int
  | TouchKey real int

text \<open>A mint that hits the UNIQUE constraint raises and leaves the table as it was.\<close>

fun key_step :: "key_op \<Rightarrow> store \<Rightarrow> store" where
  "key_step (MintKey now name h prefix rpm q per) s =
     (case create_api_key now name h prefix rpm q per None s of None \<Rightarrow> s | Some (i, s') \<Rightarrow> s')"
| "key_step (RevokeKey i) s = snd (revoke_api_key i s)"
| "key_step (TouchKey now i) s = touch_api_key now i None s"

definition keys_ok :: "store \<Rightarrow> bool" where
  "keys_ok s = (table_ok (so_keys s) \<and> distinct (map (\<lambda>(i, r). ak_hash r) (tb_rows (so_keys s))))"

definition key_dead :: "string \<Rightarrow> store \<Rightarrow> bool" where
  "key_dead h s =
     ((\<exists>(i, r) \<in> set (tb_rows (so_keys s)). ak_hash r = h) \<and>
      (\<forall>(i, r) \<in> set (tb_rows (so_keys s)). ak_hash r = h \<longrightarrow> ak_revoked r))"

lemma update_hashes:
  "(\<And>r. ak_hash (f r) = ak_hash r) \<Longrightarrow>
   map (\<lambda>(i, r). ak_hash r) (tb_rows (snd (tupdate P f t))) = map (\<lambda>(i, r). ak_hash r) (tb_rows t)"
  by (auto simp: tupdate_def)

lemma update_mem:
  "(i, r') \<in> set (tb_rows (snd (tupdate P f t))) \<longleftrightarrow>
   (\<exists>r. (i, r) \<in> set (tb_rows t) \<and> r' = (if P i r then f r else r))"
  by (force simp: tupdate_def image_iff)

lemma revoke_state:
  "snd (revoke_api_key k s) =
     s\<lparr>so_keys := snd (tupdate (\<lambda>i r. i = k \<and> \<not> ak_revoked r) (ak_revoked_update (\<lambda>_. True)) (so_keys s))\<rparr>"
  by (simp add: revoke_api_key_def Let_def case_prod_unfold)

lemma keys_ok_step: "keys_ok s \<Longrightarrow> keys_ok (key_step op s)"
proof (cases op)
  case (MintKey now name h prefix rpm q per)
  assume "keys_ok s"
  then show ?thesis
    using MintKey table_ok_insert [of "so_keys s"]
    by (auto simp: keys_ok_def create_api_key_def tinsert_def Let_def split: prod.splits)
next
  case (RevokeKey i)
  assume "keys_ok s"
  then show ?thesis
    using RevokeKey by (simp add: keys_ok_def revoke_state table_ok_update update_hashes)
next
  case (TouchKey now i)
  assume "keys_ok s"
  then show ?thesis
    using TouchKey by (simp add: keys_ok_def touch_api_key_def table_ok_update update_hashes)
qed

lemma keys_ok_run: "keys_ok s \<Longrightarrow> keys_ok (fold key_step ops s)"
  by (induction ops arbitrary: s) (auto simp: keys_ok_step)

lemma key_dead_update:
  assumes f: "\<And>r. ak_hash (f r) = ak_hash r" "\<And>r. ak_revoked r \<Longrightarrow> ak_revoked (f r)" and dead: "key_dead h s"
  shows "key_dead h (s\<lparr>so_keys := snd (tupdate P f (so_keys s))\<rparr>)"
proof -
  obtain i r where ir: "(i, r) \<in> set (tb_rows (so_keys s))" "ak_hash r = h"
    using dead by (auto simp: key_dead_def)
  have "(i, if P i r then f r else r) \<in> set (tb_rows (snd (tupdate P f (so_keys s))))"
    unfolding update_mem using ir(1) by blast
  moreover have "ak_hash (if P i r then f r else r) = h" using ir(2) f(1) by simp
  moreover have "ak_revoked q" if q: "(j, q) \<in> set (tb_rows (snd (tupdate P f (so_keys s))))" "ak_hash q = h" for j q
  proof -
    obtain q0 where q0: "(j, q0) \<in> set (tb_rows (so_keys s))" "q = (if P j q0 then f q0 else q0)"
      using q(1) unfolding update_mem by blast
    then have "ak_hash q0 = h" using q(2) f(1) by (auto split: if_splits)
    then have "ak_revoked q0" using dead q0(1) by (auto simp: key_dead_def)
    then show ?thesis using q0(2) f(2) by simp
  qed
  ultimately show ?thesis unfolding key_dead_def by auto
qed

lemma key_dead_step: "key_dead h s \<Longrightarrow> key_dead h (key_step op s)"
proof (cases op)
  case (MintKey now name h' prefix rpm q per)
  assume "key_dead h s"
  then show ?thesis
    using MintKey by (auto simp: key_dead_def create_api_key_def tinsert_def Let_def split: prod.splits)
next
  case (RevokeKey i)
  assume "key_dead h s"
  then show ?thesis
    using RevokeKey by (simp add: revoke_state key_dead_update)
next
  case (TouchKey now i)
  assume "key_dead h s"
  then show ?thesis
    using TouchKey by (simp add: touch_api_key_def key_dead_update)
qed

lemma key_dead_run: "key_dead h s \<Longrightarrow> key_dead h (fold key_step ops s)"
  by (induction ops arbitrary: s) (auto simp: key_dead_step)

lemma find_mem: "find P xs = Some x \<Longrightarrow> x \<in> set xs \<and> P x"
  by (induction xs) (auto split: if_splits)

lemma key_dead_lookup: "key_dead h s \<Longrightarrow> get_active_api_key_by_hash s h = None"
proof -
  assume dead: "key_dead h s"
  show ?thesis
  proof (cases "find (\<lambda>(i, r). ak_hash r = h) (tb_rows (so_keys s))")
    case None
    then show ?thesis by (simp add: get_active_api_key_by_hash_def)
  next
    case (Some p)
    obtain i r where p: "p = (i, r)" by (cases p)
    have "(i, r) \<in> set (tb_rows (so_keys s))" "ak_hash r = h"
      using find_mem [OF Some] by (simp_all add: p)
    then have "ak_revoked r" using dead unfolding key_dead_def by blast
    then show ?thesis by (simp add: get_active_api_key_by_hash_def Some p)
  qed
qed

lemma revoke_kills:
  assumes "keys_ok s" "tget i (so_keys s) = Some r" "\<not> ak_revoked r"
  shows "fst (revoke_api_key i s)" "key_dead (ak_hash r) (snd (revoke_api_key i s))"
proof -
  have mem: "(i, r) \<in> set (tb_rows (so_keys s))"
    using assms(2) by (auto simp: tget_def dest: map_of_SomeD)
  then show "fst (revoke_api_key i s)"
    using assms(3) by (auto simp: revoke_api_key_def tupdate_def filter_empty_conv)
  have uniq: "j = i" if "(j, q) \<in> set (tb_rows (so_keys s))" "ak_hash q = ak_hash r" for j q
    using assms(1) mem that unfolding keys_ok_def by (auto simp: distinct_map inj_on_def)
  let ?t = "snd (tupdate (\<lambda>j r. j = i \<and> \<not> ak_revoked r) (ak_revoked_update (\<lambda>_. True)) (so_keys s))"
  have "(i, r\<lparr>ak_revoked := True\<rparr>) \<in> set (tb_rows ?t)"
    unfolding update_mem using mem assms(3) by (intro exI [of _ r]) simp
  moreover have "ak_revoked q" if q: "(j, q) \<in> set (tb_rows ?t)" "ak_hash q = ak_hash r" for j q
  proof -
    obtain q0 where q0: "(j, q0) \<in> set (tb_rows (so_keys s))"
      "q = (if j = i \<and> \<not> ak_revoked q0 then q0\<lparr>ak_revoked := True\<rparr> else q0)"
      using q(1) unfolding update_mem by auto
    then have "ak_hash q0 = ak_hash r" using q(2) by (auto split: if_splits)
    then show ?thesis using uniq [OF q0(1)] q0(2) by auto
  qed
  moreover have "ak_hash (r\<lparr>ak_revoked := True\<rparr>) = ak_hash r" by simp
  ultimately have "(\<exists>(j, q) \<in> set (tb_rows ?t). ak_hash q = ak_hash r)"
    "(\<forall>(j, q) \<in> set (tb_rows ?t). ak_hash q = ak_hash r \<longrightarrow> ak_revoked q)"
    by blast+
  then show "key_dead (ak_hash r) (snd (revoke_api_key i s))"
    by (simp add: key_dead_def revoke_state)
qed

text \<open>
  C25: Revocation is final in the store.  In every store that minting, revoking and touching keys can
  produce, revoking an active key reports success and its token is never accepted again by the
  router's key lookup, whatever key operations follow.
\<close>

theorem revoked_key_stays_dead:
  assumes "s = fold key_step ops init_store" "tget i (so_keys s) = Some r" "\<not> ak_revoked r"
  shows "fst (revoke_api_key i s) \<and>
     st_key_by_hash (auth_view (fold key_step ops' (snd (revoke_api_key i s)))) (ak_hash r) = None"
proof -
  have "keys_ok init_store" by (simp add: keys_ok_def init_store_def empty_table_def table_ok_def)
  then have ok: "keys_ok s" unfolding assms(1) by (rule keys_ok_run)
  show ?thesis
    using revoke_kills [OF ok assms(2,3)] key_dead_lookup [OF key_dead_run, of "ak_hash r"]
    by (simp add: auth_view_def)
qed

lemma revoked_key_stays_dead_witness:
  "fst (revoke_api_key 1 (fold key_step [MintKey 1 ''app'' ''h'' ''sk'' None None None] init_store)) \<and>
   st_key_by_hash (auth_view (fold key_step [MintKey 3 ''app'' ''h'' ''sk'' None None None]
     (snd (revoke_api_key 1 (fold key_step [MintKey 1 ''app'' ''h'' ''sk'' None None None] init_store))))) ''h'' = None"
proof -
  obtain r where r: "tget 1 (so_keys (fold key_step [MintKey 1 ''app'' ''h'' ''sk'' None None None] init_store)) = Some r"
    "\<not> ak_revoked r" "ak_hash r = ''h''"
    by (simp add: create_api_key_def init_store_def empty_table_def tinsert_def tget_def)
  show ?thesis
    using revoked_key_stays_dead [OF refl r(1,2)] unfolding r(3) .
qed

end
