(* ===== verification/Lifecycle.thy ===== *)
theory Lifecycle
  imports Group_Config Ops_Store
begin

text \<open>
  The vocabulary of the model lifecycle in apps/backend/app/llmops: the enumerations of state.py,
  the records of instance.py, the registry of registry.py, the transition funnel of events.py and
  the alert dispatcher of notifier.py.  A process handle is its pid; whether it still runs is the
  operating system's part of the state (\<open>node\<close>), so that a handle may outlive its process and a
  process its handle.  Alerts that are sent are collected in a list, each with its time and sink;
  the calls to the router, the engines and the operating system in a log, in order.
\<close>

section \<open>States and records\<close>

datatype model_state = STOPPED | STARTING | READY | SLEEPING | FAILED | STOPPING
datatype model_kind = LLM | EMBEDDING
datatype desired = RUNNING | ASLEEP | D_STOPPED

fun state_value :: "model_state \<Rightarrow> string" where
  "state_value STOPPED = ''stopped''"
| "state_value STARTING = ''starting''"
| "state_value READY = ''ready''"
| "state_value SLEEPING = ''sleeping''"
| "state_value FAILED = ''failed''"
| "state_value STOPPING = ''stopping''"

fun kind_value :: "model_kind \<Rightarrow> string" where
  "kind_value LLM = ''llm''"
| "kind_value EMBEDDING = ''embedding''"

fun desired_value :: "desired \<Rightarrow> string" where
  "desired_value RUNNING = ''running''"
| "desired_value ASLEEP = ''asleep''"
| "desired_value D_STOPPED = ''stopped''"

lemma desired_value_inj: "desired_value a = desired_value b \<longleftrightarrow> a = b"
  by (cases a; cases b) simp_all

record launch_spec =
  ls_key :: string
  ls_kind :: model_kind
  ls_command :: "string list"
  ls_env :: "(string, string) dict"
  ls_log :: string
  ls_host :: string
  ls_port :: int
  ls_probe :: string
  ls_engine :: string
  ls_caps :: "string list"
  ls_model_tag :: "string option"
  ls_sleep :: bool

record minst =
  mi_key :: string
  mi_kind :: model_kind
  mi_host :: string
  mi_port :: int
  mi_spec :: launch_spec
  mi_model_tag :: "string option"
  mi_engine :: string
  mi_desired :: desired
  mi_state :: model_state
  mi_proc :: "nat option"
  mi_managed :: bool
  mi_pid :: "nat option"
  mi_error :: "string option"
  mi_log :: "string option"
  mi_started :: "real option"
  mi_ready :: "real option"
  mi_updated :: real
  mi_restarts :: nat
  mi_next_restart :: "real option"
  mi_was_failed :: bool
  mi_log_size :: int
  mi_progress :: "real option"

definition new_instance :: "real \<Rightarrow> string \<Rightarrow> model_kind \<Rightarrow> launch_spec \<Rightarrow> minst" where
  "new_instance now key kind spec =
     \<lparr>mi_key = key, mi_kind = kind, mi_host = ls_host spec, mi_port = ls_port spec, mi_spec = spec,
      mi_model_tag = ls_model_tag spec, mi_engine = ls_engine spec, mi_desired = D_STOPPED,
      mi_state = STOPPED, mi_proc = None, mi_managed = False, mi_pid = None, mi_error = None,
      mi_log = Some (ls_log spec), mi_started = None, mi_ready = None, mi_updated = now,
      mi_restarts = 0, mi_next_restart = None, mi_was_failed = False, mi_log_size = 0,
      mi_progress = None\<rparr>"

definition touch :: "real \<Rightarrow> minst \<Rightarrow> minst" where
  "touch now i = i\<lparr>mi_updated := now\<rparr>"

definition set_state :: "real \<Rightarrow> model_state \<Rightarrow> minst \<Rightarrow> minst" where
  "set_state now st i =
     touch now ((if st = READY \<and> mi_state i \<noteq> READY then i\<lparr>mi_ready := Some now\<rparr> else i)\<lparr>mi_state := st\<rparr>)"

record observed_view =
  ov_key :: string
  ov_kind :: string
  ov_engine :: string
  ov_model_tag :: "string option"
  ov_host :: string
  ov_port :: int
  ov_state :: string
  ov_desired :: string
  ov_managed :: bool
  ov_pid :: "nat option"
  ov_error :: "string option"
  ov_started :: "real option"
  ov_ready :: "real option"
  ov_updated :: real
  ov_restarts :: nat

definition observed_dict :: "minst \<Rightarrow> observed_view" where
  "observed_dict i =
     \<lparr>ov_key = mi_key i, ov_kind = kind_value (mi_kind i), ov_engine = mi_engine i,
      ov_model_tag = mi_model_tag i, ov_host = mi_host i, ov_port = mi_port i,
      ov_state = state_value (mi_state i), ov_desired = desired_value (mi_desired i),
      ov_managed = mi_managed i, ov_pid = mi_pid i, ov_error = mi_error i, ov_started = mi_started i,
      ov_ready = mi_ready i, ov_updated = mi_updated i, ov_restarts = mi_restarts i\<rparr>"

section \<open>The registry\<close>

type_synonym registry = "(string, minst) dict"

definition reg_add :: "minst \<Rightarrow> registry \<Rightarrow> registry" where
  "reg_add i r = dset (mi_key i) i r"

definition reg_remove :: "string \<Rightarrow> registry \<Rightarrow> registry" where
  "reg_remove key r = dpop key r"

definition reg_get :: "registry \<Rightarrow> string \<Rightarrow> minst option" where
  "reg_get r key = map_of r key"

definition reg_values :: "registry \<Rightarrow> minst list" where
  "reg_values r = map snd r"

text \<open>Every record is filed under its own key, once.\<close>

definition reg_ok :: "registry \<Rightarrow> bool" where
  "reg_ok r = (dict_ok r \<and> (\<forall>(k, i) \<in> set r. mi_key i = k))"

text \<open>A mutation of the live record behind a key.\<close>

definition reg_upd :: "string \<Rightarrow> (minst \<Rightarrow> minst) \<Rightarrow> registry \<Rightarrow> registry" where
  "reg_upd key f r = (case map_of r key of None \<Rightarrow> r | Some i \<Rightarrow> dset key (f i) r)"

section \<open>Settings\<close>

record settings =
  se_auto_restart :: bool
  se_max_restarts :: nat
  se_backoff_base :: real
  se_start_timeout :: real
  se_stop_timeout :: real
  se_drain_timeout :: real
  se_drain_poll :: real
  se_instance_id :: string
  se_node_host :: string
  se_live_ttl :: real
  se_node_engines :: "string list"
  se_vram_guard :: bool
  se_alert_floor :: string
  se_slack :: string
  se_discord :: string
  se_webhook :: string

section \<open>Alerts\<close>

record alert =
  al_event :: string
  al_severity :: string
  al_model :: string
  al_kind :: string
  al_detail :: "string option"
  al_restarts :: nat

record sink =
  si_type :: string
  si_url :: string
  si_min :: string

definition severity_rank :: "string \<Rightarrow> nat" where
  "severity_rank s =
     (if s = ''warning'' then 1 else if s = ''error'' then 2 else if s = ''critical'' then 3 else 0)"

record notifier =
  no_sinks :: "sink list"
  no_cooldown :: real
  no_last :: "(string \<times> string, real) dict"
  no_sent :: "(real \<times> sink \<times> alert) list"

text \<open>True if an identical (model, event) fired within the cooldown; otherwise the slot is taken.\<close>

definition suppressed :: "real \<Rightarrow> alert \<Rightarrow> notifier \<Rightarrow> bool \<times> notifier" where
  "suppressed now ev n =
     (let key = (al_model ev, al_event ev) in
      if (case map_of (no_last n) key of None \<Rightarrow> False | Some t \<Rightarrow> now - t < no_cooldown n)
      then (True, n) else (False, n\<lparr>no_last := dset key now (no_last n)\<rparr>))"

definition notify :: "real \<Rightarrow> alert \<Rightarrow> notifier \<Rightarrow> notifier" where
  "notify now ev n =
     (let elig = filter (\<lambda>s. severity_rank (al_severity ev) \<ge> severity_rank (si_min s)) (no_sinks n) in
      if elig = [] then n
      else case suppressed now ev n of
             (True, n') \<Rightarrow> n'
           | (False, n') \<Rightarrow> n'\<lparr>no_sent := no_sent n' @ map (\<lambda>s. (now, s, ev)) elig\<rparr>)"

definition env_sinks :: "settings \<Rightarrow> sink list" where
  "env_sinks se =
     (if se_slack se \<noteq> [] then [\<lparr>si_type = ''slack'', si_url = se_slack se, si_min = se_alert_floor se\<rparr>] else []) @
     (if se_discord se \<noteq> [] then [\<lparr>si_type = ''discord'', si_url = se_discord se, si_min = se_alert_floor se\<rparr>] else []) @
     (if se_webhook se \<noteq> [] then [\<lparr>si_type = ''webhook'', si_url = se_webhook se, si_min = se_alert_floor se\<rparr>] else [])"

definition refresh_sinks :: "settings \<Rightarrow> store option \<Rightarrow> notifier \<Rightarrow> notifier" where
  "refresh_sinks se st n =
     n\<lparr>no_sinks := env_sinks se @
        (case st of None \<Rightarrow> []
         | Some s \<Rightarrow> map (\<lambda>(i, r). \<lparr>si_type = sk_type r, si_url = sk_url r, si_min = sk_min_severity r\<rparr>)
                       (list_alert_sinks s))\<rparr>"

section \<open>The transition funnel\<close>

definition classify_event ::
  "settings \<Rightarrow> minst \<Rightarrow> model_state \<Rightarrow> string option \<Rightarrow> alert option" where
  "classify_event se i to_state detail =
     (if to_state = FAILED then
        (let gave_up = (mi_managed i \<and> mi_desired i = RUNNING \<and> se_auto_restart se \<and>
                        mi_restarts i \<ge> se_max_restarts se \<and> mi_next_restart i = None)
         in Some \<lparr>al_event = (if gave_up then ''model_gave_up'' else ''model_failed''),
                  al_severity = (if gave_up then ''critical'' else ''error''),
                  al_model = mi_key i, al_kind = kind_value (mi_kind i),
                  al_detail = (case detail of Some d \<Rightarrow> if d = [] then mi_error i else Some d | None \<Rightarrow> mi_error i),
                  al_restarts = mi_restarts i\<rparr>)
      else if to_state = READY \<and> mi_was_failed i then
        Some \<lparr>al_event = ''model_recovered'', al_severity = ''info'', al_model = mi_key i,
              al_kind = kind_value (mi_kind i), al_detail = None, al_restarts = mi_restarts i\<rparr>
      else None)"

text \<open>
  The node: this backend's registry, the operating system's processes (alive, or exited with a
  code), the shared store (\<open>None\<close> when there is none or it cannot be reached), the notifier, the
  merged configuration, the overlay file, whether the store is a shared Postgres (\<open>db_url\<close>), and
  the log of the calls made.
\<close>

datatype call =
    RouterReload
  | RouterDrain string
  | RouterUndrain string
  | EngineSleep string
  | EngineWake string
  | LoraLoad string string
  | LoraUnload string string
  | Spawned string nat
  | Killed nat

record node =
  nd_reg :: registry
  nd_procs :: "(nat, int option) dict"
  nd_next_pid :: nat
  nd_store :: "store option"
  nd_notifier :: "notifier option"
  nd_config :: root_cfg
  nd_overlay :: root_cfg
  nd_pg :: bool
  nd_log :: "call list"

definition on_store :: "(store \<Rightarrow> store) \<Rightarrow> node \<Rightarrow> node" where
  "on_store f n = n\<lparr>nd_store := map_option f (nd_store n)\<rparr>"

definition on_inst :: "string \<Rightarrow> (minst \<Rightarrow> minst) \<Rightarrow> node \<Rightarrow> node" where
  "on_inst key f n = n\<lparr>nd_reg := reg_upd key f (nd_reg n)\<rparr>"

definition log_call :: "call \<Rightarrow> node \<Rightarrow> node" where
  "log_call c n = n\<lparr>nd_log := nd_log n @ [c]\<rparr>"

definition emit_transition ::
  "settings \<Rightarrow> real \<Rightarrow> string \<Rightarrow> model_state option \<Rightarrow> model_state \<Rightarrow> string option \<Rightarrow> node \<Rightarrow> node" where
  "emit_transition se now key frm to_state detail n =
     (case reg_get (nd_reg n) key of
        None \<Rightarrow> n
      | Some i \<Rightarrow>
          (let n1 = on_store (record_model_event now (mi_key i) (kind_value (mi_kind i))
                 (map_option state_value frm) (state_value to_state) detail None) n;
               ev = (if nd_notifier n = None then None else classify_event se i to_state detail);
               n2 = (if to_state = READY then on_inst key (mi_was_failed_update (\<lambda>_. False)) n1 else n1)
           in case ev of
                None \<Rightarrow> n2
              | Some a \<Rightarrow> n2\<lparr>nd_notifier := map_option (notify now a) (nd_notifier n2)\<rparr>))"

section \<open>Processes\<close>

definition spawn_process :: "string \<Rightarrow> node \<Rightarrow> nat \<times> node" where
  "spawn_process key n =
     (nd_next_pid n,
      log_call (Spawned key (nd_next_pid n))
        (n\<lparr>nd_procs := dset (nd_next_pid n) None (nd_procs n), nd_next_pid := nd_next_pid n + 1\<rparr>))"

text \<open>\<open>proc.poll()\<close>: nothing while the process runs, its exit code afterwards.\<close>

definition poll :: "node \<Rightarrow> nat \<Rightarrow> int option" where
  "poll n pid = dget (nd_procs n) pid (Some 0)"

definition alive :: "node \<Rightarrow> nat \<Rightarrow> bool" where
  "alive n pid = (map_of (nd_procs n) pid = Some None)"

text \<open>An exited process is left as it is; a live one ends, by SIGTERM or, after the timeout, by SIGKILL.\<close>

definition terminate_process_group :: "nat \<Rightarrow> node \<Rightarrow> node" where
  "terminate_process_group pid n =
     (if poll n pid \<noteq> None then n
      else log_call (Killed pid) (n\<lparr>nd_procs := dset pid (Some (- 15)) (nd_procs n)\<rparr>))"

text \<open>The environment ends a process on its own.\<close>

definition proc_exit :: "nat \<Rightarrow> int \<Rightarrow> node \<Rightarrow> node" where
  "proc_exit pid rc n = (if alive n pid then n\<lparr>nd_procs := dset pid (Some rc) (nd_procs n)\<rparr> else n)"

section \<open>Lemmas\<close>

lemma set_state_sel [simp]:
  "mi_state (set_state now st i) = st" "mi_key (set_state now st i) = mi_key i"
  "mi_proc (set_state now st i) = mi_proc i" "mi_managed (set_state now st i) = mi_managed i"
  "mi_desired (set_state now st i) = mi_desired i" "mi_restarts (set_state now st i) = mi_restarts i"
  "mi_next_restart (set_state now st i) = mi_next_restart i" "mi_kind (set_state now st i) = mi_kind i"
  "mi_pid (set_state now st i) = mi_pid i" "mi_spec (set_state now st i) = mi_spec i"
  "mi_engine (set_state now st i) = mi_engine i" "mi_was_failed (set_state now st i) = mi_was_failed i"
  "mi_port (set_state now st i) = mi_port i" "mi_host (set_state now st i) = mi_host i"
  by (simp_all add: set_state_def touch_def)

lemma reg_upd_get: "reg_get (reg_upd key f r) k = (if k = key then map_option f (reg_get r key) else reg_get r k)"
  by (auto simp: reg_get_def reg_upd_def split: option.split)

lemma reg_ok_add: "reg_ok r \<Longrightarrow> reg_ok (reg_add i r)"
  using set_dset_subset [of "mi_key i" i r] by (fastforce simp: reg_ok_def reg_add_def)

lemma reg_ok_remove: "reg_ok r \<Longrightarrow> reg_ok (reg_remove k r)"
  using set_dpop_subset [of k r] by (fastforce simp: reg_ok_def reg_remove_def)

lemma reg_ok_key: "reg_ok r \<Longrightarrow> reg_get r k = Some i \<Longrightarrow> mi_key i = k"
  by (auto simp: reg_ok_def reg_get_def dest: map_of_SomeD)

lemma reg_ok_upd: "reg_ok r \<Longrightarrow> (\<And>i. mi_key (f i) = mi_key i) \<Longrightarrow> reg_ok (reg_upd k f r)"
  using set_dset_subset [of k _ r] reg_ok_key [of r k]
  by (fastforce simp: reg_ok_def reg_upd_def reg_get_def split: option.split)

lemma reg_get_add [simp]: "reg_get (reg_add i r) k = (if k = mi_key i then Some i else reg_get r k)"
  by (simp add: reg_get_def reg_add_def)

lemma reg_get_remove [simp]: "reg_get (reg_remove k r) k' = (if k' = k then None else reg_get r k')"
  by (simp add: reg_get_def reg_remove_def)

lemma reg_values_iff: "reg_ok r \<Longrightarrow> i \<in> set (reg_values r) \<longleftrightarrow> reg_get r (mi_key i) = Some i"
  by (force simp: reg_values_def reg_get_def reg_ok_def dict_ok_def dest: map_of_SomeD)

section \<open>Spaced actions\<close>

text \<open>
  The contract of a gate that lets an action through only when a gap has passed since the last one:
  the alert dispatcher's cooldown and the autoscaler's scale-up cooldown are instances of it.
\<close>

fun fire_times :: "('e \<Rightarrow> 's \<Rightarrow> 's) \<Rightarrow> ('e \<Rightarrow> 's \<Rightarrow> real option) \<Rightarrow> 'e list \<Rightarrow> 's \<Rightarrow> real list" where
  "fire_times step fires [] s = []"
| "fire_times step fires (e # es) s =
     (case fires e s of None \<Rightarrow> [] | Some t \<Rightarrow> [t]) @ fire_times step fires es (step e s)"

locale spaced =
  fixes step :: "'e \<Rightarrow> 's \<Rightarrow> 's"
    and fires :: "'e \<Rightarrow> 's \<Rightarrow> real option"
    and last :: "'s \<Rightarrow> real option"
    and gap :: real
    and inv :: "'s \<Rightarrow> bool"
  assumes fires_gap: "inv s \<Longrightarrow> fires e s = Some t \<Longrightarrow> last s = Some u \<Longrightarrow> u + gap \<le> t"
    and fires_last: "inv s \<Longrightarrow> fires e s = Some t \<Longrightarrow> last (step e s) = Some t"
    and quiet_last: "inv s \<Longrightarrow> fires e s = None \<Longrightarrow> last s = Some u \<Longrightarrow> \<exists>v \<ge> u. last (step e s) = Some v"
    and inv_step: "inv s \<Longrightarrow> inv (step e s)"
    and gap_nonneg: "inv s \<Longrightarrow> 0 \<le> gap"
begin

lemma fire_after_last:
  "inv s \<Longrightarrow> last s = Some u \<Longrightarrow> t \<in> set (fire_times step fires es s) \<Longrightarrow> u + gap \<le> t"
proof (induction es arbitrary: s u)
  case (Cons e es)
  show ?case
  proof (cases "fires e s")
    case None
    then obtain v where "u \<le> v" "last (step e s) = Some v" using Cons.prems quiet_last by blast
    moreover have "inv (step e s)" "t \<in> set (fire_times step fires es (step e s))"
      using Cons.prems None by (simp_all add: inv_step)
    ultimately show ?thesis using Cons.IH [of "step e s" v] by linarith
  next
    case (Some v)
    have "u + gap \<le> v" using Cons.prems Some by (simp add: fires_gap)
    then show ?thesis
      using Cons.prems Cons.IH [of "step e s" v] Some gap_nonneg [of s] by (auto simp: fires_last inv_step)
  qed
qed simp

lemma fires_spaced:
  "inv s \<Longrightarrow> sorted_wrt (\<lambda>a b. a + gap \<le> b) (fire_times step fires es s)"
proof (induction es arbitrary: s)
  case (Cons e es)
  then show ?case
    using fire_after_last [of "step e s" _ _ es]
    by (cases "fires e s") (auto simp: fires_last inv_step)
qed simp

end

section \<open>The alert cooldown\<close>

text \<open>What happens to a notifier: an event is dispatched, or the sink set is swapped.\<close>

datatype alert_op = Dispatch real alert | Swap "sink list"

fun alert_step :: "alert_op \<Rightarrow> notifier \<Rightarrow> notifier" where
  "alert_step (Dispatch now ev) n = notify now ev n"
| "alert_step (Swap sinks) n = n\<lparr>no_sinks := sinks\<rparr>"

fun alert_run :: "alert_op list \<Rightarrow> notifier \<Rightarrow> notifier" where
  "alert_run [] n = n"
| "alert_run (e # es) n = alert_run es (alert_step e n)"

text \<open>The time at which the operation sends out an alert of the kind \<open>k\<close>, if it does.\<close>

definition alert_fires :: "string \<times> string \<Rightarrow> alert_op \<Rightarrow> notifier \<Rightarrow> real option" where
  "alert_fires k oper n =
     (case oper of
        Dispatch now ev \<Rightarrow>
          if (al_model ev, al_event ev) = k \<and> no_sent (notify now ev n) \<noteq> no_sent n then Some now else None
      | Swap _ \<Rightarrow> None)"

lemma notify_cooldown [simp]: "no_cooldown (notify now ev n) = no_cooldown n"
  by (simp add: notify_def suppressed_def Let_def)

lemma alert_fires_iff:
  "alert_fires k (Dispatch now ev) n = Some t \<longleftrightarrow>
     t = now \<and> (al_model ev, al_event ev) = k \<and>
     (\<exists>s \<in> set (no_sinks n). severity_rank (si_min s) \<le> severity_rank (al_severity ev)) \<and>
     (case map_of (no_last n) k of None \<Rightarrow> True | Some u \<Rightarrow> u + no_cooldown n \<le> now)"
  by (auto simp: alert_fires_def notify_def suppressed_def Let_def filter_empty_conv split: option.splits)

lemma notify_last:
  "map_of (no_last (notify now ev n)) k =
     (if alert_fires k (Dispatch now ev) n = None then map_of (no_last n) k else Some now)"
  by (auto simp: alert_fires_def notify_def suppressed_def Let_def filter_empty_conv)

interpretation alerts: spaced alert_step "alert_fires k" "\<lambda>n. map_of (no_last n) k" c
  "\<lambda>n. no_cooldown n = c \<and> 0 \<le> c" for k c
proof (unfold_locales, goal_cases)
  case (1 s e t u)
  then show ?case by (cases e) (auto simp: alert_fires_iff, auto simp: alert_fires_def)
next
  case (2 s e t)
  then show ?case by (cases e) (auto simp: notify_last, auto simp: alert_fires_def split: if_splits)
next
  case (3 s e)
  then show ?case by (cases e) (auto simp: notify_last)
next
  case (4 s e)
  then show ?case by (cases e) auto
qed auto

text \<open>
  The alert cooldown.  Whatever is dispatched and however the sink set is swapped, two alerts of
  one kind (model and event) leave at least a cooldown apart.
\<close>

theorem alerts_spaced:
  assumes "0 \<le> no_cooldown n"
  shows "sorted_wrt (\<lambda>a b. a + no_cooldown n \<le> b) (fire_times alert_step (alert_fires k) es n)"
  using alerts.fires_spaced [of n "no_cooldown n"] assms by simp

definition demo_alert :: alert where
  "demo_alert = \<lparr>al_event = ''model_failed'', al_severity = ''error'', al_model = ''q::a'',
     al_kind = ''llm'', al_detail = None, al_restarts = 0\<rparr>"

definition demo_notifier :: notifier where
  "demo_notifier = \<lparr>no_sinks = [\<lparr>si_type = ''slack'', si_url = ''u'', si_min = ''warning''\<rparr>],
     no_cooldown = 300, no_last = [], no_sent = []\<rparr>"

lemma demo_fires:
  "fire_times alert_step (alert_fires (''q::a'', ''model_failed''))
     [Dispatch 0 demo_alert, Dispatch 10 demo_alert, Dispatch 300 demo_alert] demo_notifier = [0, 300]"
  by (simp add: demo_alert_def demo_notifier_def alert_fires_def notify_def suppressed_def severity_rank_def Let_def)

lemma alerts_spaced_witness:
  "sorted_wrt (\<lambda>a b. a + 300 \<le> b) [0, 300 :: real]"
  using alerts_spaced [of demo_notifier "(''q::a'', ''model_failed'')"
      "[Dispatch 0 demo_alert, Dispatch 10 demo_alert, Dispatch 300 demo_alert]"]
  unfolding demo_fires by (simp add: demo_notifier_def)

end
