(* ===== verification/Launchers.thy ===== *)
theory Launchers
  imports Lifecycle
begin

text \<open>
  apps/backend/app/llmops/launchers.py: from the validated configuration to the command line of an
  engine.  A group's settings and an instance are dumped as pydantic does: the declared fields of
  packages/config-schema/schema.py in their order, defaults filled in, then the extra keys.  The
  only piece of the standard library left open is the decimal rendering of a float, the parameter
  \<open>fl\<close>; strings are ASCII.  The environment of the machine (\<open>LLMOPS_VLLM_BIND_HOST\<close>, the Python
  interpreter, the effective-config file) is the record \<open>machine\<close>.
\<close>

section \<open>Numbers and JSON as text\<close>

fun show_nat :: "nat \<Rightarrow> string" where
  "show_nat n = (if n < 10 then [char_of (48 + n)] else show_nat (n div 10) @ [char_of (48 + n mod 10)])"

declare show_nat.simps [simp del]

definition show_int :: "int \<Rightarrow> string" where
  "show_int i = (if i < 0 then ''-'' @ show_nat (nat (- i)) else show_nat (nat i))"

fun join_with :: "string \<Rightarrow> string list \<Rightarrow> string" where
  "join_with sep [] = []"
| "join_with sep [x] = x"
| "join_with sep (x # xs) = x @ sep @ join_with sep xs"

definition hex_digit :: "nat \<Rightarrow> char" where
  "hex_digit n = (if n < 10 then char_of (48 + n) else char_of (87 + n))"

definition json_escape :: "char \<Rightarrow> string" where
  "json_escape c =
     (if c = CHR 0x22 then [CHR 0x5C, CHR 0x22]
      else if c = CHR 0x5C then [CHR 0x5C, CHR 0x5C]
      else if c = CHR 0x0A then [CHR 0x5C, CHR ''n'']
      else if c = CHR 0x0D then [CHR 0x5C, CHR ''r'']
      else if c = CHR 0x09 then [CHR 0x5C, CHR ''t'']
      else if c = CHR 0x08 then [CHR 0x5C, CHR ''b'']
      else if c = CHR 0x0C then [CHR 0x5C, CHR ''f'']
      else let n = of_char c :: nat in
        if n < 32 then [CHR 0x5C, CHR ''u'', CHR ''0'', CHR ''0'', hex_digit (n div 16), hex_digit (n mod 16)]
        else [c])"

definition json_string :: "string \<Rightarrow> string" where
  "json_string s = [CHR 0x22] @ concat (map json_escape s) @ [CHR 0x22]"

fun json_dumps :: "(real \<Rightarrow> string) \<Rightarrow> jval \<Rightarrow> string" where
  "json_dumps fl JNull = ''null''"
| "json_dumps fl (JBool b) = (if b then ''true'' else ''false'')"
| "json_dumps fl (JInt i) = show_int i"
| "json_dumps fl (JFloat r) = fl r"
| "json_dumps fl (JStr s) = json_string s"
| "json_dumps fl (JList xs) = ''['' @ join_with '', '' (map (json_dumps fl) xs) @ '']''"
| "json_dumps fl (JObj d) =
     ''{'' @ join_with '', '' (map (\<lambda>(k, v). json_string k @ '': '' @ json_dumps fl v) d) @ ''}''"

text \<open>Python's \<open>repr\<close> and \<open>str\<close>.\<close>

definition py_quote :: "string \<Rightarrow> string" where
  "py_quote s =
     (let q = (if CHR 0x27 \<in> set s \<and> CHR 0x22 \<notin> set s then CHR 0x22 else CHR 0x27)
      in [q] @ concat (map (\<lambda>c. if c = q \<or> c = CHR 0x5C then [CHR 0x5C, c]
                               else if c = CHR 0x0A then [CHR 0x5C, CHR ''n'']
                               else if c = CHR 0x0D then [CHR 0x5C, CHR ''r'']
                               else if c = CHR 0x09 then [CHR 0x5C, CHR ''t''] else [c]) s) @ [q])"

fun py_repr :: "(real \<Rightarrow> string) \<Rightarrow> jval \<Rightarrow> string" where
  "py_repr fl JNull = ''None''"
| "py_repr fl (JBool b) = (if b then ''True'' else ''False'')"
| "py_repr fl (JInt i) = show_int i"
| "py_repr fl (JFloat r) = fl r"
| "py_repr fl (JStr s) = py_quote s"
| "py_repr fl (JList xs) = ''['' @ join_with '', '' (map (py_repr fl) xs) @ '']''"
| "py_repr fl (JObj d) =
     ''{'' @ join_with '', '' (map (\<lambda>(k, v). py_quote k @ '': '' @ py_repr fl v) d) @ ''}''"

fun py_str :: "(real \<Rightarrow> string) \<Rightarrow> jval \<Rightarrow> string" where
  "py_str fl (JStr s) = s"
| "py_str fl v = py_repr fl v"

section \<open>Dumping the configuration\<close>

definition mc_defaults :: "(string, jval) dict" where
  "mc_defaults =
     [(''model_tag'', JNull), (''engine'', JStr ''vllm''), (''kind'', JStr ''chat''), (''dtype'', JNull),
      (''max_model_len'', JNull), (''gpu_memory_utilization'', JNull),
      (''tensor_parallel_size'', JInt 1), (''lora_modules'', JNull), (''kv_transfer_config'', JNull)]"

definition dump_with :: "(string, jval) dict \<Rightarrow> (string, jval) dict \<Rightarrow> (string, jval) dict" where
  "dump_with flds d =
     map (\<lambda>(k, dflt). (k, dget d k dflt)) flds @ filter (\<lambda>(k, v). \<not> dhas flds k) d"

definition module_defaults :: "(string, jval) dict" where
  "module_defaults = [(''name'', JNull), (''path'', JNull), (''base_model_name'', JNull)]"

fun dump_module :: "jval \<Rightarrow> jval" where
  "dump_module (JObj d) = JObj (dump_with module_defaults d)"
| "dump_module v = v"

fun dump_modules :: "jval \<Rightarrow> jval" where
  "dump_modules (JList ms) = JList (map dump_module ms)"
| "dump_modules v = v"

definition settings_dump :: "group_cfg \<Rightarrow> (string, jval) dict" where
  "settings_dump g =
     (let d = group_mc g in dump_with mc_defaults (if dhas d ''lora_modules''
        then dset ''lora_modules'' (dump_modules (jget d ''lora_modules'')) d else d))"

definition inst_host :: "inst_cfg \<Rightarrow> string" where
  "inst_host i = (case ic_host i of None \<Rightarrow> ''localhost'' | Some h \<Rightarrow> h)"

definition inst_dump :: "inst_cfg \<Rightarrow> (string, jval) dict" where
  "inst_dump i =
     [(''id'', JStr (ic_id i)), (''host'', JStr (inst_host i)), (''port'', JInt (ic_port i)),
      (''cuda_device'', jget (ic_extra i) ''cuda_device'')] @
     filter (\<lambda>(k, v). k \<noteq> ''cuda_device'') (ic_extra i)"

section \<open>Command lines\<close>

definition router_only_keys :: "string list" where
  "router_only_keys = [''routing_strategy'', ''kind'', ''engine'']"

definition skip_cli_keys :: "string list" where
  "skip_cli_keys = [''model_tag'', ''allow_runtime_lora''] @ router_only_keys"

definition kebab :: "string \<Rightarrow> string" where
  "kebab s = map (\<lambda>c. if c = CHR ''_'' then CHR ''-'' else c) s"

text \<open>One module with its null entries dropped; nothing for a falsy entry or a nameless module.\<close>

fun clean_module :: "jval \<Rightarrow> jval option" where
  "clean_module (JObj d) =
     (let m = filter (\<lambda>(k, v). v \<noteq> JNull) d in if truthy (jget m ''name'') then Some (JObj m) else None)"
| "clean_module _ = None"

fun vllm_flag :: "(real \<Rightarrow> string) \<Rightarrow> string \<times> jval \<Rightarrow> string list" where
  "vllm_flag fl (key, value) =
     (if key \<in> set skip_cli_keys \<or> value = JNull then []
      else if key = ''lora_modules'' then
        (case value of
           JList ms \<Rightarrow>
             (let mods = List.map_filter clean_module ms
              in if mods = [] then [] else (''--'' @ kebab key) # map (json_dumps fl) mods)
         | _ \<Rightarrow> [])
      else (case value of
              JBool b \<Rightarrow> [if b then ''--'' @ kebab key else ''--no-'' @ kebab key]
            | JList _ \<Rightarrow> [''--'' @ kebab key, json_dumps fl value]
            | JObj _ \<Rightarrow> [''--'' @ kebab key, json_dumps fl value]
            | _ \<Rightarrow> [''--'' @ kebab key, py_str fl value]))"

definition lora_headroom :: "(string, jval) dict \<Rightarrow> (string, jval) dict" where
  "lora_headroom cfg =
     (if truthy (jget cfg ''enable_lora'') \<and> \<not> dhas cfg ''max_loras''
      then dset ''max_loras'' (JInt 4) cfg else cfg)"

text \<open>\<open>None\<close>: no \<open>model_tag\<close>, the \<open>ValueError\<close>.\<close>

definition build_vllm_cli_args :: "(real \<Rightarrow> string) \<Rightarrow> (string, jval) dict \<Rightarrow> string list option" where
  "build_vllm_cli_args fl cfg =
     (let tag = jget cfg ''model_tag'' in
      if \<not> truthy tag then None
      else Some ([''serve'', py_str fl tag] @ concat (map (vllm_flag fl) (lora_headroom cfg))))"

definition sglang_param :: "string \<Rightarrow> string" where
  "sglang_param key =
     (if key = ''max_model_len'' then ''context-length''
      else if key = ''gpu_memory_utilization'' then ''mem-fraction-static''
      else if key = ''tensor_parallel_size'' then ''tp-size'' else key)"

definition sglang_skip_keys :: "string list" where
  "sglang_skip_keys =
     [''model_tag'', ''served_model_name'', ''id'', ''cuda_device'', ''enable_lora'', ''lora_modules'',
      ''enable_metrics'', ''allow_runtime_lora''] @ router_only_keys"

fun sglang_flag :: "(real \<Rightarrow> string) \<Rightarrow> string \<times> jval \<Rightarrow> string list" where
  "sglang_flag fl (key, value) =
     (if key \<in> set sglang_skip_keys \<or> value = JNull then []
      else let flag = ''--'' @ kebab (sglang_param key) in
        case value of
          JBool b \<Rightarrow> if b then [flag] else []
        | JList xs \<Rightarrow> flag # map (py_str fl) xs
        | JObj _ \<Rightarrow> [flag, json_dumps fl value]
        | _ \<Rightarrow> [flag, py_str fl value])"

fun lora_path :: "(real \<Rightarrow> string) \<Rightarrow> jval \<Rightarrow> string option" where
  "lora_path fl (JObj d) =
     (if truthy (jget d ''name'') \<and> truthy (jget d ''path'')
      then Some (py_str fl (jget d ''name'') @ ''='' @ py_str fl (jget d ''path'')) else None)"
| "lora_path fl _ = None"

definition sglang_lora :: "(real \<Rightarrow> string) \<Rightarrow> (string, jval) dict \<Rightarrow> string list" where
  "sglang_lora fl cfg =
     (let mods = (case jget cfg ''lora_modules'' of JList ms \<Rightarrow> ms | _ \<Rightarrow> []);
          paths = List.map_filter (lora_path fl) mods
      in if truthy (jget cfg ''enable_lora'') \<or> truthy (jget cfg ''allow_runtime_lora'') \<or> mods \<noteq> []
         then ''--enable-lora'' # (if paths = [] then [] else ''--lora-paths'' # paths) else [])"

definition build_sglang_cli_args :: "(real \<Rightarrow> string) \<Rightarrow> (string, jval) dict \<Rightarrow> string list option" where
  "build_sglang_cli_args fl cfg =
     (let tag = jget cfg ''model_tag'' in
      if \<not> truthy tag then None
      else Some ([''--model-path'', py_str fl tag, ''--served-model-name'',
                  py_str fl (jor (jget cfg ''served_model_name'') tag), ''--enable-metrics''] @
                 sglang_lora fl cfg @ concat (map (sglang_flag fl) cfg)))"

section \<open>The launchers\<close>

record machine =
  ma_fl :: "real \<Rightarrow> string"
  ma_bind_host :: string
  ma_python :: string
  ma_router_root :: string
  ma_embed_script :: string
  ma_config_path :: string
  ma_effective :: "string option"

definition group_engine :: "group_cfg \<Rightarrow> string" where
  "group_engine g = (case dget (group_mc g) ''engine'' (JStr ''vllm'') of JStr s \<Rightarrow> s | _ \<Rightarrow> [])"

definition group_keys :: "string \<Rightarrow> root_cfg \<Rightarrow> string list" where
  "group_keys engine config =
     concat (map (\<lambda>(tag, g). if group_engine g \<noteq> engine then []
                             else map (\<lambda>i. tag @ sep2 @ ic_id i) (group_instances g)) (rc_engines config))"

definition key_group :: "string \<Rightarrow> string" where
  "key_group key = fst (str_partition sep2 key)"

definition key_instance :: "string \<Rightarrow> string" where
  "key_instance key = snd (snd (str_partition sep2 key))"

text \<open>The group and the instance a key names; a \<open>KeyError\<close> otherwise.\<close>

definition find_instance :: "root_cfg \<Rightarrow> string \<Rightarrow> (group_cfg \<times> inst_cfg) option" where
  "find_instance config key =
     (case map_of (rc_engines config) (key_group key) of
        None \<Rightarrow> None
      | Some g \<Rightarrow> map_option (Pair g) (find (\<lambda>i. ic_id i = key_instance key) (group_instances g)))"

definition merged_cfg :: "group_cfg \<Rightarrow> inst_cfg \<Rightarrow> (string, jval) dict" where
  "merged_cfg g i = dupdate (settings_dump g) (inst_dump i)"

definition single_gpu :: "(string, jval) dict \<Rightarrow> bool" where
  "single_gpu d = (dget d ''tensor_parallel_size'' (JInt 1) = JInt 1)"

text \<open>The GPU pin leaves the command line and becomes an environment variable, for one GPU only.\<close>

definition take_cuda :: "(real \<Rightarrow> string) \<Rightarrow> (string, jval) dict \<Rightarrow> (string, jval) dict \<times> (string, string) dict" where
  "take_cuda fl d =
     (if single_gpu d then
        (dpop ''cuda_device'' d,
         if jget d ''cuda_device'' = JNull then []
         else dset ''CUDA_VISIBLE_DEVICES'' (py_str fl (jget d ''cuda_device'')) [])
      else (d, []))"

definition with_bind_host :: "machine \<Rightarrow> (string, jval) dict \<Rightarrow> (string, jval) dict" where
  "with_bind_host m d = (if ma_bind_host m = [] then d else dset ''host'' (JStr (ma_bind_host m)) d)"

definition log_dir :: string where "log_dir = ''./logs''"

definition probe_of :: "inst_cfg \<Rightarrow> string" where
  "probe_of i = ''http://'' @ inst_host i @ '':'' @ show_int (ic_port i) @ ''/health''"

definition tag_of :: "(real \<Rightarrow> string) \<Rightarrow> group_cfg \<Rightarrow> string option" where
  "tag_of fl g = (case jget (group_mc g) ''model_tag'' of JNull \<Rightarrow> None | v \<Rightarrow> Some (py_str fl v))"

definition vllm_caps :: "string list" where
  "vllm_caps = [''sleep'', ''runtime_lora'', ''lora_modules'', ''kv_transfer'', ''metrics_vllm'']"

definition vllm_env :: "(string, jval) dict \<Rightarrow> (string, string) dict \<Rightarrow> (string, string) dict" where
  "vllm_env d env0 =
     (let e1 = (if truthy (jget d ''allow_runtime_lora'')
                then dset ''VLLM_ALLOW_RUNTIME_LORA_UPDATING'' ''True'' env0 else env0);
          e2 = (if truthy (jget d ''kv_transfer_config'') then dsetdefault ''PYTHONHASHSEED'' ''0'' e1 else e1)
      in if truthy (jget d ''enable_sleep_mode'') then dset ''VLLM_SERVER_DEV_MODE'' ''1'' e2 else e2)"

definition vllm_build_spec :: "machine \<Rightarrow> root_cfg \<Rightarrow> string \<Rightarrow> launch_spec option" where
  "vllm_build_spec m config key =
     (case find_instance config key of
        None \<Rightarrow> None
      | Some (g, i) \<Rightarrow>
          (let (d0, env0) = take_cuda (ma_fl m) (merged_cfg g i);
               d = dpop ''id'' d0
           in case build_vllm_cli_args (ma_fl m) (with_bind_host m d) of
                None \<Rightarrow> None
              | Some args \<Rightarrow> Some
                  \<lparr>ls_key = key, ls_kind = LLM, ls_command = ''vllm'' # args, ls_env = vllm_env d env0,
                   ls_log = log_dir @ ''/'' @ key_group key @ ''__'' @ key_instance key @ ''.log'',
                   ls_host = inst_host i, ls_port = ic_port i, ls_probe = probe_of i,
                   ls_engine = ''vllm'', ls_caps = vllm_caps, ls_model_tag = tag_of (ma_fl m) g,
                   ls_sleep = truthy (jget d ''enable_sleep_mode'')\<rparr>))"

definition sglang_caps :: "string list" where
  "sglang_caps = [''runtime_lora'', ''lora_modules'', ''metrics_sglang'']"

definition sglang_build_spec :: "machine \<Rightarrow> root_cfg \<Rightarrow> string \<Rightarrow> launch_spec option" where
  "sglang_build_spec m config key =
     (case find_instance config key of
        None \<Rightarrow> None
      | Some (g, i) \<Rightarrow>
          (let (d0, env) = take_cuda (ma_fl m) (merged_cfg g i);
               d = dpop ''id'' d0
           in case build_sglang_cli_args (ma_fl m) (with_bind_host m d) of
                None \<Rightarrow> None
              | Some args \<Rightarrow> Some
                  \<lparr>ls_key = key, ls_kind = LLM,
                   ls_command = [ma_python m, ''-m'', ''sglang.launch_server''] @ args, ls_env = env,
                   ls_log = log_dir @ ''/'' @ key_group key @ ''__'' @ key_instance key @ ''.log'',
                   ls_host = inst_host i, ls_port = ic_port i, ls_probe = probe_of i,
                   ls_engine = ''sglang'', ls_caps = sglang_caps, ls_model_tag = tag_of (ma_fl m) g,
                   ls_sleep = False\<rparr>))"

definition embedding_key :: string where "embedding_key = ''embedding::default''"

definition embedding_server :: "root_cfg \<Rightarrow> (string, jval) dict option" where
  "embedding_server config =
     (case rc_embedding config of
        Val d \<Rightarrow> (if truthy (jget d ''embedding_models'') \<or> truthy (jget d ''reranking_models'')
                 then Some d else None)
      | _ \<Rightarrow> None)"

definition embedding_keys :: "root_cfg \<Rightarrow> string list" where
  "embedding_keys config = (case embedding_server config of None \<Rightarrow> [] | Some _ \<Rightarrow> [embedding_key])"

definition embedding_build_spec :: "machine \<Rightarrow> root_cfg \<Rightarrow> string \<Rightarrow> launch_spec option" where
  "embedding_build_spec m config key =
     (case embedding_server config of
        None \<Rightarrow> None
      | Some d \<Rightarrow>
          (let host = (case dget d ''host'' (JStr ''localhost'') of JStr h \<Rightarrow> h | _ \<Rightarrow> []);
               port = (case jget d ''port'' of JInt p \<Rightarrow> p | _ \<Rightarrow> 0);
               env = [(''PYTHONPATH'', ma_router_root m)];
               cfg = (case ma_effective m of Some f \<Rightarrow> f | None \<Rightarrow> ma_config_path m)
           in Some \<lparr>ls_key = key, ls_kind = EMBEDDING,
                   ls_command = [ma_python m, ma_embed_script m, ''--config'', cfg],
                   ls_env = (if jget d ''cuda_device'' = JNull then env
                             else dset ''CUDA_VISIBLE_DEVICES'' (py_str (ma_fl m) (jget d ''cuda_device'')) env),
                   ls_log = log_dir @ ''/embedding_server.log'', ls_host = host, ls_port = port,
                   ls_probe = ''http://'' @ host @ '':'' @ show_int port @ ''/health'',
                   ls_engine = ''default'', ls_caps = [], ls_model_tag = None, ls_sleep = False\<rparr>))"

text \<open>The launchers as the manager sees them: the members of the protocol class \<open>Launcher\<close>.\<close>

record launcher =
  la_kind :: model_kind
  la_engine :: string
  la_caps :: "string list"
  la_keys :: "root_cfg \<Rightarrow> string list"
  la_build :: "root_cfg \<Rightarrow> string \<Rightarrow> launch_spec option"

definition vllm_launcher :: "machine \<Rightarrow> launcher" where
  "vllm_launcher m = \<lparr>la_kind = LLM, la_engine = ''vllm'', la_caps = vllm_caps,
     la_keys = group_keys ''vllm'', la_build = vllm_build_spec m\<rparr>"

definition sglang_launcher :: "machine \<Rightarrow> launcher" where
  "sglang_launcher m = \<lparr>la_kind = LLM, la_engine = ''sglang'', la_caps = sglang_caps,
     la_keys = group_keys ''sglang'', la_build = sglang_build_spec m\<rparr>"

definition embedding_launcher :: "machine \<Rightarrow> launcher" where
  "embedding_launcher m = \<lparr>la_kind = EMBEDDING, la_engine = ''default'', la_caps = [],
     la_keys = embedding_keys, la_build = embedding_build_spec m\<rparr>"

section \<open>Lemmas\<close>

lemma delete_dset: "dpop k (dset k' v d) = (if k = k' then dpop k d else dset k' v (dpop k d))"
  by (cases "k = k'") (simp_all add: dpop_def dset_def delete_update_same AList.delete_update)

lemma concat_map_dpop:
  "f (k, the (map_of d k)) = [] \<Longrightarrow> (\<And>v. f (k, v) = []) \<Longrightarrow> concat (map f (dpop k d)) = concat (map f d)"
  by (induction d) (auto simp: dpop_def)

lemma jget_dpop [simp]: "jget (dpop k d) k' = (if k' = k then JNull else jget d k')"
  by (simp add: jget_def)

lemma lora_headroom_dpop:
  "k \<noteq> ''enable_lora'' \<Longrightarrow> k \<noteq> ''max_loras'' \<Longrightarrow> lora_headroom (dpop k d) = dpop k (lora_headroom d)"
  by (simp add: lora_headroom_def delete_dset)

text \<open>A group name with no separator in it, and none formed with the separator that follows.\<close>

fun sep_free :: "string \<Rightarrow> bool" where
  "sep_free [] = True"
| "sep_free (c # cs) = (\<not> starts_with sep2 (c # cs @ sep2) \<and> sep_free cs)"

lemma partition_key: "sep_free grp \<Longrightarrow> str_partition sep2 (grp @ sep2 @ x) = (grp, True, x)"
proof (induction grp)
  case Nil
  then show ?case by (simp add: sep2_def starts_with_def)
next
  case (Cons c cs)
  have "starts_with sep2 (c # cs @ sep2 @ x) = starts_with sep2 (c # cs @ sep2)"
    by (cases cs) (simp_all add: starts_with_def sep2_def)
  then show ?case using Cons by simp
qed

lemma key_parts [simp]:
  "sep_free grp \<Longrightarrow> key_group (grp @ sep2 @ x) = grp" "sep_free grp \<Longrightarrow> key_instance (grp @ sep2 @ x) = x"
  by (simp_all add: key_group_def key_instance_def partition_key)

text \<open>
  The router's own knobs, the launcher's \<open>engine\<close> choice and the run-time LoRA switch never
  influence the \<open>vllm serve\<close> command line.
\<close>

theorem cli_ignores_router_keys:
  assumes "k \<in> set skip_cli_keys" "k \<noteq> ''model_tag''"
  shows "build_vllm_cli_args fl (dpop k cfg) = build_vllm_cli_args fl cfg"
proof -
  have "k \<noteq> ''enable_lora''" "k \<noteq> ''max_loras''"
    using assms(1) by (auto simp: skip_cli_keys_def router_only_keys_def)
  then have "concat (map (vllm_flag fl) (lora_headroom (dpop k cfg))) = concat (map (vllm_flag fl) (lora_headroom cfg))"
    using assms(1) by (simp add: lora_headroom_dpop concat_map_dpop)
  then show ?thesis
    using assms(2) by (simp add: build_vllm_cli_args_def del: map_map) metis
qed

lemma cli_ignores_router_keys_witness:
  "build_vllm_cli_args (\<lambda>_. []) (dpop ''kind'' [(''model_tag'', JStr ''m''), (''kind'', JStr ''embed'')]) =
   build_vllm_cli_args (\<lambda>_. []) [(''model_tag'', JStr ''m''), (''kind'', JStr ''embed'')]"
  by (rule cli_ignores_router_keys) (simp_all add: skip_cli_keys_def router_only_keys_def)

lemma find_by_id:
  "distinct (map ic_id xs) \<Longrightarrow> i \<in> set xs \<Longrightarrow> find (\<lambda>j. ic_id j = ic_id i) xs = Some i"
  by (induction xs) auto

lemma take_cuda_jget: "k \<noteq> ''cuda_device'' \<Longrightarrow> jget (fst (take_cuda fl d)) k = jget d k"
  by (simp add: take_cuda_def)

text \<open>
  Every key the vLLM launcher lists can be launched: it builds a spec with that key, the address
  of the instance it names and the engine vllm, provided the name of its group contains no separator,
  the ids of the group are distinct and the instance's settings have a non-empty model tag.
\<close>

theorem enumerated_keys_build:
  assumes "dict_ok (rc_engines config)"
    and "(grp, g) \<in> set (rc_engines config)" "group_engine g = ''vllm''" "i \<in> set (group_instances g)"
    and "sep_free grp" "distinct (map ic_id (group_instances g))"
    and "truthy (jget (merged_cfg g i) ''model_tag'')"
  shows "grp @ sep2 @ ic_id i \<in> set (group_keys ''vllm'' config) \<and>
    (\<exists>sp. vllm_build_spec m config (grp @ sep2 @ ic_id i) = Some sp \<and>
       ls_host sp = inst_host i \<and> ls_port sp = ic_port i \<and> ls_engine sp = ''vllm'' \<and>
       ls_key sp = grp @ sep2 @ ic_id i)"
proof
  show "grp @ sep2 @ ic_id i \<in> set (group_keys ''vllm'' config)"
    using assms(2-4) by (auto simp: group_keys_def)
  have found: "find_instance config (grp @ sep2 @ ic_id i) = Some (g, i)"
    using assms(1,2,5) find_by_id [OF assms(6,4)] by (simp add: find_instance_def dict_ok_def)
  obtain d env where split: "take_cuda (ma_fl m) (merged_cfg g i) = (d, env)" by force
  have "truthy (jget d ''model_tag'')"
    using assms(7) take_cuda_jget [of "''model_tag''" "ma_fl m" "merged_cfg g i"] by (simp add: split)
  then have "truthy (jget (with_bind_host m (dpop ''id'' d)) ''model_tag'')"
    by (simp add: with_bind_host_def jget_def)
  then show "\<exists>sp. vllm_build_spec m config (grp @ sep2 @ ic_id i) = Some sp \<and>
       ls_host sp = inst_host i \<and> ls_port sp = ic_port i \<and> ls_engine sp = ''vllm'' \<and>
       ls_key sp = grp @ sep2 @ ic_id i"
    by (simp add: vllm_build_spec_def found split build_vllm_cli_args_def Let_def)
qed

definition demo_machine :: machine where
  "demo_machine = \<lparr>ma_fl = \<lambda>_. ''0.5'', ma_bind_host = [], ma_python = ''python'', ma_router_root = ''/r'',
     ma_embed_script = ''e.py'', ma_config_path = ''c.yaml'', ma_effective = None\<rparr>"

definition pin_inst :: inst_cfg where
  "pin_inst = \<lparr>ic_id = ''a'', ic_host = None, ic_port = 8001, ic_extra = [(''cuda_device'', JInt 1)]\<rparr>"

definition pin_group :: group_cfg where
  "pin_group = \<lparr>gc_instances = Some [pin_inst],
     gc_model_config = Some [(''model_tag'', JStr ''Q/m''), (''enable_sleep_mode'', JBool True)],
     gc_fallback = Absent, gc_autoscale = Absent\<rparr>"

definition pin_root :: root_cfg where
  "pin_root = \<lparr>rc_engines = [(''q'', pin_group)], rc_embedding = Absent, rc_rest = []\<rparr>"

lemma pin_facts:
  "group_engine pin_group = ''vllm''" "sep_free ''q''"
  "truthy (jget (merged_cfg pin_group pin_inst) ''model_tag'')"
  "''q'' @ sep2 @ ic_id pin_inst = ''q::a''"
  by code_simp+

lemma enumerated_keys_build_witness:
  "vllm_build_spec demo_machine pin_root ''q::a'' \<noteq> None"
proof -
  have "rc_engines pin_root = [(''q'', pin_group)]" "group_instances pin_group = [pin_inst]"
    by (simp_all add: pin_root_def pin_group_def group_instances_def)
  then show ?thesis
    using enumerated_keys_build [of pin_root "''q''" pin_group pin_inst demo_machine] pin_facts
    by (auto simp: dict_ok_def)
qed

end
