(* ===== verification/Router_Metrics.thy ===== *)
theory Router_Metrics
  imports Router_Proxy Router_Auth Launchers
begin

text \<open>
  The router's scraping loop and its endpoints: apps/router-server/src/llm_router/vllm_metrics_client.py,
  metrics_poller.py and the routes of router.py around the proxy.  A Prometheus page is a string, read
  line by line as the client's regular expression does; the numbers it accepts are read as exact reals.
  What the replicas answer in a cycle is the record \<open>replicas\<close>: a page by URL (\<open>None\<close> for any exception or
  an error status) and the answer of \<open>/is_sleeping\<close>.
\<close>

section \<open>One line of a page\<close>

definition name_start :: "char \<Rightarrow> bool" where
  "name_start c = (is_alpha c \<or> c = CHR ''_'' \<or> c = CHR '':'')"

definition name_char :: "char \<Rightarrow> bool" where
  "name_char c = (name_start c \<or> is_digit c)"

definition digits_value :: "string \<Rightarrow> nat" where
  "digits_value s = foldl (\<lambda>n c. 10 * n + (of_char c - 48)) 0 s"

definition digit_run :: "string \<Rightarrow> string" where
  "digit_run s = takeWhile is_digit s"

definition after_digits :: "string \<Rightarrow> string" where
  "after_digits s = dropWhile is_digit s"

text \<open>\<open>[eE][-+]?\d+\<close> to the end of the line: the power of ten.\<close>

fun scale_of :: "string \<Rightarrow> real option" where
  "scale_of [] = Some 1"
| "scale_of (e # s) =
     (if e \<noteq> CHR ''e'' \<and> e \<noteq> CHR ''E'' then None
      else let neg = (case s of c # _ \<Rightarrow> c = CHR ''-'' | [] \<Rightarrow> False);
               t = (case s of c # t \<Rightarrow> if c = CHR ''-'' \<or> c = CHR ''+'' then t else s | [] \<Rightarrow> s)
           in if t = [] \<or> \<not> list_all is_digit t then None
              else Some (if neg then 1 / 10 ^ digits_value t else 10 ^ digits_value t))"

text \<open>\<open>[-+]?\d*\.?\d+(?:[eE][-+]?\d+)?$\<close> with the value \<open>float\<close> gives the text.\<close>

definition unsigned_number :: "string \<Rightarrow> real option" where
  "unsigned_number s =
     (case after_digits s of
        c # t \<Rightarrow>
          if c = CHR ''.'' then
            (if digit_run t = [] then None
             else map_option ((*) (real (digits_value (digit_run s @ digit_run t)) / 10 ^ length (digit_run t)))
                    (scale_of (after_digits t)))
          else if digit_run s = [] then None
          else map_option ((*) (real (digits_value (digit_run s)))) (scale_of (after_digits s))
      | [] \<Rightarrow> if s = [] then None else Some (real (digits_value s)))"

fun number_text :: "string \<Rightarrow> real option" where
  "number_text [] = None"
| "number_text (c # s) =
     (if c = CHR ''-'' then map_option uminus (unsigned_number s)
      else if c = CHR ''+'' then unsigned_number s
      else unsigned_number (c # s))"

text \<open>\<open>(\{[^}]*\})?\<close>: what follows the label set, \<open>None\<close> when it does not close.\<close>

definition after_labels :: "string \<Rightarrow> string option" where
  "after_labels s =
     (case s of
        c # t \<Rightarrow> if c = CHR ''{'' then (case dropWhile (\<lambda>x. x \<noteq> CHR ''}'') t of [] \<Rightarrow> None | _ # r \<Rightarrow> Some r)
                else Some s
      | [] \<Rightarrow> Some s)"

definition parse_metric_line :: "string \<Rightarrow> (string \<times> real) option" where
  "parse_metric_line line =
     (if line = [] \<or> \<not> name_start (hd line) then None
      else case after_labels (dropWhile name_char line) of
             None \<Rightarrow> None
           | Some r \<Rightarrow>
               (if r = [] \<or> \<not> is_space (hd r) then None
                else map_option (Pair (takeWhile name_char line)) (number_text (dropWhile is_space r))))"

section \<open>A page\<close>

text \<open>\<open>str.splitlines()\<close>; \<open>\r\n\<close> is one separator.\<close>

definition line_break :: "char \<Rightarrow> bool" where
  "line_break c = (c \<in> {CHR 0x0A, CHR 0x0B, CHR 0x0C, CHR 0x0D, CHR 0x1C, CHR 0x1D, CHR 0x1E})"

fun split_lines :: "string \<Rightarrow> string \<Rightarrow> string list" where
  "split_lines cur [] = (if cur = [] then [] else [cur])"
| "split_lines cur [c] = (if line_break c then [cur] else [cur @ [c]])"
| "split_lines cur (c # d # s) =
     (if c = CHR 0x0D \<and> d = CHR 0x0A then cur # split_lines [] s
      else if line_break c then cur # split_lines [] (d # s)
      else split_lines (cur @ [c]) (d # s))"

definition metric_of_line :: "string \<Rightarrow> (string \<times> real) option" where
  "metric_of_line raw =
     (let line = str_strip raw in
      if line = [] \<or> starts_with ''#'' line then None else parse_metric_line line)"

fun add_lines :: "string list \<Rightarrow> (string, real) dict \<Rightarrow> (string, real) dict" where
  "add_lines [] values = values"
| "add_lines (l # ls) values =
     (case metric_of_line l of
        None \<Rightarrow> add_lines ls values
      | Some (name, x) \<Rightarrow> add_lines ls (dset name (dget values name 0 + x) values))"

definition parse_metrics :: "string \<Rightarrow> (string, real) dict" where
  "parse_metrics text = add_lines (split_lines [] text) []"

section \<open>The client\<close>

record metric_names =
  mn_running :: string
  mn_waiting :: string
  mn_kv :: string
  mn_prompt :: string
  mn_generation :: string

definition vllm_names :: metric_names where
  "vllm_names = \<lparr>mn_running = ''vllm:num_requests_running'', mn_waiting = ''vllm:num_requests_waiting'',
     mn_kv = ''vllm:kv_cache_usage_perc'', mn_prompt = ''vllm:prompt_tokens'', mn_generation = ''vllm:generation_tokens''\<rparr>"

definition sglang_names :: metric_names where
  "sglang_names = \<lparr>mn_running = ''sglang:num_running_reqs'', mn_waiting = ''sglang:num_queue_reqs'',
     mn_kv = ''sglang:token_usage'', mn_prompt = ''sglang:prompt_tokens_total'', mn_generation = ''sglang:generation_tokens_total''\<rparr>"

text \<open>A list or an object as the engine cannot be looked up: the exception of that replica's scrape.\<close>

fun names_of :: "jval \<Rightarrow> metric_names option" where
  "names_of (JStr e) = Some (if e = ''sglang'' then sglang_names else vllm_names)"
| "names_of (JList _) = None"
| "names_of (JObj _) = None"
| "names_of _ = Some vllm_names"

datatype sleep_answer = No_Answer | Sleep_Status nat "jval option"

record replicas =
  re_page :: "string \<Rightarrow> string option"
  re_sleeping :: "string \<Rightarrow> sleep_answer"

definition unreachable :: metric where
  "unreachable = \<lparr>mt_running = PInf, mt_waiting = PInf, mt_kv = PInf, mt_prompt_tokens = PInf,
     mt_generation_tokens = PInf, mt_is_sleeping = False\<rparr>"

definition fetch :: "replicas \<Rightarrow> string \<Rightarrow> jval \<Rightarrow> metric option" where
  "fetch re base_url engine =
     (case (re_page re (base_url @ ''/metrics''), names_of engine) of
        (Some text, Some ns) \<Rightarrow>
          (let v = (\<lambda>name. Fin (dget (parse_metrics text) name 0))
           in Some \<lparr>mt_running = v (mn_running ns), mt_waiting = v (mn_waiting ns), mt_kv = v (mn_kv ns),
                mt_prompt_tokens = v (mn_prompt ns), mt_generation_tokens = v (mn_generation ns), mt_is_sleeping = False\<rparr>)
      | _ \<Rightarrow> None)"

definition safe_fetch :: "replicas \<Rightarrow> string \<Rightarrow> jval \<Rightarrow> metric" where
  "safe_fetch re base_url engine = (case fetch re base_url engine of Some m \<Rightarrow> m | None \<Rightarrow> unreachable)"

definition fetch_many :: "replicas \<Rightarrow> (string, string \<times> jval) dict \<Rightarrow> (string, metric) dict" where
  "fetch_many re backends = map (\<lambda>(name, url, engine). (name, safe_fetch re url engine)) backends"

fun finite :: "fnum \<Rightarrow> jval" where
  "finite (Fin r) = JFloat r"
| "finite PInf = JNull"

definition metric_dict :: "string \<Rightarrow> string option \<Rightarrow> metric \<Rightarrow> (string, jval) dict" where
  "metric_dict base_url raw m =
     [(''base_url'', JStr base_url), (''running'', finite (mt_running m)), (''waiting'', finite (mt_waiting m)),
      (''kv_cache_usage_perc'', finite (mt_kv m)), (''prompt_tokens'', finite (mt_prompt_tokens m)),
      (''generation_tokens'', finite (mt_generation_tokens m)), (''is_sleeping'', JBool (mt_is_sleeping m)),
      (''raw_metrics'', (case raw of None \<Rightarrow> JNull | Some t \<Rightarrow> JStr t))]"

section \<open>The poll cycle\<close>

text \<open>\<open>f"{model_key}\x00{instance['id']}"\<close>\<close>

definition composite :: "string \<Rightarrow> string \<Rightarrow> string" where
  "composite model_key iid = model_key @ [CHR 0x00] @ iid"

definition poll_url :: "rstate \<Rightarrow> string \<Rightarrow> inst_cfg \<Rightarrow> string" where
  "poll_url s model_key i =
     (case instance_addr s model_key i of (host, port) \<Rightarrow> ''http://'' @ host @ '':'' @ show_int port)"

definition poll_engine :: "group_cfg \<Rightarrow> jval" where
  "poll_engine g = dget (group_mc g) ''engine'' (JStr ''vllm'')"

definition sleep_capable :: "group_cfg \<Rightarrow> bool" where
  "sleep_capable g = truthy (jget (group_mc g) ''enable_sleep_mode'')"

text \<open>Every (group, instance) of the configuration, in its order.\<close>

definition poll_pairs :: "root_cfg \<Rightarrow> (string \<times> group_cfg \<times> inst_cfg) list" where
  "poll_pairs config = concat (map (\<lambda>(m, g). map (\<lambda>i. (m, g, i)) (group_instances g)) (rc_engines config))"

definition poll_index :: "root_cfg \<Rightarrow> (string \<times> string \<times> string) list" where
  "poll_index config = map (\<lambda>(m, g, i). (m, ic_id i, composite m (ic_id i))) (poll_pairs config)"

definition poll_backends :: "rstate \<Rightarrow> root_cfg \<Rightarrow> (string, string \<times> jval) dict" where
  "poll_backends s config =
     fold (\<lambda>(m, g, i). dset (composite m (ic_id i)) (poll_url s m i, poll_engine g)) (poll_pairs config) []"

definition sleep_backends :: "(string, string \<times> jval) dict \<Rightarrow> root_cfg \<Rightarrow> (string, string) dict" where
  "sleep_backends backends config =
     fold (\<lambda>(m, g, i) d.
         case map_of backends (composite m (ic_id i)) of
           Some (url, _) \<Rightarrow> if sleep_capable g then dset (composite m (ic_id i)) url d else d
         | None \<Rightarrow> d) (poll_pairs config) []"

definition probe_sleeping :: "replicas \<Rightarrow> string \<Rightarrow> bool" where
  "probe_sleeping re base_url =
     (case re_sleeping re (base_url @ ''/is_sleeping'') of
        Sleep_Status c (Some (JObj d)) \<Rightarrow> c = 200 \<and> truthy (dget d ''is_sleeping'' (JBool False))
      | _ \<Rightarrow> False)"

text \<open>The metric of one replica, with the sleep flag when its probe says so.\<close>

definition flagged :: "(string, metric) dict \<Rightarrow> (string, bool) dict \<Rightarrow> string \<Rightarrow> metric" where
  "flagged flat sleeping ck =
     (let m = dget flat ck unreachable in if dget sleeping ck False then m\<lparr>mt_is_sleeping := True\<rparr> else m)"

definition new_cache ::
  "(string, metric) dict \<Rightarrow> (string, bool) dict \<Rightarrow> (string \<times> string \<times> string) list \<Rightarrow> (string, (string, metric) dict) dict" where
  "new_cache flat sleeping index =
     fold (\<lambda>(m, iid, ck) c. dset m (dset iid (flagged flat sleeping ck) (dget c m [])) c) index []"

text \<open>
  One turn of the loop.  \<open>live\<close>: the addresses in the shared store, \<open>None\<close> without one or when it
  fails; \<open>drains\<close>: the shared drain marks, \<open>None\<close> likewise (the local ones then stay).
\<close>

definition poll_cycle ::
  "replicas \<Rightarrow> root_cfg \<Rightarrow> ((string \<times> string) \<times> (string \<times> int)) list option \<Rightarrow> (string, real) dict option \<Rightarrow> rstate \<Rightarrow> rstate" where
  "poll_cycle re config live drains s =
     (let s1 = s\<lparr>live_addrs := (case live of None \<Rightarrow> [] | Some rows \<Rightarrow> fold (\<lambda>(k, addr). dset k addr) rows [])\<rparr>;
          backends = poll_backends s1 config;
          flat = fetch_many re backends;
          sleeping = map (\<lambda>(name, url). (name, probe_sleeping re url)) (sleep_backends backends config)
      in s1\<lparr>metrics_cache := new_cache flat sleeping (poll_index config),
            draining := (case drains of None \<Rightarrow> draining s1 | Some d \<Rightarrow> d)\<rparr>)"

section \<open>The routes around the proxy\<close>

datatype inference_route =
    ChatCompletions | Completions | Messages | CountTokens | Tokenize | Detokenize | Embeddings | Rerank | Score

fun route_path :: "inference_route \<Rightarrow> string" where
  "route_path ChatCompletions = ''/v1/chat/completions''"
| "route_path Completions = ''/v1/completions''"
| "route_path Messages = ''/v1/messages''"
| "route_path CountTokens = ''/v1/messages/count_tokens''"
| "route_path Tokenize = ''/tokenize''"
| "route_path Detokenize = ''/detokenize''"
| "route_path Embeddings = ''/v1/embeddings''"
| "route_path Rerank = ''/v1/rerank''"
| "route_path Score = ''/v1/score''"

fun pooling_kind :: "inference_route \<Rightarrow> string option" where
  "pooling_kind Embeddings = Some ''embed''"
| "pooling_kind Rerank = Some ''rerank''"
| "pooling_kind Score = Some ''rerank''"
| "pooling_kind _ = None"

text \<open>
  The pass-through to the embedding server.  A null section, or anything else the code does not
  expect, is its 500.  The request is logged under its model when that is a non-empty string (what the
  driver does with another value is not modelled).
\<close>

definition embedding_model :: "jval option \<Rightarrow> string option" where
  "embedding_model request_json =
     (case request_json of
        Some v \<Rightarrow> (case jor v (JObj []) of JObj d \<Rightarrow> jopt_text (jget d ''model'') | _ \<Rightarrow> None)
      | None \<Rightarrow> None)"

definition embedding_url :: "(real \<Rightarrow> string) \<Rightarrow> root_cfg \<Rightarrow> string \<Rightarrow> string option" where
  "embedding_url fl config path =
     (let url = (\<lambda>d. ''http://'' @ py_str fl (dget d ''host'' (JStr ''localhost'')) @ '':'' @ py_str fl (dget d ''port'' (JInt 8003)) @ path)
      in case rc_embedding config of Absent \<Rightarrow> Some (url []) | Null \<Rightarrow> None | Val d \<Rightarrow> Some (url d))"

definition proxy_to_embedding_server ::
  "(real \<Rightarrow> string) \<Rightarrow> (string \<Rightarrow> jval option) \<Rightarrow> (string \<Rightarrow> upstream) \<Rightarrow> root_cfg \<Rightarrow> string \<Rightarrow> jval option \<Rightarrow>
     string option \<Rightarrow> log_row list option \<Rightarrow> (http_exc + resp) \<times> log_row list option" where
  "proxy_to_embedding_server fl loads answer config path request_json key_name rows =
     (case embedding_url fl config path of
        None \<Rightarrow> (Inl (mk_exc 500 ''Unexpected error''), rows)
      | Some url \<Rightarrow>
          (case answer url of
             Transport er \<Rightarrow>
               (Inl (mk_exc 503 ''Cannot connect to embedding server''),
                (case record_request (embedding_model request_json) None path (Some 503) JNull (Some er) key_name rows of
                   None \<Rightarrow> rows | Some rows1 \<Rightarrow> rows1))
           | Answer r \<Rightarrow>
               (Inr r,
                (case record_request (embedding_model request_json) None path (Some (rs_status r)) (usage_from_body loads (rs_body r))
                        None key_name rows of
                   None \<Rightarrow> rows | Some rows1 \<Rightarrow> rows1))))"

datatype inference =
    Refused http_exc
  | Uncaught
  | Proxied "(http_exc + served) \<times> pxy"
  | Forwarded "(http_exc + resp) \<times> log_row list option"

definition serve_inference ::
  "auth_env \<Rightarrow> real \<Rightarrow> real \<Rightarrow> auth_store option \<Rightarrow> auth_request \<Rightarrow> proxy_env \<Rightarrow> (real \<Rightarrow> string) \<Rightarrow> (string \<Rightarrow> jval option) \<Rightarrow>
     (string \<Rightarrow> upstream) \<Rightarrow> root_cfg \<Rightarrow> log_row list option \<Rightarrow> inference_route \<Rightarrow> jval option \<Rightarrow> auth_state \<Rightarrow> rstate \<Rightarrow>
     inference \<times> auth_state" where
  "serve_inference ae now wall store rq pe fl loads answer config rows rt request_json au s =
     (let path = route_path rt; proxied = proxy_to_backend (pe\<lparr>pe_path := path\<rparr>) config request_json s in
      case authenticate ae now wall store rq au of
        (Inl er, au1) \<Rightarrow> (Refused er, au1)
      | (Inr key_name, au1) \<Rightarrow>
          ((case pooling_kind rt of
              None \<Rightarrow> Proxied proxied
            | Some kind \<Rightarrow>
                (case dispatch_pooling config kind request_json of
                   None \<Rightarrow> Uncaught
                 | Some (ToBackend t) \<Rightarrow> Proxied proxied
                 | Some KindMismatch \<Rightarrow> Refused (mk_exc 404 ''kind'')
                 | Some ToEmbeddingServer \<Rightarrow>
                     Forwarded (proxy_to_embedding_server fl loads answer config path request_json key_name rows))), au1))"

section \<open>Lines and pages\<close>

text \<open>What a page says of a name: the sum of its series.\<close>

definition series_sum :: "string \<Rightarrow> string \<Rightarrow> real" where
  "series_sum name text =
     sum_list (map snd (filter (\<lambda>p. fst p = name) (List.map_filter metric_of_line (split_lines [] text))))"

lemma add_lines_sum:
  "dget (add_lines ls d) name 0 =
     dget d name 0 + sum_list (map snd (filter (\<lambda>p. fst p = name) (List.map_filter metric_of_line ls)))"
  by (induction ls arbitrary: d) (auto simp: List.map_filter_simps split: option.splits)

lemma parse_metrics_sum: "dget (parse_metrics text) name 0 = series_sum name text"
  by (simp add: parse_metrics_def series_sum_def add_lines_sum) (simp add: dget_def)

text \<open>Labels do not change what a line says.\<close>

lemma after_run: "list_all P xs \<Longrightarrow> \<not> P y \<Longrightarrow> takeWhile P (xs @ y # zs) = xs \<and> dropWhile P (xs @ y # zs) = y # zs"
  by (induction xs) auto

lemma labels_ignored:
  assumes "list_all name_char name" "name \<noteq> []" "CHR ''}'' \<notin> set lbls"
  shows "parse_metric_line (name @ ''{'' @ lbls @ ''} '' @ x) = parse_metric_line (name @ '' '' @ x)"
proof -
  have stop: "\<not> name_char (CHR ''{'')" "\<not> name_char (CHR '' '')"
    by (simp_all add: name_char_def name_start_def is_alpha_def is_digit_def)
  have lab: "dropWhile (\<lambda>y. y \<noteq> CHR ''}'') (lbls @ CHR ''}'' # CHR '' '' # x) = CHR ''}'' # CHR '' '' # x"
    using assms(3) by (induction lbls) auto
  show ?thesis
    using assms(2) after_run [OF assms(1) stop(1), of "lbls @ CHR ''}'' # CHR '' '' # x"] after_run [OF assms(1) stop(2), of x]
    by (simp add: parse_metric_line_def after_labels_def lab hd_append)
qed

section \<open>What a cycle leaves\<close>

lemma composite_inj:
  assumes "CHR 0x00 \<notin> set m" "CHR 0x00 \<notin> set m'" "composite m i = composite m' i'"
  shows "m = m' \<and> i = i'"
proof -
  have "takeWhile (\<lambda>c. c \<noteq> CHR 0x00) (composite a b) = a \<and> dropWhile (\<lambda>c. c \<noteq> CHR 0x00) (composite a b) = CHR 0x00 # b"
    if "CHR 0x00 \<notin> set a" for a b
    using that by (induction a) (auto simp: composite_def)
  from this [OF assms(1), of i] this [OF assms(2), of i'] show ?thesis
    unfolding assms(3) by simp
qed

text \<open>Group names without the separator, and the ids of a group distinct: one scrape per replica.\<close>

definition poll_ok :: "root_cfg \<Rightarrow> bool" where
  "poll_ok config = (dict_ok (rc_engines config) \<and>
     list_all (\<lambda>(m, g). CHR 0x00 \<notin> set m \<and> distinct (map ic_id (group_instances g))) (rc_engines config))"

definition pair_key :: "string \<times> group_cfg \<times> inst_cfg \<Rightarrow> string" where
  "pair_key p = composite (fst p) (ic_id (snd (snd p)))"

lemma poll_pairs_iff:
  "dict_ok (rc_engines config) \<Longrightarrow> (m, g, i) \<in> set (poll_pairs config) \<longleftrightarrow>
     map_of (rc_engines config) m = Some g \<and> i \<in> set (group_instances g)"
  by (auto simp: poll_pairs_def dict_ok_def)

lemma pair_keys_distinct: "poll_ok config \<Longrightarrow> distinct (map pair_key (poll_pairs config))"
proof -
  have "distinct (map pair_key (concat (map (\<lambda>(m, g). map (\<lambda>i. (m, g, i)) (group_instances g)) es)))"
    if "distinct (map fst es)" "list_all (\<lambda>(m, g). CHR 0x00 \<notin> set m \<and> distinct (map ic_id (group_instances g))) es"
    for es :: "(string \<times> group_cfg) list"
    using that
  proof (induction es)
    case (Cons e es)
    obtain m g where e: "e = (m, g)" by (cases e)
    have m: "CHR 0x00 \<notin> set m" "distinct (map ic_id (group_instances g))"
      using Cons.prems(2) by (simp_all add: e)
    have one: "distinct (map pair_key (map (\<lambda>i. (m, g, i)) (group_instances g)))"
      using m(2) by (auto simp: pair_key_def distinct_map inj_on_def dest: composite_inj [OF m(1) m(1)])
    have "pair_key (m, g, i) \<noteq> pair_key (m', g', i')" if "(m', g') \<in> set es" for m' g' i i'
      using that Cons.prems composite_inj [OF m(1), of m'] by (force simp: pair_key_def e list_all_iff)
    then show ?case
      using Cons one by (fastforce simp: e)
  qed simp
  then show "poll_ok config \<Longrightarrow> ?thesis"
    by (simp add: poll_ok_def dict_ok_def poll_pairs_def)
qed

lemma fold_table:
  assumes "distinct (map f ps)"
  shows "fold (\<lambda>p d. if P p then dset (f p) (v p) d else d) ps [] = map (\<lambda>p. (f p, v p)) (filter P ps)"
proof -
  have "fold (\<lambda>p d. if P p then dset (f p) (v p) d else d) ps d0 = d0 @ map (\<lambda>p. (f p, v p)) (filter P ps)"
    if "distinct (map f ps)" "\<And>p. p \<in> set ps \<Longrightarrow> \<not> dhas d0 (f p)" for d0
    using that
  proof (induction ps arbitrary: d0)
    case (Cons p ps)
    have "\<not> dhas (dset (f p) (v p) d0) (f q)" if "q \<in> set ps" for q
      using that Cons.prems by (auto simp: image_iff)
    then show ?case
      using Cons by (auto simp: dset_absent)
  qed simp
  from this [OF assms] show ?thesis by (simp add: dhas_def)
qed

lemma map_of_table:
  "distinct (map f ps) \<Longrightarrow> p \<in> set ps \<Longrightarrow> map_of (map (\<lambda>p. (f p, v p)) (filter P ps)) (f p) = (if P p then Some (v p) else None)"
  by (induction ps) (auto simp: map_of_eq_None_iff image_iff)

lemma poll_backends_table:
  assumes "poll_ok config"
  shows "poll_backends s config = map (\<lambda>p. (pair_key p, poll_url s (fst p) (snd (snd p)), poll_engine (fst (snd p)))) (poll_pairs config)"
proof -
  have "poll_backends s config = fold (\<lambda>p d. if True then dset (pair_key p) (poll_url s (fst p) (snd (snd p)), poll_engine (fst (snd p))) d else d)
          (poll_pairs config) []"
    unfolding poll_backends_def by (intro fold_cong) (auto simp: pair_key_def)
  then show ?thesis
    using fold_table [OF pair_keys_distinct [OF assms], of "\<lambda>_. True"] by simp
qed

lemma sleep_backends_table:
  assumes "poll_ok config"
  shows "sleep_backends (poll_backends s config) config =
    map (\<lambda>p. (pair_key p, poll_url s (fst p) (snd (snd p)))) (filter (\<lambda>p. sleep_capable (fst (snd p))) (poll_pairs config))"
proof -
  note d = pair_keys_distinct [OF assms]
  have "map_of (poll_backends s config) (pair_key p) = Some (poll_url s (fst p) (snd (snd p)), poll_engine (fst (snd p)))"
    if "p \<in> set (poll_pairs config)" for p
    using map_of_table [OF d that, of _ "\<lambda>_. True"] by (simp add: poll_backends_table [OF assms])
  then have "sleep_backends (poll_backends s config) config =
      fold (\<lambda>p d. if sleep_capable (fst (snd p)) then dset (pair_key p) (poll_url s (fst p) (snd (snd p))) d else d) (poll_pairs config) []"
    unfolding sleep_backends_def by (intro fold_cong) (auto simp: pair_key_def)
  then show ?thesis
    by (simp only: fold_table [OF d])
qed

text \<open>The cache built from a function of the replica.\<close>

lemma new_cache_lookup:
  "map_of (dget (fold (\<lambda>(m, iid, ck) c. dset m (dset iid (V ck) (dget c m [])) c) index c0) m []) iid =
     (case find (\<lambda>x. fst x = m \<and> fst (snd x) = iid) (rev index) of
        Some x \<Rightarrow> Some (V (snd (snd x))) | None \<Rightarrow> map_of (dget c0 m []) iid)"
  by (induction index arbitrary: c0 rule: rev_induct) auto

definition expected_metric :: "replicas \<Rightarrow> rstate \<Rightarrow> string \<Rightarrow> group_cfg \<Rightarrow> inst_cfg \<Rightarrow> metric" where
  "expected_metric re s m g i =
     (safe_fetch re (poll_url s m i) (poll_engine g))
       \<lparr>mt_is_sleeping := sleep_capable g \<and> probe_sleeping re (poll_url s m i)\<rparr>"

lemma safe_fetch_awake: "mt_is_sleeping (safe_fetch re u e) = False"
  by (auto simp: safe_fetch_def fetch_def unreachable_def Let_def split: option.splits)

lemma unset_flag: "(safe_fetch re u e)\<lparr>mt_is_sleeping := False\<rparr> = safe_fetch re u e"
  using safe_fetch_awake [of re u e] by (cases "safe_fetch re u e") simp

lemma flagged_expected:
  assumes "poll_ok config" "(m, g, i) \<in> set (poll_pairs config)"
  shows "flagged (fetch_many re (poll_backends s config))
           (map (\<lambda>(name, url). (name, probe_sleeping re url)) (sleep_backends (poll_backends s config) config)) (composite m (ic_id i))
         = expected_metric re s m g i"
proof -
  note d = pair_keys_distinct [OF assms(1)]
  have k: "composite m (ic_id i) = pair_key (m, g, i)"
    by (simp add: pair_key_def)
  have "map_of (fetch_many re (poll_backends s config)) (pair_key (m, g, i)) = Some (safe_fetch re (poll_url s m i) (poll_engine g))"
    using map_of_table [OF d assms(2), of "\<lambda>p. safe_fetch re (poll_url s (fst p) (snd (snd p))) (poll_engine (fst (snd p)))" "\<lambda>_. True"]
    by (simp add: fetch_many_def poll_backends_table [OF assms(1)] comp_def)
  moreover have "map_of (map (\<lambda>(name, url). (name, probe_sleeping re url)) (sleep_backends (poll_backends s config) config)) (pair_key (m, g, i))
      = (if sleep_capable g then Some (probe_sleeping re (poll_url s m i)) else None)"
    using map_of_table [OF d assms(2), of "\<lambda>p. probe_sleeping re (poll_url s (fst p) (snd (snd p)))" "\<lambda>p. sleep_capable (fst (snd p))"]
    by (simp add: sleep_backends_table [OF assms(1)] comp_def)
  ultimately show ?thesis
    unfolding k flagged_def dget_def expected_metric_def Let_def
    by (auto simp: unset_flag)
qed

lemma find_in: "find P xs = Some x \<Longrightarrow> x \<in> set xs \<and> P x"
  by (induction xs) (auto split: if_splits)

text \<open>
  C6: After a cycle of the metrics poller the cache holds, for every replica of the configuration and for no
  other, what its page said (scraped at the address where the shared store has it, else at the configured
  one; the unreachable mark on any failure), and the sleep flag exactly when its group may sleep and its own
  probe said it does.
\<close>

theorem poll_cycle_exact:
  assumes "poll_ok config"
  shows "cached_metric (poll_cycle re config live drains s) m iid =
    (case map_of (rc_engines config) m of
       None \<Rightarrow> None
     | Some g \<Rightarrow> map_option (expected_metric re (poll_cycle re config live drains s) m g)
                   (find (\<lambda>i. ic_id i = iid) (group_instances g)))"
proof -
  define s1 where "s1 = s\<lparr>live_addrs := (case live of None \<Rightarrow> [] | Some rows \<Rightarrow> fold (\<lambda>(k, addr). dset k addr) rows [])\<rparr>"
  define V where "V = flagged (fetch_many re (poll_backends s1 config))
     (map (\<lambda>(name, url). (name, probe_sleeping re url)) (sleep_backends (poll_backends s1 config) config))"
  have addr: "instance_addr (poll_cycle re config live drains s) = instance_addr s1"
    by (auto simp: fun_eq_iff instance_addr_def poll_cycle_def s1_def Let_def)
  have ok: "dict_ok (rc_engines config)"
    using assms by (simp add: poll_ok_def)
  have "cached_metric (poll_cycle re config live drains s) m iid =
      map_of (dget (fold (\<lambda>(m, iid, ck) c. dset m (dset iid (V ck) (dget c m [])) c) (poll_index config) []) m []) iid"
    by (simp add: cached_metric_def poll_cycle_def Let_def new_cache_def V_def s1_def)
  also have "\<dots> = (case find (\<lambda>x. fst x = m \<and> fst (snd x) = iid) (rev (poll_index config)) of
      Some x \<Rightarrow> Some (V (snd (snd x))) | None \<Rightarrow> None)"
    unfolding new_cache_lookup by (simp add: dget_def split: option.split)
  finally have cache: "cached_metric (poll_cycle re config live drains s) m iid = \<dots>" .
  show ?thesis
  proof (cases "find (\<lambda>x. fst x = m \<and> fst (snd x) = iid) (rev (poll_index config))")
    case None
    then have "\<nexists>g i. (m, g, i) \<in> set (poll_pairs config) \<and> ic_id i = iid"
      by (force simp: find_None_iff poll_index_def)
    then show ?thesis
      using cache None by (auto simp: poll_pairs_iff [OF ok] find_None_iff split: option.splits)
  next
    case (Some x)
    then have "x \<in> set (poll_index config)" "fst x = m" "fst (snd x) = iid"
      using find_in [OF Some] by auto
    then obtain g i where gi: "x = (m, ic_id i, composite m (ic_id i))" "(m, g, i) \<in> set (poll_pairs config)" "ic_id i = iid"
      by (auto simp: poll_index_def)
    have g: "map_of (rc_engines config) m = Some g" "i \<in> set (group_instances g)"
      using gi(2) by (auto simp: poll_pairs_iff [OF ok])
    have "distinct (map ic_id (group_instances g))"
      using assms g(1) by (auto simp: poll_ok_def list_all_iff dest: map_of_SomeD)
    then have "find (\<lambda>i. ic_id i = iid) (group_instances g) = Some i"
      using find_by_id g(2) gi(3) by blast
    then show ?thesis
      using cache Some gi flagged_expected [OF assms gi(2)] g(1)
      by (simp add: V_def expected_metric_def poll_url_def addr)
  qed
qed

section \<open>Reading a page back\<close>

lemma split_line: "list_all (\<lambda>c. \<not> line_break c) l \<Longrightarrow> split_lines cur (l @ CHR 0x0A # s) = (cur @ l) # split_lines [] s"
proof (induction l arbitrary: cur)
  case Nil
  then show ?case by (cases s) (simp_all add: line_break_def)
next
  case (Cons c l)
  have "\<not> line_break c" "c \<noteq> CHR 0x0D" using Cons.prems by (auto simp: line_break_def)
  then show ?case
    using Cons by (cases l) (simp_all add: line_break_def)
qed

lemma digits_value_snoc: "digits_value (s @ [c]) = 10 * digits_value s + (of_char c - 48)"
  by (simp add: digits_value_def)

lemma digit_read: "n < 10 \<Longrightarrow> is_digit (char_of (48 + n)) \<and> of_char (char_of (48 + n)) = (48 + n :: nat)"
  by (simp add: is_digit_def Let_def)

lemma shown_digits: "list_all is_digit (show_nat n) \<and> show_nat n \<noteq> [] \<and> digits_value (show_nat n) = n"
proof (induction n rule: show_nat.induct)
  case (1 n)
  have "n mod 10 < 10" by simp
  then show ?case
    using 1 digit_read [of n] digit_read [of "n mod 10"]
    by (cases "n < 10") (auto simp: show_nat.simps [of n] digits_value_snoc, simp_all add: digits_value_def)
qed

lemma number_shown: "number_text (show_nat n) = Some (real n)"
proof -
  have d: "list_all is_digit (show_nat n)" "show_nat n \<noteq> []" "digits_value (show_nat n) = n"
    using shown_digits by auto
  have u: "unsigned_number (show_nat n) = Some (real n)"
  proof -
    have "after_digits (show_nat n) = []"
      using d(1) by (simp add: after_digits_def dropWhile_eq_Nil_conv list_all_iff)
    then show ?thesis by (simp only: unsigned_number_def list.case if_not_P [OF d(2)] d(3))
  qed
  obtain c t where c: "show_nat n = c # t" using d(2) by (cases "show_nat n") auto
  have "c \<noteq> CHR ''-''" "c \<noteq> CHR ''+''"
    using d(1) by (auto simp: c is_digit_def Let_def)
  then show ?thesis using u by (simp add: c)
qed

lemma strip_ends: "s \<noteq> [] \<Longrightarrow> \<not> is_space (hd s) \<Longrightarrow> \<not> is_space (last s) \<Longrightarrow> str_strip s = s"
proof -
  have keep: "dropWhile is_space t = t" if "t \<noteq> []" "\<not> is_space (hd t)" for t
    using that by (cases t) auto
  assume "s \<noteq> []" "\<not> is_space (hd s)" "\<not> is_space (last s)"
  then show ?thesis
    using keep [of s] keep [of "rev s"] by (simp add: str_strip_def str_lstrip_def hd_rev)
qed

text \<open>A page as an engine writes it: one counter per line, with or without labels.\<close>

type_synonym series = "string \<times> string \<times> nat"

fun series_line :: "series \<Rightarrow> string" where
  "series_line (name, lbls, n) = name @ (if lbls = [] then [] else ''{'' @ lbls @ ''}'') @ '' '' @ show_nat n"

definition render :: "series list \<Rightarrow> string" where
  "render rows = concat (map (\<lambda>r. series_line r @ [CHR 0x0A]) rows)"

fun series_ok :: "series \<Rightarrow> bool" where
  "series_ok (name, lbls, n) =
     (name \<noteq> [] \<and> name_start (hd name) \<and> list_all name_char name \<and>
      list_all (\<lambda>c. c \<noteq> CHR ''}'' \<and> \<not> line_break c) lbls)"

lemma name_char_plain: "name_char c \<Longrightarrow> \<not> line_break c \<and> \<not> is_space c \<and> c \<noteq> CHR ''#''"
  by (auto simp: name_char_def name_start_def is_alpha_def is_digit_def line_break_def is_space_def Let_def)

lemma digit_plain: "is_digit c \<Longrightarrow> \<not> line_break c \<and> \<not> is_space c"
  by (auto simp: is_digit_def line_break_def is_space_def Let_def)

lemma series_line_read:
  assumes "series_ok (name, lbls, n)"
  shows "metric_of_line (series_line (name, lbls, n)) = Some (name, real n)"
    and "list_all (\<lambda>c. \<not> line_break c) (series_line (name, lbls, n))"
proof -
  have nm: "name \<noteq> []" "name_start (hd name)" "list_all name_char name" and lb: "CHR ''}'' \<notin> set lbls"
    using assms by (auto simp: list_all_iff)
  have d: "list_all is_digit (show_nat n)" "show_nat n \<noteq> []"
    using shown_digits by auto
  show "list_all (\<lambda>c. \<not> line_break c) (series_line (name, lbls, n))"
    using assms d(1) name_char_plain digit_plain by (auto simp: list_all_iff line_break_def)
  have sp: "\<not> name_char (CHR '' '')"
    by (simp add: name_char_def name_start_def is_alpha_def is_digit_def)
  have "\<not> is_space (hd (show_nat n))"
    using d digit_plain by (cases "show_nat n") auto
  then have "dropWhile is_space (CHR '' '' # show_nat n) = show_nat n"
    using d(2) by (cases "show_nat n") (auto simp: is_space_def)
  then have "parse_metric_line (name @ '' '' @ show_nat n) = Some (name, real n)"
    using nm after_run [OF nm(3) sp, of "show_nat n"] number_shown [of n]
    by (simp add: parse_metric_line_def after_labels_def hd_append is_space_def)
  then have p: "parse_metric_line (series_line (name, lbls, n)) = Some (name, real n)"
    using labels_ignored [OF nm(3,1) lb, of "show_nat n"] by simp
  have h: "hd (series_line (name, lbls, n)) = hd name" "last (series_line (name, lbls, n)) = last (show_nat n)"
    "series_line (name, lbls, n) \<noteq> []"
    using nm(1) d(2) by simp_all
  have "\<not> is_space (hd name)" "hd name \<noteq> CHR ''#''" "\<not> is_space (last (show_nat n))"
    using nm d name_char_plain [of "hd name"] digit_plain by (auto simp: name_char_def list_all_iff)
  moreover from this have "\<not> starts_with ''#'' (series_line (name, lbls, n))"
    using h(1,3) by (cases "series_line (name, lbls, n)") (auto simp: starts_with_def simp del: series_line.simps)
  ultimately show "metric_of_line (series_line (name, lbls, n)) = Some (name, real n)"
    using p strip_ends [OF h(3)] h by (simp add: metric_of_line_def Let_def del: series_line.simps)
qed

lemma split_render: "list_all series_ok rows \<Longrightarrow> split_lines [] (render rows) = map series_line rows"
proof (induction rows)
  case (Cons r rows)
  obtain name lbls n where r: "r = (name, lbls, n)" by (cases r)
  have "split_lines [] (render (r # rows)) = split_lines [] (series_line r @ CHR 0x0A # render rows)"
    by (simp add: render_def)
  then show ?case
    using Cons split_line [OF series_line_read(2), of name lbls n "[]" "render rows"] by (simp add: r del: series_line.simps)
qed (simp add: render_def)

lemma read_rows:
  "list_all series_ok rows \<Longrightarrow> List.map_filter metric_of_line (map series_line rows) = map (\<lambda>(name, _, n). (name, real n)) rows"
  using series_line_read(1) by (induction rows) (auto simp: List.map_filter_simps simp del: series_line.simps series_ok.simps)

text \<open>
  A scrape of a page of counters, with any labels, gives each of the five fields the sum of the series of
  its name, whatever else the page has; a name that is not on the page reads 0.
\<close>

theorem scrape_sums_series:
  assumes "list_all series_ok rows" "re_page re (url @ ''/metrics'') = Some (render rows)" "names_of engine = Some ns"
  shows "fetch re url engine =
    (let total = (\<lambda>name. Fin (sum_list (map (\<lambda>(nm, _, n). if nm = name then real n else 0) rows)))
     in Some \<lparr>mt_running = total (mn_running ns), mt_waiting = total (mn_waiting ns), mt_kv = total (mn_kv ns),
          mt_prompt_tokens = total (mn_prompt ns), mt_generation_tokens = total (mn_generation ns), mt_is_sleeping = False\<rparr>)"
proof -
  have "sum_list (map snd (filter (\<lambda>p. fst p = name) (map (\<lambda>(name, _, n). (name, real n)) xs)))
      = sum_list (map (\<lambda>(nm, _, n). if nm = name then real n else 0) xs)" for name and xs :: "series list"
    by (induction xs) auto
  then have "dget (parse_metrics (render rows)) name 0 = sum_list (map (\<lambda>(nm, _, n). if nm = name then real n else 0) rows)" for name
    by (simp add: parse_metrics_sum series_sum_def split_render [OF assms(1)] read_rows [OF assms(1)])
  then show ?thesis
    using assms(2,3) by (simp add: fetch_def Let_def)
qed

section \<open>Witnesses\<close>

definition dozing :: root_cfg where
  "dozing = \<lparr>rc_engines = [(''q'', demo_group [(''enable_sleep_mode'', JBool True)] []
       [\<lparr>ic_id = ''a'', ic_host = None, ic_port = 1, ic_extra = []\<rparr>, \<lparr>ic_id = ''b'', ic_host = None, ic_port = 2, ic_extra = []\<rparr>])],
     rc_embedding = Absent, rc_rest = []\<rparr>"

definition dozing_replicas :: replicas where
  "dozing_replicas = \<lparr>re_page = (\<lambda>url. None),
     re_sleeping = (\<lambda>url. if url = ''http://h:7/is_sleeping'' then Sleep_Status 200 (Some (JObj [(''is_sleeping'', JBool True)])) else No_Answer)\<rparr>"

lemma seven: "show_int 7 = ''7''"
proof -
  have "char_of (55 :: nat) = CHR ''7''" by code_simp
  then show ?thesis by (simp add: show_int_def show_nat.simps)
qed

lemma poll_cycle_exact_witness:
  "cached_metric (poll_cycle dozing_replicas dozing (Some [((''q'', ''a''), (''h'', 7))]) None demo_rs) ''q'' ''a''
     = Some (unreachable\<lparr>mt_is_sleeping := True\<rparr>) \<and>
   cached_metric (poll_cycle dozing_replicas dozing (Some [((''q'', ''a''), (''h'', 7))]) None demo_rs) ''q'' ''b'' = Some unreachable \<and>
   cached_metric (poll_cycle dozing_replicas dozing (Some [((''q'', ''a''), (''h'', 7))]) None demo_rs) ''q'' ''c'' = None"
proof -
  have ok: "poll_ok dozing"
    by (simp add: poll_ok_def dozing_def demo_group_def dict_ok_def group_instances_def)
  have u: "unreachable\<lparr>mt_is_sleeping := False\<rparr> = unreachable"
    by (simp add: unreachable_def)
  show ?thesis
    unfolding poll_cycle_exact [OF ok]
    by (simp add: u dozing_def demo_group_def group_instances_def group_mc_def expected_metric_def safe_fetch_def fetch_def
        dozing_replicas_def sleep_capable_def probe_sleeping_def poll_url_def instance_addr_def poll_cycle_def Let_def
        jget_def dget_def dset_def seven)
qed

definition two_series :: "series list" where
  "two_series = [(''vllm:num_requests_waiting'', ''model_name=q'', 2), (''vllm:num_requests_waiting'', ''model_name=sql'', 3),
     (''vllm:prompt_tokens_total'', [], 5)]"

definition paged :: replicas where
  "paged = \<lparr>re_page = (\<lambda>url. if url = ''http://h:7/metrics'' then Some (render two_series) else None), re_sleeping = (\<lambda>url. No_Answer)\<rparr>"

lemma two_series_ok: "list_all series_ok two_series"
  by code_simp

lemma scrape_sums_series_witness:
  "fetch paged ''http://h:7'' (JStr ''vllm'') = Some \<lparr>mt_running = Fin 0, mt_waiting = Fin 5, mt_kv = Fin 0,
     mt_prompt_tokens = Fin 0, mt_generation_tokens = Fin 0, mt_is_sleeping = False\<rparr>"
proof -
  have "re_page paged (''http://h:7'' @ ''/metrics'') = Some (render two_series)" "names_of (JStr ''vllm'') = Some vllm_names"
    by (simp_all add: paged_def)
  from scrape_sums_series [OF two_series_ok this] show ?thesis
    by (simp add: two_series_def vllm_names_def)
qed

text \<open>
  The repository's own dashboards read the token counters as \<open>vllm:prompt_tokens_total\<close>: on such a page the
  client's names find nothing.
\<close>

lemma token_counters_missed:
  assumes "list_all series_ok rows" "re_page re (url @ ''/metrics'') = Some (render rows)"
    and "\<And>name lbls n. (name, lbls, n) \<in> set rows \<Longrightarrow> name \<noteq> ''vllm:prompt_tokens''"
  shows "map_option mt_prompt_tokens (fetch re url (JStr ''vllm'')) = Some (Fin 0)"
proof -
  have "filter (\<lambda>p. fst p = ''vllm:prompt_tokens'') (map (\<lambda>(name, _, n). (name, real n)) rows) = []"
    using assms(3) by (auto simp: filter_empty_conv)
  then have "dget (parse_metrics (render rows)) ''vllm:prompt_tokens'' 0 = 0"
    by (simp add: parse_metrics_sum series_sum_def split_render [OF assms(1)] read_rows [OF assms(1)])
  then show ?thesis
    using assms(2) by (simp add: fetch_def Let_def vllm_names_def)
qed

text \<open>A refused request reaches no replica and no embedding server.\<close>

lemma refused_inference:
  "fst (authenticate ae now wall store rq au) = Inl er \<Longrightarrow>
     fst (serve_inference ae now wall store rq pe fl loads answer config rows rt request_json au s) = Refused er"
  by (auto simp: serve_inference_def Let_def split: prod.splits)

end
