(* ===== verification/Model_Manager.thy ===== *)
theory Model_Manager
  imports Launchers "HOL-Library.List_Lexorder" "HOL-Library.Char_ord"
begin

text \<open>
  apps/backend/app/llmops/manager.py: the transitions a user asks for.  An operation is a function
  on the \<open>node\<close> with a result \<open>mgr_err + 'a\<close>; a handler that awaits something slow (a spawn, an
  engine call, a drain) is cut into the segments between its awaits, so that other handlers may run
  in between, and its composition without interleaving carries the handler's name.  What the other
  side does (the GPUs, whether a spawn or a call succeeds, what the router answers to a drain) is an
  argument.  \<open>env\<close> is what the manager was constructed with.
\<close>

section \<open>Errors and the environment\<close>

datatype mgr_err =
    ModelNotFound
  | ModelAlreadyRunning
  | ModelConflict
  | ConfigInvalid
  | VRAMInsufficient
  | GpuUnavailable
  | LoraRuntimeError
  | SleepError
  | LauncherKeyError  \<comment> \<open>\<open>KeyError\<close>/\<open>ValueError\<close> out of a launcher, or no launcher for the engine\<close>
  | ValidationError  \<comment> \<open>pydantic refuses the merged configuration\<close>
  | SpawnError
  | TransportError  \<comment> \<open>a call that got no HTTP answer\<close>

type_synonym 'a res = "(mgr_err + 'a) \<times> node"

record gpu =
  gp_index :: nat
  gp_total :: int
  gp_used :: int

record env =
  en_set :: settings
  en_launchers :: "launcher list"
  en_valid :: "root_cfg \<Rightarrow> bool"
  en_base :: root_cfg
  en_router :: bool
  en_gpus :: "gpu list"
  en_parse :: "string \<Rightarrow> root_cfg"
  en_dump :: "root_cfg \<Rightarrow> string"
  en_sha :: "string \<Rightarrow> string"
  en_dump_view :: "observed_view \<Rightarrow> string"
  en_parse_view :: "string \<Rightarrow> observed_view"

text \<open>\<open>self._launchers\<close>: keyed by (kind, engine), a later launcher replaces an earlier one.\<close>

definition launcher_map :: "env \<Rightarrow> (model_kind \<times> string, launcher) dict" where
  "launcher_map e = fold (\<lambda>l. dset (la_kind l, la_engine l) l) (en_launchers e) []"

definition launcher_for :: "env \<Rightarrow> model_kind \<Rightarrow> string \<Rightarrow> launcher option" where
  "launcher_for e kind engine = map_of (launcher_map e) (kind, engine)"

definition node_can_run :: "env \<Rightarrow> string \<Rightarrow> bool" where
  "node_can_run e engine = (se_node_engines (en_set e) = [] \<or> engine \<in> set (se_node_engines (en_set e)))"

definition instance_of :: "real \<Rightarrow> string \<Rightarrow> model_kind \<Rightarrow> launch_spec \<Rightarrow> minst" where
  "instance_of now key kind sp = (new_instance now key kind sp)\<lparr>mi_engine := ls_engine sp\<rparr>"

text \<open>\<open>build_registry\<close>; a launcher's \<open>KeyError\<close> ends it.\<close>

fun add_keys ::
  "real \<Rightarrow> root_cfg \<Rightarrow> launcher \<Rightarrow> string list \<Rightarrow> registry \<Rightarrow> registry option" where
  "add_keys now config l [] r = Some r"
| "add_keys now config l (key # ks) r =
     (case la_build l config key of
        None \<Rightarrow> None
      | Some sp \<Rightarrow> add_keys now config l ks (reg_add (instance_of now key (la_kind l) sp) r))"

fun build_registry :: "real \<Rightarrow> root_cfg \<Rightarrow> launcher list \<Rightarrow> registry \<Rightarrow> registry option" where
  "build_registry now config [] r = Some r"
| "build_registry now config (l # ls) r =
     (case add_keys now config l (la_keys l config) r of
        None \<Rightarrow> None | Some r' \<Rightarrow> build_registry now config ls r')"

section \<open>Ownership and desired state\<close>

definition defer_to_owner :: "real \<Rightarrow> string \<Rightarrow> desired \<Rightarrow> node \<Rightarrow> node" where
  "defer_to_owner now key d n =
     on_store (\<lambda>s. let s1 = set_instance_desired now key (desired_value d) None s
                   in if d \<noteq> D_STOPPED then delete_assignment key s1 else s1)
       (on_inst key (\<lambda>i. touch now (i\<lparr>mi_desired := d\<rparr>)) n)"

definition persist_desired :: "env \<Rightarrow> real \<Rightarrow> string \<Rightarrow> desired \<Rightarrow> node \<Rightarrow> node" where
  "persist_desired e now key d n =
     on_store (\<lambda>s. let s1 = set_instance_desired now key (desired_value d) None s
                   in if d \<noteq> D_STOPPED
                      then set_assignment now key (se_instance_id (en_set e)) None s1 else s1) n"

text \<open>Keys assigned to a different node that is alive.\<close>

definition foreign_assignments :: "env \<Rightarrow> real \<Rightarrow> node \<Rightarrow> string list" where
  "foreign_assignments e now n =
     (case nd_store n of
        None \<Rightarrow> []
      | Some s \<Rightarrow>
          (let alive_nodes = dkeys (list_nodes now None s)
           in map fst (filter (\<lambda>(k, nd). nd \<noteq> se_instance_id (en_set e) \<and> nd \<in> set alive_nodes)
                (list_assignments None s))))"

definition rstrip_slash :: "string \<Rightarrow> string" where
  "rstrip_slash u = rev (dropWhile (\<lambda>c. c = CHR ''/'') (rev u))"

definition owning_node_api_url :: "env \<Rightarrow> real \<Rightarrow> string \<Rightarrow> node \<Rightarrow> string option" where
  "owning_node_api_url e now key n =
     (case nd_store n of
        None \<Rightarrow> None
      | Some s \<Rightarrow>
          (case map_of (list_assignments None s) key of
             None \<Rightarrow> None
           | Some owner \<Rightarrow>
               if owner = se_instance_id (en_set e) then None
               else (case map_of (list_nodes now None s) owner of
                       None \<Rightarrow> None
                     | Some r \<Rightarrow> (case nd_api_url r of
                                   None \<Rightarrow> None
                                 | Some u \<Rightarrow> if u = [] then None else Some (rstrip_slash u)))))"

text \<open>The fleet as the dashboard sees it: each view with the id of its node.\<close>

definition fleet_views :: "env \<Rightarrow> real \<Rightarrow> bool \<Rightarrow> node \<Rightarrow> (string, observed_view \<times> string option) dict" where
  "fleet_views e now prefer_store n =
     (let base = fold (\<lambda>i. dset (mi_key i) (observed_dict i, Some (se_instance_id (en_set e))))
                   (reg_values (nd_reg n)) []
      in case (prefer_store, nd_store n) of
           (True, Some s) \<Rightarrow>
             (let b1 = fold (\<lambda>(k, r). let v = en_parse_view e (ob_view r) in dset (ov_key v) (v, ob_node r))
                         (list_instance_observed now None s) base
              in fold (\<lambda>(k, want) b. case map_of b k of
                          None \<Rightarrow> b
                        | Some (v, nid) \<Rightarrow> dset k (v\<lparr>ov_desired := want\<rparr>, nid) b)
                   (list_instance_desired s) b1)
         | _ \<Rightarrow> base)"

definition prefer_store_view :: "node \<Rightarrow> bool" where
  "prefer_store_view n = (nd_store n \<noteq> None \<and> nd_pg n)"

section \<open>The router\<close>

definition trigger_router_reload :: "env \<Rightarrow> node \<Rightarrow> node" where
  "trigger_router_reload e n = (if en_router e then log_call RouterReload n else n)"

definition undrain_instance :: "env \<Rightarrow> string \<Rightarrow> node \<Rightarrow> node" where
  "undrain_instance e key n = (if en_router e then log_call (RouterUndrain key) n else n)"

text \<open>
  One answer of the router to a drain post, with the monotonic clock read after it.  When the list
  of answers ends, the next post fails, which ends the drain like any other exception.
\<close>

datatype drain_answer = Inflight int real | BadStatus real | PostFails

fun drain_polls :: "real \<Rightarrow> drain_answer list \<Rightarrow> nat" where
  "drain_polls deadline [] = 1"
| "drain_polls deadline (PostFails # rest) = 1"
| "drain_polls deadline (BadStatus t # rest) = 1"
| "drain_polls deadline (Inflight k t # rest) =
     (if k \<le> 0 then 1 else if t \<ge> deadline then 1 else Suc (drain_polls deadline rest))"

definition drain_instance :: "env \<Rightarrow> string \<Rightarrow> real \<Rightarrow> drain_answer list \<Rightarrow> node \<Rightarrow> node" where
  "drain_instance e key now answers n =
     (if \<not> en_router e \<or> se_drain_timeout (en_set e) \<le> 0 then n
      else (log_call (RouterDrain key) ^^ drain_polls (now + se_drain_timeout (en_set e)) answers) n)"

section \<open>Start\<close>

definition all_digits :: "string \<Rightarrow> bool" where
  "all_digits s = (s \<noteq> [] \<and> (\<forall>c \<in> set s. CHR ''0'' \<le> c \<and> c \<le> CHR ''9''))"

definition parse_nat :: "string \<Rightarrow> nat" where
  "parse_nat s = foldl (\<lambda>a c. 10 * a + (of_char c - 48)) 0 s"

definition cuda_pin :: "launch_spec \<Rightarrow> nat option" where
  "cuda_pin sp =
     (case map_of (ls_env sp) ''CUDA_VISIBLE_DEVICES'' of
        None \<Rightarrow> None | Some c \<Rightarrow> if all_digits c then Some (parse_nat c) else None)"

definition free_mem :: "gpu \<Rightarrow> int" where
  "free_mem g = gp_total g - gp_used g"

text \<open>\<open>max(gpus, key=...)\<close>: the first of the freest.\<close>

fun freest_loop :: "gpu \<Rightarrow> gpu list \<Rightarrow> gpu" where
  "freest_loop best [] = best"
| "freest_loop best (g # gs) = freest_loop (if free_mem g > free_mem best then g else best) gs"

definition freest :: "gpu list \<Rightarrow> gpu" where
  "freest gs = freest_loop (hd gs) (tl gs)"

text \<open>\<open>{g["index"]: g for g in gpus}\<close>\<close>

definition gpu_by_index :: "gpu list \<Rightarrow> nat \<Rightarrow> gpu option" where
  "gpu_by_index gs k = map_of (fold (\<lambda>g. dset (gp_index g) g) gs []) k"

definition py_trunc :: "real \<Rightarrow> int" where
  "py_trunc r = (if 0 \<le> r then \<lfloor>r\<rfloor> else \<lceil>r\<rceil>)"

definition gpu_exists_preflight :: "env \<Rightarrow> launch_spec \<Rightarrow> mgr_err option" where
  "gpu_exists_preflight e sp =
     (case cuda_pin sp of
        None \<Rightarrow> None
      | Some k \<Rightarrow> if en_gpus e = [] then None
                  else if k \<in> gp_index ` set (en_gpus e) then None else Some GpuUnavailable)"

fun jnum :: "jval \<Rightarrow> real option" where
  "jnum (JInt i) = Some (real_of_int i)"
| "jnum (JFloat r) = Some r"
| "jnum _ = None"

definition place_unpinned :: "env \<Rightarrow> launch_spec \<Rightarrow> launch_spec \<times> nat" where
  "place_unpinned e sp =
     (case cuda_pin sp of
        Some k \<Rightarrow> (sp, k)
      | None \<Rightarrow> (let k = gp_index (freest (en_gpus e))
                 in (sp\<lparr>ls_env := dset ''CUDA_VISIBLE_DEVICES'' (show_nat k) (ls_env sp)\<rparr>, k)))"

definition tensor_parallel :: "root_cfg \<Rightarrow> string \<Rightarrow> real" where
  "tensor_parallel config grp =
     (case map_of (rc_engines config) grp of
        None \<Rightarrow> 1
      | Some g \<Rightarrow> (case jnum (dget (group_mc g) ''tensor_parallel_size'' (JInt 1)) of None \<Rightarrow> 0 | Some r \<Rightarrow> r))"

definition memory_share :: "root_cfg \<Rightarrow> string \<Rightarrow> real option" where
  "memory_share config grp =
     (case map_of (rc_engines config) grp of
        None \<Rightarrow> None | Some g \<Rightarrow> jnum (jget (group_mc g) ''gpu_memory_utilization''))"

definition vram_preflight ::
  "env \<Rightarrow> root_cfg \<Rightarrow> string \<Rightarrow> launch_spec \<Rightarrow> bool \<Rightarrow> mgr_err + launch_spec" where
  "vram_preflight e config key sp guard =
     (if tensor_parallel config (key_group key) > 1 then Inr sp
      else if en_gpus e = [] then Inr sp
      else let (sp', k) = place_unpinned e sp in
        if \<not> guard then Inr sp'
        else case gpu_by_index (en_gpus e) k of
               None \<Rightarrow> Inr sp'
             | Some g \<Rightarrow>
                 (case memory_share config (key_group key) of
                    None \<Rightarrow> Inr sp'
                  | Some util \<Rightarrow>
                      if util = 0 then Inr sp'
                      else if py_trunc (util * real_of_int (gp_total g)) > free_mem g
                      then Inl VRAMInsufficient else Inr sp'))"

text \<open>Everything before the lock: the launcher, the spec, the two GPU checks.\<close>

definition start_plan :: "env \<Rightarrow> bool \<Rightarrow> minst \<Rightarrow> node \<Rightarrow> mgr_err + launch_spec" where
  "start_plan e force i n =
     (case launcher_for e (mi_kind i) (mi_engine i) of
        None \<Rightarrow> Inl LauncherKeyError
      | Some l \<Rightarrow>
          (case la_build l (nd_config n) (mi_key i) of
             None \<Rightarrow> Inl LauncherKeyError
           | Some sp \<Rightarrow>
               (case gpu_exists_preflight e sp of
                  Some er \<Rightarrow> Inl er
                | None \<Rightarrow>
                    if mi_kind i = LLM
                    then vram_preflight e (nd_config n) (mi_key i) sp (se_vram_guard (en_set e) \<and> \<not> force)
                    else Inr sp)))"

definition starting_inst :: "real \<Rightarrow> bool \<Rightarrow> launch_spec \<Rightarrow> minst \<Rightarrow> minst" where
  "starting_inst now reset sp i =
     set_state now STARTING
       (i\<lparr>mi_spec := sp, mi_log := Some (ls_log sp), mi_desired := RUNNING, mi_managed := True,
          mi_started := Some now, mi_ready := None, mi_error := None, mi_log_size := 0,
          mi_progress := Some now, mi_restarts := (if reset then 0 else mi_restarts i),
          mi_next_restart := None\<rparr>)"

text \<open>First segment: the locked section and the event.\<close>

definition start_begin ::
  "env \<Rightarrow> real \<Rightarrow> bool \<Rightarrow> string \<Rightarrow> launch_spec \<Rightarrow> node \<Rightarrow> unit res" where
  "start_begin e now reset key sp n =
     (case reg_get (nd_reg n) key of
        None \<Rightarrow> (Inl ModelNotFound, n)
      | Some i \<Rightarrow>
          if mi_state i = STARTING \<or> mi_state i = READY then (Inl ModelAlreadyRunning, n)
          else (Inr (), emit_transition (en_set e) now key (Some (mi_state i)) STARTING None
                  (on_inst key (starting_inst now reset sp) n)))"

text \<open>The spawn failed.\<close>

definition spawn_failed_text :: string where "spawn_failed_text = ''spawn failed''"

definition start_failed :: "env \<Rightarrow> real \<Rightarrow> string \<Rightarrow> node \<Rightarrow> unit res" where
  "start_failed e now key n =
     (Inl SpawnError,
      emit_transition (en_set e) now key (Some STARTING) FAILED (Some spawn_failed_text)
        (on_inst key (\<lambda>i. set_state now FAILED (i\<lparr>mi_managed := False, mi_error := Some spawn_failed_text\<rparr>)) n))"

text \<open>Last segment: the handle is stored, the drain mark cleared, the intent persisted.\<close>

definition start_finish :: "env \<Rightarrow> real \<Rightarrow> string \<Rightarrow> nat \<Rightarrow> node \<Rightarrow> node" where
  "start_finish e now key pid n =
     persist_desired e now key RUNNING
       (undrain_instance e key
         (on_inst key (\<lambda>i. touch now (i\<lparr>mi_proc := Some pid, mi_pid := Some pid\<rparr>)) n))"

definition start :: "env \<Rightarrow> real \<Rightarrow> bool \<Rightarrow> bool \<Rightarrow> bool \<Rightarrow> string \<Rightarrow> node \<Rightarrow> unit res" where
  "start e now force reset spawn_ok key n =
     (case reg_get (nd_reg n) key of
        None \<Rightarrow> (Inl ModelNotFound, n)
      | Some i \<Rightarrow>
          if \<not> node_can_run e (mi_engine i) then (Inr (), defer_to_owner now key RUNNING n)
          else (case start_plan e force i n of
                  Inl er \<Rightarrow> (Inl er, n)
                | Inr sp \<Rightarrow>
                    (case start_begin e now reset key sp n of
                       (Inl er, n1) \<Rightarrow> (Inl er, n1)
                     | (Inr _, n1) \<Rightarrow>
                         if spawn_ok
                         then (let (pid, n2) = spawn_process key n1 in (Inr (), start_finish e now key pid n2))
                         else start_failed e now key n1)))"

section \<open>Stop\<close>

text \<open>
  First segment.  A process of ours is left to the second segment (its pid is returned); otherwise
  the stop is over.
\<close>

definition stop_begin :: "env \<Rightarrow> real \<Rightarrow> string \<Rightarrow> node \<Rightarrow> nat option \<times> node" where
  "stop_begin e now key n =
     (case reg_get (nd_reg n) key of
        None \<Rightarrow> (None, n)
      | Some i \<Rightarrow>
          (let prev = mi_state i; n1 = on_inst key (mi_desired_update (\<lambda>_. D_STOPPED)) n
           in if mi_proc i \<noteq> None \<and> mi_managed i
              then (mi_proc i, emit_transition (en_set e) now key (Some prev) STOPPING None
                      (on_inst key (set_state now STOPPING) n1))
              else if \<not> mi_managed i \<and> prev = READY
              then (None, persist_desired e now key D_STOPPED
                      (on_inst key (mi_error_update (\<lambda>_. Some ''externally managed; backend cannot stop it'')) n1))
              else (None, persist_desired e now key D_STOPPED
                      ((if prev \<noteq> STOPPED then emit_transition (en_set e) now key (Some prev) STOPPED None else id)
                        (on_inst key (\<lambda>j. set_state now STOPPED (j\<lparr>mi_proc := None, mi_pid := None\<rparr>)) n1)))))"

text \<open>Second segment: drain, then end the process group.\<close>

definition stop_kill :: "env \<Rightarrow> real \<Rightarrow> drain_answer list \<Rightarrow> string \<Rightarrow> nat \<Rightarrow> node \<Rightarrow> node" where
  "stop_kill e now answers key pid n =
     terminate_process_group pid (drain_instance e key now answers n)"

definition stop_finish :: "env \<Rightarrow> real \<Rightarrow> string \<Rightarrow> node \<Rightarrow> node" where
  "stop_finish e now key n =
     persist_desired e now key D_STOPPED
       (emit_transition (en_set e) now key (Some STOPPING) STOPPED None
         (on_inst key (\<lambda>j. set_state now STOPPED (j\<lparr>mi_proc := None, mi_pid := None\<rparr>)) n))"

definition stop :: "env \<Rightarrow> real \<Rightarrow> drain_answer list \<Rightarrow> string \<Rightarrow> node \<Rightarrow> unit res" where
  "stop e now answers key n =
     (case reg_get (nd_reg n) key of
        None \<Rightarrow> (Inl ModelNotFound, n)
      | Some i \<Rightarrow>
          if \<not> node_can_run e (mi_engine i) then (Inr (), defer_to_owner now key D_STOPPED n)
          else (case stop_begin e now key n of
                  (None, n1) \<Rightarrow> (Inr (), n1)
                | (Some pid, n1) \<Rightarrow>
                    (Inr (), stop_finish e now key (stop_kill e now answers key pid n1))))"

section \<open>Sleep and wake\<close>

definition sleep_begin :: "real \<Rightarrow> string \<Rightarrow> node \<Rightarrow> unit res" where
  "sleep_begin now key n =
     (case reg_get (nd_reg n) key of
        None \<Rightarrow> (Inl ModelNotFound, n)
      | Some i \<Rightarrow>
          if mi_state i \<noteq> READY then (Inl ModelConflict, n)
          else (Inr (), on_inst key (\<lambda>j. touch now (j\<lparr>mi_desired := ASLEEP\<rparr>)) n))"

definition sleep_failed :: "real \<Rightarrow> string \<Rightarrow> node \<Rightarrow> unit res" where
  "sleep_failed now key n = (Inl SleepError, on_inst key (\<lambda>j. touch now (j\<lparr>mi_desired := RUNNING\<rparr>)) n)"

definition sleep_finish :: "env \<Rightarrow> real \<Rightarrow> string \<Rightarrow> node \<Rightarrow> node" where
  "sleep_finish e now key n =
     trigger_router_reload e (persist_desired e now key ASLEEP
       (emit_transition (en_set e) now key (Some READY) SLEEPING (Some ''sleep level=1'')
         (on_inst key (\<lambda>j. set_state now SLEEPING (j\<lparr>mi_error := None\<rparr>)) n)))"

definition sleep :: "env \<Rightarrow> real \<Rightarrow> bool \<Rightarrow> string \<Rightarrow> node \<Rightarrow> unit res" where
  "sleep e now call_ok key n =
     (case reg_get (nd_reg n) key of
        None \<Rightarrow> (Inl ModelNotFound, n)
      | Some i \<Rightarrow>
          if \<not> node_can_run e (mi_engine i) then (Inr (), defer_to_owner now key ASLEEP n)
          else if \<not> ls_sleep (mi_spec i) then (Inl ModelConflict, n)
          else (case sleep_begin now key n of
                  (Inl er, n1) \<Rightarrow> (Inl er, n1)
                | (Inr _, n1) \<Rightarrow>
                    if call_ok then (Inr (), sleep_finish e now key (log_call (EngineSleep key) n1))
                    else sleep_failed now key n1))"

definition wake_begin :: "real \<Rightarrow> string \<Rightarrow> node \<Rightarrow> unit res" where
  "wake_begin now key n =
     (case reg_get (nd_reg n) key of
        None \<Rightarrow> (Inl ModelNotFound, n)
      | Some i \<Rightarrow>
          if mi_state i \<noteq> SLEEPING then (Inl ModelConflict, n)
          else (Inr (), on_inst key (\<lambda>j. touch now (j\<lparr>mi_desired := RUNNING\<rparr>)) n))"

definition wake_failed :: "real \<Rightarrow> string \<Rightarrow> node \<Rightarrow> unit res" where
  "wake_failed now key n = (Inl SleepError, on_inst key (\<lambda>j. touch now (j\<lparr>mi_desired := ASLEEP\<rparr>)) n)"

definition wake_finish :: "env \<Rightarrow> real \<Rightarrow> string \<Rightarrow> node \<Rightarrow> node" where
  "wake_finish e now key n =
     trigger_router_reload e (persist_desired e now key RUNNING
       (emit_transition (en_set e) now key (Some SLEEPING) READY (Some ''wake_up'')
         (on_inst key (\<lambda>j. set_state now READY (j\<lparr>mi_error := None\<rparr>)) n)))"

definition wake :: "env \<Rightarrow> real \<Rightarrow> bool \<Rightarrow> string \<Rightarrow> node \<Rightarrow> unit res" where
  "wake e now call_ok key n =
     (case reg_get (nd_reg n) key of
        None \<Rightarrow> (Inl ModelNotFound, n)
      | Some i \<Rightarrow>
          if \<not> node_can_run e (mi_engine i) then (Inr (), defer_to_owner now key RUNNING n)
          else (case wake_begin now key n of
                  (Inl er, n1) \<Rightarrow> (Inl er, n1)
                | (Inr _, n1) \<Rightarrow>
                    if call_ok then (Inr (), wake_finish e now key (log_call (EngineWake key) n1))
                    else wake_failed now key n1))"

section \<open>Replay at boot, shutdown\<close>

definition replay_desired :: "env \<Rightarrow> real \<Rightarrow> (string \<Rightarrow> bool) \<Rightarrow> node \<Rightarrow> node" where
  "replay_desired e now spawn_ok n =
     (case nd_store n of
        None \<Rightarrow> n
      | Some s \<Rightarrow>
          (let foreign = foreign_assignments e now n
           in fold (\<lambda>(key, want) m.
                (case reg_get (nd_reg m) key of
                   None \<Rightarrow> m
                 | Some i \<Rightarrow>
                     if want \<noteq> desired_value RUNNING \<or> key \<in> set foreign then m
                     else if mi_state i = STOPPED \<or> mi_state i = FAILED
                     then snd (start e now False True (spawn_ok key) key m) else m))
              (list_instance_desired s) n))"

definition stop_all :: "node \<Rightarrow> node" where
  "stop_all n =
     fold (\<lambda>i m. case mi_proc i of
              Some pid \<Rightarrow> if mi_managed i \<and> poll m pid = None then terminate_process_group pid m else m
            | None \<Rightarrow> m) (reg_values (nd_reg n)) n"

section \<open>The overlay\<close>

definition empty_entry :: group_cfg where
  "empty_entry = \<lparr>gc_instances = None, gc_model_config = None, gc_fallback = Absent, gc_autoscale = Absent\<rparr>"

text \<open>Validate the merged configuration, then write the overlay file and the live configuration.\<close>

definition commit_overlay :: "env \<Rightarrow> root_cfg \<Rightarrow> node \<Rightarrow> node option" where
  "commit_overlay e ov n =
     map_option (\<lambda>cfg. n\<lparr>nd_overlay := ov, nd_config := cfg\<rparr>) (build_merged_config (en_valid e) (en_base e) ov)"

definition put_entry :: "string \<Rightarrow> group_cfg \<Rightarrow> root_cfg \<Rightarrow> root_cfg" where
  "put_entry grp g ov = ov\<lparr>rc_engines := dset grp g (rc_engines ov)\<rparr>"

definition set_autoscale :: "env \<Rightarrow> string \<Rightarrow> (string, jval) dict option \<Rightarrow> node \<Rightarrow> (string, jval) dict field res" where
  "set_autoscale e grp policy n =
     (if \<not> dhas (rc_engines (nd_config n)) grp then (Inl ModelNotFound, n)
      else let entry = dget (rc_engines (nd_overlay n)) grp empty_entry;
               pol = (case policy of None \<Rightarrow> [(''enabled'', JBool False)] | Some d \<Rightarrow> d);
               ov = put_entry grp (entry\<lparr>gc_autoscale := Val pol\<rparr>) (nd_overlay n)
           in case commit_overlay e ov n of
                None \<Rightarrow> (Inl ValidationError, n)
              | Some n' \<Rightarrow> (Inr (gc_autoscale (dget (rc_engines (nd_config n')) grp empty_entry)), n'))"

definition set_fallback :: "env \<Rightarrow> string \<Rightarrow> string list \<Rightarrow> node \<Rightarrow> string list field res" where
  "set_fallback e grp names n =
     (if \<not> dhas (rc_engines (nd_config n)) grp then (Inl ModelNotFound, n)
      else let chain = filter (\<lambda>g. g \<noteq> grp) names
           in if \<exists>g \<in> set chain. \<not> dhas (rc_engines (nd_config n)) g then (Inl ModelConflict, n)
              else let entry = dget (rc_engines (nd_overlay n)) grp empty_entry;
                       ov = put_entry grp (entry\<lparr>gc_fallback := Val chain\<rparr>) (nd_overlay n)
                   in case commit_overlay e ov n of
                        None \<Rightarrow> (Inl ValidationError, n)
                      | Some n' \<Rightarrow> (Inr (gc_fallback (dget (rc_engines (nd_config n')) grp empty_entry)),
                                    trigger_router_reload e n'))"

definition used_ports :: "node \<Rightarrow> int list" where
  "used_ports n = map mi_port (reg_values (nd_reg n))"

definition append_instance :: "inst_cfg \<Rightarrow> group_cfg \<Rightarrow> group_cfg" where
  "append_instance i g = g\<lparr>gc_instances := Some (group_instances g @ [i])\<rparr>"

definition create_entry ::
  "root_cfg \<Rightarrow> root_cfg \<Rightarrow> string \<Rightarrow> inst_cfg \<Rightarrow> (string, jval) dict \<Rightarrow> group_cfg" where
  "create_entry config ov grp i mc =
     (if dhas (rc_engines config) grp \<or> dhas (rc_engines ov) grp
      then append_instance i (dget (rc_engines ov) grp (empty_entry\<lparr>gc_instances := Some []\<rparr>))
      else empty_entry\<lparr>gc_instances := Some [i], gc_model_config := Some mc\<rparr>)"

definition config_engine :: "root_cfg \<Rightarrow> string \<Rightarrow> string" where
  "config_engine config grp = group_engine (dget (rc_engines config) grp empty_entry)"

text \<open>The launcher and spec of a key under the new configuration; both failures are after the commit.\<close>

definition respec :: "env \<Rightarrow> string \<Rightarrow> string \<Rightarrow> node \<Rightarrow> mgr_err + launch_spec" where
  "respec e grp key n =
     (case launcher_for e LLM (config_engine (nd_config n) grp) of
        None \<Rightarrow> Inl ModelConflict
      | Some l \<Rightarrow> (case la_build l (nd_config n) key of None \<Rightarrow> Inl LauncherKeyError | Some sp \<Rightarrow> Inr sp))"

definition create_overlay_model ::
  "env \<Rightarrow> real \<Rightarrow> string \<Rightarrow> inst_cfg \<Rightarrow> (string, jval) dict \<Rightarrow> (string, jval) dict option \<Rightarrow> node \<Rightarrow> string res" where
  "create_overlay_model e now grp i mc autoscale n =
     (let key = grp @ sep2 @ ic_id i in
      if ic_id i = [] then (Inl ModelConflict, n)
      else if reg_get (nd_reg n) key \<noteq> None then (Inl ModelConflict, n)
      else if ic_port i \<in> set (used_ports n) then (Inl ModelConflict, n)
      else let g1 = create_entry (nd_config n) (nd_overlay n) grp i mc;
               g2 = (case autoscale of None \<Rightarrow> g1 | Some d \<Rightarrow> g1\<lparr>gc_autoscale := Val d\<rparr>)
           in case commit_overlay e (put_entry grp g2 (nd_overlay n)) n of
                None \<Rightarrow> (Inl ValidationError, n)
              | Some n1 \<Rightarrow>
                  (case respec e grp key n1 of
                     Inl er \<Rightarrow> (Inl er, n1)
                   | Inr sp \<Rightarrow>
                       (Inr key, emit_transition (en_set e) now key None STOPPED (Some ''added via dashboard'')
                          (n1\<lparr>nd_reg := reg_add (instance_of now key LLM sp) (nd_reg n1)\<rparr>))))"

text \<open>\<open>inst.spec, inst.host, ... = spec, spec.host, ...\<close>\<close>

definition apply_spec :: "launch_spec \<Rightarrow> minst \<Rightarrow> minst" where
  "apply_spec sp i =
     i\<lparr>mi_engine := ls_engine sp, mi_host := ls_host sp, mi_port := ls_port sp, mi_spec := sp,
       mi_model_tag := ls_model_tag sp, mi_log := Some (ls_log sp)\<rparr>"

fun replace_instance :: "inst_cfg \<Rightarrow> inst_cfg list \<Rightarrow> inst_cfg list" where
  "replace_instance i [] = [i]"
| "replace_instance i (j # js) = (if ic_id j = ic_id i then i # js else j # replace_instance i js)"

definition update_overlay_model ::
  "env \<Rightarrow> real \<Rightarrow> string \<Rightarrow> inst_cfg \<Rightarrow> (string, jval) dict \<Rightarrow> node \<Rightarrow> string res" where
  "update_overlay_model e now key inst mc n =
     (case reg_get (nd_reg n) key of
        None \<Rightarrow> (Inl ModelNotFound, n)
      | Some r \<Rightarrow>
          if mi_kind r \<noteq> LLM then (Inl ModelConflict, n)
          else if mi_state r \<noteq> STOPPED \<and> mi_state r \<noteq> FAILED then (Inl ModelConflict, n)
          else if \<not> truthy (jget mc ''model_tag'') then (Inl ModelConflict, n)
          else let grp = key_group key; i = inst\<lparr>ic_id := key_instance key\<rparr>
               in if ic_port i \<in> set (used_ports n) - {mi_port r} then (Inl ModelConflict, n)
                  else let g = dget (rc_engines (nd_overlay n)) grp (empty_entry\<lparr>gc_instances := Some []\<rparr>);
                           g' = g\<lparr>gc_instances := Some (replace_instance i (group_instances g)),
                                  gc_model_config := Some mc\<rparr>
                       in case commit_overlay e (put_entry grp g' (nd_overlay n)) n of
                            None \<Rightarrow> (Inl ValidationError, n)
                          | Some n1 \<Rightarrow>
                              (case respec e grp key n1 of
                                 Inl er \<Rightarrow> (Inl er, n1)
                               | Inr sp \<Rightarrow>
                                   (Inr key, emit_transition (en_set e) now key None (mi_state r)
                                      (Some ''edited via dashboard'')
                                      (on_inst key (\<lambda>j. touch now (apply_spec sp j)) n1))))"

definition delete_overlay_model :: "env \<Rightarrow> string \<Rightarrow> node \<Rightarrow> unit res" where
  "delete_overlay_model e key n =
     (case reg_get (nd_reg n) key of
        None \<Rightarrow> (Inl ModelNotFound, n)
      | Some r \<Rightarrow>
          (let grp = key_group key; iid = key_instance key; ov = nd_overlay n
           in if \<not> overlay_owns ov grp iid then (Inl ModelConflict, n)
              else if mi_state r \<noteq> STOPPED \<and> mi_state r \<noteq> FAILED then (Inl ModelConflict, n)
              else let g = dget (rc_engines ov) grp empty_entry;
                       left = filter (\<lambda>i. ic_id i \<noteq> iid) (group_instances g);
                       ov' = ov\<lparr>rc_engines := (if left = [] then dpop grp (rc_engines ov)
                                              else dset grp (g\<lparr>gc_instances := Some left\<rparr>) (rc_engines ov))\<rparr>;
                       n1 = n\<lparr>nd_overlay := ov'\<rparr>
                   in case build_merged_config (en_valid e) (en_base e) ov' of
                        None \<Rightarrow> (Inl ValidationError, n1)
                      | Some cfg \<Rightarrow>
                          (Inr (), on_store (\<lambda>s. delete_assignment key (delete_instance_desired key s))
                             (n1\<lparr>nd_config := cfg, nd_reg := reg_remove key (nd_reg n)\<rparr>))))"

section \<open>Embedding models\<close>

text \<open>\<open>overlay.setdefault("embedding_server", {}).setdefault(field, {})\<close>\<close>

definition overlay_models :: "root_cfg \<Rightarrow> string \<Rightarrow> (string, jval) dict" where
  "overlay_models ov fld =
     (case rc_embedding ov of
        Val d \<Rightarrow> (case jget d fld of JObj m \<Rightarrow> m | _ \<Rightarrow> [])
      | _ \<Rightarrow> [])"

definition update_embedding_model ::
  "env \<Rightarrow> string \<Rightarrow> string \<Rightarrow> (string, jval) dict \<Rightarrow> node \<Rightarrow> string res" where
  "update_embedding_model e ty name params n =
     (if ty \<noteq> ''embedding'' \<and> ty \<noteq> ''reranking'' then (Inl ModelConflict, n)
      else let fld = (if ty = ''embedding'' then ''embedding_models'' else ''reranking_models'') in
        if \<not> dhas (overlay_models (nd_config n) fld) name then (Inl ModelNotFound, n)
        else if (case reg_get (nd_reg n) embedding_key of
                   None \<Rightarrow> False | Some i \<Rightarrow> mi_state i \<noteq> STOPPED \<and> mi_state i \<noteq> FAILED)
        then (Inl ModelConflict, n)
        else let models = overlay_models (nd_overlay n) fld;
                 old = (case jget models name of JObj d \<Rightarrow> d | _ \<Rightarrow> []);
                 emb = (case rc_embedding (nd_overlay n) of Val d \<Rightarrow> d | _ \<Rightarrow> []);
                 ov = (nd_overlay n)\<lparr>rc_embedding :=
                         Val (dset fld (JObj (dset name (JObj (dupdate old params)) models)) emb)\<rparr>
             in case commit_overlay e ov n of
                  None \<Rightarrow> (Inl ValidationError, n) | Some n' \<Rightarrow> (Inr name, n'))"

section \<open>Hot LoRA loading\<close>

definition group_caps :: "env \<Rightarrow> root_cfg \<Rightarrow> string \<Rightarrow> string list" where
  "group_caps e config grp =
     (case map_of (rc_engines config) grp of
        None \<Rightarrow> []
      | Some g \<Rightarrow> (case launcher_for e LLM (group_engine g) of None \<Rightarrow> [] | Some l \<Rightarrow> la_caps l))"

definition ready_lora_targets :: "string \<Rightarrow> node \<Rightarrow> minst list" where
  "ready_lora_targets grp n =
     filter (\<lambda>i. key_group (mi_key i) = grp \<and> mi_kind i = LLM \<and> mi_state i = READY) (reg_values (nd_reg n))"

text \<open>The outcome of one adapter call: done, an error status, or no answer at all.\<close>

datatype post = PostOk | PostStatus | PostRaises

text \<open>The loading loop: the keys loaded so far and the first error.\<close>

fun load_all :: "string \<Rightarrow> (string \<Rightarrow> post) \<Rightarrow> minst list \<Rightarrow> string list \<Rightarrow> node \<Rightarrow>
  (string list \<times> mgr_err option) \<times> node" where
  "load_all name out [] loaded n = ((loaded, None), n)"
| "load_all name out (i # is) loaded n =
     (case out (mi_key i) of
        PostOk \<Rightarrow> load_all name out is (loaded @ [mi_key i]) (log_call (LoraLoad (mi_key i) name) n)
      | PostStatus \<Rightarrow> ((loaded, Some LoraRuntimeError), n)
      | PostRaises \<Rightarrow> ((loaded, Some TransportError), n))"

definition unload_each :: "string \<Rightarrow> (string \<Rightarrow> post) \<Rightarrow> string list \<Rightarrow> node \<Rightarrow> node" where
  "unload_each name out ks n =
     fold (\<lambda>k m. if out k = PostOk then log_call (LoraUnload k name) m else m) ks n"

definition lora_entry :: "string \<Rightarrow> string \<Rightarrow> string option \<Rightarrow> jval" where
  "lora_entry name path base =
     JObj ([(''name'', JStr name), (''path'', JStr path)] @
       (case base of None \<Rightarrow> [] | Some b \<Rightarrow> if b = [] then [] else [(''base_model_name'', JStr b)]))"

definition persist_lora ::
  "env \<Rightarrow> string \<Rightarrow> string \<Rightarrow> jval option \<Rightarrow> node \<Rightarrow> node option" where
  "persist_lora e grp name entry n =
     (case map_of (rc_engines (nd_config n)) grp of
        None \<Rightarrow> None
      | Some g \<Rightarrow>
          (let mc = settings_dump g;
               loras = (case jget mc ''lora_modules'' of JList ms \<Rightarrow> ms | _ \<Rightarrow> []);
               kept = filter (\<lambda>m. lora_name m \<noteq> JStr name) loras;
               new = kept @ (case entry of None \<Rightarrow> [] | Some m \<Rightarrow> [m]);
               ge = dget (rc_engines (nd_overlay n)) grp empty_entry
           in commit_overlay e (put_entry grp
                (ge\<lparr>gc_model_config := Some (dset ''lora_modules'' (JList new) mc)\<rparr>) (nd_overlay n)) n))"

definition load_lora ::
  "env \<Rightarrow> (string \<Rightarrow> post) \<Rightarrow> (string \<Rightarrow> post) \<Rightarrow> string \<Rightarrow> string \<Rightarrow> string \<Rightarrow> string option \<Rightarrow> node \<Rightarrow>
   string list res" where
  "load_lora e out undo grp name path base n =
     (case map_of (rc_engines (nd_config n)) grp of
        None \<Rightarrow> (Inl ModelNotFound, n)
      | Some g \<Rightarrow>
          if ''runtime_lora'' \<notin> set (group_caps e (nd_config n) grp) then (Inl ModelConflict, n)
          else if \<not> truthy (jget (group_mc g) ''allow_runtime_lora'') then (Inl ModelConflict, n)
          else if name = [] \<or> path = [] then (Inl ModelConflict, n)
          else let targets = ready_lora_targets grp n
               in if targets = [] then (Inl ModelConflict, n)
                  else (case load_all name out targets [] n of
                          ((loaded, Some LoraRuntimeError), n1) \<Rightarrow>
                            (Inl LoraRuntimeError, unload_each name undo loaded n1)
                        | ((loaded, Some er), n1) \<Rightarrow> (Inl er, n1)
                        | ((loaded, None), n1) \<Rightarrow>
                            (case persist_lora e grp name (Some (lora_entry name path base)) n1 of
                               None \<Rightarrow> (Inl ValidationError, n1)
                             | Some n2 \<Rightarrow> (Inr (map mi_key targets), n2))))"

definition unload_lora ::
  "env \<Rightarrow> (string \<Rightarrow> post) \<Rightarrow> string \<Rightarrow> string \<Rightarrow> node \<Rightarrow> (string list \<times> string list) res" where
  "unload_lora e out grp name n =
     (if \<not> dhas (rc_engines (nd_config n)) grp then (Inl ModelNotFound, n)
      else let ks = map mi_key (ready_lora_targets grp n); n1 = unload_each name out ks n
           in case persist_lora e grp name None n1 of
                None \<Rightarrow> (Inl ValidationError, n1)
              | Some n2 \<Rightarrow> (Inr (ks, filter (\<lambda>k. out k \<noteq> PostOk) ks), n2))"

section \<open>Aligning the registry with a configuration\<close>

fun resolve_keys ::
  "root_cfg \<Rightarrow> launcher \<Rightarrow> string list \<Rightarrow> (string, model_kind \<times> launch_spec) dict \<Rightarrow>
   (string, model_kind \<times> launch_spec) dict option" where
  "resolve_keys config l [] out = Some out"
| "resolve_keys config l (key # ks) out =
     (case la_build l config key of
        None \<Rightarrow> None
      | Some sp \<Rightarrow> resolve_keys config l ks (dset key (la_kind l, sp) out))"

fun resolve_all ::
  "root_cfg \<Rightarrow> launcher list \<Rightarrow> (string, model_kind \<times> launch_spec) dict \<Rightarrow>
   (string, model_kind \<times> launch_spec) dict option" where
  "resolve_all config [] out = Some out"
| "resolve_all config (l # ls) out =
     (case resolve_keys config l (la_keys l config) out of
        None \<Rightarrow> None | Some o' \<Rightarrow> resolve_all config ls o')"

definition resolve_specs :: "env \<Rightarrow> root_cfg \<Rightarrow> (string, model_kind \<times> launch_spec) dict option" where
  "resolve_specs e config = resolve_all config (map snd (launcher_map e)) []"

record sync_summary =
  sy_added :: "string list"
  sy_removed :: "string list"
  sy_changed :: "string list"

definition spec_changed :: "(string, model_kind \<times> launch_spec) dict \<Rightarrow> registry \<Rightarrow> string \<Rightarrow> bool" where
  "spec_changed want r k =
     (case (map_of want k, reg_get r k) of (Some (kd, sp), Some i) \<Rightarrow> mi_spec i \<noteq> sp | _ \<Rightarrow> False)"

definition summarize :: "(string, model_kind \<times> launch_spec) dict \<Rightarrow> registry \<Rightarrow> sync_summary" where
  "summarize want r =
     \<lparr>sy_added = sort (filter (\<lambda>k. reg_get r k = None) (dkeys want)),
      sy_removed = sort (filter (\<lambda>k. \<not> dhas want k) (dkeys r)),
      sy_changed = sort (filter (spec_changed want r) (dkeys r))\<rparr>"

definition add_wanted ::
  "real \<Rightarrow> (string, model_kind \<times> launch_spec) dict \<Rightarrow> string \<Rightarrow> registry \<Rightarrow> registry" where
  "add_wanted now want k r =
     (case map_of want k of None \<Rightarrow> r | Some (kd, sp) \<Rightarrow> reg_add (instance_of now k kd sp) r)"

definition respec_wanted :: "(string, model_kind \<times> launch_spec) dict \<Rightarrow> string \<Rightarrow> registry \<Rightarrow> registry" where
  "respec_wanted want k r =
     (case map_of want k of None \<Rightarrow> r | Some (kd, sp) \<Rightarrow> reg_upd k (apply_spec sp) r)"

definition resync :: "real \<Rightarrow> (string, model_kind \<times> launch_spec) dict \<Rightarrow> registry \<Rightarrow> registry" where
  "resync now want r =
     (let sy = summarize want r;
          r1 = fold reg_remove (sy_removed sy) r;
          r2 = fold (add_wanted now want) (sy_added sy) r1
      in fold (respec_wanted want) (sy_changed sy) r2)"

definition resync_registry :: "env \<Rightarrow> real \<Rightarrow> root_cfg \<Rightarrow> node \<Rightarrow> sync_summary res" where
  "resync_registry e now config n =
     (case resolve_specs e config of
        None \<Rightarrow> (Inl LauncherKeyError, n)
      | Some want \<Rightarrow> (Inr (summarize want (nd_reg n)), n\<lparr>nd_reg := resync now want (nd_reg n)\<rparr>))"

definition is_live :: "node \<Rightarrow> string \<Rightarrow> bool" where
  "is_live n k =
     (case reg_get (nd_reg n) k of None \<Rightarrow> False | Some i \<Rightarrow> mi_state i \<noteq> STOPPED \<and> mi_state i \<noteq> FAILED)"

text \<open>The instances whose definition the import removes or changes and that still run.\<close>

definition import_busy :: "(string, model_kind \<times> launch_spec) dict \<Rightarrow> node \<Rightarrow> string list" where
  "import_busy want n =
     sort (filter (is_live n) (filter (\<lambda>k. \<not> dhas want k \<or> spec_changed want (nd_reg n) k) (dkeys (nd_reg n))))"

text \<open>\<open>snapshot_overlay\<close>: a version row unless the latest one has the same hash.\<close>

definition snapshot_overlay ::
  "env \<Rightarrow> real \<Rightarrow> string option \<Rightarrow> string option \<Rightarrow> string option \<Rightarrow> root_cfg \<Rightarrow> store \<Rightarrow> store" where
  "snapshot_overlay e now actor role summary ov s =
     snd (record_config_version now (en_dump e ov) (en_sha e (en_dump e ov)) actor role summary None s)"

definition import_overlay ::
  "env \<Rightarrow> real \<Rightarrow> (string \<Rightarrow> drain_answer list) \<Rightarrow> bool \<Rightarrow> string option \<Rightarrow> string option \<Rightarrow> string option \<Rightarrow>
   root_cfg \<Rightarrow> node \<Rightarrow> sync_summary res" where
  "import_overlay e now answers force actor role summary ov n =
     (case build_merged_config (en_valid e) (en_base e) ov of
        None \<Rightarrow> (Inl ConfigInvalid, n)
      | Some cfg \<Rightarrow>
          (case resolve_specs e cfg of
             None \<Rightarrow> (Inl LauncherKeyError, n)
           | Some want \<Rightarrow>
               (let busy = import_busy want n
                in if busy \<noteq> [] \<and> \<not> force then (Inl ModelConflict, n)
                   else let n1 = fold (\<lambda>k m. snd (stop e now (answers k) k m)) busy n;
                            n2 = n1\<lparr>nd_overlay := ov, nd_config := cfg\<rparr>;
                            n3 = (if nd_pg n then on_store (snapshot_overlay e now actor role summary ov) n2 else n2)
                        in case resync_registry e now cfg n3 of
                             (Inl er, n4) \<Rightarrow> (Inl er, n4)
                           | (Inr sy, n4) \<Rightarrow> (Inr sy, trigger_router_reload e n4))))"

text \<open>\<open>hydrate_overlay_from_store\<close>: the shared overlay becomes the local file.\<close>

definition hydrate_overlay :: "env \<Rightarrow> node \<Rightarrow> (bool \<times> node)" where
  "hydrate_overlay e n =
     (case nd_store n of
        None \<Rightarrow> (False, n)
      | Some s \<Rightarrow>
          if \<not> nd_pg n then (False, n)
          else (case get_current_overlay s of
                  None \<Rightarrow> (False, n) | Some txt \<Rightarrow> (True, n\<lparr>nd_overlay := en_parse e txt\<rparr>)))"

definition sync_overlay_from_store :: "env \<Rightarrow> real \<Rightarrow> node \<Rightarrow> bool \<times> node" where
  "sync_overlay_from_store e now n =
     (case hydrate_overlay e n of
        (False, n1) \<Rightarrow> (False, n1)
      | (True, n1) \<Rightarrow>
          (case build_merged_config (en_valid e) (en_base e) (nd_overlay n1) of
             None \<Rightarrow> (False, n1)
           | Some cfg \<Rightarrow>
               (case resync_registry e now cfg n1 of
                  (Inl _, n2) \<Rightarrow> (False, n2)
                | (Inr sy, n2) \<Rightarrow>
                    (let n3 = n2\<lparr>nd_config := cfg\<rparr>
                     in if sy_added sy \<noteq> [] \<or> sy_removed sy \<noteq> [] \<or> sy_changed sy \<noteq> []
                        then (True, trigger_router_reload e n3) else (False, n3)))))"

section \<open>Frames\<close>

named_theorems frame \<open>what the updates of a node leave alone\<close>

lemma on_store_sel [simp, frame]:
  "nd_reg (on_store f n) = nd_reg n" "nd_procs (on_store f n) = nd_procs n"
  "nd_next_pid (on_store f n) = nd_next_pid n" "nd_store (on_store f n) = map_option f (nd_store n)"
  "nd_notifier (on_store f n) = nd_notifier n" "nd_config (on_store f n) = nd_config n"
  "nd_overlay (on_store f n) = nd_overlay n" "nd_pg (on_store f n) = nd_pg n" "nd_log (on_store f n) = nd_log n"
  by (simp_all add: on_store_def)

lemma on_inst_sel [simp, frame]:
  "nd_reg (on_inst k f n) = reg_upd k f (nd_reg n)" "nd_procs (on_inst k f n) = nd_procs n"
  "nd_next_pid (on_inst k f n) = nd_next_pid n" "nd_store (on_inst k f n) = nd_store n"
  "nd_notifier (on_inst k f n) = nd_notifier n" "nd_config (on_inst k f n) = nd_config n"
  "nd_overlay (on_inst k f n) = nd_overlay n" "nd_pg (on_inst k f n) = nd_pg n" "nd_log (on_inst k f n) = nd_log n"
  by (simp_all add: on_inst_def)

lemma log_call_sel [simp, frame]:
  "nd_reg (log_call c n) = nd_reg n" "nd_procs (log_call c n) = nd_procs n"
  "nd_next_pid (log_call c n) = nd_next_pid n" "nd_store (log_call c n) = nd_store n"
  "nd_notifier (log_call c n) = nd_notifier n" "nd_config (log_call c n) = nd_config n"
  "nd_overlay (log_call c n) = nd_overlay n" "nd_pg (log_call c n) = nd_pg n"
  "nd_log (log_call c n) = nd_log n @ [c]"
  by (simp_all add: log_call_def)

lemma emit_sel [simp, frame]:
  "nd_procs (emit_transition se t k a b d n) = nd_procs n"
  "nd_next_pid (emit_transition se t k a b d n) = nd_next_pid n"
  "nd_config (emit_transition se t k a b d n) = nd_config n"
  "nd_overlay (emit_transition se t k a b d n) = nd_overlay n"
  "nd_pg (emit_transition se t k a b d n) = nd_pg n"
  "nd_log (emit_transition se t k a b d n) = nd_log n"
  by (simp_all add: emit_transition_def Let_def split: option.split)

lemma emit_reg [simp, frame]:
  "nd_reg (emit_transition se t k a b d n) =
     (if b = READY then reg_upd k (mi_was_failed_update (\<lambda>_. False)) (nd_reg n) else nd_reg n)"
  by (simp add: emit_transition_def Let_def reg_upd_def reg_get_def split: option.split)

lemma emit_desired [simp, frame]:
  "map_option so_desired (nd_store (emit_transition se t k a b d n)) = map_option so_desired (nd_store n)"
  "map_option so_assign (nd_store (emit_transition se t k a b d n)) = map_option so_assign (nd_store n)"
  by (simp_all add: emit_transition_def Let_def record_model_event_def comp_def option.map_comp split: option.split)

lemma persist_sel [simp, frame]:
  "nd_reg (persist_desired e t k d n) = nd_reg n" "nd_procs (persist_desired e t k d n) = nd_procs n"
  "nd_next_pid (persist_desired e t k d n) = nd_next_pid n"
  "nd_config (persist_desired e t k d n) = nd_config n" "nd_overlay (persist_desired e t k d n) = nd_overlay n"
  "nd_pg (persist_desired e t k d n) = nd_pg n" "nd_log (persist_desired e t k d n) = nd_log n"
  by (simp_all add: persist_desired_def)

lemma reload_sel [simp, frame]:
  "nd_reg (trigger_router_reload e n) = nd_reg n" "nd_procs (trigger_router_reload e n) = nd_procs n"
  "nd_next_pid (trigger_router_reload e n) = nd_next_pid n" "nd_store (trigger_router_reload e n) = nd_store n"
  "nd_config (trigger_router_reload e n) = nd_config n" "nd_overlay (trigger_router_reload e n) = nd_overlay n"
  "nd_pg (trigger_router_reload e n) = nd_pg n"
  by (simp_all add: trigger_router_reload_def)

lemma undrain_sel [simp, frame]:
  "nd_reg (undrain_instance e k n) = nd_reg n" "nd_procs (undrain_instance e k n) = nd_procs n"
  "nd_next_pid (undrain_instance e k n) = nd_next_pid n" "nd_store (undrain_instance e k n) = nd_store n"
  "nd_config (undrain_instance e k n) = nd_config n" "nd_overlay (undrain_instance e k n) = nd_overlay n"
  "nd_pg (undrain_instance e k n) = nd_pg n"
  by (simp_all add: undrain_instance_def)

lemma drain_log_iter:
  "nd_reg ((log_call c ^^ m) n) = nd_reg n \<and> nd_procs ((log_call c ^^ m) n) = nd_procs n \<and>
   nd_next_pid ((log_call c ^^ m) n) = nd_next_pid n \<and> nd_store ((log_call c ^^ m) n) = nd_store n \<and>
   nd_config ((log_call c ^^ m) n) = nd_config n \<and> nd_overlay ((log_call c ^^ m) n) = nd_overlay n \<and>
   nd_pg ((log_call c ^^ m) n) = nd_pg n \<and> nd_log ((log_call c ^^ m) n) = nd_log n @ replicate m c"
  by (induction m) (simp_all add: replicate_append_same [symmetric])

lemma drain_sel [simp, frame]:
  "nd_reg (drain_instance e k t as n) = nd_reg n" "nd_procs (drain_instance e k t as n) = nd_procs n"
  "nd_next_pid (drain_instance e k t as n) = nd_next_pid n" "nd_store (drain_instance e k t as n) = nd_store n"
  "nd_config (drain_instance e k t as n) = nd_config n" "nd_overlay (drain_instance e k t as n) = nd_overlay n"
  "nd_pg (drain_instance e k t as n) = nd_pg n"
  by (simp_all add: drain_instance_def drain_log_iter)

lemma kill_sel [simp, frame]:
  "nd_reg (terminate_process_group p n) = nd_reg n"
  "nd_next_pid (terminate_process_group p n) = nd_next_pid n"
  "nd_store (terminate_process_group p n) = nd_store n" "nd_config (terminate_process_group p n) = nd_config n"
  "nd_overlay (terminate_process_group p n) = nd_overlay n" "nd_pg (terminate_process_group p n) = nd_pg n"
  by (simp_all add: terminate_process_group_def)

lemma kill_alive [simp]: "alive (terminate_process_group p n) q = (q \<noteq> p \<and> alive n q)"
  by (auto simp: terminate_process_group_def poll_def alive_def dget_def split: option.splits)

lemma alive_frame [simp, frame]:
  "alive (on_store f n) p = alive n p" "alive (on_inst k g n) p = alive n p"
  "alive (log_call c n) p = alive n p" "alive (emit_transition se t k a b d n) p = alive n p"
  "alive (persist_desired e t k w n) p = alive n p" "alive (trigger_router_reload e n) p = alive n p"
  "alive (undrain_instance e k n) p = alive n p" "alive (drain_instance e k t as n) p = alive n p"
  by (simp_all add: alive_def)

lemma alive_cong: "nd_procs a = nd_procs b \<Longrightarrow> alive a p = alive b p"
  by (simp add: alive_def)

lemma reg_get_upd [simp]:
  "reg_get (reg_upd key f r) k = (if k = key then map_option f (reg_get r key) else reg_get r k)"
  by (rule reg_upd_get)

section \<open>Properties of start and stop\<close>

definition stored_desired :: "node \<Rightarrow> string \<Rightarrow> string option" where
  "stored_desired n key = (case nd_store n of None \<Rightarrow> None | Some s \<Rightarrow> map_of (list_instance_desired s) key)"

definition assigned_to :: "node \<Rightarrow> string \<Rightarrow> string option" where
  "assigned_to n key = (case nd_store n of None \<Rightarrow> None | Some s \<Rightarrow> map_of (list_assignments None s) key)"

lemma map_of_pairs: "map_of (map (\<lambda>(k, a, b). (k, a)) xs) k = map_option fst (map_of xs k)"
  by (induction xs) auto

lemma desired_lookup: "map_of (list_instance_desired s) k = map_option fst (map_of (so_desired s) k)"
  by (simp add: list_instance_desired_def map_of_pairs)

lemma assign_lookup: "map_of (list_assignments None s) k = map_option fst (map_of (so_assign s) k)"
  by (simp add: list_assignments_def opt_all_def map_of_pairs)

lemma persist_stored:
  "nd_store n \<noteq> None \<Longrightarrow> stored_desired (persist_desired e t k d n) k = Some (desired_value d)"
  "nd_store n \<noteq> None \<Longrightarrow> d \<noteq> D_STOPPED \<Longrightarrow>
     assigned_to (persist_desired e t k d n) k = Some (se_instance_id (en_set e))"
  by (auto simp: stored_desired_def assigned_to_def persist_desired_def desired_lookup assign_lookup
      set_instance_desired_def set_assignment_def Let_def)

lemma emit_store_some [simp]: "(nd_store (emit_transition se t k a b d n) = None) = (nd_store n = None)"
  by (simp add: emit_transition_def Let_def split: option.split)

lemma persist_store_some [simp]: "(nd_store (persist_desired e t k d n) = None) = (nd_store n = None)"
  by (simp add: persist_desired_def)

text \<open>
  A successful start.  From any state but STARTING and READY, when the launch is possible on this
  node and the spawn works, the instance is STARTING under a new live process with a fresh restart
  budget, wanted RUNNING in the registry and in the store, assigned to this node, and its drain mark
  is cleared after the spawn.
\<close>

theorem start_launches:
  assumes "reg_get (nd_reg n) key = Some i" "mi_key i = key" "node_can_run e (mi_engine i)"
    and "start_plan e force i n = Inr sp" "mi_state i \<noteq> STARTING" "mi_state i \<noteq> READY"
    and "nd_store n \<noteq> None" "en_router e"
  shows "\<exists>n' j. start e now force True True key n = (Inr (), n') \<and> reg_get (nd_reg n') key = Some j \<and>
     mi_state j = STARTING \<and> mi_proc j = Some (nd_next_pid n) \<and> mi_managed j \<and> mi_desired j = RUNNING \<and>
     mi_restarts j = 0 \<and> mi_next_restart j = None \<and> mi_spec j = sp \<and> alive n' (nd_next_pid n) \<and>
     stored_desired n' key = Some ''running'' \<and> assigned_to n' key = Some (se_instance_id (en_set e)) \<and>
     nd_log n' = nd_log n @ [Spawned key (nd_next_pid n), RouterUndrain key]"
proof -
  define m where "m = snd (start_begin e now True key sp n)"
  have m: "start_begin e now True key sp n = (Inr (), m)"
    "reg_get (nd_reg m) key = Some (starting_inst now True sp i)" "nd_log m = nd_log n"
    "nd_next_pid m = nd_next_pid n" "nd_store m \<noteq> None"
    using assms by (simp_all add: m_def start_begin_def)
  define n' where "n' = start_finish e now key (nd_next_pid n) (snd (spawn_process key m))"
  have start: "start e now force True True key n = (Inr (), n')"
    using assms m by (simp add: start_def n'_def spawn_process_def)
  have "reg_get (nd_reg n') key = Some (touch now ((starting_inst now True sp i)
      \<lparr>mi_proc := Some (nd_next_pid n), mi_pid := Some (nd_next_pid n)\<rparr>))"
    using m by (simp add: n'_def start_finish_def spawn_process_def)
  moreover have "stored_desired n' key = Some ''running''" "assigned_to n' key = Some (se_instance_id (en_set e))"
    using m by (simp_all add: n'_def start_finish_def spawn_process_def persist_stored)
  moreover have "alive n' (nd_next_pid n)"
    "nd_log n' = nd_log n @ [Spawned key (nd_next_pid n), RouterUndrain key]"
    using m assms(8) by (simp_all add: n'_def start_finish_def spawn_process_def alive_def undrain_instance_def)
  ultimately show ?thesis
    using start by (auto simp: starting_inst_def touch_def set_state_def)
qed

text \<open>
  C15: A stop of a process of ours.  The router is asked to drain the instance before the process
  group is ended (at least once, and as often as its answers demand), and then the process is gone,
  the instance is STOPPED without a handle, and the wish is stored.
\<close>

theorem stop_drains_then_kills:
  assumes "reg_get (nd_reg n) key = Some i" "node_can_run e (mi_engine i)" "mi_proc i = Some pid" "mi_managed i"
    and "nd_store n \<noteq> None" "en_router e" "0 < se_drain_timeout (en_set e)" "alive n pid"
  shows "\<exists>n' j. stop e now answers key n = (Inr (), n') \<and> reg_get (nd_reg n') key = Some j \<and>
     mi_state j = STOPPED \<and> mi_proc j = None \<and> mi_desired j = D_STOPPED \<and> \<not> alive n' pid \<and>
     stored_desired n' key = Some ''stopped'' \<and>
     (\<forall>q. q \<noteq> pid \<longrightarrow> alive n' q = alive n q) \<and>
     nd_log n' = nd_log n @ replicate (drain_polls (now + se_drain_timeout (en_set e)) answers) (RouterDrain key)
                   @ [Killed pid]"
proof -
  define m where "m = snd (stop_begin e now key n)"
  have m: "stop_begin e now key n = (Some pid, m)" "nd_procs m = nd_procs n" "nd_log m = nd_log n"
    "reg_get (nd_reg m) key = Some (set_state now STOPPING (i\<lparr>mi_desired := D_STOPPED\<rparr>))" "nd_store m \<noteq> None"
    using assms by (simp_all add: m_def stop_begin_def Let_def)
  define n' where "n' = stop_finish e now key (stop_kill e now answers key pid m)"
  have run: "stop e now answers key n = (Inr (), n')"
    using assms m by (simp add: stop_def n'_def)
  have live: "alive n' q = (q \<noteq> pid \<and> alive n q)" for q
    using m(2) by (simp add: n'_def stop_finish_def stop_kill_def) (simp add: alive_def)
  have "poll (drain_instance e key now answers m) pid = None"
    using m(2) assms(8) by (simp add: poll_def dget_def alive_def)
  then have "nd_log n' = nd_log n @ replicate (drain_polls (now + se_drain_timeout (en_set e)) answers)
      (RouterDrain key) @ [Killed pid]"
    using m(3) assms(6,7) by (simp add: n'_def stop_finish_def stop_kill_def terminate_process_group_def
        drain_instance_def drain_log_iter)
  moreover have "stored_desired n' key = Some ''stopped''"
    using m(5) by (simp add: n'_def stop_finish_def stop_kill_def persist_stored)
  moreover have "reg_get (nd_reg n') key = Some (set_state now STOPPED
      ((set_state now STOPPING (i\<lparr>mi_desired := D_STOPPED\<rparr>))\<lparr>mi_proc := None, mi_pid := None\<rparr>))"
    using m(4) by (simp add: n'_def stop_finish_def stop_kill_def)
  ultimately show ?thesis
    using run live by (auto simp: set_state_def touch_def)
qed

text \<open>The clock the router's answer was read at.\<close>

fun answer_clock :: "drain_answer \<Rightarrow> real option" where
  "answer_clock (Inflight k t) = Some t"
| "answer_clock (BadStatus t) = Some t"
| "answer_clock PostFails = None"

lemma drain_polls_le:
  assumes "\<forall>k t. k < length answers \<longrightarrow> answer_clock (answers ! k) = Some t \<longrightarrow> t0 + real k * p \<le> t" "0 < p"
    and "deadline \<le> t0 + real m * p"
  shows "drain_polls deadline answers \<le> Suc m"
  using assms
proof (induction answers arbitrary: t0 m)
  case (Cons a as)
  show ?case
  proof (cases a)
    case (Inflight k t)
    have t: "t0 \<le> t" using Cons.prems(1) Inflight by (metis answer_clock.simps(1) length_greater_0_conv
        list.distinct(1) mult_zero_left nth_Cons_0 of_nat_0 add_0_right)
    show ?thesis
    proof (cases "0 < k \<and> t < deadline")
      case True
      then obtain m' where m': "m = Suc m'"
        using t Cons.prems(3) by (cases m) auto
      have "drain_polls deadline as \<le> Suc m'"
      proof (rule Cons.IH [of "t0 + p"])
        show "\<forall>k t. k < length as \<longrightarrow> answer_clock (as ! k) = Some t \<longrightarrow> t0 + p + real k * p \<le> t"
        proof (intro allI impI)
          fix k t assume "k < length as" "answer_clock (as ! k) = Some t"
          then show "t0 + p + real k * p \<le> t"
            using Cons.prems(1) [rule_format, of "Suc k" t] by (simp add: algebra_simps)
        qed
        show "deadline \<le> t0 + p + real m' * p"
          using Cons.prems(3) m' by (simp add: algebra_simps)
      qed (use Cons.prems in simp)
      then show ?thesis using Inflight m' by simp
    next
      case False
      then show ?thesis using Inflight by auto
    qed
  qed auto
qed simp

text \<open>
  A stop is never held up for long.  With at least \<open>drain_poll_interval\<close> between two answers of
  the router, the drain ends after at most \<open>drain_timeout / drain_poll_interval\<close>, rounded up, plus
  one posts, whatever the router answers.
\<close>

theorem drain_bounded:
  assumes "\<forall>k t. k < length answers \<longrightarrow> answer_clock (answers ! k) = Some t \<longrightarrow>
      now + real k * se_drain_poll (en_set e) \<le> t"
    and "0 < se_drain_poll (en_set e)"
  shows "length (nd_log (drain_instance e key now answers n)) \<le>
    length (nd_log n) + nat \<lceil>se_drain_timeout (en_set e) / se_drain_poll (en_set e)\<rceil> + 1"
proof (cases "\<not> en_router e \<or> se_drain_timeout (en_set e) \<le> 0")
  case True
  then show ?thesis by (auto simp: drain_instance_def)
next
  case False
  define p where "p = se_drain_poll (en_set e)"
  define lim where "lim = se_drain_timeout (en_set e)"
  have "lim / p \<le> real (nat \<lceil>lim / p\<rceil>)"
    by linarith
  then have "lim \<le> real (nat \<lceil>lim / p\<rceil>) * p"
    using assms(2) by (simp add: p_def pos_divide_le_eq)
  then have "drain_polls (now + lim) answers \<le> Suc (nat \<lceil>lim / p\<rceil>)"
    using assms by (intro drain_polls_le [of _ now p]) (auto simp: p_def)
  then show ?thesis
    using False by (simp add: drain_instance_def drain_log_iter lim_def p_def)
qed

text \<open>
  Start and stop race.  A stop that arrives while the process of a start is being spawned finds
  no handle, reports the instance STOPPED and stores that wish; the start then stores its handle and
  its own wish: the process runs on under an instance that reads STOPPED.
\<close>

theorem start_stop_race:
  assumes "reg_get (nd_reg n) key = Some i" "mi_state i = STOPPED" "mi_proc i = None" "nd_store n \<noteq> None"
    and "start_begin e t1 True key sp n = (Inr (), n1)" "spawn_process key n1 = (pid, n2)"
    and "stop_begin e t2 key n2 = (r, n3)" "n' = start_finish e t3 key pid n3"
  shows "r = None \<and> stored_desired n3 key = Some ''stopped'' \<and> stored_desired n' key = Some ''running'' \<and>
     alive n' pid \<and>
     (\<exists>j. reg_get (nd_reg n') key = Some j \<and> mi_state j = STOPPED \<and> mi_desired j = D_STOPPED \<and> mi_proc j = Some pid)"
proof -
  have "n1 = emit_transition (en_set e) t1 key (Some STOPPED) STARTING None
      (on_inst key (starting_inst t1 True sp) n)"
    using assms(1,2,5) by (simp add: start_begin_def)
  then have n1: "reg_get (nd_reg n1) key = Some (starting_inst t1 True sp i)" "nd_store n1 \<noteq> None"
    using assms(1,4) by simp_all
  have n2: "nd_reg n2 = nd_reg n1" "alive n2 pid" "nd_store n2 = nd_store n1"
    using assms(6) by (auto simp: spawn_process_def alive_def)
  let ?j = "starting_inst t1 True sp i"
  have j: "mi_proc ?j = None" "mi_state ?j = STARTING" "mi_managed ?j"
    using assms(3) by (simp_all add: starting_inst_def set_state_def touch_def)
  have stopped: "r = None" "n3 = persist_desired e t2 key D_STOPPED (emit_transition (en_set e) t2 key (Some STARTING)
      STOPPED None (on_inst key (\<lambda>j. set_state t2 STOPPED (j\<lparr>mi_proc := None, mi_pid := None\<rparr>))
        (on_inst key (mi_desired_update (\<lambda>_. D_STOPPED)) n2)))"
    using assms(7) n1 n2 j by (auto simp: stop_begin_def Let_def)
  then have "reg_get (nd_reg n3) key = Some (set_state t2 STOPPED (?j\<lparr>mi_desired := D_STOPPED, mi_proc := None, mi_pid := None\<rparr>))"
    "alive n3 pid" "nd_store n3 \<noteq> None" "stored_desired n3 key = Some ''stopped''"
    using n1 n2 by (simp_all add: persist_stored)
  then show ?thesis
    using assms(8) stopped(1) by (simp add: start_finish_def persist_stored touch_def)
qed

text \<open>
  A start of a SLEEPING instance is not refused: the sleeping process runs on, and no instance has
  its handle any more.
\<close>

lemma start_orphans_sleeper:
  assumes "reg_get (nd_reg n) key = Some i" "mi_key i = key" "node_can_run e (mi_engine i)"
    and "start_plan e force i n = Inr sp" "mi_state i = SLEEPING" "alive n p" "p < nd_next_pid n"
    and "\<And>k j. reg_get (nd_reg n) k = Some j \<Longrightarrow> mi_proc j = Some p \<Longrightarrow> k = key"
    and "start e now force True True key n = (r, n')"
  shows "r = Inr () \<and> alive n' p \<and> (\<forall>k j. reg_get (nd_reg n') k = Some j \<longrightarrow> mi_proc j \<noteq> Some p)"
proof -
  have n': "r = Inr ()" "n' = start_finish e now key (nd_next_pid n) (snd (spawn_process key
      (emit_transition (en_set e) now key (Some SLEEPING) STARTING None (on_inst key (starting_inst now True sp) n))))"
    using assms(9,1-5) by (simp_all add: start_def start_begin_def spawn_process_def)
  show ?thesis
    using assms(1,6-8) n'(1) unfolding n'(2)
    by (auto simp: start_finish_def spawn_process_def touch_def alive_def split: if_splits)
qed

section \<open>The GPU checks\<close>

lemma digit_of [simp]: "k < 10 \<Longrightarrow> of_char (char_of (48 + k :: nat)) = (48 + k :: nat)"
  by simp

lemma parse_snoc: "parse_nat (s @ [c]) = 10 * parse_nat s + (of_char c - 48)"
  by (simp add: parse_nat_def)

lemma parse_show [simp]: "parse_nat (show_nat n) = n"
proof (induction n rule: show_nat.induct)
  case (1 n)
  show ?case
  proof (cases "n < 10")
    case True
    then show ?thesis by (subst show_nat.simps) (simp add: parse_nat_def)
  next
    case False
    then show ?thesis using 1 by (subst show_nat.simps) (simp add: parse_snoc)
  qed
qed

lemma digit_char: "k < 10 \<Longrightarrow> CHR ''0'' \<le> char_of (48 + k :: nat) \<and> char_of (48 + k :: nat) \<le> CHR ''9''"
  by (simp add: less_eq_char_def)

lemma digits_show [simp]: "all_digits (show_nat n)"
proof (induction n rule: show_nat.induct)
  case (1 n)
  have d: "CHR ''0'' \<le> char_of (48 + n mod 10) \<and> char_of (48 + n mod 10) \<le> CHR ''9''"
    by (rule digit_char) simp
  show ?case
  proof (cases "n < 10")
    case True
    then show ?thesis using d by (subst show_nat.simps) (simp add: all_digits_def)
  next
    case False
    then show ?thesis using 1 d by (subst show_nat.simps) (auto simp: all_digits_def)
  qed
qed

lemma freest_loop_in: "freest_loop b gs \<in> insert b (set gs)"
  by (induction gs arbitrary: b) auto

lemma freest_loop_max: "g \<in> insert b (set gs) \<Longrightarrow> free_mem g \<le> free_mem (freest_loop b gs)"
proof (induction gs arbitrary: b g)
  case (Cons h gs)
  show ?case
    using Cons.IH [of g "if free_mem h > free_mem b then h else b"] Cons.IH [of h "if free_mem h > free_mem b then h else b"]
      Cons.IH [of b "if free_mem h > free_mem b then h else b"] Cons.prems
    by (auto split: if_splits dest: order.trans)
qed simp

lemma freest_in: "gs \<noteq> [] \<Longrightarrow> freest gs \<in> set gs"
  using freest_loop_in [of "hd gs" "tl gs"] by (cases gs) (auto simp: freest_def)

lemma freest_max: "g \<in> set gs \<Longrightarrow> free_mem g \<le> free_mem (freest gs)"
  using freest_loop_max [of g "hd gs" "tl gs"] by (cases gs) (auto simp: freest_def)

lemma gpu_lookup: "gpu_by_index gs k = Some g \<Longrightarrow> g \<in> set gs \<and> gp_index g = k"
proof -
  have "map_of (fold (\<lambda>g. dset (gp_index g) g) gs d) k = Some g \<Longrightarrow>
      (g \<in> set gs \<and> gp_index g = k) \<or> map_of d k = Some g" for d
    by (induction gs arbitrary: d) (fastforce split: if_splits)+
  then show "gpu_by_index gs k = Some g \<Longrightarrow> g \<in> set gs \<and> gp_index g = k"
    by (force simp: gpu_by_index_def)
qed

lemma gpu_lookup_some: "k \<in> gp_index ` set gs \<Longrightarrow> gpu_by_index gs k \<noteq> None"
proof -
  have "k \<in> gp_index ` set gs \<or> map_of d k \<noteq> None \<Longrightarrow> map_of (fold (\<lambda>g. dset (gp_index g) g) gs d) k \<noteq> None" for d
    by (induction gs arbitrary: d) auto
  then show "k \<in> gp_index ` set gs \<Longrightarrow> gpu_by_index gs k \<noteq> None"
    by (simp add: gpu_by_index_def)
qed

lemma pin_of_placed: "cuda_pin (fst (place_unpinned e sp)) = Some (snd (place_unpinned e sp))"
  by (auto simp: place_unpinned_def cuda_pin_def Let_def split: option.split)

text \<open>
  The memory guard.  A guarded plan for a single-GPU LLM group with a memory share is pinned to a
  visible GPU that has that share of its memory free, and to the freest one when the configuration
  pins none.
\<close>

theorem start_plan_fits:
  assumes "start_plan e False i n = Inr sp" "mi_kind i = LLM" "se_vram_guard (en_set e)" "en_gpus e \<noteq> []"
    and "tensor_parallel (nd_config n) (key_group (mi_key i)) \<le> 1"
    and "memory_share (nd_config n) (key_group (mi_key i)) = Some util" "util \<noteq> 0"
  shows "\<exists>g \<in> set (en_gpus e). cuda_pin sp = Some (gp_index g) \<and>
     py_trunc (util * real_of_int (gp_total g)) \<le> free_mem g \<and>
     (\<forall>l sp0. launcher_for e LLM (mi_engine i) = Some l \<longrightarrow> la_build l (nd_config n) (mi_key i) = Some sp0 \<longrightarrow>
        cuda_pin sp0 = None \<longrightarrow> gp_index g = gp_index (freest (en_gpus e)))"
proof -
  obtain l sp0 where l: "launcher_for e LLM (mi_engine i) = Some l"
      "la_build l (nd_config n) (mi_key i) = Some sp0" "gpu_exists_preflight e sp0 = None"
      "vram_preflight e (nd_config n) (mi_key i) sp0 True = Inr sp"
    using assms(1-3) by (auto simp: start_plan_def split: option.splits)
  obtain sp' k where pl: "place_unpinned e sp0 = (sp', k)" by force
  have k: "k \<in> gp_index ` set (en_gpus e)" "cuda_pin sp0 = None \<Longrightarrow> k = gp_index (freest (en_gpus e))"
    using l(3) pl assms(4) freest_in [OF assms(4)]
    by (auto simp: gpu_exists_preflight_def place_unpinned_def Let_def split: option.splits if_splits)
  obtain g where g: "gpu_by_index (en_gpus e) k = Some g" "g \<in> set (en_gpus e)" "gp_index g = k"
    using gpu_lookup_some [OF k(1)] gpu_lookup by blast
  have "sp = sp'" "py_trunc (util * real_of_int (gp_total g)) \<le> free_mem g"
    using l(4) pl assms(4-7) g(1) by (auto simp: vram_preflight_def split: if_splits)
  then show ?thesis
    using g k(2) l pin_of_placed [of e sp0] pl by (intro bexI [of _ g]) auto
qed

section \<open>Hot LoRA loading: properties\<close>

text \<open>Whether an engine holds an adapter, read off the calls it accepted.\<close>

fun lora_on :: "call list \<Rightarrow> string \<Rightarrow> string \<Rightarrow> bool \<Rightarrow> bool" where
  "lora_on [] key name b = b"
| "lora_on (c # cs) key name b =
     lora_on cs key name (if c = LoraLoad key name then True else if c = LoraUnload key name then False else b)"

lemma lora_on_append: "lora_on (xs @ ys) k m b = lora_on ys k m (lora_on xs k m b)"
  by (induction xs arbitrary: b) auto

definition holds_lora :: "node \<Rightarrow> string \<Rightarrow> string \<Rightarrow> bool" where
  "holds_lora n key name = lora_on (nd_log n) key name False"

lemma holds_load [simp]: "holds_lora (log_call (LoraLoad k m) n) key name = ((k = key \<and> m = name) \<or> holds_lora n key name)"
  by (auto simp: holds_lora_def lora_on_append)

lemma holds_unload [simp]: "holds_lora (log_call (LoraUnload k m) n) key name = (\<not> (k = key \<and> m = name) \<and> holds_lora n key name)"
  by (auto simp: holds_lora_def lora_on_append)

lemma log_call_config: "nd_config (log_call c n) = nd_config n"
  by simp





text \<open>
  The rollback covers error answers only.  When the call to the second instance gets no HTTP
  answer at all, the load fails with that exception and the first instance keeps the adapter.
\<close>

theorem load_lora_transport_leaves:
  assumes "ready_lora_targets grp n = i # j # rest" "out (mi_key i) = PostOk" "out (mi_key j) = PostRaises"
    and "map_of (rc_engines (nd_config n)) grp = Some g" "''runtime_lora'' \<in> set (group_caps e (nd_config n) grp)"
    and "truthy (jget (group_mc g) ''allow_runtime_lora'')" "name \<noteq> []" "path \<noteq> []"
    and "load_lora e out undo grp name path base n = (r, n')"
  shows "r = Inl TransportError \<and> holds_lora n' (mi_key i) name"
proof -
  have "load_all name out (i # j # rest) [] n = (([mi_key i], Some TransportError), log_call (LoraLoad (mi_key i) name) n)"
    using assms(2,3) by simp
  then have "r = Inl TransportError" "n' = log_call (LoraLoad (mi_key i) name) n"
    using assms by (auto simp: load_lora_def Let_def)
  then show ?thesis by simp
qed

section \<open>Aligning the registry: properties\<close>

lemma fold_remove_get:
  "reg_get (fold reg_remove ks r) k = (if k \<in> set ks then None else reg_get r k)"
  by (induction ks arbitrary: r) auto

lemma add_wanted_get:
  "reg_get (add_wanted now want k r) k' =
     (if k' = k \<and> dhas want k then map_option (\<lambda>(kd, sp). instance_of now k kd sp) (map_of want k) else reg_get r k')"
  by (auto simp: add_wanted_def dhas_def instance_of_def new_instance_def split: option.splits)

lemma fold_add_get:
  "reg_get (fold (add_wanted now want) ks r) k =
     (if k \<in> set ks \<and> dhas want k then map_option (\<lambda>(kd, sp). instance_of now k kd sp) (map_of want k) else reg_get r k)"
  by (induction ks arbitrary: r) (auto simp: add_wanted_get)

lemma respec_get:
  "reg_get (respec_wanted want k r) k' =
     (if k' = k then (case map_of want k of None \<Rightarrow> reg_get r k | Some (kd, sp) \<Rightarrow> map_option (apply_spec sp) (reg_get r k))
      else reg_get r k')"
  by (auto simp: respec_wanted_def split: option.splits)

lemma apply_spec_idem: "apply_spec sp (apply_spec sp i) = apply_spec sp i"
  by (simp add: apply_spec_def)

lemma fold_respec_get:
  "reg_get (fold (respec_wanted want) ks r) k =
     (if k \<in> set ks then (case map_of want k of None \<Rightarrow> reg_get r k | Some (kd, sp) \<Rightarrow> map_option (apply_spec sp) (reg_get r k))
      else reg_get r k)"
  by (induction ks arbitrary: r)
    (auto simp: respec_get apply_spec_idem option.map_comp comp_def split: option.splits prod.splits)

lemma reg_has_keys: "k \<in> set (dkeys r) \<longleftrightarrow> reg_get r k \<noteq> None"
  using dhas_iff_keys [of r k] by (simp add: dhas_def reg_get_def)

lemma resync_get:
  "reg_get (resync now want r) k =
     (case map_of want k of
        None \<Rightarrow> None
      | Some (kd, sp) \<Rightarrow>
          (case reg_get r k of
             None \<Rightarrow> Some (instance_of now k kd sp)
           | Some i \<Rightarrow> Some (if mi_spec i = sp then i else apply_spec sp i)))"
  by (auto simp: resync_def summarize_def Let_def fold_respec_get fold_add_get fold_remove_get spec_changed_def
      reg_has_keys dhas_iff_keys [symmetric] dhas_def split: option.splits prod.splits)

text \<open>
  The registry follows the configuration.  After a resync the registry has exactly the keys the
  launchers enumerate, each with its current spec; an instance that stays keeps its state, its
  process and its wish, whatever state it is in.
\<close>

theorem resync_exact:
  assumes "resolve_specs e config = Some want" "resync_registry e now config n = (r, n')"
  shows "(reg_get (nd_reg n') k = None \<longleftrightarrow> map_of want k = None) \<and>
    (\<forall>j. reg_get (nd_reg n') k = Some j \<longrightarrow>
       (\<exists>kd. map_of want k = Some (kd, mi_spec j)) \<and>
       (case reg_get (nd_reg n) k of
          None \<Rightarrow> mi_state j = STOPPED \<and> mi_proc j = None
        | Some i \<Rightarrow> mi_state j = mi_state i \<and> mi_proc j = mi_proc i \<and> mi_desired j = mi_desired i \<and>
                   mi_managed j = mi_managed i))"
proof -
  have "nd_reg n' = resync now want (nd_reg n)"
    using assms by (auto simp: resync_registry_def)
  then show ?thesis
    by (auto simp: resync_get apply_spec_def instance_of_def new_instance_def split: option.splits prod.splits if_splits)
qed

lemma import_keeps_live:
  assumes "import_overlay e now answers False actor role summary ov n = (Inr sy, n')"
    and "reg_get (nd_reg n) k = Some i" "mi_state i \<noteq> STOPPED" "mi_state i \<noteq> FAILED"
  shows "reg_get (nd_reg n') k = Some i"
proof -
  obtain cfg want where cfg: "build_merged_config (en_valid e) (en_base e) ov = Some cfg"
      "resolve_specs e cfg = Some want" "import_busy want n = []"
    using assms(1) by (auto simp: import_overlay_def Let_def split: option.splits if_splits)
  have "\<not> (\<not> dhas want k \<or> spec_changed want (nd_reg n) k)"
  proof
    assume "\<not> dhas want k \<or> spec_changed want (nd_reg n) k"
    then have "k \<in> set (import_busy want n)"
      using assms(2-4) by (auto simp: import_busy_def is_live_def reg_has_keys)
    then show False using cfg(3) by simp
  qed
  then obtain kd where kd: "map_of want k = Some (kd, mi_spec i)"
    using assms(2) by (auto simp: dhas_def spec_changed_def)
  have "nd_reg n' = resync now want (nd_reg n)"
    using assms(1) cfg by (cases "nd_pg n") (auto simp: import_overlay_def resync_registry_def Let_def)
  then show ?thesis
    using kd assms(2) by (simp add: resync_get)
qed

text \<open>
  An import without \<open>force\<close> never takes a running instance away: if it succeeds, every live
  instance is still registered, with the spec it was launched with and its process.
\<close>

theorem import_keeps_running:
  assumes "import_overlay e now answers False actor role summary ov n = (Inr sy, n')"
    and "reg_get (nd_reg n) k = Some i" "mi_state i \<noteq> STOPPED" "mi_state i \<noteq> FAILED"
  shows "reg_get (nd_reg n') k = Some i"
  by (rule import_keeps_live [OF assms])

text \<open>
  Automatic GPU placement blocks imports.  A start that places an unpinned instance writes the
  GPU into the spec it keeps, so the instance counts as changed against any configuration, and even
  re-importing the overlay in force is refused while it runs.
\<close>

theorem import_blocked_by_autoplacement:
  assumes "start e t1 False True True key n = (Inr (), n')" "reg_get (nd_reg n) key = Some i" "mi_key i = key"
    and "mi_kind i = LLM" "node_can_run e (mi_engine i)" "launcher_for e LLM (mi_engine i) = Some l"
    and "la_build l (nd_config n) key = Some sp0" "cuda_pin sp0 = None" "en_gpus e \<noteq> []"
    and "tensor_parallel (nd_config n) (key_group key) \<le> 1"
    and "build_merged_config (en_valid e) (en_base e) (nd_overlay n) = Some (nd_config n)"
    and "resolve_specs e (nd_config n) = Some want" "map_of want key = Some (kd, sp0)"
  shows "import_overlay e t2 answers False actor role summary (nd_overlay n') n' = (Inl ModelConflict, n')"
proof -
  obtain sp where sp: "start_plan e False i n = Inr sp" "mi_state i \<noteq> STARTING" "mi_state i \<noteq> READY"
    using assms(1,2,5) by (auto simp: start_def start_begin_def split: sum.splits prod.splits if_splits)
  have "cuda_pin sp \<noteq> None"
    using sp(1) assms(3,4,6-10) pin_of_placed [of e sp0]
    by (auto simp: start_plan_def gpu_exists_preflight_def vram_preflight_def split: option.splits if_splits prod.splits)
  then have "sp \<noteq> sp0" using assms(8) by auto
  define m where "m = emit_transition (en_set e) t1 key (Some (mi_state i)) STARTING None
      (on_inst key (starting_inst t1 True sp) n)"
  have n': "n' = start_finish e t1 key (nd_next_pid m) (snd (spawn_process key m))"
    using assms(1,2,5) sp by (auto simp: start_def start_begin_def m_def spawn_process_def)
  have "\<exists>j. reg_get (nd_reg n') key = Some j \<and> mi_state j = STARTING \<and> mi_spec j = sp"
    using assms(2) by (simp add: n' m_def start_finish_def spawn_process_def touch_def starting_inst_def set_state_def)
  then have "key \<in> set (import_busy want n')"
    using assms(13) \<open>sp \<noteq> sp0\<close>
    by (auto simp: import_busy_def is_live_def reg_has_keys spec_changed_def)
  moreover have "nd_overlay n' = nd_overlay n"
    by (simp add: n' m_def start_finish_def spawn_process_def)
  ultimately show ?thesis
    using assms(11,12) by (auto simp: import_overlay_def Let_def)
qed

section \<open>Adding and removing a model\<close>

lemma dpop_dset_absent: "\<not> dhas d k \<Longrightarrow> dpop k (dset k v d) = d"
  by (simp add: dset_absent, induction d) (auto simp: dpop_def dhas_def split: if_splits)

text \<open>
  C17: When the live configuration is the merge of file and overlay, adding a model in a new group (one
  that neither knows, with no separator in its name) and deleting it again leaves the overlay, the live configuration and
  the registry exactly as they were.
\<close>

theorem create_delete_roundtrip:
  assumes "create_overlay_model e now grp inst mc autoscale n = (Inr key, n1)"
    and "\<not> dhas (rc_engines (nd_config n)) grp" "\<not> dhas (rc_engines (nd_overlay n)) grp" "sep_free grp"
    and "build_merged_config (en_valid e) (en_base e) (nd_overlay n) = Some (nd_config n)"
  shows "\<exists>n2. delete_overlay_model e key n1 = (Inr (), n2) \<and> nd_overlay n2 = nd_overlay n \<and>
     nd_config n2 = nd_config n \<and> nd_reg n2 = nd_reg n"
proof -
  define g where "g = (case autoscale of None \<Rightarrow> create_entry (nd_config n) (nd_overlay n) grp inst mc
      | Some d \<Rightarrow> (create_entry (nd_config n) (nd_overlay n) grp inst mc)\<lparr>gc_autoscale := Val d\<rparr>)"
  define ov where "ov = put_entry grp g (nd_overlay n)"
  have g: "gc_instances g = Some [inst]"
    using assms(2,3) by (simp add: g_def create_entry_def split: option.split)
  obtain c sp where k: "key = grp @ sep2 @ ic_id inst" and com: "commit_overlay e ov n = Some c"
      and unused: "reg_get (nd_reg n) key = None"
      and n1: "n1 = emit_transition (en_set e) now key None STOPPED (Some ''added via dashboard'')
                 (c\<lparr>nd_reg := reg_add (instance_of now key LLM sp) (nd_reg c)\<rparr>)"
    using assms(1) unfolding create_overlay_model_def Let_def g_def [symmetric] ov_def [symmetric]
    by (auto split: option.splits sum.splits if_splits)
  have ov1: "nd_overlay n1 = ov" and reg1: "nd_reg n1 = reg_add (instance_of now key LLM sp) (nd_reg n)"
    using com by (auto simp: n1 commit_overlay_def)
  have engines: "rc_engines ov = dset grp g (rc_engines (nd_overlay n))" "ov\<lparr>rc_engines := rc_engines (nd_overlay n)\<rparr> = nd_overlay n"
    by (simp_all add: ov_def put_entry_def)
  have parts: "key_group key = grp" "key_instance key = ic_id inst"
    using assms(4) by (simp_all add: k)
  have owns: "overlay_owns ov grp (ic_id inst)"
    using g by (simp add: overlay_owns_def engines group_instances_def)
  have restored: "ov\<lparr>rc_engines := dpop grp (rc_engines ov)\<rparr> = nd_overlay n"
    using engines dpop_dset_absent [OF assms(3)] by simp
  have "reg_get (nd_reg n1) key = Some (instance_of now key LLM sp)"
    by (simp add: reg1 instance_of_def new_instance_def)
  moreover have "reg_remove key (nd_reg n1) = nd_reg n"
    using unused dpop_dset_absent [of "nd_reg n" key]
    by (simp add: reg1 reg_remove_def reg_add_def instance_of_def new_instance_def reg_get_def dhas_def)
  ultimately show ?thesis
    using assms(5) owns restored g
    by (simp add: delete_overlay_model_def parts ov1 Let_def engines group_instances_def instance_of_def new_instance_def)
qed

section \<open>Concrete instances\<close>

definition mgr_spec :: "string \<Rightarrow> launch_spec" where
  "mgr_spec key = \<lparr>ls_key = key, ls_kind = LLM, ls_command = [''vllm'', ''serve''], ls_env = [],
     ls_log = ''q.log'', ls_host = ''localhost'', ls_port = 8001, ls_probe = ''/health'', ls_engine = ''vllm'',
     ls_caps = [''runtime_lora''], ls_model_tag = Some ''Q/m'', ls_sleep = True\<rparr>"

definition mgr_launcher :: launcher where
  "mgr_launcher = \<lparr>la_kind = LLM, la_engine = ''vllm'', la_caps = [''runtime_lora''],
     la_keys = \<lambda>c. if dhas (rc_engines c) ''q'' then [''q::a''] else [], la_build = \<lambda>c k. Some (mgr_spec k)\<rparr>"

definition mgr_settings :: settings where
  "mgr_settings = \<lparr>se_auto_restart = True, se_max_restarts = 3, se_backoff_base = 5, se_start_timeout = 600,
     se_stop_timeout = 10, se_drain_timeout = 30, se_drain_poll = 1, se_instance_id = ''n1'', se_node_host = [],
     se_live_ttl = 15, se_node_engines = [], se_vram_guard = True, se_alert_floor = ''error'', se_slack = [],
     se_discord = [], se_webhook = []\<rparr>"

definition mgr_group :: group_cfg where
  "mgr_group = \<lparr>gc_instances = Some [\<lparr>ic_id = ''a'', ic_host = None, ic_port = 8001, ic_extra = []\<rparr>],
     gc_model_config = Some [(''model_tag'', JStr ''Q/m''), (''allow_runtime_lora'', JBool True),
       (''gpu_memory_utilization'', JFloat (1 / 2))],
     gc_fallback = Absent, gc_autoscale = Absent\<rparr>"

definition mgr_config :: root_cfg where
  "mgr_config = \<lparr>rc_engines = [(''q'', mgr_group)], rc_embedding = Absent, rc_rest = []\<rparr>"

definition no_overlay :: root_cfg where
  "no_overlay = \<lparr>rc_engines = [], rc_embedding = Absent, rc_rest = []\<rparr>"

definition mgr_env :: env where
  "mgr_env = \<lparr>en_set = mgr_settings, en_launchers = [mgr_launcher], en_valid = \<lambda>_. True, en_base = mgr_config,
     en_router = True, en_gpus = [\<lparr>gp_index = 0, gp_total = 1000, gp_used = 100\<rparr>],
     en_parse = \<lambda>_. no_overlay, en_dump = \<lambda>_. ''{}'', en_sha = \<lambda>s. s,
     en_dump_view = \<lambda>v. ov_key v, en_parse_view = \<lambda>s. observed_dict (new_instance 0 s LLM (mgr_spec s))\<rparr>"

definition mgr_inst :: minst where
  "mgr_inst = new_instance 0 ''q::a'' LLM (mgr_spec ''q::a'')"

definition mgr_node :: node where
  "mgr_node = \<lparr>nd_reg = [(''q::a'', mgr_inst)], nd_procs = [], nd_next_pid = 1, nd_store = Some init_store,
     nd_notifier = None, nd_config = mgr_config, nd_overlay = no_overlay, nd_pg = False, nd_log = []\<rparr>"

definition serving_node :: node where
  "serving_node = mgr_node\<lparr>nd_reg := [(''q::a'', mgr_inst\<lparr>mi_state := READY, mi_proc := Some 0, mi_managed := True\<rparr>)],
     nd_procs := [(0, None)]\<rparr>"

lemmas mgr_defs = mgr_spec_def mgr_launcher_def mgr_settings_def mgr_group_def mgr_config_def no_overlay_def
  mgr_env_def mgr_inst_def mgr_node_def serving_node_def new_instance_def

definition placed_spec :: launch_spec where
  "placed_spec = (mgr_spec ''q::a'')\<lparr>ls_env := [(''CUDA_VISIBLE_DEVICES'', ''0'')]\<rparr>"

lemma show0: "show_nat 0 = ''0''"
proof -
  have "char_of (48 :: nat) = CHR ''0''" by code_simp
  then show ?thesis by (subst show_nat.simps) simp
qed

lemma mgr_plan: "start_plan mgr_env False mgr_inst mgr_node = Inr placed_spec"
  by (simp add: start_plan_def mgr_defs launcher_for_def launcher_map_def dset_def gpu_exists_preflight_def cuda_pin_def
      vram_preflight_def tensor_parallel_def place_unpinned_def freest_def memory_share_def key_group_def
      sep2_def starts_with_def dget_def group_mc_def jget_def gpu_by_index_def py_trunc_def free_mem_def
      placed_spec_def show0 Let_def)

lemma start_launches_witness:
  "\<exists>n' j. start mgr_env 5 False True True ''q::a'' mgr_node = (Inr (), n') \<and>
     reg_get (nd_reg n') ''q::a'' = Some j \<and> mi_state j = STARTING \<and> alive n' 1"
  using start_launches [of mgr_node "''q::a''" mgr_inst mgr_env False placed_spec 5] mgr_plan
  by (auto simp: node_can_run_def reg_get_def) (auto simp: mgr_defs)

lemma stop_drains_then_kills_witness:
  "\<exists>n'. stop mgr_env 5 [Inflight 2 6, Inflight 0 7] ''q::a'' serving_node = (Inr (), n') \<and>
     nd_log n' = [RouterDrain ''q::a'', RouterDrain ''q::a'', Killed 0]"
  using stop_drains_then_kills [of serving_node "''q::a''" _ mgr_env 0 5 "[Inflight 2 6, Inflight 0 7]"]
  by (auto simp: node_can_run_def reg_get_def alive_def mgr_defs numeral_2_eq_2)

lemma drain_bounded_witness:
  "length (nd_log (drain_instance mgr_env ''q::a'' 0 [Inflight 2 0, Inflight 2 1] mgr_node)) \<le> 31"
  using drain_bounded [of "[Inflight 2 0, Inflight 2 1]" 0 mgr_env "''q::a''" mgr_node]
  by (auto simp: mgr_defs nth_Cons' split: if_splits)

lemma start_plan_fits_witness:
  "\<exists>g \<in> set (en_gpus mgr_env). cuda_pin placed_spec = Some (gp_index g) \<and> 500 \<le> free_mem g"
proof -
  have "memory_share (nd_config mgr_node) (key_group (mi_key mgr_inst)) = Some (1 / 2)"
    "tensor_parallel (nd_config mgr_node) (key_group (mi_key mgr_inst)) = 1"
    by (simp_all add: memory_share_def tensor_parallel_def mgr_defs key_group_def sep2_def starts_with_def group_mc_def
        jget_def dget_def)
  then show ?thesis
    using start_plan_fits [OF mgr_plan, of "1 / 2"] by (auto simp: mgr_defs py_trunc_def)
qed

lemma start_stop_race_witness:
  "\<exists>n'. alive n' 1 \<and> (\<exists>j. reg_get (nd_reg n') ''q::a'' = Some j \<and> mi_state j = STOPPED \<and> mi_proc j = Some 1)"
proof -
  let ?n1 = "snd (start_begin mgr_env 0 True ''q::a'' placed_spec mgr_node)"
  let ?n2 = "snd (spawn_process ''q::a'' ?n1)"
  let ?n3 = "snd (stop_begin mgr_env 1 ''q::a'' ?n2)"
  have "start_begin mgr_env 0 True ''q::a'' placed_spec mgr_node = (Inr (), ?n1)"
    "spawn_process ''q::a'' ?n1 = (1, ?n2)"
    by (simp_all add: start_begin_def spawn_process_def reg_get_def, simp_all add: mgr_defs)
  then show ?thesis
    using start_stop_race [of mgr_node "''q::a''" mgr_inst mgr_env 0 placed_spec ?n1 1 ?n2 1
        "fst (stop_begin mgr_env 1 ''q::a'' ?n2)" ?n3 "start_finish mgr_env 2 ''q::a'' 1 ?n3" 2]
    by (auto simp: reg_get_def) (auto simp: mgr_defs)
qed



definition pair_node :: node where
  "pair_node = serving_node\<lparr>nd_reg := nd_reg serving_node @ [(''q::b'', mgr_inst\<lparr>mi_key := ''q::b'', mi_state := READY\<rparr>)]\<rparr>"

lemma load_lora_transport_leaves_witness:
  "holds_lora (snd (load_lora mgr_env (\<lambda>k. if k = ''q::a'' then PostOk else PostRaises) (\<lambda>_. PostOk) ''q'' ''ad'' ''/p''
     None pair_node)) ''q::a'' ''ad''"
proof -
  have t: "ready_lora_targets ''q'' pair_node =
     [mgr_inst\<lparr>mi_state := READY, mi_proc := Some 0, mi_managed := True\<rparr>,
      mgr_inst\<lparr>mi_key := ''q::b'', mi_state := READY\<rparr>]"
    by (simp add: ready_lora_targets_def reg_values_def mgr_defs pair_node_def key_group_def sep2_def starts_with_def)
  have "map_of (rc_engines (nd_config pair_node)) ''q'' = Some mgr_group"
    "''runtime_lora'' \<in> set (group_caps mgr_env (nd_config pair_node) ''q'')"
    by (simp_all add: mgr_defs pair_node_def group_caps_def group_engine_def group_mc_def dget_def launcher_for_def
        launcher_map_def dset_def)
  then show ?thesis
    using load_lora_transport_leaves [OF t, of "\<lambda>k. if k = ''q::a'' then PostOk else PostRaises" mgr_group mgr_env
        "''ad''" "''/p''" "\<lambda>_. PostOk" None _ "snd (load_lora mgr_env (\<lambda>k. if k = ''q::a'' then PostOk else PostRaises)
        (\<lambda>_. PostOk) ''q'' ''ad'' ''/p'' None pair_node)"]
    by (auto simp: mgr_group_def group_mc_def jget_def dget_def mgr_inst_def new_instance_def prod_eq_iff)
qed

lemma mgr_specs: "resolve_specs mgr_env mgr_config = Some [(''q::a'', LLM, mgr_spec ''q::a'')]"
  by (simp add: resolve_specs_def launcher_map_def dset_def mgr_env_def mgr_launcher_def mgr_config_def dhas_def)

lemma resync_exact_witness:
  "reg_get (nd_reg (snd (resync_registry mgr_env 3 mgr_config (mgr_node\<lparr>nd_reg := []\<rparr>)))) ''q::a'' \<noteq> None"
  using resync_exact [OF mgr_specs, of 3 "mgr_node\<lparr>nd_reg := []\<rparr>" _ _ "''q::a''"]
  by (auto simp: prod_eq_iff)

lemma mgr_merge: "build_merged_config (en_valid mgr_env) (en_base mgr_env) no_overlay = Some mgr_config"
  by (simp add: build_merged_config_def merge_into_def mgr_env_def no_overlay_def mgr_config_def)

lemma import_keeps_running_witness:
  "reg_get (nd_reg (snd (import_overlay mgr_env 3 (\<lambda>_. []) False None None None no_overlay serving_node))) ''q::a''
     \<noteq> None"
proof -
  have "import_busy [(''q::a'', LLM, mgr_spec ''q::a'')] serving_node = []"
    by (simp add: import_busy_def is_live_def spec_changed_def reg_get_def dkeys_def dhas_def mgr_defs)
  then have "\<exists>sy. fst (import_overlay mgr_env 3 (\<lambda>_. []) False None None None no_overlay serving_node) = Inr sy"
    by (simp add: import_overlay_def mgr_merge mgr_specs resync_registry_def Let_def)
  then show ?thesis
    using import_keeps_running [of mgr_env 3 "\<lambda>_. []" None None None no_overlay serving_node _
        "snd (import_overlay mgr_env 3 (\<lambda>_. []) False None None None no_overlay serving_node)" "''q::a''"
        "mgr_inst\<lparr>mi_state := READY, mi_proc := Some 0, mi_managed := True\<rparr>"]
    by (auto simp: prod_eq_iff reg_get_def serving_node_def)
qed

lemma import_blocked_by_autoplacement_witness:
  "fst (import_overlay mgr_env 9 (\<lambda>_. []) False None None None no_overlay
     (snd (start mgr_env 5 False True True ''q::a'' mgr_node))) = Inl ModelConflict"
proof -
  have facts: "reg_get (nd_reg mgr_node) ''q::a'' = Some mgr_inst" "node_can_run mgr_env (mi_engine mgr_inst)"
    "mi_state mgr_inst = STOPPED" "mi_key mgr_inst = ''q::a''" "mi_kind mgr_inst = LLM" "mi_engine mgr_inst = ''vllm''"
    "launcher_for mgr_env LLM ''vllm'' = Some mgr_launcher" "nd_config mgr_node = mgr_config"
    "tensor_parallel mgr_config (key_group ''q::a'') = 1" "cuda_pin (mgr_spec ''q::a'') = None"
    "la_build mgr_launcher mgr_config ''q::a'' = Some (mgr_spec ''q::a'')" "en_gpus mgr_env \<noteq> []"
    "nd_overlay mgr_node = no_overlay"
    by (simp_all add: reg_get_def node_can_run_def cuda_pin_def launcher_for_def launcher_map_def dset_def
        tensor_parallel_def key_group_def sep2_def starts_with_def group_mc_def dget_def mgr_defs)
  obtain n' where st: "start mgr_env 5 False True True ''q::a'' mgr_node = (Inr (), n')" "nd_overlay n' = no_overlay"
    using facts mgr_plan by (auto simp: start_def start_begin_def spawn_process_def start_finish_def)
  show ?thesis
    using import_blocked_by_autoplacement [OF st(1), of mgr_inst mgr_launcher "mgr_spec ''q::a''"
        "[(''q::a'', LLM, mgr_spec ''q::a'')]" LLM 9 "\<lambda>_. []" None None None] facts st mgr_merge mgr_specs
    by simp
qed

definition new_inst :: inst_cfg where
  "new_inst = \<lparr>ic_id = ''b'', ic_host = None, ic_port = 9001, ic_extra = []\<rparr>"

lemma create_delete_roundtrip_witness:
  "\<exists>n2. delete_overlay_model mgr_env ''r::b''
     (snd (create_overlay_model mgr_env 1 ''r'' new_inst [(''model_tag'', JStr ''R'')] None mgr_node)) = (Inr (), n2) \<and>
     nd_reg n2 = nd_reg mgr_node"
proof -
  have "\<exists>n1. create_overlay_model mgr_env 1 ''r'' new_inst [(''model_tag'', JStr ''R'')] None mgr_node = (Inr ''r::b'', n1)"
    by (simp add: create_overlay_model_def new_inst_def sep2_def reg_get_def mgr_node_def used_ports_def reg_values_def
        mgr_inst_def new_instance_def mgr_spec_def create_entry_def dhas_def mgr_config_def no_overlay_def commit_overlay_def
        put_entry_def build_merged_config_def mgr_env_def merge_into_def merge_engine_step_def dset_def Let_def
        respec_def config_engine_def dget_def group_engine_def group_mc_def empty_entry_def launcher_for_def launcher_map_def
        mgr_launcher_def)
  then obtain n1 where n1: "create_overlay_model mgr_env 1 ''r'' new_inst [(''model_tag'', JStr ''R'')] None mgr_node = (Inr ''r::b'', n1)"
    by blast
  have "\<not> dhas (rc_engines (nd_config mgr_node)) ''r''" "\<not> dhas (rc_engines (nd_overlay mgr_node)) ''r''" "sep_free ''r''"
    "build_merged_config (en_valid mgr_env) (en_base mgr_env) (nd_overlay mgr_node) = Some (nd_config mgr_node)"
    using mgr_merge by (simp_all add: mgr_node_def, simp_all add: dhas_def mgr_config_def no_overlay_def starts_with_def sep2_def)
  then show ?thesis
    using create_delete_roundtrip [OF n1] by (auto simp: n1)
qed

end
