(* ===== verification/Scheduler.thy ===== *)
theory Scheduler
  imports Model_Manager "HOL-Library.Product_Lexorder"
begin

text \<open>
  apps/backend/app/llmops/scheduler.py and node_agent.py: the leader places every instance that is
  wished running on a live node that can run its engine, the emptiest one first; each node announces
  its free memory and engines with a heartbeat.  \<open>json.loads\<close> is the parameter \<open>pj\<close> (\<open>None\<close>: a
  \<open>JSONDecodeError\<close>).  A capacity that is JSON but no list of objects, which no agent writes, is
  read as an empty list.
\<close>

section \<open>What a node offers\<close>

fun jnat_field :: "string \<Rightarrow> jval \<Rightarrow> int" where
  "jnat_field k (JObj d) = (case map_of d k of Some (JInt i) \<Rightarrow> i | _ \<Rightarrow> 0)"
| "jnat_field k _ = 0"

fun gpu_list :: "jval \<Rightarrow> jval list" where
  "gpu_list (JList gs) = gs"
| "gpu_list _ = []"

definition node_free_vram :: "(string \<Rightarrow> jval option) \<Rightarrow> node_row \<Rightarrow> int" where
  "node_free_vram pj r =
     (case nd_capacity r of
        None \<Rightarrow> 0
      | Some cap \<Rightarrow>
          if cap = [] then 0
          else (case pj cap of
                  None \<Rightarrow> 0
                | Some v \<Rightarrow> sum_list (map (\<lambda>g. max 0 (jnat_field ''memory_total'' g - jnat_field ''memory_used'' g)) (gpu_list v))))"

text \<open>Python's \<open>x in s\<close> on strings, and \<open>x in v\<close> on a JSON value (a \<open>TypeError\<close> counts as a yes).\<close>

fun contains :: "string \<Rightarrow> string \<Rightarrow> bool" where
  "contains x [] = (x = [])"
| "contains x (c # cs) = (starts_with x (c # cs) \<or> contains x cs)"

fun json_in :: "string \<Rightarrow> jval \<Rightarrow> bool" where
  "json_in x (JList vs) = (JStr x \<in> set vs)"
| "json_in x (JObj d) = dhas d x"
| "json_in x (JStr s) = contains x s"
| "json_in x _ = True"

definition node_supports :: "(string \<Rightarrow> jval option) \<Rightarrow> node_row \<Rightarrow> string \<Rightarrow> bool" where
  "node_supports pj r engine =
     (case nd_engines r of
        None \<Rightarrow> True
      | Some raw \<Rightarrow> if raw = [] then True else (case pj raw of None \<Rightarrow> True | Some v \<Rightarrow> json_in engine v))"

section \<open>Placement\<close>

definition emptiest :: "(string \<Rightarrow> jval option) \<Rightarrow> (string \<times> node_row) list \<Rightarrow> string" where
  "emptiest pj cands = fst (hd (sort_key (\<lambda>(nid, r). (- node_free_vram pj r, nid)) cands))"

text \<open>The new node of a key, if it has to be (re)placed.\<close>

definition place_key ::
  "(string \<Rightarrow> jval option) \<Rightarrow> (string, node_row) dict \<Rightarrow> (string, string) dict \<Rightarrow> (string, string) dict \<Rightarrow>
   string \<Rightarrow> string option" where
  "place_key pj nodes assignments key_engines key =
     (let engine = dget key_engines key ''vllm'';
          cands = filter (\<lambda>(nid, r). node_supports pj r engine) nodes;
          cur = (case map_of assignments key of None \<Rightarrow> None | Some nid \<Rightarrow> map_of nodes nid)
      in if cands = [] then None
         else (case cur of
                 Some r \<Rightarrow> if node_supports pj r engine then None else Some (emptiest pj cands)
               | None \<Rightarrow> Some (emptiest pj cands)))"

definition place ::
  "(string \<Rightarrow> jval option) \<Rightarrow> string list \<Rightarrow> (string, node_row) dict \<Rightarrow> (string, string) dict \<Rightarrow>
   (string, string) dict \<Rightarrow> (string, string) dict" where
  "place pj wished nodes assignments key_engines =
     (if nodes = [] then []
      else List.map_filter (\<lambda>k. map_option (Pair k) (place_key pj nodes assignments key_engines k)) wished)"

definition key_engines :: "registry option \<Rightarrow> (string, string) dict" where
  "key_engines r = (case r of None \<Rightarrow> [] | Some reg \<Rightarrow> map (\<lambda>i. (mi_key i, mi_engine i)) (reg_values reg))"

definition wished_running :: "store \<Rightarrow> string list" where
  "wished_running s = map fst (filter (\<lambda>(k, w). w = desired_value RUNNING) (list_instance_desired s))"

text \<open>One pass; \<open>None\<close> stands for no store, or one that does not answer.\<close>

definition reschedule_once ::
  "(string \<Rightarrow> jval option) \<Rightarrow> real \<Rightarrow> registry option \<Rightarrow> store option \<Rightarrow> (string, string) dict \<times> store option" where
  "reschedule_once pj now reg st =
     (case st of
        None \<Rightarrow> ([], None)
      | Some s \<Rightarrow>
          (let changes = place pj (wished_running s) (list_nodes now None s) (list_assignments None s) (key_engines reg)
           in (changes, Some (fold (\<lambda>(k, nid). set_assignment now k nid None) changes s))))"

section \<open>The heartbeat\<close>

definition gpu_json :: "string \<times> gpu \<Rightarrow> jval" where
  "gpu_json ng =
     JObj [(''index'', JInt (gp_index (snd ng))), (''name'', JStr (fst ng)),
           (''memory_total'', JInt (gp_total (snd ng))), (''memory_used'', JInt (gp_used (snd ng)))]"

text \<open>\<open>None\<close>: \<open>nvidia-smi\<close> failed.\<close>

definition capacity :: "(real \<Rightarrow> string) \<Rightarrow> (string \<times> gpu) list option \<Rightarrow> string option" where
  "capacity fl gpus =
     (case gpus of
        None \<Rightarrow> None
      | Some gs \<Rightarrow> if gs = [] then None else Some (json_dumps fl (JList (map gpu_json gs))))"

definition engines_json :: "(real \<Rightarrow> string) \<Rightarrow> settings \<Rightarrow> string option" where
  "engines_json fl se =
     (if se_node_engines se = [] then None else Some (json_dumps fl (JList (map JStr (se_node_engines se)))))"

definition heartbeat_once ::
  "(real \<Rightarrow> string) \<Rightarrow> settings \<Rightarrow> string \<Rightarrow> string \<Rightarrow> real \<Rightarrow> real \<Rightarrow> (string \<times> gpu) list option \<Rightarrow> store \<Rightarrow> store" where
  "heartbeat_once fl se hostname api_url node_ttl now gpus s =
     snd (prune_nodes now None
       (upsert_node now (se_instance_id se) (Some hostname) (capacity fl gpus) node_ttl None (engines_json fl se)
          (if api_url = [] then None else Some api_url) s))"

section \<open>The emptiest candidate\<close>

lemma hd_sort_key:
  assumes "xs \<noteq> []"
  shows "hd (sort_key f xs) \<in> set xs \<and> (\<forall>x \<in> set xs. f (hd (sort_key f xs)) \<le> f x)"
proof -
  have ne: "sort_key f xs \<noteq> []" using assms by (metis set_empty set_sort)
  have "f (hd (sort_key f xs)) \<le> f x" if "x \<in> set (sort_key f xs)" for x
    using ne that sorted_sort_key [of f xs] by (cases "sort_key f xs") (auto simp: sorted_wrt_map)
  then show ?thesis using hd_in_set [OF ne] by simp
qed

lemma emptiest_mem:
  assumes "cands \<noteq> []"
  shows "\<exists>r. (emptiest pj cands, r) \<in> set cands \<and> (\<forall>(nid, r') \<in> set cands. node_free_vram pj r' \<le> node_free_vram pj r)"
proof -
  obtain nid r where h: "hd (sort_key (\<lambda>(nid, r). (- node_free_vram pj r, nid)) cands) = (nid, r)" by fastforce
  then have "(nid, r) \<in> set cands" "\<forall>x \<in> set cands. (- node_free_vram pj r, nid) \<le> (case x of (m, q) \<Rightarrow> (- node_free_vram pj q, m))"
    using hd_sort_key [OF assms, of "\<lambda>(nid, r). (- node_free_vram pj r, nid)"] by auto
  then show ?thesis
    unfolding emptiest_def h by (intro exI [of _ r]) (fastforce simp: less_eq_prod_def)
qed


section \<open>What a pass writes\<close>

lemma map_of_map_filter:
  assumes "distinct ks"
  shows "map_of (List.map_filter (\<lambda>k. map_option (Pair k) (f k)) ks) k = (if k \<in> set ks then f k else None)"
  using assms by (induction ks) (auto simp: map_filter_def split: option.split)

lemma map_filter_keys: "distinct ks \<Longrightarrow> distinct (map fst (List.map_filter (\<lambda>k. map_option (Pair k) (f k)) ks))"
  by (induction ks) (auto simp: map_filter_def)

lemma lookup_assignments: "map_of (list_assignments None s) k = map_option fst (map_of (so_assign s) k)"
proof -
  have "list_assignments None s = map (\<lambda>(k, v). (k, fst v)) (so_assign s)"
    by (simp add: list_assignments_def opt_all_def case_prod_unfold)
  then show ?thesis by (simp add: map_of_map)
qed

lemma fold_assign:
  assumes "distinct (map fst ch)"
  shows "map_of (list_assignments None (fold (\<lambda>(k, nid). set_assignment now k nid None) ch s)) k =
     (case map_of ch k of Some nid \<Rightarrow> Some nid | None \<Rightarrow> map_of (list_assignments None s) k)"
    and "so_nodes (fold (\<lambda>(k, nid). set_assignment now k nid None) ch s) = so_nodes s"
    and "so_desired (fold (\<lambda>(k, nid). set_assignment now k nid None) ch s) = so_desired s"
  using assms
proof (induction ch arbitrary: s)
  case (Cons c ch)
  {
    case 1
    have "map_of ch (fst c) = None" using 1 by (auto simp: map_of_eq_None_iff)
    then show ?case
      using Cons.IH(1) [of "set_assignment now (fst c) (snd c) None s"] 1
      by (cases c) (auto simp: lookup_assignments set_assignment_def split: option.split)
  next
    case 2
    then show ?case using Cons.IH(2) by (cases c) (simp add: set_assignment_def)
  next
    case 3
    then show ?case using Cons.IH(3) by (cases c) (simp add: set_assignment_def)
  }
qed simp_all


definition engine_of :: "registry option \<Rightarrow> string \<Rightarrow> string" where
  "engine_of reg k = dget (key_engines reg) k ''vllm''"

text \<open>A key is well placed when its node is live and runs its engine.\<close>

definition well_placed :: "(string \<Rightarrow> jval option) \<Rightarrow> real \<Rightarrow> registry option \<Rightarrow> store \<Rightarrow> string \<Rightarrow> bool" where
  "well_placed pj now reg s k =
     (\<exists>nid r. map_of (list_assignments None s) k = Some nid \<and> map_of (list_nodes now None s) nid = Some r \<and>
        node_supports pj r (engine_of reg k))"

lemma list_nodes_ok: "dict_ok (so_nodes s) \<Longrightarrow> dict_ok (list_nodes now None s)"
  by (simp add: list_nodes_def dict_ok_filter)

lemma place_key_cases:
  assumes "dict_ok nodes" "place_key pj nodes asg ke k = Some nid"
  shows "\<exists>r. map_of nodes nid = Some r \<and> node_supports pj r (dget ke k ''vllm'') \<and>
     (\<forall>(m, q) \<in> set nodes. node_supports pj q (dget ke k ''vllm'') \<longrightarrow> node_free_vram pj q \<le> node_free_vram pj r)"
proof -
  define cands where "cands = filter (\<lambda>(nid, r). node_supports pj r (dget ke k ''vllm'')) nodes"
  have c: "cands \<noteq> []" "nid = emptiest pj cands"
    using assms(2) by (auto simp: place_key_def Let_def cands_def split: if_splits option.splits)
  obtain r where "(nid, r) \<in> set cands" "\<forall>(m, q) \<in> set cands. node_free_vram pj q \<le> node_free_vram pj r"
    using emptiest_mem [OF c(1)] c(2) by blast
  then show ?thesis using assms(1) by (auto simp: cands_def dict_ok_def intro!: exI [of _ r])
qed

lemma place_key_None:
  assumes "place_key pj nodes asg ke k = None" "(m, q) \<in> set nodes" "node_supports pj q (dget ke k ''vllm'')"
  shows "\<exists>nid r. map_of asg k = Some nid \<and> map_of nodes nid = Some r \<and> node_supports pj r (dget ke k ''vllm'')"
  using assms by (auto simp: place_key_def Let_def filter_empty_conv split: if_splits option.splits)

lemma wished_distinct: "dict_ok (so_desired s) \<Longrightarrow> distinct (wished_running s)"
  by (simp add: wished_running_def distinct_map_filter list_instance_desired_def dict_ok_def split_beta comp_def)

text \<open>The lookup of the changes, and of the assignments after the pass.\<close>

lemma reschedule_lookup:
  assumes "dict_ok (so_desired s)" "reschedule_once pj now reg (Some s) = (ch, Some s')"
  shows "map_of ch k = (if k \<in> set (wished_running s) \<and> list_nodes now None s \<noteq> []
      then place_key pj (list_nodes now None s) (list_assignments None s) (key_engines reg) k else None)"
    and "map_of (list_assignments None s') k =
      (case map_of ch k of Some nid \<Rightarrow> Some nid | None \<Rightarrow> map_of (list_assignments None s) k)"
    and "list_nodes t None s' = list_nodes t None s" "wished_running s' = wished_running s"
    and "so_desired s' = so_desired s"
proof -
  have eq: "ch = place pj (wished_running s) (list_nodes now None s) (list_assignments None s) (key_engines reg)"
    "s' = fold (\<lambda>(k, nid). set_assignment now k nid None) ch s"
    using assms(2) by (auto simp: reschedule_once_def Let_def)
  show "map_of ch k = (if k \<in> set (wished_running s) \<and> list_nodes now None s \<noteq> []
      then place_key pj (list_nodes now None s) (list_assignments None s) (key_engines reg) k else None)"
    using map_of_map_filter [OF wished_distinct [OF assms(1)],
        where f = "place_key pj (list_nodes now None s) (list_assignments None s) (key_engines reg)"]
    by (simp add: eq(1) place_def)
  have d: "distinct (map fst ch)"
    using map_filter_keys [OF wished_distinct [OF assms(1)],
        where f = "place_key pj (list_nodes now None s) (list_assignments None s) (key_engines reg)"]
    by (simp add: eq(1) place_def)
  note f = fold_assign [OF d, of now s, folded eq(2)]
  show "map_of (list_assignments None s') k =
      (case map_of ch k of Some nid \<Rightarrow> Some nid | None \<Rightarrow> map_of (list_assignments None s) k)"
    by (rule f(1))
  show "list_nodes t None s' = list_nodes t None s" "wished_running s' = wished_running s" "so_desired s' = so_desired s"
    using f(2,3) by (simp_all add: list_nodes_def wished_running_def list_instance_desired_def)
qed

lemma reschedule_well_placed:
  assumes "dict_ok (so_desired s)" "dict_ok (so_nodes s)" "reschedule_once pj now reg (Some s) = (ch, Some s')"
    and "k \<in> set (wished_running s)" "(m, q) \<in> set (list_nodes now None s)" "node_supports pj q (engine_of reg k)"
  shows "well_placed pj now reg s' k"
proof (cases "map_of ch k")
  case (Some nid)
  then have "place_key pj (list_nodes now None s) (list_assignments None s) (key_engines reg) k = Some nid"
    using reschedule_lookup(1) [OF assms(1,3), of k] by (simp split: if_splits)
  from place_key_cases [OF list_nodes_ok [OF assms(2)] this] show ?thesis
    using Some reschedule_lookup(2) [OF assms(1,3), of k] reschedule_lookup(3) [OF assms(1,3)]
    by (auto simp: well_placed_def engine_of_def)
next
  case None
  then have "place_key pj (list_nodes now None s) (list_assignments None s) (key_engines reg) k = None"
    using reschedule_lookup(1) [OF assms(1,3), of k] assms(4,5) by (auto split: if_splits)
  from place_key_None [OF this assms(5)] show ?thesis
    using None reschedule_lookup(2) [OF assms(1,3), of k] reschedule_lookup(3) [OF assms(1,3)] assms(6)
    by (auto simp: well_placed_def engine_of_def)
qed

text \<open>
  C31: placement.  After a scheduling pass every instance that is wished running, and whose engine
  some live node runs, sits on a live node that runs its engine.  What the pass moved went to the
  emptiest such node, and what was well placed has not moved.
\<close>

theorem reschedule_places:
  assumes "dict_ok (so_desired s)" "dict_ok (so_nodes s)" "reschedule_once pj now reg (Some s) = (ch, Some s')"
    and "k \<in> set (wished_running s)" "(m, q) \<in> set (list_nodes now None s)" "node_supports pj q (engine_of reg k)"
  shows "well_placed pj now reg s' k \<and> (well_placed pj now reg s k \<longrightarrow> map_of ch k = None) \<and>
    (\<forall>nid r. map_of ch k = Some nid \<longrightarrow> map_of (list_nodes now None s) nid = Some r \<longrightarrow>
       node_free_vram pj q \<le> node_free_vram pj r)"
proof (intro conjI impI allI)
  show "well_placed pj now reg s' k" by (rule reschedule_well_placed [OF assms])
  show "map_of ch k = None" if "well_placed pj now reg s k"
    using that reschedule_lookup(1) [OF assms(1,3), of k]
    by (auto simp: well_placed_def engine_of_def place_key_def Let_def split: if_splits)
  show "node_free_vram pj q \<le> node_free_vram pj r"
    if h: "map_of ch k = Some nid" "map_of (list_nodes now None s) nid = Some r" for nid r
  proof -
    have "place_key pj (list_nodes now None s) (list_assignments None s) (key_engines reg) k = Some nid"
      using h(1) reschedule_lookup(1) [OF assms(1,3), of k] by (simp split: if_splits)
    from place_key_cases [OF list_nodes_ok [OF assms(2)] this] show ?thesis
      using h(2) assms(5,6) by (auto simp: engine_of_def)
  qed
qed

text \<open>
  No churn.  A second pass on the same nodes moves nothing.
\<close>

theorem reschedule_idempotent:
  assumes "dict_ok (so_desired s)" "dict_ok (so_nodes s)" "reschedule_once pj now reg (Some s) = (ch, Some s')"
  shows "fst (reschedule_once pj now reg (Some s')) = []"
proof -
  have "place_key pj (list_nodes now None s') (list_assignments None s') (key_engines reg) k = None"
    if "k \<in> set (wished_running s')" for k
  proof (cases "\<exists>m q. (m, q) \<in> set (list_nodes now None s) \<and> node_supports pj q (engine_of reg k)")
    case True
    then have "well_placed pj now reg s' k"
      using reschedule_well_placed [OF assms] that reschedule_lookup(4) [OF assms(1,3)] by metis
    then show ?thesis by (auto simp: well_placed_def engine_of_def place_key_def Let_def)
  next
    case False
    then have "filter (\<lambda>(nid, r). node_supports pj r (engine_of reg k)) (list_nodes now None s') = []"
      by (auto simp: filter_empty_conv reschedule_lookup(3) [OF assms(1,3)])
    then show ?thesis by (simp add: place_key_def Let_def engine_of_def)
  qed
  then show ?thesis by (auto simp: reschedule_once_def place_def Let_def map_filter_def filter_empty_conv)
qed

section \<open>The heartbeat reaches the scheduler\<close>

text \<open>The JSON documents of a heartbeat.\<close>

definition announced :: "settings \<Rightarrow> (string \<times> gpu) list option \<Rightarrow> jval set" where
  "announced se gpus =
     (case gpus of None \<Rightarrow> {} | Some gs \<Rightarrow> if gs = [] then {} else {JList (map gpu_json gs)}) \<union>
     (if se_node_engines se = [] then {} else {JList (map JStr (se_node_engines se))})"

text \<open>
  The capacity round trip.  What a node announces is what the scheduler reads: after a heartbeat
  the node is listed until its time to live is over, its free memory is the sum over its GPUs of
  what is free, and it supports exactly the engines it is configured for (all of them when none is).
  The hypothesis on \<open>pj\<close> is that \<open>json.loads\<close> reads back the documents the node writes.
\<close>

theorem heartbeat_roundtrip:
  assumes "\<forall>v \<in> announced se gpus. pj (json_dumps fl v) = Some v" "dict_ok (so_nodes s)" "0 < ttl" "now \<le> t" "t < now + ttl"
  shows "\<exists>r. map_of (list_nodes t None (heartbeat_once fl se host url ttl now gpus s)) (se_instance_id se) = Some r \<and>
    node_free_vram pj r = (case gpus of None \<Rightarrow> 0
      | Some gs \<Rightarrow> sum_list (map (\<lambda>(nm, g). max 0 (gp_total g - gp_used g)) gs)) \<and>
    (\<forall>en. node_supports pj r en = (se_node_engines se = [] \<or> en \<in> set (se_node_engines se)))"
proof -
  define r where "r = \<lparr>nd_hostname = Some host, nd_capacity = capacity fl gpus, nd_engines = engines_json fl se,
    nd_api_url = (if url = [] then None else Some url), nd_expires = now + ttl\<rparr>"
  have nonempty: "json_dumps fl (JList xs) \<noteq> []" for xs by simp
  have "list_nodes t None (heartbeat_once fl se host url ttl now gpus s) =
      filter (\<lambda>(k, r). nd_expires r > t) (filter (\<lambda>(k, r). \<not> nd_expires r \<le> now) (dset (se_instance_id se) r (so_nodes s)))"
    by (simp add: heartbeat_once_def list_nodes_def prune_nodes_def upsert_node_def at_time_def r_def)
  also have "\<dots> = filter (\<lambda>(k, r). nd_expires r > t) (dset (se_instance_id se) r (so_nodes s))"
    using assms(4) by (simp only: filter_filter) (rule filter_cong, auto)
  finally have "map_of (list_nodes t None (heartbeat_once fl se host url ttl now gpus s)) (se_instance_id se) = Some r"
    using assms(2,5) by (simp add: map_of_filter_value) (simp add: r_def)
  moreover have "node_free_vram pj r = (case gpus of None \<Rightarrow> 0
      | Some gs \<Rightarrow> sum_list (map (\<lambda>(nm, g). max 0 (gp_total g - gp_used g)) gs))"
    using assms(1) by (cases gpus) (auto simp: r_def node_free_vram_def capacity_def announced_def nonempty gpu_json_def
        comp_def case_prod_unfold simp del: json_dumps.simps)
  moreover have "node_supports pj r en = (se_node_engines se = [] \<or> en \<in> set (se_node_engines se))" for en
    using assms(1) by (auto simp: r_def node_supports_def engines_json_def announced_def nonempty simp del: json_dumps.simps)
  ultimately show ?thesis by blast
qed


section \<open>Witnesses\<close>

definition two_nodes :: store where
  "two_nodes = init_store\<lparr>so_desired := [(''q::a'', (''running'', 1))],
     so_nodes := [(''n1'', \<lparr>nd_hostname = None, nd_capacity = None, nd_engines = None, nd_api_url = None, nd_expires = 90\<rparr>),
                  (''n2'', \<lparr>nd_hostname = None, nd_capacity = Some ''[]'', nd_engines = None, nd_api_url = None, nd_expires = 90\<rparr>)]\<rparr>"

definition free_pj :: "string \<Rightarrow> jval option" where
  "free_pj s = Some (JList [JObj [(''memory_total'', JInt 100), (''memory_used'', JInt 30)]])"

lemma two_nodes_inputs:
  "dict_ok (so_desired two_nodes)" "dict_ok (so_nodes two_nodes)" "wished_running two_nodes = [''q::a'']"
  "list_nodes 5 None two_nodes = so_nodes two_nodes" "list_assignments None two_nodes = []"
  by (simp_all add: two_nodes_def dict_ok_def wished_running_def list_instance_desired_def list_nodes_def at_time_def
      init_store_def list_assignments_def)

lemma reschedule_places_witness:
  "\<exists>s'. snd (reschedule_once free_pj 5 None (Some two_nodes)) = Some s' \<and> well_placed free_pj 5 None s' ''q::a''"
proof -
  obtain ch s' where r: "reschedule_once free_pj 5 None (Some two_nodes) = (ch, Some s')"
    by (simp add: reschedule_once_def Let_def)
  have "well_placed free_pj 5 None s' ''q::a''"
    using reschedule_places [OF two_nodes_inputs(1,2) r, of "''q::a''" "''n1''"
        "\<lparr>nd_hostname = None, nd_capacity = None, nd_engines = None, nd_api_url = None, nd_expires = 90\<rparr>"]
    by (simp add: two_nodes_inputs) (simp add: two_nodes_def node_supports_def)
  then show ?thesis using r by simp
qed

lemma reschedule_idempotent_witness:
  "\<exists>s'. snd (reschedule_once free_pj 5 None (Some two_nodes)) = Some s' \<and> fst (reschedule_once free_pj 5 None (Some s')) = []"
proof -
  obtain ch s' where r: "reschedule_once free_pj 5 None (Some two_nodes) = (ch, Some s')"
    by (simp add: reschedule_once_def Let_def)
  show ?thesis using reschedule_idempotent [OF two_nodes_inputs(1,2) r] r by simp
qed

lemma heartbeat_roundtrip_witness:
  "\<exists>r. map_of (list_nodes 7 None (heartbeat_once (\<lambda>_. []) mgr_settings ''h'' [] 30 5
      (Some [(''A'', \<lparr>gp_index = 0, gp_total = 1000, gp_used = 100\<rparr>)]) init_store)) ''n1'' = Some r \<and>
    node_free_vram (\<lambda>_. Some (JList [gpu_json (''A'', \<lparr>gp_index = 0, gp_total = 1000, gp_used = 100\<rparr>)])) r = 900"
  using heartbeat_roundtrip [of mgr_settings "Some [(''A'', \<lparr>gp_index = 0, gp_total = 1000, gp_used = 100\<rparr>)]"
      "\<lambda>_. Some (JList [gpu_json (''A'', \<lparr>gp_index = 0, gp_total = 1000, gp_used = 100\<rparr>)])" "\<lambda>_. []" init_store 30 5 7 "''h''" "[]"]
  by (auto simp: announced_def mgr_settings_def init_store_def)

end
