(* ===== verification/Leader.thy ===== *)
theory Leader
  imports Ops_Store
begin

text \<open>
  apps/backend/app/core/leader.py: the elector of a replica.  A round of its loop asks the store for
  the lease (an unreachable store counts as a refusal) and calls \<open>on_acquire\<close> or \<open>on_release\<close> when
  leadership changes; \<open>stop\<close> ends the loop through its \<open>finally\<close> block.  The callbacks are logged;
  what they do (start and cancel the control loops) is main.py's.
\<close>

section \<open>The elector\<close>

datatype role_call = OnAcquire | OnRelease

record elector =
  el_holder :: string
  el_name :: string
  el_ttl :: real
  el_interval :: real
  el_db :: bool
  el_leader :: bool
  el_calls :: "role_call list"

definition new_elector :: "string \<Rightarrow> real \<Rightarrow> string \<Rightarrow> bool \<Rightarrow> real option \<Rightarrow> elector" where
  "new_elector holder ttl name db interval =
     \<lparr>el_holder = holder, el_name = name, el_ttl = elector_ttl ttl,
      el_interval = (case interval of Some i \<Rightarrow> i | None \<Rightarrow> max 1 (elector_ttl ttl / 3)),
      el_db = db, el_leader = False, el_calls = []\<rparr>"

definition gain :: "elector \<Rightarrow> elector" where
  "gain el = el\<lparr>el_leader := True, el_calls := el_calls el @ [OnAcquire]\<rparr>"

definition step_down :: "elector \<Rightarrow> elector" where
  "step_down el = (if el_leader el then el\<lparr>el_leader := False, el_calls := el_calls el @ [OnRelease]\<rparr> else el)"

text \<open>One round of the contended loop; \<open>up\<close> says whether the store answers.\<close>

definition heartbeat :: "real \<Rightarrow> bool \<Rightarrow> elector \<times> store \<Rightarrow> elector \<times> store" where
  "heartbeat now up es =
     (case es of
        (el, s) \<Rightarrow>
          let (got, s1) = (if up then try_acquire_leader now (el_name el) (el_holder el) (el_ttl el) None s else (False, s))
          in (if got \<and> \<not> el_leader el then gain el else if \<not> got \<and> el_leader el then step_down el else el, s1))"

text \<open>The \<open>finally\<close> block.\<close>

definition shut_down :: "bool \<Rightarrow> elector \<times> store \<Rightarrow> elector \<times> store" where
  "shut_down up es =
     (case es of (el, s) \<Rightarrow> (step_down el, if up then snd (release_leader (el_name el) (el_holder el) s) else s))"

text \<open>A whole life: the rounds until \<open>stop\<close>, or permanent leadership without a shared store.\<close>

definition run_elector :: "(real \<times> bool) list \<Rightarrow> bool \<Rightarrow> elector \<times> store \<Rightarrow> elector \<times> store" where
  "run_elector rounds up es =
     (if el_db (fst es) then shut_down up (fold (\<lambda>(now, u). heartbeat now u) rounds es)
      else (step_down (gain (fst es)), snd es))"

section \<open>The callbacks alternate\<close>

definition calls_ok :: "elector \<Rightarrow> bool" where
  "calls_ok el =
     (\<exists>n. el_calls el = concat (replicate n [OnAcquire, OnRelease]) @ (if el_leader el then [OnAcquire] else []))"

lemma gain_ok: "calls_ok el \<Longrightarrow> \<not> el_leader el \<Longrightarrow> calls_ok (gain el)"
  by (auto simp: calls_ok_def gain_def)

lemma step_down_ok: "calls_ok el \<Longrightarrow> calls_ok (step_down el) \<and> \<not> el_leader (step_down el)"
proof -
  have cyc: "concat (replicate n [OnAcquire, OnRelease]) @ [OnAcquire, OnRelease] =
      concat (replicate (Suc n) [OnAcquire, OnRelease])" for n
    by (induction n) auto
  assume ok: "calls_ok el"
  show "calls_ok (step_down el) \<and> \<not> el_leader (step_down el)"
  proof (cases "el_leader el")
    case True
    then obtain n where "el_calls el = concat (replicate n [OnAcquire, OnRelease]) @ [OnAcquire]"
      using ok by (auto simp: calls_ok_def)
    then have "el_calls (step_down el) = concat (replicate (Suc n) [OnAcquire, OnRelease])"
      using True cyc [of n] by (simp add: step_down_def del: replicate_Suc)
    moreover have "\<not> el_leader (step_down el)" by (simp add: step_down_def)
    ultimately show ?thesis unfolding calls_ok_def by (metis append_Nil2)
  next
    case False
    then show ?thesis using ok by (simp add: step_down_def)
  qed
qed

lemma heartbeat_ok: "calls_ok el \<Longrightarrow> calls_ok (fst (heartbeat now up (el, s)))"
  using gain_ok step_down_ok by (auto simp: heartbeat_def split: prod.split)

lemma rounds_ok: "calls_ok (fst es) \<Longrightarrow> calls_ok (fst (fold (\<lambda>(now, u). heartbeat now u) rounds es))"
proof (induction rounds arbitrary: es)
  case (Cons r rounds)
  then show ?case using heartbeat_ok [of "fst es" "fst r" "snd r" "snd es"] by (cases r) simp
qed simp

text \<open>
  The control loops are started and stopped in turn.  Over a whole life of an elector, with a
  shared store or without, every \<open>on_acquire\<close> is followed by its \<open>on_release\<close> before the next one,
  and none is left open at the end.
\<close>

theorem callbacks_alternate:
  "\<exists>n. el_calls (fst (run_elector rounds up (new_elector holder ttl name db iv, s))) =
     concat (replicate n [OnAcquire, OnRelease])"
proof -
  have new: "calls_ok (new_elector holder ttl name db iv)"
    by (auto simp: calls_ok_def new_elector_def intro!: exI [of _ 0])
  have closed: "\<exists>n. el_calls el = concat (replicate n [OnAcquire, OnRelease])" if "calls_ok el" "\<not> el_leader el" for el
    using that by (auto simp: calls_ok_def)
  show ?thesis
  proof (cases db)
    case True
    define es where "es = fold (\<lambda>(now, u). heartbeat now u) rounds (new_elector holder ttl name db iv, s)"
    have "calls_ok (fst es)" unfolding es_def by (rule rounds_ok) (simp add: new)
    then have "\<exists>n. el_calls (step_down (fst es)) = concat (replicate n [OnAcquire, OnRelease])"
      using closed step_down_ok by blast
    moreover have "el_db (new_elector holder ttl name db iv)" using True by (simp add: new_elector_def)
    ultimately show ?thesis by (simp add: run_elector_def es_def [symmetric] shut_down_def split_beta)
  next
    case False
    then show ?thesis
      using closed [of "step_down (gain (new_elector holder ttl name db iv))"] step_down_ok [OF gain_ok [OF new]]
      by (simp add: run_elector_def new_elector_def)
  qed
qed

section \<open>A cluster of electors\<close>

text \<open>The replicas contend for one role in one store, each event being a round or a shutdown of one of them.\<close>

datatype cluster_event = Beat real string bool | Quit string bool

definition on_elector ::
  "string \<Rightarrow> (elector \<times> store \<Rightarrow> elector \<times> store) \<Rightarrow> (string \<Rightarrow> elector) \<times> store \<Rightarrow> (string \<Rightarrow> elector) \<times> store" where
  "on_elector h f c = (case f (fst c h, snd c) of (el, s) \<Rightarrow> ((fst c)(h := el), s))"

fun cluster_step :: "cluster_event \<Rightarrow> (string \<Rightarrow> elector) \<times> store \<Rightarrow> (string \<Rightarrow> elector) \<times> store" where
  "cluster_step (Beat now h up) c = on_elector h (heartbeat now up) c"
| "cluster_step (Quit h up) c = on_elector h (shut_down up) c"

fun event_time :: "cluster_event \<Rightarrow> real option" where
  "event_time (Beat now h up) = Some now"
| "event_time (Quit h up) = None"

definition beat_times :: "cluster_event list \<Rightarrow> real list" where
  "beat_times evs = List.map_filter event_time evs"

fun last_beat :: "string \<Rightarrow> cluster_event list \<Rightarrow> real option" where
  "last_beat h [] = None"
| "last_beat h (e # evs) =
     (case last_beat h evs of
        Some t \<Rightarrow> Some t
      | None \<Rightarrow> (case e of Beat now g up \<Rightarrow> if g = h then Some now else None | Quit _ _ \<Rightarrow> None))"

definition fresh_cluster :: "string \<Rightarrow> real \<Rightarrow> (string \<Rightarrow> elector) \<Rightarrow> bool" where
  "fresh_cluster name ttl els = (\<forall>h. els h = new_elector h ttl name True None)"

definition wired :: "string \<Rightarrow> real \<Rightarrow> (string \<Rightarrow> elector) \<Rightarrow> bool" where
  "wired name ttl els = (\<forall>h. el_holder (els h) = h \<and> el_name (els h) = name \<and> el_ttl (els h) = elector_ttl ttl)"

lemma last_beat_snoc:
  "last_beat h (evs @ [e]) = (case e of Beat now g up \<Rightarrow> if g = h then Some now else last_beat h evs | Quit _ _ \<Rightarrow> last_beat h evs)"
  by (induction evs) (auto split: cluster_event.splits option.splits)

lemma beat_times_snoc: "beat_times (evs @ [e]) = beat_times evs @ (case event_time e of None \<Rightarrow> [] | Some t \<Rightarrow> [t])"
  by (simp add: beat_times_def map_filter_def split: option.split)

lemma elector_fields [simp]:
  "el_holder (gain el) = el_holder el" "el_name (gain el) = el_name el" "el_ttl (gain el) = el_ttl el"
  "el_holder (step_down el) = el_holder el" "el_name (step_down el) = el_name el" "el_ttl (step_down el) = el_ttl el"
  "el_leader (gain el)" "\<not> el_leader (step_down el)"
  by (simp_all add: gain_def step_down_def)

lemma cluster_wired: "wired name ttl (fst c) \<Longrightarrow> wired name ttl (fst (cluster_step e c))"
  by (cases e) (auto simp: wired_def on_elector_def heartbeat_def shut_down_def Let_def split: prod.split)

text \<open>The leader whose lease has not lapsed holds it.\<close>

definition lease_backed :: "string \<Rightarrow> real \<Rightarrow> cluster_event list \<Rightarrow> (string \<Rightarrow> elector) \<times> store \<Rightarrow> bool" where
  "lease_backed name ttl evs c =
     (\<forall>h. el_leader (fst c h) \<longrightarrow>
        (\<exists>t. last_beat h evs = Some t \<and>
           ((\<forall>u \<in> set (beat_times evs). u \<le> t + elector_ttl ttl) \<longrightarrow>
              get_leader name (snd c) = Some (h, t + elector_ttl ttl))))"

lemma beat_backed:
  assumes w: "wired name ttl (fst c)" and b: "lease_backed name ttl evs c"
  shows "lease_backed name ttl (evs @ [Beat now h up]) (cluster_step (Beat now h up) c)"
  unfolding lease_backed_def
proof (intro allI impI)
  fix g assume g: "el_leader (fst (cluster_step (Beat now h up) c) g)"
  define acq where "acq = try_acquire_leader now name h (elector_ttl ttl) None (snd c)"
  have s: "snd (cluster_step (Beat now h up) c) = (if up then snd acq else snd c)"
    using w by (simp add: on_elector_def heartbeat_def wired_def acq_def Let_def split: prod.split)
  show "\<exists>t. last_beat g (evs @ [Beat now h up]) = Some t \<and>
     ((\<forall>u \<in> set (beat_times (evs @ [Beat now h up])). u \<le> t + elector_ttl ttl) \<longrightarrow>
        get_leader name (snd (cluster_step (Beat now h up) c)) = Some (g, t + elector_ttl ttl))"
  proof (cases "g = h")
    case True
    then have "up \<and> fst acq"
      using g w by (auto simp: on_elector_def heartbeat_def wired_def acq_def Let_def split: prod.splits if_splits)
    moreover from this have "get_leader name (snd acq) = Some (h, now + elector_ttl ttl)"
      using role.acquire_state [where s = "snd c" and h = h and now = now and name = name and ttl = ttl]
        role.acquire_answer [where s = "snd c" and h = h and now = now and name = name and ttl = ttl]
      by (auto simp: acq_def split: option.splits if_splits)
    ultimately show ?thesis using True s by (simp add: last_beat_snoc)
  next
    case False
    then have "el_leader (fst c g)"
      using g by (auto simp: on_elector_def split: prod.splits)
    then obtain t where t: "last_beat g evs = Some t"
      "(\<forall>u \<in> set (beat_times evs). u \<le> t + elector_ttl ttl) \<Longrightarrow> get_leader name (snd c) = Some (g, t + elector_ttl ttl)"
      using b unfolding lease_backed_def by blast
    have "get_leader name (if up then snd acq else snd c) = Some (g, t + elector_ttl ttl)"
      if "\<forall>u \<in> set (beat_times (evs @ [Beat now h up])). u \<le> t + elector_ttl ttl"
      using t(2) that False role.acquire_state [where s = "snd c" and h = h and now = now and name = name and ttl = ttl]
      by (simp add: acq_def beat_times_snoc)
    then show ?thesis using t(1) False s by (simp add: last_beat_snoc)
  qed
qed

lemma quit_backed:
  assumes w: "wired name ttl (fst c)" and b: "lease_backed name ttl evs c"
  shows "lease_backed name ttl (evs @ [Quit h up]) (cluster_step (Quit h up) c)"
  unfolding lease_backed_def
proof (intro allI impI)
  fix g assume g: "el_leader (fst (cluster_step (Quit h up) c) g)"
  have s: "snd (cluster_step (Quit h up) c) = (if up then snd (release_leader name h (snd c)) else snd c)"
    using w by (simp add: on_elector_def shut_down_def wired_def)
  have "g \<noteq> h" "el_leader (fst c g)"
    using g by (auto simp: on_elector_def shut_down_def split: if_splits)
  then obtain t where t: "last_beat g evs = Some t"
      "(\<forall>u \<in> set (beat_times evs). u \<le> t + elector_ttl ttl) \<Longrightarrow> get_leader name (snd c) = Some (g, t + elector_ttl ttl)"
    using b unfolding lease_backed_def by blast
  have "get_leader name (snd (release_leader name h (snd c))) = Some (g, t + elector_ttl ttl)"
    if "get_leader name (snd c) = Some (g, t + elector_ttl ttl)"
    using that \<open>g \<noteq> h\<close> role.release_state [where s = "snd c" and h = h and name = name] by simp
  then show "\<exists>t. last_beat g (evs @ [Quit h up]) = Some t \<and>
     ((\<forall>u \<in> set (beat_times (evs @ [Quit h up])). u \<le> t + elector_ttl ttl) \<longrightarrow>
        get_leader name (snd (cluster_step (Quit h up) c)) = Some (g, t + elector_ttl ttl))"
    using t s by (auto simp: last_beat_snoc beat_times_snoc)
qed

lemma cluster_backed:
  "wired name ttl (fst c) \<Longrightarrow> (\<forall>h. \<not> el_leader (fst c h)) \<Longrightarrow>
   wired name ttl (fst (fold cluster_step evs c)) \<and> lease_backed name ttl evs (fold cluster_step evs c)"
proof (induction evs rule: rev_induct)
  case Nil
  then show ?case by (simp add: lease_backed_def)
next
  case (snoc e evs)
  define d where "d = fold cluster_step evs c"
  have d: "wired name ttl (fst d)" "lease_backed name ttl evs d" using snoc by (simp_all add: d_def)
  have "lease_backed name ttl (evs @ [e]) (cluster_step e d)"
    by (cases e) (simp_all only: beat_backed [OF d] quit_backed [OF d])
  then show ?case using cluster_wired [OF d(1)] by (simp add: d_def)
qed

text \<open>
  C27: one control plane.  Replicas contend for the role in any interleaving of heartbeats, store
  outages and shutdowns.  Two of them that both believe to lead, and both had their last heartbeat
  within the time to live of every heartbeat of the run, are the same replica.
\<close>

theorem one_control_plane:
  assumes "fresh_cluster name ttl els"
    and "el_leader (fst (fold cluster_step evs (els, s)) a)" "el_leader (fst (fold cluster_step evs (els, s)) b)"
    and "last_beat a evs = Some ta" "last_beat b evs = Some tb"
    and "\<forall>u \<in> set (beat_times evs). u \<le> ta + elector_ttl ttl \<and> u \<le> tb + elector_ttl ttl"
  shows "a = b"
proof -
  have "wired name ttl els" "\<forall>h. \<not> el_leader (els h)"
    using assms(1) by (auto simp: fresh_cluster_def wired_def new_elector_def)
  then have "lease_backed name ttl evs (fold cluster_step evs (els, s))"
    using cluster_backed [of name ttl "(els, s)" evs] by simp
  then have "get_leader name (snd (fold cluster_step evs (els, s))) = Some (a, ta + elector_ttl ttl)"
    "get_leader name (snd (fold cluster_step evs (els, s))) = Some (b, tb + elector_ttl ttl)"
    using assms(2-6) unfolding lease_backed_def by fastforce+
  then show ?thesis by simp
qed

lemma one_control_plane_witness:
  "\<not> el_leader (fst (fold cluster_step [Beat 0 ''a'' True, Beat 1 ''b'' True, Beat 2 ''a'' True]
     (\<lambda>h. new_elector h 6 ''cp'' True None, init_store)) ''b'')"
proof
  let ?els = "\<lambda>h. new_elector h 6 ''cp'' True None"
  let ?evs = "[Beat 0 ''a'' True, Beat 1 ''b'' True, Beat 2 ''a'' True]"
  assume b: "el_leader (fst (fold cluster_step ?evs (?els, init_store)) ''b'')"
  have a: "el_leader (fst (fold cluster_step ?evs (?els, init_store)) ''a'')"
    by (simp add: on_elector_def heartbeat_def new_elector_def try_acquire_leader_def init_store_def gain_def
        elector_ttl_def at_time_def Let_def)
  have "''a'' = (''b'' :: string)"
    by (rule one_control_plane [OF _ a b, of "''cp''" 6 2 1])
      (simp_all add: fresh_cluster_def beat_times_def map_filter_def elector_ttl_def)
  then show False by simp
qed

end
