(* ===== verification/Run_Managers.thy ===== *)
theory Run_Managers
  imports Launchers
begin

text \<open>
  apps/backend/app/eval/manager.py and perf/manager.py: the two managers that run evaluations and
  load tests as subprocesses, kept off each other's GPU.  One record holds the state of both (they
  hold handles to each other).  A launched runner is an entry of the log \<open>bm_runs\<close> with its
  configuration; its end is an event with an exit code and the content of its result file.  A JSON
  request is a dictionary; \<open>fl\<close> prints floats.
\<close>

section \<open>Targets\<close>

datatype bench_err = UnknownGroup | UnknownInstance | UnknownModel | NoDatasets | Busy

record bench_env =
  be_config :: root_cfg
  be_router :: string
  be_token :: string
  be_fl :: "real \<Rightarrow> string"

definition exposes_lora :: "string \<Rightarrow> group_cfg \<Rightarrow> bool" where
  "exposes_lora name g =
     (case jget (group_mc g) ''lora_modules'' of JList ms \<Rightarrow> JStr name \<in> lora_name ` set ms | _ \<Rightarrow> False)"

fun lora_lookup :: "(string, group_cfg) dict \<Rightarrow> string \<Rightarrow> (string \<times> group_cfg) option" where
  "lora_lookup [] name = None"
| "lora_lookup ((key, g) # rest) name = (if exposes_lora name g then Some (key, g) else lora_lookup rest name)"

text \<open>\<open>s.split("::")[-1]\<close>\<close>

function last_part :: "string \<Rightarrow> string" where
  "last_part s = (case str_partition sep2 s of (h, True, t) \<Rightarrow> last_part t | (h, False, t) \<Rightarrow> s)"
  by auto

lemma partition_shorter: "str_partition sep2 s = (h, True, t) \<Longrightarrow> length t < length s"
proof (induction s arbitrary: h)
  case (Cons c s)
  then show ?case
    by (cases "str_partition sep2 s") (force simp: sep2_def split: if_splits)
qed (simp add: sep2_def)

termination last_part
  by (relation "measure length") (auto dest!: sym [THEN partition_shorter])

text \<open>The base group and whether the name is an adapter of it.\<close>

definition served_group :: "root_cfg \<Rightarrow> string \<Rightarrow> (group_cfg \<times> bool) option" where
  "served_group config name =
     (case map_of (rc_engines config) name of
        Some g \<Rightarrow> Some (g, False)
      | None \<Rightarrow> map_option (\<lambda>(k, g). (g, True)) (lora_lookup (rc_engines config) name))"

definition local_base :: "int \<Rightarrow> string" where
  "local_base port = ''http://127.0.0.1:'' @ show_int port"

text \<open>The model field, the base URL and the base model's tag.\<close>

definition run_target ::
  "bench_env \<Rightarrow> string \<Rightarrow> string \<Rightarrow> string option \<Rightarrow> bench_err + (string \<times> string \<times> string)" where
  "run_target be grp tgt inst_key =
     (case served_group (be_config be) grp of
        None \<Rightarrow> Inl UnknownGroup
      | Some (g, is_lora) \<Rightarrow>
          (let tag = jtext (jget (group_mc g) ''model_tag'') in
           if tgt = ''instance'' then
             (let iid = last_part (case inst_key of None \<Rightarrow> [] | Some k \<Rightarrow> k) in
              case List.find (\<lambda>i. ic_id i = iid) (group_instances g) of
                None \<Rightarrow> Inl UnknownInstance
              | Some i \<Rightarrow> Inr (if is_lora then grp else tag, local_base (ic_port i), tag))
           else Inr (grp, be_router be, tag)))"

definition eval_resolve :: "bench_env \<Rightarrow> (string, jval) dict \<Rightarrow> bench_err + (string \<times> string)" where
  "eval_resolve be req =
     (case run_target be (jtext (jget req ''model'')) (jtext (dget req ''target'' (JStr ''router'')))
             (jopt_text (jget req ''instance_key'')) of
        Inl er \<Rightarrow> Inl er
      | Inr (mf, base, tag) \<Rightarrow> Inr (mf, base @ ''/v1''))"

definition api_key :: "bench_env \<Rightarrow> jval" where
  "api_key be = JStr (if be_token be = [] then ''EMPTY'' else be_token be)"

section \<open>The evaluation runner's configuration\<close>

definition judge_fields :: "bench_env \<Rightarrow> (string, jval) dict \<Rightarrow> (string, jval) dict" where
  "judge_fields be req =
     (if \<not> truthy (jget req ''judge_enabled'') then [(''judge_strategy'', JStr ''rule'')]
      else
        let gen = JObj [(''max_tokens'', dget req ''max_tokens'' (JInt 2048)), (''temperature'', JFloat 0)]
        in [(''judge_strategy'', dget req ''judge_strategy'' (JStr ''auto'')),
            (''judge_model_args'',
              JObj (if jget req ''judge_target'' = JStr ''external''
                then [(''model_id'', jget req ''judge_model''), (''api_url'', jget req ''judge_api_url''),
                      (''api_key'', jor (jget req ''judge_api_key'') (JStr ''EMPTY'')), (''generation_config'', gen)]
                else [(''model_id'', jget req ''judge_model''), (''api_url'', JStr (be_router be @ ''/v1'')),
                      (''api_key'', api_key be), (''generation_config'', gen)]))])"

definition eval_build_cfg :: "bench_env \<Rightarrow> (string, jval) dict \<Rightarrow> string \<Rightarrow> bench_err + (string, jval) dict" where
  "eval_build_cfg be req dir =
     (case eval_resolve be req of
        Inl er \<Rightarrow> Inl er
      | Inr (mf, url) \<Rightarrow>
          (let gen = [(''temperature'', dget req ''temperature'' (JFloat 0)), (''max_tokens'', dget req ''max_tokens'' (JInt 2048))] @
                 (if jget req ''top_p'' = JNull then [] else [(''top_p'', jget req ''top_p'')]);
               cfg = [(''model'', JStr mf), (''api_url'', JStr url), (''api_key'', api_key be),
                 (''eval_type'', JStr ''openai_api''), (''datasets'', jget req ''datasets''), (''generation_config'', JObj gen),
                 (''repeats'', dget req ''repeats'' (JInt 1)), (''stream'', dget req ''stream'' (JBool True)),
                 (''eval_batch_size'', dget req ''eval_batch_size'' (JInt 8)), (''ignore_errors'', JBool True),
                 (''timeout'', dget req ''timeout'' (JInt 600)), (''work_dir'', JStr dir), (''no_timestamp'', JBool True)]
           in Inr (cfg @ (if jget req ''limit'' = JNull then [] else [(''limit'', jget req ''limit'')]) @
                (if truthy (jget req ''dataset_args'') then [(''dataset_args'', jget req ''dataset_args'')] else []) @
                judge_fields be req)))"

section \<open>The load test's configuration\<close>

function str_replace :: "string \<Rightarrow> string \<Rightarrow> string \<Rightarrow> string" where
  "str_replace old new [] = []"
| "str_replace old new (c # s) =
     (if old \<noteq> [] \<and> starts_with old (c # s) then new @ str_replace old new (drop (length old) (c # s))
      else c # str_replace old new s)"
  by pat_completeness auto

termination by (relation "measure (\<lambda>(old, new, s). length s)") auto

definition embedding_target :: "bench_env \<Rightarrow> string \<Rightarrow> string \<Rightarrow> string \<Rightarrow> bench_err + (string \<times> string \<times> string)" where
  "embedding_target be name mode tgt =
     (case rc_embedding (be_config be) of
        Val d \<Rightarrow>
          (let fld = (if mode = ''embedding'' then ''embedding_models'' else ''reranking_models'') in
           case (case jget d fld of JObj ms \<Rightarrow> map_of ms name | _ \<Rightarrow> None) of
             None \<Rightarrow> Inl UnknownModel
           | Some entry \<Rightarrow>
               (let mn = (case entry of JObj m \<Rightarrow> jtext (jget m ''model_name'') | _ \<Rightarrow> []) in
                Inr (name, if tgt = ''instance'' then (case jget d ''port'' of JInt p \<Rightarrow> local_base p | _ \<Rightarrow> []) else be_router be,
                     if mn = [] then name else mn)))
      | _ \<Rightarrow> Inl UnknownModel)"

definition req_mode :: "(string, jval) dict \<Rightarrow> string" where
  "req_mode req = jtext (dget req ''mode'' (JStr ''sweep''))"

definition perf_target :: "bench_env \<Rightarrow> (string, jval) dict \<Rightarrow> bench_err + (string \<times> string \<times> string)" where
  "perf_target be req =
     (let mode = req_mode req; grp = jtext (jget req ''model''); tgt = jtext (dget req ''target'' (JStr ''router'')) in
      if mode = ''embedding'' \<or> mode = ''rerank'' then
        (case embedding_target be grp mode tgt of
           Inl er \<Rightarrow> Inl er
         | Inr (mf, base, tok) \<Rightarrow> Inr (mf, base @ (if mode = ''rerank'' then ''/v1/rerank'' else ''/v1/embeddings''), tok))
      else
        (case run_target be grp tgt (jopt_text (jget req ''instance_key'')) of
           Inl er \<Rightarrow> Inl er
         | Inr (mf, base, tag) \<Rightarrow>
             Inr (mf, base @ (if jget req ''endpoint'' = JStr ''completions'' then ''/v1/completions''
                              else ''/v1/chat/completions''), tag)))"

definition token_field :: "bench_env \<Rightarrow> (string, jval) dict" where
  "token_field be = (if be_token be = [] then [] else [(''api_key'', JStr (be_token be))])"

definition run_fields :: "string \<Rightarrow> (string, jval) dict" where
  "run_fields dir = [(''outputs_dir'', JStr dir), (''no_timestamp'', JBool True), (''name'', JStr ''run'')]"

definition embedding_cfg :: "bench_env \<Rightarrow> (string, jval) dict \<Rightarrow> string \<Rightarrow> string \<times> string \<times> string \<Rightarrow> (string, jval) dict" where
  "embedding_cfg be req dir tgt =
     (case tgt of
        (mf, url, tok) \<Rightarrow>
          let rr = (jget req ''mode'' = JStr ''rerank'') in
          [(''model'', JStr mf), (''url'', JStr url), (''api'', JStr (if rr then ''llmops_rerank'' else ''openai_embedding'')),
           (''dataset'', JStr (if rr then ''random_rerank'' else ''random_embedding'')), (''tokenizer_path'', JStr tok),
           (''stream'', JBool False), (''parallel'', jget req ''parallel''), (''number'', jget req ''number''),
           (''min_prompt_length'', dget req ''min_prompt_length'' (JInt 64)),
           (''max_prompt_length'', dget req ''max_prompt_length'' (JInt 256))] @ run_fields dir @
          (if rr then [(''extra_args'', JObj [(''num_documents'', dget req ''rerank_documents'' (JInt 10))])] else []) @
          token_field be)"

definition speed_cfg :: "bench_env \<Rightarrow> (string, jval) dict \<Rightarrow> string \<Rightarrow> string \<times> string \<times> string \<Rightarrow> (string, jval) dict" where
  "speed_cfg be req dir tgt =
     (case tgt of
        (mf, url, tok) \<Rightarrow>
          let out = dget req ''max_tokens'' (JInt 2048); long = truthy (jget req ''speed_long'') in
          [(''model'', JStr mf), (''url'', JStr (str_replace ''/v1/chat/completions'' ''/v1/completions'' url)),
           (''api'', JStr ''openai''), (''dataset'', JStr (if long then ''speed_benchmark_long'' else ''speed_benchmark'')),
           (''tokenizer_path'', JStr tok), (''parallel'', JInt 1), (''number'', JInt (if long then 4 else 8)),
           (''min_tokens'', out), (''max_tokens'', out), (''stream'', JBool True)] @ run_fields dir @ token_field be)"

text \<open>\<open>cfg.update(...)\<close> and the assignments are \<open>dset\<close>s in order.\<close>

definition with_fields :: "(string, jval) dict \<Rightarrow> (string, jval) dict \<Rightarrow> (string, jval) dict" where
  "with_fields new cfg = dupdate cfg new"

definition random_knobs :: "(string, jval) dict \<Rightarrow> (string, jval) dict \<Rightarrow> (string, jval) dict" where
  "random_knobs req cfg =
     (if jget cfg ''dataset'' = JStr ''random'' then
        with_fields [(''min_tokens'', jget cfg ''max_tokens''), (''min_prompt_length'', dget req ''min_prompt_length'' (JInt 512)),
          (''max_prompt_length'', dget req ''max_prompt_length'' (JInt 512)), (''prefix_length'', dget req ''prefix_length'' (JInt 0)),
          (''extra_args'', JObj [(''ignore_eos'', JBool True)])] cfg
      else cfg)"

definition if_set :: "(string, jval) dict \<Rightarrow> string \<Rightarrow> string \<Rightarrow> (string, jval) dict \<Rightarrow> (string, jval) dict" where
  "if_set req k field cfg = (if truthy (jget req k) then dset field (jget req k) cfg else cfg)"

definition mode_fields :: "(string, jval) dict \<Rightarrow> (string, jval) dict \<Rightarrow> (string, jval) dict" where
  "mode_fields req cfg =
     (let mode = req_mode req in
      if mode = ''sla'' then
        (let variable = dget req ''sla_variable'' (JStr ''parallel''); lo = dget req ''sla_lower_bound'' (JInt 1);
             c1 = with_fields [(''sla_auto_tune'', JBool True), (''sla_variable'', variable), (''sla_params'', jget req ''sla_params''),
               (''sla_lower_bound'', lo), (''sla_upper_bound'', dget req ''sla_upper_bound'' (JInt 64)),
               (''sla_num_runs'', dget req ''sla_num_runs'' (JInt 1)), (''number'', JInt 1)] (random_knobs req cfg)
         in if variable = JStr ''rate''
            then with_fields [(''rate'', lo), (''sla_fixed_parallel'', dget req ''sla_fixed_parallel'' (JInt 10))] c1
            else dset ''parallel'' lo c1)
      else if mode = ''openloop'' then
        if_set req ''duration'' ''duration''
          (with_fields [(''open_loop'', JBool True), (''rate'', jget req ''rate''), (''number'', jget req ''number'')] (random_knobs req cfg))
      else if mode = ''multiturn'' then
        if_set req ''duration'' ''duration'' (if_set req ''mt_dataset_path'' ''dataset_path''
          (with_fields [(''multi_turn'', JBool True), (''dataset'', dget req ''mt_dataset'' (JStr ''share_gpt_zh_multi_turn'')),
             (''min_turns'', dget req ''min_turns'' (JInt 2)), (''max_turns'', dget req ''max_turns'' (JInt 4)),
             (''parallel'', jget req ''parallel''), (''number'', jget req ''number'')] cfg))
      else
        if_set req ''warmup_num'' ''warmup_num''
          (with_fields [(''parallel'', jget req ''parallel''), (''number'', jget req ''number'')] (random_knobs req cfg)))"

definition perf_build_cfg :: "bench_env \<Rightarrow> (string, jval) dict \<Rightarrow> string \<Rightarrow> bench_err + (string, jval) dict" where
  "perf_build_cfg be req dir =
     (case perf_target be req of
        Inl er \<Rightarrow> Inl er
      | Inr (mf, url, tok) \<Rightarrow>
          Inr (if req_mode req = ''embedding'' \<or> req_mode req = ''rerank'' then embedding_cfg be req dir (mf, url, tok)
               else if req_mode req = ''speed'' then speed_cfg be req dir (mf, url, tok)
               else dupdate (mode_fields req
                 ([(''model'', JStr mf), (''url'', JStr url), (''api'', JStr ''openai''), (''dataset'', dget req ''dataset'' (JStr ''random'')),
                   (''max_tokens'', dget req ''max_tokens'' (JInt 256)), (''stream'', dget req ''stream'' (JBool True)),
                   (''tokenizer_path'', JStr tok)] @ run_fields dir)) (token_field be)))"


section \<open>The managers' state\<close>

record bench =
  bm_store :: store
  bm_budget :: int
  bm_procs :: "int list"
  bm_queued :: "int list"
  bm_pending :: "(int, (string, jval) dict) dict"
  bm_batch :: "(int, int) dict"
  bm_cancelled :: "int list"
  bm_current :: "int option"
  bm_perf_procs :: "int list"
  bm_perf_cancelled :: "int list"
  bm_runs :: "(string \<times> int \<times> (string, jval) dict) list"

definition eval_busy :: "bench \<Rightarrow> bool" where
  "eval_busy b = (bm_procs b \<noteq> [] \<or> bm_queued b \<noteq> [])"

definition perf_busy :: "bench \<Rightarrow> bool" where
  "perf_busy b = (bm_current b \<noteq> None)"

definition used_budget :: "bench \<Rightarrow> int" where
  "used_budget b = sum_list (map (\<lambda>r. dget (bm_batch b) r 0) (bm_procs b))"

definition run_dir :: "string \<Rightarrow> int \<Rightarrow> string" where
  "run_dir kind rid = kind @ ''/'' @ show_int rid"

section \<open>Evaluations\<close>

text \<open>\<open>Some er\<close>: the launch raised.\<close>

definition eval_launch :: "bench_env \<Rightarrow> real \<Rightarrow> int \<Rightarrow> bench \<Rightarrow> bench_err option \<times> bench" where
  "eval_launch be now rid b =
     (case map_of (bm_pending b) rid of
        None \<Rightarrow> (None, b)
      | Some req \<Rightarrow>
          (let b1 = b\<lparr>bm_pending := dpop rid (bm_pending b)\<rparr> in
           case eval_build_cfg be req (run_dir ''eval'' rid) of
             Inl er \<Rightarrow> (Some er, b1)
           | Inr cfg \<Rightarrow>
               (None, b1\<lparr>bm_procs := bm_procs b @ [rid], bm_runs := bm_runs b @ [(''eval'', rid, cfg)],
                         bm_store := start_eval_run now rid None (bm_store b)\<rparr>)))"

lemma eval_launch_queued [simp]: "bm_queued (snd (eval_launch be now rid b)) = bm_queued b"
  by (auto simp: eval_launch_def Let_def split: option.split sum.split)

definition eval_fits :: "int \<Rightarrow> bench \<Rightarrow> bool" where
  "eval_fits rid b = (bm_procs b = [] \<or> used_budget b + dget (bm_batch b) rid 8 \<le> bm_budget b)"

function eval_pump :: "bench_env \<Rightarrow> real \<Rightarrow> bench \<Rightarrow> bench_err option \<times> bench" where
  "eval_pump be now b =
     (case bm_queued b of
        [] \<Rightarrow> (None, b)
      | rid # rest \<Rightarrow>
          if perf_busy b \<or> \<not> eval_fits rid b then (None, b)
          else (case eval_launch be now rid (b\<lparr>bm_queued := rest\<rparr>) of
                  (Some er, b1) \<Rightarrow> (Some er, b1)
                | (None, b1) \<Rightarrow> eval_pump be now b1))"
  by auto

lemma eval_launch_keeps_queue: "(r, b1) = eval_launch be now rid b \<Longrightarrow> bm_queued b1 = bm_queued b"
  by (metis eval_launch_queued snd_conv)

termination eval_pump
  by (relation "measure (\<lambda>(be, now, b). length (bm_queued b))") (auto dest: eval_launch_keeps_queue)

declare eval_pump.simps [simp del]

definition batch_of :: "(string, jval) dict \<Rightarrow> int" where
  "batch_of req = (case dget req ''eval_batch_size'' (JInt 8) of JInt k \<Rightarrow> k | _ \<Rightarrow> 8)"

definition eval_start ::
  "bench_env \<Rightarrow> real \<Rightarrow> (string, jval) dict \<Rightarrow> bench \<Rightarrow> (bench_err + int) \<times> bench" where
  "eval_start be now req b =
     (if \<not> truthy (jget req ''datasets'') then (Inl NoDatasets, b)
      else case eval_resolve be req of
        Inl er \<Rightarrow> (Inl er, b)
      | Inr (mf, url) \<Rightarrow>
          (case create_eval_run now (jtext (jget req ''model'')) url (json_dumps (be_fl be) (jget req ''datasets''))
                  (json_dumps (be_fl be) (JObj req)) (jopt_text (jget req ''name'')) None Queued (bm_store b) of
             (rid, s) \<Rightarrow>
               (case eval_pump be now
                   (b\<lparr>bm_store := s, bm_pending := dset rid req (bm_pending b),
                      bm_batch := dset rid (batch_of req) (bm_batch b),
                      bm_queued := bm_queued b @ [rid]\<rparr>) of
                  (Some er, b1) \<Rightarrow> (Inl er, b1)
                | (None, b1) \<Rightarrow> (Inr rid, b1))))"

text \<open>
  The end of a runner: its exit code and the JSON of its result file (\<open>None\<close>: there is none; \<open>Some None\<close>: it
  does not parse).  \<open>note\<close> is the line picked from the log.  The final write is retried, so \<open>fails\<close> transient
  errors of the store are survived if they are at most five.
\<close>

datatype outcome = Outcome run_status "string option" "string option"

definition eval_outcome :: "(real \<Rightarrow> string) \<Rightarrow> int \<Rightarrow> jval option option \<Rightarrow> string option \<Rightarrow> outcome" where
  "eval_outcome fl rc result note =
     (case (if rc = 0 then result else None) of
        Some None \<Rightarrow> Outcome Failed None (Some ''result parse error'')
      | Some (Some parsed) \<Rightarrow> Outcome Completed (Some (json_dumps fl parsed)) None
      | None \<Rightarrow> Outcome Failed None (Some (''runner exited rc='' @ show_int rc @
          (case note of None \<Rightarrow> ''; see run.log'' | Some d \<Rightarrow> if d = [] then ''; see run.log'' else '': '' @ d))))"

definition finish_with :: "nat \<Rightarrow> (store \<Rightarrow> store) \<Rightarrow> store \<Rightarrow> store" where
  "finish_with fails f s = (if fails < 6 then f s else s)"

definition eval_exit ::
  "bench_env \<Rightarrow> real \<Rightarrow> nat \<Rightarrow> int \<Rightarrow> int \<Rightarrow> jval option option \<Rightarrow> string option \<Rightarrow> bench \<Rightarrow> bench_err option \<times> bench" where
  "eval_exit be now fails rid rc result note b =
     (let b1 = b\<lparr>bm_procs := filter (\<lambda>r. r \<noteq> rid) (bm_procs b), bm_batch := dpop rid (bm_batch b)\<rparr>;
          dir = Some (run_dir ''eval'' rid);
          b2 = (if rid \<in> set (bm_cancelled b)
                then b1\<lparr>bm_cancelled := filter (\<lambda>r. r \<noteq> rid) (bm_cancelled b),
                        bm_store := finish_with fails (finish_eval_run now rid Cancelled None dir None None) (bm_store b)\<rparr>
                else (case eval_outcome (be_fl be) rc result note of
                        Outcome st res err \<Rightarrow>
                          b1\<lparr>bm_store := finish_with fails (finish_eval_run now rid st res dir err None) (bm_store b)\<rparr>))
      in eval_pump be now b2)"

definition eval_cancel :: "real \<Rightarrow> int \<Rightarrow> bench \<Rightarrow> bool \<times> bench" where
  "eval_cancel now rid b =
     (if rid \<in> set (bm_queued b) then
        (True, b\<lparr>bm_queued := remove1 rid (bm_queued b), bm_pending := dpop rid (bm_pending b), bm_batch := dpop rid (bm_batch b),
                 bm_store := finish_eval_run now rid Cancelled None None None None (bm_store b)\<rparr>)
      else if rid \<notin> set (bm_procs b) then (False, b)
      else (True, b\<lparr>bm_cancelled := List.insert rid (bm_cancelled b)\<rparr>))"

definition set_budget :: "bench_env \<Rightarrow> real \<Rightarrow> int \<Rightarrow> bench \<Rightarrow> bench_err option \<times> bench" where
  "set_budget be now k b = eval_pump be now (b\<lparr>bm_budget := k\<rparr>)"

section \<open>Load tests\<close>

text \<open>The checks of the API before a load test is started (api/perf.py): the text of the 400 answer, or none.\<close>

fun same_length :: "jval \<Rightarrow> jval \<Rightarrow> bool" where
  "same_length (JList xs) (JList ys) = (length xs = length ys)"
| "same_length _ _ = True"

definition perf_refusal :: "(string, jval) dict \<Rightarrow> string option" where
  "perf_refusal req =
     (let mode = req_mode req; given = (\<lambda>k. truthy (jget req k)) in
      if mode = ''sla'' then (if \<not> given ''sla_params'' then Some ''sla_params is required in SLA mode'' else None)
      else if mode = ''openloop'' then
        (if \<not> given ''rate'' \<or> \<not> given ''number'' then Some ''rate and number are required in open-loop mode''
         else if \<not> same_length (jget req ''rate'') (jget req ''number'') then Some ''rate and number must be the same length''
         else None)
      else if mode = ''multiturn'' then
        (if \<not> given ''parallel'' \<or> \<not> given ''number'' then Some ''parallel and number are required in multi-turn mode''
         else if jget req ''mt_dataset'' = JStr ''custom_multi_turn'' \<and> \<not> given ''mt_dataset_path''
              then Some ''mt_dataset_path is required for custom_multi_turn''
         else None)
      else if mode = ''speed'' then None
      else
        (if \<not> given ''parallel'' \<or> \<not> given ''number''
         then Some (''parallel and number are required in '' @ (if mode = ''embedding'' \<or> mode = ''rerank'' then mode else ''sweep'') @ '' mode'')
         else if \<not> same_length (jget req ''parallel'') (jget req ''number'') then Some ''parallel and number must be the same length''
         else None))"

text \<open>Up to the await of the new row, then the rest of \<open>start\<close>; the API refuses while an evaluation is busy.\<close>

definition perf_begin :: "bench_env \<Rightarrow> real \<Rightarrow> (string, jval) dict \<Rightarrow> bench \<Rightarrow> (bench_err + int) \<times> bench" where
  "perf_begin be now req b =
     (if eval_busy b then (Inl Busy, b)
      else if bm_current b \<noteq> None then (Inl Busy, b)
      else case perf_target be req of
        Inl er \<Rightarrow> (Inl er, b)
      | Inr (mf, url, tok) \<Rightarrow>
          (case create_perf_run now (jtext (jget req ''model'')) url (json_dumps (be_fl be) (JObj req))
                  (jopt_text (jget req ''name'')) None (bm_store b) of
             (rid, s) \<Rightarrow> (Inr rid, b\<lparr>bm_store := s\<rparr>)))"

definition perf_launch :: "bench_env \<Rightarrow> (string, jval) dict \<Rightarrow> int \<Rightarrow> bench \<Rightarrow> bench_err option \<times> bench" where
  "perf_launch be req rid b =
     (case perf_build_cfg be req (run_dir ''perf'' rid) of
        Inl er \<Rightarrow> (Some er, b)
      | Inr cfg \<Rightarrow>
          (None, b\<lparr>bm_current := Some rid, bm_perf_procs := bm_perf_procs b @ [rid], bm_runs := bm_runs b @ [(''perf'', rid, cfg)]\<rparr>))"

definition perf_start :: "bench_env \<Rightarrow> real \<Rightarrow> (string, jval) dict \<Rightarrow> bench \<Rightarrow> (bench_err + int) \<times> bench" where
  "perf_start be now req b =
     (case perf_begin be now req b of
        (Inl er, b1) \<Rightarrow> (Inl er, b1)
      | (Inr rid, b1) \<Rightarrow> (case perf_launch be req rid b1 of (Some er, b2) \<Rightarrow> (Inl er, b2) | (None, b2) \<Rightarrow> (Inr rid, b2)))"

text \<open>
  The summary of a finished load test: one point per entry of the result file, sorted by concurrency and rate.  \<open>None\<close>
  is a raised exception (an entry that is not an object, a load level that is not a number).
\<close>

fun as_obj :: "jval \<Rightarrow> (string, jval) dict option" where
  "as_obj (JObj d) = Some d"
| "as_obj _ = None"

fun iterate :: "jval \<Rightarrow> jval list option" where
  "iterate (JList xs) = Some xs"
| "iterate (JObj d) = Some (map (\<lambda>(k, v). JStr k) d)"
| "iterate (JStr s) = Some (map (\<lambda>c. JStr [c]) s)"
| "iterate _ = None"

fun find_pct :: "(real \<Rightarrow> string) \<Rightarrow> string list \<Rightarrow> jval list \<Rightarrow> (string, jval) dict option" where
  "find_pct fl wanted [] = Some []"
| "find_pct fl wanted (row # rows) =
     (case as_obj row of
        None \<Rightarrow> None
      | Some d \<Rightarrow> if str_lower (str_strip (py_str fl (dget d ''percentile'' (JStr [])))) \<in> set wanted then Some d
                  else find_pct fl wanted rows)"

definition pct :: "(real \<Rightarrow> string) \<Rightarrow> (string, jval) dict \<Rightarrow> string list \<Rightarrow> (string, jval) dict option" where
  "pct fl percentiles wanted = Option.bind (iterate (dget percentiles ''rows'' (JList []))) (find_pct fl wanted)"

definition perf_point :: "(real \<Rightarrow> string) \<Rightarrow> string \<times> jval \<Rightarrow> (string, jval) dict option" where
  "perf_point fl entry =
     Option.bind (as_obj (snd entry)) (\<lambda>val.
     Option.bind (as_obj (jor (jget val ''metrics'') (JObj []))) (\<lambda>m.
     Option.bind (as_obj (jor (jget val ''percentiles'') (JObj []))) (\<lambda>ps.
     Option.bind (pct fl ps [''50%'', ''p50'', ''50'']) (\<lambda>p50.
     Option.bind (pct fl ps [''99%'', ''p99'', ''99'']) (\<lambda>p99.
     Option.bind (pct fl ps [''max'']) (\<lambda>pmax.
       Some ([(''label'', JStr (fst entry)), (''concurrency'', jget m ''concurrency''), (''rate'', jget m ''request_rate''),
         (''total'', jget m ''total_requests''), (''success'', jget m ''succeed_requests''), (''failed'', jget m ''failed_requests''),
         (''duration'', jget m ''time_taken''), (''rps'', jget m ''request_throughput''), (''avg_latency'', jget m ''avg_latency''),
         (''avg_ttft'', jget m ''avg_ttft''), (''avg_tpot'', jget m ''avg_tpot''), (''avg_itl'', jget m ''avg_itl''),
         (''output_tps'', jget m ''output_token_throughput''), (''total_tps'', jget m ''total_token_throughput''),
         (''avg_in'', jget m ''avg_input_tokens''), (''avg_out'', jget m ''avg_output_tokens'')] @
         concat (map (\<lambda>f. [(f @ ''_p50'', jget p50 f), (f @ ''_p99'', jget p99 f), (f @ ''_max'', jget pmax f)])
           [''latency'', ''ttft'', ''tpot'']) @
         [(''turns'', jget m ''avg_turns''), (''cache_hit'', jget m ''avg_cached_percent''),
          (''first_ttft'', jget m ''avg_first_turn_ttft''), (''subsequent_ttft'', jget m ''avg_subsequent_turn_ttft'')])))))))"

fun load_level :: "jval \<Rightarrow> real option" where
  "load_level JNull = Some 0"
| "load_level (JBool b) = Some (if b then 1 else 0)"
| "load_level (JInt k) = Some (real_of_int k)"
| "load_level (JFloat r) = Some r"
| "load_level v = (if truthy v then None else Some 0)"

definition level_of :: "string \<Rightarrow> (string, jval) dict \<Rightarrow> real" where
  "level_of k p = (case load_level (jget p k) of None \<Rightarrow> 0 | Some r \<Rightarrow> r)"

text \<open>A stable sort by the rate and then one by the concurrency is the sort by the pair.\<close>

definition sort_points :: "(string, jval) dict list \<Rightarrow> (string, jval) dict list option" where
  "sort_points ps =
     (if \<exists>p \<in> set ps. load_level (jget p ''concurrency'') = None \<or> load_level (jget p ''rate'') = None then None
      else Some (sort_key (level_of ''concurrency'') (sort_key (level_of ''rate'') ps)))"

definition parse_result :: "(real \<Rightarrow> string) \<Rightarrow> jval \<Rightarrow> jval option" where
  "parse_result fl data =
     (case (case data of JObj d \<Rightarrow> (as_obj (dget d ''points'' data), jget d ''sla'') | _ \<Rightarrow> (Some [], JNull)) of
        (raw, sla) \<Rightarrow>
          Option.bind raw (\<lambda>entries.
          Option.bind (those (map (perf_point fl) entries)) (\<lambda>points.
          Option.bind (sort_points points) (\<lambda>sorted.
            Some (JObj [(''points'', JList (map JObj sorted)), (''sla'', sla)])))))"

definition perf_outcome :: "(real \<Rightarrow> string) \<Rightarrow> int \<Rightarrow> jval option option \<Rightarrow> outcome" where
  "perf_outcome fl rc result =
     (case (if rc = 0 then result else None) of
        None \<Rightarrow> Outcome Failed None (Some (''runner exited rc='' @ show_int rc @ ''; see run.log''))
      | Some content \<Rightarrow>
          (case Option.bind content (parse_result fl) of
             None \<Rightarrow> Outcome Failed None (Some ''result parse error'')
           | Some parsed \<Rightarrow> Outcome Completed (Some (json_dumps fl parsed)) None))"

text \<open>An exception of the evaluations' pump ends the watcher before the row is written.\<close>

definition perf_exit ::
  "bench_env \<Rightarrow> real \<Rightarrow> nat \<Rightarrow> int \<Rightarrow> int \<Rightarrow> jval option option \<Rightarrow> bench \<Rightarrow> bench_err option \<times> bench" where
  "perf_exit be now fails rid rc result b =
     (let b1 = b\<lparr>bm_perf_procs := filter (\<lambda>r. r \<noteq> rid) (bm_perf_procs b),
                 bm_current := (if bm_current b = Some rid then None else bm_current b)\<rparr>;
          dir = Some (run_dir ''perf'' rid)
      in case (if perf_busy b1 then (None, b1) else eval_pump be now b1) of
           (Some er, b2) \<Rightarrow> (Some er, b2)
         | (None, b2) \<Rightarrow>
             (None,
              if rid \<in> set (bm_perf_cancelled b2)
              then b2\<lparr>bm_perf_cancelled := filter (\<lambda>r. r \<noteq> rid) (bm_perf_cancelled b2),
                      bm_store := finish_with fails (finish_perf_run now rid Cancelled None dir None None) (bm_store b2)\<rparr>
              else (case perf_outcome (be_fl be) rc result of
                      Outcome st res err \<Rightarrow>
                        b2\<lparr>bm_store := finish_with fails (finish_perf_run now rid st res dir err None) (bm_store b2)\<rparr>)))"

definition perf_cancel :: "int \<Rightarrow> bench \<Rightarrow> bool \<times> bench" where
  "perf_cancel rid b =
     (if rid \<notin> set (bm_perf_procs b) then (False, b)
      else (True, b\<lparr>bm_perf_cancelled := List.insert rid (bm_perf_cancelled b)\<rparr>))"


lemma sorted_by_parts:
  assumes "sorted (map f xs)" "\<And>k. sorted (map g (filter (\<lambda>x. f x = k) xs))"
  shows "sorted_wrt (\<lambda>x y. f x < f y \<or> f x = f y \<and> g x \<le> g y) xs"
  using assms
proof (induction xs)
  case (Cons x xs)
  have "sorted (map g (filter (\<lambda>y. f y = k) xs))" for k using Cons.prems(2) [of k] by (simp split: if_splits)
  then have "sorted_wrt (\<lambda>x y. f x < f y \<or> f x = f y \<and> g x \<le> g y) xs" using Cons by simp
  moreover have "f x < f y \<or> f x = f y \<and> g x \<le> g y" if "y \<in> set xs" for y
  proof -
    have "f x \<le> f y" using that Cons.prems(1) by simp
    moreover have "f x = f y \<Longrightarrow> g x \<le> g y" using that Cons.prems(2) [of "f x"] by simp
    ultimately show ?thesis using order_le_less by blast
  qed
  ultimately show ?case by simp
qed simp

text \<open>The points of a summary are those of the result file, in the order of their load levels.\<close>

lemma points_sorted:
  assumes "sort_points ps = Some qs"
  shows "set qs = set ps \<and> length qs = length ps \<and>
    sorted_wrt (\<lambda>p q. level_of ''concurrency'' p < level_of ''concurrency'' q \<or>
      level_of ''concurrency'' p = level_of ''concurrency'' q \<and> level_of ''rate'' p \<le> level_of ''rate'' q) qs"
proof -
  have qs: "qs = sort_key (level_of ''concurrency'') (sort_key (level_of ''rate'') ps)"
    using assms by (auto simp: sort_points_def split: if_splits)
  have "sorted (map (level_of ''rate'') (filter (\<lambda>p. level_of ''concurrency'' p = k) qs))" for k
    unfolding qs sort_key_stable by (simp add: sorted_filter)
  then have "sorted_wrt (\<lambda>p q. level_of ''concurrency'' p < level_of ''concurrency'' q \<or>
      level_of ''concurrency'' p = level_of ''concurrency'' q \<and> level_of ''rate'' p \<le> level_of ''rate'' q) qs"
    by (intro sorted_by_parts) (simp_all add: qs)
  then show ?thesis by (simp add: qs)
qed

section \<open>The rows tell the truth\<close>

text \<open>
  The evaluation rows against the running and the waiting ids (each waiting one has its valid request and its batch
  size); the load test rows against the running one.
\<close>

definition eval_ok ::
  "bench_env \<Rightarrow> int list \<Rightarrow> int list \<Rightarrow> (int, (string, jval) dict) dict \<Rightarrow> run_row table \<Rightarrow> bool" where
  "eval_ok be ps q pend t =
     (table_ok t \<and> distinct (ps @ q) \<and> (\<forall>i \<in> set (ps @ q). i < tb_next t) \<and>
      (\<forall>i \<in> set q. \<exists>req x. map_of pend i = Some req \<and> eval_resolve be req = Inr x) \<and>
      (\<forall>i r. tget i t = Some r \<longrightarrow> (rn_status r = Running \<longleftrightarrow> i \<in> set ps) \<and> (rn_status r = Queued \<longleftrightarrow> i \<in> set q)))"

definition batch_ok :: "int set \<Rightarrow> (int, int) dict \<Rightarrow> bool" where
  "batch_ok is bt = (\<forall>i \<in> is. \<exists>n \<ge> 1. map_of bt i = Some n)"

definition perf_ok :: "int option \<Rightarrow> int list \<Rightarrow> run_row table \<Rightarrow> bool" where
  "perf_ok cur ps t =
     (table_ok t \<and> ps = (case cur of None \<Rightarrow> [] | Some i \<Rightarrow> [i]) \<and> (\<forall>i \<in> set ps. i < tb_next t) \<and>
      (\<forall>i r. tget i t = Some r \<longrightarrow> (rn_status r = Running \<longleftrightarrow> i \<in> set ps)))"

definition evals_ok :: "bench_env \<Rightarrow> bench \<Rightarrow> bool" where
  "evals_ok be b =
     (eval_ok be (bm_procs b) (bm_queued b) (bm_pending b) (so_eval (bm_store b)) \<and>
      batch_ok (set (bm_procs b) \<union> set (bm_queued b)) (bm_batch b))"

definition runs_ok :: "bench_env \<Rightarrow> bench \<Rightarrow> bool" where
  "runs_ok be b =
     (evals_ok be b \<and> perf_ok (bm_current b) (bm_perf_procs b) (so_perf (bm_store b)) \<and>
      (bm_current b \<noteq> None \<longrightarrow> bm_procs b = []))"

lemma tb_next_update [simp]: "tb_next (snd (tupdate P f t)) = tb_next t"
  by (simp add: tupdate_def)

lemma tb_next_insert [simp]: "tb_next (snd (tinsert r t)) = tb_next t + 1" "fst (tinsert r t) = tb_next t"
  by (simp_all add: tinsert_def)

lemma tb_next_delete [simp]: "tb_next (snd (tdelete P t)) = tb_next t"
  by (simp add: tdelete_def)

lemma tget_delete:
  fixes t :: "'r table"
  shows "tget i (snd (tdelete (\<lambda>j _. j = k) t)) = (if i = k then None else tget i t)"
proof -
  have "map_of (filter (\<lambda>(j, r). j \<noteq> k) rows) i = (if i = k then None else map_of rows i)" for rows :: "(int \<times> 'r) list"
    by (induction rows) auto
  then show ?thesis by (simp add: tget_def tdelete_def)
qed

lemma eval_ok_launch:
  assumes "eval_ok be ps (rid # q) pend t" "\<And>r. rn_status (f r) = Running"
  shows "eval_ok be (ps @ [rid]) q (dpop rid pend) (snd (tupdate (\<lambda>i r. i = rid \<and> rn_status r = Queued) f t))"
  using assms unfolding eval_ok_def
  by (auto simp: table_ok_update tget_update) (metis run_status.distinct)+

lemma eval_ok_enqueue:
  assumes "eval_ok be ps q pend t" "eval_resolve be req = Inr x" "rn_status row = Queued"
  shows "eval_ok be ps (q @ [tb_next t]) (dset (tb_next t) req pend) (snd (tinsert row t))"
  using assms unfolding eval_ok_def
  by (auto simp: table_ok_insert tget_insert less_imp_le)

lemma eval_ok_end:
  assumes "eval_ok be ps q pend t" "rid \<in> set ps" "\<And>r. rn_status (f r) = st" "st \<noteq> Running" "st \<noteq> Queued"
  shows "eval_ok be (filter (\<lambda>r. r \<noteq> rid) ps) q pend (snd (tupdate (\<lambda>i _. i = rid) f t))"
  using assms unfolding eval_ok_def
  by (auto simp: table_ok_update tget_update) metis+

lemma eval_ok_drop:
  assumes "eval_ok be ps q pend t" "rid \<in> set q" "\<And>r. rn_status (f r) = st" "st \<noteq> Running" "st \<noteq> Queued"
  shows "eval_ok be ps (remove1 rid q) (dpop rid pend) (snd (tupdate (\<lambda>i _. i = rid) f t))"
proof -
  have "distinct q" using assms(1) by (simp add: eval_ok_def)
  then show ?thesis
    using assms unfolding eval_ok_def
    by (auto simp: table_ok_update tget_update set_remove1_eq) metis+
qed

lemma eval_ok_delete: "eval_ok be ps q pend t \<Longrightarrow> eval_ok be ps q pend (snd (tdelete (\<lambda>j _. j = k) t))"
  unfolding eval_ok_def by (auto simp: table_ok_delete tget_delete)

lemma batch_ok_subset: "batch_ok A bt \<Longrightarrow> B \<subseteq> A \<Longrightarrow> batch_ok B bt"
  by (auto simp: batch_ok_def)

lemma batch_ok_dset: "batch_ok A bt \<Longrightarrow> 1 \<le> n \<Longrightarrow> B \<subseteq> insert i A \<Longrightarrow> batch_ok B (dset i n bt)"
  by (auto simp: batch_ok_def)

lemma batch_ok_dpop: "batch_ok A bt \<Longrightarrow> B \<subseteq> A - {i} \<Longrightarrow> batch_ok B (dpop i bt)"
  by (auto simp: batch_ok_def)

lemma perf_ok_begin:
  assumes "perf_ok None ps t" "rn_status row = Running"
  shows "perf_ok (Some (tb_next t)) (ps @ [tb_next t]) (snd (tinsert row t))"
  using assms unfolding perf_ok_def by (auto simp: table_ok_insert tget_insert)

lemma perf_ok_end:
  assumes "perf_ok cur ps t" "rid \<in> set ps" "\<And>r. rn_status (f r) \<noteq> Running"
  shows "perf_ok None [] (snd (tupdate (\<lambda>i _. i = rid) f t))"
  using assms unfolding perf_ok_def by (auto simp: table_ok_update tget_update split: option.splits)

lemma perf_ok_delete: "perf_ok cur ps t \<Longrightarrow> perf_ok cur ps (snd (tdelete (\<lambda>j _. j = k) t))"
  unfolding perf_ok_def by (auto simp: table_ok_delete tget_delete)

section \<open>Every operation keeps them\<close>

lemma build_cfg_resolved: "eval_resolve be req = Inr x \<Longrightarrow> \<exists>cfg. eval_build_cfg be req dir = Inr cfg"
  by (cases x) (simp add: eval_build_cfg_def Let_def)

definition perf_part :: "bench \<Rightarrow> int option \<times> int list \<times> int list \<times> run_row table" where
  "perf_part b = (bm_current b, bm_perf_procs b, bm_perf_cancelled b, so_perf (bm_store b))"

lemma launch_ok:
  assumes ok: "evals_ok be b" and q: "bm_queued b = rid # rest"
  obtains b1 where "eval_launch be now rid (b\<lparr>bm_queued := rest\<rparr>) = (None, b1)" "evals_ok be b1"
    "bm_procs b1 = bm_procs b @ [rid]" "bm_queued b1 = rest" "perf_part b1 = perf_part b"
    "bm_batch b1 = bm_batch b" "bm_budget b1 = bm_budget b"
proof -
  from ok q obtain req x where req: "map_of (bm_pending b) rid = Some req" and "eval_resolve be req = Inr x"
    by (auto simp: evals_ok_def eval_ok_def)
  then obtain cfg where cfg: "eval_build_cfg be req (run_dir ''eval'' rid) = Inr cfg"
    using build_cfg_resolved by blast
  let ?b1 = "snd (eval_launch be now rid (b\<lparr>bm_queued := rest\<rparr>))"
  have launch: "eval_launch be now rid (b\<lparr>bm_queued := rest\<rparr>) = (None, ?b1)"
    by (simp add: eval_launch_def req cfg)
  have e: "eval_ok be (bm_procs b) (rid # rest) (bm_pending b) (so_eval (bm_store b))"
    and bt: "batch_ok (set (bm_procs b) \<union> set (rid # rest)) (bm_batch b)"
    using ok by (simp_all add: evals_ok_def q)
  have "evals_ok be ?b1"
    using eval_ok_launch [OF e, of "\<lambda>r. r\<lparr>rn_status := Running, rn_started := Some now\<rparr>"] batch_ok_subset [OF bt]
    by (simp add: evals_ok_def eval_launch_def req cfg start_eval_run_def or_now_def)
  with launch show thesis by (rule that) (simp_all add: eval_launch_def req cfg perf_part_def start_eval_run_def)
qed

lemma pump_admits:
  "evals_ok be b \<Longrightarrow>
   \<exists>b'. eval_pump be now b = (None, b') \<and> evals_ok be b' \<and> perf_part b' = perf_part b \<and>
     bm_procs b' @ bm_queued b' = bm_procs b @ bm_queued b \<and> (\<exists>xs. bm_procs b' = bm_procs b @ xs) \<and>
     (perf_busy b \<longrightarrow> bm_procs b' = bm_procs b) \<and>
     (bm_queued b' = [] \<or> perf_busy b' \<or> \<not> eval_fits (hd (bm_queued b')) b')"
proof (induction be now b rule: eval_pump.induct)
  case (1 be now b)
  show ?case
  proof (cases "bm_queued b")
    case Nil
    then show ?thesis using 1(2) by (simp add: eval_pump.simps [of be now b])
  next
    case (Cons rid rest)
    show ?thesis
    proof (cases "perf_busy b \<or> \<not> eval_fits rid b")
      case True
      then show ?thesis using 1(2) Cons by (auto simp: eval_pump.simps [of be now b])
    next
      case False
      from 1(2) Cons obtain b1 where
        b1: "eval_launch be now rid (b\<lparr>bm_queued := rest\<rparr>) = (None, b1)" "evals_ok be b1"
          "bm_procs b1 = bm_procs b @ [rid]" "bm_queued b1 = rest" "perf_part b1 = perf_part b"
        by (rule launch_ok)
      from 1(1) [OF Cons False b1(1) [symmetric] refl b1(2)] show ?thesis
        using False Cons b1 by (auto simp: eval_pump.simps [of be now b])
    qed
  qed
qed

definition truthful :: "bench_env \<Rightarrow> bench \<Rightarrow> bool" where
  "truthful be b = (runs_ok be b \<and> (bm_queued b \<noteq> [] \<longrightarrow> bm_procs b \<noteq> [] \<or> perf_busy b))"

lemma pump_evals:
  "evals_ok be b \<Longrightarrow>
   \<exists>b'. eval_pump be now b = (None, b') \<and> evals_ok be b' \<and> perf_part b' = perf_part b \<and>
     (bm_queued b' \<noteq> [] \<longrightarrow> bm_procs b' \<noteq> [] \<or> perf_busy b') \<and> (perf_busy b \<longrightarrow> bm_procs b' = bm_procs b)"
  by (drule pump_admits [of be b now]) (auto simp: eval_fits_def)

lemma pump_truthful: "runs_ok be b \<Longrightarrow> \<exists>b'. eval_pump be now b = (None, b') \<and> truthful be b'"
  using pump_evals [of be b now] by (auto simp: truthful_def runs_ok_def perf_part_def perf_busy_def)

lemma runs_ok_budget [simp]: "runs_ok be (b\<lparr>bm_budget := k\<rparr>) = runs_ok be b"
  by (simp add: runs_ok_def evals_ok_def)

lemma truthful_runs: "truthful be b \<Longrightarrow> runs_ok be b"
  by (simp add: truthful_def)

lemma eval_start_ok:
  assumes ok: "truthful be b" and size: "1 \<le> batch_of req"
  shows "truthful be (snd (eval_start be now req b))"
proof (cases "truthy (jget req ''datasets'')")
  case True
  show ?thesis
  proof (cases "eval_resolve be req")
    case (Inr x)
    obtain mf url where x: "x = (mf, url)" by (cases x)
    define row where "row = \<lparr>rn_created = now, rn_name = jopt_text (jget req ''name''),
      rn_model = jtext (jget req ''model''), rn_target = url,
      rn_datasets = Some (json_dumps (be_fl be) (jget req ''datasets'')), rn_status = Queued,
      rn_params = json_dumps (be_fl be) (JObj req), rn_result = None, rn_output = None, rn_error = None,
      rn_started = None, rn_finished = None\<rparr>"
    define t where "t = so_eval (bm_store b)"
    define b1 where "b1 = b\<lparr>bm_store := (bm_store b)\<lparr>so_eval := snd (tinsert row t)\<rparr>,
      bm_pending := dset (tb_next t) req (bm_pending b), bm_batch := dset (tb_next t) (batch_of req) (bm_batch b),
      bm_queued := bm_queued b @ [tb_next t]\<rparr>"
    have "batch_ok (set (bm_procs b) \<union> set (bm_queued b)) (bm_batch b)"
      using ok by (auto simp: truthful_def runs_ok_def evals_ok_def)
    then have "batch_ok (set (bm_procs b1) \<union> set (bm_queued b1)) (bm_batch b1)"
      using size by (auto simp: b1_def intro: batch_ok_dset [where i = "tb_next t"])
    then have "runs_ok be b1"
      using ok Inr eval_ok_enqueue [of be "bm_procs b" "bm_queued b" "bm_pending b" t req x row]
      by (simp add: truthful_def runs_ok_def evals_ok_def b1_def row_def t_def)
    from pump_truthful [OF this, of now] show ?thesis
      using True Inr x
      by (auto simp: eval_start_def create_eval_run_def or_now_def b1_def row_def t_def tinsert_def)
  qed (use ok True in \<open>simp add: eval_start_def\<close>)
qed (use ok in \<open>simp add: eval_start_def\<close>)

lemma eval_exit_ok:
  assumes ok: "truthful be b" and rid: "rid \<in> set (bm_procs b)" and fails: "fails < 6"
  shows "truthful be (snd (eval_exit be now fails rid rc result note b))"
proof -
  define row where "row st res err = finish_row st res (Some (run_dir ''eval'' rid)) err now" for st res err
  define ended where "ended st res err c = b\<lparr>bm_procs := filter (\<lambda>r. r \<noteq> rid) (bm_procs b), bm_batch := dpop rid (bm_batch b),
    bm_cancelled := c, bm_store := (bm_store b)\<lparr>so_eval := snd (tupdate (\<lambda>i _. i = rid) (row st res err) (so_eval (bm_store b)))\<rparr>\<rparr>"
    for st res err c
  have e: "eval_ok be (bm_procs b) (bm_queued b) (bm_pending b) (so_eval (bm_store b))"
    and bt: "batch_ok (set (bm_procs b) \<union> set (bm_queued b)) (bm_batch b)"
    and p: "perf_ok (bm_current b) (bm_perf_procs b) (so_perf (bm_store b))" "bm_current b \<noteq> None \<longrightarrow> bm_procs b = []"
    using ok by (auto simp: truthful_def runs_ok_def evals_ok_def)
  have "rid \<notin> set (bm_queued b)" using e rid by (auto simp: eval_ok_def)
  then have bt': "batch_ok (set (filter (\<lambda>r. r \<noteq> rid) (bm_procs b)) \<union> set (bm_queued b)) (dpop rid (bm_batch b))"
    by (intro batch_ok_dpop [OF bt]) auto
  have "runs_ok be (ended st res err c)" if "st \<noteq> Running" "st \<noteq> Queued" for st res err c
    using eval_ok_end [OF e rid, of "row st res err" st] bt' p that
    by (auto simp: runs_ok_def evals_ok_def ended_def row_def finish_row_def)
  then have ended_ok: "truthful be (snd (eval_pump be now (ended st res err c)))" if "st \<noteq> Running" "st \<noteq> Queued" for st res err c
    using pump_truthful that by (metis snd_conv)
  have out: "st \<noteq> Running" "st \<noteq> Queued" if "eval_outcome (be_fl be) rc result note = Outcome st res err" for st res err
    using that by (auto simp: eval_outcome_def split: option.splits)
  have "\<exists>st res err c. eval_exit be now fails rid rc result note b = eval_pump be now (ended st res err c) \<and>
      st \<noteq> Running \<and> st \<noteq> Queued"
  proof (cases "rid \<in> set (bm_cancelled b)")
    case True
    then have "eval_exit be now fails rid rc result note b =
        eval_pump be now (ended Cancelled None None (filter (\<lambda>r. r \<noteq> rid) (bm_cancelled b)))"
      using fails by (simp add: eval_exit_def Let_def finish_with_def finish_eval_run_def or_now_def ended_def row_def)
    then show ?thesis by blast
  next
    case False
    obtain st res err where o: "eval_outcome (be_fl be) rc result note = Outcome st res err" by (cases "eval_outcome (be_fl be) rc result note")
    have "eval_exit be now fails rid rc result note b = eval_pump be now (ended st res err (bm_cancelled b))"
      using fails False o
      by (cases b) (simp add: eval_exit_def Let_def finish_with_def finish_eval_run_def or_now_def ended_def row_def)
    then show ?thesis using out [OF o] by blast
  qed
  then show ?thesis using ended_ok by auto
qed

lemma eval_cancel_ok:
  assumes ok: "truthful be b"
  shows "truthful be (snd (eval_cancel now rid b))"
proof (cases "rid \<in> set (bm_queued b)")
  case True
  have e: "eval_ok be (bm_procs b) (bm_queued b) (bm_pending b) (so_eval (bm_store b))"
    and bt: "batch_ok (set (bm_procs b) \<union> set (bm_queued b)) (bm_batch b)"
    using ok by (auto simp: truthful_def runs_ok_def evals_ok_def)
  then have "batch_ok (set (bm_procs b) \<union> set (remove1 rid (bm_queued b))) (dpop rid (bm_batch b))"
    using True by (intro batch_ok_dpop [OF bt]) (auto simp: eval_ok_def set_remove1_eq)
  with True ok show ?thesis
    using eval_ok_drop [OF e True, of "finish_row Cancelled None None None now" Cancelled]
    by (auto simp: truthful_def runs_ok_def evals_ok_def eval_cancel_def finish_eval_run_def finish_row_def or_now_def perf_busy_def
        dest: arg_cong [where f = set] split: if_splits)
qed (use ok in \<open>auto simp: eval_cancel_def truthful_def runs_ok_def evals_ok_def perf_busy_def\<close>)

lemma set_budget_ok: "truthful be b \<Longrightarrow> truthful be (snd (set_budget be now k b))"
  unfolding set_budget_def by (drule truthful_runs) (metis pump_truthful runs_ok_budget snd_conv)

lemma perf_start_ok:
  assumes ok: "truthful be b"
  shows "truthful be (snd (perf_start be now req b))"
proof (cases "eval_busy b \<or> bm_current b \<noteq> None")
  case False
  then have c: "bm_current b = None" "bm_procs b = []" "bm_queued b = []" by (auto simp: eval_busy_def)
  show ?thesis
  proof (cases "perf_target be req")
    case (Inr x)
    obtain mf url tok where x: "x = (mf, url, tok)" by (cases x)
    have p: "perf_ok None (bm_perf_procs b) (so_perf (bm_store b))" using ok c by (simp add: truthful_def runs_ok_def evals_ok_def)
    have "\<exists>cfg. perf_build_cfg be req dir = Inr cfg" for dir by (simp add: perf_build_cfg_def Inr x)
    then obtain cfg where "perf_build_cfg be req (run_dir ''perf'' (tb_next (so_perf (bm_store b)))) = Inr cfg" by blast
    with p False ok Inr x c show ?thesis
      by (auto simp: perf_start_def perf_begin_def perf_launch_def create_perf_run_def Let_def tinsert_def [of _ "so_perf (bm_store b)"]
          truthful_def runs_ok_def evals_ok_def perf_busy_def or_now_def
          dest: perf_ok_begin [where row = "\<lparr>rn_created = now, rn_name = jopt_text (jget req ''name''),
            rn_model = jtext (jget req ''model''), rn_target = url, rn_datasets = None, rn_status = Running,
            rn_params = json_dumps (be_fl be) (JObj req), rn_result = None, rn_output = None, rn_error = None,
            rn_started = Some now, rn_finished = None\<rparr>"] simp: tinsert_def)
  qed (use ok False in \<open>auto simp: perf_start_def perf_begin_def\<close>)
qed (use ok in \<open>auto simp: perf_start_def perf_begin_def\<close>)

lemma same_cancelled [simp]: "b\<lparr>bm_perf_cancelled := bm_perf_cancelled b\<rparr> = b"
  by (cases b) simp

lemma perf_outcome_ends: "perf_outcome fl rc result = Outcome st res err \<Longrightarrow> st \<noteq> Running"
  by (auto simp: perf_outcome_def split: option.splits)

lemma perf_exit_ok:
  assumes ok: "truthful be b" and rid: "rid \<in> set (bm_perf_procs b)" and fails: "fails < 6"
  shows "truthful be (snd (perf_exit be now fails rid rc result b))"
proof -
  have p: "perf_ok (Some rid) [rid] (so_perf (bm_store b))" "bm_current b = Some rid" "bm_perf_procs b = [rid]"
    using ok rid by (auto simp: truthful_def runs_ok_def perf_ok_def split: option.splits)
  define b1 where "b1 = b\<lparr>bm_perf_procs := [], bm_current := None\<rparr>"
  then have idle: "\<not> perf_busy b1" by (simp add: perf_busy_def)
  have "evals_ok be b1" using ok by (simp add: truthful_def runs_ok_def evals_ok_def b1_def)
  then obtain b2 where b2: "eval_pump be now b1 = (None, b2)" "evals_ok be b2" "perf_part b2 = perf_part b1"
      "bm_queued b2 \<noteq> [] \<longrightarrow> bm_procs b2 \<noteq> [] \<or> perf_busy b2"
    using pump_evals by blast
  then have part: "bm_current b2 = None" "bm_perf_procs b2 = []" "so_perf (bm_store b2) = so_perf (bm_store b)"
    by (simp_all add: perf_part_def b1_def)
  define row where "row st res err = finish_row st res (Some (run_dir ''perf'' rid)) err now" for st res err
  define ended where "ended st res err c = b2\<lparr>bm_perf_cancelled := c,
    bm_store := (bm_store b2)\<lparr>so_perf := snd (tupdate (\<lambda>i _. i = rid) (row st res err) (so_perf (bm_store b2)))\<rparr>\<rparr>"
    for st res err c
  have ended_ok: "truthful be (ended st res err c)" if "st \<noteq> Running" for st res err c
    using perf_ok_end [OF p(1), of rid "row st res err"] b2 part that
    by (auto simp: truthful_def runs_ok_def evals_ok_def ended_def row_def finish_row_def perf_busy_def)
  obtain st res err where o: "perf_outcome (be_fl be) rc result = Outcome st res err" by (cases "perf_outcome (be_fl be) rc result")
  have "snd (perf_exit be now fails rid rc result b) =
      (if rid \<in> set (bm_perf_cancelled b2)
       then ended Cancelled None None (filter (\<lambda>r. r \<noteq> rid) (bm_perf_cancelled b2))
       else ended st res err (bm_perf_cancelled b2))"
    using fails p b2(1) o idle by (simp add: perf_exit_def Let_def finish_with_def finish_perf_run_def or_now_def ended_def row_def
        b1_def [symmetric])
  then show ?thesis using ended_ok perf_outcome_ends [OF o] by simp
qed

section \<open>Reachable states\<close>

text \<open>
  The backend's boot marks the orphaned rows and starts with empty managers.  A step is an API call, an adjusted budget,
  a deleted row, or the end of a runner whose final write gets through, each carried out as a whole and all under one
  configuration; the next section lets the configuration change and splits the start of a load test at its await.
\<close>

definition bench_boot :: "int \<Rightarrow> store \<Rightarrow> bench" where
  "bench_boot k s =
     \<lparr>bm_store = mark_stale_eval_runs (mark_stale_perf_runs s), bm_budget = k, bm_procs = [], bm_queued = [],
      bm_pending = [], bm_batch = [], bm_cancelled = [], bm_current = None, bm_perf_procs = [],
      bm_perf_cancelled = [], bm_runs = []\<rparr>"

inductive fixed_step :: "bench_env \<Rightarrow> bench \<Rightarrow> bench \<Rightarrow> bool" for be where
  fixed_eval: "1 \<le> batch_of req \<Longrightarrow> fixed_step be b (snd (eval_start be now req b))"
| fixed_eval_exit: "rid \<in> set (bm_procs b) \<Longrightarrow> fails < 6 \<Longrightarrow> fixed_step be b (snd (eval_exit be now fails rid rc result note b))"
| fixed_eval_cancel: "fixed_step be b (snd (eval_cancel now rid b))"
| fixed_budget: "fixed_step be b (snd (set_budget be now k b))"
| fixed_perf: "fixed_step be b (snd (perf_start be now req b))"
| fixed_perf_exit: "rid \<in> set (bm_perf_procs b) \<Longrightarrow> fails < 6 \<Longrightarrow> fixed_step be b (snd (perf_exit be now fails rid rc result b))"
| fixed_perf_cancel: "fixed_step be b (snd (perf_cancel rid b))"
| fixed_eval_delete: "fixed_step be b (b\<lparr>bm_store := snd (delete_eval_run rid (bm_store b))\<rparr>)"
| fixed_perf_delete: "fixed_step be b (b\<lparr>bm_store := snd (delete_perf_run rid (bm_store b))\<rparr>)"

inductive fixed_reach :: "bench_env \<Rightarrow> bench \<Rightarrow> bench \<Rightarrow> bool" for be b0 where
  fixed_init: "fixed_reach be b0 b0"
| fixed_next: "fixed_reach be b0 b \<Longrightarrow> fixed_step be b b' \<Longrightarrow> fixed_reach be b0 b'"

lemma stale_status: "rn_status (stale_row r) = Failed"
  by (simp add: stale_row_def)

lemma boot_truthful:
  assumes "table_ok (so_eval s)" "table_ok (so_perf s)"
  shows "truthful be (bench_boot k s)"
proof -
  let ?e = "so_eval (mark_stale_eval_runs (mark_stale_perf_runs s))"
  let ?p = "so_perf (mark_stale_eval_runs (mark_stale_perf_runs s))"
  have e: "?e = snd (tupdate (\<lambda>_ r. rn_status r = Running \<or> rn_status r = Queued) stale_row (so_eval s))"
    and p: "?p = snd (tupdate (\<lambda>_ r. rn_status r = Running) stale_row (so_perf s))"
    by (simp_all add: mark_stale_eval_runs_def mark_stale_perf_runs_def)
  have "tget i ?e = Some r \<Longrightarrow> rn_status r \<noteq> Running \<and> rn_status r \<noteq> Queued" for i r
    unfolding e tget_update by (cases "tget i (so_eval s)") (auto simp: stale_status split: if_splits)
  moreover have "tget i ?p = Some r \<Longrightarrow> rn_status r \<noteq> Running" for i r
    unfolding p tget_update by (cases "tget i (so_perf s)") (auto simp: stale_status split: if_splits)
  moreover have "table_ok ?e" "table_ok ?p"
    unfolding e p using assms by (auto intro: table_ok_update)
  ultimately show ?thesis
    by (auto simp: truthful_def runs_ok_def evals_ok_def eval_ok_def perf_ok_def batch_ok_def bench_boot_def)
qed

lemma step_truthful: "fixed_step be b b' \<Longrightarrow> truthful be b \<Longrightarrow> truthful be b'"
proof (induction rule: fixed_step.induct)
  case (fixed_eval_delete b rid)
  then show ?case
    by (auto simp: truthful_def runs_ok_def evals_ok_def delete_eval_run_def case_prod_unfold Let_def eval_ok_delete perf_busy_def)
next
  case (fixed_perf_delete b rid)
  then show ?case
    by (auto simp: truthful_def runs_ok_def evals_ok_def delete_perf_run_def case_prod_unfold Let_def perf_ok_delete perf_busy_def)
next
  case (fixed_perf_cancel b rid)
  then show ?case by (auto simp: perf_cancel_def truthful_def runs_ok_def evals_ok_def perf_busy_def)
qed (simp_all add: eval_start_ok eval_exit_ok eval_cancel_ok set_budget_ok perf_start_ok perf_exit_ok)

lemma reach_truthful: "fixed_reach be b0 b \<Longrightarrow> truthful be b0 \<Longrightarrow> truthful be b"
  by (induction rule: fixed_reach.induct) (auto intro: step_truthful)

text \<open>
  Under one configuration the rows say exactly what runs and what waits, at most one load test runs, never beside an
  evaluation, and evaluations never wait on an idle machine.
\<close>

lemma fixed_runs_truthful:
  assumes "table_ok (so_eval s)" "table_ok (so_perf s)" "fixed_reach be (bench_boot k s) b"
  shows "(\<forall>i r. get_eval_run i (bm_store b) = Some r \<longrightarrow>
            (rn_status r = Running \<longleftrightarrow> i \<in> set (bm_procs b)) \<and> (rn_status r = Queued \<longleftrightarrow> i \<in> set (bm_queued b))) \<and>
         (\<forall>i r. get_perf_run i (bm_store b) = Some r \<longrightarrow> (rn_status r = Running \<longleftrightarrow> i \<in> set (bm_perf_procs b)))"
    "length (bm_perf_procs b) \<le> 1 \<and> (bm_perf_procs b = [] \<or> bm_procs b = []) \<and>
         (bm_queued b \<noteq> [] \<longrightarrow> bm_procs b \<noteq> [] \<or> bm_perf_procs b \<noteq> [])"
  using reach_truthful [OF assms(3) boot_truthful [OF assms(1,2)]]
  by (auto simp: truthful_def runs_ok_def evals_ok_def eval_ok_def perf_ok_def get_eval_run_def get_perf_run_def perf_busy_def
      split: option.splits)

text \<open>
  The admission of waiting evaluations, from any reachable state: the queue is served strictly in order and as
  far as it goes, that is until it is empty, a load test runs, or its head does not fit the budget; no launch fails.
\<close>

theorem admission_fifo:
  assumes "table_ok (so_eval s)" "table_ok (so_perf s)" "fixed_reach be (bench_boot k s) b"
  shows "\<exists>n b'. eval_pump be now b = (None, b') \<and>
           bm_procs b' = bm_procs b @ take n (bm_queued b) \<and> bm_queued b' = drop n (bm_queued b) \<and>
           (bm_queued b' = [] \<or> perf_busy b' \<or> \<not> eval_fits (hd (bm_queued b')) b')"
proof -
  have "evals_ok be b" using reach_truthful [OF assms(3) boot_truthful [OF assms(1,2)]] by (simp add: truthful_def runs_ok_def)
  from pump_admits [OF this, of now] obtain b' xs where b': "eval_pump be now b = (None, b')"
    "bm_procs b' @ bm_queued b' = bm_procs b @ bm_queued b" "bm_procs b' = bm_procs b @ xs"
    "bm_queued b' = [] \<or> perf_busy b' \<or> \<not> eval_fits (hd (bm_queued b')) b'" by auto
  then have "bm_queued b = xs @ bm_queued b'" by simp
  then have "bm_procs b' = bm_procs b @ take (length xs) (bm_queued b)" "bm_queued b' = drop (length xs) (bm_queued b)"
    using b'(3) by simp_all
  with b' show ?thesis by blast
qed

section \<open>Changing configuration, overlapping starts\<close>

text \<open>
  The state is the managers' together with the load test starts that wait for their new row.  Every step reads the
  configuration of its moment (\<open>be\<close> is free in each rule), so a launch out of the queue may raise.
\<close>

type_synonym begun = "(int \<times> (string, jval) dict) list"

inductive bench_step :: "bench \<times> begun \<Rightarrow> bench \<times> begun \<Rightarrow> bool" where
  step_eval: "bench_step (b, w) (snd (eval_start be now req b), w)"
| step_eval_exit: "rid \<in> set (bm_procs b) \<Longrightarrow> fails < 6 \<Longrightarrow>
    bench_step (b, w) (snd (eval_exit be now fails rid rc result note b), w)"
| step_eval_cancel: "bench_step (b, w) (snd (eval_cancel now rid b), w)"
| step_budget: "bench_step (b, w) (snd (set_budget be now k b), w)"
| step_perf_refused: "perf_begin be now req b = (Inl er, b1) \<Longrightarrow> bench_step (b, w) (b1, w)"
| step_perf_begin: "perf_begin be now req b = (Inr rid, b1) \<Longrightarrow> bench_step (b, w) (b1, w @ [(rid, req)])"
| step_perf_launch: "(rid, req) \<in> set w \<Longrightarrow>
    bench_step (b, w) (snd (perf_launch be req rid b), filter (\<lambda>x. fst x \<noteq> rid) w)"
| step_perf_exit: "rid \<in> set (bm_perf_procs b) \<Longrightarrow> bench_step (b, w) (snd (perf_exit be now fails rid rc result b), w)"
| step_perf_cancel: "bench_step (b, w) (snd (perf_cancel rid b), w)"
| step_eval_delete: "bench_step (b, w) (b\<lparr>bm_store := snd (delete_eval_run rid (bm_store b))\<rparr>, w)"
| step_perf_delete: "bench_step (b, w) (b\<lparr>bm_store := snd (delete_perf_run rid (bm_store b))\<rparr>, w)"

inductive bench_reach :: "bench \<times> begun \<Rightarrow> bench \<times> begun \<Rightarrow> bool" for x0 where
  bench_init: "bench_reach x0 x0"
| bench_next: "bench_reach x0 x \<Longrightarrow> bench_step x x' \<Longrightarrow> bench_reach x0 x'"

text \<open>The run of a single backend in which no request is handled while a load test is being started.\<close>

inductive solo_reach :: "bench \<Rightarrow> bench \<Rightarrow> bool" for b0 where
  solo_init: "solo_reach b0 b0"
| solo_next: "solo_reach b0 b \<Longrightarrow> bench_step (b, []) (b', []) \<Longrightarrow> solo_reach b0 b'"
| solo_start: "solo_reach b0 b \<Longrightarrow> solo_reach b0 (snd (perf_start be now req b))"

definition honest_evals :: "int list \<Rightarrow> int list \<Rightarrow> run_row table \<Rightarrow> bool" where
  "honest_evals ps q t =
     (table_ok t \<and> distinct (ps @ q) \<and> (\<forall>i \<in> set (ps @ q). i < tb_next t) \<and>
      (\<forall>i r. tget i t = Some r \<longrightarrow> (rn_status r = Running \<longleftrightarrow> i \<in> set ps) \<and> (i \<in> set q \<longrightarrow> rn_status r = Queued)))"

definition honest_tests :: "int list \<Rightarrow> int list \<Rightarrow> run_row table \<Rightarrow> bool" where
  "honest_tests ps ws t =
     (table_ok t \<and> distinct (ps @ ws) \<and> (\<forall>i \<in> set (ps @ ws). i < tb_next t) \<and>
      (\<forall>i r. tget i t = Some r \<longrightarrow> i \<in> set (ps @ ws) \<longrightarrow> rn_status r = Running))"

definition evals_of :: "bench \<Rightarrow> bool" where
  "evals_of b = honest_evals (bm_procs b) (bm_queued b) (so_eval (bm_store b))"

definition honest :: "bench \<times> begun \<Rightarrow> bool" where
  "honest x = (case x of (b, w) \<Rightarrow> evals_of b \<and> honest_tests (bm_perf_procs b) (map fst w) (so_perf (bm_store b)))"

lemma honest_launch:
  assumes "honest_evals ps (rid # q) t" "\<And>r. rn_status (f r) = Running"
  shows "honest_evals (ps @ [rid]) q (snd (tupdate (\<lambda>i r. i = rid \<and> rn_status r = Queued) f t))"
  using assms unfolding honest_evals_def
  by (auto simp: table_ok_update tget_update) (metis run_status.distinct)+

lemma honest_enqueue:
  "honest_evals ps q t \<Longrightarrow> rn_status row = Queued \<Longrightarrow> honest_evals ps (q @ [tb_next t]) (snd (tinsert row t))"
  unfolding honest_evals_def by (auto simp: table_ok_insert tget_insert less_imp_le)

lemma honest_end:
  assumes "honest_evals ps q t" "rid \<in> set ps" "\<And>r. rn_status (f r) = st" "st \<noteq> Running"
  shows "honest_evals (filter (\<lambda>r. r \<noteq> rid) ps) q (snd (tupdate (\<lambda>i _. i = rid) f t))"
  using assms unfolding honest_evals_def by (auto simp: table_ok_update tget_update) metis+

lemma honest_drop:
  assumes "honest_evals ps q t" "rid \<in> set q" "\<And>r. rn_status (f r) = st" "st \<noteq> Running"
  shows "honest_evals ps (remove1 rid q) (snd (tupdate (\<lambda>i _. i = rid) f t))"
proof -
  have "distinct q" using assms(1) by (simp add: honest_evals_def)
  then show ?thesis
    using assms unfolding honest_evals_def by (auto simp: table_ok_update tget_update set_remove1_eq) metis+
qed

lemma honest_shorter: "honest_evals ps (rid # q) t \<Longrightarrow> honest_evals ps q t"
  by (auto simp: honest_evals_def)

lemma honest_delete: "honest_evals ps q t \<Longrightarrow> honest_evals ps q (snd (tdelete (\<lambda>j _. j = k) t))"
  unfolding honest_evals_def by (auto simp: table_ok_delete tget_delete)

lemma tests_delete: "honest_tests ps ws t \<Longrightarrow> honest_tests ps ws (snd (tdelete (\<lambda>j _. j = k) t))"
  unfolding honest_tests_def by (auto simp: table_ok_delete tget_delete)

lemma tests_begin:
  "honest_tests ps ws t \<Longrightarrow> rn_status row = Running \<Longrightarrow> honest_tests ps (ws @ [tb_next t]) (snd (tinsert row t))"
  unfolding honest_tests_def by (auto simp: table_ok_insert tget_insert less_imp_le)

lemma tests_end:
  "honest_tests ps ws t \<Longrightarrow> rid \<in> set ps \<Longrightarrow>
   honest_tests (filter (\<lambda>r. r \<noteq> rid) ps) ws (snd (tupdate (\<lambda>i _. i = rid) f t))"
  unfolding honest_tests_def by (auto simp: table_ok_update tget_update)

lemma tests_fewer: "honest_tests ps ws t \<Longrightarrow> honest_tests (filter P ps) ws t"
  unfolding honest_tests_def by auto

lemma launch_honest:
  assumes h: "evals_of b" and q: "bm_queued b = rid # rest"
  shows "evals_of (snd (eval_launch be now rid (b\<lparr>bm_queued := rest\<rparr>)))"
    "perf_part (snd (eval_launch be now rid (b\<lparr>bm_queued := rest\<rparr>))) = perf_part b"
proof -
  have e: "honest_evals (bm_procs b) (rid # rest) (so_eval (bm_store b))" using h by (simp add: evals_of_def q)
  show "evals_of (snd (eval_launch be now rid (b\<lparr>bm_queued := rest\<rparr>)))"
    using honest_shorter [OF e] honest_launch [OF e, of "\<lambda>r. r\<lparr>rn_status := Running, rn_started := Some now\<rparr>"]
    by (auto simp: evals_of_def eval_launch_def start_eval_run_def or_now_def Let_def split: option.split sum.split)
  show "perf_part (snd (eval_launch be now rid (b\<lparr>bm_queued := rest\<rparr>))) = perf_part b"
    by (auto simp: perf_part_def eval_launch_def start_eval_run_def Let_def split: option.split sum.split)
qed

lemma pump_honest:
  "evals_of b \<Longrightarrow> evals_of (snd (eval_pump be now b)) \<and> perf_part (snd (eval_pump be now b)) = perf_part b"
proof (induction be now b rule: eval_pump.induct)
  case (1 be now b)
  show ?case
  proof (cases "bm_queued b")
    case (Cons rid rest)
    obtain er b1 where l: "eval_launch be now rid (b\<lparr>bm_queued := rest\<rparr>) = (er, b1)" by (metis prod.exhaust)
    note lh = launch_honest [OF 1(2) Cons, of be now, unfolded l, simplified]
    show ?thesis
      using 1 Cons l lh by (cases er) (auto simp: eval_pump.simps [of be now b])
  qed (use 1(2) in \<open>simp add: eval_pump.simps [of be now b]\<close>)
qed

lemma pumped_honest: "honest (b, w) \<Longrightarrow> honest (snd (eval_pump be now b), w)"
  using pump_honest [of b be now] by (auto simp: honest_def perf_part_def)

lemma evals_tests_split:
  "honest (b, w) = (evals_of b \<and> honest_tests (bm_perf_procs b) (map fst w) (so_perf (bm_store b)))"
  by (simp add: honest_def)

text \<open>A start or the end of an evaluation changes rows and queue, then admits what fits.\<close>

definition admits_from :: "bench \<Rightarrow> bench_env \<Rightarrow> real \<Rightarrow> bench \<Rightarrow> bool" where
  "admits_from b be now b' =
     (\<exists>b1. evals_of b1 \<and> perf_part b1 = perf_part b \<and> set (bm_procs b1) \<subseteq> set (bm_procs b) \<and> b' = snd (eval_pump be now b1))"

lemma eval_start_admits:
  assumes "evals_of b"
  shows "snd (eval_start be now req b) = b \<or> admits_from b be now (snd (eval_start be now req b))"
proof (cases "truthy (jget req ''datasets'')")
  case True
  show ?thesis
  proof (cases "eval_resolve be req")
    case (Inr x)
    obtain mf url where x: "x = (mf, url)" by (cases x)
    define row where "row = \<lparr>rn_created = now, rn_name = jopt_text (jget req ''name''),
      rn_model = jtext (jget req ''model''), rn_target = url,
      rn_datasets = Some (json_dumps (be_fl be) (jget req ''datasets'')), rn_status = Queued,
      rn_params = json_dumps (be_fl be) (JObj req), rn_result = None, rn_output = None, rn_error = None,
      rn_started = None, rn_finished = None\<rparr>"
    define t where "t = so_eval (bm_store b)"
    define b1 where "b1 = b\<lparr>bm_store := (bm_store b)\<lparr>so_eval := snd (tinsert row t)\<rparr>,
      bm_pending := dset (tb_next t) req (bm_pending b), bm_batch := dset (tb_next t) (batch_of req) (bm_batch b),
      bm_queued := bm_queued b @ [tb_next t]\<rparr>"
    have "evals_of b1" "perf_part b1 = perf_part b" "bm_procs b1 = bm_procs b"
      using assms honest_enqueue [of "bm_procs b" "bm_queued b" t row]
      by (simp_all add: evals_of_def b1_def row_def t_def perf_part_def)
    moreover have "snd (eval_start be now req b) = snd (eval_pump be now b1)"
      using True Inr x
      by (cases "eval_pump be now b1"; cases "fst (eval_pump be now b1)")
        (auto simp: eval_start_def create_eval_run_def or_now_def b1_def row_def t_def tinsert_def)
    ultimately show ?thesis by (auto simp: admits_from_def)
  qed (use assms True in \<open>simp add: eval_start_def\<close>)
qed (use assms in \<open>simp add: eval_start_def\<close>)

lemma eval_exit_admits:
  assumes h: "evals_of b" and rid: "rid \<in> set (bm_procs b)" and fails: "fails < 6"
  shows "admits_from b be now (snd (eval_exit be now fails rid rc result note b))"
proof -
  define row where "row st res err = finish_row st res (Some (run_dir ''eval'' rid)) err now" for st res err
  define ended where "ended st res err c = b\<lparr>bm_procs := filter (\<lambda>r. r \<noteq> rid) (bm_procs b), bm_batch := dpop rid (bm_batch b),
    bm_cancelled := c, bm_store := (bm_store b)\<lparr>so_eval := snd (tupdate (\<lambda>i _. i = rid) (row st res err) (so_eval (bm_store b)))\<rparr>\<rparr>"
    for st res err c
  have ended: "evals_of (ended st res err c)" "perf_part (ended st res err c) = perf_part b"
    "set (bm_procs (ended st res err c)) \<subseteq> set (bm_procs b)" if "st \<noteq> Running" for st res err c
    using h rid that honest_end [of "bm_procs b" "bm_queued b" "so_eval (bm_store b)" rid "row st res err" st]
    by (auto simp: evals_of_def ended_def row_def finish_row_def perf_part_def)
  have "\<exists>st res err c. eval_exit be now fails rid rc result note b = eval_pump be now (ended st res err c) \<and> st \<noteq> Running"
  proof (cases "rid \<in> set (bm_cancelled b)")
    case True
    then have "eval_exit be now fails rid rc result note b =
        eval_pump be now (ended Cancelled None None (filter (\<lambda>r. r \<noteq> rid) (bm_cancelled b)))"
      using fails by (simp add: eval_exit_def Let_def finish_with_def finish_eval_run_def or_now_def ended_def row_def)
    then show ?thesis by blast
  next
    case False
    obtain st res err where o: "eval_outcome (be_fl be) rc result note = Outcome st res err" by (cases "eval_outcome (be_fl be) rc result note")
    have "eval_exit be now fails rid rc result note b = eval_pump be now (ended st res err (bm_cancelled b))"
      using fails False o
      by (cases b) (simp add: eval_exit_def Let_def finish_with_def finish_eval_run_def or_now_def ended_def row_def)
    moreover have "st \<noteq> Running" using o by (auto simp: eval_outcome_def split: option.splits)
    ultimately show ?thesis by blast
  qed
  then show ?thesis unfolding admits_from_def using ended by metis
qed

lemma admits_honest: "honest (b, w) \<Longrightarrow> admits_from b be now b' \<Longrightarrow> honest (b', w)"
  using pump_honest by (fastforce simp: admits_from_def honest_def perf_part_def)

lemma evals_steps_honest:
  assumes h: "honest (b, w)"
  shows "honest (snd (eval_start be now req b), w)"
    "rid \<in> set (bm_procs b) \<Longrightarrow> fails < 6 \<Longrightarrow> honest (snd (eval_exit be now fails rid rc result note b), w)"
proof -
  have e: "evals_of b" using h by (simp add: honest_def)
  show "honest (snd (eval_start be now req b), w)"
    using eval_start_admits [OF e, of be now req] admits_honest [OF h] h by auto
  show "rid \<in> set (bm_procs b) \<Longrightarrow> fails < 6 \<Longrightarrow> honest (snd (eval_exit be now fails rid rc result note b), w)"
    using eval_exit_admits [OF e] admits_honest [OF h] by blast
qed

lemma eval_cancel_honest:
  assumes h: "honest (b, w)"
  shows "honest (snd (eval_cancel now rid b), w)"
proof (cases "rid \<in> set (bm_queued b)")
  case True
  then show ?thesis
    using h honest_drop [of "bm_procs b" "bm_queued b" "so_eval (bm_store b)" rid "finish_row Cancelled None None None now" Cancelled]
    by (simp add: honest_def evals_of_def eval_cancel_def finish_eval_run_def finish_row_def or_now_def)
qed (use h in \<open>auto simp: eval_cancel_def honest_def evals_of_def\<close>)

lemma perf_begin_honest:
  assumes "honest (b, w)"
  shows "perf_begin be now req b = (Inl er, b1) \<Longrightarrow> honest (b1, w)"
    "perf_begin be now req b = (Inr rid, b1) \<Longrightarrow> honest (b1, w @ [(rid, req)])"
  using assms
  by (auto simp: perf_begin_def create_perf_run_def honest_def evals_of_def tinsert_def Let_def or_now_def
      split: if_splits sum.splits prod.splits
      dest: tests_begin [where row = "\<lparr>rn_created = now, rn_name = jopt_text (jget req ''name''),
            rn_model = jtext (jget req ''model''), rn_target = url, rn_datasets = None, rn_status = Running,
            rn_params = json_dumps (be_fl be) (JObj req), rn_result = None, rn_output = None, rn_error = None,
            rn_started = Some now, rn_finished = None\<rparr>" for url])

lemma perf_launch_honest:
  assumes h: "honest (b, w)" and w: "(rid, req) \<in> set w"
  shows "honest (snd (perf_launch be req rid b), filter (\<lambda>x. fst x \<noteq> rid) w)"
proof -
  have t: "honest_tests (bm_perf_procs b) (map fst w) (so_perf (bm_store b))" using h by (simp add: honest_def)
  have ws: "map fst (filter (\<lambda>x. fst x \<noteq> rid) w) = filter (\<lambda>r. r \<noteq> rid) (map fst w)"
    by (simp add: filter_map comp_def)
  have m: "rid \<in> set (map fst w)" using w by force
  have "honest_tests (bm_perf_procs b @ [rid]) (filter (\<lambda>r. r \<noteq> rid) (map fst w)) (so_perf (bm_store b))"
    "honest_tests (bm_perf_procs b) (filter (\<lambda>r. r \<noteq> rid) (map fst w)) (so_perf (bm_store b))"
    using t m unfolding honest_tests_def by auto
  then show ?thesis
    using h by (auto simp: perf_launch_def honest_def evals_of_def ws split: sum.split)
qed

text \<open>The managers once the runner of a load test is gone and the waiting evaluations have been admitted.\<close>

definition after_test :: "bench_env \<Rightarrow> real \<Rightarrow> int \<Rightarrow> bench \<Rightarrow> bench" where
  "after_test be now rid b =
     (let b1 = b\<lparr>bm_perf_procs := filter (\<lambda>r. r \<noteq> rid) (bm_perf_procs b),
                 bm_current := (if bm_current b = Some rid then None else bm_current b)\<rparr>
      in if perf_busy b1 then b1 else snd (eval_pump be now b1))"

lemma perf_exit_shape:
  shows "evals_of (snd (perf_exit be now fails rid rc result b)) = evals_of (after_test be now rid b)"
    "bm_perf_procs (snd (perf_exit be now fails rid rc result b)) = bm_perf_procs (after_test be now rid b)"
    "bm_current (snd (perf_exit be now fails rid rc result b)) = bm_current (after_test be now rid b)"
    "bm_procs (snd (perf_exit be now fails rid rc result b)) = bm_procs (after_test be now rid b)"
    "so_perf (bm_store (snd (perf_exit be now fails rid rc result b))) = so_perf (bm_store (after_test be now rid b)) \<or>
      (\<exists>f. so_perf (bm_store (snd (perf_exit be now fails rid rc result b))) =
        snd (tupdate (\<lambda>i _. i = rid) f (so_perf (bm_store (after_test be now rid b)))))"
proof -
  define b1 where "b1 = b\<lparr>bm_perf_procs := filter (\<lambda>r. r \<noteq> rid) (bm_perf_procs b),
                 bm_current := (if bm_current b = Some rid then None else bm_current b)\<rparr>"
  obtain er b2 where p: "(if perf_busy b1 then (None, b1) else eval_pump be now b1) = (er, b2)" by (metis prod.exhaust)
  have b2: "after_test be now rid b = b2" using p by (auto simp: after_test_def Let_def b1_def split: if_splits)
  obtain st res err where o: "perf_outcome (be_fl be) rc result = Outcome st res err" by (cases "perf_outcome (be_fl be) rc result")
  let ?x = "snd (perf_exit be now fails rid rc result b)"
  have x: "?x = (case er of Some _ \<Rightarrow> b2 | None \<Rightarrow>
      (if rid \<in> set (bm_perf_cancelled b2)
       then b2\<lparr>bm_perf_cancelled := filter (\<lambda>r. r \<noteq> rid) (bm_perf_cancelled b2),
               bm_store := finish_with fails (finish_perf_run now rid Cancelled None (Some (run_dir ''perf'' rid)) None None) (bm_store b2)\<rparr>
       else b2\<lparr>bm_store := finish_with fails (finish_perf_run now rid st res (Some (run_dir ''perf'' rid)) err None) (bm_store b2)\<rparr>))"
    using p by (auto simp: perf_exit_def Let_def b1_def [symmetric] o split: option.split)
  have st: "so_eval (finish_with fails (finish_perf_run now rid s r d e ts) z) = so_eval z"
    "so_perf (finish_with fails (finish_perf_run now rid s r d e ts) z) = so_perf z \<or>
      (\<exists>f. so_perf (finish_with fails (finish_perf_run now rid s r d e ts) z) = snd (tupdate (\<lambda>i _. i = rid) f (so_perf z)))"
    for s r d e ts z
    by (auto simp: finish_with_def finish_perf_run_def)
  show "evals_of ?x = evals_of (after_test be now rid b)" "bm_perf_procs ?x = bm_perf_procs (after_test be now rid b)"
    "bm_current ?x = bm_current (after_test be now rid b)" "bm_procs ?x = bm_procs (after_test be now rid b)"
    "so_perf (bm_store ?x) = so_perf (bm_store (after_test be now rid b)) \<or>
      (\<exists>f. so_perf (bm_store ?x) = snd (tupdate (\<lambda>i _. i = rid) f (so_perf (bm_store (after_test be now rid b)))))"
    unfolding b2 x using st by (auto simp: evals_of_def split: option.split)
qed

lemma perf_exit_honest:
  assumes h: "honest (b, w)" and rid: "rid \<in> set (bm_perf_procs b)"
  shows "honest (snd (perf_exit be now fails rid rc result b), w)"
proof -
  define b1 where "b1 = b\<lparr>bm_perf_procs := filter (\<lambda>r. r \<noteq> rid) (bm_perf_procs b),
                 bm_current := (if bm_current b = Some rid then None else bm_current b)\<rparr>"
  have t: "honest_tests (bm_perf_procs b) (map fst w) (so_perf (bm_store b))" using h by (simp add: honest_def)
  have h1: "honest (b1, w)" using h tests_fewer [OF t] by (simp add: b1_def honest_def evals_of_def)
  define b2 where "b2 = after_test be now rid b"
  have b2: "b2 = (if perf_busy b1 then b1 else snd (eval_pump be now b1))" by (simp add: b2_def after_test_def b1_def Let_def)
  have same: "perf_part b2 = perf_part b1" and e2: "evals_of b2"
    using b2 pump_honest [of b1 be now] h1 by (auto simp: honest_def split: if_splits)
  have p2: "bm_perf_procs b2 = filter (\<lambda>r. r \<noteq> rid) (bm_perf_procs b)" "so_perf (bm_store b2) = so_perf (bm_store b)"
    using same by (simp_all add: perf_part_def b1_def)
  have "honest_tests (filter (\<lambda>r. r \<noteq> rid) (bm_perf_procs b)) (map fst w) (so_perf (bm_store (snd (perf_exit be now fails rid rc result b))))"
    using perf_exit_shape(5) [of be now fails rid rc result b] tests_fewer [OF t, of "\<lambda>r. r \<noteq> rid"] tests_end [OF t rid]
    by (auto simp: b2_def [symmetric] p2)
  then show ?thesis
    using e2 by (simp add: honest_def perf_exit_shape(1,2) b2_def [symmetric] p2)
qed

lemma bench_step_honest: "bench_step x x' \<Longrightarrow> honest x \<Longrightarrow> honest x'"
proof (induction rule: bench_step.induct)
  case (step_budget b w be now k)
  then have "honest (b\<lparr>bm_budget := k\<rparr>, w)" by (simp add: honest_def evals_of_def)
  then show ?case by (simp add: set_budget_def pumped_honest)
next
  case (step_perf_cancel b w rid)
  then show ?case by (auto simp: perf_cancel_def honest_def evals_of_def)
next
  case (step_eval_delete b w rid)
  then show ?case by (simp add: honest_def evals_of_def delete_eval_run_def case_prod_unfold Let_def honest_delete)
next
  case (step_perf_delete b w rid)
  then show ?case by (simp add: honest_def evals_of_def delete_perf_run_def case_prod_unfold Let_def tests_delete)
qed (auto intro: evals_steps_honest eval_cancel_honest perf_begin_honest perf_launch_honest perf_exit_honest)

lemma boot_honest:
  assumes "table_ok (so_eval s)" "table_ok (so_perf s)"
  shows "honest (bench_boot k s, [])"
  using boot_truthful [OF assms, where k = k]
  by (auto simp: truthful_def runs_ok_def evals_ok_def eval_ok_def perf_ok_def honest_def evals_of_def honest_evals_def
      honest_tests_def bench_boot_def)

lemma bench_reach_honest: "bench_reach x0 x \<Longrightarrow> honest x0 \<Longrightarrow> honest x"
  by (induction rule: bench_reach.induct) (auto intro: bench_step_honest)

text \<open>
  C39: After a boot, whatever is started, cancelled, deleted or ends on a backend that has the database to itself, however
  the configuration changes in between and however the starts of load tests overlap with other requests: an evaluation row
  says running exactly while its runner lives, the row of a waiting evaluation says queued, and the row of a load test whose
  runner lives says running.  (Not the other way round: a run that is lost from the queue, \<open>queued_run_lost\<close>, stays queued.)
\<close>

theorem runs_truthful:
  assumes "table_ok (so_eval s)" "table_ok (so_perf s)" "bench_reach (bench_boot k s, []) (b, w)"
  shows "(\<forall>i r. get_eval_run i (bm_store b) = Some r \<longrightarrow>
            (rn_status r = Running \<longleftrightarrow> i \<in> set (bm_procs b)) \<and> (i \<in> set (bm_queued b) \<longrightarrow> rn_status r = Queued)) \<and>
         (\<forall>i r. get_perf_run i (bm_store b) = Some r \<longrightarrow> i \<in> set (bm_perf_procs b) \<longrightarrow> rn_status r = Running)"
  using bench_reach_honest [OF assms(3) boot_honest [OF assms(1,2)]]
  by (auto simp: honest_def evals_of_def honest_evals_def honest_tests_def get_eval_run_def get_perf_run_def)

text \<open>One load test, alone.\<close>

definition alone :: "bench \<Rightarrow> bool" where
  "alone b = (bm_perf_procs b = (case bm_current b of None \<Rightarrow> [] | Some i \<Rightarrow> [i]) \<and> (bm_current b \<noteq> None \<longrightarrow> bm_procs b = []))"

lemma pump_alone:
  assumes "evals_of b" "alone b"
  shows "alone (snd (eval_pump be now b))"
proof (cases "perf_busy b")
  case True
  then have "snd (eval_pump be now b) = b" by (simp add: eval_pump.simps [of be now b] split: list.split)
  then show ?thesis using assms by simp
next
  case False
  then show ?thesis
    using assms pump_honest [of b be now] by (auto simp: alone_def perf_busy_def perf_part_def)
qed

lemma admits_alone:
  assumes "alone b" "admits_from b be now b'"
  shows "alone b'"
proof -
  obtain b1 where b1: "evals_of b1" "perf_part b1 = perf_part b" "set (bm_procs b1) \<subseteq> set (bm_procs b)" "b' = snd (eval_pump be now b1)"
    using assms(2) by (auto simp: admits_from_def)
  then have "alone b1" using assms(1) by (auto simp: alone_def perf_part_def)
  then show ?thesis using pump_alone [OF b1(1)] b1(4) by simp
qed

lemma perf_exit_alone:
  assumes h: "honest (b, w)" and a: "alone b" and rid: "rid \<in> set (bm_perf_procs b)"
  shows "alone (snd (perf_exit be now fails rid rc result b))"
proof -
  have c: "bm_current b = Some rid" "bm_perf_procs b = [rid]" "bm_procs b = []"
    using a rid by (auto simp: alone_def split: option.splits)
  define b1 where "b1 = b\<lparr>bm_perf_procs := [], bm_current := None\<rparr>"
  have "after_test be now rid b = snd (eval_pump be now b1)"
    by (simp add: after_test_def c b1_def perf_busy_def Let_def)
  moreover have "evals_of b1" "alone b1" using h by (simp_all add: b1_def honest_def evals_of_def alone_def)
  ultimately have "alone (after_test be now rid b)" by (simp add: pump_alone)
  then show ?thesis by (simp add: alone_def perf_exit_shape)
qed

lemma bench_step_alone: "bench_step x x' \<Longrightarrow> snd x = [] \<Longrightarrow> snd x' = [] \<Longrightarrow> honest x \<Longrightarrow> alone (fst x) \<Longrightarrow> alone (fst x')"
proof (induction rule: bench_step.induct)
  case (step_eval b w be now req)
  then have "evals_of b" by (simp add: honest_def)
  from eval_start_admits [OF this, of be now req] show ?case using step_eval admits_alone by auto
next
  case (step_eval_exit rid b fails w be now rc result nt)
  then have "evals_of b" by (simp add: honest_def)
  then show ?case using admits_alone [OF _ eval_exit_admits [OF _ step_eval_exit(1,2)]] step_eval_exit(6) by simp
next
  case (step_eval_cancel b w now rid)
  then show ?case by (auto simp: eval_cancel_def alone_def)
next
  case (step_budget b w be now k)
  then have "evals_of (b\<lparr>bm_budget := k\<rparr>)" "alone (b\<lparr>bm_budget := k\<rparr>)" by (simp_all add: honest_def evals_of_def alone_def)
  then show ?case by (simp add: set_budget_def pump_alone)
next
  case (step_perf_refused be now req b er b1 w)
  then show ?case by (auto simp: perf_begin_def split: if_splits sum.splits prod.splits)
next
  case (step_perf_exit rid b w be now fails rc result)
  then show ?case using perf_exit_alone by auto
next
  case (step_perf_cancel b w rid)
  then show ?case by (auto simp: perf_cancel_def alone_def)
qed (auto simp: alone_def)

lemma perf_start_steps:
  assumes h: "honest (b, [])" and a: "alone b"
  shows "honest (snd (perf_start be now req b), []) \<and> alone (snd (perf_start be now req b))"
proof (cases "perf_begin be now req b")
  case (Pair r b1)
  show ?thesis
  proof (cases r)
    case (Inl er)
    then have "b1 = b" using Pair by (auto simp: perf_begin_def split: if_splits sum.splits prod.splits)
    then show ?thesis using h a Pair Inl by (simp add: perf_start_def)
  next
    case (Inr rid)
    then have b1: "perf_begin be now req b = (Inr rid, b1)" using Pair by simp
    have s: "snd (perf_start be now req b) = snd (perf_launch be req rid b1)"
      by (simp add: perf_start_def b1 split: prod.split option.split)
    have "honest (b1, [(rid, req)])" using perf_begin_honest(2) [OF h b1] by simp
    from perf_launch_honest [OF this, of rid req be] have "honest (snd (perf_launch be req rid b1), [])" by simp
    moreover have "bm_current b1 = None" "bm_perf_procs b1 = []" "bm_procs b1 = []"
      using b1 a by (auto simp: perf_begin_def eval_busy_def alone_def split: if_splits sum.splits prod.splits)
    ultimately show ?thesis
      unfolding s by (auto simp: perf_launch_def alone_def split: sum.split)
  qed
qed

lemma solo_honest: "solo_reach b0 b \<Longrightarrow> honest (b0, []) \<Longrightarrow> alone b0 \<Longrightarrow> honest (b, []) \<and> alone b"
proof (induction rule: solo_reach.induct)
  case (solo_next b b')
  then show ?case using bench_step_honest [OF solo_next(2)] bench_step_alone [OF solo_next(2)] by simp
next
  case (solo_start b be now req)
  then show ?case using perf_start_steps by blast
qed simp

text \<open>
  C40: As long as no other request is handled while a load test is being started (\<open>load_tests_race\<close> shows what can happen
  otherwise), and however the configuration changes: on one backend at most one load test runs, never beside an evaluation.
\<close>

theorem gpu_exclusive:
  assumes "table_ok (so_eval s)" "table_ok (so_perf s)" "solo_reach (bench_boot k s) b"
  shows "length (bm_perf_procs b) \<le> 1 \<and> (bm_perf_procs b = [] \<or> bm_procs b = [])"
proof -
  have "alone (bench_boot k s)" by (simp add: alone_def bench_boot_def)
  then have "alone b" using solo_honest [OF assms(3) boot_honest [OF assms(1,2)]] by simp
  then show ?thesis by (auto simp: alone_def split: option.splits)
qed

section \<open>Where the guarantees stop\<close>

text \<open>
  Two load tests that both pass the busy check before either has its process run side by side: the check and the
  assignment of the current run are separated by the await of the new row.
\<close>

lemma load_tests_race:
  assumes idle: "\<not> eval_busy b" "bm_current b = None" "bm_perf_procs b = []" and t: "table_ok (so_perf (bm_store b))"
    and r1: "perf_target be r1 = Inr x1" and r2: "perf_target be r2 = Inr x2"
  shows "\<exists>i j b1 b2 b3 b4. perf_begin be now r1 b = (Inr i, b1) \<and> perf_begin be now r2 b1 = (Inr j, b2) \<and>
    perf_launch be r1 i b2 = (None, b3) \<and> perf_launch be r2 j b3 = (None, b4) \<and> i \<noteq> j \<and> bm_perf_procs b4 = [i, j]"
proof -
  obtain m1 u1 k1 m2 u2 k2 where x: "x1 = (m1, u1, k1)" "x2 = (m2, u2, k2)" by (cases x1, cases x2)
  show ?thesis
    using assms x
    by (simp add: perf_begin_def perf_launch_def perf_build_cfg_def create_perf_run_def Let_def tinsert_def eval_busy_def)
qed

text \<open>
  A waiting evaluation whose group leaves the configuration before its turn is lost: the launch raises after the run has
  left the queue, its row keeps saying queued, and it can no longer be cancelled; the runs behind it wait on.
\<close>

lemma queued_run_lost:
  assumes q: "bm_queued b = rid # rest" "\<not> perf_busy b" "eval_fits rid b" "map_of (bm_pending b) rid = Some req"
    and fresh: "rid \<notin> set rest" "rid \<notin> set (bm_procs b)"
    and gone: "eval_resolve be req = Inl er"
  shows "\<exists>b1. eval_pump be now b = (Some er, b1) \<and> bm_queued b1 = rest \<and> bm_procs b1 = bm_procs b \<and>
    get_eval_run rid (bm_store b1) = get_eval_run rid (bm_store b) \<and> eval_cancel now rid b1 = (False, b1)"
proof -
  have "eval_build_cfg be req dir = Inl er" for dir by (simp add: eval_build_cfg_def gone)
  then have "eval_pump be now b = (Some er, b\<lparr>bm_queued := rest, bm_pending := dpop rid (bm_pending b)\<rparr>)"
    using q by (simp add: eval_pump.simps [of be now b] eval_launch_def)
  then show ?thesis using fresh by (simp add: eval_cancel_def get_eval_run_def)
qed

text \<open>
  A second backend that boots on the shared database marks the rows of the first one's live runners as interrupted.
\<close>

lemma boot_marks_live_runs:
  assumes "get_eval_run i s = Some r" "rn_status r = Running"
  shows "\<exists>r'. get_eval_run i (bm_store (bench_boot k s)) = Some r' \<and> rn_status r' = Failed"
  using assms
  by (simp add: get_eval_run_def bench_boot_def mark_stale_eval_runs_def mark_stale_perf_runs_def tget_update stale_row_def)

section \<open>Witnesses\<close>

definition bench_demo :: bench_env where
  "bench_demo = \<lparr>be_config = pin_root, be_router = ''http://r'', be_token = [], be_fl = \<lambda>_. ''0.0''\<rparr>"

definition eval_req :: "(string, jval) dict" where
  "eval_req = [(''model'', JStr ''q''), (''datasets'', JList [JStr ''gsm8k'']), (''eval_batch_size'', JInt 8)]"

definition two_evals :: bench where
  "two_evals = snd (eval_start bench_demo 2 eval_req (snd (eval_start bench_demo 1 eval_req (bench_boot 8 init_store))))"

lemma init_tables: "table_ok (so_eval init_store)" "table_ok (so_perf init_store)"
  by (simp_all add: init_store_def)

lemma eval_req_resolves: "eval_resolve bench_demo eval_req = Inr (''q'', ''http://r/v1'')"
  by code_simp

lemma eval_req_cfg: "\<exists>cfg. eval_build_cfg bench_demo eval_req dir = Inr cfg"
  using build_cfg_resolved [OF eval_req_resolves] .

lemma eval_req_fields: "truthy (jget eval_req ''datasets'')" "batch_of eval_req = 8"
  by code_simp+

lemma two_evals_reach: "fixed_reach bench_demo (bench_boot 8 init_store) two_evals"
proof -
  have "fixed_step bench_demo b (snd (eval_start bench_demo now eval_req b))" for now b
    by (rule fixed_eval) (simp add: eval_req_fields)
  then show ?thesis unfolding two_evals_def by (blast intro: fixed_next fixed_init)
qed

lemma two_evals_facts: "bm_procs two_evals = [1]" "bm_queued two_evals = [2]" "bm_budget two_evals = 8" "bm_perf_procs two_evals = []"
  "get_eval_run 2 (bm_store two_evals) \<noteq> None"
proof -
  obtain cfg where cfg: "eval_build_cfg bench_demo eval_req (run_dir ''eval'' 1) = Inr cfg" using eval_req_cfg by blast
  have "bm_procs two_evals = [1] \<and> bm_queued two_evals = [2] \<and> bm_budget two_evals = 8 \<and> bm_perf_procs two_evals = [] \<and> get_eval_run 2 (bm_store two_evals) \<noteq> None"
    using cfg
    by (simp add: two_evals_def eval_start_def eval_req_resolves eval_req_fields create_eval_run_def tinsert_def Let_def
        bench_boot_def init_store_def empty_table_def mark_stale_eval_runs_def mark_stale_perf_runs_def tupdate_def
        eval_pump.simps eval_launch_def eval_fits_def used_budget_def perf_busy_def start_eval_run_def dget_def get_eval_run_def tget_def)
  then show "bm_procs two_evals = [1]" "bm_queued two_evals = [2]" "bm_budget two_evals = 8" "bm_perf_procs two_evals = []"
    "get_eval_run 2 (bm_store two_evals) \<noteq> None" by auto
qed

lemma two_evals_any: "bench_reach (bench_boot 8 init_store, []) (two_evals, [])" "solo_reach (bench_boot 8 init_store) two_evals"
  unfolding two_evals_def by (blast intro: bench_next bench_init step_eval) (blast intro: solo_next solo_init step_eval)

lemma runs_truthful_witness: "rn_status (the (get_eval_run 2 (bm_store two_evals))) = Queued"
  using runs_truthful [OF init_tables two_evals_any(1)] two_evals_facts by (auto simp del: not_None_eq)

lemma gpu_exclusive_witness: "bm_procs two_evals = [1] \<and> bm_perf_procs two_evals = []"
  using gpu_exclusive [OF init_tables two_evals_any(2)] by (simp add: two_evals_facts)

lemma admission_fifo_witness:
  "\<exists>n b'. eval_pump bench_demo 3 two_evals = (None, b') \<and> bm_procs b' = 1 # take n [2]"
  using admission_fifo [OF init_tables two_evals_reach, of 3] by (auto simp: two_evals_facts)

end
