(* ===== verification/Control_Auth.thy ===== *)
theory Control_Auth
  imports Ops_Store Launchers
begin

text \<open>
  apps/backend/app/core/auth.py, core/oidc.py, api/sso.py and the pure part of core/audit.py: who a
  request comes from, what role that gives, and what of its body may be written to the audit log.
  \<open>ctl_env\<close> holds the settings and the libraries: sha256, JSON parsing, and signing and verifying a
  JWT (\<open>None\<close>: bad signature or expired).
\<close>

section \<open>Roles\<close>

datatype role = VIEWER | OPERATOR | ADMIN

fun role_rank :: "role \<Rightarrow> nat" where
  "role_rank VIEWER = 0"
| "role_rank OPERATOR = 1"
| "role_rank ADMIN = 2"

lemma rank_inject: "role_rank a = role_rank b \<longleftrightarrow> a = b"
  by (cases a; cases b) simp_all

instantiation role :: linorder
begin

definition less_eq_role :: "role \<Rightarrow> role \<Rightarrow> bool" where
  "less_eq_role a b = (role_rank a \<le> role_rank b)"

definition less_role :: "role \<Rightarrow> role \<Rightarrow> bool" where
  "less_role a b = (role_rank a < role_rank b)"

instance
  by standard (auto simp: less_eq_role_def less_role_def rank_inject)

end

fun role_text :: "role \<Rightarrow> string" where
  "role_text VIEWER = ''viewer''"
| "role_text OPERATOR = ''operator''"
| "role_text ADMIN = ''admin''"

text \<open>\<open>Role(text)\<close>; \<open>None\<close> is the \<open>ValueError\<close>.\<close>

definition role_of :: "string \<Rightarrow> role option" where
  "role_of s = List.find (\<lambda>r. role_text r = s) [VIEWER, OPERATOR, ADMIN]"

lemma role_of_text [simp]: "role_of (role_text r) = Some r"
  by (cases r) (simp_all add: role_of_def)

lemma role_text_nonempty [simp]: "role_text r \<noteq> []"
  by (cases r) simp_all

section \<open>Settings\<close>

record ctl_settings =
  cs_admin_token :: string
  cs_oidc_issuer :: string
  cs_oidc_client :: string
  cs_oidc_secret :: string
  cs_redirect_url :: string
  cs_groups_claim :: string
  cs_admin_emails :: "string list"
  cs_admin_groups :: "string list"
  cs_operator_groups :: "string list"
  cs_viewer_groups :: "string list"
  cs_default_role :: string
  cs_session_secret :: string
  cs_session_ttl :: int
  cs_random_secret :: string
  cs_currency :: string

definition auth_enabled :: "ctl_settings \<Rightarrow> bool" where
  "auth_enabled c = (cs_admin_token c \<noteq> [])"

definition sso_enabled :: "ctl_settings \<Rightarrow> bool" where
  "sso_enabled c = (cs_oidc_issuer c \<noteq> [] \<and> cs_oidc_client c \<noteq> [] \<and> cs_oidc_secret c \<noteq> [])"

definition signing_secret :: "ctl_settings \<Rightarrow> string" where
  "signing_secret c =
     (if cs_session_secret c \<noteq> [] then cs_session_secret c
      else if cs_admin_token c \<noteq> [] then ''sess:'' @ cs_admin_token c
      else cs_random_secret c)"

record ctl_env =
  ce_set :: ctl_settings
  ce_hash :: "string \<Rightarrow> string"
  ce_encode :: "(string, jval) dict \<Rightarrow> string \<Rightarrow> string"
  ce_decode :: "real \<Rightarrow> string \<Rightarrow> string \<Rightarrow> (string, jval) dict option"
  ce_loads :: "string \<Rightarrow> jval option"
  ce_fl :: "real \<Rightarrow> string"

section \<open>Tokens\<close>

definition KEY_PREFIX :: string where "KEY_PREFIX = ''sk-llmops-''"

definition OPERATOR_PREFIX :: string where "OPERATOR_PREFIX = ''sk-op-''"

text \<open>The plaintext from the drawn randomness, its hash, and the prefix that is displayed.\<close>

definition display_of :: "string \<Rightarrow> string \<Rightarrow> string" where
  "display_of prefix plaintext =
     take (length prefix + 4) plaintext @ [CHR 0xE2, CHR 0x80, CHR 0xA6] @ drop (length plaintext - 4) plaintext"

definition generate_api_key :: "ctl_env \<Rightarrow> string \<Rightarrow> string \<times> string \<times> string" where
  "generate_api_key ce rnd =
     (let plaintext = KEY_PREFIX @ rnd in (plaintext, ce_hash ce plaintext, display_of KEY_PREFIX plaintext))"

definition generate_operator_token :: "ctl_env \<Rightarrow> string \<Rightarrow> string \<times> string \<times> string" where
  "generate_operator_token ce rnd =
     (let plaintext = OPERATOR_PREFIX @ rnd in (plaintext, ce_hash ce plaintext, display_of OPERATOR_PREFIX plaintext))"

definition extract_token :: "string option \<Rightarrow> string option \<Rightarrow> string option" where
  "extract_token authorization x_admin_token =
     (let a = (case authorization of None \<Rightarrow> [] | Some s \<Rightarrow> s); x = (case x_admin_token of None \<Rightarrow> [] | Some s \<Rightarrow> s) in
      if a \<noteq> [] \<and> starts_with ''bearer '' (str_lower a) then Some (str_strip (drop 7 a))
      else if x \<noteq> [] then Some (str_strip x)
      else None)"

section \<open>Single sign-on\<close>

definition map_role :: "ctl_settings \<Rightarrow> string option \<Rightarrow> string list \<Rightarrow> role option" where
  "map_role c email groups =
     (let e = (case email of None \<Rightarrow> [] | Some s \<Rightarrow> s); has = (\<lambda>gs. set groups \<inter> set gs \<noteq> {});
          default = str_lower (str_strip (cs_default_role c)) in
      if e \<noteq> [] \<and> str_lower e \<in> str_lower ` set (cs_admin_emails c) then Some ADMIN
      else if has (cs_admin_groups c) then Some ADMIN
      else if has (cs_operator_groups c) then Some OPERATOR
      else if has (cs_viewer_groups c) then Some VIEWER
      else role_of default)"

text \<open>The claims of a session, from those of the identity token.\<close>

definition make_session :: "ctl_env \<Rightarrow> real \<Rightarrow> (string, jval) dict \<Rightarrow> string" where
  "make_session ce now claims =
     ce_encode ce
       [(''sub'', jget claims ''sub''), (''email'', jget claims ''email''),
        (''name'', jor (jget claims ''name'') (jor (jget claims ''email'') (jget claims ''sub''))),
        (''role'', jget claims ''role''), (''iat'', JInt \<lfloor>now\<rfloor>),
        (''exp'', JInt (\<lfloor>now\<rfloor> + cs_session_ttl (ce_set ce)))]
       (signing_secret (ce_set ce))"

definition read_session :: "ctl_env \<Rightarrow> real \<Rightarrow> string option \<Rightarrow> (string, jval) dict option" where
  "read_session ce now token =
     (case token of
        None \<Rightarrow> None
      | Some t \<Rightarrow> if t = [] then None else ce_decode ce now t (signing_secret (ce_set ce)))"

definition make_tx :: "ctl_env \<Rightarrow> real \<Rightarrow> (string, jval) dict \<Rightarrow> string" where
  "make_tx ce now d = ce_encode ce (dset ''exp'' (JInt (\<lfloor>now\<rfloor> + 300)) d) (signing_secret (ce_set ce))"

definition read_tx :: "ctl_env \<Rightarrow> real \<Rightarrow> string option \<Rightarrow> (string, jval) dict option" where
  "read_tx ce now token = read_session ce now token"

definition safe_next :: "string option \<Rightarrow> string" where
  "safe_next target =
     (case target of
        None \<Rightarrow> ''/''
      | Some t \<Rightarrow> if starts_with ''/'' t \<and> \<not> starts_with ''//'' t then t else ''/'')"

text \<open>\<open>raw.replace(",", " ").split()\<close> of a text, or the list as it is.\<close>

fun split_words :: "string \<Rightarrow> string \<Rightarrow> string list" where
  "split_words w [] = (if w = [] then [] else [rev w])"
| "split_words w (c # s) =
     (if is_space c \<or> c = CHR '','' then (if w = [] then split_words [] s else rev w # split_words [] s)
      else split_words (c # w) s)"

fun norm_groups :: "(real \<Rightarrow> string) \<Rightarrow> jval \<Rightarrow> string list" where
  "norm_groups fl (JStr s) = split_words [] s"
| "norm_groups fl (JList gs) = map (py_str fl) gs"
| "norm_groups fl _ = []"

text \<open>The login redirect's parameters and the transaction cookie; \<open>challenge\<close> is the PKCE digest of the verifier.\<close>

definition sso_login ::
  "ctl_env \<Rightarrow> real \<Rightarrow> bool \<Rightarrow> (string \<Rightarrow> string) \<Rightarrow> string \<Rightarrow> string \<Rightarrow> string \<Rightarrow> string \<Rightarrow> string option \<Rightarrow>
   http_exc + ((string \<times> string) list \<times> string)" where
  "sso_login ce now discovered challenge state nonce verifier redirect next_url =
     (if \<not> sso_enabled (ce_set ce) then Inl (mk_exc 404 ''SSO is not configured'')
      else if \<not> discovered then Inl (mk_exc 502 ''OIDC provider unreachable'')
      else Inr
        ([(''response_type'', ''code''), (''client_id'', cs_oidc_client (ce_set ce)), (''redirect_uri'', redirect),
          (''state'', state), (''nonce'', nonce), (''code_challenge'', challenge verifier),
          (''code_challenge_method'', ''S256'')],
         make_tx ce now [(''state'', JStr state), (''nonce'', JStr nonce), (''verifier'', JStr verifier),
           (''next'', JStr (safe_next next_url)), (''redirect'', JStr redirect)]))"

text \<open>
  The callback: its query, the transaction cookie, and what the provider gives for a code and its verifier, the claims
  of an identity token that verifies (\<open>None\<close>: exchange or verification fails).  The result is the session cookie and
  where to go.
\<close>

record sso_query =
  sq_error :: "string option"
  sq_state :: "string option"
  sq_code :: "string option"

definition given :: "string option \<Rightarrow> bool" where
  "given x = (x \<noteq> None \<and> x \<noteq> Some [])"

definition sso_callback ::
  "ctl_env \<Rightarrow> real \<Rightarrow> (string \<Rightarrow> jval \<Rightarrow> jval \<Rightarrow> (string, jval) dict option) \<Rightarrow> sso_query \<Rightarrow> string option \<Rightarrow>
   http_exc + (string \<times> string)" where
  "sso_callback ce now exchange q tx_cookie =
     (if \<not> sso_enabled (ce_set ce) then Inl (mk_exc 404 ''SSO is not configured'')
      else if given (sq_error q) then Inl (mk_exc 400 ''SSO error'')
      else case read_tx ce now tx_cookie of
        None \<Rightarrow> Inl (mk_exc 400 ''missing or expired login transaction'')
      | Some tx \<Rightarrow>
          if tx = [] then Inl (mk_exc 400 ''missing or expired login transaction'')
          else if \<not> given (sq_state q) then Inl (mk_exc 400 ''state mismatch'')
          else if \<not> dhas tx ''state'' then Inl (mk_exc 500 ''KeyError'')
          else if JStr (the (sq_state q)) \<noteq> jget tx ''state'' then Inl (mk_exc 400 ''state mismatch'')
          else if \<not> given (sq_code q) then Inl (mk_exc 400 ''missing authorization code'')
          else case exchange (the (sq_code q)) (jget tx ''verifier'') (jget tx ''redirect'') of
            None \<Rightarrow> Inl (mk_exc 401 ''SSO token exchange/verification failed'')
          | Some claims \<Rightarrow>
              if jget tx ''nonce'' \<noteq> JNull \<and> jget claims ''nonce'' \<noteq> jget tx ''nonce''
              then Inl (mk_exc 401 ''SSO token exchange/verification failed'')
              else case map_role (ce_set ce) (jopt_text (jget claims ''email''))
                          (norm_groups (ce_fl ce) (jget claims (cs_groups_claim (ce_set ce)))) of
                None \<Rightarrow> Inl (mk_exc 403 ''no role for this account'')
              | Some r \<Rightarrow>
                  Inr (make_session ce now [(''sub'', jget claims ''sub''), (''email'', jget claims ''email''),
                         (''name'', jget claims ''name''), (''role'', JStr (role_text r))],
                       safe_next (jopt_text (jget tx ''next''))))"

section \<open>Who is asking\<close>

record web_request =
  wr_auth :: "string option"
  wr_xadmin :: "string option"
  wr_cookie :: "string option"
  wr_body :: string
  wr_type :: "string option"
  wr_ip :: "string option"

text \<open>A valid session of a known role; anything else falls through to the tokens.\<close>

definition session_identity :: "ctl_env \<Rightarrow> real \<Rightarrow> web_request \<Rightarrow> (string option \<times> role) option" where
  "session_identity ce now rq =
     (if \<not> sso_enabled (ce_set ce) then None
      else case read_session ce now (wr_cookie rq) of
        None \<Rightarrow> None
      | Some sess \<Rightarrow>
          if \<not> truthy (jget sess ''role'') then None
          else if \<not> truthy (jget sess ''email'') \<and> \<not> truthy (jget sess ''name'') \<and> \<not> dhas sess ''sub'' then None
          else map_option (Pair (jopt_text (jor (jget sess ''email'') (jor (jget sess ''name'') (jget sess ''sub'')))))
                 (role_of (jtext (jget sess ''role''))))"

definition open_mode :: "ctl_env \<Rightarrow> store option \<Rightarrow> bool" where
  "open_mode ce st =
     (\<not> auth_enabled (ce_set ce) \<and> \<not> sso_enabled (ce_set ce) \<and>
      (case st of None \<Rightarrow> 0 | Some s \<Rightarrow> count_active_operators s) = 0)"

definition operator_of :: "ctl_env \<Rightarrow> string \<Rightarrow> store option \<Rightarrow> (int \<times> operator_row) option" where
  "operator_of ce token st = (case st of None \<Rightarrow> None | Some s \<Rightarrow> get_active_operator_by_hash s (ce_hash ce token))"

definition operator_role :: "operator_row \<Rightarrow> role" where
  "operator_role r = (case role_of (op_role r) of None \<Rightarrow> VIEWER | Some x \<Rightarrow> x)"

definition resolve_actor ::
  "ctl_env \<Rightarrow> real \<Rightarrow> web_request \<Rightarrow> store option \<Rightarrow> (string option \<times> role option) \<times> store option" where
  "resolve_actor ce now rq st =
     (if open_mode ce st then ((Some ''local-dev'', Some ADMIN), st)
      else case session_identity ce now rq of
        Some (actor, r) \<Rightarrow> ((actor, Some r), st)
      | None \<Rightarrow>
          (let token = (case extract_token (wr_auth rq) (wr_xadmin rq) of None \<Rightarrow> [] | Some t \<Rightarrow> t) in
           case (if token = [] then None else operator_of ce token st) of
             Some (oid, r) \<Rightarrow> ((Some (op_label r), Some (operator_role r)), map_option (touch_operator now oid None) st)
           | None \<Rightarrow>
               if token \<noteq> [] \<and> cs_admin_token (ce_set ce) \<noteq> [] \<and> token = cs_admin_token (ce_set ce)
               then ((Some ''admin'', Some ADMIN), st)
               else ((None, None), st)))"

text \<open>\<open>require_role\<close>: its verdict, and the actor and role it leaves for the middlewares.\<close>

definition require_role ::
  "ctl_env \<Rightarrow> real \<Rightarrow> role \<Rightarrow> web_request \<Rightarrow> store option \<Rightarrow>
   (http_exc + unit) \<times> (string option \<times> role option) \<times> store option" where
  "require_role ce now min_role rq st =
     (case resolve_actor ce now rq st of
        ((actor, None), st1) \<Rightarrow> (Inl (mk_exc 401 ''authentication required''), (None, None), st1)
      | ((actor, Some r), st1) \<Rightarrow>
          (if r < min_role then Inl (mk_exc 403 ''insufficient role'') else Inr (), (actor, Some r), st1))"

section \<open>What the audit log may keep of a body\<close>

definition secret_hints :: "string list" where
  "secret_hints = [''token'', ''password'', ''secret'', ''authorization'', ''api_key'', ''apikey'', ''plaintext'']"

fun contains :: "string \<Rightarrow> string \<Rightarrow> bool" where
  "contains h [] = (h = [])"
| "contains h (c # s) = (starts_with h (c # s) \<or> contains h s)"

definition hinted :: "string \<Rightarrow> bool" where
  "hinted k = (\<exists>h \<in> set secret_hints. contains h (str_lower k))"

definition redacted :: jval where
  "redacted = JStr ''***redacted***''"

fun redact :: "jval \<Rightarrow> jval" where
  "redact (JObj d) = JObj (map (\<lambda>(k, v). (k, if hinted k then redacted else redact v)) d)"
| "redact (JList xs) = JList (map redact xs)"
| "redact v = v"

text \<open>\<open>json.dumps(v, ensure_ascii=False, separators=(",", ":"))\<close>\<close>

fun json_compact :: "(real \<Rightarrow> string) \<Rightarrow> jval \<Rightarrow> string" where
  "json_compact fl JNull = ''null''"
| "json_compact fl (JBool b) = (if b then ''true'' else ''false'')"
| "json_compact fl (JInt i) = show_int i"
| "json_compact fl (JFloat r) = fl r"
| "json_compact fl (JStr s) = json_string s"
| "json_compact fl (JList xs) = ''['' @ join_with '','' (map (json_compact fl) xs) @ '']''"
| "json_compact fl (JObj d) =
     ''{'' @ join_with '','' (map (\<lambda>(k, v). json_string k @ '':'' @ json_compact fl v) d) @ ''}''"

definition redact_body :: "ctl_env \<Rightarrow> string \<Rightarrow> string option \<Rightarrow> string option" where
  "redact_body ce raw content_type =
     (case content_type of
        None \<Rightarrow> None
      | Some ct \<Rightarrow>
          if raw = [] \<or> \<not> contains ''application/json'' ct then None
          else if length raw > 4096 then
            Some (json_dumps (ce_fl ce) (JObj [(''_note'', JStr ''body too large to audit''), (''bytes'', JInt (int (length raw)))]))
          else map_option (\<lambda>v. take 2000 (json_compact (ce_fl ce) (redact v))) (ce_loads ce raw))"

text \<open>\<open>path.split("/")\<close> and the segment after the resource noun.\<close>

fun path_split :: "string \<Rightarrow> string list" where
  "path_split [] = [[]]"
| "path_split (c # s) = (if c = CHR ''/'' then [] # path_split s
                         else case path_split s of w # ws \<Rightarrow> (c # w) # ws | [] \<Rightarrow> [[c]])"

definition extract_target :: "string \<Rightarrow> string option" where
  "extract_target path =
     (let segments = path_split path in
      if length segments > 3 \<and> segments ! 1 = ''api'' \<and> segments ! 3 \<noteq> [] then Some (segments ! 3) else None)"

section \<open>Guards are sound\<close>

definition entitled :: "ctl_env \<Rightarrow> real \<Rightarrow> web_request \<Rightarrow> store option \<Rightarrow> role \<Rightarrow> bool" where
  "entitled ce now rq st m =
     (open_mode ce st \<or>
      (\<exists>a r. session_identity ce now rq = Some (a, r) \<and> m \<le> r) \<or>
      (\<exists>t. extract_token (wr_auth rq) (wr_xadmin rq) = Some t \<and> t \<noteq> [] \<and>
         ((\<exists>i r. operator_of ce t st = Some (i, r) \<and> m \<le> operator_role r) \<or>
          (t = cs_admin_token (ce_set ce)))))"

lemma guard_entitled:
  assumes "fst (require_role ce now m rq st) = Inr ()"
  shows "entitled ce now rq st m"
proof -
  obtain a r st1 where "resolve_actor ce now rq st = ((a, Some r), st1)" and "m \<le> r"
    using assms by (auto simp: require_role_def not_less split: prod.splits option.splits if_splits)
  then show ?thesis
    by (auto simp: resolve_actor_def entitled_def Let_def split: if_splits option.splits prod.splits)
qed

lemma require_role_cases:
  obtains (pass) who where "require_role ce now m rq st = (Inr (), who)"
  | (deny) c w who where "require_role ce now m rq st = (Inl (mk_exc c w), who)" "c = 401 \<or> c = 403"
proof -
  obtain a r st1 where "resolve_actor ce now rq st = ((a, r), st1)" by (metis prod.exhaust)
  then show thesis
    using that by (cases r) (auto simp: require_role_def not_less intro: leI, metis not_le)
qed

text \<open>Touching an operator changes its last use only.\<close>

definition forget_use :: "store \<Rightarrow> store" where
  "forget_use s = s\<lparr>so_operators := snd (tupdate (\<lambda>_ _. True) (op_last_used_update (\<lambda>_. None)) (so_operators s))\<rparr>"

lemma forget_touch [simp]: "forget_use (touch_operator now i ts s) = forget_use s"
  by (simp add: forget_use_def touch_operator_def tupdate_def case_prod_unfold o_def if_distrib cong: map_cong)

lemma guard_store: "map_option forget_use (snd (snd (require_role ce now m rq st))) = map_option forget_use st"
  by (auto simp: require_role_def resolve_actor_def Let_def option.map_comp o_def split: prod.splits option.splits if_splits)

section \<open>Sessions\<close>

text \<open>
  C38: What a login yields is what later requests are seen as: from its issue until it expires, the session of a
  callback that succeeds gives the account's mapped role.  What is used of PyJWT is that a token it signed verifies
  under the same key from its iat on and before its exp, when its subject is a text, as the subject of an identity
  token is.
\<close>

theorem session_roundtrip:
  assumes jwt: "\<And>d x y n t. session = ce_encode ce d (signing_secret (ce_set ce)) \<Longrightarrow> jget d ''exp'' = JInt x \<Longrightarrow>
        jget d ''iat'' = JInt y \<Longrightarrow> jget d ''sub'' = JStr n \<Longrightarrow> of_int y \<le> t \<Longrightarrow> t < of_int x \<Longrightarrow>
        ce_decode ce t session (signing_secret (ce_set ce)) = Some d"
    and subject: "\<And>v u claims. exchange (the (sq_code q)) v u = Some claims \<Longrightarrow> \<exists>n. jget claims ''sub'' = JStr n"
    and nonempty: "session \<noteq> []"
    and login: "sso_callback ce now exchange q tx = Inr (session, target)"
    and cookie: "wr_cookie rq = Some session" and issued: "of_int \<lfloor>now\<rfloor> \<le> t" and fresh: "t < of_int (\<lfloor>now\<rfloor> + cs_session_ttl (ce_set ce))"
  shows "\<exists>claims r actor. (\<exists>v u. exchange (the (sq_code q)) v u = Some claims) \<and>
           map_role (ce_set ce) (jopt_text (jget claims ''email''))
             (norm_groups (ce_fl ce) (jget claims (cs_groups_claim (ce_set ce)))) = Some r \<and>
           resolve_actor ce t rq st = ((actor, Some r), st) \<and> safe_next (Some target) = target"
proof -
  have sso: "sso_enabled (ce_set ce)" using login by (auto simp: sso_callback_def split: if_splits)
  from login obtain claims r nxt v u where x: "exchange (the (sq_code q)) v u = Some claims" and role: "map_role (ce_set ce) (jopt_text (jget claims ''email''))
      (norm_groups (ce_fl ce) (jget claims (cs_groups_claim (ce_set ce)))) = Some r"
    and session: "session = make_session ce now [(''sub'', jget claims ''sub''), (''email'', jget claims ''email''),
      (''name'', jget claims ''name''), (''role'', JStr (role_text r))]" and target: "target = safe_next nxt"
    by (auto simp: sso_callback_def split: if_splits option.splits)
  define sess where "sess = [(''sub'', jget claims ''sub''), (''email'', jget claims ''email''),
      (''name'', jor (jget claims ''name'') (jor (jget claims ''email'') (jget claims ''sub''))),
      (''role'', JStr (role_text r)), (''iat'', JInt \<lfloor>now\<rfloor>), (''exp'', JInt (\<lfloor>now\<rfloor> + cs_session_ttl (ce_set ce)))]"
  have "session = ce_encode ce sess (signing_secret (ce_set ce))"
    by (simp add: session make_session_def sess_def jget_def dget_def)
  moreover have "jget sess ''exp'' = JInt (\<lfloor>now\<rfloor> + cs_session_ttl (ce_set ce))"
    by (simp add: sess_def jget_def dget_def)
  moreover have "jget sess ''iat'' = JInt \<lfloor>now\<rfloor>"
    by (simp add: sess_def jget_def dget_def)
  moreover obtain n where "jget sess ''sub'' = JStr n"
    using subject [OF x] by (auto simp: sess_def jget_def dget_def)
  ultimately have "read_session ce t (wr_cookie rq) = Some sess"
    using jwt issued fresh cookie nonempty by (simp add: read_session_def)
  then have "session_identity ce t rq =
      Some (jopt_text (jor (jget sess ''email'') (jor (jget sess ''name'') (jget sess ''sub''))), r)"
    using sso by (simp add: session_identity_def sess_def jget_def dget_def dhas_def)
  then have "resolve_actor ce t rq st =
      ((jopt_text (jor (jget sess ''email'') (jor (jget sess ''name'') (jget sess ''sub''))), Some r), st)"
    using sso by (simp add: resolve_actor_def open_mode_def)
  moreover have "safe_next (Some target) = target"
    by (auto simp: target safe_next_def starts_with_def split: option.splits)
  ultimately show ?thesis using x role by blast
qed

section \<open>Redaction\<close>

text \<open>Bodies that differ only under secret-looking names.\<close>

fun same_public :: "jval \<Rightarrow> jval \<Rightarrow> bool" where
  "same_public (JObj d) (JObj d') =
     list_all2 (\<lambda>(k, v) (k', v'). k = k' \<and> (hinted k \<or> same_public v v')) d d'"
| "same_public (JList xs) (JList ys) = list_all2 same_public xs ys"
| "same_public v w = (v = w)"

lemma all2_map_eq: "list_all2 (\<lambda>x y. f x = f y) xs ys \<Longrightarrow> map f xs = map f ys"
  by (induction rule: list_all2_induct) simp_all

lemma redact_same: "same_public v w \<Longrightarrow> redact v = redact w"
proof (induction v w rule: same_public.induct)
  case (1 d d')
  let ?f = "\<lambda>(k, v). (k, if hinted k then redacted else redact v)"
  have "list_all2 (\<lambda>p q. ?f p = ?f q) d d'"
    by (rule list.rel_mono_strong [OF 1(2) [simplified]]) (use 1(1) in auto)
  then show ?case by (simp add: all2_map_eq)
next
  case (2 xs ys)
  have "list_all2 (\<lambda>x y. redact x = redact y) xs ys"
    by (rule list.rel_mono_strong [OF 2(2) [simplified]]) (use 2(1) in auto)
  then show ?case by (simp add: all2_map_eq)
qed simp_all

text \<open>No value under a secret-looking name survives.\<close>

fun masked :: "jval \<Rightarrow> bool" where
  "masked (JObj d) = (\<forall>(k, v) \<in> set d. if hinted k then v = redacted else masked v)"
| "masked (JList xs) = (\<forall>x \<in> set xs. masked x)"
| "masked v = True"

lemma redact_masked: "masked (redact v)"
  by (induction v) auto

text \<open>
  Secrets in a body never reach the audit log: two JSON bodies that differ only in the values under secret-looking
  names, at any depth, leave the same detail.
\<close>

theorem redact_body_hides:
  assumes "ce_loads ce a = Some v" "ce_loads ce b = Some w" "same_public v w"
    and "a \<noteq> []" "b \<noteq> []" "length a \<le> 4096" "length b \<le> 4096"
  shows "redact_body ce a ct = redact_body ce b ct"
  using assms by (auto simp: redact_body_def redact_same split: option.split)

text \<open>What the list of names misses: the URL of an alert sink, which carries the webhook's secret.\<close>

lemma sink_url_kept:
  "redact (JObj [(''type'', JStr ''slack''), (''url'', JStr u)]) = JObj [(''type'', JStr ''slack''), (''url'', JStr u)]"
proof -
  have "\<not> hinted ''type''" "\<not> hinted ''url''" by code_simp+
  then show ?thesis by simp
qed

text \<open>A target that browsers read as another host passes as a local path.\<close>

lemma backslash_is_local: "safe_next (Some [CHR ''/'', CHR 0x5C, CHR ''x'']) = [CHR ''/'', CHR 0x5C, CHR ''x'']"
  by (simp add: safe_next_def starts_with_def)

text \<open>Under a nested resource the target is the resource's name, not the id.\<close>

lemma nested_target: "extract_target ''/api/alerts/sinks/3'' = Some ''sinks''"
  by code_simp

section \<open>Witnesses\<close>

definition sso_settings :: ctl_settings where
  "sso_settings = \<lparr>cs_admin_token = [], cs_oidc_issuer = ''i'', cs_oidc_client = ''c'', cs_oidc_secret = ''s'',
     cs_redirect_url = [], cs_groups_claim = ''groups'', cs_admin_emails = [], cs_admin_groups = [],
     cs_operator_groups = [''ops''], cs_viewer_groups = [], cs_default_role = [], cs_session_secret = ''k'',
     cs_session_ttl = 100, cs_random_secret = ''r'', cs_currency = ''USD''\<rparr>"

definition ann_claims :: "(string, jval) dict" where
  "ann_claims = [(''sub'', JStr ''1''), (''email'', JStr ''ann''), (''groups'', JStr ''dev,ops''), (''nonce'', JStr ''n'')]"

definition ann_session :: "(string, jval) dict" where
  "ann_session = [(''sub'', JStr ''1''), (''email'', JStr ''ann''), (''name'', JStr ''ann''), (''role'', JStr ''operator''),
     (''iat'', JInt 10), (''exp'', JInt 110)]"

definition sso_tx :: "(string, jval) dict" where
  "sso_tx = [(''state'', JStr ''st''), (''nonce'', JStr ''n''), (''verifier'', JStr ''v''), (''next'', JStr ''/m'')]"

definition sso_env :: ctl_env where
  "sso_env = \<lparr>ce_set = sso_settings, ce_hash = (\<lambda>t. t),
     ce_encode = (\<lambda>d k. if d = ann_session then ''session'' else ''other''),
     ce_decode = (\<lambda>t tok k. if tok = ''session'' \<and> 10 \<le> t \<and> t < 110 then Some ann_session else if tok = ''tx'' then Some sso_tx else None),
     ce_loads = (\<lambda>s. None), ce_fl = (\<lambda>_. ''0.0'')\<rparr>"

definition ann_query :: sso_query where
  "ann_query = \<lparr>sq_error = None, sq_state = Some ''st'', sq_code = Some ''c''\<rparr>"

definition ann_request :: web_request where
  "ann_request = \<lparr>wr_auth = None, wr_xadmin = None, wr_cookie = Some ''session'', wr_body = [], wr_type = None, wr_ip = None\<rparr>"

lemma ann_login: "sso_callback sso_env 10 (\<lambda>_ _ _. Some ann_claims) ann_query (Some ''tx'') = Inr (''session'', ''/m'')"
proof -
  have "sso_enabled sso_settings" "norm_groups (\<lambda>_. ''0.0'') (JStr ''dev,ops'') = [''dev'', ''ops'']" by code_simp+
  moreover have "map_role sso_settings (Some ''ann'') [''dev'', ''ops''] = Some OPERATOR" by code_simp
  ultimately show ?thesis
    by (simp add: sso_callback_def sso_env_def ann_query_def given_def read_tx_def read_session_def sso_tx_def jget_def
        dget_def dhas_def ann_claims_def make_session_def ann_session_def sso_settings_def jor_def safe_next_def starts_with_def)
qed

lemma session_roundtrip_witness:
  "\<exists>actor. resolve_actor sso_env 50 ann_request None = ((actor, Some OPERATOR), None)"
proof -
  note login = session_roundtrip [where ce = sso_env and now = 10 and exchange = "\<lambda>_ _ _. Some ann_claims" and q = ann_query
      and tx = "Some ''tx''" and session = "''session''" and target = "''/m''" and rq = ann_request and t = 50 and st = None]
  have verifies: "ce_decode sso_env t ''session'' k = Some d"
    if "''session'' = ce_encode sso_env d k" "jget d ''exp'' = JInt x" "jget d ''iat'' = JInt y" "of_int y \<le> t" "t < of_int x"
    for d t k x y
    using that by (auto simp: sso_env_def ann_session_def jget_def dget_def split: if_splits)
  have subject: "\<exists>n. jget c ''sub'' = JStr n" if "Some ann_claims = Some c" for c
    using that by (auto simp: ann_claims_def jget_def dget_def)
  have "\<exists>claims r actor. (\<exists>v u. Some ann_claims = Some claims) \<and>
      map_role (ce_set sso_env) (jopt_text (jget claims ''email''))
        (norm_groups (ce_fl sso_env) (jget claims (cs_groups_claim (ce_set sso_env)))) = Some r \<and>
      resolve_actor sso_env 50 ann_request None = ((actor, Some r), None) \<and> safe_next (Some ''/m'') = ''/m''"
    using login [OF verifies subject _ ann_login] by (simp add: sso_env_def ann_request_def sso_settings_def)
  moreover have "map_role sso_settings (Some ''ann'') (norm_groups (\<lambda>_. ''0.0'') (JStr ''dev,ops'')) = Some OPERATOR" by code_simp
  ultimately show ?thesis
    by (auto simp: sso_env_def ann_claims_def jget_def dget_def sso_settings_def)
qed

lemma redact_body_hides_witness:
  "let ce = sso_env\<lparr>ce_loads := (\<lambda>s. Some (JObj [(''api_key'', JStr s)]))\<rparr>
   in redact_body ce ''a'' (Some ''application/json'') = redact_body ce ''b'' (Some ''application/json'')"
proof -
  have "hinted ''api_key''" by code_simp
  then show ?thesis by (auto simp: Let_def intro!: redact_body_hides)
qed

end
