(* ===== verification/Reconciler.thy ===== *)
theory Reconciler
  imports Model_Manager
begin

text \<open>
  apps/backend/app/llmops/reconciler.py: one pass derives every instance's state from the liveness of
  its process and its health probe, writes the owned state back to the store, restarts what crashed
  within its budget and drives owned instances to their wished state.  What a pass observes (probe
  answers, log sizes and tails) and whether the actions it takes succeed is an \<open>observation\<close>.  A
  captured transition is a record; the gathered coroutines run one after the other under the
  registry lock, in registry order.
\<close>

section \<open>One instance\<close>

record transition =
  tr_key :: string
  tr_kind :: model_kind
  tr_from :: model_state
  tr_to :: model_state
  tr_detail :: "string option"

record observation =
  ob_ready :: "string \<Rightarrow> bool"
  ob_log_size :: "string \<Rightarrow> int option"
  ob_tail :: "string \<Rightarrow> string"
  ob_spawn_ok :: "string \<Rightarrow> bool"
  ob_call_ok :: "string \<Rightarrow> bool"
  ob_answers :: "string \<Rightarrow> drain_answer list"

definition live_states :: "model_state set" where
  "live_states = {STARTING, READY, STOPPING}"

definition maybe_schedule_restart :: "settings \<Rightarrow> real \<Rightarrow> minst \<Rightarrow> minst" where
  "maybe_schedule_restart se now i =
     (if mi_desired i = RUNNING \<and> mi_managed i \<and> se_auto_restart se \<and> mi_restarts i < se_max_restarts se
      then i\<lparr>mi_next_restart := Some (now + se_backoff_base se * 2 ^ mi_restarts i)\<rparr> else i)"

definition log_size :: "observation \<Rightarrow> minst \<Rightarrow> int" where
  "log_size ob i =
     (case mi_log i of
        None \<Rightarrow> mi_log_size i
      | Some f \<Rightarrow> if f = [] then mi_log_size i
                  else (case ob_log_size ob (mi_key i) of None \<Rightarrow> mi_log_size i | Some k \<Rightarrow> k))"

definition exit_detail :: "observation \<Rightarrow> minst \<Rightarrow> int \<Rightarrow> string" where
  "exit_detail ob i rc =
     (let tail = (case mi_log i of None \<Rightarrow> [] | Some f \<Rightarrow> if f = [] then [] else ob_tail ob (mi_key i))
      in ''process exited (rc='' @ show_int rc @ '')'' @ (if tail = [] then [] else CHR 0x0A # tail))"

definition transition_of :: "minst \<Rightarrow> model_state \<Rightarrow> model_state \<Rightarrow> string option \<Rightarrow> transition" where
  "transition_of i a b d = \<lparr>tr_key = mi_key i, tr_kind = mi_kind i, tr_from = a, tr_to = b, tr_detail = d\<rparr>"

text \<open>\<open>poll\<close> is the poll of the instance's process.\<close>

definition check_process_exit ::
  "observation \<Rightarrow> real \<Rightarrow> (nat \<Rightarrow> int option) \<Rightarrow> minst \<Rightarrow> transition option \<times> minst" where
  "check_process_exit ob now pl i =
     (case mi_proc i of
        None \<Rightarrow> (None, i)
      | Some pid \<Rightarrow>
          if \<not> mi_managed i then (None, i)
          else (case pl pid of
                  None \<Rightarrow> (None, i)
                | Some rc \<Rightarrow>
                    if mi_state i = STOPPING
                    then (Some (transition_of i STOPPING STOPPED None),
                          (set_state now STOPPED i)\<lparr>mi_proc := None, mi_pid := None\<rparr>)
                    else (let d = exit_detail ob i rc
                          in (Some (transition_of i (mi_state i) FAILED (Some d)),
                              (set_state now FAILED (i\<lparr>mi_error := Some d, mi_was_failed := True\<rparr>))
                                \<lparr>mi_proc := None, mi_pid := None\<rparr>))))"

definition or_else :: "real option \<Rightarrow> real option \<Rightarrow> real \<Rightarrow> real" where
  "or_else a b c =
     (case a of Some t \<Rightarrow> if t = 0 then (case b of Some u \<Rightarrow> if u = 0 then c else u | None \<Rightarrow> c) else t
      | None \<Rightarrow> (case b of Some u \<Rightarrow> if u = 0 then c else u | None \<Rightarrow> c))"

definition timeout_text :: "settings \<Rightarrow> string" where
  "timeout_text se =
     ''startup timeout: no log progress for '' @ show_int (round_half_even (se_start_timeout se)) @
     ''s and /health never returned 200''"

text \<open>The probe of a STARTING instance; the pid of a hung process to be killed is returned too.\<close>

definition probe_starting ::
  "observation \<Rightarrow> settings \<Rightarrow> real \<Rightarrow> minst \<Rightarrow> transition option \<times> nat option \<times> minst" where
  "probe_starting ob se now i =
     (if ob_ready ob (mi_key i) then
        (Some (transition_of i STARTING READY None), None,
         set_state now READY (i\<lparr>mi_error := None, mi_restarts := 0, mi_next_restart := None\<rparr>))
      else
        let size = log_size ob i;
            i1 = (if size > mi_log_size i then i\<lparr>mi_log_size := size, mi_progress := Some now\<rparr> else i);
            idle_since = or_else (mi_progress i1) (mi_started i1) now
        in if now - idle_since > se_start_timeout se then
             (Some (transition_of i STARTING FAILED (Some (timeout_text se))), mi_proc i1,
              maybe_schedule_restart se now
                (set_state now FAILED (i1\<lparr>mi_error := Some (timeout_text se), mi_was_failed := True,
                                         mi_proc := None, mi_pid := None\<rparr>)))
           else (None, None, i1))"

definition probe_text :: string where
  "probe_text = ''health probe failing while process alive''"

definition reconcile_instance ::
  "observation \<Rightarrow> settings \<Rightarrow> real \<Rightarrow> (nat \<Rightarrow> int option) \<Rightarrow> minst \<Rightarrow> transition option \<times> nat option \<times> minst" where
  "reconcile_instance ob se now pl i =
     (case check_process_exit ob now pl i of
        (Some t, i1) \<Rightarrow> (Some t, None, if tr_to t = FAILED then maybe_schedule_restart se now i1 else i1)
      | (None, i1) \<Rightarrow>
          if mi_state i1 \<notin> live_states then (None, None, i1)
          else if mi_state i1 = STARTING then probe_starting ob se now i1
          else if mi_state i1 = READY \<and> \<not> ob_ready ob (mi_key i1)
          then (None, None, touch now (i1\<lparr>mi_error := Some probe_text\<rparr>))
          else (None, None, i1))"

section \<open>The pass\<close>

text \<open>One instance of the registry: its new record, and its hung process ended.\<close>

definition reconcile_key ::
  "observation \<Rightarrow> settings \<Rightarrow> real \<Rightarrow> string \<Rightarrow> transition list \<times> node \<Rightarrow> transition list \<times> node" where
  "reconcile_key ob se now key acc =
     (case acc of (ts, n) \<Rightarrow>
        (case reg_get (nd_reg n) key of
           None \<Rightarrow> (ts, n)
         | Some i \<Rightarrow>
             (case reconcile_instance ob se now (poll n) i of
                (t, kill, j) \<Rightarrow>
                  (ts @ (case t of None \<Rightarrow> [] | Some x \<Rightarrow> [x]),
                   (case kill of None \<Rightarrow> id | Some p \<Rightarrow> terminate_process_group p)
                     (on_inst key (\<lambda>_. j) n)))))"

definition gather :: "observation \<Rightarrow> settings \<Rightarrow> real \<Rightarrow> node \<Rightarrow> transition list \<times> node" where
  "gather ob se now n = fold (reconcile_key ob se now) (dkeys (nd_reg n)) ([], n)"

definition persist_transitions :: "settings \<Rightarrow> real \<Rightarrow> transition list \<Rightarrow> node \<Rightarrow> node" where
  "persist_transitions se now ts n =
     fold (\<lambda>t. emit_transition se now (tr_key t) (Some (tr_from t)) (tr_to t) (tr_detail t)) ts n"

definition restart_due :: "settings \<Rightarrow> real \<Rightarrow> string list \<Rightarrow> minst \<Rightarrow> bool" where
  "restart_due se now foreign i =
     (mi_state i = FAILED \<and> mi_desired i = RUNNING \<and> mi_managed i \<and> mi_key i \<notin> set foreign \<and>
      (case mi_next_restart i of None \<Rightarrow> False | Some t \<Rightarrow> t \<le> now) \<and> mi_restarts i < se_max_restarts se)"

definition claim_restart :: "minst \<Rightarrow> minst" where
  "claim_restart i = i\<lparr>mi_next_restart := None, mi_restarts := mi_restarts i + 1\<rparr>"

definition process_restarts :: "env \<Rightarrow> observation \<Rightarrow> real \<Rightarrow> string list \<Rightarrow> node \<Rightarrow> node" where
  "process_restarts e ob now foreign n =
     (let due = map mi_key (filter (restart_due (en_set e) now foreign) (reg_values (nd_reg n)));
          n1 = fold (\<lambda>k. on_inst k claim_restart) due n
      in fold (\<lambda>k m. snd (start e now False False (ob_spawn_ok ob k) k m)) due n1)"

definition backfill_instance :: "env \<Rightarrow> real \<Rightarrow> minst \<Rightarrow> store \<Rightarrow> store" where
  "backfill_instance e now i s =
     (let se = en_set e;
          nid = (if se_instance_id se = [] then None else Some (se_instance_id se));
          s1 = (if mi_state i = READY then
                  upsert_instance_live now (mi_key i) (key_group (mi_key i)) (key_instance (mi_key i))
                    (if se_node_host se = [] then mi_host i else se_node_host se) (mi_port i)
                    (se_live_ttl se) nid (Some (state_value (mi_state i))) None s
                else s)
      in upsert_instance_observed now (mi_key i) nid (Some (state_value (mi_state i)))
           (en_dump_view e (observed_dict i)) (se_live_ttl se) None s1)"

definition backfill_node_state :: "env \<Rightarrow> real \<Rightarrow> transition list \<Rightarrow> string list \<Rightarrow> node \<Rightarrow> node" where
  "backfill_node_state e now ts foreign n =
     on_store (\<lambda>s.
        let s1 = fold (\<lambda>t. if tr_from t = READY \<and> tr_to t \<noteq> READY then remove_instance_live (tr_key t) else id) ts s;
            s2 = fold (\<lambda>i. if mi_key i \<in> set foreign then id else backfill_instance e now i) (reg_values (nd_reg n)) s1
        in snd (prune_instance_observed now None (snd (prune_instances_live now None s2)))) n"

definition converge_key ::
  "env \<Rightarrow> observation \<Rightarrow> real \<Rightarrow> string list \<Rightarrow> (string, model_state) dict \<Rightarrow> string \<times> string \<Rightarrow> node \<Rightarrow> node" where
  "converge_key e ob now foreign states kw n =
     (case kw of (key, want) \<Rightarrow>
        if key \<in> set foreign then n
        else (case map_of states key of
                None \<Rightarrow> n
              | Some st \<Rightarrow>
                  if want = desired_value RUNNING \<and> st = STOPPED
                  then snd (start e now False True (ob_spawn_ok ob key) key n)
                  else if want = desired_value D_STOPPED \<and> (st = READY \<or> st = STARTING \<or> st = SLEEPING)
                  then snd (stop e now (ob_answers ob key) key n)
                  else if want = desired_value ASLEEP \<and> st = READY
                  then snd (sleep e now (ob_call_ok ob key) key n)
                  else if want = desired_value RUNNING \<and> st = SLEEPING
                  then snd (wake e now (ob_call_ok ob key) key n)
                  else n))"

definition converge_desired :: "env \<Rightarrow> observation \<Rightarrow> real \<Rightarrow> string list \<Rightarrow> node \<Rightarrow> node" where
  "converge_desired e ob now foreign n =
     (case nd_store n of
        None \<Rightarrow> n
      | Some s \<Rightarrow>
          (let states = map (\<lambda>(k, i). (mi_key i, mi_state i)) (nd_reg n)
           in fold (converge_key e ob now foreign states) (list_instance_desired s) n))"

definition reconcile_once :: "env \<Rightarrow> observation \<Rightarrow> real \<Rightarrow> node \<Rightarrow> node" where
  "reconcile_once e ob now n =
     (let (ts, n1) = gather ob (en_set e) now n;
          n2 = persist_transitions (en_set e) now ts n1;
          foreign = foreign_assignments e now n2;
          n3 = backfill_node_state e now ts foreign n2;
          n4 = (if \<exists>t \<in> set ts. tr_to t = READY \<and> tr_kind t = LLM then trigger_router_reload e n3 else n3);
          n5 = (if se_auto_restart (en_set e) then process_restarts e ob now foreign n4 else n4)
      in converge_desired e ob now foreign n5)"

text \<open>At boot, what already answers its probe is adopted.\<close>

definition adopt_key ::
  "observation \<Rightarrow> real \<Rightarrow> string \<Rightarrow> transition list \<times> node \<Rightarrow> transition list \<times> node" where
  "adopt_key ob now key acc =
     (case acc of (ts, n) \<Rightarrow>
        (case reg_get (nd_reg n) key of
           None \<Rightarrow> (ts, n)
         | Some i \<Rightarrow>
             if ob_ready ob key then
               (ts @ [transition_of i (mi_state i) READY (Some ''adopted (external)'')],
                on_inst key (\<lambda>j. set_state now READY (j\<lparr>mi_managed := False, mi_desired := RUNNING\<rparr>)) n)
             else (ts, n)))"

definition adopt_running :: "env \<Rightarrow> observation \<Rightarrow> real \<Rightarrow> node \<Rightarrow> node" where
  "adopt_running e ob now n =
     (let (ts, n1) = fold (adopt_key ob now) (dkeys (nd_reg n)) ([], n)
      in persist_transitions (en_set e) now ts n1)"

section \<open>Actions on one key leave the others alone\<close>

definition spawns :: "node \<Rightarrow> string \<Rightarrow> nat" where
  "spawns n key = length (filter (\<lambda>c. case c of Spawned k _ \<Rightarrow> k = key | _ \<Rightarrow> False) (nd_log n))"

definition elsewhere :: "string \<Rightarrow> node \<Rightarrow> node \<Rightarrow> bool" where
  "elsewhere key n n' =
     ((\<forall>k. k \<noteq> key \<longrightarrow> reg_get (nd_reg n') k = reg_get (nd_reg n) k \<and> stored_desired n' k = stored_desired n k \<and>
         spawns n' k = spawns n k) \<and>
      nd_config n' = nd_config n \<and> (nd_store n' = None) = (nd_store n = None))"

lemma elsewhere_refl [simp, intro]: "elsewhere key n n"
  by (simp add: elsewhere_def)

lemma elsewhere_trans: "elsewhere key a b \<Longrightarrow> elsewhere key b c \<Longrightarrow> elsewhere key a c"
  by (simp add: elsewhere_def)

lemma spawns_log [simp]:
  "spawns (log_call c n) k = spawns n k + (case c of Spawned k' _ \<Rightarrow> if k' = k then 1 else 0 | _ \<Rightarrow> 0)"
  by (simp add: spawns_def split: call.split)

lemma spawns_cong: "nd_log a = nd_log b \<Longrightarrow> spawns a k = spawns b k"
  by (simp add: spawns_def)

lemma spawns_frame [simp]:
  "spawns (on_store f n) k = spawns n k" "spawns (on_inst q g n) k = spawns n k"
  "spawns (emit_transition se t q a b d n) k = spawns n k" "spawns (persist_desired e t q w n) k = spawns n k"
  "spawns (defer_to_owner t q w n) k = spawns n k"
  by (simp_all add: spawns_def defer_to_owner_def)

lemma spawns_calls [simp]:
  "spawns (trigger_router_reload e n) k = spawns n k" "spawns (undrain_instance e q n) k = spawns n k"
  "spawns (terminate_process_group p n) k = spawns n k" "spawns (drain_instance e q t as n) k = spawns n k"
proof -
  show "spawns (trigger_router_reload e n) k = spawns n k" "spawns (undrain_instance e q n) k = spawns n k"
    by (simp_all add: trigger_router_reload_def undrain_instance_def)
  show "spawns (terminate_process_group p n) k = spawns n k"
    by (simp add: terminate_process_group_def) (simp add: spawns_def)
  show "spawns (drain_instance e q t as n) k = spawns n k"
    by (simp add: drain_instance_def spawns_def drain_log_iter)
qed

lemma stored_desired_cong:
  "map_option so_desired (nd_store a) = map_option so_desired (nd_store b) \<Longrightarrow> stored_desired a k = stored_desired b k"
  by (cases "nd_store a"; cases "nd_store b") (auto simp: stored_desired_def desired_lookup)

lemma stored_frame [simp]:
  "stored_desired (on_inst q g n) k = stored_desired n k" "stored_desired (log_call c n) k = stored_desired n k"
  "stored_desired (emit_transition se t q a b d n) k = stored_desired n k"
  "stored_desired (trigger_router_reload e n) k = stored_desired n k"
  "stored_desired (undrain_instance e q n) k = stored_desired n k"
  "stored_desired (terminate_process_group p n) k = stored_desired n k"
  "stored_desired (drain_instance e q t as n) k = stored_desired n k"
  by (rule stored_desired_cong, simp)+

lemma stored_persist [simp]:
  "stored_desired (persist_desired e t q w n) k =
     (if k = q \<and> nd_store n \<noteq> None then Some (desired_value w) else stored_desired n k)"
  by (cases "nd_store n")
    (auto simp: stored_desired_def persist_desired_def desired_lookup set_instance_desired_def set_assignment_def Let_def)

lemma stored_defer [simp]:
  "stored_desired (defer_to_owner t q w n) k =
     (if k = q \<and> nd_store n \<noteq> None then Some (desired_value w) else stored_desired n k)"
  by (cases "nd_store n")
    (auto simp: stored_desired_def defer_to_owner_def desired_lookup set_instance_desired_def delete_assignment_def Let_def)

lemma defer_sel [simp]:
  "nd_reg (defer_to_owner t q w n) = reg_upd q (\<lambda>i. touch t (i\<lparr>mi_desired := w\<rparr>)) (nd_reg n)"
  "nd_config (defer_to_owner t q w n) = nd_config n" "nd_procs (defer_to_owner t q w n) = nd_procs n"
  "nd_next_pid (defer_to_owner t q w n) = nd_next_pid n" "nd_log (defer_to_owner t q w n) = nd_log n"
  "(nd_store (defer_to_owner t q w n) = None) = (nd_store n = None)"
  by (simp_all add: defer_to_owner_def)

lemma spawn_sel [simp]:
  "nd_reg (snd (spawn_process key n)) = nd_reg n" "nd_store (snd (spawn_process key n)) = nd_store n"
  "nd_config (snd (spawn_process key n)) = nd_config n" "fst (spawn_process key n) = nd_next_pid n"
  "nd_next_pid (snd (spawn_process key n)) = Suc (nd_next_pid n)"
  "spawns (snd (spawn_process key n)) k = (if k = key then Suc (spawns n k) else spawns n k)"
  "stored_desired (snd (spawn_process key n)) k = stored_desired n k"
  by (simp_all add: spawn_process_def) (simp_all add: spawns_def stored_desired_def)

lemma elsewhere_parts:
  "elsewhere key n m \<Longrightarrow> elsewhere key n (on_inst key g m)"
  "elsewhere key n m \<Longrightarrow> elsewhere key n (emit_transition se t key a b d m)"
  "elsewhere key n m \<Longrightarrow> elsewhere key n (persist_desired e t key w m)"
  "elsewhere key n m \<Longrightarrow> elsewhere key n (defer_to_owner t key w m)"
  "elsewhere key n m \<Longrightarrow> elsewhere key n (trigger_router_reload e m)"
  "elsewhere key n m \<Longrightarrow> elsewhere key n (undrain_instance e key m)"
  "elsewhere key n m \<Longrightarrow> elsewhere key n (terminate_process_group p m)"
  "elsewhere key n m \<Longrightarrow> elsewhere key n (drain_instance e key t as m)"
  "elsewhere key n m \<Longrightarrow> elsewhere key n (snd (spawn_process key m))"
  "elsewhere key n m \<Longrightarrow> (\<And>k q. c \<noteq> Spawned k q) \<Longrightarrow> elsewhere key n (log_call c m)"
  by (simp_all add: elsewhere_def split: call.split)

lemma start_begin_elsewhere: "elsewhere key n (snd (start_begin e now reset key sp n))"
  by (auto simp: start_begin_def intro!: elsewhere_parts split: option.split)

lemma start_finish_elsewhere: "elsewhere key n m \<Longrightarrow> elsewhere key n (start_finish e now key pid m)"
  by (auto simp: start_finish_def intro!: elsewhere_parts)

lemma start_failed_elsewhere: "elsewhere key n m \<Longrightarrow> elsewhere key n (snd (start_failed e now key m))"
  by (auto simp: start_failed_def intro!: elsewhere_parts)

lemma start_elsewhere: "elsewhere key n (snd (start e now force reset ok key n))"
  using start_begin_elsewhere [of key n e now reset]
  by (auto simp: start_def split_beta Let_def intro!: elsewhere_parts start_finish_elsewhere start_failed_elsewhere
      split: option.split sum.split)

lemma stop_elsewhere: "elsewhere key n (snd (stop e now as key n))"
  by (auto simp: stop_def stop_begin_def stop_kill_def stop_finish_def Let_def intro!: elsewhere_parts
      split: option.split)

lemma sleep_elsewhere: "elsewhere key n (snd (sleep e now ok key n))"
  by (auto simp: sleep_def sleep_begin_def sleep_failed_def sleep_finish_def intro!: elsewhere_parts
      split: option.split)

lemma wake_elsewhere: "elsewhere key n (snd (wake e now ok key n))"
  by (auto simp: wake_def wake_begin_def wake_failed_def wake_finish_def intro!: elsewhere_parts
      split: option.split)

lemmas op_elsewhere = start_elsewhere stop_elsewhere sleep_elsewhere wake_elsewhere

section \<open>What a pass does to one instance\<close>

lemma schedule_sel [simp]:
  "mi_key (maybe_schedule_restart se t i) = mi_key i" "mi_proc (maybe_schedule_restart se t i) = mi_proc i"
  "mi_state (maybe_schedule_restart se t i) = mi_state i" "mi_managed (maybe_schedule_restart se t i) = mi_managed i"
  "mi_desired (maybe_schedule_restart se t i) = mi_desired i" "mi_restarts (maybe_schedule_restart se t i) = mi_restarts i"
  "mi_kind (maybe_schedule_restart se t i) = mi_kind i" "mi_error (maybe_schedule_restart se t i) = mi_error i"
  "mi_engine (maybe_schedule_restart se t i) = mi_engine i" "mi_spec (maybe_schedule_restart se t i) = mi_spec i"
  by (simp_all add: maybe_schedule_restart_def)

lemma touch_sel [simp]:
  "mi_key (touch t i) = mi_key i" "mi_proc (touch t i) = mi_proc i" "mi_state (touch t i) = mi_state i"
  "mi_managed (touch t i) = mi_managed i" "mi_desired (touch t i) = mi_desired i"
  "mi_restarts (touch t i) = mi_restarts i" "mi_engine (touch t i) = mi_engine i" "mi_spec (touch t i) = mi_spec i"
  "mi_kind (touch t i) = mi_kind i"
  by (simp_all add: touch_def)

text \<open>The steps of the state machine that a pass takes.\<close>

lemmas reconcile_defs = reconcile_instance_def check_process_exit_def probe_starting_def transition_of_def live_states_def

lemma reconcile_keeps:
  assumes "reconcile_instance ob se now pl i = (t, kill, j)"
  shows "mi_key j = mi_key i" "mi_desired j = mi_desired i" "mi_managed j = mi_managed i" "mi_kind j = mi_kind i"
    "mi_engine j = mi_engine i" "mi_spec j = mi_spec i"
  using assms by (auto simp: reconcile_defs Let_def split: option.splits if_splits)

lemma reconcile_proc:
  assumes "reconcile_instance ob se now pl i = (t, kill, j)"
  shows "(kill = None \<and> mi_proc j = mi_proc i \<and> (mi_state j = mi_state i \<or> mi_state i = STARTING \<and> mi_state j = READY)) \<or>
     (mi_proc j = None \<and> (mi_state j = FAILED \<or> mi_state j = STOPPED) \<and>
       (kill = mi_proc i \<or> kill = None \<and> (\<exists>p rc. mi_proc i = Some p \<and> pl p = Some rc)))"
  using assms by (auto simp: reconcile_defs Let_def split: option.splits if_splits)

lemma reconcile_restarts:
  assumes "reconcile_instance ob se now pl i = (t, kill, j)"
  shows "mi_restarts j = (if mi_state i = STARTING \<and> mi_state j = READY then 0 else mi_restarts i)"
  using assms by (auto simp: reconcile_defs Let_def split: option.splits if_splits)

lemma reconcile_not_ready:
  assumes "reconcile_instance ob se now pl i = (t, kill, j)" "\<not> ob_ready ob (mi_key i)"
    and "mi_state i = STARTING \<or> mi_state i = FAILED"
  shows "mi_state j = STARTING \<or> mi_state j = FAILED" "mi_restarts j = mi_restarts i"
  using assms by (auto simp: reconcile_defs Let_def split: option.splits if_splits)

lemma reconcile_kill: "reconcile_instance ob se now pl i = (t, Some p, j) \<Longrightarrow> mi_proc i = Some p"
  by (auto simp: reconcile_defs Let_def split: option.splits if_splits)

lemma poll_kill: "q \<noteq> p \<Longrightarrow> poll (terminate_process_group p n) q = poll n q"
  by (simp add: terminate_process_group_def poll_def)

lemma poll_on_inst [simp]: "poll (on_inst k f n) q = poll n q"
  by (simp add: poll_def)

definition handle_elsewhere :: "node \<Rightarrow> string \<Rightarrow> nat \<Rightarrow> bool" where
  "handle_elsewhere n key p = (\<exists>k j. k \<noteq> key \<and> reg_get (nd_reg n) k = Some j \<and> mi_proc j = Some p)"

lemma reconcile_key_step:
  assumes "reconcile_key ob se now key (ts, n) = (ts', n')"
  shows "nd_store n' = nd_store n" "nd_config n' = nd_config n" "nd_next_pid n' = nd_next_pid n"
    "spawns n' k = spawns n k"
    "k \<noteq> key \<Longrightarrow> reg_get (nd_reg n') k = reg_get (nd_reg n) k"
    "reg_get (nd_reg n) key = None \<Longrightarrow> reg_get (nd_reg n') key = None"
    "reg_get (nd_reg n) key = Some i \<Longrightarrow>
       reg_get (nd_reg n') key = Some (snd (snd (reconcile_instance ob se now (poll n) i)))"
    "(\<forall>i. reg_get (nd_reg n) key = Some i \<longrightarrow> mi_proc i \<noteq> Some p) \<Longrightarrow>
       poll n' p = poll n p"
proof -
  show "nd_store n' = nd_store n" "nd_config n' = nd_config n" "nd_next_pid n' = nd_next_pid n" "spawns n' k = spawns n k"
    using assms by (auto simp: reconcile_key_def split_beta split: option.splits)
  show "k \<noteq> key \<Longrightarrow> reg_get (nd_reg n') k = reg_get (nd_reg n) k"
    "reg_get (nd_reg n) key = None \<Longrightarrow> reg_get (nd_reg n') key = None"
    "reg_get (nd_reg n) key = Some i \<Longrightarrow>
       reg_get (nd_reg n') key = Some (snd (snd (reconcile_instance ob se now (poll n) i)))"
    using assms by (auto simp: reconcile_key_def split_beta split: option.splits)
  show "\<forall>i. reg_get (nd_reg n) key = Some i \<longrightarrow> mi_proc i \<noteq> Some p \<Longrightarrow> poll n' p = poll n p"
    using assms reconcile_kill [of ob se now "poll n"]
    by (force simp: reconcile_key_def poll_kill split: option.splits prod.splits)
qed

text \<open>An instance as the pass leaves it; \<open>m\<close> is the node at its turn.\<close>

definition reconciled :: "observation \<Rightarrow> settings \<Rightarrow> real \<Rightarrow> node \<Rightarrow> string \<Rightarrow> minst \<Rightarrow> minst \<Rightarrow> bool" where
  "reconciled ob se now n k i j =
     (\<exists>m. j = snd (snd (reconcile_instance ob se now (poll m) i)) \<and>
        (\<forall>p. \<not> handle_elsewhere n k p \<longrightarrow> poll m p = poll n p))"

lemma handle_elsewhere_step:
  assumes "reconcile_key ob se now key (ts, n) = (ts', n')" "handle_elsewhere n' k p" "k \<noteq> key"
  shows "handle_elsewhere n k p"
proof -
  obtain k' j where j: "k' \<noteq> k" "reg_get (nd_reg n') k' = Some j" "mi_proc j = Some p"
    using assms(2) by (auto simp: handle_elsewhere_def)
  show ?thesis
  proof (cases "k' = key")
    case True
    then obtain i where i: "reg_get (nd_reg n) key = Some i"
      using reconcile_key_step(6) [OF assms(1)] j(2) by fastforce
    obtain t kill j0 where r: "reconcile_instance ob se now (poll n) i = (t, kill, j0)" by (metis prod.collapse)
    then have "j = j0" using reconcile_key_step(7) [OF assms(1) i] True j(2) by simp
    then have "mi_proc i = Some p" using reconcile_proc [OF r] j(3) by auto
    then show ?thesis using i j(1) True by (auto simp: handle_elsewhere_def)
  next
    case False
    then show ?thesis
      using j reconcile_key_step(5) [OF assms(1) False] by (auto simp: handle_elsewhere_def)
  qed
qed

lemma gather_keys:
  assumes "distinct ks" "fold (reconcile_key ob se now) ks (ts, n) = (ts', n')"
  shows "nd_store n' = nd_store n \<and> nd_config n' = nd_config n \<and> nd_next_pid n' = nd_next_pid n \<and>
     (\<forall>k. spawns n' k = spawns n k) \<and>
     (\<forall>k. k \<notin> set ks \<longrightarrow> reg_get (nd_reg n') k = reg_get (nd_reg n) k) \<and>
     (\<forall>k. reg_get (nd_reg n) k = None \<longrightarrow> reg_get (nd_reg n') k = None) \<and>
     (\<forall>k i. k \<in> set ks \<longrightarrow> reg_get (nd_reg n) k = Some i \<longrightarrow>
        (\<exists>j. reg_get (nd_reg n') k = Some j \<and> reconciled ob se now n k i j))"
  using assms
proof (induction ks arbitrary: ts n)
  case Nil
  then show ?case by simp
next
  case (Cons key ks)
  obtain ts1 n1 where step: "reconcile_key ob se now key (ts, n) = (ts1, n1)" by (metis prod.collapse)
  note st = reconcile_key_step [OF step]
  have rest: "fold (reconcile_key ob se now) ks (ts1, n1) = (ts', n')" "distinct ks" "key \<notin> set ks"
    using Cons.prems step by auto
  note ih = Cons.IH [OF rest(2,1)]
  have here: "reg_get (nd_reg n') key = reg_get (nd_reg n1) key"
    using ih rest(3) by blast
  have "\<exists>j. reg_get (nd_reg n') k = Some j \<and> reconciled ob se now n k i j"
    if k: "k \<in> set (key # ks)" "reg_get (nd_reg n) k = Some i" for k i
  proof (cases "k = key")
    case True
    then show ?thesis
      using here st(7) k(2) by (auto simp: reconciled_def)
  next
    case False
    then have "k \<in> set ks" "reg_get (nd_reg n1) k = Some i" using k st(5) by auto
    then obtain j where j: "reg_get (nd_reg n') k = Some j" "reconciled ob se now n1 k i j"
      using ih by blast
    then obtain m where m: "j = snd (snd (reconcile_instance ob se now (poll m) i))"
        "\<And>p. \<not> handle_elsewhere n1 k p \<Longrightarrow> poll m p = poll n1 p"
      by (auto simp: reconciled_def)
    have "poll m p = poll n p" if h: "\<not> handle_elsewhere n k p" for p
    proof -
      have "\<forall>i. reg_get (nd_reg n) key = Some i \<longrightarrow> mi_proc i \<noteq> Some p"
        using h False by (auto simp: handle_elsewhere_def)
      moreover have "\<not> handle_elsewhere n1 k p"
        using handle_elsewhere_step [OF step _ False] h by blast
      ultimately show ?thesis using m(2) st(8) by simp
    qed
    then show ?thesis using j(1) m(1) by (auto simp: reconciled_def)
  qed
  moreover have "reg_get (nd_reg n') k = None" if "reg_get (nd_reg n) k = None" for k
    using that ih st(5) [of k] st(6) by (cases "k = key") auto
  ultimately show ?case
    using ih st by auto
qed

lemma gather_facts:
  assumes "reg_ok (nd_reg n)" "gather ob se now n = (ts, n')"
  shows "nd_store n' = nd_store n" "nd_config n' = nd_config n" "nd_next_pid n' = nd_next_pid n"
    "spawns n' k = spawns n k"
    "reg_get (nd_reg n) k = None \<Longrightarrow> reg_get (nd_reg n') k = None"
    "reg_get (nd_reg n) k = Some i \<Longrightarrow> \<exists>j. reg_get (nd_reg n') k = Some j \<and> reconciled ob se now n k i j"
proof -
  have d: "distinct (dkeys (nd_reg n))"
    using assms(1) by (simp add: reg_ok_def dict_ok_def dkeys_def)
  note g = gather_keys [OF d assms(2) [unfolded gather_def]]
  show "nd_store n' = nd_store n" "nd_config n' = nd_config n" "nd_next_pid n' = nd_next_pid n" "spawns n' k = spawns n k"
    using g by auto
  have mem: "k \<in> set (dkeys (nd_reg n)) \<longleftrightarrow> reg_get (nd_reg n) k \<noteq> None" by (rule reg_has_keys)
  show "reg_get (nd_reg n) k = None \<Longrightarrow> reg_get (nd_reg n') k = None"
    using g by blast
  show "reg_get (nd_reg n) k = Some i \<Longrightarrow> \<exists>j. reg_get (nd_reg n') k = Some j \<and> reconciled ob se now n k i j"
    using g mem by blast
qed

text \<open>Events and alerts change nothing of an instance but its failed mark.\<close>

definition core :: "minst \<Rightarrow> minst" where
  "core i = i\<lparr>mi_was_failed := False\<rparr>"

lemma core_sel [simp]:
  "mi_state (core i) = mi_state i" "mi_proc (core i) = mi_proc i" "mi_managed (core i) = mi_managed i"
  "mi_desired (core i) = mi_desired i" "mi_restarts (core i) = mi_restarts i" "mi_key (core i) = mi_key i"
  "mi_next_restart (core i) = mi_next_restart i" "mi_engine (core i) = mi_engine i" "mi_kind (core i) = mi_kind i"
  "mi_spec (core i) = mi_spec i"
  by (simp_all add: core_def)

lemma emit_core: "map_option core (reg_get (nd_reg (emit_transition se t q a b d n)) k) = map_option core (reg_get (nd_reg n) k)"
  by (simp add: option.map_comp comp_def core_def [abs_def])

lemma persist_facts:
  "map_option core (reg_get (nd_reg (persist_transitions se now ts n)) k) = map_option core (reg_get (nd_reg n) k)"
  "nd_config (persist_transitions se now ts n) = nd_config n"
  "nd_procs (persist_transitions se now ts n) = nd_procs n"
  "nd_next_pid (persist_transitions se now ts n) = nd_next_pid n"
  "spawns (persist_transitions se now ts n) k = spawns n k"
  "stored_desired (persist_transitions se now ts n) k = stored_desired n k"
  "(nd_store (persist_transitions se now ts n) = None) = (nd_store n = None)"
  "map_option so_desired (nd_store (persist_transitions se now ts n)) = map_option so_desired (nd_store n)"
  by (induction ts arbitrary: n) (simp_all add: persist_transitions_def emit_core del: emit_reg)

lemma reg_ok_emit: "reg_ok (nd_reg n) \<Longrightarrow> reg_ok (nd_reg (emit_transition se t q a b d n))"
  by (auto intro: reg_ok_upd)

section \<open>No orphan processes\<close>

text \<open>
  Every running process is the one an instance holds the handle of; a held handle belongs to one
  managed instance that is neither STOPPED nor FAILED.
\<close>

definition store_ok :: "node \<Rightarrow> bool" where
  "store_ok n = (case nd_store n of None \<Rightarrow> True | Some s \<Rightarrow> dict_ok (so_desired s))"

definition owned :: "node \<Rightarrow> bool" where
  "owned n =
     (reg_ok (nd_reg n) \<and> store_ok n \<and>
      (\<forall>p. alive n p \<longrightarrow> (\<exists>k i. reg_get (nd_reg n) k = Some i \<and> mi_proc i = Some p)) \<and>
      (\<forall>k i p. reg_get (nd_reg n) k = Some i \<longrightarrow> mi_proc i = Some p \<longrightarrow>
         p < nd_next_pid n \<and> mi_managed i \<and> mi_state i \<noteq> STOPPED \<and> mi_state i \<noteq> FAILED) \<and>
      (\<forall>k k' i j p. reg_get (nd_reg n) k = Some i \<longrightarrow> reg_get (nd_reg n) k' = Some j \<longrightarrow>
         mi_proc i = Some p \<longrightarrow> mi_proc j = Some p \<longrightarrow> k = k'))"

lemma alive_poll: "alive n p \<longleftrightarrow> poll n p = None"
  by (auto simp: alive_def poll_def dget_def split: option.splits)

lemma owned_update:
  assumes "owned n" "reg_get (nd_reg n) key = Some i" "reg_ok (nd_reg n')" "store_ok n'"
    and get: "\<And>k. reg_get (nd_reg n') k = (if k = key then Some j else reg_get (nd_reg n) k)"
    and fresh: "nd_next_pid n \<le> nd_next_pid n'"
    and alive: "\<And>p. alive n' p \<Longrightarrow> mi_proc j = Some p \<or> alive n p \<and> mi_proc i \<noteq> Some p"
    and proc: "\<And>p. mi_proc j = Some p \<Longrightarrow> (mi_proc i = Some p \<or> nd_next_pid n \<le> p) \<and> p < nd_next_pid n' \<and>
      mi_managed j \<and> mi_state j \<noteq> STOPPED \<and> mi_state j \<noteq> FAILED"
  shows "owned n'"
  unfolding owned_def
proof (intro conjI allI impI)
  have old: "p < nd_next_pid n" if "reg_get (nd_reg n) k = Some i'" "mi_proc i' = Some p" for k i' p
    using assms(1) that by (auto simp: owned_def)
  have uniq: "k = key" if "reg_get (nd_reg n) k = Some i'" "mi_proc i' = Some p" "mi_proc i = Some p" for k i' p
    using assms(1,2) that by (auto simp: owned_def)
  show "reg_ok (nd_reg n')" "store_ok n'" by fact+
  show "\<exists>k i. reg_get (nd_reg n') k = Some i \<and> mi_proc i = Some p" if "alive n' p" for p
  proof (cases "mi_proc j = Some p")
    case True
    then show ?thesis using get by auto
  next
    case False
    then have p: "alive n p" "mi_proc i \<noteq> Some p" using alive [OF that] by auto
    then obtain k i' where k: "reg_get (nd_reg n) k = Some i'" "mi_proc i' = Some p"
      using assms(1) by (auto simp: owned_def)
    then have "k \<noteq> key" using p(2) assms(2) by auto
    then show ?thesis using k get by auto
  qed
  show "p < nd_next_pid n'" "mi_managed i'" "mi_state i' \<noteq> STOPPED" "mi_state i' \<noteq> FAILED"
    if h: "reg_get (nd_reg n') k = Some i'" "mi_proc i' = Some p" for k i' p
  proof -
    show "p < nd_next_pid n'"
      using h get [of k] proc [of p] old [of k i' p] fresh by (auto split: if_splits)
    show "mi_managed i'" "mi_state i' \<noteq> STOPPED" "mi_state i' \<noteq> FAILED"
      using h get [of k] proc [of p] assms(1) by (auto simp: owned_def split: if_splits)
  qed
  show "k = k'" if "reg_get (nd_reg n') k = Some a" "reg_get (nd_reg n') k' = Some b"
      "mi_proc a = Some p" "mi_proc b = Some p" for k k' a b p
  proof -
    have "nd_next_pid n \<le> p \<Longrightarrow> reg_get (nd_reg n) k = Some a \<Longrightarrow> False" "nd_next_pid n \<le> p \<Longrightarrow> reg_get (nd_reg n) k' = Some b \<Longrightarrow> False"
      using old that(3,4) by fastforce+
    then show ?thesis
      using that get [of k] get [of k'] proc [of p] uniq [of k a p] uniq [of k' b p] assms(1)
      by (auto simp: owned_def split: if_splits)
  qed
qed

lemma owned_reg_ok: "owned n \<Longrightarrow> reg_ok (nd_reg n)"
  by (simp add: owned_def)

lemma core_eqD:
  assumes "map_option core x = map_option core y" "x = Some i"
  shows "\<exists>j. y = Some j \<and> mi_proc j = mi_proc i \<and> mi_managed j = mi_managed i \<and> mi_state j = mi_state i \<and>
    mi_desired j = mi_desired i \<and> mi_restarts j = mi_restarts i \<and> mi_key j = mi_key i \<and>
    mi_engine j = mi_engine i \<and> mi_next_restart j = mi_next_restart i \<and> mi_kind j = mi_kind i \<and> mi_spec j = mi_spec i"
proof -
  obtain j where j: "y = Some j" "core j = core i"
    using assms by (cases y) auto
  then have "f (core j) = f (core i)" for f :: "minst \<Rightarrow> 'x" by simp
  then show ?thesis
    using j by (metis core_sel)
qed

lemma owned_frame:
  assumes "owned n" "reg_ok (nd_reg n')" "store_ok n'" "nd_next_pid n' = nd_next_pid n" "nd_procs n' = nd_procs n"
    and same: "\<And>k. map_option core (reg_get (nd_reg n') k) = map_option core (reg_get (nd_reg n) k)"
  shows "owned n'"
proof -
  have al: "alive n' p = alive n p" for p by (simp add: alive_def assms(5))
  show ?thesis
    unfolding owned_def al assms(4)
  proof (intro conjI allI impI)
    show "reg_ok (nd_reg n')" "store_ok n'" by fact+
    show "\<exists>k i. reg_get (nd_reg n') k = Some i \<and> mi_proc i = Some p" if live: "alive n p" for p
    proof -
      obtain k i where "reg_get (nd_reg n) k = Some i" "mi_proc i = Some p"
        using assms(1) live by (auto simp: owned_def)
      then show ?thesis using core_eqD [OF same [of k, symmetric]] by metis
    qed
    show "p < nd_next_pid n" "mi_managed i" "mi_state i \<noteq> STOPPED" "mi_state i \<noteq> FAILED"
      if h: "reg_get (nd_reg n') k = Some i" "mi_proc i = Some p" for k i p
    proof -
      obtain j where "reg_get (nd_reg n) k = Some j" "mi_proc j = Some p" "mi_managed j = mi_managed i" "mi_state j = mi_state i"
        using core_eqD [OF same h(1)] h(2) by auto
      then show "p < nd_next_pid n" "mi_managed i" "mi_state i \<noteq> STOPPED" "mi_state i \<noteq> FAILED"
        using assms(1) unfolding owned_def by (blast, metis, metis, metis)
    qed
    show "k = k'" if h: "reg_get (nd_reg n') k = Some a" "reg_get (nd_reg n') k' = Some b"
        "mi_proc a = Some p" "mi_proc b = Some p" for k k' a b p
    proof -
      obtain a' b' where "reg_get (nd_reg n) k = Some a'" "mi_proc a' = Some p"
          "reg_get (nd_reg n) k' = Some b'" "mi_proc b' = Some p"
        using core_eqD [OF same h(1)] core_eqD [OF same h(2)] h(3,4) by auto
      then show ?thesis using assms(1) unfolding owned_def by blast
    qed
  qed
qed

lemma store_ok_cong:
  "map_option so_desired (nd_store a) = map_option so_desired (nd_store b) \<Longrightarrow> store_ok a = store_ok b"
  by (cases "nd_store a"; cases "nd_store b") (auto simp: store_ok_def)

lemma store_ok_frame [simp]:
  "store_ok (on_inst q g n) = store_ok n" "store_ok (log_call c n) = store_ok n"
  "store_ok (emit_transition se t q a b d n) = store_ok n" "store_ok (trigger_router_reload e n) = store_ok n"
  "store_ok (undrain_instance e q n) = store_ok n" "store_ok (terminate_process_group p n) = store_ok n"
  "store_ok (drain_instance e q t as n) = store_ok n" "store_ok (snd (spawn_process q n)) = store_ok n"
  by (rule store_ok_cong, simp)+

lemma store_ok_persist [simp]: "store_ok n \<Longrightarrow> store_ok (persist_desired e t q w n)"
  by (auto simp: store_ok_def persist_desired_def set_instance_desired_def set_assignment_def Let_def split: option.splits)

lemma store_ok_defer [simp]: "store_ok n \<Longrightarrow> store_ok (defer_to_owner t q w n)"
  by (auto simp: store_ok_def defer_to_owner_def set_instance_desired_def delete_assignment_def Let_def split: option.splits)

lemma owned_store_ok: "owned n \<Longrightarrow> store_ok n"
  by (simp add: owned_def)

lemma alive_defer [simp]: "alive (defer_to_owner t q w n) p = alive n p"
  by (simp add: alive_def)

lemma alive_spawn [simp]: "alive (snd (spawn_process q n)) p = (p = nd_next_pid n \<or> alive n p)"
  by (simp add: spawn_process_def alive_def)

lemma starting_sel [simp]:
  "mi_key (starting_inst t r sp i) = mi_key i" "mi_state (starting_inst t r sp i) = STARTING"
  "mi_managed (starting_inst t r sp i)" "mi_proc (starting_inst t r sp i) = mi_proc i"
  "mi_desired (starting_inst t r sp i) = RUNNING" "mi_engine (starting_inst t r sp i) = mi_engine i"
  "mi_restarts (starting_inst t r sp i) = (if r then 0 else mi_restarts i)"
  by (simp_all add: starting_inst_def)

lemma owned_handle:
  assumes "owned n" "reg_get (nd_reg n) k = Some i" "mi_proc i = Some p"
  shows "p < nd_next_pid n" "mi_managed i" "mi_state i \<noteq> STOPPED" "mi_state i \<noteq> FAILED"
  using assms unfolding owned_def by blast+

lemma owned_idle: "owned n \<Longrightarrow> reg_get (nd_reg n) k = Some i \<Longrightarrow> mi_state i = STOPPED \<or> mi_state i = FAILED \<Longrightarrow> mi_proc i = None"
  using owned_handle [of n k i] by (cases "mi_proc i") auto

lemma owned_unmanaged: "owned n \<Longrightarrow> reg_get (nd_reg n) k = Some i \<Longrightarrow> \<not> mi_managed i \<Longrightarrow> mi_proc i = None"
  using owned_handle [of n k i] by (cases "mi_proc i") auto

text \<open>An operation that only rewrites fields of one instance other than the handle.\<close>

lemma owned_field:
  assumes "owned n" "nd_reg n' = reg_upd key f (nd_reg n)" "nd_procs n' = nd_procs n" "nd_next_pid n' = nd_next_pid n"
    and "store_ok n'" "\<And>i. mi_key (f i) = mi_key i"
    and "\<And>i p. reg_get (nd_reg n) key = Some i \<Longrightarrow> mi_proc (f i) = mi_proc i \<and>
      (mi_proc i = Some p \<longrightarrow> mi_managed (f i) \<and> mi_state (f i) \<noteq> STOPPED \<and> mi_state (f i) \<noteq> FAILED)"
  shows "owned n'"
proof (cases "reg_get (nd_reg n) key")
  case None
  then have "nd_reg n' = nd_reg n" using assms(2) by (simp add: reg_upd_def reg_get_def)
  then show ?thesis
    using assms(1,3-5) by (auto intro: owned_frame simp: owned_reg_ok)
next
  case (Some i)
  show ?thesis
  proof (rule owned_update [OF assms(1) Some])
    show "reg_ok (nd_reg n')" using assms(1,2,6) by (simp add: owned_reg_ok reg_ok_upd)
    show "reg_get (nd_reg n') k = (if k = key then Some (f i) else reg_get (nd_reg n) k)" for k
      using Some assms(2) by simp
    show "mi_proc (f i) = Some p \<or> alive n p \<and> mi_proc i \<noteq> Some p" if "alive n' p" for p
      using that assms(1,3) assms(7) [OF Some, of p] Some by (cases "mi_proc i = Some p") (auto simp: alive_def)
    show "(mi_proc i = Some p \<or> nd_next_pid n \<le> p) \<and> p < nd_next_pid n' \<and> mi_managed (f i) \<and>
        mi_state (f i) \<noteq> STOPPED \<and> mi_state (f i) \<noteq> FAILED" if "mi_proc (f i) = Some p" for p
      using that assms(4) assms(7) [OF Some, of p] owned_handle [OF assms(1) Some] by auto
  qed (use assms(4,5) in auto)
qed

lemma defer_owned: "owned n \<Longrightarrow> owned (defer_to_owner t key w n)"
  by (rule owned_field [of n _ key "\<lambda>i. touch t (i\<lparr>mi_desired := w\<rparr>)"])
    (auto simp: owned_store_ok owned_handle)

lemma start_owned:
  assumes "owned n" and guard: "\<And>i. reg_get (nd_reg n) key = Some i \<Longrightarrow> mi_state i \<noteq> SLEEPING \<and> mi_state i \<noteq> STOPPING"
  shows "owned (snd (start e now force reset ok key n))"
proof (cases "reg_get (nd_reg n) key")
  case None
  then show ?thesis using assms(1) by (simp add: start_def)
next
  case (Some i)
  show ?thesis
  proof (cases "\<not> node_can_run e (mi_engine i)")
    case True
    then show ?thesis using Some assms(1) by (simp add: start_def defer_owned)
  next
    case can: False
    show ?thesis
    proof (cases "start_plan e force i n")
      case (Inl er)
      then show ?thesis using Some can assms(1) by (simp add: start_def)
    next
      case plan: (Inr sp)
      show ?thesis
      proof (cases "mi_state i = STARTING \<or> mi_state i = READY")
        case True
        then show ?thesis using Some can plan assms(1) by (simp add: start_def start_begin_def)
      next
        case idle: False
        then have none: "mi_proc i = None"
          using owned_idle [OF assms(1) Some] guard [OF Some] by (cases "mi_state i") auto
        define m where "m = emit_transition (en_set e) now key (Some (mi_state i)) STARTING None
            (on_inst key (starting_inst now reset sp) n)"
        have m: "start_begin e now reset key sp n = (Inr (), m)" "nd_reg m = reg_upd key (starting_inst now reset sp) (nd_reg n)"
          "nd_procs m = nd_procs n" "nd_next_pid m = nd_next_pid n" "store_ok m"
          using Some idle assms(1) by (simp_all add: start_begin_def m_def owned_store_ok)
        have om: "owned m"
          by (rule owned_field [OF assms(1) m(2-4)]) (use m(5) Some none in auto)
        have get: "reg_get (nd_reg m) key = Some (starting_inst now reset sp i)" using m(2) Some by simp
        show ?thesis
        proof (cases ok)
          case True
          define pid where "pid = nd_next_pid m"
          define n' where "n' = start_finish e now key pid (snd (spawn_process key m))"
          have "snd (start e now force reset ok key n) = n'"
            using Some can plan m(1) True by (simp add: start_def n'_def pid_def spawn_process_def)
          moreover have "owned n'"
          proof (rule owned_update [OF om get])
            show "reg_get (nd_reg n') k = (if k = key then Some (touch now ((starting_inst now reset sp i)
                \<lparr>mi_proc := Some pid, mi_pid := Some pid\<rparr>)) else reg_get (nd_reg m) k)" for k
              using get by (simp add: n'_def start_finish_def)
            show "reg_ok (nd_reg n')" "store_ok n'"
              using om by (simp_all add: n'_def start_finish_def owned_reg_ok reg_ok_upd owned_store_ok)
          qed (use none in \<open>auto simp: n'_def start_finish_def pid_def\<close>)
          ultimately show ?thesis by simp
        next
          case False
          have "snd (start e now force reset ok key n) = snd (start_failed e now key m)"
            using Some can plan m(1) False by (simp add: start_def)
          moreover have "owned (snd (start_failed e now key m))"
            by (rule owned_field [OF om, of _ key "\<lambda>i. set_state now FAILED (i\<lparr>mi_managed := False, mi_error := Some spawn_failed_text\<rparr>)"])
              (use om get none in \<open>auto simp: start_failed_def owned_store_ok\<close>)
          ultimately show ?thesis by simp
        qed
      qed
    qed
  qed
qed

lemma stop_owned:
  assumes "owned n"
  shows "owned (snd (stop e now as key n))"
proof (cases "reg_get (nd_reg n) key")
  case None
  then show ?thesis using assms by (simp add: stop_def)
next
  case (Some i)
  note ok = owned_reg_ok [OF assms] owned_store_ok [OF assms]
  consider (deferred) "\<not> node_can_run e (mi_engine i)"
    | (ours) p where "node_can_run e (mi_engine i)" "mi_proc i = Some p" "mi_managed i"
    | (free) "node_can_run e (mi_engine i)" "mi_proc i = None"
    using owned_unmanaged [OF assms Some] by (cases "mi_proc i") auto
  then show ?thesis
  proof cases
    case deferred
    then show ?thesis using Some assms by (simp add: stop_def defer_owned)
  next
    case (ours p)
    define n' where "n' = snd (stop e now as key n)"
    define j where "j = set_state now STOPPED ((set_state now STOPPING (i\<lparr>mi_desired := D_STOPPED\<rparr>))\<lparr>mi_proc := None, mi_pid := None\<rparr>)"
    have n': "n' = stop_finish e now key (stop_kill e now as key p (snd (stop_begin e now key n)))"
      using ours Some by (simp add: n'_def stop_def stop_begin_def Let_def)
    have "owned n'"
    proof (rule owned_update [OF assms Some])
      show "reg_get (nd_reg n') k = (if k = key then Some j else reg_get (nd_reg n) k)" for k
        using ours Some by (simp add: n' stop_finish_def stop_kill_def stop_begin_def Let_def j_def)
      show "mi_proc j = Some q \<or> alive n q \<and> mi_proc i \<noteq> Some q" if "alive n' q" for q
        using that ours Some by (auto simp: n' stop_finish_def stop_kill_def stop_begin_def Let_def)
    qed (use ok ours Some in \<open>auto simp: n' stop_finish_def stop_kill_def stop_begin_def Let_def j_def intro!: reg_ok_upd\<close>)
    then show ?thesis by (simp add: n'_def)
  next
    case free
    define f where "f = (\<lambda>i. if \<not> mi_managed i \<and> mi_state i = READY
        then i\<lparr>mi_desired := D_STOPPED, mi_error := Some ''externally managed; backend cannot stop it''\<rparr>
        else set_state now STOPPED (i\<lparr>mi_desired := D_STOPPED, mi_proc := None, mi_pid := None\<rparr>))"
    show ?thesis
    proof (rule owned_update [OF assms Some])
      show "reg_get (nd_reg (snd (stop e now as key n))) k = (if k = key then Some (f i) else reg_get (nd_reg n) k)" for k
        using free Some by (auto simp: stop_def stop_begin_def Let_def f_def)
    qed (use ok free Some in \<open>auto simp: stop_def stop_begin_def Let_def f_def intro!: reg_ok_upd split: if_splits\<close>)
  qed
qed

lemma sleep_owned:
  assumes "owned n"
  shows "owned (snd (sleep e now ok key n))"
proof (cases "reg_get (nd_reg n) key")
  case None
  then show ?thesis using assms by (simp add: sleep_def)
next
  case (Some i)
  note ok = owned_reg_ok [OF assms] owned_store_ok [OF assms] owned_handle [OF assms Some]
  show ?thesis
  proof (cases "node_can_run e (mi_engine i) \<and> ls_sleep (mi_spec i) \<and> mi_state i = READY")
    case False
    then show ?thesis using Some assms by (auto simp: sleep_def sleep_begin_def defer_owned)
  next
    case True
    define j where "j = (if ok then set_state now SLEEPING ((touch now (i\<lparr>mi_desired := ASLEEP\<rparr>))\<lparr>mi_error := None\<rparr>)
        else touch now ((touch now (i\<lparr>mi_desired := ASLEEP\<rparr>))\<lparr>mi_desired := RUNNING\<rparr>))"
    show ?thesis
    proof (rule owned_update [OF assms Some])
      show "reg_get (nd_reg (snd (sleep e now ok key n))) k = (if k = key then Some j else reg_get (nd_reg n) k)" for k
        using True Some by (simp add: sleep_def sleep_begin_def sleep_finish_def sleep_failed_def j_def)
    qed (use ok True Some in \<open>auto simp: sleep_def sleep_begin_def sleep_finish_def sleep_failed_def j_def
          intro!: reg_ok_upd split: if_splits\<close>)
  qed
qed

lemma wake_owned:
  assumes "owned n"
  shows "owned (snd (wake e now ok key n))"
proof (cases "reg_get (nd_reg n) key")
  case None
  then show ?thesis using assms by (simp add: wake_def)
next
  case (Some i)
  note ok = owned_reg_ok [OF assms] owned_store_ok [OF assms] owned_handle [OF assms Some]
  show ?thesis
  proof (cases "node_can_run e (mi_engine i) \<and> mi_state i = SLEEPING")
    case False
    then show ?thesis using Some assms by (auto simp: wake_def wake_begin_def defer_owned)
  next
    case True
    define j where "j = (if ok then (set_state now READY ((touch now (i\<lparr>mi_desired := RUNNING\<rparr>))\<lparr>mi_error := None\<rparr>))\<lparr>mi_was_failed := False\<rparr>
        else touch now ((touch now (i\<lparr>mi_desired := RUNNING\<rparr>))\<lparr>mi_desired := ASLEEP\<rparr>))"
    show ?thesis
    proof (rule owned_update [OF assms Some])
      show "reg_get (nd_reg (snd (wake e now ok key n))) k = (if k = key then Some j else reg_get (nd_reg n) k)" for k
        using True Some by (simp add: wake_def wake_begin_def wake_finish_def wake_failed_def j_def)
    qed (use ok True Some in \<open>auto simp: wake_def wake_begin_def wake_finish_def wake_failed_def j_def
          intro!: reg_ok_upd split: if_splits\<close>)
  qed
qed

lemma reconcile_key_owned:
  assumes "owned n" "reconcile_key ob se now key (ts, n) = (ts', n')"
  shows "owned n'"
proof (cases "reg_get (nd_reg n) key")
  case None
  then show ?thesis using assms by (simp add: reconcile_key_def)
next
  case (Some i)
  obtain t kill j where r: "reconcile_instance ob se now (poll n) i = (t, kill, j)" by (metis prod.collapse)
  have n': "n' = (case kill of None \<Rightarrow> id | Some p \<Rightarrow> terminate_process_group p) (on_inst key (\<lambda>_. j) n)"
    using assms(2) Some r by (simp add: reconcile_key_def)
  note h = owned_handle [OF assms(1) Some]
  have key: "mi_key i = key" using reg_ok_key [OF owned_reg_ok [OF assms(1)] Some] .
  have jk: "mi_key j = key" using reconcile_keeps(1) [OF r] key by simp
  show ?thesis
  proof (rule owned_update [OF assms(1) Some])
    show "reg_ok (nd_reg n')"
    proof -
      have "reg_ok (reg_upd key (\<lambda>_. j) (nd_reg n))"
        using owned_reg_ok [OF assms(1)] Some jk set_dset_subset [of key j "nd_reg n"]
        by (fastforce simp: reg_ok_def reg_upd_def reg_get_def split: option.split)
      then show ?thesis by (simp add: n' split: option.split)
    qed
    show "store_ok n'" using owned_store_ok [OF assms(1)] by (simp add: n' split: option.split)
    show "reg_get (nd_reg n') k = (if k = key then Some j else reg_get (nd_reg n) k)" for k
      using Some by (simp add: n' split: option.split)
    show "nd_next_pid n \<le> nd_next_pid n'" by (simp add: n' split: option.split)
    show "mi_proc j = Some p \<or> alive n p \<and> mi_proc i \<noteq> Some p" if "alive n' p" for p
    proof -
      have "alive n p" "kill \<noteq> Some p" using that by (auto simp: n' split: option.splits)
      then show ?thesis using reconcile_proc [OF r] by (auto simp: alive_poll)
    qed
    show "(mi_proc i = Some p \<or> nd_next_pid n \<le> p) \<and> p < nd_next_pid n' \<and> mi_managed j \<and>
        mi_state j \<noteq> STOPPED \<and> mi_state j \<noteq> FAILED" if "mi_proc j = Some p" for p
    proof -
      have same: "mi_proc i = Some p" "mi_state j = mi_state i \<or> mi_state j = READY"
        using reconcile_proc [OF r] that by auto
      show ?thesis
        using same h [OF same(1)] reconcile_keeps(3) [OF r] by (auto simp: n' split: option.split)
    qed
  qed
qed

lemma gather_owned:
  assumes "owned n"
  shows "owned (snd (gather ob se now n))"
proof -
  have "owned (snd (fold (reconcile_key ob se now) ks (ts, n)))" if "owned n" for ks ts n
    using that
  proof (induction ks arbitrary: ts n)
    case (Cons k ks)
    then show ?case
      using reconcile_key_owned [of n ob se now k ts] by (cases "reconcile_key ob se now k (ts, n)") auto
  qed simp
  then show ?thesis using assms by (simp add: gather_def)
qed

lemma persist_owned:
  assumes "owned n"
  shows "owned (persist_transitions se now ts n)"
proof (rule owned_frame [OF assms])
  show "reg_ok (nd_reg (persist_transitions se now ts n))"
    using owned_reg_ok [OF assms]
    by (induction ts arbitrary: n) (simp_all add: persist_transitions_def reg_ok_emit del: emit_reg)
  show "store_ok (persist_transitions se now ts n)"
    using owned_store_ok [OF assms] store_ok_cong [OF persist_facts(8)] by blast
qed (simp_all add: persist_facts)

lemma backfill_desired: "so_desired (backfill_instance e now i s) = so_desired s"
  by (simp add: backfill_instance_def Let_def upsert_instance_live_def upsert_instance_observed_def)

lemma fold_desired:
  "(\<And>x s. so_desired (f x s) = so_desired s) \<Longrightarrow> so_desired (fold f xs s) = so_desired s"
  by (induction xs arbitrary: s) auto

lemma backfill_facts [simp]:
  "nd_reg (backfill_node_state e now ts fs n) = nd_reg n" "nd_procs (backfill_node_state e now ts fs n) = nd_procs n"
  "nd_next_pid (backfill_node_state e now ts fs n) = nd_next_pid n"
  "nd_config (backfill_node_state e now ts fs n) = nd_config n"
  "spawns (backfill_node_state e now ts fs n) k = spawns n k"
  "map_option so_desired (nd_store (backfill_node_state e now ts fs n)) = map_option so_desired (nd_store n)"
  by (simp_all add: backfill_node_state_def option.map_comp comp_def Let_def prune_instance_observed_def
      prune_instances_live_def)
    (cases "nd_store n"; simp add: fold_desired backfill_desired remove_instance_live_def)

lemma frame_owned:
  assumes "owned n" "nd_reg n' = nd_reg n" "nd_procs n' = nd_procs n" "nd_next_pid n' = nd_next_pid n"
    and "map_option so_desired (nd_store n') = map_option so_desired (nd_store n)"
  shows "owned n'"
  using owned_frame [OF assms(1), of n'] assms owned_reg_ok [OF assms(1)] owned_store_ok [OF assms(1)]
    store_ok_cong [OF assms(5)] by simp

lemma fold_keyed:
  assumes "distinct (map f xs)" "I n" "\<And>x. x \<in> set xs \<Longrightarrow> G x (reg_get (nd_reg n) (f x))"
    and "\<And>x n. x \<in> set xs \<Longrightarrow> I n \<Longrightarrow> G x (reg_get (nd_reg n) (f x)) \<Longrightarrow> I (opr x n)"
    and "\<And>x n. elsewhere (f x) n (opr x n)"
  shows "I (fold opr xs n)"
  using assms(1-4)
proof (induction xs arbitrary: n)
  case (Cons x xs)
  have "I (fold opr xs (opr x n))"
  proof (rule Cons.IH)
    show "I (opr x n)" using Cons.prems by simp
    show "G y (reg_get (nd_reg (opr x n)) (f y))" if y: "y \<in> set xs" for y
    proof -
      have "f y \<noteq> f x" using Cons.prems(1) y by (metis image_eqI list.set_map distinct.simps(2) list.map(2))
      then have "reg_get (nd_reg (opr x n)) (f y) = reg_get (nd_reg n) (f y)"
        using assms(5) [of x n] by (simp add: elsewhere_def)
      then show ?thesis using Cons.prems(3) [of y] y by simp
    qed
  qed (use Cons.prems in auto)
  then show ?case by simp
qed simp

lemma due_keys:
  assumes "reg_ok r"
  shows "distinct (map mi_key (filter P (reg_values r)))"
    and "k \<in> set (map mi_key (filter P (reg_values r))) \<longleftrightarrow> (\<exists>i. reg_get r k = Some i \<and> P i)"
proof -
  have keys: "map mi_key (reg_values r) = map fst r"
    using assms by (auto simp: reg_values_def reg_ok_def)
  then have "distinct (map mi_key (reg_values r))" using assms by (simp add: reg_ok_def dict_ok_def)
  then show "distinct (map mi_key (filter P (reg_values r)))"
    by (rule distinct_map_filter)
  show "k \<in> set (map mi_key (filter P (reg_values r))) \<longleftrightarrow> (\<exists>i. reg_get r k = Some i \<and> P i)"
    using assms reg_ok_key [OF assms] by (auto simp: reg_values_iff image_iff)
qed

lemma claim_sel [simp]:
  "mi_key (claim_restart i) = mi_key i" "mi_state (claim_restart i) = mi_state i" "mi_proc (claim_restart i) = mi_proc i"
  "mi_managed (claim_restart i) = mi_managed i" "mi_desired (claim_restart i) = mi_desired i"
  "mi_restarts (claim_restart i) = Suc (mi_restarts i)" "mi_next_restart (claim_restart i) = None"
  "mi_engine (claim_restart i) = mi_engine i"
  by (simp_all add: claim_restart_def)

definition claim_all :: "string list \<Rightarrow> node \<Rightarrow> node" where
  "claim_all due n = fold (\<lambda>k. on_inst k claim_restart) due n"

lemma claim_all_get:
  "distinct due \<Longrightarrow> reg_get (nd_reg (claim_all due n)) k =
     (if k \<in> set due then map_option claim_restart (reg_get (nd_reg n) k) else reg_get (nd_reg n) k)"
  by (induction due arbitrary: n) (auto simp: claim_all_def)

lemma claim_all_facts [simp]:
  "spawns (claim_all due n) k = spawns n k" "stored_desired (claim_all due n) k = stored_desired n k"
  "nd_config (claim_all due n) = nd_config n" "nd_store (claim_all due n) = nd_store n"
  by (induction due arbitrary: n) (simp_all add: claim_all_def)

lemma claim_all_owned: "owned n \<Longrightarrow> owned (claim_all due n)"
proof (induction due arbitrary: n)
  case (Cons k due)
  have "owned (on_inst k claim_restart n)"
    by (rule owned_field [OF Cons.prems, of _ k claim_restart])
      (use Cons.prems in \<open>auto simp: owned_store_ok owned_handle\<close>)
  then show ?case using Cons.IH by (simp add: claim_all_def)
qed (simp add: claim_all_def)

lemma process_restarts_owned:
  assumes "owned n"
  shows "owned (process_restarts e ob now fs n)"
proof -
  define due where "due = map mi_key (filter (restart_due (en_set e) now fs) (reg_values (nd_reg n)))"
  have d: "distinct due" using due_keys(1) [OF owned_reg_ok [OF assms]] by (simp add: due_def)
  have failed: "\<exists>i. reg_get (nd_reg n) k = Some i \<and> mi_state i = FAILED" if "k \<in> set due" for k
    using that due_keys(2) [OF owned_reg_ok [OF assms]] by (auto simp: due_def restart_due_def)
  have "owned (fold (\<lambda>k m. snd (start e now False False (ob_spawn_ok ob k) k m)) due (claim_all due n))"
  proof (rule fold_keyed [of id _ _ _ "\<lambda>k x. \<exists>i. x = Some i \<and> mi_state i = FAILED"])
    show "owned (claim_all due n)" by (rule claim_all_owned [OF assms])
    show "\<exists>i. reg_get (nd_reg (claim_all due n)) (id k) = Some i \<and> mi_state i = FAILED" if "k \<in> set due" for k
      using failed [OF that] that by (auto simp: claim_all_get [OF d])
    show "owned (snd (start e now False False (ob_spawn_ok ob k) k m))"
      if "owned m" "\<exists>i. reg_get (nd_reg m) (id k) = Some i \<and> mi_state i = FAILED" for k m
      using that by (intro start_owned) auto
  qed (use d start_elsewhere in auto)
  then show ?thesis by (simp add: process_restarts_def due_def claim_all_def Let_def)
qed

lemma converge_key_elsewhere: "elsewhere (fst kw) n (converge_key e ob now fs states kw n)"
  by (auto simp: converge_key_def op_elsewhere split: prod.split option.split)

lemma desired_keys: "map fst (list_instance_desired s) = map fst (so_desired s)"
  by (simp add: list_instance_desired_def split_beta comp_def)

definition snapshot :: "node \<Rightarrow> (string, model_state) dict" where
  "snapshot n = map (\<lambda>(k, i). (mi_key i, mi_state i)) (nd_reg n)"

lemma snapshot_get: "reg_ok (nd_reg n) \<Longrightarrow> map_of (snapshot n) k = map_option mi_state (reg_get (nd_reg n) k)"
proof -
  assume ok: "reg_ok (nd_reg n)"
  then have "snapshot n = map (\<lambda>(k, i). (k, mi_state i)) (nd_reg n)"
    by (auto simp: snapshot_def reg_ok_def)
  then show ?thesis by (simp add: reg_get_def map_of_map)
qed

lemma converge_owned:
  assumes "owned n"
  shows "owned (converge_desired e ob now fs n)"
proof (cases "nd_store n")
  case None
  then show ?thesis using assms by (simp add: converge_desired_def)
next
  case (Some s)
  have d: "distinct (map fst (list_instance_desired s))"
    using owned_store_ok [OF assms] Some by (simp add: store_ok_def desired_keys dict_ok_def)
  have "owned (fold (converge_key e ob now fs (snapshot n)) (list_instance_desired s) n)"
  proof (rule fold_keyed [of fst _ _ _ "\<lambda>kw x. map_of (snapshot n) (fst kw) = map_option mi_state x"])
    show "map_of (snapshot n) (fst kw) = map_option mi_state (reg_get (nd_reg n) (fst kw))" for kw
      by (rule snapshot_get [OF owned_reg_ok [OF assms]])
    show "owned (converge_key e ob now fs (snapshot n) kw m)"
      if om: "owned m" and snap: "map_of (snapshot n) (fst kw) = map_option mi_state (reg_get (nd_reg m) (fst kw))" for kw m
    proof -
      have st: "owned (snd (start e now False True ok (fst kw) m))" if "map_of (snapshot n) (fst kw) = Some STOPPED" for ok
        by (rule start_owned [OF om]) (use that snap in simp)
      show ?thesis
        by (simp add: converge_key_def split_beta st stop_owned sleep_owned wake_owned om split: option.split)
    qed
  qed (use d assms converge_key_elsewhere in auto)
  then show ?thesis by (simp add: converge_desired_def Some snapshot_def Let_def)
qed

lemma reload_owned: "owned n \<Longrightarrow> owned (trigger_router_reload e n)"
  by (rule frame_owned) auto

lemma reconcile_once_owned:
  assumes "owned n"
  shows "owned (reconcile_once e ob now n)"
proof -
  obtain ts n1 where g: "gather ob (en_set e) now n = (ts, n1)" by (metis prod.collapse)
  define n2 where "n2 = persist_transitions (en_set e) now ts n1"
  define fs where "fs = foreign_assignments e now n2"
  define n3 where "n3 = backfill_node_state e now ts fs n2"
  have "owned n1" using gather_owned [OF assms, of ob "en_set e" now] g by simp
  then have "owned n2" by (simp add: n2_def persist_owned)
  then have "owned n3" unfolding n3_def by (rule frame_owned) auto
  then have "owned n3" by simp
  define n4 where "n4 = (if \<exists>t \<in> set ts. tr_to t = READY \<and> tr_kind t = LLM then trigger_router_reload e n3 else n3)"
  define n5 where "n5 = (if se_auto_restart (en_set e) then process_restarts e ob now fs n4 else n4)"
  have "owned n4" using \<open>owned n3\<close> by (simp add: n4_def reload_owned)
  then have "owned n5" by (simp add: n5_def process_restarts_owned)
  moreover have "reconcile_once e ob now n = converge_desired e ob now fs n5"
    unfolding reconcile_once_def g Let_def split_conv n2_def fs_def n3_def n4_def n5_def by (rule refl)
  ultimately show ?thesis by (simp add: converge_owned)
qed

lemma owned_regs:
  assumes "owned n" "reg_ok (nd_reg n')" "store_ok n'" "nd_next_pid n' = nd_next_pid n" "nd_procs n' = nd_procs n"
    and new: "\<And>k j p. reg_get (nd_reg n') k = Some j \<Longrightarrow> mi_proc j = Some p \<Longrightarrow>
      \<exists>i. reg_get (nd_reg n) k = Some i \<and> mi_proc i = Some p \<and> mi_managed j = mi_managed i \<and> mi_state j = mi_state i"
    and kept: "\<And>k i p. reg_get (nd_reg n) k = Some i \<Longrightarrow> mi_proc i = Some p \<Longrightarrow>
      \<exists>j. reg_get (nd_reg n') k = Some j \<and> mi_proc j = Some p"
  shows "owned n'"
proof -
  have al: "alive n' p = alive n p" for p by (simp add: alive_def assms(5))
  show ?thesis
    unfolding owned_def al assms(4)
  proof (intro conjI allI impI)
    show "reg_ok (nd_reg n')" "store_ok n'" by fact+
    show "\<exists>k i. reg_get (nd_reg n') k = Some i \<and> mi_proc i = Some p" if "alive n p" for p
      using assms(1) that kept unfolding owned_def by meson
    show "p < nd_next_pid n" "mi_managed i" "mi_state i \<noteq> STOPPED" "mi_state i \<noteq> FAILED"
      if h: "reg_get (nd_reg n') k = Some i" "mi_proc i = Some p" for k i p
      using new [OF h] owned_handle [OF assms(1)] by metis+
    show "k = k'" if h: "reg_get (nd_reg n') k = Some a" "reg_get (nd_reg n') k' = Some b"
        "mi_proc a = Some p" "mi_proc b = Some p" for k k' a b p
      using new [OF h(1,3)] new [OF h(2,4)] assms(1) unfolding owned_def by metis
  qed
qed

lemma commit_facts:
  "commit_overlay e ov n = Some n' \<Longrightarrow>
     nd_reg n' = nd_reg n \<and> nd_procs n' = nd_procs n \<and> nd_next_pid n' = nd_next_pid n \<and> nd_store n' = nd_store n"
  by (auto simp: commit_overlay_def)

lemma commit_owned: "owned n \<Longrightarrow> commit_overlay e ov n = Some n' \<Longrightarrow> owned n'"
  using commit_facts [of e ov n n'] by (intro frame_owned [of n n']) auto

lemma create_owned:
  assumes "owned n"
  shows "owned (snd (create_overlay_model e now grp i mc au n))"
proof -
  have add: "owned (emit_transition (en_set e) now key None STOPPED d
      (n1\<lparr>nd_reg := reg_add (instance_of now key LLM sp) (nd_reg n1)\<rparr>))"
    if "owned n1" "reg_get (nd_reg n1) key = None" for n1 key sp d
    by (rule owned_regs [OF that(1)])
      (use that in \<open>auto simp: owned_reg_ok reg_ok_add owned_store_ok store_ok_def [of "_\<lparr>nd_reg := _\<rparr>"]
        store_ok_def [symmetric] instance_of_def new_instance_def split: if_splits\<close>)
  show ?thesis
  proof (cases "reg_get (nd_reg n) (grp @ sep2 @ ic_id i) = None")
    case fresh: True
    define g where "g = (case au of None \<Rightarrow> create_entry (nd_config n) (nd_overlay n) grp i mc
      | Some d \<Rightarrow> (create_entry (nd_config n) (nd_overlay n) grp i mc)\<lparr>gc_autoscale := Val d\<rparr>)"
    show ?thesis
    proof (cases "commit_overlay e (put_entry grp g (nd_overlay n)) n")
      case None
      then show ?thesis using assms by (simp add: create_overlay_model_def Let_def g_def [symmetric])
    next
      case (Some n1)
      have "owned n1" "reg_get (nd_reg n1) (grp @ sep2 @ ic_id i) = None"
        using commit_owned [OF assms Some] commit_facts [OF Some] fresh by simp_all
      note done' = add [OF this]
      show ?thesis
      proof (cases "respec e grp (grp @ sep2 @ ic_id i) n1")
        case (Inl er)
        then show ?thesis using assms Some \<open>owned n1\<close> by (simp add: create_overlay_model_def Let_def g_def [symmetric])
      next
        case (Inr sp)
        then show ?thesis using assms Some done' by (simp add: create_overlay_model_def Let_def g_def [symmetric])
      qed
    qed
  next
    case False
    then show ?thesis using assms by (simp add: create_overlay_model_def Let_def)
  qed
qed

lemma delete_owned:
  assumes "owned n"
  shows "owned (snd (delete_overlay_model e key n))"
proof (cases "reg_get (nd_reg n) key")
  case None
  then show ?thesis using assms by (simp add: delete_overlay_model_def)
next
  case (Some r)
  have gone: "owned (on_store (\<lambda>s. delete_assignment key (delete_instance_desired key s))
      (n\<lparr>nd_overlay := ov, nd_config := cfg, nd_reg := reg_remove key (nd_reg n)\<rparr>))"
    if "mi_state r = STOPPED \<or> mi_state r = FAILED" for ov cfg
  proof (rule owned_regs [OF assms])
    have none: "mi_proc r = None" using owned_idle [OF assms Some that] .
    show "\<exists>j. reg_get (nd_reg (on_store (\<lambda>s. delete_assignment key (delete_instance_desired key s))
      (n\<lparr>nd_overlay := ov, nd_config := cfg, nd_reg := reg_remove key (nd_reg n)\<rparr>))) k = Some j \<and> mi_proc j = Some p"
      if "reg_get (nd_reg n) k = Some i" "mi_proc i = Some p" for k i p
      using that none Some by (cases "k = key") auto
    show "store_ok (on_store (\<lambda>s. delete_assignment key (delete_instance_desired key s))
      (n\<lparr>nd_overlay := ov, nd_config := cfg, nd_reg := reg_remove key (nd_reg n)\<rparr>))"
      using owned_store_ok [OF assms]
      by (auto simp: store_ok_def delete_assignment_def delete_instance_desired_def split: option.splits)
  qed (auto simp: owned_reg_ok [OF assms] reg_ok_remove split: if_splits)
  have kept: "owned (n\<lparr>nd_overlay := ov\<rparr>)" for ov
    by (rule frame_owned [OF assms]) simp_all
  show ?thesis
    using Some assms gone kept by (auto simp: delete_overlay_model_def Let_def split: option.split)
qed

lemma reg_ok_resync: "reg_ok r \<Longrightarrow> reg_ok (resync now want r)"
proof -
  have rem: "reg_ok r \<Longrightarrow> reg_ok (fold reg_remove ks r)" for ks r
    by (rule fold_invariant) (simp_all add: reg_ok_remove)
  have add: "reg_ok r \<Longrightarrow> reg_ok (add_wanted now want k r)" for k r
    by (auto simp: add_wanted_def reg_ok_add split: option.split)
  have chg: "reg_ok r \<Longrightarrow> reg_ok (respec_wanted want k r)" for k r
    by (auto simp: respec_wanted_def apply_spec_def intro!: reg_ok_upd split: option.split)
  have "reg_ok r \<Longrightarrow> reg_ok (fold (add_wanted now want) ks r)" "reg_ok r \<Longrightarrow> reg_ok (fold (respec_wanted want) ks r)" for ks r
    by (rule fold_invariant; simp add: add chg)+
  then show "reg_ok r \<Longrightarrow> reg_ok (resync now want r)" by (simp add: resync_def Let_def rem)
qed

lemma import_owned:
  assumes "owned n"
  shows "owned (snd (import_overlay e now answers False actor role summary ov n))"
proof (cases "fst (import_overlay e now answers False actor role summary ov n)")
  case (Inl er)
  then have "snd (import_overlay e now answers False actor role summary ov n) = n"
    by (auto simp: import_overlay_def Let_def resync_registry_def split: option.splits if_splits)
  then show ?thesis using assms by simp
next
  case (Inr sy)
  define n' where "n' = snd (import_overlay e now answers False actor role summary ov n)"
  have imp: "import_overlay e now answers False actor role summary ov n = (Inr sy, n')"
    using Inr by (simp add: n'_def prod_eq_iff)
  then obtain cfg want where cfg: "build_merged_config (en_valid e) (en_base e) ov = Some cfg"
      "resolve_specs e cfg = Some want" "import_busy want n = []"
    by (auto simp: import_overlay_def Let_def split: option.splits if_splits)
  define n3 where "n3 = (if nd_pg n then on_store (snapshot_overlay e now actor role summary ov) (n\<lparr>nd_overlay := ov, nd_config := cfg\<rparr>)
      else n\<lparr>nd_overlay := ov, nd_config := cfg\<rparr>)"
  have "import_overlay e now answers False actor role summary ov n =
      (Inr (summarize want (nd_reg n3)), trigger_router_reload e (n3\<lparr>nd_reg := resync now want (nd_reg n3)\<rparr>))"
    by (simp add: import_overlay_def cfg resync_registry_def Let_def n3_def)
  then have eq: "n' = trigger_router_reload e (n3\<lparr>nd_reg := resync now want (nd_reg n3)\<rparr>)"
    by (simp add: n'_def)
  have snap: "so_desired (snapshot_overlay e now actor role summary ov s) = so_desired s" for s
    by (simp add: snapshot_overlay_def record_config_version_def tinsert_def)
  have n3: "nd_reg n3 = nd_reg n" "nd_procs n3 = nd_procs n" "nd_next_pid n3 = nd_next_pid n"
    "map_option so_desired (nd_store n3) = map_option so_desired (nd_store n)"
    by (simp_all add: n3_def option.map_comp comp_def snap)
  have n': "nd_reg n' = resync now want (nd_reg n)" "nd_procs n' = nd_procs n" "nd_next_pid n' = nd_next_pid n"
    "map_option so_desired (nd_store n') = map_option so_desired (nd_store n)"
    by (simp_all add: eq n3)
  have "owned n'"
  proof (rule owned_regs [OF assms])
    show "store_ok n'" using owned_store_ok [OF assms] store_ok_cong [OF n'(4)] by simp
    show "reg_ok (nd_reg n')" using owned_reg_ok [OF assms] by (simp add: n' reg_ok_resync)
    show "\<exists>i. reg_get (nd_reg n) k = Some i \<and> mi_proc i = Some p \<and> mi_managed j = mi_managed i \<and> mi_state j = mi_state i"
      if "reg_get (nd_reg n') k = Some j" "mi_proc j = Some p" for k j p
      using that by (auto simp: n' resync_get instance_of_def new_instance_def apply_spec_def split: option.splits if_splits)
    show "\<exists>j. reg_get (nd_reg n') k = Some j \<and> mi_proc j = Some p"
      if "reg_get (nd_reg n) k = Some i" "mi_proc i = Some p" for k i p
      using import_keeps_live [OF imp that(1)] owned_handle [OF assms that] that(2) by auto
  qed (simp_all add: n')
  then show ?thesis by (simp add: n'_def)
qed

lemma update_owned:
  assumes "owned n"
  shows "owned (snd (update_overlay_model e now key inst mc n))"
proof -
  have edit: "owned (emit_transition se now key None st d (on_inst key (\<lambda>j. touch now (apply_spec sp j)) n1))"
    if "owned n1" "reg_get (nd_reg n1) key = Some r" for n1 sp d se st r
  proof (rule owned_frame)
    show o1: "owned (on_inst key (\<lambda>j. touch now (apply_spec sp j)) n1)"
      by (rule owned_field [OF that(1), of _ key "\<lambda>j. touch now (apply_spec sp j)"])
        (use that in \<open>auto simp: apply_spec_def owned_store_ok owned_handle\<close>)
    show "reg_ok (nd_reg (emit_transition se now key None st d (on_inst key (\<lambda>j. touch now (apply_spec sp j)) n1)))"
      using owned_reg_ok [OF o1] by (rule reg_ok_emit)
    show "store_ok (emit_transition se now key None st d (on_inst key (\<lambda>j. touch now (apply_spec sp j)) n1))"
      using owned_store_ok [OF o1] by simp
  qed (simp_all add: emit_core del: emit_reg on_inst_sel(1))
  show ?thesis
  proof (cases "reg_get (nd_reg n) key")
    case None
    then show ?thesis using assms by (simp add: update_overlay_model_def)
  next
    case (Some r)
    define g where "g = (dget (rc_engines (nd_overlay n)) (key_group key) (empty_entry\<lparr>gc_instances := Some []\<rparr>))"
    define ov where "ov = put_entry (key_group key) (g\<lparr>gc_instances := Some (replace_instance (inst\<lparr>ic_id := key_instance key\<rparr>)
      (group_instances g)), gc_model_config := Some mc\<rparr>) (nd_overlay n)"
    show ?thesis
    proof (cases "commit_overlay e ov n")
      case None
      then show ?thesis using assms Some
        by (simp add: update_overlay_model_def Let_def flip: g_def ov_def)
    next
      case c: (Some n1)
      have n1: "owned n1" "reg_get (nd_reg n1) key = Some r"
        using commit_owned [OF assms c] commit_facts [OF c] Some by simp_all
      show ?thesis
        using assms Some c n1 edit [OF n1]
        by (cases "respec e (key_group key) key n1") (simp_all add: update_overlay_model_def Let_def flip: g_def ov_def)
    qed
  qed
qed

lemma exit_owned: "owned n \<Longrightarrow> owned (proc_exit p rc n)"
proof -
  assume o: "owned n"
  have a: "alive (proc_exit p rc n) q = (q \<noteq> p \<and> alive n q)" for q
    by (auto simp: proc_exit_def alive_def)
  have "nd_reg (proc_exit p rc n) = nd_reg n" "nd_next_pid (proc_exit p rc n) = nd_next_pid n"
    "store_ok (proc_exit p rc n) = store_ok n"
    by (simp_all add: proc_exit_def store_ok_def)
  then show "owned (proc_exit p rc n)"
    using o unfolding owned_def a by presburger
qed

text \<open>Edits of the configuration and adapter calls leave instances and processes alone.\<close>

lemma log_owned: "owned n \<Longrightarrow> owned (log_call c n)"
  by (rule frame_owned) (auto simp: log_call_def)

lemma load_all_owned: "owned n \<Longrightarrow> owned (snd (load_all name out is loaded n))"
  by (induction "name" out "is" loaded n rule: load_all.induct) (auto simp: log_owned split: post.split)

lemma unload_each_owned: "owned n \<Longrightarrow> owned (unload_each name out ks n)"
  unfolding unload_each_def by (rule fold_invariant) (auto simp: log_owned)

lemma persist_lora_owned: "owned n \<Longrightarrow> persist_lora e g name en n = Some n' \<Longrightarrow> owned n'"
  by (auto simp: persist_lora_def Let_def commit_owned split: option.splits)

lemma edits_owned:
  assumes "owned n"
  shows "owned (snd (set_autoscale e g pol n))" "owned (snd (set_fallback e g names n))"
    "owned (snd (update_embedding_model e ty name params n))"
  using assms by (auto simp: set_autoscale_def set_fallback_def update_embedding_model_def Let_def split: option.split
      intro: commit_owned reload_owned [OF commit_owned])

lemma lora_owned:
  assumes o: "owned n"
  shows "owned (snd (load_lora e out undo g name path base n))" "owned (snd (unload_lora e out g name n))"
proof -
  obtain loaded er n1 where l: "load_all name out (ready_lora_targets g n) [] n = ((loaded, er), n1)" by (metis prod.exhaust)
  have n1: "owned n1" using load_all_owned [OF o, of name out "ready_lora_targets g n" "[]"] by (simp add: l)
  show "owned (snd (load_lora e out undo g name path base n))"
    using o n1 unload_each_owned [OF n1]
    by (auto simp: load_lora_def Let_def l intro: persist_lora_owned split: option.split mgr_err.split)
  show "owned (snd (unload_lora e out g name n))"
    using o unload_each_owned [OF o] by (auto simp: unload_lora_def Let_def intro: persist_lora_owned split: option.split)
qed

text \<open>An alignment of the registry drops no process as long as it removes no instance that lives.\<close>

definition drops_live :: "env \<Rightarrow> root_cfg \<Rightarrow> node \<Rightarrow> bool" where
  "drops_live e ov n =
     (case build_merged_config (en_valid e) (en_base e) ov of
        None \<Rightarrow> False
      | Some cfg \<Rightarrow>
          (case resolve_specs e cfg of
             None \<Rightarrow> False
           | Some want \<Rightarrow> list_ex (\<lambda>k. is_live n k \<and> \<not> dhas want k) (dkeys (nd_reg n))))"

text \<open>The node after the stops of a forced import.\<close>

definition stopped_busy :: "env \<Rightarrow> real \<Rightarrow> (string \<Rightarrow> drain_answer list) \<Rightarrow> root_cfg \<Rightarrow> node \<Rightarrow> node" where
  "stopped_busy e now answers ov n =
     (case build_merged_config (en_valid e) (en_base e) ov of
        None \<Rightarrow> n
      | Some cfg \<Rightarrow>
          (case resolve_specs e cfg of
             None \<Rightarrow> n
           | Some want \<Rightarrow> fold (\<lambda>k m. snd (stop e now (answers k) k m)) (import_busy want n) n))"

lemma resync_owned:
  assumes o: "owned n" and reg: "nd_reg n' = resync now want (nd_reg n)"
    and same: "nd_procs n' = nd_procs n" "nd_next_pid n' = nd_next_pid n"
      "map_option so_desired (nd_store n') = map_option so_desired (nd_store n)"
    and keep: "\<And>k i. reg_get (nd_reg n) k = Some i \<Longrightarrow> mi_state i \<noteq> STOPPED \<Longrightarrow> mi_state i \<noteq> FAILED \<Longrightarrow> dhas want k"
  shows "owned n'"
proof (rule owned_regs [OF o])
  show "store_ok n'" using owned_store_ok [OF o] store_ok_cong [OF same(3)] by simp
  show "reg_ok (nd_reg n')" using owned_reg_ok [OF o] by (simp add: reg reg_ok_resync)
  show "\<exists>i. reg_get (nd_reg n) k = Some i \<and> mi_proc i = Some p \<and> mi_managed j = mi_managed i \<and> mi_state j = mi_state i"
    if "reg_get (nd_reg n') k = Some j" "mi_proc j = Some p" for k j p
    using that by (auto simp: reg resync_get instance_of_def new_instance_def apply_spec_def split: option.splits if_splits)
  show "\<exists>j. reg_get (nd_reg n') k = Some j \<and> mi_proc j = Some p"
    if h: "reg_get (nd_reg n) k = Some i" "mi_proc i = Some p" for k i p
  proof -
    have "dhas want k" using keep [OF h(1)] owned_handle [OF o h] by blast
    then show ?thesis using h by (auto simp: reg resync_get apply_spec_def dhas_def split: option.splits)
  qed
qed (simp_all add: same)

lemma not_dropped:
  assumes "\<not> drops_live e ov n" "build_merged_config (en_valid e) (en_base e) ov = Some cfg" "resolve_specs e cfg = Some want"
    and "reg_get (nd_reg n) k = Some i" "mi_state i \<noteq> STOPPED" "mi_state i \<noteq> FAILED"
  shows "dhas want k"
proof -
  have "k \<in> set (dkeys (nd_reg n))" "is_live n k"
    using assms(4-6) by (simp_all add: is_live_def reg_has_keys [symmetric] reg_get_def dhas_iff_keys [symmetric] dhas_def)
  then show ?thesis using assms(1-3) by (auto simp: drops_live_def list_ex_iff)
qed

lemma sync_owned:
  assumes o: "owned n" and live: "\<not> drops_live e (nd_overlay (snd (hydrate_overlay e n))) n"
  shows "owned (snd (sync_overlay_from_store e now n))"
proof -
  obtain f n1 where h: "hydrate_overlay e n = (f, n1)" by (metis prod.exhaust)
  then have n1: "nd_reg n1 = nd_reg n" "nd_procs n1 = nd_procs n" "nd_next_pid n1 = nd_next_pid n" "nd_store n1 = nd_store n"
    by (auto simp: hydrate_overlay_def split: option.splits if_splits)
  have o1: "owned n1" by (rule frame_owned [OF o]) (simp_all add: n1)
  show ?thesis
  proof (cases "f \<and> (\<exists>cfg want. build_merged_config (en_valid e) (en_base e) (nd_overlay n1) = Some cfg \<and> resolve_specs e cfg = Some want)")
    case False
    then show ?thesis
      using o1 by (auto simp: sync_overlay_from_store_def h resync_registry_def split: option.splits bool.splits)
  next
    case True
    then obtain cfg want where c: "f" "build_merged_config (en_valid e) (en_base e) (nd_overlay n1) = Some cfg" "resolve_specs e cfg = Some want"
      by blast
    define n3 where "n3 = n1\<lparr>nd_reg := resync now want (nd_reg n1), nd_config := cfg\<rparr>"
    have o3: "owned n3"
    proof (rule resync_owned [OF o1, of _ now want])
      show "dhas want k" if "reg_get (nd_reg n1) k = Some i" "mi_state i \<noteq> STOPPED" "mi_state i \<noteq> FAILED" for k i
        using not_dropped [OF _ c(2,3)] live that by (simp add: h n1)
    qed (simp_all add: n3_def)
    have "snd (sync_overlay_from_store e now n) = n3 \<or> snd (sync_overlay_from_store e now n) = trigger_router_reload e n3"
      by (auto simp: sync_overlay_from_store_def h c resync_registry_def n3_def Let_def)
    then show ?thesis using o3 reload_owned [OF o3] by auto
  qed
qed

lemma force_owned:
  assumes o: "owned n" and live: "\<not> drops_live e ov (stopped_busy e now answers ov n)"
  shows "owned (snd (import_overlay e now answers True actor role summary ov n))"
proof (cases "\<exists>cfg want. build_merged_config (en_valid e) (en_base e) ov = Some cfg \<and> resolve_specs e cfg = Some want")
  case False
  then show ?thesis using o by (auto simp: import_overlay_def split: option.splits)
next
  case True
  then obtain cfg want where c: "build_merged_config (en_valid e) (en_base e) ov = Some cfg" "resolve_specs e cfg = Some want"
    by blast
  define n1 where "n1 = stopped_busy e now answers ov n"
  have o1: "owned n1"
    unfolding n1_def stopped_busy_def c option.case by (rule fold_invariant [where I = owned, OF o]) (simp add: stop_owned)
  define n3 where "n3 = (if nd_pg n then on_store (snapshot_overlay e now actor role summary ov) (n1\<lparr>nd_overlay := ov, nd_config := cfg\<rparr>)
      else n1\<lparr>nd_overlay := ov, nd_config := cfg\<rparr>)"
  have snap: "so_desired (snapshot_overlay e now actor role summary ov s) = so_desired s" for s
    by (simp add: snapshot_overlay_def record_config_version_def tinsert_def)
  have n3: "nd_reg n3 = nd_reg n1" "nd_procs n3 = nd_procs n1" "nd_next_pid n3 = nd_next_pid n1"
    "map_option so_desired (nd_store n3) = map_option so_desired (nd_store n1)"
    by (simp_all add: n3_def option.map_comp comp_def snap)
  have o4: "owned (n3\<lparr>nd_reg := resync now want (nd_reg n3)\<rparr>)"
  proof (rule resync_owned [OF o1, of _ now want])
    show "dhas want k" if "reg_get (nd_reg n1) k = Some i" "mi_state i \<noteq> STOPPED" "mi_state i \<noteq> FAILED" for k i
      using not_dropped [OF live c] that by (simp add: n1_def)
  qed (simp_all add: n3)
  have "snd (import_overlay e now answers True actor role summary ov n) =
      trigger_router_reload e (n3\<lparr>nd_reg := resync now want (nd_reg n3)\<rparr>)"
    by (simp add: import_overlay_def c resync_registry_def Let_def n3_def n1_def stopped_busy_def)
  then show ?thesis using reload_owned [OF o4] by simp
qed

text \<open>
  What may happen to a node: the handlers of the API, the alignment with the fleet's overlay, a pass
  of the reconciler, a process ending on its own.  Three provisos, without which a process can be left
  behind: the handlers run one after the other (\<open>start_stop_race\<close>), a start is not asked of an
  instance that is asleep or stopping (\<open>start_orphans_sleeper\<close>), and an alignment (of a forced import,
  or with the store) removes no instance that is still alive.
\<close>

inductive node_step :: "env \<Rightarrow> node \<Rightarrow> node \<Rightarrow> bool" for e where
  step_start: "(\<And>i. reg_get (nd_reg n) key = Some i \<Longrightarrow> mi_state i \<noteq> SLEEPING \<and> mi_state i \<noteq> STOPPING) \<Longrightarrow>
    node_step e n (snd (start e now force reset ok key n))"
| step_stop: "node_step e n (snd (stop e now answers key n))"
| step_sleep: "node_step e n (snd (sleep e now ok key n))"
| step_wake: "node_step e n (snd (wake e now ok key n))"
| step_pass: "node_step e n (reconcile_once e ob now n)"
| step_exit: "node_step e n (proc_exit p rc n)"
| step_create: "node_step e n (snd (create_overlay_model e now grp i mc au n))"
| step_update: "node_step e n (snd (update_overlay_model e now key i mc n))"
| step_delete: "node_step e n (snd (delete_overlay_model e key n))"
| step_import: "node_step e n (snd (import_overlay e now as False actor role summary ov n))"
| step_force: "\<not> drops_live e ov (stopped_busy e now as ov n) \<Longrightarrow>
    node_step e n (snd (import_overlay e now as True actor role summary ov n))"
| step_sync: "\<not> drops_live e (nd_overlay (snd (hydrate_overlay e n))) n \<Longrightarrow>
    node_step e n (snd (sync_overlay_from_store e now n))"
| step_autoscale: "node_step e n (snd (set_autoscale e g pol n))"
| step_fallback: "node_step e n (snd (set_fallback e g names n))"
| step_embedding: "node_step e n (snd (update_embedding_model e ty name params n))"
| step_load: "node_step e n (snd (load_lora e out undo g name path base n))"
| step_unload: "node_step e n (snd (unload_lora e out g name n))"

inductive node_reach :: "env \<Rightarrow> node \<Rightarrow> node \<Rightarrow> bool" for e n0 where
  reach_boot: "node_reach e n0 n0"
| reach_step: "node_reach e n0 n \<Longrightarrow> node_step e n n' \<Longrightarrow> node_reach e n0 n'"

text \<open>A backend just started: records without handles (adopted ones included), no process of its own.\<close>

definition booted :: "node \<Rightarrow> bool" where
  "booted n = (reg_ok (nd_reg n) \<and> store_ok n \<and> nd_procs n = [] \<and> (\<forall>(k, i) \<in> set (nd_reg n). mi_proc i = None))"

lemma booted_owned: "booted n \<Longrightarrow> owned n"
  by (fastforce simp: booted_def owned_def alive_def reg_get_def dest: map_of_SomeD)

lemma node_step_owned: "node_step e n n' \<Longrightarrow> owned n \<Longrightarrow> owned n'"
  by (induction rule: node_step.induct)
    (auto intro: start_owned stop_owned sleep_owned wake_owned reconcile_once_owned exit_owned create_owned
      update_owned delete_owned import_owned force_owned sync_owned edits_owned lora_owned)

lemma node_reach_owned: "node_reach e n0 n \<Longrightarrow> booted n0 \<Longrightarrow> owned n"
  by (induction rule: node_reach.induct) (auto intro: booted_owned node_step_owned)

text \<open>
  C12: No orphan processes.  In every state that a node reaches from its boot by the steps of
  \<open>node_step\<close> (handlers, alignments, passes and exits one after the other; no start of an instance that
  is asleep or stopping; no alignment that removes a live instance), each running process is held by
  exactly one instance, and an instance that reads STOPPED or FAILED holds none.
\<close>

theorem no_orphans:
  assumes "booted n0" "node_reach e n0 n"
  shows "(\<forall>p. alive n p \<longrightarrow> (\<exists>!k. \<exists>i. reg_get (nd_reg n) k = Some i \<and> mi_proc i = Some p)) \<and>
    (\<forall>k i. reg_get (nd_reg n) k = Some i \<longrightarrow> mi_state i = STOPPED \<or> mi_state i = FAILED \<longrightarrow> mi_proc i = None)"
proof -
  have o: "owned n" by (rule node_reach_owned [OF assms(2,1)])
  have "\<exists>!k. \<exists>i. reg_get (nd_reg n) k = Some i \<and> mi_proc i = Some p" if "alive n p" for p
    using o that unfolding owned_def by metis
  then show ?thesis using owned_idle [OF o] by blast
qed

section \<open>The restart budget\<close>

definition passes :: "env \<Rightarrow> (observation \<times> real) list \<Rightarrow> node \<Rightarrow> node" where
  "passes e obs n = fold (\<lambda>(ob, now). reconcile_once e ob now) obs n"

text \<open>What concerns one key.\<close>

definition same_at :: "string \<Rightarrow> node \<Rightarrow> node \<Rightarrow> bool" where
  "same_at key n n' =
     (reg_get (nd_reg n') key = reg_get (nd_reg n) key \<and> stored_desired n' key = stored_desired n key \<and>
      spawns n' key = spawns n key \<and> nd_config n' = nd_config n \<and> (nd_store n' = None) = (nd_store n = None))"

lemma same_at_refl [simp]: "same_at key n n"
  by (simp add: same_at_def)

lemma same_at_trans: "same_at key a b \<Longrightarrow> same_at key b c \<Longrightarrow> same_at key a c"
  by (simp add: same_at_def)

lemma elsewhere_same_at: "elsewhere k n n' \<Longrightarrow> k \<noteq> key \<Longrightarrow> same_at key n n'"
  by (auto simp: elsewhere_def same_at_def)

lemma fold_same_at:
  "(\<And>x m. x \<in> set xs \<Longrightarrow> same_at key m (opr x m)) \<Longrightarrow> same_at key n (fold opr xs n)"
proof (induction xs arbitrary: n)
  case (Cons x xs)
  have "same_at key (opr x n) (fold opr xs (opr x n))" by (rule Cons.IH) (simp add: Cons.prems)
  then show ?case using Cons.prems [of x n] by (auto intro: same_at_trans)
qed simp

lemma start_failed_key:
  assumes "reg_get (nd_reg n) key = Some i" "mi_state i = FAILED"
  shows "\<exists>j. reg_get (nd_reg (snd (start e now False False ok key n))) key = Some j \<and>
     (mi_state j = STARTING \<or> mi_state j = FAILED) \<and> mi_restarts j = mi_restarts i \<and>
     spawns (snd (start e now False False ok key n)) key \<le> Suc (spawns n key) \<and>
     (stored_desired (snd (start e now False False ok key n)) key = stored_desired n key \<or>
      stored_desired (snd (start e now False False ok key n)) key = Some ''running'')"
proof (cases "start_plan e False i n")
  case (Inl er)
  then show ?thesis using assms by (auto simp: start_def)
next
  case (Inr sp)
  show ?thesis
    using assms Inr by (simp add: start_def start_begin_def start_failed_def start_finish_def split_beta Let_def)
qed

definition crash_looping :: "string \<Rightarrow> node \<Rightarrow> bool" where
  "crash_looping key n =
     (owned n \<and> (\<exists>i. reg_get (nd_reg n) key = Some i \<and> (mi_state i = STARTING \<or> mi_state i = FAILED)) \<and>
      (stored_desired n key = None \<or> stored_desired n key = Some ''running''))"

definition restarts_left :: "env \<Rightarrow> string \<Rightarrow> node \<Rightarrow> nat" where
  "restarts_left e key n =
     (case reg_get (nd_reg n) key of None \<Rightarrow> 0 | Some i \<Rightarrow> se_max_restarts (en_set e) - mi_restarts i)"

definition potential :: "env \<Rightarrow> string \<Rightarrow> node \<Rightarrow> nat" where
  "potential e key n = spawns n key + restarts_left e key n"

text \<open>The part of \<open>crash_looping\<close> that concerns the key itself.\<close>

definition crash_at :: "string \<Rightarrow> node \<Rightarrow> bool" where
  "crash_at key n =
     ((\<exists>i. reg_get (nd_reg n) key = Some i \<and> (mi_state i = STARTING \<or> mi_state i = FAILED)) \<and>
      (stored_desired n key = None \<or> stored_desired n key = Some ''running''))"

lemma same_at_crash: "same_at key n n' \<Longrightarrow> crash_at key n' = crash_at key n \<and> potential e key n' = potential e key n"
  by (simp add: same_at_def crash_at_def potential_def restarts_left_def)

lemma gather_crash:
  assumes "owned n" "crash_at key n" "\<not> ob_ready ob key" "gather ob se now n = (ts, n1)"
  shows "crash_at key n1 \<and> potential e key n1 = potential e key n"
proof -
  obtain i where i: "reg_get (nd_reg n) key = Some i" "mi_state i = STARTING \<or> mi_state i = FAILED"
    using assms(2) by (auto simp: crash_at_def)
  note g = gather_facts [OF owned_reg_ok [OF assms(1)] assms(4)]
  obtain j m where j: "reg_get (nd_reg n1) key = Some j" "j = snd (snd (reconcile_instance ob se now (poll m) i))"
    using g(6) [OF i(1)] by (auto simp: reconciled_def)
  obtain t kl where r: "reconcile_instance ob se now (poll m) i = (t, kl, j)" using j(2) by (metis prod.collapse)
  have "mi_key i = key" using reg_ok_key [OF owned_reg_ok [OF assms(1)] i(1)] .
  then have "mi_state j = STARTING \<or> mi_state j = FAILED" "mi_restarts j = mi_restarts i"
    using reconcile_not_ready [OF r _ i(2)] assms(3) by auto
  moreover have "stored_desired n1 key = stored_desired n key" by (simp add: stored_desired_def g(1))
  ultimately show ?thesis
    using i j(1) g(4) assms(2) by (auto simp: crash_at_def potential_def restarts_left_def)
qed

lemma core_crash:
  assumes "map_option core (reg_get (nd_reg n') key) = map_option core (reg_get (nd_reg n) key)"
    and "stored_desired n' key = stored_desired n key" "spawns n' key = spawns n key"
  shows "crash_at key n' = crash_at key n \<and> potential e key n' = potential e key n"
proof (cases "reg_get (nd_reg n') key")
  case None
  then have "reg_get (nd_reg n) key = None" using assms(1) by simp
  then show ?thesis using None assms by (simp add: crash_at_def potential_def restarts_left_def)
next
  case (Some i)
  obtain j where "reg_get (nd_reg n) key = Some j" "mi_state j = mi_state i" "mi_restarts j = mi_restarts i"
    using core_eqD [OF assms(1) Some] by auto
  then show ?thesis using Some assms by (simp add: crash_at_def potential_def restarts_left_def)
qed

lemma process_restarts_crash:
  assumes "owned n" "crash_at key n"
  shows "crash_at key (process_restarts e ob now fs n) \<and>
    potential e key (process_restarts e ob now fs n) \<le> potential e key n"
proof -
  define due where "due = map mi_key (filter (restart_due (en_set e) now fs) (reg_values (nd_reg n)))"
  define opr where "opr = (\<lambda>k m. snd (start e now False False (ob_spawn_ok ob k) k m))"
  have d: "distinct due" using due_keys(1) [OF owned_reg_ok [OF assms(1)]] by (simp add: due_def)
  have run: "process_restarts e ob now fs n = fold opr due (claim_all due n)"
    by (simp add: process_restarts_def due_def opr_def claim_all_def Let_def)
  have other: "same_at key m (opr k m)" if "k \<noteq> key" for k m
    unfolding opr_def by (rule elsewhere_same_at [OF start_elsewhere that])
  show ?thesis
  proof (cases "key \<in> set due")
    case False
    have "same_at key n (claim_all due n)"
      using False by (simp add: same_at_def claim_all_get [OF d])
    moreover have "same_at key (claim_all due n) (fold opr due (claim_all due n))"
      by (rule fold_same_at, rule other) (use False in auto)
    ultimately have "same_at key n (process_restarts e ob now fs n)" by (simp add: run same_at_trans)
    then show ?thesis using assms(2) same_at_crash by simp
  next
    case True
    then obtain i where i: "reg_get (nd_reg n) key = Some i" "restart_due (en_set e) now fs i"
      using due_keys(2) [OF owned_reg_ok [OF assms(1)]] by (auto simp: due_def)
    then have fl: "mi_state i = FAILED" "mi_restarts i < se_max_restarts (en_set e)" by (auto simp: restart_due_def)
    obtain pre post where pp: "due = pre @ key # post" using True by (meson split_list)
    then have out: "key \<notin> set pre" "key \<notin> set post" using d by auto
    define a where "a = fold opr pre (claim_all due n)"
    define b where "b = opr key a"
    have sa: "same_at key (claim_all due n) a"
      unfolding a_def by (rule fold_same_at, rule other) (use out in auto)
    have sb: "same_at key b (fold opr post b)"
      by (rule fold_same_at, rule other) (use out in auto)
    have geta: "reg_get (nd_reg a) key = Some (claim_restart i)"
      using sa i(1) True by (simp add: same_at_def claim_all_get [OF d])
    obtain j where j: "reg_get (nd_reg b) key = Some j" "mi_state j = STARTING \<or> mi_state j = FAILED"
        "mi_restarts j = Suc (mi_restarts i)" "spawns b key \<le> Suc (spawns a key)"
        "stored_desired b key = stored_desired a key \<or> stored_desired b key = Some ''running''"
      using start_failed_key [OF geta, of e now "ob_spawn_ok ob key"] fl(1) by (auto simp: b_def opr_def)
    have "stored_desired a key = stored_desired n key" "spawns a key = spawns n key"
      using sa by (simp_all add: same_at_def)
    then have "crash_at key b \<and> potential e key b \<le> potential e key n"
      using j i(1) fl assms(2) by (auto simp: crash_at_def potential_def restarts_left_def)
    moreover have "process_restarts e ob now fs n = fold opr post b"
      by (simp add: run pp a_def b_def)
    ultimately show ?thesis using same_at_crash [OF sb, of e] by simp
  qed
qed

lemma converge_crash:
  assumes "owned n" "crash_at key n"
  shows "same_at key n (converge_desired e ob now fs n)"
proof (cases "nd_store n")
  case None
  then show ?thesis by (simp add: converge_desired_def)
next
  case (Some s)
  obtain i where i: "reg_get (nd_reg n) key = Some i" "mi_state i = STARTING \<or> mi_state i = FAILED"
    using assms(2) by (auto simp: crash_at_def)
  have snap: "map_of (snapshot n) key = Some (mi_state i)"
    using i(1) snapshot_get [OF owned_reg_ok [OF assms(1)]] by simp
  have "same_at key n (fold (converge_key e ob now fs (snapshot n)) (list_instance_desired s) n)"
  proof (rule fold_same_at)
    fix kw m assume kw: "kw \<in> set (list_instance_desired s)"
    show "same_at key m (converge_key e ob now fs (snapshot n) kw m)"
    proof (cases "fst kw = key")
      case False
      then show ?thesis using elsewhere_same_at [OF converge_key_elsewhere] by blast
    next
      case True
      have "distinct (map fst (list_instance_desired s))"
        using owned_store_ok [OF assms(1)] Some by (simp add: store_ok_def desired_keys dict_ok_def)
      then have "stored_desired n key = Some (snd kw)"
        using kw True Some by (cases kw) (simp add: stored_desired_def map_of_is_SomeI)
      then have "snd kw = ''running''" using assms(2) by (simp add: crash_at_def)
      then have "kw = (key, ''running'')" using True by (cases kw) simp
      then show ?thesis using snap i(2) by (auto simp: converge_key_def)
    qed
  qed
  then show ?thesis by (simp add: converge_desired_def Some snapshot_def Let_def)
qed

lemma reconcile_once_parts:
  assumes "gather ob (en_set e) now n = (ts, n1)"
  shows "\<exists>n4 fs. reconcile_once e ob now n =
      converge_desired e ob now fs (if se_auto_restart (en_set e) then process_restarts e ob now fs n4 else n4) \<and>
      fs = foreign_assignments e now (persist_transitions (en_set e) now ts n1) \<and>
      (n4 = backfill_node_state e now ts fs (persist_transitions (en_set e) now ts n1) \<or>
       n4 = trigger_router_reload e (backfill_node_state e now ts fs (persist_transitions (en_set e) now ts n1)))"
  by (auto simp: reconcile_once_def assms Let_def)

lemma pass_crash:
  assumes "owned n" "crash_at key n" "\<not> ob_ready ob key"
  shows "crash_at key (reconcile_once e ob now n) \<and> potential e key (reconcile_once e ob now n) \<le> potential e key n"
proof -
  obtain ts n1 where g: "gather ob (en_set e) now n = (ts, n1)" by (metis prod.collapse)
  define n2 where "n2 = persist_transitions (en_set e) now ts n1"
  obtain n4 fs where r: "reconcile_once e ob now n =
      converge_desired e ob now fs (if se_auto_restart (en_set e) then process_restarts e ob now fs n4 else n4)"
      "n4 = backfill_node_state e now ts fs n2 \<or> n4 = trigger_router_reload e (backfill_node_state e now ts fs n2)"
    using reconcile_once_parts [OF g] unfolding n2_def by blast
  have o1: "owned n1" using gather_owned [OF assms(1), of ob "en_set e" now] g by simp
  then have o2: "owned n2" by (simp add: n2_def persist_owned)
  have o3: "owned (backfill_node_state e now ts fs n2)" by (rule frame_owned [OF o2]) auto
  then have o4: "owned n4" using r(2) by (auto intro: reload_owned)
  have c1: "crash_at key n1 \<and> potential e key n1 = potential e key n"
    by (rule gather_crash [OF assms g])
  have c2: "crash_at key n2 \<and> potential e key n2 = potential e key n"
    using c1 core_crash [of n2 key n1 e] by (simp add: n2_def persist_facts)
  have sd: "stored_desired (backfill_node_state e now ts fs n2) key = stored_desired n2 key"
    by (rule stored_desired_cong) simp
  have c4: "crash_at key n4 \<and> potential e key n4 = potential e key n"
    using c2 core_crash [of n4 key n2 e] r(2) sd by auto
  define n5 where "n5 = (if se_auto_restart (en_set e) then process_restarts e ob now fs n4 else n4)"
  have c5: "crash_at key n5 \<and> potential e key n5 \<le> potential e key n" "owned n5"
    using c4 process_restarts_crash [OF o4, of key e ob now fs] o4 process_restarts_owned [OF o4]
    by (auto simp: n5_def)
  show ?thesis
    using same_at_crash [OF converge_crash [OF c5(2), of key e ob now fs], of e] c5 by (simp add: r(1) n5_def [symmetric])
qed

text \<open>
  C14: The restart budget.  While the probe of a crash-looping instance (STARTING or FAILED, not
  wished stopped or asleep) never answers, the passes spawn it at most as often as restarts are left,
  however many passes there are and whatever they observe otherwise.
\<close>

theorem crash_loop_bounded:
  assumes "crash_looping key n" "\<forall>(ob, now) \<in> set obs. \<not> ob_ready ob key"
  shows "spawns (passes e obs n) key \<le> spawns n key + restarts_left e key n"
proof -
  have "potential e key (passes e obs n) \<le> potential e key n"
    if "owned n" "crash_at key n" "\<forall>(ob, now) \<in> set obs. \<not> ob_ready ob key" for n
    using that
  proof (induction obs arbitrary: n)
    case (Cons on obs)
    obtain ob now where on: "on = (ob, now)" by (cases on)
    have "crash_at key (reconcile_once e ob now n) \<and> potential e key (reconcile_once e ob now n) \<le> potential e key n"
      by (rule pass_crash) (use Cons.prems on in auto)
    then show ?case
      using Cons.IH [of "reconcile_once e ob now n"] Cons.prems on reconcile_once_owned [of n e ob now]
      by (auto simp: passes_def)
  qed (simp add: passes_def)
  then show ?thesis
    using assms by (force simp: crash_looping_def crash_at_def potential_def)
qed

section \<open>Healthy instances, wishes, write-back\<close>

lemma reconcile_ready_alive:
  assumes "mi_state i = READY" "mi_proc i = Some p" "pl p = None" "reconcile_instance ob se now pl i = (t, kill, j)"
  shows "t = None \<and> kill = None \<and> mi_state j = READY \<and> mi_proc j = Some p"
  using assms by (auto simp: reconcile_defs split: if_splits)

definition ready_at :: "string \<Rightarrow> nat \<Rightarrow> node \<Rightarrow> bool" where
  "ready_at key p n =
     ((\<exists>i. reg_get (nd_reg n) key = Some i \<and> mi_state i = READY \<and> mi_proc i = Some p) \<and>
      (stored_desired n key = None \<or> stored_desired n key = Some ''running''))"

lemma same_at_ready: "same_at key n n' \<Longrightarrow> ready_at key p n' = ready_at key p n"
  by (simp add: same_at_def ready_at_def)

lemma own_handle: "owned n \<Longrightarrow> reg_get (nd_reg n) key = Some i \<Longrightarrow> mi_proc i = Some p \<Longrightarrow> \<not> handle_elsewhere n key p"
  unfolding owned_def handle_elsewhere_def by blast

text \<open>
  No flapping.  A READY instance whose process runs is still READY under the same process after a
  pass, whatever its probe answers, unless it is wished stopped or asleep.
\<close>

theorem pass_keeps_ready:
  assumes "owned n" "ready_at key p n" "alive n p"
  shows "ready_at key p (reconcile_once e ob now n)"
proof -
  obtain i where i: "reg_get (nd_reg n) key = Some i" "mi_state i = READY" "mi_proc i = Some p"
    using assms(2) by (auto simp: ready_at_def)
  obtain ts n1 where g: "gather ob (en_set e) now n = (ts, n1)" by (metis prod.collapse)
  note gf = gather_facts [OF owned_reg_ok [OF assms(1)] g]
  obtain j m where j: "reg_get (nd_reg n1) key = Some j" "j = snd (snd (reconcile_instance ob (en_set e) now (poll m) i))"
      "poll m p = poll n p"
    using gf(6) [OF i(1)] own_handle [OF assms(1) i(1,3)] by (auto simp: reconciled_def)
  have "mi_state j = READY \<and> mi_proc j = Some p"
    using reconcile_ready_alive [OF i(2,3), of "poll m" ob "en_set e" now] j(2,3) assms(3)
    by (auto simp: alive_poll prod_eq_iff)
  moreover have "stored_desired n1 key = stored_desired n key" by (simp add: stored_desired_def gf(1))
  ultimately have r1: "ready_at key p n1" using assms(2) j(1) by (auto simp: ready_at_def)
  define n2 where "n2 = persist_transitions (en_set e) now ts n1"
  have r2: "ready_at key p n2"
  proof -
    obtain i1 where i1: "reg_get (nd_reg n1) key = Some i1" "mi_state i1 = READY" "mi_proc i1 = Some p"
      using r1 by (auto simp: ready_at_def)
    have "map_option core (reg_get (nd_reg n1) key) = map_option core (reg_get (nd_reg n2) key)"
      by (simp add: n2_def persist_facts(1))
    from core_eqD [OF this i1(1)] obtain i2 where "reg_get (nd_reg n2) key = Some i2" "mi_state i2 = READY" "mi_proc i2 = Some p"
      using i1 by auto
    moreover have "stored_desired n2 key = stored_desired n1 key" by (simp add: n2_def persist_facts(6))
    ultimately show ?thesis using r1 by (simp add: ready_at_def)
  qed
  obtain n4 fs where r: "reconcile_once e ob now n =
      converge_desired e ob now fs (if se_auto_restart (en_set e) then process_restarts e ob now fs n4 else n4)"
      "n4 = backfill_node_state e now ts fs n2 \<or> n4 = trigger_router_reload e (backfill_node_state e now ts fs n2)"
    using reconcile_once_parts [OF g] unfolding n2_def by blast
  have o2: "owned n2" using gather_owned [OF assms(1), of ob "en_set e" now] g by (simp add: n2_def persist_owned)
  have o3: "owned (backfill_node_state e now ts fs n2)" by (rule frame_owned [OF o2]) auto
  then have o4: "owned n4" using r(2) by (auto intro: reload_owned)
  have sd: "stored_desired (backfill_node_state e now ts fs n2) key = stored_desired n2 key"
    by (rule stored_desired_cong) simp
  have r4: "ready_at key p n4" using r2 r(2) sd by (auto simp: ready_at_def)
  define due where "due = map mi_key (filter (restart_due (en_set e) now fs) (reg_values (nd_reg n4)))"
  have nd: "key \<notin> set due"
    using r4 due_keys(2) [OF owned_reg_ok [OF o4]] by (auto simp: due_def ready_at_def restart_due_def)
  have d: "distinct due" using due_keys(1) [OF owned_reg_ok [OF o4]] by (simp add: due_def)
  define n5 where "n5 = (if se_auto_restart (en_set e) then process_restarts e ob now fs n4 else n4)"
  have "same_at key n4 (process_restarts e ob now fs n4)"
  proof -
    have "same_at key n4 (claim_all due n4)" using nd by (simp add: same_at_def claim_all_get [OF d])
    moreover have "same_at key (claim_all due n4) (fold (\<lambda>k m. snd (start e now False False (ob_spawn_ok ob k) k m)) due (claim_all due n4))"
      by (rule fold_same_at) (use nd in \<open>auto intro: elsewhere_same_at [OF start_elsewhere]\<close>)
    ultimately show ?thesis
      by (simp add: process_restarts_def due_def [symmetric] claim_all_def Let_def same_at_trans)
  qed
  then have r5: "ready_at key p n5" "owned n5"
    using r4 o4 same_at_ready process_restarts_owned [OF o4] by (auto simp: n5_def)
  have "same_at key n5 (converge_desired e ob now fs n5)"
  proof (cases "nd_store n5")
    case (Some s)
    obtain i5 where i5: "reg_get (nd_reg n5) key = Some i5" "mi_state i5 = READY"
      using r5(1) by (auto simp: ready_at_def)
    have snap: "map_of (snapshot n5) key = Some READY"
      using i5 snapshot_get [OF owned_reg_ok [OF r5(2)]] by simp
    have dk: "distinct (map fst (list_instance_desired s))"
      using owned_store_ok [OF r5(2)] Some by (simp add: store_ok_def desired_keys dict_ok_def)
    have "same_at key m (converge_key e ob now fs (snapshot n5) kw m)" if kw: "kw \<in> set (list_instance_desired s)" for kw m
    proof (cases "fst kw = key")
      case False
      then show ?thesis using elsewhere_same_at [OF converge_key_elsewhere] by blast
    next
      case True
      have "stored_desired n5 key = Some (snd kw)"
        using dk kw True Some by (cases kw) (simp add: stored_desired_def map_of_is_SomeI)
      then have "kw = (key, ''running'')" using r5(1) True by (cases kw) (simp add: ready_at_def)
      then show ?thesis using snap by (auto simp: converge_key_def)
    qed
    then show ?thesis
      by (simp add: converge_desired_def Some snapshot_def [symmetric] Let_def fold_same_at)
  qed (simp add: converge_desired_def)
  then show ?thesis using r5(1) same_at_ready by (simp add: r(1) n5_def [symmetric])
qed

lemma start_plan_config:
  assumes "nd_config a = nd_config b"
  shows "start_plan e f i a = start_plan e f i b"
  unfolding start_plan_def assms by (rule refl)

lemma start_key:
  assumes "reg_get (nd_reg n) key = Some i" "mi_state i = STOPPED" "node_can_run e (mi_engine i)"
    "start_plan e False i n = Inr sp"
  shows "\<exists>j. reg_get (nd_reg (snd (start e now False r True key n))) key = Some j \<and> mi_state j = STARTING"
  using assms by (simp add: start_def start_begin_def start_finish_def split_beta Let_def)

lemma stop_key:
  assumes "reg_get (nd_reg n) key = Some i" "mi_managed i \<or> mi_state i \<noteq> READY" "node_can_run e (mi_engine i)"
  shows "\<exists>j. reg_get (nd_reg (snd (stop e now as key n))) key = Some j \<and> mi_state j = STOPPED"
proof (cases "mi_proc i")
  case None
  then show ?thesis using assms by (auto simp: stop_def stop_begin_def Let_def)
next
  case (Some p)
  then show ?thesis using assms
    by (cases "mi_managed i") (simp_all add: stop_def stop_begin_def stop_finish_def stop_kill_def Let_def)
qed

lemma sleep_key:
  assumes "reg_get (nd_reg n) key = Some i" "mi_state i = READY" "ls_sleep (mi_spec i)" "node_can_run e (mi_engine i)"
  shows "\<exists>j. reg_get (nd_reg (snd (sleep e now True key n))) key = Some j \<and> mi_state j = SLEEPING"
  using assms by (simp add: sleep_def sleep_begin_def sleep_finish_def)

lemma wake_key:
  assumes "reg_get (nd_reg n) key = Some i" "mi_state i = SLEEPING" "node_can_run e (mi_engine i)"
  shows "\<exists>j. reg_get (nd_reg (snd (wake e now True key n))) key = Some j \<and> mi_state j = READY"
  using assms by (simp add: wake_def wake_begin_def wake_finish_def)

text \<open>What an owned instance of a willing engine is driven to.\<close>

definition wish_met :: "string \<Rightarrow> model_state \<Rightarrow> model_state \<Rightarrow> bool" where
  "wish_met want st st' =
     (if want = ''running'' \<and> st = STOPPED then st' = STARTING
      else if want = ''stopped'' \<and> (st = READY \<or> st = STARTING \<or> st = SLEEPING) then st' = STOPPED
      else if want = ''asleep'' \<and> st = READY then st' = SLEEPING
      else if want = ''running'' \<and> st = SLEEPING then st' = READY
      else st' = st)"

lemma if_found:
  "(\<exists>j. reg_get (nd_reg (if c then a else b)) key = Some j \<and> (if c then P j else Q j)) =
   (if c then \<exists>j. reg_get (nd_reg a) key = Some j \<and> P j else \<exists>j. reg_get (nd_reg b) key = Some j \<and> Q j)"
  by simp

lemma converge_key_wish:
  assumes i: "reg_get (nd_reg m) key = Some i" "node_can_run e (mi_engine i)" "start_plan e False i m = Inr sp"
    and ok: "ob_spawn_ok ob key" "ob_call_ok ob key" "ls_sleep (mi_spec i)" "mi_managed i \<or> mi_state i \<noteq> READY" "key \<notin> set fs"
    and st: "map_of states key = Some (mi_state i)"
  shows "\<exists>j. reg_get (nd_reg (converge_key e ob now fs states (key, want) m)) key = Some j \<and>
    wish_met want (mi_state i) (mi_state j)"
proof -
  have eq: "converge_key e ob now fs states (key, want) m =
     (if want = ''running'' \<and> mi_state i = STOPPED then snd (start e now False True True key m)
      else if want = ''stopped'' \<and> (mi_state i = READY \<or> mi_state i = STARTING \<or> mi_state i = SLEEPING)
      then snd (stop e now (ob_answers ob key) key m)
      else if want = ''asleep'' \<and> mi_state i = READY then snd (sleep e now True key m)
      else if want = ''running'' \<and> mi_state i = SLEEPING then snd (wake e now True key m)
      else m)"
    using ok st by (simp add: converge_key_def) blast
  show ?thesis
    unfolding eq wish_met_def if_found
    using start_key [OF i(1) _ i(2,3), of now True] stop_key [OF i(1) ok(4) i(2), of now "ob_answers ob key"]
      sleep_key [OF i(1) _ ok(3) i(2), of now] wake_key [OF i(1) _ i(2), of now] i(1)
    by (auto split: if_split)
qed

text \<open>
  C20: convergence.  Take an instance of this node (not foreign, its engine runs here, not an adopted
  one that is READY, able to sleep) whose launch is possible, and let the spawn and the engine's calls
  succeed.  One convergence pass brings it to its wish: STOPPED and wished running becomes STARTING,
  SLEEPING and wished running becomes READY, READY, STARTING or SLEEPING and wished stopped becomes
  STOPPED, READY and wished asleep becomes SLEEPING; in every other case (FAILED and wished running,
  STOPPED and wished asleep, ...) its state stays.
\<close>

theorem converge_reaches_wish:
  assumes "owned n" "reg_get (nd_reg n) key = Some i" "stored_desired n key = Some want" "key \<notin> set fs"
    and "node_can_run e (mi_engine i)" "start_plan e False i n = Inr sp" "ob_spawn_ok ob key" "ob_call_ok ob key"
    and "ls_sleep (mi_spec i)" "mi_managed i \<or> mi_state i \<noteq> READY"
  shows "\<exists>j. reg_get (nd_reg (converge_desired e ob now fs n)) key = Some j \<and> wish_met want (mi_state i) (mi_state j)"
proof -
  obtain s where s: "nd_store n = Some s" "map_of (list_instance_desired s) key = Some want"
    using assms(3) by (auto simp: stored_desired_def split: option.splits)
  then obtain pre post where pp: "list_instance_desired s = pre @ (key, want) # post"
    by (meson map_of_SomeD split_list)
  have "distinct (map fst (list_instance_desired s))"
    using owned_store_ok [OF assms(1)] s(1) by (simp add: store_ok_def desired_keys dict_ok_def)
  then have out: "key \<notin> fst ` set pre" "key \<notin> fst ` set post" by (auto simp: pp)
  define c where "c = converge_key e ob now fs (snapshot n)"
  have other: "same_at key m (c kw m)" if "fst kw \<noteq> key" for kw m
    unfolding c_def by (rule elsewhere_same_at [OF converge_key_elsewhere that])
  define a where "a = fold c pre n"
  have sa: "same_at key n a"
    unfolding a_def by (rule fold_same_at, rule other) (use out in force)
  have sb: "same_at key (c (key, want) a) (fold c post (c (key, want) a))"
    by (rule fold_same_at, rule other) (use out in force)
  have "\<exists>j. reg_get (nd_reg (c (key, want) a)) key = Some j \<and> wish_met want (mi_state i) (mi_state j)"
    unfolding c_def
  proof (rule converge_key_wish)
    show "reg_get (nd_reg a) key = Some i" using sa assms(2) by (simp add: same_at_def)
    show "start_plan e False i a = Inr sp" using sa assms(6) start_plan_config [of a n] by (simp add: same_at_def)
    show "map_of (snapshot n) key = Some (mi_state i)"
      using assms(2) snapshot_get [OF owned_reg_ok [OF assms(1)]] by simp
  qed (use assms in auto)
  moreover have "converge_desired e ob now fs n = fold c post (c (key, want) a)"
    by (simp add: converge_desired_def s(1) pp a_def c_def snapshot_def Let_def)
  ultimately show ?thesis using sb by (simp add: same_at_def)
qed

text \<open>A failure of the pass: the exit or the timeout fills the record, then the restart is decided.\<close>

lemma reconcile_failed:
  assumes "reconcile_instance ob se now pl i = (Some t, kill, j)" "tr_to t = FAILED"
  shows "\<exists>j0. j = maybe_schedule_restart se now j0 \<and> mi_desired j0 = mi_desired i \<and> mi_managed j0 = mi_managed i \<and>
    mi_restarts j0 = mi_restarts i \<and> mi_next_restart j0 = mi_next_restart i"
proof (cases "check_process_exit ob now pl i")
  case (Pair u i1)
  show ?thesis
  proof (cases u)
    case None
    then have "probe_starting ob se now i1 = (Some t, kill, j)" "i1 = i"
      using assms(1) Pair by (auto simp: reconcile_instance_def check_process_exit_def Let_def split: option.splits if_splits)
    then show ?thesis
      using assms(2) by (auto simp: probe_starting_def transition_of_def Let_def set_state_def touch_def split: if_splits)
  next
    case (Some v)
    then have "j = maybe_schedule_restart se now i1" "v = t"
      using assms Pair by (auto simp: reconcile_instance_def)
    moreover have "mi_desired i1 = mi_desired i" "mi_managed i1 = mi_managed i" "mi_restarts i1 = mi_restarts i"
      "mi_next_restart i1 = mi_next_restart i"
      using Pair by (auto simp: check_process_exit_def Let_def set_state_def touch_def split: option.splits if_splits)
    ultimately show ?thesis by blast
  qed
qed

text \<open>
  The critical alert.  When a managed, wished-running instance with no restart pending fails
  under automatic restarts, either a restart is armed and the alert is an ordinary failure, or the
  restart budget is spent, nothing is armed and the alert is the critical \<open>model_gave_up\<close>.
\<close>

theorem gave_up_exact:
  assumes "reconcile_instance ob se now pl i = (Some t, kill, j)" "tr_to t = FAILED"
    and "mi_desired i = RUNNING" "mi_managed i" "se_auto_restart se" "mi_next_restart i = None"
    and "classify_event se j FAILED (tr_detail t) = Some a"
  shows "if mi_restarts i < se_max_restarts se
    then mi_next_restart j = Some (now + se_backoff_base se * 2 ^ mi_restarts i) \<and>
         al_event a = ''model_failed'' \<and> al_severity a = ''error''
    else mi_next_restart j = None \<and> al_event a = ''model_gave_up'' \<and> al_severity a = ''critical''"
proof -
  obtain j0 where j0: "j = maybe_schedule_restart se now j0" "mi_desired j0 = RUNNING" "mi_managed j0"
    "mi_restarts j0 = mi_restarts i" "mi_next_restart j0 = None"
    using reconcile_failed [OF assms(1,2)] assms(3-6) by auto
  show ?thesis
    using assms(5,7) j0 by (cases "mi_restarts i < se_max_restarts se")
      (auto simp: classify_event_def maybe_schedule_restart_def Let_def split: if_splits)
qed


text \<open>What the write-back publishes of one instance.\<close>

definition live_address :: "env \<Rightarrow> real \<Rightarrow> minst \<Rightarrow> live_row" where
  "live_address e now i =
     \<lparr>lv_group = key_group (mi_key i), lv_instance = key_instance (mi_key i),
      lv_node = (if se_instance_id (en_set e) = [] then None else Some (se_instance_id (en_set e))),
      lv_host = (if se_node_host (en_set e) = [] then mi_host i else se_node_host (en_set e)),
      lv_port = mi_port i, lv_state = Some (state_value (mi_state i)), lv_expires = now + se_live_ttl (en_set e)\<rparr>"

definition left_ready :: "transition list \<Rightarrow> string \<Rightarrow> bool" where
  "left_ready ts k = (\<exists>t \<in> set ts. tr_key t = k \<and> tr_from t = READY \<and> tr_to t \<noteq> READY)"

lemma backfill_live:
  "map_of (so_live (backfill_instance e now i s)) k =
     (if mi_key i = k \<and> mi_state i = READY then Some (live_address e now i) else map_of (so_live s) k)"
  by (simp add: backfill_instance_def Let_def upsert_instance_live_def upsert_instance_observed_def live_address_def
      at_time_def)

lemma backfill_live_ok: "dict_ok (so_live s) \<Longrightarrow> dict_ok (so_live (backfill_instance e now i s))"
  by (simp add: backfill_instance_def Let_def upsert_instance_live_def upsert_instance_observed_def)

lemma fold_backfill_live:
  assumes "distinct (map mi_key is)"
  shows "map_of (so_live (fold (\<lambda>i. if mi_key i \<in> set fs then id else backfill_instance e now i) is s)) k =
     (case List.find (\<lambda>i. mi_key i = k) is of
        None \<Rightarrow> map_of (so_live s) k
      | Some i \<Rightarrow> if mi_state i = READY \<and> k \<notin> set fs then Some (live_address e now i) else map_of (so_live s) k)"
  using assms
proof (induction "is" arbitrary: s)
  case (Cons i "is")
  have "List.find (\<lambda>j. mi_key j = k) is = None" if "mi_key i = k"
    unfolding find_None_iff using Cons.prems that by (metis distinct.simps(2) image_eqI list.set_map list.simps(9))
  then show ?case
    using Cons.IH Cons.prems by (auto simp: backfill_live split: option.split)
qed simp

lemma fold_backfill_ok:
  "dict_ok (so_live s) \<Longrightarrow>
     dict_ok (so_live (fold (\<lambda>i. if mi_key i \<in> set fs then id else backfill_instance e now i) is s))"
  by (induction "is" arbitrary: s) (simp_all add: backfill_live_ok)

lemma find_reg_values: "reg_ok r \<Longrightarrow> List.find (\<lambda>i. mi_key i = k) (reg_values r) = reg_get r k"
proof (induction r)
  case (Cons p r)
  then show ?case
    by (cases p) (auto simp: reg_ok_def dict_ok_def reg_values_def reg_get_def)
qed (simp add: reg_values_def reg_get_def)

lemma fold_removals:
  "map_of (so_live (fold (\<lambda>t. if tr_from t = READY \<and> tr_to t \<noteq> READY then remove_instance_live (tr_key t) else id) ts s)) k =
     (if left_ready ts k then None else map_of (so_live s) k)"
  by (induction ts arbitrary: s) (auto simp: left_ready_def remove_instance_live_def)

lemma fold_removals_ok:
  "dict_ok (so_live s) \<Longrightarrow>
   dict_ok (so_live (fold (\<lambda>t. if tr_from t = READY \<and> tr_to t \<noteq> READY then remove_instance_live (tr_key t) else id) ts s))"
  by (induction ts arbitrary: s) (simp_all add: remove_instance_live_def)

lemma writeback_rows:
  assumes "reg_ok (nd_reg n)" "nd_store n = Some s" "dict_ok (so_live s)" "0 < se_live_ttl (en_set e)"
  shows "\<exists>s'. nd_store (backfill_node_state e now ts fs n) = Some s' \<and> dict_ok (so_live s') \<and>
    map_of (so_live s') = (\<lambda>k.
      case reg_get (nd_reg n) k of
         Some i \<Rightarrow> if mi_state i = READY \<and> k \<notin> set fs then Some (live_address e now i)
                   else if left_ready ts k then None else map_of (list_instances_live now None s) k
       | None \<Rightarrow> if left_ready ts k then None else map_of (list_instances_live now None s) k)"
proof -
  define s1 where "s1 = fold (\<lambda>t. if tr_from t = READY \<and> tr_to t \<noteq> READY then remove_instance_live (tr_key t) else id) ts s"
  define s2 where "s2 = fold (\<lambda>i. if mi_key i \<in> set fs then id else backfill_instance e now i) (reg_values (nd_reg n)) s1"
  define s3 where "s3 = snd (prune_instance_observed now None (snd (prune_instances_live now None s2)))"
  have ok: "dict_ok (so_live s1)" "dict_ok (so_live s2)"
    using fold_removals_ok [OF assms(3)] by (auto simp: s1_def s2_def intro: fold_backfill_ok)
  have d: "distinct (map mi_key (reg_values (nd_reg n)))"
    using due_keys(1) [OF assms(1), of "\<lambda>_. True"] by simp
  have m2: "map_of (so_live s2) k = (case reg_get (nd_reg n) k of
      None \<Rightarrow> map_of (so_live s1) k
    | Some i \<Rightarrow> if mi_state i = READY \<and> k \<notin> set fs then Some (live_address e now i) else map_of (so_live s1) k)" for k
    unfolding s2_def fold_backfill_live [OF d] find_reg_values [OF assms(1)] ..
  have m1: "map_of (so_live s1) k = (if left_ready ts k then None else map_of (so_live s) k)" for k
    unfolding s1_def by (rule fold_removals)
  have s3: "so_live s3 = filter (\<lambda>(k, r). \<not> lv_expires r \<le> now) (so_live s2)"
    by (simp add: s3_def prune_instance_observed_def prune_instances_live_def at_time_def)
  then have l3: "map_of (so_live s3) k =
      (case map_of (so_live s2) k of None \<Rightarrow> None | Some r \<Rightarrow> if lv_expires r > now then Some r else None)" for k
    using ok(2) by (simp add: map_of_filter_value not_le cong: option.case_cong)
  have l: "map_of (list_instances_live now None s) k =
      (case map_of (so_live s) k of None \<Rightarrow> None | Some r \<Rightarrow> if lv_expires r > now then Some r else None)" for k
    using assms(3) by (simp add: list_instances_live_def at_time_def map_of_filter_value)
  have "lv_expires (live_address e now i) > now" for i
    using assms(4) by (simp add: live_address_def)
  then have "map_of (so_live s3) k =
      (case reg_get (nd_reg n) k of
         Some i \<Rightarrow> if mi_state i = READY \<and> k \<notin> set fs then Some (live_address e now i)
                   else if left_ready ts k then None else map_of (list_instances_live now None s) k
       | None \<Rightarrow> if left_ready ts k then None else map_of (list_instances_live now None s) k)" for k
    unfolding l3 l m2 m1 by (simp split: option.split)
  moreover have "dict_ok (so_live s3)"
    using ok(2) by (simp add: s3 dict_ok_filter)
  moreover have "nd_store (backfill_node_state e now ts fs n) = Some s3"
    by (simp add: backfill_node_state_def on_store_def assms(2) s1_def s2_def s3_def Let_def)
  ultimately show ?thesis by blast
qed

text \<open>
  The whole table; a row of our own that no transition of this pass took out of READY stays until its
  time to live is over.
\<close>

lemma writeback_all:
  assumes "reg_ok (nd_reg n)" "nd_store n = Some s" "dict_ok (so_live s)" "0 < se_live_ttl (en_set e)"
  shows "\<exists>s'. nd_store (backfill_node_state e now ts fs n) = Some s' \<and>
    map_of (list_instances_live now None s') k =
      (case reg_get (nd_reg n) k of
         Some i \<Rightarrow> if mi_state i = READY \<and> k \<notin> set fs then Some (live_address e now i)
                   else if left_ready ts k then None else map_of (list_instances_live now None s) k
       | None \<Rightarrow> if left_ready ts k then None else map_of (list_instances_live now None s) k)"
proof -
  obtain s' where s': "nd_store (backfill_node_state e now ts fs n) = Some s'" "dict_ok (so_live s')"
    and rows: "map_of (so_live s') = (\<lambda>k.
      case reg_get (nd_reg n) k of
         Some i \<Rightarrow> if mi_state i = READY \<and> k \<notin> set fs then Some (live_address e now i)
                   else if left_ready ts k then None else map_of (list_instances_live now None s) k
       | None \<Rightarrow> if left_ready ts k then None else map_of (list_instances_live now None s) k)"
    using writeback_rows [OF assms] by blast
  have l: "map_of (list_instances_live now None st) k =
      (case map_of (so_live st) k of None \<Rightarrow> None | Some r \<Rightarrow> if lv_expires r > now then Some r else None)"
    if "dict_ok (so_live st)" for st
    using that by (simp add: list_instances_live_def at_time_def map_of_filter_value)
  have "lv_expires (live_address e now i) > now" for i
    using assms(4) by (simp add: live_address_def)
  then have "map_of (list_instances_live now None s') k = map_of (so_live s') k"
    unfolding l [OF s'(2)] rows using l [OF assms(3)] by (auto split: option.splits if_splits)
  then show ?thesis
    using s'(1) by (auto simp: rows)
qed

text \<open>
  C21: the routing table.  After the write-back a router finds, under the key of an owned READY
  instance, its address, leased for \<open>live_ttl\<close>; under a key that the pass saw leaving READY (and that
  is not READY again), nothing; and under a key that is not ours (foreign, or of no instance here) and
  that the pass did not see leaving READY, what it found before.
\<close>

theorem writeback_exact:
  assumes "reg_ok (nd_reg n)" "nd_store n = Some s" "dict_ok (so_live s)" "0 < se_live_ttl (en_set e)"
  shows "\<exists>s'. nd_store (backfill_node_state e now ts fs n) = Some s' \<and>
    (\<forall>i. reg_get (nd_reg n) k = Some i \<longrightarrow> mi_state i = READY \<longrightarrow> k \<notin> set fs \<longrightarrow>
       map_of (list_instances_live now None s') k = Some (live_address e now i)) \<and>
    (left_ready ts k \<longrightarrow> (\<forall>i. reg_get (nd_reg n) k = Some i \<longrightarrow> mi_state i \<noteq> READY \<or> k \<in> set fs) \<longrightarrow>
       map_of (list_instances_live now None s') k = None) \<and>
    (\<not> left_ready ts k \<longrightarrow> reg_get (nd_reg n) k = None \<or> k \<in> set fs \<longrightarrow>
       map_of (list_instances_live now None s') k = map_of (list_instances_live now None s) k)"
  using writeback_all [OF assms, where now = now and ts = ts and fs = fs and k = k] by (auto split: option.splits if_splits)

section \<open>Witnesses\<close>

definition quiet :: observation where
  "quiet = \<lparr>ob_ready = (\<lambda>_. False), ob_log_size = (\<lambda>_. None), ob_tail = (\<lambda>_. []), ob_spawn_ok = (\<lambda>_. True),
     ob_call_ok = (\<lambda>_. True), ob_answers = (\<lambda>_. [])\<rparr>"

definition crashed_node :: node where
  "crashed_node = mgr_node\<lparr>nd_reg := [(''q::a'', mgr_inst\<lparr>mi_state := FAILED, mi_desired := RUNNING,
     mi_managed := True, mi_restarts := 1, mi_next_restart := Some 1\<rparr>)]\<rparr>"

lemma mgr_booted: "booted mgr_node"
  by (simp add: booted_def reg_ok_def store_ok_def mgr_defs init_store_def dict_ok_def)

lemma crashed_booted: "booted crashed_node"
  by (simp add: booted_def crashed_node_def reg_ok_def store_ok_def mgr_defs init_store_def dict_ok_def)

lemma serving_owned: "owned serving_node"
  by (auto simp: owned_def reg_ok_def store_ok_def serving_node_def mgr_node_def mgr_inst_def new_instance_def
      init_store_def dict_ok_def reg_get_def alive_def split: if_splits)

lemma mgr_at:
  "reg_get (nd_reg mgr_node) ''q::a'' = Some mgr_inst" "mi_state mgr_inst = STOPPED" "nd_next_pid mgr_node = 1"
  "node_can_run mgr_env (mi_engine mgr_inst)" "nd_procs mgr_node = []"
  by (simp_all add: mgr_node_def mgr_inst_def new_instance_def reg_get_def node_can_run_def mgr_env_def mgr_settings_def)

lemma serving_at:
  "reg_get (nd_reg serving_node) ''q::a'' = Some (mgr_inst\<lparr>mi_state := READY, mi_proc := Some 0, mi_managed := True\<rparr>)"
  "alive serving_node 0" "nd_store serving_node = Some init_store" "stored_desired serving_node k = None"
  by (simp_all add: serving_node_def mgr_node_def reg_get_def alive_def stored_desired_def list_instance_desired_def
      init_store_def)

lemma no_orphans_witness:
  "\<exists>!k. \<exists>i. reg_get (nd_reg (snd (start mgr_env 5 False True True ''q::a'' mgr_node))) k = Some i \<and> mi_proc i = Some 1"
proof -
  let ?n = "snd (start mgr_env 5 False True True ''q::a'' mgr_node)"
  have "node_step mgr_env mgr_node ?n"
    by (rule step_start) (auto simp: mgr_node_def mgr_inst_def new_instance_def reg_get_def split: if_splits)
  then have r: "node_reach mgr_env mgr_node ?n" by (rule reach_step [OF reach_boot])
  have "alive ?n 1"
    by (simp add: start_def start_begin_def start_finish_def mgr_at mgr_plan split_beta Let_def alive_def spawn_process_def)
  then show ?thesis using no_orphans [OF mgr_booted r] by blast
qed

lemma crash_loop_bounded_witness:
  "spawns (passes mgr_env [(quiet, 2), (quiet, 50)] crashed_node) ''q::a'' \<le> 2"
proof -
  have "crash_looping ''q::a'' crashed_node"
    using booted_owned [OF crashed_booted]
    by (simp add: crash_looping_def) (simp add: crashed_node_def mgr_node_def reg_get_def stored_desired_def
        list_instance_desired_def init_store_def)
  then have "spawns (passes mgr_env [(quiet, 2), (quiet, 50)] crashed_node) ''q::a'' \<le>
      spawns crashed_node ''q::a'' + restarts_left mgr_env ''q::a'' crashed_node"
    by (rule crash_loop_bounded) (simp add: quiet_def)
  also have "\<dots> = 2"
    by (simp add: spawns_def restarts_left_def crashed_node_def mgr_defs reg_get_def)
  finally show ?thesis .
qed


lemma writeback_exact_witness:
  "\<exists>s'. nd_store (backfill_node_state mgr_env 9 [] [] serving_node) = Some s' \<and>
     map_option lv_port (map_of (list_instances_live 9 None s') ''q::a'') = Some 8001"
  using writeback_exact [of serving_node init_store mgr_env 9 "[]" "[]" "''q::a''"] owned_reg_ok [OF serving_owned]
  by (auto simp: serving_at init_store_def mgr_env_def mgr_settings_def live_address_def mgr_inst_def new_instance_def
      mgr_spec_def)

definition stopped_wish :: node where
  "stopped_wish = mgr_node\<lparr>nd_store := Some (set_instance_desired 1 ''q::a'' ''running'' None init_store)\<rparr>"

lemma wish_at:
  "owned stopped_wish" "reg_get (nd_reg stopped_wish) ''q::a'' = Some mgr_inst"
  "stored_desired stopped_wish ''q::a'' = Some ''running''"
proof -
  have "booted stopped_wish"
    using mgr_booted by (simp add: booted_def stopped_wish_def store_ok_def) (simp add: init_store_def set_instance_desired_def)
  then show "owned stopped_wish" by (rule booted_owned)
  show "reg_get (nd_reg stopped_wish) ''q::a'' = Some mgr_inst" by (simp add: stopped_wish_def mgr_at)
  show "stored_desired stopped_wish ''q::a'' = Some ''running''"
    by (simp add: stopped_wish_def stored_desired_def desired_lookup set_instance_desired_def)
qed

lemma pass_keeps_ready_witness: "ready_at ''q::a'' 0 (reconcile_once mgr_env quiet 9 serving_node)"
  by (rule pass_keeps_ready [OF serving_owned]) (simp_all add: serving_at ready_at_def)

lemma converge_reaches_wish_witness:
  "\<exists>j. reg_get (nd_reg (converge_desired mgr_env quiet 9 [] stopped_wish)) ''q::a'' = Some j \<and>
     wish_met ''running'' STOPPED (mi_state j)"
proof -
  have "nd_config stopped_wish = nd_config mgr_node" by (simp add: stopped_wish_def)
  then have "start_plan mgr_env False mgr_inst stopped_wish = Inr placed_spec"
    using start_plan_config [of stopped_wish mgr_node mgr_env False mgr_inst] mgr_plan by metis
  then show ?thesis
    using converge_reaches_wish [OF wish_at, of "[]" mgr_env placed_spec quiet 9]
    by (simp add: mgr_at quiet_def) (simp add: mgr_inst_def new_instance_def mgr_spec_def)
qed

lemma gave_up_exact_witness:
  "\<exists>t kill j a. reconcile_instance quiet mgr_settings 9 (\<lambda>_. Some 1)
     (mgr_inst\<lparr>mi_state := READY, mi_desired := RUNNING, mi_proc := Some 0, mi_managed := True, mi_restarts := 3\<rparr>) =
     (Some t, kill, j) \<and> classify_event mgr_settings j FAILED (tr_detail t) = Some a \<and> al_severity a = ''critical''"
proof -
  let ?i = "mgr_inst\<lparr>mi_state := READY, mi_desired := RUNNING, mi_proc := Some 0, mi_managed := True, mi_restarts := 3\<rparr>"
  obtain t kill j where r: "reconcile_instance quiet mgr_settings 9 (\<lambda>_. Some 1) ?i = (Some t, kill, j)" "tr_to t = FAILED"
    by (auto simp: reconcile_instance_def check_process_exit_def transition_of_def Let_def mgr_inst_def new_instance_def)
  obtain a where a: "classify_event mgr_settings j FAILED (tr_detail t) = Some a"
    by (auto simp: classify_event_def Let_def)
  have "al_severity a = ''critical''"
    using gave_up_exact [OF r _ _ _ _ a] by (simp add: mgr_inst_def new_instance_def mgr_settings_def)
  then show ?thesis using r a by blast
qed

end
