(* ===== verification/Load_Monitor.thy ===== *)
theory Load_Monitor
  imports Lifecycle Launchers
begin

text \<open>
  apps/backend/app/llmops/load_monitor.py: the per-group load that the autoscaler acts on, computed
  from the registry's states and the router's metrics page.  Python's \<open>float(str)\<close> is the parameter
  \<open>pf\<close> (\<open>None\<close>: a \<open>ValueError\<close>); the page is a JSON value.
\<close>

section \<open>Aggregation\<close>

record group_load =
  gl_group :: string
  gl_ready :: nat
  gl_asleep :: nat
  gl_stopped :: nat
  gl_waiting :: real
  gl_running :: real
  gl_per_replica :: real
  gl_kv :: real

definition new_load :: "string \<Rightarrow> group_load" where
  "new_load grp = \<lparr>gl_group = grp, gl_ready = 0, gl_asleep = 0, gl_stopped = 0, gl_waiting = 0, gl_running = 0,
     gl_per_replica = 0, gl_kv = 0\<rparr>"

fun num :: "(string \<Rightarrow> real option) \<Rightarrow> jval \<Rightarrow> real" where
  "num pf (JInt i) = of_int i"
| "num pf (JFloat r) = r"
| "num pf (JBool b) = (if b then 1 else 0)"
| "num pf (JStr s) = (case pf s of Some r \<Rightarrow> r | None \<Rightarrow> 0)"
| "num pf _ = 0"

text \<open>\<open>(router_metrics.get(group) or {}).get(instance_id) or {}\<close>\<close>

fun jfields :: "jval \<Rightarrow> (string, jval) dict" where
  "jfields (JObj d) = d"
| "jfields _ = []"

definition scrape_of :: "(string, jval) dict \<Rightarrow> string \<Rightarrow> (string, jval) dict" where
  "scrape_of page key = jfields (jget (jfields (jget page (key_group key))) (key_instance key))"

text \<open>The first loop: the running sums and the cache samples of each group.\<close>

definition count_inst ::
  "(string \<Rightarrow> real option) \<Rightarrow> (string, jval) dict \<Rightarrow> minst \<Rightarrow>
   (string, group_load) dict \<times> (string, real list) dict \<Rightarrow> (string, group_load) dict \<times> (string, real list) dict" where
  "count_inst pf page i acc =
     (if mi_kind i \<noteq> LLM then acc
      else (case acc of (groups, kv) \<Rightarrow>
        let grp = key_group (mi_key i); gl = dget groups grp (new_load grp); m = scrape_of page (mi_key i) in
        if mi_state i = READY then
          (dset grp (gl\<lparr>gl_ready := gl_ready gl + 1, gl_waiting := gl_waiting gl + num pf (jget m ''waiting''),
                       gl_running := gl_running gl + num pf (jget m ''running'')\<rparr>) groups,
           if jget m ''kv_cache_usage_perc'' = JNull then kv
           else dset grp (dget kv grp [] @ [num pf (jget m ''kv_cache_usage_perc'')]) kv)
        else if mi_state i = SLEEPING then (dset grp (gl\<lparr>gl_asleep := gl_asleep gl + 1\<rparr>) groups, kv)
        else if mi_state i = STOPPED then (dset grp (gl\<lparr>gl_stopped := gl_stopped gl + 1\<rparr>) groups, kv)
        else (dset grp gl groups, kv)))"

definition finish_load :: "(string, real list) dict \<Rightarrow> group_load \<Rightarrow> group_load" where
  "finish_load kv gl =
     (let g1 = (if gl_ready gl \<noteq> 0 then gl\<lparr>gl_per_replica := gl_waiting gl / real (gl_ready gl)\<rparr> else gl);
          samples = dget kv (gl_group gl) []
      in if samples = [] then g1 else g1\<lparr>gl_kv := sum_list samples / real (length samples)\<rparr>)"

definition aggregate_load ::
  "(string \<Rightarrow> real option) \<Rightarrow> minst list \<Rightarrow> (string, jval) dict \<Rightarrow> (string, group_load) dict" where
  "aggregate_load pf insts page =
     (case fold (count_inst pf page) insts ([], []) of
        (groups, kv) \<Rightarrow> map (\<lambda>(g, gl). (g, finish_load kv gl)) groups)"

text \<open>\<open>fetch_router_metrics\<close>: the page, or nothing when there is no router, no answer or an error status.\<close>

definition fetch_router_metrics :: "string \<Rightarrow> (int \<times> (string, jval) dict) option \<Rightarrow> (string, jval) dict" where
  "fetch_router_metrics url answer =
     (if url = [] then [] else (case answer of None \<Rightarrow> [] | Some (status, page) \<Rightarrow> if status \<noteq> 200 then [] else page))"

section \<open>The aggregate is the per-group sum\<close>

definition members :: "minst list \<Rightarrow> string \<Rightarrow> minst list" where
  "members insts grp = filter (\<lambda>i. mi_kind i = LLM \<and> key_group (mi_key i) = grp) insts"

definition serving :: "minst list \<Rightarrow> string \<Rightarrow> minst list" where
  "serving insts grp = filter (\<lambda>i. mi_state i = READY) (members insts grp)"

definition total_of :: "(string \<Rightarrow> real option) \<Rightarrow> (string, jval) dict \<Rightarrow> string \<Rightarrow> minst list \<Rightarrow> real" where
  "total_of pf page fld is = sum_list (map (\<lambda>i. num pf (jget (scrape_of page (mi_key i)) fld)) is)"

text \<open>What the first loop knows of a group after the instances \<open>is\<close>.\<close>

definition load_ref :: "(string \<Rightarrow> real option) \<Rightarrow> (string, jval) dict \<Rightarrow> minst list \<Rightarrow> string \<Rightarrow> group_load option" where
  "load_ref pf page is grp =
     (if members is grp = [] then None
      else Some ((new_load grp)\<lparr>gl_ready := length (serving is grp),
        gl_asleep := length (filter (\<lambda>i. mi_state i = SLEEPING) (members is grp)),
        gl_stopped := length (filter (\<lambda>i. mi_state i = STOPPED) (members is grp)),
        gl_waiting := total_of pf page ''waiting'' (serving is grp),
        gl_running := total_of pf page ''running'' (serving is grp)\<rparr>))"

lemma members_snoc: "members (is @ [i]) grp = members is grp @ (if mi_kind i = LLM \<and> key_group (mi_key i) = grp then [i] else [])"
  by (simp add: members_def)

lemma fold_count:
  "map_of (fst (fold (count_inst pf page) is ([], []))) grp = load_ref pf page is grp"
proof (induction "is" rule: rev_induct)
  case Nil
  then show ?case by (simp add: load_ref_def members_def)
next
  case (snoc i "is")
  obtain groups kv where acc: "fold (count_inst pf page) is ([], []) = (groups, kv)" by fastforce
  have IH: "map_of groups grp = load_ref pf page is grp" using snoc acc by simp
  show ?case
  proof (cases "mi_kind i = LLM \<and> key_group (mi_key i) = grp")
    case False
    then have "members (is @ [i]) grp = members is grp" by (auto simp: members_snoc)
    then have "load_ref pf page (is @ [i]) grp = load_ref pf page is grp"
      by (simp add: load_ref_def serving_def)
    moreover have "map_of (fst (count_inst pf page i (groups, kv))) grp = map_of groups grp"
      using False by (auto simp: count_inst_def Let_def)
    ultimately show ?thesis using acc IH by simp
  next
    case True
    have "map_of (fst (count_inst pf page i (groups, kv))) grp = load_ref pf page (is @ [i]) grp"
      using True IH
      by (cases "members is grp = []"; cases "mi_state i")
        (auto simp: count_inst_def Let_def dget_def load_ref_def serving_def members_snoc total_of_def new_load_def)
    then show ?thesis using acc by simp
  qed
qed

lemma map_of_finish: "map_of (map (\<lambda>(g, gl). (g, f gl)) d) k = map_option f (map_of d k)"
  by (induction d) auto

text \<open>
  The load signal.  A group is reported exactly when it has an LLM instance; its waiting and
  running figures are the sums of the router's scrape over its READY replicas, and the signal that
  drives the autoscaler is the waiting total per READY replica (0 when there is none).
\<close>

theorem aggregate_load_exact:
  "case map_of (aggregate_load pf insts page) grp of
     None \<Rightarrow> members insts grp = []
   | Some gl \<Rightarrow> members insts grp \<noteq> [] \<and> gl_ready gl = length (serving insts grp) \<and>
       gl_waiting gl = total_of pf page ''waiting'' (serving insts grp) \<and>
       gl_running gl = total_of pf page ''running'' (serving insts grp) \<and>
       gl_per_replica gl = (if serving insts grp = [] then 0
         else total_of pf page ''waiting'' (serving insts grp) / real (length (serving insts grp)))"
proof -
  obtain groups kv where acc: "fold (count_inst pf page) insts ([], []) = (groups, kv)" by fastforce
  have "map_of groups grp = load_ref pf page insts grp"
    using fold_count [of pf page insts grp] acc by simp
  then have "map_of (aggregate_load pf insts page) grp = map_option (finish_load kv) (load_ref pf page insts grp)"
    by (simp add: aggregate_load_def acc map_of_finish)
  then show ?thesis
    by (simp add: load_ref_def finish_load_def Let_def new_load_def)
qed

end
