(* ===== verification/Autoscaler.thy ===== *)
theory Autoscaler
  imports Reconciler Load_Monitor
begin

text \<open>
  apps/backend/app/llmops/autoscaler.py: the pure policy \<open>decide\<close> (at most one action per group and
  tick, with the timing state it mutates) and the tick that applies its actions through the model
  manager.  \<open>decide\<close> yields \<open>None\<close> for the \<open>IndexError\<close> of \<open>ready[-1]\<close> on an empty list, which a
  negative \<open>min_ready\<close> can reach; the exception ends the tick.
\<close>

section \<open>The policy\<close>

record autoscale_cfg =
  au_enabled :: bool
  au_min_ready :: int
  au_min_warm :: int
  au_max_ready :: "int option"
  au_up_waiting :: real
  au_up_window :: real
  au_sleep_after :: real
  au_stop_after :: real
  au_cooldown :: real

record timing =
  ti_over :: "real option"
  ti_idle :: "real option"
  ti_up :: real

definition new_timing :: timing where
  "new_timing = \<lparr>ti_over = None, ti_idle = None, ti_up = 0\<rparr>"

datatype verb = Wake | Start | Sleep | Stop

definition keys_in :: "model_state \<Rightarrow> (string \<times> model_state) list \<Rightarrow> string list" where
  "keys_in st insts = map fst (filter (\<lambda>(k, s). s = st) insts)"

definition max_ready_of :: "autoscale_cfg \<Rightarrow> (string \<times> model_state) list \<Rightarrow> int" where
  "max_ready_of cfg insts = (case au_max_ready cfg of None \<Rightarrow> int (length insts) | Some m \<Rightarrow> m)"

definition effective_ready :: "(string \<times> model_state) list \<Rightarrow> nat" where
  "effective_ready insts = length (filter (\<lambda>(k, s). s = READY \<or> s = STARTING) insts)"

definition bring_up :: "string list \<Rightarrow> string list \<Rightarrow> (verb \<times> string) list" where
  "bring_up asleep stopped =
     (if asleep \<noteq> [] then [(Wake, hd asleep)] else if stopped \<noteq> [] then [(Start, hd stopped)] else [])"

definition load_of :: "(group_load \<Rightarrow> real) \<Rightarrow> group_load option \<Rightarrow> real" where
  "load_of f l = (case l of None \<Rightarrow> 0 | Some g \<Rightarrow> f g)"

definition idle_load :: "group_load option \<Rightarrow> bool" where
  "idle_load l = (load_of gl_running l = 0 \<and> load_of gl_waiting l = 0)"

definition decide ::
  "autoscale_cfg \<Rightarrow> group_load option \<Rightarrow> (string \<times> model_state) list \<Rightarrow> bool \<Rightarrow> timing \<Rightarrow> real \<Rightarrow>
   (verb \<times> string) list option \<times> timing" where
  "decide cfg load insts sleep_capable t now =
     (if \<not> au_enabled cfg then (Some [], t)
      else
        let ready = keys_in READY insts; asleep = keys_in SLEEPING insts; stopped = keys_in STOPPED insts;
            eff = int (effective_ready insts)
        in if eff < au_min_ready cfg then (Some (bring_up asleep stopped), t)
           else if load_of gl_per_replica load > au_up_waiting cfg then
             (let over = (case ti_over t of None \<Rightarrow> now | Some o0 \<Rightarrow> o0);
                  t1 = t\<lparr>ti_idle := None, ti_over := Some over\<rparr>
              in if now - over \<ge> au_up_window cfg \<and> now - ti_up t \<ge> au_cooldown cfg \<and> eff < max_ready_of cfg insts
                 then (Some (bring_up asleep stopped), t1\<lparr>ti_up := now, ti_over := None\<rparr>)
                 else (Some [], t1))
           else if \<not> idle_load load then (Some [], t\<lparr>ti_over := None, ti_idle := None\<rparr>)
           else
             (let since = (case ti_idle t of None \<Rightarrow> now | Some i \<Rightarrow> i);
                  t2 = t\<lparr>ti_over := None, ti_idle := Some since\<rparr>; idle_for = now - since
              in if idle_for \<ge> au_sleep_after cfg \<and> int (length ready) > au_min_ready cfg then
                   (if ready = [] then None
                    else Some [(if sleep_capable then Sleep else Stop, last ready)], t2)
                 else if idle_for \<ge> au_stop_after cfg \<and> int (length ready + length asleep) > au_min_warm cfg
                         \<and> asleep \<noteq> [] then (Some [(Stop, last asleep)], t2)
                 else (Some [], t2)))"

section \<open>The policy of a group's configuration\<close>

text \<open>Pydantic's coercions of a validated policy, with the schema's defaults.\<close>

definition cfg_real :: "(string, jval) dict \<Rightarrow> string \<Rightarrow> real \<Rightarrow> real" where
  "cfg_real d k dflt = (case map_of d k of Some (JInt i) \<Rightarrow> of_int i | Some (JFloat r) \<Rightarrow> r | _ \<Rightarrow> dflt)"

definition cfg_int :: "(string, jval) dict \<Rightarrow> string \<Rightarrow> int \<Rightarrow> int" where
  "cfg_int d k dflt = (case map_of d k of Some (JInt i) \<Rightarrow> i | _ \<Rightarrow> dflt)"

definition autoscale_of :: "group_cfg \<Rightarrow> autoscale_cfg option" where
  "autoscale_of g =
     (case gc_autoscale g of
        Val d \<Rightarrow> Some \<lparr>au_enabled = (map_of d ''enabled'' = Some (JBool True)),
          au_min_ready = cfg_int d ''min_ready'' 1, au_min_warm = cfg_int d ''min_warm'' 1,
          au_max_ready = (case map_of d ''max_ready'' of Some (JInt m) \<Rightarrow> Some m | _ \<Rightarrow> None),
          au_up_waiting = cfg_real d ''scale_up_waiting'' 4, au_up_window = cfg_real d ''scale_up_window_s'' 20,
          au_sleep_after = cfg_real d ''sleep_after_s'' 180, au_stop_after = cfg_real d ''stop_after_s'' 900,
          au_cooldown = cfg_real d ''cooldown_s'' 60\<rparr>
      | _ \<Rightarrow> None)"

section \<open>The tick\<close>

record autoscaler =
  as_timing :: "(string, timing) dict"
  as_actions :: "(string \<times> verb, nat) dict"
  as_blocked :: "(string \<times> string, nat) dict"

definition new_autoscaler :: autoscaler where
  "new_autoscaler = \<lparr>as_timing = [], as_actions = [], as_blocked = []\<rparr>"

definition bump :: "'k \<Rightarrow> ('k, nat) dict \<Rightarrow> ('k, nat) dict" where
  "bump k d = dset k (dget d k 0 + 1) d"

definition apply_verb :: "env \<Rightarrow> observation \<Rightarrow> real \<Rightarrow> verb \<Rightarrow> string \<Rightarrow> node \<Rightarrow> unit res" where
  "apply_verb e ob now v key n =
     (case v of
        Wake \<Rightarrow> wake e now (ob_call_ok ob key) key n
      | Start \<Rightarrow> start e now False True (ob_spawn_ok ob key) key n
      | Sleep \<Rightarrow> sleep e now (ob_call_ok ob key) key n
      | Stop \<Rightarrow> stop e now (ob_answers ob key) key n)"

definition apply_action ::
  "env \<Rightarrow> observation \<Rightarrow> real \<Rightarrow> verb \<times> string \<Rightarrow> autoscaler \<times> node \<Rightarrow> autoscaler \<times> node" where
  "apply_action e ob now act an =
     (case (act, an) of
        ((v, key), (a, n)) \<Rightarrow>
          (case apply_verb e ob now v key n of
             (Inr _, n1) \<Rightarrow> (a\<lparr>as_actions := bump (key_group key, v) (as_actions a)\<rparr>, n1)
           | (Inl er, n1) \<Rightarrow>
               (if er = VRAMInsufficient \<or> er = GpuUnavailable
                then a\<lparr>as_blocked := bump (key_group key, ''vram'') (as_blocked a)\<rparr> else a, n1)))"

definition group_inst ::
  "root_cfg \<Rightarrow> minst \<Rightarrow> (string, (string \<times> model_state) list) dict \<Rightarrow> (string, (string \<times> model_state) list) dict" where
  "group_inst config i d =
     (let grp = key_group (mi_key i) in
      case map_of (rc_engines config) grp of
        None \<Rightarrow> d
      | Some g \<Rightarrow> if autoscale_of g = None then d else dset grp (dget d grp [] @ [(mi_key i, mi_state i)]) d)"

definition scaled_groups :: "root_cfg \<Rightarrow> minst list \<Rightarrow> (string, (string \<times> model_state) list) dict" where
  "scaled_groups config snap = fold (group_inst config) snap []"

text \<open>The flag says that no exception has ended the tick.\<close>

definition tick_group ::
  "env \<Rightarrow> observation \<Rightarrow> real \<Rightarrow> real \<Rightarrow> root_cfg \<Rightarrow> (string, group_load) dict \<Rightarrow>
   string \<times> (string \<times> model_state) list \<Rightarrow> bool \<times> autoscaler \<times> node \<Rightarrow> bool \<times> autoscaler \<times> node" where
  "tick_group e ob now clock config stats gi acc =
     (case (gi, acc) of
        ((grp, insts), (ok, a, n)) \<Rightarrow>
          (case (if ok then map_of (rc_engines config) grp else None) of
             None \<Rightarrow> acc
           | Some g \<Rightarrow>
               (case autoscale_of g of
                  None \<Rightarrow> acc
                | Some cfg \<Rightarrow>
                    if \<not> au_enabled cfg then acc
                    else
                      (let sleep_capable = (\<exists>i \<in> set (reg_values (nd_reg n)). key_group (mi_key i) = grp \<and> ls_sleep (mi_spec i));
                           t = dget (as_timing a) grp new_timing
                       in case decide cfg (map_of stats grp) insts sleep_capable t clock of
                            (r, t') \<Rightarrow>
                              (let a1 = a\<lparr>as_timing := dset grp t' (as_timing a)\<rparr>
                               in case r of
                                    None \<Rightarrow> (False, a1, n)
                                  | Some acts \<Rightarrow> (True, fold (apply_action e ob now) acts (a1, n)))))))"

definition tick ::
  "env \<Rightarrow> observation \<Rightarrow> real \<Rightarrow> real \<Rightarrow> (string, group_load) dict \<Rightarrow> autoscaler \<times> node \<Rightarrow> autoscaler \<times> node" where
  "tick e ob now clock stats an =
     (case an of
        (a, n) \<Rightarrow> snd (fold (tick_group e ob now clock (nd_config n) stats)
                     (scaled_groups (nd_config n) (reg_values (nd_reg n))) (True, a, n)))"


section \<open>The floors and the ceiling\<close>

text \<open>The states once the manager has carried the action out.\<close>

definition next_state :: "verb \<Rightarrow> model_state" where
  "next_state v = (case v of Wake \<Rightarrow> READY | Start \<Rightarrow> STARTING | Sleep \<Rightarrow> SLEEPING | Stop \<Rightarrow> STOPPED)"

definition carried_out :: "verb \<times> string \<Rightarrow> (string \<times> model_state) list \<Rightarrow> (string \<times> model_state) list" where
  "carried_out act insts = map (\<lambda>(k, s). (k, if k = snd act then next_state (fst act) else s)) insts"

definition count :: "model_state \<Rightarrow> (string \<times> model_state) list \<Rightarrow> nat" where
  "count st insts = length (keys_in st insts)"

lemma keys_in_iff: "k \<in> set (keys_in st insts) \<longleftrightarrow> (k, st) \<in> set insts"
  by (force simp: keys_in_def)

lemma effective_count: "effective_ready insts = count READY insts + count STARTING insts"
  by (induction insts) (auto simp: effective_ready_def count_def keys_in_def)

lemma count_carried_out:
  assumes "distinct (map fst insts)" "(k, s) \<in> set insts"
  shows "count st (carried_out (v, k) insts) + (if st = s then 1 else 0) = count st insts + (if st = next_state v then 1 else 0)"
  using assms
proof (induction insts)
  case (Cons x insts)
  have same: "carried_out (v, k) insts = insts" if "k \<notin> fst ` set insts"
    unfolding carried_out_def by (rule map_idI) (use that in \<open>force split: prod.split\<close>)
  show ?case
  proof (cases "fst x = k")
    case True
    then have "x = (k, s)" "k \<notin> fst ` set insts" using Cons.prems by (auto simp: image_iff)
    then show ?thesis using same by (auto simp: count_def keys_in_def carried_out_def)
  next
    case False
    then have "count st (carried_out (v, k) insts) + (if st = s then 1 else 0) =
        count st insts + (if st = next_state v then 1 else 0)"
      using Cons by (cases x) auto
    then show ?thesis using False by (cases x) (auto simp: count_def keys_in_def carried_out_def)
  qed
qed simp

lemma bring_up_elim:
  assumes "bring_up (keys_in SLEEPING insts) (keys_in STOPPED insts) = [(v, k)]"
  shows "v = Wake \<and> (k, SLEEPING) \<in> set insts \<or> v = Start \<and> (k, STOPPED) \<in> set insts"
  using assms hd_in_set [of "keys_in SLEEPING insts"] hd_in_set [of "keys_in STOPPED insts"]
  by (auto simp: bring_up_def keys_in_iff split: if_splits)

lemma bring_up_length: "length (bring_up a b) \<le> 1"
  by (simp add: bring_up_def)

text \<open>What an action of \<open>decide\<close> rests on.\<close>

lemma decide_cases:
  assumes "decide cfg load insts sc t now = (Some [(v, k)], t')"
  shows "(v = Wake \<and> (k, SLEEPING) \<in> set insts \<or> v = Start \<and> (k, STOPPED) \<in> set insts) \<and>
       (int (effective_ready insts) < au_min_ready cfg \<or> int (effective_ready insts) < max_ready_of cfg insts) \<or>
     v = (if sc then Sleep else Stop) \<and> (k, READY) \<in> set insts \<and> au_min_ready cfg < int (count READY insts) \<or>
     v = Stop \<and> (k, SLEEPING) \<in> set insts \<and> au_min_warm cfg < int (count READY insts + count SLEEPING insts)"
  using assms bring_up_elim [of insts v k] last_in_set [of "keys_in READY insts"] last_in_set [of "keys_in SLEEPING insts"]
  by (auto simp: decide_def Let_def count_def keys_in_iff split: if_splits)

text \<open>
  C29: the floors and the ceiling.  Once the action of a tick is carried out, a scale-up leaves at most
  the greater of \<open>min_ready\<close> and \<open>max_ready\<close> replicas READY or STARTING; a scale-down leaves at least
  \<open>min_ready\<close> of them READY or takes no READY one, and, in a group that can sleep, at least \<open>min_warm\<close>
  of them READY or SLEEPING or takes none of these.  (In a group that cannot sleep a READY replica is
  stopped whatever \<open>min_warm\<close> says.)
\<close>

theorem decide_keeps_bounds:
  assumes "decide cfg load insts sc t now = (Some [(v, k)], t')" "distinct (map fst insts)"
  shows "(v = Wake \<or> v = Start \<longrightarrow>
       int (effective_ready (carried_out (v, k) insts)) \<le> max (au_min_ready cfg) (max_ready_of cfg insts)) \<and>
     (v = Sleep \<or> v = Stop \<longrightarrow>
       (au_min_ready cfg \<le> int (count READY (carried_out (v, k) insts)) \<or>
        count READY (carried_out (v, k) insts) = count READY insts) \<and>
       (au_min_warm cfg \<le> int (count READY (carried_out (v, k) insts) + count SLEEPING (carried_out (v, k) insts)) \<or>
        count READY (carried_out (v, k) insts) + count SLEEPING (carried_out (v, k) insts) =
          count READY insts + count SLEEPING insts \<or> \<not> sc))"
proof -
  note c = count_carried_out [OF assms(2), of k _ _ v]
  have u: "int (effective_ready (carried_out (v, k) insts)) \<le> max (au_min_ready cfg) (max_ready_of cfg insts)"
    if "v = Wake \<and> (k, SLEEPING) \<in> set insts \<or> v = Start \<and> (k, STOPPED) \<in> set insts"
      "int (effective_ready insts) < au_min_ready cfg \<or> int (effective_ready insts) < max_ready_of cfg insts"
    using that c [of SLEEPING READY] c [of SLEEPING STARTING] c [of STOPPED READY] c [of STOPPED STARTING]
    by (auto simp: effective_count next_state_def)
  have d: "au_min_ready cfg \<le> int (count READY (carried_out (v, k) insts)) \<and>
      (\<not> sc \<or> count READY (carried_out (v, k) insts) + count SLEEPING (carried_out (v, k) insts) =
          count READY insts + count SLEEPING insts)"
    if "v = (if sc then Sleep else Stop)" "(k, READY) \<in> set insts" "au_min_ready cfg < int (count READY insts)"
    using that c [of READY READY] c [of READY SLEEPING] by (auto simp: next_state_def)
  have r: "count READY (carried_out (v, k) insts) = count READY insts \<and>
      au_min_warm cfg \<le> int (count READY (carried_out (v, k) insts) + count SLEEPING (carried_out (v, k) insts))"
    if "v = Stop" "(k, SLEEPING) \<in> set insts" "au_min_warm cfg < int (count READY insts + count SLEEPING insts)"
    using that c [of SLEEPING READY] c [of SLEEPING SLEEPING] by (auto simp: next_state_def)
  show ?thesis
    using decide_cases [OF assms(1)] u d r by (cases v) (auto split: if_splits)
qed

section \<open>The scale-up cooldown\<close>

type_synonym tick_input = "group_load option \<times> (string \<times> model_state) list \<times> bool \<times> real"

fun decide_step :: "autoscale_cfg \<Rightarrow> tick_input \<Rightarrow> timing \<Rightarrow> timing" where
  "decide_step cfg (load, insts, sc, now) t = snd (decide cfg load insts sc t now)"

text \<open>The time of a scale-up on demand: an action above the floor that wakes or starts a replica.\<close>

fun scales_up :: "autoscale_cfg \<Rightarrow> tick_input \<Rightarrow> timing \<Rightarrow> real option" where
  "scales_up cfg (load, insts, sc, now) t =
     (case fst (decide cfg load insts sc t now) of
        Some [(v, k)] \<Rightarrow> if (v = Wake \<or> v = Start) \<and> \<not> int (effective_ready insts) < au_min_ready cfg then Some now else None
      | _ \<Rightarrow> None)"


lemma decide_single:
  assumes "fst (decide cfg load insts sc t now) = Some acts"
  shows "acts = [] \<or> (\<exists>v k. acts = [(v, k)])"
  using assms by (auto simp: decide_def Let_def bring_up_def split: if_splits)

lemma decide_up:
  assumes "fst (decide cfg load insts sc t now) = Some [(v, k)]" "v = Wake \<or> v = Start"
    "\<not> int (effective_ready insts) < au_min_ready cfg"
  shows "au_cooldown cfg \<le> now - ti_up t \<and> ti_up (snd (decide cfg load insts sc t now)) = now"
  using assms by (auto simp: decide_def Let_def split: if_splits)

lemma decide_stamp:
  "ti_up (snd (decide cfg load insts sc t now)) = ti_up t \<or>
   ti_up (snd (decide cfg load insts sc t now)) = now \<and> au_cooldown cfg \<le> now - ti_up t"
  by (auto simp: decide_def Let_def)

lemma scales_up_iff:
  "scales_up cfg (load, insts, sc, now) t = Some s \<longleftrightarrow>
     s = now \<and> \<not> int (effective_ready insts) < au_min_ready cfg \<and>
     (\<exists>v k. fst (decide cfg load insts sc t now) = Some [(v, k)] \<and> (v = Wake \<or> v = Start))"
  by (auto split: option.splits list.splits)

interpretation scale_up: spaced "decide_step cfg" "scales_up cfg" "\<lambda>t. Some (ti_up t)" "au_cooldown cfg"
  "\<lambda>_. 0 \<le> au_cooldown cfg" for cfg
proof (unfold_locales, goal_cases)
  case (1 s e t u)
  obtain load insts sc now where e: "e = (load, insts, sc, now)" by (cases e)
  show ?case using 1 decide_up [of cfg load insts sc s now] unfolding e scales_up_iff by auto
next
  case (2 s e t)
  obtain load insts sc now where e: "e = (load, insts, sc, now)" by (cases e)
  show ?case using 2 decide_up [of cfg load insts sc s now] unfolding e scales_up_iff by auto
next
  case (3 s e u)
  obtain load insts sc now where e: "e = (load, insts, sc, now)" by (cases e)
  show ?case using 3 decide_stamp [of cfg load insts sc s now] unfolding e by auto
qed auto

text \<open>
  The scale-up cooldown.  However the load, the replicas and the clock readings come, two
  scale-ups on demand of one group are at least \<open>cooldown_s\<close> apart.
\<close>

theorem scale_ups_spaced:
  assumes "0 \<le> au_cooldown cfg"
  shows "sorted_wrt (\<lambda>a b. a + au_cooldown cfg \<le> b) (fire_times (decide_step cfg) (scales_up cfg) es t)"
  by (rule scale_up.fires_spaced [OF assms])

section \<open>Scaling down only after idleness\<close>

definition quiet_tick :: "autoscale_cfg \<Rightarrow> tick_input \<Rightarrow> bool" where
  "quiet_tick cfg x =
     (case x of (load, insts, sc, now) \<Rightarrow> idle_load load \<or> int (effective_ready insts) < au_min_ready cfg)"

definition tick_time :: "tick_input \<Rightarrow> real" where
  "tick_time x = (case x of (load, insts, sc, now) \<Rightarrow> now)"

lemma idle_mark:
  assumes "au_enabled cfg" "sorted (map tick_time es)"
    and "ti_idle (fold (decide_step cfg) es new_timing) = Some u" "x \<in> set es" "u < tick_time x"
  shows "quiet_tick cfg x"
  using assms(2-)
proof (induction es arbitrary: u rule: rev_induct)
  case (snoc y es)
  obtain load insts sc now where y: "y = (load, insts, sc, now)" by (cases y)
  let ?t = "fold (decide_step cfg) es new_timing"
  have old: "quiet_tick cfg x" if "ti_idle ?t = Some u" "x \<in> set es"
    using snoc.IH [OF _ that snoc.prems(4)] snoc.prems(1) by (simp add: sorted_append)
  have upto: "tick_time x \<le> now"
    using snoc.prems(1,3) by (auto simp: sorted_append y tick_time_def)
  have "ti_idle (snd (decide cfg load insts sc ?t now)) = Some u" using snoc.prems(2) by (simp add: y)
  then consider "int (effective_ready insts) < au_min_ready cfg" "ti_idle ?t = Some u"
    | "idle_load load" "ti_idle ?t = Some u \<or> u = now"
    using assms(1) by (auto simp: decide_def Let_def split: if_splits option.splits)
  then show ?case
  proof cases
    case 1
    then show ?thesis using old snoc.prems(3) by (auto simp: y quiet_tick_def)
  next
    case 2
    then show ?thesis using old snoc.prems(3,4) upto by (auto simp: y quiet_tick_def)
  qed
qed (simp add: new_timing_def)

lemma decide_down:
  assumes "fst (decide cfg load insts sc t now) = Some [(v, k)]" "v = Sleep \<or> v = Stop"
  shows "au_enabled cfg \<and> idle_load load \<and>
    min (au_sleep_after cfg) (au_stop_after cfg) \<le> now - (case ti_idle t of None \<Rightarrow> now | Some i \<Rightarrow> i)"
  using assms by (auto simp: decide_def Let_def bring_up_def split: if_splits)

text \<open>
  C30: scaling down.  A replica is put to sleep or stopped only when, at every tick of the preceding
  \<open>min sleep_after_s stop_after_s\<close> seconds, the group had no running and no waiting request or was
  below its floor.
\<close>

theorem scale_down_after_idle:
  assumes "fst (decide cfg load insts sc (fold (decide_step cfg) es new_timing) now) = Some [(v, k)]"
    and "v = Sleep \<or> v = Stop" "sorted (map tick_time es)" "\<forall>x \<in> set es. tick_time x \<le> now"
    and "x \<in> set es" "now - min (au_sleep_after cfg) (au_stop_after cfg) < tick_time x"
  shows "quiet_tick cfg x"
proof -
  let ?t = "fold (decide_step cfg) es new_timing"
  note d = decide_down [OF assms(1,2)]
  obtain u where "ti_idle ?t = Some u" "u < tick_time x"
    using d assms(4-6) by (cases "ti_idle ?t") force+
  then show ?thesis using idle_mark [of cfg es u x] d assms(3,5) by blast
qed

text \<open>
  The floor exception is real: a tick below the floor leaves the idle mark standing, so a group that
  was busy right before this tick loses a replica although it has not been idle for \<open>sleep_after_s\<close>.
\<close>

theorem floor_tick_keeps_idle_mark:
  assumes "au_enabled cfg" "int (effective_ready insts) < au_min_ready cfg"
  shows "snd (decide cfg load insts sc t now) = t"
  using assms by (simp add: decide_def Let_def)


section \<open>A tick is made of the manager's own steps\<close>

lemma apply_verb_step:
  assumes "v = Start \<longrightarrow> (\<forall>i. reg_get (nd_reg n) key = Some i \<longrightarrow> mi_state i \<noteq> SLEEPING \<and> mi_state i \<noteq> STOPPING)"
  shows "node_step e n (snd (apply_verb e ob now v key n))"
  using assms by (cases v) (auto simp: apply_verb_def intro: node_step.intros)

lemma apply_verb_elsewhere: "elsewhere key n (snd (apply_verb e ob now v key n))"
  by (cases v) (simp_all add: apply_verb_def op_elsewhere)

lemma apply_action_node:
  "snd (apply_action e ob now (v, key) (a, n)) = snd (apply_verb e ob now v key n)"
  by (auto simp: apply_action_def split_beta split: sum.split)

lemma map_of_scaled:
  "map_of (scaled_groups config snap) grp =
     (case map_of (rc_engines config) grp of
        None \<Rightarrow> None
      | Some g \<Rightarrow>
          if autoscale_of g = None \<or> filter (\<lambda>i. key_group (mi_key i) = grp) snap = [] then None
          else Some (map (\<lambda>i. (mi_key i, mi_state i)) (filter (\<lambda>i. key_group (mi_key i) = grp) snap)))"
proof (induction snap rule: rev_induct)
  case (snoc i snap)
  have "scaled_groups config (snap @ [i]) = group_inst config i (scaled_groups config snap)"
    by (simp add: scaled_groups_def)
  then show ?case
    using snoc by (cases "key_group (mi_key i) = grp") (auto simp: group_inst_def dget_def Let_def split: option.splits)
qed (simp add: scaled_groups_def split: option.split)

lemma scaled_ok: "dict_ok (scaled_groups config snap)"
proof -
  have "dict_ok (fold (group_inst config) snap d)" if "dict_ok d" for d
    using that by (induction snap arbitrary: d) (simp_all add: group_inst_def Let_def split: option.split)
  then show ?thesis by (simp add: scaled_groups_def)
qed

text \<open>The snapshot entries of the groups still to come are the states the registry has now.\<close>

definition snapshot_fresh :: "string \<times> (string \<times> model_state) list \<Rightarrow> node \<Rightarrow> bool" where
  "snapshot_fresh gi n =
     (\<forall>(k, s) \<in> set (snd gi). key_group k = fst gi \<and> (\<exists>i. reg_get (nd_reg n) k = Some i \<and> mi_state i = s))"

lemma scaled_fresh:
  assumes "reg_ok (nd_reg n)" "gi \<in> set (scaled_groups config (reg_values (nd_reg n)))"
  shows "snapshot_fresh gi n"
proof -
  have "map_of (scaled_groups config (reg_values (nd_reg n))) (fst gi) = Some (snd gi)"
    using assms(2) scaled_ok [of config "reg_values (nd_reg n)"] by (simp add: dict_ok_def)
  then have "snd gi = map (\<lambda>i. (mi_key i, mi_state i)) (filter (\<lambda>i. key_group (mi_key i) = fst gi) (reg_values (nd_reg n)))"
    by (auto simp: map_of_scaled split: option.splits if_splits)
  then show ?thesis
    using assms(1) by (auto simp: snapshot_fresh_def reg_values_iff)
qed

lemma tick_group_step:
  assumes "snapshot_fresh (grp, insts) n" "tick_group e ob now clock config stats (grp, insts) (ok, a, n) = (ok', a', n')"
  shows "n' = n \<or> (node_step e n n' \<and> (\<exists>k. key_group k = grp \<and> elsewhere k n n'))"
proof (cases "ok' \<and> n' \<noteq> n")
  case True
  then obtain cfg t sc acts t' where d: "decide cfg (map_of stats grp) insts sc t clock = (Some acts, t')"
      and n': "n' = snd (fold (apply_action e ob now) acts (a\<lparr>as_timing := dset grp t' (as_timing a)\<rparr>, n))"
    using assms(2) by (auto simp: tick_group_def Let_def split: if_splits option.splits prod.splits)
  then obtain v k where acts: "acts = [(v, k)]"
    using True decide_single [of cfg "map_of stats grp" insts sc t clock acts] by auto
  have "n' = snd (apply_verb e ob now v k n)" using n' by (simp add: acts apply_action_node)
  moreover have "(k, SLEEPING) \<in> set insts \<or> (k, STOPPED) \<in> set insts \<or> (k, READY) \<in> set insts"
      "v = Start \<longrightarrow> (k, STOPPED) \<in> set insts"
    using decide_cases [OF d [unfolded acts]] by (auto split: if_splits)
  moreover from this have "key_group k = grp"
      "v = Start \<longrightarrow> (\<forall>i. reg_get (nd_reg n) k = Some i \<longrightarrow> mi_state i \<noteq> SLEEPING \<and> mi_state i \<noteq> STOPPING)"
    using assms(1) by (auto simp: snapshot_fresh_def)
  ultimately show ?thesis using apply_verb_step apply_verb_elsewhere by blast
next
  case False
  then show ?thesis
    using assms(2) by (auto simp: tick_group_def Let_def split: if_splits option.splits prod.splits)
qed

lemma fresh_elsewhere:
  assumes "snapshot_fresh gj n" "elsewhere k n n'" "key_group k \<noteq> fst gj"
  shows "snapshot_fresh gj n'"
  unfolding snapshot_fresh_def
proof (rule ballI, rule case_prodI2)
  fix kx k' s assume "kx \<in> set (snd gj)" "kx = (k', s)"
  then have k': "key_group k' = fst gj" "\<exists>i. reg_get (nd_reg n) k' = Some i \<and> mi_state i = s"
    using assms(1) by (auto simp: snapshot_fresh_def)
  then have "k' \<noteq> k" using assms(3) by auto
  then have "reg_get (nd_reg n') k' = reg_get (nd_reg n) k'" using assms(2) by (simp add: elsewhere_def)
  then show "key_group k' = fst gj \<and> (\<exists>i. reg_get (nd_reg n') k' = Some i \<and> mi_state i = s)" using k' by simp
qed

lemma ticks_reach:
  assumes "node_reach e n0 n" "distinct (map fst gs)" "\<forall>gi \<in> set gs. snapshot_fresh gi n"
  shows "node_reach e n0 (snd (snd (fold (tick_group e ob now clock config stats) gs (ok, a, n))))"
  using assms
proof (induction gs arbitrary: ok a n)
  case (Cons gi gs)
  obtain grp insts where gi: "gi = (grp, insts)" by (cases gi)
  obtain ok' a' n' where t: "tick_group e ob now clock config stats gi (ok, a, n) = (ok', a', n')" by (cases rule: prod_cases3)
  have s: "n' = n \<or> (node_step e n n' \<and> (\<exists>k. key_group k = grp \<and> elsewhere k n n'))"
    using tick_group_step [of grp insts n] Cons.prems(3) t gi by simp
  have "node_reach e n0 n'" using s Cons.prems(1) reach_step by blast
  moreover have "snapshot_fresh gj n'" if "gj \<in> set gs" for gj
  proof -
    have "fst gj \<noteq> grp" "snapshot_fresh gj n" using Cons.prems(2,3) that gi by force+
    then show ?thesis using s fresh_elsewhere by metis
  qed
  ultimately show ?case using Cons.IH [of n' ok' a'] Cons.prems(2) t by simp
qed simp

text \<open>
  C28: the autoscaler stays within the manager's protocol.  Whatever the load, a tick takes a reachable
  node to a reachable node: it wakes, starts, sleeps and stops instances only as the handlers may, so
  every invariant of the reachable states (no orphan process among them) survives it.
\<close>

theorem tick_reachable:
  assumes "booted n0" "node_reach e n0 n"
  shows "node_reach e n0 (snd (tick e ob now clock stats (a, n)))"
  unfolding tick_def prod.case
proof (rule ticks_reach [OF assms(2)])
  show "distinct (map fst (scaled_groups (nd_config n) (reg_values (nd_reg n))))"
    using scaled_ok by (simp add: dict_ok_def)
  show "\<forall>gi \<in> set (scaled_groups (nd_config n) (reg_values (nd_reg n))). snapshot_fresh gi n"
    using scaled_fresh owned_reg_ok [OF node_reach_owned [OF assms(2,1)]] by blast
qed

section \<open>Witnesses\<close>

definition demo_policy :: autoscale_cfg where
  "demo_policy = \<lparr>au_enabled = True, au_min_ready = 1, au_min_warm = 1, au_max_ready = Some 2, au_up_waiting = 4,
     au_up_window = 20, au_sleep_after = 180, au_stop_after = 900, au_cooldown = 60\<rparr>"

definition pair_insts :: "(string \<times> model_state) list" where
  "pair_insts = [(''q::a'', READY), (''q::b'', READY)]"

lemma decide_keeps_bounds_witness:
  "1 \<le> count READY (carried_out (Sleep, ''q::b'') pair_insts)"
  using decide_keeps_bounds [of demo_policy None pair_insts True "\<lparr>ti_over = None, ti_idle = Some 0, ti_up = 0\<rparr>" 200
      Sleep "''q::b''" "\<lparr>ti_over = None, ti_idle = Some 0, ti_up = 0\<rparr>"]
  by (simp add: decide_def demo_policy_def pair_insts_def effective_ready_def idle_load_def load_of_def keys_in_def Let_def)
    (simp add: count_def carried_out_def keys_in_def next_state_def)

lemma scale_ups_spaced_witness:
  "sorted_wrt (\<lambda>a b. a + 60 \<le> b) (fire_times (decide_step demo_policy) (scales_up demo_policy) [] new_timing)"
  using scale_ups_spaced [of demo_policy "[]" new_timing] by (simp add: demo_policy_def)

lemma scale_down_after_idle_witness: "quiet_tick demo_policy (None, pair_insts, True, 100)"
  by (rule scale_down_after_idle [of demo_policy None pair_insts True "[(None, pair_insts, True, 0), (None, pair_insts, True, 100)]"
        200 Sleep "''q::b''"])
    (simp_all add: tick_time_def demo_policy_def, simp add: decide_def pair_insts_def effective_ready_def idle_load_def
      load_of_def keys_in_def new_timing_def Let_def)

lemma tick_reachable_witness: "node_reach mgr_env mgr_node (snd (tick mgr_env quiet 9 9 [] (new_autoscaler, mgr_node)))"
  by (rule tick_reachable [OF mgr_booted reach_boot])

end
