(* ===== verification/Downloads.thy ===== *)
theory Downloads
  imports Launchers "HOL-Library.List_Lexorder" "HOL-Library.Char_ord"
begin

text \<open>
  Weights, adapters and data sets on disk: apps/backend/app/services/downloads.py, dataset_downloads.py,
  lora_downloads.py (three managers of background downloads), and dataset_service.py, lora_service.py,
  hf_service.py (what is on disk, and how it is deleted).

  A path is the list of its components.  The file system is the dictionary of the files with their sizes and
  the list of the directories; symbolic links and permissions are left out.  A download task is its phase between
  two await points; what the hub, the download and the size sampling answer are the arguments of the steps.
  Of the catalogue's entries the model keeps what the code decides on: key, repository, file, category and
  the need of a judge (labels, tiers and notes are for display).
\<close>

section \<open>The file system\<close>

type_synonym path = "string list"

record fsys =
  fs_files :: "(path, nat) dict"
  fs_dirs :: "path list"

definition under :: "path \<Rightarrow> path \<Rightarrow> bool" where
  "under d p = (length d < length p \<and> take (length d) p = d)"

definition is_dir :: "fsys \<Rightarrow> path \<Rightarrow> bool" where
  "is_dir fs d = (d \<in> set (fs_dirs fs))"

definition is_file :: "fsys \<Rightarrow> path \<Rightarrow> bool" where
  "is_file fs p = dhas (fs_files fs) p"

text \<open>\<open>os.walk\<close> and \<open>os.path.getsize\<close>: the bytes of all files below a directory.\<close>

definition tree_size :: "fsys \<Rightarrow> path \<Rightarrow> nat" where
  "tree_size fs d = sum_list (map snd (filter (\<lambda>(p, n). under d p) (fs_files fs)))"

definition rmtree :: "path \<Rightarrow> fsys \<Rightarrow> fsys" where
  "rmtree d fs =
     fs\<lparr>fs_files := filter (\<lambda>(p, n). \<not> under d p) (fs_files fs),
        fs_dirs := filter (\<lambda>p. p \<noteq> d \<and> \<not> under d p) (fs_dirs fs)\<rparr>"

definition remove_file :: "path \<Rightarrow> fsys \<Rightarrow> fsys" where
  "remove_file p fs = fs\<lparr>fs_files := dpop p (fs_files fs)\<rparr>"

definition empty_dir :: "fsys \<Rightarrow> path \<Rightarrow> bool" where
  "empty_dir fs d = (is_dir fs d \<and> list_all (\<lambda>(p, n). \<not> under d p) (fs_files fs) \<and> list_all (\<lambda>p. \<not> under d p) (fs_dirs fs))"

text \<open>\<open>os.removedirs\<close>: the directory and its ancestors, as long as they are empty; the argument is reversed.\<close>

fun removedirs :: "path \<Rightarrow> fsys \<Rightarrow> fsys" where
  "removedirs [] fs = fs"
| "removedirs (c # d) fs =
     (if empty_dir fs (rev (c # d))
      then removedirs d (fs\<lparr>fs_dirs := filter (\<lambda>p. p \<noteq> rev (c # d)) (fs_dirs fs)\<rparr>) else fs)"

text \<open>\<open>while probe and not os.path.exists(probe): probe = os.path.dirname(probe)\<close>, reversed too.\<close>

fun probe_path :: "fsys \<Rightarrow> path \<Rightarrow> path" where
  "probe_path fs [] = []"
| "probe_path fs (c # d) = (if is_dir fs (rev (c # d)) \<or> is_file fs (rev (c # d)) then rev (c # d) else probe_path fs d)"

section \<open>Data sets\<close>

record dataset =
  ds_key :: string
  ds_repo :: string
  ds_file :: "string option"
  ds_eval :: bool
  ds_judge :: bool

definition perf_set :: "string \<Rightarrow> string \<Rightarrow> string \<Rightarrow> dataset" where
  "perf_set k r f = \<lparr>ds_key = k, ds_repo = r, ds_file = Some f, ds_eval = False, ds_judge = False\<rparr>"

definition eval_set :: "string \<Rightarrow> string \<Rightarrow> dataset" where
  "eval_set k r = \<lparr>ds_key = k, ds_repo = r, ds_file = None, ds_eval = True, ds_judge = False\<rparr>"

definition judged_set :: "string \<Rightarrow> string \<Rightarrow> dataset" where
  "judged_set k r = \<lparr>ds_key = k, ds_repo = r, ds_file = None, ds_eval = True, ds_judge = True\<rparr>"

definition perf_catalog :: "dataset list" where
  "perf_catalog =
     [perf_set ''share_gpt_zh'' ''swift/sharegpt'' ''common_zh_70k.jsonl'',
      perf_set ''share_gpt_en'' ''swift/sharegpt'' ''common_en_70k.jsonl'',
      perf_set ''openqa'' ''AI-ModelScope/HC3-Chinese'' ''open_qa.jsonl'']"

definition eval_catalog :: "dataset list" where
  "eval_catalog =
     [eval_set ''mmlu'' ''cais/mmlu'',
      eval_set ''arc'' ''allenai/ai2_arc'',
      eval_set ''hellaswag'' ''evalscope/hellaswag'',
      eval_set ''gsm8k'' ''AI-ModelScope/gsm8k'',
      eval_set ''ifeval'' ''opencompass/ifeval'',
      eval_set ''truthful_qa'' ''evalscope/truthful_qa'',
      eval_set ''gpqa_diamond'' ''AI-ModelScope/gpqa_diamond'',
      eval_set ''mmlu_pro'' ''TIGER-Lab/MMLU-Pro'',
      eval_set ''mmlu_redux'' ''AI-ModelScope/mmlu-redux-2.0'',
      eval_set ''super_gpqa'' ''m-a-p/SuperGPQA'',
      eval_set ''trivia_qa'' ''evalscope/trivia_qa'',
      eval_set ''ceval'' ''evalscope/ceval'',
      eval_set ''cmmlu'' ''evalscope/cmmlu'',
      eval_set ''iquiz'' ''AI-ModelScope/IQuiz'',
      eval_set ''bbh'' ''evalscope/bbh'',
      eval_set ''logi_qa'' ''extraordinarylab/logiqa'',
      eval_set ''math_500'' ''AI-ModelScope/MATH-500'',
      eval_set ''competition_math'' ''evalscope/competition_math'',
      eval_set ''aime24'' ''evalscope/aime24'',
      eval_set ''aime25'' ''evalscope/aime25'',
      eval_set ''mgsm'' ''evalscope/mgsm'',
      eval_set ''mmmlu'' ''openai-mirror/MMMLU'',
      eval_set ''tool_bench'' ''AI-ModelScope/ToolBench-Static'',
      eval_set ''general_fc'' ''evalscope/GeneralFunctionCall-Test'',
      eval_set ''needle_haystack'' ''AI-ModelScope/Needle-in-a-Haystack-Corpus'',
      eval_set ''longbench_v2'' ''ZhipuAI/LongBench-v2'',
      eval_set ''frames'' ''iic/frames'',
      eval_set ''openai_mrcr'' ''openai-mirror/mrcr'',
      judged_set ''simple_qa'' ''evalscope/SimpleQA'',
      judged_set ''chinese_simple_qa'' ''AI-ModelScope/Chinese-SimpleQA'',
      eval_set ''humaneval'' ''opencompass/humaneval'']"

definition CATALOG :: "dataset list" where
  "CATALOG = perf_catalog @ eval_catalog"

definition get_entry :: "string \<Rightarrow> dataset option" where
  "get_entry key = map_of (map (\<lambda>d. (ds_key d, d)) CATALOG) key"

fun path_parts :: "string \<Rightarrow> string \<Rightarrow> path" where
  "path_parts cur [] = [cur]"
| "path_parts cur (c # s) = (if c = CHR ''/'' then cur # path_parts [] s else path_parts (cur @ [c]) s)"

definition dataset_dir :: "path \<Rightarrow> dataset \<Rightarrow> path" where
  "dataset_dir base e = base @ path_parts [] (ds_repo e)"

definition file_path :: "path \<Rightarrow> dataset \<Rightarrow> path option" where
  "file_path base e =
     (case ds_file e of None \<Rightarrow> None | Some f \<Rightarrow> if f = [] then None else Some (dataset_dir base e @ path_parts [] f))"

definition cached_size :: "path \<Rightarrow> fsys \<Rightarrow> dataset \<Rightarrow> nat" where
  "cached_size base fs e =
     (case file_path base e of
        None \<Rightarrow> tree_size fs (dataset_dir base e)
      | Some p \<Rightarrow> dget (fs_files fs) p 0)"

definition scan_datasets :: "path \<Rightarrow> fsys \<Rightarrow> (dataset \<times> bool \<times> nat) list" where
  "scan_datasets base fs = map (\<lambda>e. (e, cached_size base fs e > 0, cached_size base fs e)) CATALOG"

text \<open>\<open>None\<close>: an exception (the path of a single file is a directory).\<close>

definition delete_dataset :: "path \<Rightarrow> string \<Rightarrow> fsys \<Rightarrow> bool option \<times> fsys" where
  "delete_dataset base key fs =
     (case get_entry key of
        None \<Rightarrow> (Some False, fs)
      | Some e \<Rightarrow>
          (case file_path base e of
             None \<Rightarrow> if is_dir fs (dataset_dir base e) then (Some True, rmtree (dataset_dir base e) fs) else (Some False, fs)
           | Some p \<Rightarrow>
               if is_dir fs p then (None, fs)
               else if \<not> is_file fs p then (Some False, fs)
               else (Some True, removedirs (rev (butlast p)) (remove_file p fs))))"

section \<open>Adapters\<close>

definition safe_char :: "char \<Rightarrow> bool" where
  "safe_char c = (is_alnum c \<or> c \<in> {CHR ''.'', CHR ''_'', CHR ''-''})"

text \<open>\<open>^[A-Za-z0-9._-]+$\<close> with \<open>match\<close>: \<open>$\<close> also matches before a final newline.\<close>

definition safe_name :: "string \<Rightarrow> bool" where
  "safe_name name =
     (let body = (if name \<noteq> [] \<and> last name = CHR 0x0A then butlast name else name) in body \<noteq> [] \<and> list_all safe_char body)"

definition adapter_dir :: "path \<Rightarrow> string \<Rightarrow> path option" where
  "adapter_dir base name =
     (if name = [] \<or> name = ''.'' \<or> name = ''..'' \<or> \<not> safe_name name then None else Some (base @ [name]))"

datatype deletion = Bad_Name | Not_There | Deleted

definition delete_adapter :: "path \<Rightarrow> string \<Rightarrow> fsys \<Rightarrow> deletion \<times> fsys" where
  "delete_adapter base name fs =
     (case adapter_dir base name of
        None \<Rightarrow> (Bad_Name, fs)
      | Some d \<Rightarrow> if is_dir fs d then (Deleted, rmtree d fs) else (Not_There, fs))"

record adapter =
  ad_name :: string
  ad_path :: path
  ad_base :: jval
  ad_rank :: jval
  ad_alpha :: jval
  ad_modules :: "jval list"
  ad_size :: nat

text \<open>\<open>parsed\<close>: what \<open>json.load\<close> makes of the file, \<open>None\<close> when it is no JSON or cannot be read.\<close>

definition read_adapter_config :: "(path \<Rightarrow> jval option) \<Rightarrow> fsys \<Rightarrow> path \<Rightarrow> jval option" where
  "read_adapter_config parsed fs folder =
     (let p = folder @ [''adapter_config.json''] in
      if \<not> is_file fs p then None else Some (case parsed p of None \<Rightarrow> JObj [] | Some j \<Rightarrow> j))"

text \<open>\<open>list(v or [])\<close>; \<open>None\<close> is the exception of a value that cannot be iterated.\<close>

fun items_of :: "jval \<Rightarrow> jval list option" where
  "items_of (JList xs) = Some xs"
| "items_of (JStr s) = Some (map (\<lambda>c. JStr [c]) s)"
| "items_of (JObj d) = Some (map (\<lambda>kv. JStr (fst kv)) d)"
| "items_of v = (if truthy v then None else Some [])"

text \<open>\<open>None\<close>: the scan raises (a parsed value without \<open>get\<close>); \<open>Some None\<close>: no adapter, skipped.\<close>

definition adapter_row :: "path \<Rightarrow> (path \<Rightarrow> jval option) \<Rightarrow> fsys \<Rightarrow> string \<Rightarrow> adapter option option" where
  "adapter_row base parsed fs n =
     (case read_adapter_config parsed fs (base @ [n]) of
        None \<Rightarrow> Some None
      | Some (JObj cfg) \<Rightarrow>
          (case items_of (jget cfg ''target_modules'') of
             None \<Rightarrow> None
           | Some ms \<Rightarrow>
               Some (Some \<lparr>ad_name = n, ad_path = base @ [n], ad_base = jget cfg ''base_model_name_or_path'',
                           ad_rank = jget cfg ''r'', ad_alpha = jget cfg ''lora_alpha'', ad_modules = ms,
                           ad_size = tree_size fs (base @ [n])\<rparr>))
      | Some _ \<Rightarrow> None)"

fun adapter_rows :: "path \<Rightarrow> (path \<Rightarrow> jval option) \<Rightarrow> fsys \<Rightarrow> string list \<Rightarrow> adapter list option" where
  "adapter_rows base parsed fs [] = Some []"
| "adapter_rows base parsed fs (n # ns) =
     (case adapter_row base parsed fs n of
        None \<Rightarrow> None
      | Some r \<Rightarrow> map_option (\<lambda>rs. (case r of None \<Rightarrow> rs | Some a \<Rightarrow> a # rs)) (adapter_rows base parsed fs ns))"

definition folder_names :: "path \<Rightarrow> fsys \<Rightarrow> string list" where
  "folder_names base fs = sort (map last (filter (\<lambda>p. under base p \<and> length p = Suc (length base)) (fs_dirs fs)))"

definition scan_adapters :: "path \<Rightarrow> (path \<Rightarrow> jval option) \<Rightarrow> fsys \<Rightarrow> adapter list option" where
  "scan_adapters base parsed fs = (if is_dir fs base then adapter_rows base parsed fs (folder_names base fs) else Some [])"

section \<open>The hub's cache\<close>

definition repo_cache_dir :: "path \<Rightarrow> string \<Rightarrow> path" where
  "repo_cache_dir base repo = base @ [''models--'' @ concat (map (\<lambda>c. if c = CHR ''/'' then ''--'' else [c]) repo)]"

definition model_total_size :: "nat option list \<Rightarrow> nat option" where
  "model_total_size sizes =
     (let known = filter (\<lambda>n. n \<noteq> 0) (List.map_filter (\<lambda>s. s) sizes) in if known = [] then None else Some (sum_list known))"

record cached_repo =
  cp_repo :: string
  cp_model :: bool
  cp_size :: nat
  cp_revisions :: "string list"

definition scan_cache :: "cached_repo list option \<Rightarrow> cached_repo list" where
  "scan_cache info = (case info of None \<Rightarrow> [] | Some rs \<Rightarrow> sort_key (\<lambda>r. - int (cp_size r)) (filter cp_model rs))"

text \<open>The revisions to delete; none is the \<open>False\<close>.\<close>

definition repo_revisions :: "string \<Rightarrow> cached_repo list \<Rightarrow> string list" where
  "repo_revisions repo rs = concat (map cp_revisions (filter (\<lambda>r. cp_repo r = repo \<and> cp_model r) rs))"

section \<open>Download jobs\<close>

datatype dl_state = Dl_Pending | Dl_Downloading | Dl_Completed | Dl_Failed

record job =
  jb_key :: string
  jb_repo :: string
  jb_state :: dl_state
  jb_total :: "int option"
  jb_bytes :: int
  jb_error :: "string option"
  jb_started :: real
  jb_updated :: real
  jb_warming :: bool
  jb_gen :: nat

text \<open>
  \<open>jb_gen\<close> is the identity of the job object, which the warm-up of an earlier job may still hold.  \<open>dm_tasks\<close>:
  where the task of a key waits: not begun, for the size, for the download, for the final measure.
\<close>

datatype phase = Created | Sizing | Fetching | Measuring

record dlm =
  dm_jobs :: "(string, job) dict"
  dm_tasks :: "(string, phase) dict"
  dm_next :: nat

datatype dl_kind = Weights | Adapters | Datasets

definition new_job :: "real \<Rightarrow> string \<Rightarrow> string \<Rightarrow> nat \<Rightarrow> job" where
  "new_job now key repo g =
     \<lparr>jb_key = key, jb_repo = repo, jb_state = Dl_Pending, jb_total = None, jb_bytes = 0, jb_error = None,
      jb_started = now, jb_updated = now, jb_warming = False, jb_gen = g\<rparr>"

definition in_flight :: "job \<Rightarrow> bool" where
  "in_flight j = (jb_state j = Dl_Pending \<or> jb_state j = Dl_Downloading)"

definition begin_job :: "real \<Rightarrow> string \<Rightarrow> string \<Rightarrow> dlm \<Rightarrow> job \<times> dlm" where
  "begin_job now key repo m =
     (let fresh = new_job now key repo (dm_next m);
          started = (fresh, m\<lparr>dm_jobs := dset key fresh (dm_jobs m), dm_tasks := dset key Created (dm_tasks m), dm_next := Suc (dm_next m)\<rparr>)
      in case map_of (dm_jobs m) key of
           Some j \<Rightarrow> if in_flight j then (j, m) else started
         | None \<Rightarrow> started)"

definition start_weights :: "real \<Rightarrow> string \<Rightarrow> dlm \<Rightarrow> job option \<times> dlm" where
  "start_weights now repo m =
     (let r = str_strip repo in
      if r = [] then (None, m) else (case begin_job now r r m of (j, m1) \<Rightarrow> (Some j, m1)))"

definition leaf_of :: "string \<Rightarrow> string" where
  "leaf_of repo = last (path_parts [] repo)"

definition start_adapter :: "real \<Rightarrow> path \<Rightarrow> string \<Rightarrow> string option \<Rightarrow> dlm \<Rightarrow> job option \<times> dlm" where
  "start_adapter now base repo name m =
     (let r = str_strip repo in
      if r = [] then (None, m)
      else let n = str_strip (case name of None \<Rightarrow> leaf_of r | Some x \<Rightarrow> if x = [] then leaf_of r else x) in
        if adapter_dir base n = None then (None, m)
        else (case begin_job now n r m of (j, m1) \<Rightarrow> (Some j, m1)))"

definition start_dataset :: "real \<Rightarrow> string \<Rightarrow> dlm \<Rightarrow> job option \<times> dlm" where
  "start_dataset now key m =
     (case get_entry key of
        None \<Rightarrow> (None, m)
      | Some e \<Rightarrow> (case begin_job now key (ds_repo e) m of (j, m1) \<Rightarrow> (Some j, m1)))"

datatype answer = Got "int option" | Raised string

definition set_job :: "string \<Rightarrow> (job \<Rightarrow> job) \<Rightarrow> dlm \<Rightarrow> dlm" where
  "set_job key f m = (case map_of (dm_jobs m) key of None \<Rightarrow> m | Some j \<Rightarrow> m\<lparr>dm_jobs := dset key (f j) (dm_jobs m)\<rparr>)"

definition at_phase :: "string \<Rightarrow> phase \<Rightarrow> dlm \<Rightarrow> dlm" where
  "at_phase key ph m = m\<lparr>dm_tasks := dset key ph (dm_tasks m)\<rparr>"

text \<open>The \<open>finally\<close> of the task.\<close>

definition end_task :: "string \<Rightarrow> dlm \<Rightarrow> dlm" where
  "end_task key m = m\<lparr>dm_tasks := dpop key (dm_tasks m)\<rparr>"

definition fail_job :: "real \<Rightarrow> string \<Rightarrow> string \<Rightarrow> dlm \<Rightarrow> dlm" where
  "fail_job now key msg m =
     end_task key (set_job key (\<lambda>j. j\<lparr>jb_state := Dl_Failed, jb_error := Some msg, jb_updated := now\<rparr>) m)"

definition complete_job :: "dl_kind \<Rightarrow> real \<Rightarrow> string \<Rightarrow> int \<Rightarrow> dlm \<Rightarrow> dlm" where
  "complete_job kind now key bytes m =
     end_task key (set_job key (\<lambda>j.
        j\<lparr>jb_bytes := bytes,
          jb_total := (case jb_total j of None \<Rightarrow> None | Some t \<Rightarrow> if t = 0 then Some 0 else Some (max t bytes)),
          jb_state := Dl_Completed, jb_updated := now,
          jb_warming := (kind = Datasets \<and> (case get_entry key of None \<Rightarrow> False | Some e \<Rightarrow> ds_eval e))\<rparr>) m)"

definition run_step :: "dl_kind \<Rightarrow> real \<Rightarrow> string \<Rightarrow> answer \<Rightarrow> dlm \<Rightarrow> dlm" where
  "run_step kind now key a m =
     (case map_of (dm_tasks m) key of
        None \<Rightarrow> m
      | Some Created \<Rightarrow>
          at_phase key (if kind = Datasets then Fetching else Sizing)
            (set_job key (\<lambda>j. j\<lparr>jb_state := Dl_Downloading, jb_updated := now\<rparr>) m)
      | Some Sizing \<Rightarrow>
          at_phase key Fetching
            (set_job key (\<lambda>j. j\<lparr>jb_total := (case a of Got t \<Rightarrow> t | Raised _ \<Rightarrow> None)\<rparr>) m)
      | Some Fetching \<Rightarrow> (case a of Raised msg \<Rightarrow> fail_job now key msg m | Got _ \<Rightarrow> at_phase key Measuring m)
      | Some Measuring \<Rightarrow>
          (case a of
             Raised msg \<Rightarrow> fail_job now key msg m
           | Got b \<Rightarrow> complete_job kind now key (case b of None \<Rightarrow> 0 | Some x \<Rightarrow> x) m))"

text \<open>The poller lives between the size lookup and the end of the task.\<close>

definition poll_bytes :: "real \<Rightarrow> string \<Rightarrow> int \<Rightarrow> dlm \<Rightarrow> dlm" where
  "poll_bytes now key bytes m =
     (case map_of (dm_tasks m) key of
        Some Fetching \<Rightarrow> set_job key (\<lambda>j. j\<lparr>jb_bytes := bytes, jb_updated := now\<rparr>) m
      | Some Measuring \<Rightarrow> set_job key (\<lambda>j. j\<lparr>jb_bytes := bytes, jb_updated := now\<rparr>) m
      | _ \<Rightarrow> m)"

definition warm_done :: "real \<Rightarrow> string \<Rightarrow> nat \<Rightarrow> dlm \<Rightarrow> dlm" where
  "warm_done now key g m =
     set_job key (\<lambda>j. if jb_gen j = g then j\<lparr>jb_warming := False, jb_updated := now\<rparr> else j) m"

definition list_jobs :: "dlm \<Rightarrow> job list" where
  "list_jobs m = sort_key (\<lambda>j. - jb_started j) (map snd (dm_jobs m))"

section \<open>The endpoints\<close>

text \<open>Status codes of api/downloads.py, api/datasets.py and api/lora.py, after the guard.\<close>

definition download_status :: "job option \<times> dlm \<Rightarrow> nat \<times> dlm" where
  "download_status r = (case r of (None, m) \<Rightarrow> (400, m) | (Some _, m) \<Rightarrow> (202, m))"

definition delete_dataset_status :: "path \<Rightarrow> string \<Rightarrow> fsys \<Rightarrow> nat \<times> fsys" where
  "delete_dataset_status base key fs =
     (case delete_dataset base key fs of
        (None, fs1) \<Rightarrow> (500, fs1)
      | (Some ok, fs1) \<Rightarrow> (if ok then 204 else 404, fs1))"

definition delete_adapter_status :: "path \<Rightarrow> string \<Rightarrow> fsys \<Rightarrow> nat \<times> fsys" where
  "delete_adapter_status base name fs =
     (case delete_adapter base name fs of
        (Bad_Name, fs1) \<Rightarrow> (400, fs1)
      | (Not_There, fs1) \<Rightarrow> (404, fs1)
      | (Deleted, fs1) \<Rightarrow> (204, fs1))"

text \<open>api/eval.py: the guard of the preview, and the checks before an evaluation is queued; \<open>None\<close>: go on.\<close>

definition preview_refusal :: "path \<Rightarrow> fsys \<Rightarrow> string \<Rightarrow> nat option" where
  "preview_refusal base fs key =
     (case get_entry key of
        None \<Rightarrow> Some 404
      | Some e \<Rightarrow> if \<not> ds_eval e then Some 404 else if cached_size base fs e = 0 then Some 409 else None)"

definition eval_entry :: "string \<Rightarrow> dataset option" where
  "eval_entry key = map_of (map (\<lambda>d. (ds_key d, d)) eval_catalog) key"

definition eval_refusal :: "(string, jval) dict \<Rightarrow> string option" where
  "eval_refusal req =
     (let asked = (case jget req ''datasets'' of JList xs \<Rightarrow> map jtext xs | _ \<Rightarrow> []);
          judged = filter (\<lambda>d. case eval_entry d of None \<Rightarrow> False | Some e \<Rightarrow> ds_judge e) asked;
          judge = truthy (jget req ''judge_enabled'')
      in if list_ex (\<lambda>d. eval_entry d = None) asked then Some ''unknown dataset(s)''
         else if judged \<noteq> [] \<and> \<not> judge then Some ''require a judge model''
         else if judge \<and> \<not> truthy (jget req ''judge_model'') then Some ''judge_model is required when judge is enabled''
         else if judge \<and> jget req ''judge_target'' = JStr ''external'' \<and> \<not> truthy (jget req ''judge_api_url'')
              then Some ''judge_api_url is required for an external judge''
         else None)"

section \<open>Deleting one leaves the others\<close>

lemma under_append: "under (b @ d) (b @ p) = under d p"
  by (auto simp: under_def)

lemma under_irrefl [simp]: "\<not> under d d"
  by (simp add: under_def)

text \<open>Two directories of which neither is below the other have no file in common.\<close>

lemma under_iff: "under d p \<longleftrightarrow> (\<exists>x. x \<noteq> [] \<and> p = d @ x)"
proof
  assume u: "under d p"
  then have "p = d @ drop (length d) p" by (metis append_take_drop_id under_def)
  moreover have "drop (length d) p \<noteq> []" using u by (simp add: under_def)
  ultimately show "\<exists>x. x \<noteq> [] \<and> p = d @ x" by blast
qed (auto simp: under_def)

lemma under_disjoint: "under a p \<Longrightarrow> under b p \<Longrightarrow> a = b \<or> under a b \<or> under b a"
  by (auto simp: under_iff append_eq_append_conv2)

lemma tree_size_rmtree:
  assumes "a \<noteq> b" "\<not> under a b" "\<not> under b a"
  shows "tree_size (rmtree a fs) b = tree_size fs b"
proof -
  have "filter (\<lambda>(p, n). under b p) (filter (\<lambda>(p, n). \<not> under a p) ps) = filter (\<lambda>(p, n). under b p) ps" for ps :: "(path \<times> nat) list"
    using under_disjoint [of a _ b] assms by (induction ps) auto
  then show ?thesis by (simp add: tree_size_def rmtree_def)
qed

lemma tree_size_rmtree_self: "tree_size (rmtree a fs) a = 0"
proof -
  have "filter (\<lambda>(p, n). under a p) (filter (\<lambda>(p, n). \<not> under a p) ps) = []" for ps :: "(path \<times> nat) list"
    by (induction ps) auto
  then show ?thesis by (simp add: tree_size_def rmtree_def)
qed

lemma file_rmtree: "\<not> under a p \<Longrightarrow> dget (fs_files (rmtree a fs)) p x = dget (fs_files fs) p x"
proof -
  have "\<not> under a p \<Longrightarrow> map_of (filter (\<lambda>(p, n). \<not> under a p) ps) p = map_of ps p" for ps :: "(path \<times> nat) list"
    by (induction ps) auto
  then show "\<not> under a p \<Longrightarrow> ?thesis" by (simp add: rmtree_def dget_def)
qed

lemma removedirs_files [simp]: "fs_files (removedirs d fs) = fs_files fs"
  by (induction d arbitrary: fs) auto

lemma tree_size_remove: "\<not> under b p \<Longrightarrow> tree_size (removedirs d (remove_file p fs)) b = tree_size fs b"
proof -
  have "filter (\<lambda>(q, n). under b q) (dpop p ps) = filter (\<lambda>(q, n). under b q) ps" if "\<not> under b p" for ps :: "(path \<times> nat) list"
    using that by (induction ps) (auto simp: dpop_def)
  then show "\<not> under b p \<Longrightarrow> ?thesis" by (simp add: tree_size_def remove_file_def)
qed

text \<open>The entries of the catalogue keep apart on disk.\<close>

definition spot :: "dataset \<Rightarrow> path \<times> bool" where
  "spot e = (case ds_file e of None \<Rightarrow> (path_parts [] (ds_repo e), True) | Some f \<Rightarrow> (path_parts [] (ds_repo e) @ path_parts [] f, False))"

fun apart :: "path \<times> bool \<Rightarrow> path \<times> bool \<Rightarrow> bool" where
  "apart (a, whole_a) (b, whole_b) = (a \<noteq> b \<and> \<not> (whole_a \<and> under a b) \<and> \<not> (whole_b \<and> under b a))"

text \<open>A whole repository has two components, a single file three, all differ and no file lies in a whole repository.\<close>

lemma catalog_keys: "distinct (map ds_key CATALOG)"
  by code_simp

lemma catalog_places: "distinct (map (fst \<circ> spot) CATALOG)"
  by code_simp

lemma catalog_depth: "list_all (\<lambda>d. length (fst (spot d)) = (if snd (spot d) then 2 else 3) \<and> ds_file d \<noteq> Some []) CATALOG"
  by code_simp

lemma catalog_below:
  "list_all (\<lambda>e. snd (spot e) \<or> list_all (\<lambda>d. \<not> snd (spot d) \<or> fst (spot d) \<noteq> butlast (fst (spot e))) CATALOG) CATALOG"
  by code_simp

lemma places_apart:
  assumes "d \<in> set CATALOG" "e \<in> set CATALOG" "ds_key d \<noteq> ds_key e"
  shows "apart (spot d) (spot e)"
proof -
  have ne: "fst (spot d) \<noteq> fst (spot e)"
    using catalog_places assms by (auto simp: distinct_map inj_on_def)
  have sub: "\<not> (snd (spot a) \<and> under (fst (spot a)) (fst (spot b)))" if ab: "a \<in> set CATALOG" "b \<in> set CATALOG" for a b
  proof
    assume h: "snd (spot a) \<and> under (fst (spot a)) (fst (spot b))"
    then obtain x where x: "x \<noteq> []" "fst (spot b) = fst (spot a) @ x" by (auto simp: under_iff)
    have "length (fst (spot a)) = 2" "length (fst (spot b)) = (if snd (spot b) then 2 else 3)"
      using catalog_depth ab h by (auto simp: list_all_iff)
    with x have "length x = 1" "\<not> snd (spot b)" by (auto split: if_splits)
    then have "butlast (fst (spot b)) = fst (spot a)" using x by (cases x) (auto simp: butlast_append)
    then show False using catalog_below ab h \<open>\<not> snd (spot b)\<close> unfolding list_all_iff by metis
  qed
  show ?thesis
    using ne sub [OF assms(1,2)] sub [OF assms(2,1)] by (cases "spot d", cases "spot e") auto
qed

lemma get_entry_iff: "get_entry key = Some e \<longleftrightarrow> e \<in> set CATALOG \<and> ds_key e = key"
proof -
  have "distinct (map fst (map (\<lambda>d. (ds_key d, d)) CATALOG))"
    using catalog_keys by (simp add: comp_def)
  then show ?thesis
    by (auto simp: get_entry_def map_of_eq_Some_iff simp del: map_map)
qed

section \<open>A well-formed tree\<close>

text \<open>What exists lies in directories, and nothing is a file and a directory.\<close>

definition fs_ok :: "fsys \<Rightarrow> bool" where
  "fs_ok fs = (dict_ok (fs_files fs) \<and>
     (\<forall>d p. (is_file fs p \<or> is_dir fs p) \<longrightarrow> d \<noteq> [] \<longrightarrow> under d p \<longrightarrow> is_dir fs d) \<and> (\<forall>p. \<not> (is_file fs p \<and> is_dir fs p)))"

lemma under_trans:
  assumes "under a b" "under b c"
  shows "under a c"
proof -
  obtain x y where "x \<noteq> []" "b = a @ x" "c = b @ y" using assms unfolding under_iff by blast
  then show ?thesis unfolding under_iff by (intro exI [of _ "x @ y"]) simp
qed

lemma file_iff: "is_file fs p \<longleftrightarrow> (\<exists>n. (p, n) \<in> set (fs_files fs))"
  unfolding is_file_def dhas_def using map_of_eq_None_iff [of "fs_files fs" p] by (metis image_iff fst_conv map_of_SomeD option.exhaust weak_map_of_SomeI option.distinct(1))

lemma rmtree_file: "is_file (rmtree a fs) p = (is_file fs p \<and> \<not> under a p)"
  by (auto simp: file_iff rmtree_def)

lemma rmtree_dir: "is_dir (rmtree a fs) p = (is_dir fs p \<and> p \<noteq> a \<and> \<not> under a p)"
  by (auto simp: is_dir_def rmtree_def)

lemma rmtree_ok: "fs_ok fs \<Longrightarrow> fs_ok (rmtree a fs)"
proof -
  have k: "dict_ok (filter P ps)" if "dict_ok ps" for P and ps :: "(path \<times> nat) list"
    using that by (auto simp: dict_ok_def distinct_map_filter)
  assume "fs_ok fs"
  then show ?thesis
    unfolding fs_ok_def rmtree_file rmtree_dir using under_trans [of a]
    by (auto simp: rmtree_def intro!: k)
qed

lemma remove_file_file: "is_file (remove_file q fs) p = (is_file fs p \<and> p \<noteq> q)"
  by (simp add: is_file_def remove_file_def dhas_dpop conj_commute)

lemma remove_file_dir [simp]: "is_dir (remove_file q fs) p = is_dir fs p"
  by (simp add: is_dir_def remove_file_def)

lemma remove_file_ok: "fs_ok fs \<Longrightarrow> fs_ok (remove_file q fs)"
  unfolding fs_ok_def remove_file_file remove_file_dir by (auto simp: remove_file_def intro: dict_ok_dpop)

lemma removedirs_ok: "fs_ok fs \<Longrightarrow> fs_ok (removedirs d fs)"
proof (induction d arbitrary: fs)
  case (Cons c d)
  define x where "x = rev (c # d)"
  let ?fs = "fs\<lparr>fs_dirs := filter (\<lambda>p. p \<noteq> x) (fs_dirs fs)\<rparr>"
  have "fs_ok ?fs" if e: "empty_dir fs x"
  proof -
    have f: "is_file ?fs p = is_file fs p" "is_dir ?fs p = (is_dir fs p \<and> p \<noteq> x)" for p
      by (auto simp: is_file_def is_dir_def)
    have "\<not> under x p" if "is_file fs p \<or> is_dir fs p" for p
      using e that by (auto simp: empty_dir_def list_all_iff file_iff is_dir_def)
    with Cons.prems show ?thesis unfolding fs_ok_def f by auto
  qed
  with Cons show ?case by (simp add: x_def)
qed simp

section \<open>Deleting a data set\<close>

lemma full_place:
  assumes "e \<in> set CATALOG"
  shows "file_path base e = (if snd (spot e) then None else Some (base @ fst (spot e)))"
    "snd (spot e) \<Longrightarrow> dataset_dir base e = base @ fst (spot e)"
  using assms catalog_depth by (auto simp: list_all_iff file_path_def spot_def dataset_dir_def split: option.splits)

lemma cached_place:
  assumes "e \<in> set CATALOG"
  shows "cached_size base fs e =
    (if snd (spot e) then tree_size fs (base @ fst (spot e)) else dget (fs_files fs) (base @ fst (spot e)) 0)"
  using full_place [OF assms, of base] by (simp add: cached_size_def)

lemma delete_place:
  fixes base :: path
  assumes "e \<in> set CATALOG"
  defines "p \<equiv> base @ fst (spot e)"
  shows "delete_dataset base (ds_key e) fs =
    (if snd (spot e) then if is_dir fs p then (Some True, rmtree p fs) else (Some False, fs)
     else if is_dir fs p then (None, fs) else if \<not> is_file fs p then (Some False, fs)
     else (Some True, removedirs (rev (butlast p)) (remove_file p fs)))"
proof -
  have "get_entry (ds_key e) = Some e" using assms by (simp add: get_entry_iff)
  then show ?thesis using full_place [OF assms(1), of base] by (simp add: delete_dataset_def p_def)
qed

lemma catalog_nonempty: "e \<in> set CATALOG \<Longrightarrow> fst (spot e) \<noteq> []"
  using catalog_depth by (auto simp: list_all_iff split: if_splits)

lemma positive_file: "0 < dget (fs_files fs) p 0 \<Longrightarrow> is_file fs p"
  by (auto simp: dget_def is_file_def dhas_def split: option.splits)

lemma positive_tree: "0 < tree_size fs d \<Longrightarrow> \<exists>p. is_file fs p \<and> under d p"
proof (rule ccontr)
  assume pos: "0 < tree_size fs d" and none: "\<not> ?thesis"
  then have "filter (\<lambda>(p, n). under d p) (fs_files fs) = []" by (auto simp: file_iff filter_empty_conv)
  with pos show False by (simp add: tree_size_def)
qed

lemma removed_file: "dget (fs_files (removedirs d (remove_file p fs))) q 0 = (if q = p then 0 else dget (fs_files fs) q 0)"
  by (simp add: remove_file_def dget_dpop)

text \<open>
  C23: deleting a data set of the catalogue removes it and nothing else: every entry of the catalogue keeps its
  size but the deleted one, which has none left; what is listed as downloaded can be deleted; no file outside is
  lost, and the tree stays well formed.
\<close>

theorem dataset_delete_exact:
  assumes ok: "fs_ok fs" and e: "e \<in> set CATALOG" and del: "delete_dataset base (ds_key e) fs = (r, fs')"
  shows "fs_ok fs' \<and> (r = None \<or> cached_size base fs e = 0 \<or> r = Some True) \<and>
    (\<forall>d. d \<notin> set CATALOG \<or> cached_size base fs' d = (if d = e \<and> r = Some True then 0 else cached_size base fs d)) \<and>
    (\<forall>p. is_file fs' p = (is_file fs p \<and> \<not> (r = Some True \<and> (p = base @ fst (spot e) \<or> under (base @ fst (spot e)) p))))"
proof -
  let ?p = "base @ fst (spot e)"
  have ne: "?p \<noteq> []" using catalog_nonempty [OF e] by simp
  have other: "\<not> (snd (spot e) \<and> under ?p (base @ fst (spot d)))" "\<not> (snd (spot d) \<and> under (base @ fst (spot d)) ?p)"
    "?p \<noteq> base @ fst (spot d)" if d: "d \<in> set CATALOG" "d \<noteq> e" for d
  proof -
    have "ds_key d \<noteq> ds_key e" using d e catalog_keys by (auto simp: distinct_map inj_on_def)
    then have "apart (spot d) (spot e)" using places_apart d e by blast
    then show "\<not> (snd (spot e) \<and> under ?p (base @ fst (spot d)))" "\<not> (snd (spot d) \<and> under (base @ fst (spot d)) ?p)"
      "?p \<noteq> base @ fst (spot d)"
      by (cases "spot d"; cases "spot e"; auto simp: under_append)+
  qed
  consider (whole) "snd (spot e)" "is_dir fs ?p" "r = Some True" "fs' = rmtree ?p fs"
    | (single) "\<not> snd (spot e)" "\<not> is_dir fs ?p" "is_file fs ?p" "r = Some True" "fs' = removedirs (rev (butlast ?p)) (remove_file ?p fs)"
    | (raised) "r = None" "fs' = fs" | (absent) "r = Some False" "fs' = fs" "if snd (spot e) then \<not> is_dir fs ?p else \<not> is_file fs ?p"
    using del unfolding delete_place [OF e] by (auto split: if_splits)
  then show ?thesis
  proof cases
    case whole
    have "\<not> is_file fs ?p" using ok whole by (auto simp: fs_ok_def)
    then have "is_file fs' q = (is_file fs q \<and> \<not> (q = ?p \<or> under ?p q))" for q using whole by (auto simp: rmtree_file)
    moreover have "cached_size base fs' d = (if d = e then 0 else cached_size base fs d)" if "d \<in> set CATALOG" for d
      using whole other [OF that] unfolding cached_place [OF that] cached_place [OF e] whole(4)
      by (auto simp: tree_size_rmtree tree_size_rmtree_self file_rmtree)
    ultimately show ?thesis using whole ok by (auto simp: rmtree_ok)
  next
    case single
    have "\<not> under ?p q" if "is_file fs q" for q using ok ne single that by (auto simp: fs_ok_def)
    moreover have "is_file fs' q = (is_file fs q \<and> q \<noteq> ?p)" for q
      using single by (simp add: is_file_def remove_file_def dhas_dpop conj_commute)
    moreover have "cached_size base fs' d = (if d = e then 0 else cached_size base fs d)" if "d \<in> set CATALOG" for d
      using single other [OF that] unfolding cached_place [OF that] cached_place [OF e] single(5) removed_file
      by (auto simp: tree_size_remove)
    ultimately show ?thesis using single ok by (auto simp: removedirs_ok remove_file_ok)
  next
    case absent
    then have "cached_size base fs e = 0"
      using positive_file [of fs ?p] positive_tree [of fs ?p] ok ne unfolding cached_place [OF e] fs_ok_def
      by (auto split: if_splits)
    then show ?thesis using absent ok by auto
  qed (use ok in auto)
qed

section \<open>Deleting an adapter\<close>

lemma adapter_dir_direct: "adapter_dir base n = Some d \<Longrightarrow> d = base @ [n]"
  by (simp add: adapter_dir_def split: if_splits)

lemma apart_siblings: "m \<noteq> n \<Longrightarrow> \<not> under (base @ [n]) (base @ m # x)"
  by (auto simp: under_iff)

lemma adapter_row_other:
  assumes "m \<noteq> n"
  shows "adapter_row base parsed (rmtree (base @ [n]) fs) m = adapter_row base parsed fs m"
proof -
  have "tree_size (rmtree (base @ [n]) fs) (base @ [m]) = tree_size fs (base @ [m])"
    using assms apart_siblings [of m n base "[]"] apart_siblings [of n m base "[]"] by (intro tree_size_rmtree) auto
  moreover have "read_adapter_config parsed (rmtree (base @ [n]) fs) (base @ [m]) = read_adapter_config parsed fs (base @ [m])"
    using assms by (simp add: read_adapter_config_def rmtree_file apart_siblings)
  ultimately show ?thesis unfolding adapter_row_def by (simp only:)
qed

lemma adapter_row_name: "adapter_row base parsed fs n = Some (Some a) \<Longrightarrow> ad_name a = n"
  by (auto simp: adapter_row_def split: option.splits jval.splits)

lemma adapter_rows_without:
  "adapter_rows base parsed fs ns = Some rs \<Longrightarrow>
   adapter_rows base parsed (rmtree (base @ [n]) fs) (filter (\<lambda>m. m \<noteq> n) ns) = Some (filter (\<lambda>a. ad_name a \<noteq> n) rs)"
  by (induction ns arbitrary: rs) (auto simp: adapter_row_other dest: adapter_row_name split: option.splits)

lemma folder_names_without: "folder_names base (rmtree (base @ [n]) fs) = filter (\<lambda>m. m \<noteq> n) (folder_names base fs)"
proof -
  have "under base p \<and> length p = Suc (length base) \<Longrightarrow> p \<noteq> base @ [n] \<and> \<not> under (base @ [n]) p \<longleftrightarrow> last p \<noteq> n" for p
    by (auto simp: under_iff append_eq_Cons_conv length_Suc_conv)
  then have "filter (\<lambda>p. (under base p \<and> length p = Suc (length base)) \<and> p \<noteq> base @ [n] \<and> \<not> under (base @ [n]) p) ps =
      filter (\<lambda>p. (under base p \<and> length p = Suc (length base)) \<and> last p \<noteq> n) ps" for ps
    by (intro filter_cong) auto
  then show ?thesis
    by (simp add: folder_names_def rmtree_def filter_sort filter_map comp_def conj_commute conj_left_commute)
qed

text \<open>
  An accepted adapter name is one plain component below the adapter root, so the folder that is deleted
  lies directly in it, and of the library listed to the operator exactly that adapter disappears.
\<close>

theorem adapter_delete_exact:
  assumes "delete_adapter base n fs = (Deleted, fs')" "scan_adapters base parsed fs = Some rows" "is_dir fs base"
  shows "adapter_dir base n = Some (base @ [n]) \<and> CHR ''/'' \<notin> set n \<and> n \<notin> {[], ''.'', ''..''} \<and>
    (\<forall>p. is_file fs' p = (is_file fs p \<and> \<not> under (base @ [n]) p)) \<and>
    scan_adapters base parsed fs' = Some (filter (\<lambda>a. ad_name a \<noteq> n) rows)"
proof -
  have d: "adapter_dir base n = Some (base @ [n])" and fs': "fs' = rmtree (base @ [n]) fs"
    using assms(1) by (auto simp: delete_adapter_def split: option.splits if_splits dest: adapter_dir_direct)
  have "list_all (\<lambda>c. safe_char c \<or> c = CHR 0x0A) n"
    using d by (cases n rule: rev_cases) (auto simp: adapter_dir_def safe_name_def list_all_iff split: if_splits)
  then have slash: "CHR ''/'' \<notin> set n" by (auto simp: list_all_iff safe_char_def is_alnum_def is_alpha_def is_digit_def)
  have names: "n \<notin> {[], ''.'', ''..''}" using d by (auto simp: adapter_dir_def split: if_splits)
  have "scan_adapters base parsed fs' = Some (filter (\<lambda>a. ad_name a \<noteq> n) rows)"
    using assms(2,3) by (simp add: scan_adapters_def fs' rmtree_dir folder_names_without adapter_rows_without) (auto simp: under_iff)
  with d slash names show ?thesis by (simp add: fs' rmtree_file)
qed

section \<open>What a download goes through\<close>

text \<open>The events of a manager: requests, steps and samples of tasks, ends of warm-ups; \<open>base\<close> is the adapter root.\<close>

datatype dl_event =
    Ask real string "string option"
  | Advance real string answer
  | Sampled real string int
  | Warmed real string nat

definition ask :: "dl_kind \<Rightarrow> path \<Rightarrow> real \<Rightarrow> string \<Rightarrow> string option \<Rightarrow> dlm \<Rightarrow> job option \<times> dlm" where
  "ask kind base now what name m =
     (case kind of Weights \<Rightarrow> start_weights now what m | Adapters \<Rightarrow> start_adapter now base what name m
      | Datasets \<Rightarrow> start_dataset now what m)"

fun dl_step :: "dl_kind \<Rightarrow> path \<Rightarrow> dl_event \<Rightarrow> dlm \<Rightarrow> dlm" where
  "dl_step kind base (Ask now what name) m = snd (ask kind base now what name m)"
| "dl_step kind base (Advance now key a) m = run_step kind now key a m"
| "dl_step kind base (Sampled now key n) m = poll_bytes now key n m"
| "dl_step kind base (Warmed now key g) m = warm_done now key g m"

definition idle_dlm :: dlm where
  "idle_dlm = \<lparr>dm_jobs = [], dm_tasks = [], dm_next = 0\<rparr>"

definition dl_run :: "dl_kind \<Rightarrow> path \<Rightarrow> dl_event list \<Rightarrow> dlm" where
  "dl_run kind base evs = fold (dl_step kind base) evs idle_dlm"

text \<open>What holds of the job of a key and the place of its task.\<close>

definition job_ok :: "dl_kind \<Rightarrow> string \<Rightarrow> job \<Rightarrow> phase option \<Rightarrow> bool" where
  "job_ok kind key j t =
     (jb_key j = key \<and> (jb_state j = Dl_Pending \<longleftrightarrow> t = Some Created) \<and> (in_flight j \<longleftrightarrow> t \<noteq> None) \<and>
      (jb_state j = Dl_Failed \<longleftrightarrow> jb_error j \<noteq> None) \<and>
      (jb_state j = Dl_Completed \<longrightarrow> jb_total j = None \<or> jb_total j = Some 0 \<or> jb_bytes j \<le> the (jb_total j)) \<and>
      (kind = Datasets \<longrightarrow> jb_total j = None \<and> t \<noteq> Some Sizing) \<and>
      (jb_warming j \<longrightarrow> kind = Datasets \<and> jb_state j = Dl_Completed))"

definition entry_ok :: "dl_kind \<Rightarrow> dlm \<Rightarrow> string \<Rightarrow> bool" where
  "entry_ok kind m key =
     (case map_of (dm_jobs m) key of
        None \<Rightarrow> map_of (dm_tasks m) key = None
      | Some j \<Rightarrow> job_ok kind key j (map_of (dm_tasks m) key))"

definition dl_ok :: "dl_kind \<Rightarrow> dlm \<Rightarrow> bool" where
  "dl_ok kind m = (dict_ok (dm_jobs m) \<and> dict_ok (dm_tasks m) \<and> (\<forall>key. entry_ok kind m key))"

lemma set_job_sel [simp]:
  "map_of (dm_jobs (set_job key f m)) k = (if k = key then map_option f (map_of (dm_jobs m) key) else map_of (dm_jobs m) k)"
  "dm_tasks (set_job key f m) = dm_tasks m" "dm_next (set_job key f m) = dm_next m"
  by (auto simp: set_job_def map_of_dset split: option.splits)

lemma set_job_dict [simp]: "dict_ok (dm_jobs m) \<Longrightarrow> dict_ok (dm_jobs (set_job key f m))"
  by (auto simp: set_job_def split: option.splits)

lemma task_sel [simp]:
  "dm_jobs (at_phase key ph m) = dm_jobs m" "map_of (dm_tasks (at_phase key ph m)) k = (if k = key then Some ph else map_of (dm_tasks m) k)"
  "dm_jobs (end_task key m) = dm_jobs m" "dm_tasks (end_task key m) = dpop key (dm_tasks m)"
  "dict_ok (dm_tasks m) \<Longrightarrow> dict_ok (dm_tasks (at_phase key ph m))"
  by (auto simp: at_phase_def end_task_def map_of_dset)

lemmas job_ok_defs = entry_ok_def job_ok_def in_flight_def map_of_dset map_of_dpop

text \<open>A step touches one key.\<close>

lemma dl_ok_at:
  assumes "dl_ok kind m" "dict_ok (dm_jobs m')" "dict_ok (dm_tasks m')" "entry_ok kind m' key"
    "\<And>k. k \<noteq> key \<Longrightarrow> map_of (dm_jobs m') k = map_of (dm_jobs m) k \<and> map_of (dm_tasks m') k = map_of (dm_tasks m) k"
  shows "dl_ok kind m'"
proof -
  have "entry_ok kind m' k" for k
  proof (cases "k = key")
    case False
    from assms(5) [OF False] have "entry_ok kind m' k = entry_ok kind m k" unfolding entry_ok_def by (elim conjE) (simp only:)
    with assms(1) show ?thesis by (simp add: dl_ok_def)
  qed (use assms(4) in simp)
  with assms show ?thesis by (simp add: dl_ok_def)
qed

lemma dl_okD: "dl_ok kind m \<Longrightarrow> dict_ok (dm_jobs m)" "dl_ok kind m \<Longrightarrow> dict_ok (dm_tasks m)" "dl_ok kind m \<Longrightarrow> entry_ok kind m key"
  by (auto simp: dl_ok_def)

lemma begin_dl_ok:
  assumes ok: "dl_ok kind m"
  shows "dl_ok kind (snd (begin_job now key repo m))"
proof (rule dl_ok_at [OF ok])
  show "entry_ok kind (snd (begin_job now key repo m)) key"
    using dl_okD(3) [OF ok, of key] by (auto simp: begin_job_def job_ok_defs new_job_def Let_def split: option.splits)
qed (use dl_okD(1,2) [OF ok] in \<open>auto simp: begin_job_def Let_def map_of_dset split: option.splits\<close>)

lemma ask_shape:
  "snd (ask kind base now what name m) = m \<or> (\<exists>key repo. snd (ask kind base now what name m) = snd (begin_job now key repo m))"
  by (cases kind) (auto simp: ask_def start_weights_def start_adapter_def start_dataset_def Let_def case_prod_beta split: option.splits)

lemma run_step_dicts:
  "dict_ok (dm_jobs m) \<Longrightarrow> dict_ok (dm_jobs (run_step kind now key a m))"
  "dict_ok (dm_tasks m) \<Longrightarrow> dict_ok (dm_tasks (run_step kind now key a m))"
  by (auto simp: run_step_def fail_job_def complete_job_def split: option.splits phase.splits answer.splits)

lemma run_step_elsewhere:
  "k \<noteq> key \<Longrightarrow> map_of (dm_jobs (run_step kind now key a m)) k = map_of (dm_jobs m) k \<and>
    map_of (dm_tasks (run_step kind now key a m)) k = map_of (dm_tasks m) k"
  by (auto simp: run_step_def fail_job_def complete_job_def map_of_dpop split: option.splits phase.splits answer.splits)

lemma run_step_ok:
  assumes ok: "dl_ok kind m"
  shows "dl_ok kind (run_step kind now key a m)"
proof (rule dl_ok_at [OF ok])
  have e: "entry_ok kind m key" using ok by (simp add: dl_ok_def)
  show "entry_ok kind (run_step kind now key a m) key"
  proof (cases "map_of (dm_tasks m) key")
    case (Some ph)
    then obtain j where j: "map_of (dm_jobs m) key = Some j" using e by (auto simp: entry_ok_def split: option.splits)
    show ?thesis
      using e Some j by (cases ph; cases a) (auto simp: job_ok_defs run_step_def fail_job_def complete_job_def split: option.splits)
  qed (use e in \<open>simp add: run_step_def\<close>)
qed (use dl_okD(1,2) [OF ok] run_step_dicts run_step_elsewhere in \<open>auto\<close>)

lemma poll_bytes_ok:
  assumes ok: "dl_ok kind m"
  shows "dl_ok kind (poll_bytes now key n m)"
proof (rule dl_ok_at [OF ok])
  show "entry_ok kind (poll_bytes now key n m) key"
    using dl_okD(3) [OF ok, of key]
    by (cases "map_of (dm_jobs m) key"; cases "map_of (dm_tasks m) key") (auto simp: poll_bytes_def entry_ok_def job_ok_def in_flight_def split: phase.splits)
qed (use dl_okD(1,2) [OF ok] in \<open>auto simp: poll_bytes_def split: option.splits phase.splits\<close>)

lemma warm_done_ok:
  assumes ok: "dl_ok kind m"
  shows "dl_ok kind (warm_done now key g m)"
proof (rule dl_ok_at [OF ok])
  show "entry_ok kind (warm_done now key g m) key"
    using dl_okD(3) [OF ok, of key]
    by (cases "map_of (dm_jobs m) key"; cases "map_of (dm_tasks m) key") (auto simp: warm_done_def entry_ok_def job_ok_def in_flight_def)
qed (use dl_okD(1,2) [OF ok] in \<open>auto simp: warm_done_def\<close>)

lemma dl_step_ok: "dl_ok kind m \<Longrightarrow> dl_ok kind (dl_step kind base ev m)"
proof (cases ev)
  case (Ask now what name)
  assume "dl_ok kind m"
  then show ?thesis using Ask ask_shape [of kind base now what name m] begin_dl_ok by auto
qed (auto simp: run_step_ok poll_bytes_ok warm_done_ok)

lemma dl_fold_ok: "dl_ok kind m \<Longrightarrow> dl_ok kind (fold (dl_step kind base) evs m)"
  by (induction evs arbitrary: m) (auto intro: dl_step_ok)

lemma dl_run_ok: "dl_ok kind (dl_run kind base evs)"
  unfolding dl_run_def by (rule dl_fold_ok) (simp add: idle_dlm_def dl_ok_def entry_ok_def)

text \<open>A task has at most four segments left; requests and samples do not lengthen it.\<close>

fun segments_left :: "phase option \<Rightarrow> nat" where
  "segments_left None = 0"
| "segments_left (Some Created) = 4"
| "segments_left (Some Sizing) = 3"
| "segments_left (Some Fetching) = 2"
| "segments_left (Some Measuring) = 1"

definition left_of :: "dlm \<Rightarrow> string \<Rightarrow> nat" where
  "left_of m key = segments_left (map_of (dm_tasks m) key)"

fun advances :: "string \<Rightarrow> dl_event \<Rightarrow> bool" where
  "advances key (Advance now k a) = (k = key)"
| "advances key _ = False"

lemma left_other:
  assumes ok: "dl_ok kind m" and busy: "left_of m key \<noteq> 0" and ev: "\<not> advances key ev"
  shows "left_of (dl_step kind base ev m) key = left_of m key"
proof (cases ev)
  case (Ask now what name)
  have e: "\<exists>j. map_of (dm_jobs m) key = Some j \<and> in_flight j"
    using dl_okD(3) [OF ok, of key] busy by (auto simp: entry_ok_def job_ok_def left_of_def split: option.splits)
  have "map_of (dm_tasks (snd (begin_job now k repo m))) key = map_of (dm_tasks m) key" for k repo
    using e by (auto simp: begin_job_def Let_def map_of_dset split: option.splits)
  then show ?thesis using Ask ask_shape [of kind base now what name m] by (auto simp: left_of_def)
next
  case (Advance now k a)
  then show ?thesis using ev run_step_elsewhere [of key k kind now a m] by (auto simp: left_of_def)
qed (auto simp: left_of_def poll_bytes_def warm_done_def split: option.splits phase.splits)

lemma left_advance:
  "left_of (run_step kind now key a m) key \<le> left_of m key - 1"
  by (auto simp: left_of_def run_step_def fail_job_def complete_job_def map_of_dpop split: option.splits phase.splits answer.splits)

lemma left_run:
  assumes "dl_ok kind m" "left_of m key \<le> length (filter (advances key) evs)"
  shows "\<exists>i\<le>length evs. left_of (fold (dl_step kind base) (take i evs) m) key = 0"
  using assms
proof (induction evs arbitrary: m)
  case (Cons ev evs)
  show ?case
  proof (cases "left_of m key = 0")
    case True
    then show ?thesis by (intro exI [of _ 0]) simp
  next
    case False
    let ?m = "dl_step kind base ev m"
    have "left_of ?m key \<le> length (filter (advances key) evs)"
    proof (cases "advances key ev")
      case True
      then obtain now a where "ev = Advance now key a" by (cases ev) auto
      with left_advance [of kind now key a m] Cons.prems(2) show ?thesis by auto
    next
      case no: False
      with left_other [OF Cons.prems(1) False no] Cons.prems(2) show ?thesis by simp
    qed
    from Cons.IH [OF dl_step_ok [OF Cons.prems(1)] this]
    obtain i where "i \<le> length evs" "left_of (fold (dl_step kind base) (take i evs) ?m) key = 0" by blast
    then show ?thesis by (intro exI [of _ "Suc i"]) simp
  qed
qed simp

lemma jobs_stay: "dhas (dm_jobs m) key \<Longrightarrow> dhas (dm_jobs (fold (dl_step kind base) evs m)) key"
proof (induction evs arbitrary: m)
  case (Cons ev evs)
  have "dhas (dm_jobs (dl_step kind base ev m)) key"
  proof (cases ev)
    case (Ask now what name)
    have "dhas (dm_jobs (snd (begin_job now k repo m))) key" for k repo
      using Cons.prems by (auto simp: begin_job_def Let_def dhas_dset split: option.splits)
    then show ?thesis using Ask Cons.prems ask_shape [of kind base now what name m] by auto
  qed (use Cons.prems in \<open>auto simp: dhas_def run_step_def fail_job_def complete_job_def poll_bytes_def warm_done_def
      split: option.splits phase.splits answer.splits\<close>)
  with Cons.IH show ?case by simp
qed simp

section \<open>Guarantees of the download managers\<close>

lemma settled_job:
  assumes "entry_ok kind m key" "left_of m key = 0" "dhas (dm_jobs m) key"
  shows "\<exists>j. map_of (dm_jobs m) key = Some j \<and> (jb_state j = Dl_Completed \<and> jb_error j = None \<or> jb_state j = Dl_Failed \<and> jb_error j \<noteq> None)"
proof -
  have "map_of (dm_tasks m) key = None"
    using assms(2) by (cases "map_of (dm_tasks m) key") (auto simp: left_of_def elim: segments_left.elims)
  moreover obtain j where "map_of (dm_jobs m) key = Some j" using assms(3) by (auto simp: dhas_def)
  ultimately show ?thesis
    using assms(1) by (cases "jb_state j") (auto simp: entry_ok_def job_ok_def in_flight_def)
qed

text \<open>
  C22: a download ends.  Whatever was requested before and whatever requests, size samples and
  warm-ups interleave, by the fourth segment of its task the download of a key has come to rest,
  completed without an error or failed with one; requests repeated on the way neither
  restart it nor start a second one.
\<close>

theorem download_ends:
  assumes "dhas (dm_jobs (dl_run kind base past)) key" "4 \<le> length (filter (advances key) evs)"
  shows "\<exists>i j. i \<le> length evs \<and> map_of (dm_jobs (dl_run kind base (past @ take i evs))) key = Some j \<and>
    (jb_state j = Dl_Completed \<and> jb_error j = None \<or> jb_state j = Dl_Failed \<and> jb_error j \<noteq> None)"
proof -
  let ?m = "dl_run kind base past"
  have "left_of ?m key \<le> 4" by (cases "map_of (dm_tasks ?m) key" rule: segments_left.cases) (auto simp: left_of_def)
  then obtain i where i: "i \<le> length evs" "left_of (fold (dl_step kind base) (take i evs) ?m) key = 0"
    using left_run [OF dl_run_ok] assms(2) order.trans by metis
  have run: "dl_run kind base (past @ take i evs) = fold (dl_step kind base) (take i evs) ?m" by (simp add: dl_run_def)
  have "entry_ok kind (dl_run kind base (past @ take i evs)) key" by (rule dl_okD(3) [OF dl_run_ok])
  from settled_job [OF this [unfolded run] i(2) jobs_stay [OF assms(1)], folded run]
  obtain j where "map_of (dm_jobs (dl_run kind base (past @ take i evs))) key = Some j"
    "jb_state j = Dl_Completed \<and> jb_error j = None \<or> jb_state j = Dl_Failed \<and> jb_error j \<noteq> None" by blast
  with i(1) show ?thesis by (intro exI [of _ i] exI [of _ j] conjI)
qed

text \<open>
  What the dashboard polls is true at every moment: a key is shown in flight exactly while its task runs,
  pending exactly before the task began, failed exactly with an error message; a completed download whose size
  was known shows at most all of it, and a warm-up is announced only for a completed data set.
\<close>

theorem downloads_truthful:
  assumes "map_of (dm_jobs (dl_run kind base evs)) key = Some j"
  shows "(in_flight j \<longleftrightarrow> dhas (dm_tasks (dl_run kind base evs)) key) \<and>
    (jb_state j = Dl_Pending \<longleftrightarrow> map_of (dm_tasks (dl_run kind base evs)) key = Some Created) \<and>
    (jb_state j = Dl_Failed \<longleftrightarrow> jb_error j \<noteq> None) \<and> jb_key j = key \<and>
    (jb_state j \<noteq> Dl_Completed \<or> jb_total j = None \<or> jb_total j = Some 0 \<or> jb_bytes j \<le> the (jb_total j)) \<and>
    (\<not> jb_warming j \<or> kind = Datasets \<and> jb_state j = Dl_Completed)"
  using dl_okD(3) [OF dl_run_ok, of kind base evs key] assms by (auto simp: entry_ok_def job_ok_def dhas_def)

section \<open>Witnesses\<close>

text \<open>A cache with one data set of each kind, and an adapter.\<close>

definition shelf :: path where
  "shelf = [''cache'', ''datasets'']"

definition disk :: fsys where
  "disk = \<lparr>fs_files = [(shelf @ [''cais'', ''mmlu'', ''dev.csv''], 9), (shelf @ [''swift'', ''sharegpt'', ''common_en_70k.jsonl''], 5)],
     fs_dirs = [[''cache''], shelf, shelf @ [''cais''], shelf @ [''cais'', ''mmlu''], shelf @ [''swift''], shelf @ [''swift'', ''sharegpt'']]\<rparr>"

definition lora_shelf :: fsys where
  "lora_shelf = \<lparr>fs_files = [([''lora'', ''sql'', ''adapter_config.json''], 3), ([''lora'', ''chat'', ''adapter_config.json''], 4)],
     fs_dirs = [[''lora''], [''lora'', ''sql''], [''lora'', ''chat'']]\<rparr>"

lemma fs_ok_check:
  assumes "dict_ok (fs_files fs)" "list_all (\<lambda>p. \<not> is_dir fs p) (dkeys (fs_files fs))"
    "list_all (\<lambda>p. list_all (\<lambda>i. i = 0 \<or> is_dir fs (take i p)) [0..<length p]) (dkeys (fs_files fs) @ fs_dirs fs)"
  shows "fs_ok fs"
proof -
  have "is_dir fs d" if "is_file fs p \<or> is_dir fs p" "d \<noteq> []" "under d p" for d p
  proof -
    have "p \<in> set (dkeys (fs_files fs) @ fs_dirs fs)" using that(1) by (auto simp: is_file_def dhas_iff_keys is_dir_def)
    moreover have "length d < length p" "take (length d) p = d" using that(3) by (auto simp: under_def)
    ultimately show ?thesis using assms(3) that(2) by (force simp: list_all_iff)
  qed
  with assms(1,2) show ?thesis by (auto simp: fs_ok_def list_all_iff is_file_def dhas_iff_keys)
qed

lemma disk_ok: "fs_ok disk"
  by (rule fs_ok_check) code_simp+

lemma mmlu_entry: "eval_set ''mmlu'' ''cais/mmlu'' \<in> set CATALOG"
  by (simp add: CATALOG_def eval_catalog_def)

lemma delete_mmlu: "fst (delete_dataset shelf (ds_key (eval_set ''mmlu'' ''cais/mmlu'')) disk) = Some True"
  by code_simp

lemma dataset_delete_exact_witness:
  "fs_ok disk \<and> eval_set ''mmlu'' ''cais/mmlu'' \<in> set CATALOG \<and>
   cached_size shelf (snd (delete_dataset shelf ''mmlu'' disk)) (eval_set ''mmlu'' ''cais/mmlu'') = 0 \<and>
   cached_size shelf (snd (delete_dataset shelf ''mmlu'' disk)) (perf_set ''share_gpt_en'' ''swift/sharegpt'' ''common_en_70k.jsonl'') = 5"
proof -
  let ?d = "delete_dataset shelf (ds_key (eval_set ''mmlu'' ''cais/mmlu'')) disk"
  have split: "?d = (Some True, snd ?d)" using delete_mmlu by (metis prod.collapse)
  have "perf_set ''share_gpt_en'' ''swift/sharegpt'' ''common_en_70k.jsonl'' \<in> set CATALOG"
    by (simp add: CATALOG_def perf_catalog_def)
  moreover have "cached_size shelf disk (perf_set ''share_gpt_en'' ''swift/sharegpt'' ''common_en_70k.jsonl'') = 5" by code_simp
  moreover have "perf_set ''share_gpt_en'' ''swift/sharegpt'' ''common_en_70k.jsonl'' \<noteq> eval_set ''mmlu'' ''cais/mmlu''"
    by (simp add: perf_set_def eval_set_def)
  ultimately show ?thesis
    using dataset_delete_exact [OF disk_ok mmlu_entry split] mmlu_entry disk_ok by (auto simp: eval_set_def)
qed

lemma adapter_delete_exact_witness:
  "scan_adapters [''lora''] (\<lambda>_. Some (JObj [(''r'', JInt 8)])) (snd (delete_adapter [''lora''] ''sql'' lora_shelf)) =
   Some [\<lparr>ad_name = ''chat'', ad_path = [''lora'', ''chat''], ad_base = JNull, ad_rank = JInt 8, ad_alpha = JNull, ad_modules = [], ad_size = 4\<rparr>]"
proof -
  let ?parsed = "\<lambda>_ :: path. Some (JObj [(''r'', JInt 8)])"
  let ?row = "\<lambda>n k. \<lparr>ad_name = n, ad_path = [''lora'', n], ad_base = JNull, ad_rank = JInt 8, ad_alpha = JNull, ad_modules = [], ad_size = k\<rparr>"
  have d: "delete_adapter [''lora''] ''sql'' lora_shelf = (Deleted, snd (delete_adapter [''lora''] ''sql'' lora_shelf))" by code_simp
  have rows: "scan_adapters [''lora''] ?parsed lora_shelf = Some [?row ''chat'' 4, ?row ''sql'' 3]" by code_simp
  have dir: "is_dir lora_shelf [''lora'']" by code_simp
  show ?thesis using adapter_delete_exact [OF d rows dir] by simp
qed

text \<open>The life of one data set: requested twice, downloaded, warmed.\<close>

definition first_download :: "dl_event list" where
  "first_download = [Advance 2 ''mmlu'' (Got None), Sampled 3 ''mmlu'' 4, Ask 4 ''mmlu'' None, Advance 5 ''mmlu'' (Got None),
     Advance 6 ''mmlu'' (Got (Some 9)), Advance 7 ''mmlu'' (Got None)]"

lemma download_ends_witness:
  "\<exists>i j. i \<le> 6 \<and> map_of (dm_jobs (dl_run Datasets [] ([Ask 1 ''mmlu'' None] @ take i first_download))) ''mmlu'' = Some j \<and>
    (jb_state j = Dl_Completed \<and> jb_error j = None \<or> jb_state j = Dl_Failed \<and> jb_error j \<noteq> None)"
proof -
  have "dhas (dm_jobs (dl_run Datasets [] [Ask 1 ''mmlu'' None])) ''mmlu''" by code_simp
  moreover have "4 \<le> length (filter (advances ''mmlu'') first_download)" by code_simp
  moreover have "length first_download = 6" by (simp add: first_download_def)
  ultimately show ?thesis using download_ends [of Datasets "[]" "[Ask 1 ''mmlu'' None]" "''mmlu''" first_download] by simp
qed

lemma downloads_truthful_witness:
  "\<not> dhas (dm_tasks (dl_run Datasets [] (Ask 1 ''mmlu'' None # first_download))) ''mmlu'' \<and>
   jb_warming (the (map_of (dm_jobs (dl_run Datasets [] (Ask 1 ''mmlu'' None # first_download))) ''mmlu''))"
proof -
  let ?m = "dl_run Datasets [] (Ask 1 ''mmlu'' None # first_download)"
  have j: "map_of (dm_jobs ?m) ''mmlu'' = Some (the (map_of (dm_jobs ?m) ''mmlu''))" by code_simp
  have c: "jb_state (the (map_of (dm_jobs ?m) ''mmlu'')) = Dl_Completed \<and> jb_warming (the (map_of (dm_jobs ?m) ''mmlu''))" by code_simp
  then have "\<not> in_flight (the (map_of (dm_jobs ?m) ''mmlu''))" by (simp add: in_flight_def)
  with downloads_truthful [OF j] c show ?thesis by blast
qed

section \<open>Where the code does not do what it says\<close>

text \<open>
  The preview is refused for a data set that is not downloaded, because loading it would start a slow download; but a
  download of a whole repository that broke off leaves files, and the data set counts as downloaded.
\<close>

definition broken_off :: fsys where
  "broken_off = \<lparr>fs_files = [(shelf @ [''cais'', ''mmlu'', ''part''], 1)],
     fs_dirs = [[''cache''], shelf, shelf @ [''cais''], shelf @ [''cais'', ''mmlu'']]\<rparr>"

lemma partial_download_counts:
  "jb_state (the (map_of (dm_jobs (dl_run Datasets [] [Ask 1 ''mmlu'' None, Advance 2 ''mmlu'' (Got None),
     Advance 3 ''mmlu'' (Raised ''connection lost'')])) ''mmlu'')) = Dl_Failed"
  "preview_refusal shelf broken_off ''mmlu'' = None" "preview_refusal shelf (rmtree shelf broken_off) ''mmlu'' = Some 409"
  by code_simp+

text \<open>One adapter folder whose configuration is JSON but no object ends the listing of all.\<close>

lemma one_bad_config_hides_all:
  "scan_adapters [''lora''] (\<lambda>p. if p = [''lora'', ''sql'', ''adapter_config.json''] then Some (JList []) else Some (JObj [])) lora_shelf = None"
  by code_simp

text \<open>\<open>$\<close> lets a name through that ends in a newline.\<close>

lemma newline_name_accepted: "adapter_dir [''lora''] (''sql'' @ [CHR 0x0A]) = Some [''lora'', ''sql'' @ [CHR 0x0A]]"
  by code_simp

end
