(* ===== verification/Vllm_Command.thy ===== *)
theory Vllm_Command
  imports Model_Manager
begin

text \<open>
  apps/backend/app/services/vllm_command.py: a pasted command line, read back into the fields of the
  dashboard's form, and the endpoint of api/models.py that serves it.  The command line is split as
  \<open>shlex.split(command, comments=False)\<close> does (POSIX rules), numbers are read as \<open>int()\<close> does.  Two
  pieces of the standard library are parameters, the record \<open>texts\<close>: \<open>float(str)\<close> and
  \<open>json.loads(str)\<close>, \<open>None\<close> where they raise.  Strings are ASCII.  A \<open>ValueError\<close> is what the endpoint
  turns into a 400; an \<open>AttributeError\<close> (a method of \<open>str\<close> called on a coerced number) is not caught.
\<close>

record texts =
  tx_float :: "string \<Rightarrow> real option"
  tx_json :: "string \<Rightarrow> jval option"

datatype parse_err = ValueErr | AttributeErr

section \<open>The shell's words\<close>

text \<open>
  The states of \<open>shlex.shlex.read_token\<close>: between words, in a word, in a quoted part, after a
  backslash (with the state to return to).  \<open>quoted\<close> remembers a quoted part, so that an empty
  quoted word is a word.
\<close>

datatype sh_state = Gap | Word | Quote char | Esc "char option"

definition sh_space :: "char \<Rightarrow> bool" where
  "sh_space c = (c \<in> {CHR '' '', CHR 0x09, CHR 0x0D, CHR 0x0A})"

definition sh_quote :: "char \<Rightarrow> bool" where
  "sh_quote c = (c = CHR 0x27 \<or> c = CHR 0x22)"

definition backslash :: char where "backslash = CHR 0x5C"

fun sh_back :: "char option \<Rightarrow> sh_state" where
  "sh_back None = Word"
| "sh_back (Some q) = Quote q"

fun shlex_go :: "sh_state \<Rightarrow> bool \<Rightarrow> string \<Rightarrow> string \<Rightarrow> string list option" where
  "shlex_go (Quote q) quoted tok [] = None"
| "shlex_go (Esc b) quoted tok [] = None"
| "shlex_go Gap quoted tok [] = Some []"
| "shlex_go Word quoted tok [] = Some [tok]"
| "shlex_go Gap quoted tok (c # s) =
     (if sh_space c then shlex_go Gap False [] s
      else if c = backslash then shlex_go (Esc None) False [] s
      else if sh_quote c then shlex_go (Quote c) True [] s
      else shlex_go Word False [c] s)"
| "shlex_go Word quoted tok (c # s) =
     (if sh_space c then map_option ((#) tok) (shlex_go Gap False [] s)
      else if sh_quote c then shlex_go (Quote c) True tok s
      else if c = backslash then shlex_go (Esc None) quoted tok s
      else shlex_go Word quoted (tok @ [c]) s)"
| "shlex_go (Quote q) quoted tok (c # s) =
     (if c = q then shlex_go Word True tok s
      else if c = backslash \<and> q = CHR 0x22 then shlex_go (Esc (Some q)) True tok s
      else shlex_go (Quote q) True (tok @ [c]) s)"
| "shlex_go (Esc b) quoted tok (c # s) =
     (case b of
        Some q \<Rightarrow> shlex_go (Quote q) quoted (if c \<noteq> backslash \<and> c \<noteq> q then tok @ [backslash, c] else tok @ [c]) s
      | None \<Rightarrow> shlex_go Word quoted (tok @ [c]) s)"

definition shlex_split :: "string \<Rightarrow> string list option" where
  "shlex_split s = shlex_go Gap False [] s"

section \<open>Scalars\<close>

text \<open>Digits with single underscores between them; \<open>started\<close>: the last character was a digit.\<close>

fun read_digits :: "bool \<Rightarrow> nat \<Rightarrow> string \<Rightarrow> nat option" where
  "read_digits started acc [] = (if started then Some acc else None)"
| "read_digits started acc (c # s) =
     (if is_digit c then read_digits True (10 * acc + (of_char c - 48)) s
      else if c = CHR ''_'' \<and> started then read_digits False acc s
      else None)"

definition max_str_digits :: nat where "max_str_digits = 4300"

text \<open>\<open>int(str)\<close>: blanks around, a sign, at most 4300 digits.\<close>

fun unsigned_int :: "string \<Rightarrow> nat option" where
  "unsigned_int s = (if max_str_digits < length (filter is_digit s) then None else read_digits False 0 s)"

definition py_int :: "string \<Rightarrow> int option" where
  "py_int s =
     (case str_strip s of
        [] \<Rightarrow> None
      | c # t \<Rightarrow>
          if c = CHR ''-'' then map_option (\<lambda>n. - int n) (unsigned_int t)
          else if c = CHR ''+'' then map_option int (unsigned_int t)
          else map_option int (unsigned_int (c # t)))"

definition coerce :: "texts \<Rightarrow> string \<Rightarrow> jval" where
  "coerce tx value =
     (if str_lower value = ''true'' \<or> str_lower value = ''false'' then JBool (str_lower value = ''true'')
      else case py_int value of
        Some i \<Rightarrow> JInt i
      | None \<Rightarrow> (case tx_float tx value of Some r \<Rightarrow> JFloat r | None \<Rightarrow> JStr value))"

definition parse_lora_module :: "texts \<Rightarrow> string \<Rightarrow> jval" where
  "parse_lora_module tx value =
     (let text = str_strip value;
          plain = (if CHR ''='' \<in> set text
                   then (case str_partition ''='' text of
                           (name, _, path) \<Rightarrow> JObj [(''name'', JStr (str_strip name)), (''path'', JStr (str_strip path))])
                   else JObj [(''name'', JStr text), (''path'', JStr '''')])
      in if starts_with ''{'' text
         then (case tx_json tx text of Some (JObj d) \<Rightarrow> if truthy (jget d ''name'') then JObj d else plain | _ \<Rightarrow> plain)
         else plain)"

text \<open>\<open>re.sub(r"[^a-zA-Z0-9]+", "-", text.strip().lower()).strip("-") or "inst"\<close>\<close>

fun squash :: "bool \<Rightarrow> string \<Rightarrow> string" where
  "squash in_run [] = []"
| "squash in_run (c # s) =
     (if is_alnum c then c # squash False s else if in_run then squash True s else CHR ''-'' # squash True s)"

definition strip_dashes :: "string \<Rightarrow> string" where
  "strip_dashes s = rev (dropWhile ((=) (CHR ''-'')) (rev (dropWhile ((=) (CHR ''-'')) s)))"

definition slug :: "string \<Rightarrow> string" where
  "slug text = (let s = strip_dashes (squash False (str_lower (str_strip text))) in if s = [] then ''inst'' else s)"

section \<open>Flags\<close>

fun is_env_assign :: "string \<Rightarrow> bool" where
  "is_env_assign [] = False"
| "is_env_assign (c # s) =
     ((is_alpha c \<or> c = CHR ''_'') \<and>
      (case dropWhile (\<lambda>x. is_alnum x \<or> x = CHR ''_'') s of [] \<Rightarrow> False | x # _ \<Rightarrow> x = CHR ''=''))"

fun take_env :: "(string, string) dict \<Rightarrow> string list \<Rightarrow> (string, string) dict \<times> string list" where
  "take_env env [] = (env, [])"
| "take_env env (t # ts) =
     (if is_env_assign t
      then (case str_partition ''='' t of (k, _, v) \<Rightarrow> take_env (dset k v env) ts)
      else (env, t # ts))"

definition is_flag :: "string \<Rightarrow> bool" where
  "is_flag t = starts_with ''--'' t"

definition drop_words :: "string list \<Rightarrow> string list" where
  "drop_words rest = dropWhile (\<lambda>t. \<not> starts_with ''-'' t) rest"

text \<open>
  The loop over the words: \<open>names\<close> are the two spellings of the list-valued LoRA flag, \<open>also\<close> the
  entries that come with it.  The branch for \<open>=\<close> inside such a name is the code's.
\<close>

function scan_flags ::
  "texts \<Rightarrow> string list \<Rightarrow> (string, jval) dict \<Rightarrow> string list \<Rightarrow> (string, jval) dict \<Rightarrow> (string, jval) dict" where
  "scan_flags tx names also_set [] flags = flags"
| "scan_flags tx names also_set (tok # rest) flags =
     (if \<not> is_flag tok then scan_flags tx names also_set rest flags
      else let name = drop 2 tok in
        if name \<in> set names then
          (let values = (if CHR ''='' \<in> set name then [snd (snd (str_partition ''='' name))] else []) @
                        takeWhile (\<lambda>t. \<not> is_flag t) rest
           in scan_flags tx names also_set (dropWhile (\<lambda>t. \<not> is_flag t) rest)
                (dupdate (dset ''lora_modules'' (JList (map (parse_lora_module tx) values)) flags) also_set))
        else if CHR ''='' \<in> set name then
          (case str_partition ''='' name of
             (k, _, v) \<Rightarrow> scan_flags tx names also_set rest (dset k (coerce tx v) flags))
        else (case rest of
                [] \<Rightarrow> dset name (JBool True) flags
              | v # rest1 \<Rightarrow>
                  if starts_with ''-'' v then scan_flags tx names also_set rest (dset name (JBool True) flags)
                  else scan_flags tx names also_set rest1 (dset name (coerce tx v) flags)))"
  by pat_completeness auto
termination scan_flags
  by (relation "measure (\<lambda>(tx, names, also_set, rest, flags). length rest)")
    (auto simp: le_imp_less_Suc length_dropWhile_le)

declare scan_flags.simps(2) [simp del]

definition snake :: "string \<Rightarrow> string" where
  "snake s = map (\<lambda>c. if c = CHR ''-'' then CHR ''_'' else c) s"

text \<open>\<open>{k.replace("-", "_"): v for k, v in flags.items()}\<close>\<close>

definition snake_keys :: "(string, jval) dict \<Rightarrow> (string, jval) dict" where
  "snake_keys flags = fold (\<lambda>(k, v). dset (snake k) v) flags []"

section \<open>The parsed command\<close>

record parsed =
  ps_group :: jval
  ps_id :: string
  ps_host :: jval
  ps_port :: jval
  ps_cuda :: "int option"
  ps_model_config :: "(string, jval) dict"
  ps_warnings :: "string list"

text \<open>\<open>int(first) if first.isdigit() else None\<close>\<close>

definition cuda_of :: "(string, string) dict \<Rightarrow> parse_err + int option" where
  "cuda_of env =
     (case map_of env ''CUDA_VISIBLE_DEVICES'' of
        None \<Rightarrow> Inr None
      | Some v \<Rightarrow>
          if v = [] then Inr None
          else let first = takeWhile (\<lambda>c. c \<noteq> CHR '','') v in
            if first \<noteq> [] \<and> list_all is_digit first
            then (case py_int first of Some i \<Rightarrow> Inr (Some i) | None \<Rightarrow> Inl ValueErr)
            else Inr None)"

text \<open>\<open>model_tag.split("/")[-1]\<close>\<close>

definition last_segment :: "string \<Rightarrow> string" where
  "last_segment s = rev (takeWhile (\<lambda>c. c \<noteq> CHR ''/'') (rev s))"

text \<open>The group's name and the instance's id: string methods on values that may not be strings.\<close>

definition group_of :: "jval \<Rightarrow> jval \<Rightarrow> parse_err + jval" where
  "group_of tag served =
     (if truthy tag then (case tag of JStr s \<Rightarrow> Inr (JStr (last_segment s)) | _ \<Rightarrow> Inl AttributeErr)
      else Inr (if truthy served then served else JStr ''model''))"

fun slug_of :: "jval \<Rightarrow> parse_err + string" where
  "slug_of (JStr s) = Inr (slug s)"
| "slug_of _ = Inl AttributeErr"

definition id_of :: "jval \<Rightarrow> jval \<Rightarrow> parse_err + string" where
  "id_of grp served =
     (if truthy served then slug_of served
      else case slug_of grp of Inl x \<Rightarrow> Inl x | Inr s \<Rightarrow> Inr (s @ ''-1''))"

definition served_warning :: string where
  "served_warning = ''--served-model-name ignored for naming; the router uses the group name''"

text \<open>The end of both parsers, from the device to the returned record.\<close>

definition finish_parse ::
  "string \<Rightarrow> string \<Rightarrow> int \<Rightarrow> (string, jval) dict \<Rightarrow> (string, string) dict \<Rightarrow> jval \<Rightarrow> jval \<Rightarrow> jval \<Rightarrow> jval \<Rightarrow>
     (string, jval) dict \<Rightarrow> parse_err + parsed" where
  "finish_parse tag_warning port_warning default_port extra env tag port host served nrm =
     (case cuda_of env of
        Inl x \<Rightarrow> Inl x
      | Inr cuda \<Rightarrow>
          (case group_of tag served of
             Inl x \<Rightarrow> Inl x
           | Inr grp \<Rightarrow>
               (case id_of grp served of
                  Inl x \<Rightarrow> Inl x
                | Inr i \<Rightarrow>
                    Inr \<lparr>ps_group = grp, ps_id = i, ps_host = host,
                         ps_port = (if port = JNull then JInt default_port else port), ps_cuda = cuda,
                         ps_model_config = dupdate ((''model_tag'', tag) # extra) nrm,
                         ps_warnings = (if tag = JNull then [tag_warning] else []) @
                           (if port = JNull then [port_warning] else []) @
                           (if truthy served then [served_warning] else [])\<rparr>)))"

text \<open>vLLM, from the words on.\<close>

definition vllm_flag_names :: "string list" where
  "vllm_flag_names = [''lora-modules'', ''lora_modules'']"

definition strip_command :: "string list \<Rightarrow> jval \<times> string list" where
  "strip_command tokens =
     (if ''serve'' \<in> set tokens
      then (case tl (dropWhile (\<lambda>t. t \<noteq> ''serve'') tokens) of
              [] \<Rightarrow> (JNull, [])
            | t # ts \<Rightarrow> if starts_with ''-'' t then (JNull, t # ts) else (JStr t, ts))
      else (JNull, drop_words tokens))"

definition parse_vllm_words :: "texts \<Rightarrow> string list \<Rightarrow> parse_err + parsed" where
  "parse_vllm_words tx words =
     (case take_env [] words of (env, tokens) \<Rightarrow>
      case strip_command tokens of (tag0, rest) \<Rightarrow>
        (let flags = scan_flags tx vllm_flag_names [] rest [];
             tag = (if tag0 = JNull then jget flags ''model'' else tag0);
             nrm = snake_keys (if tag0 = JNull then dpop ''model'' flags else flags)
         in finish_parse ''could not detect a model tag (expected `vllm serve <model>` or `--model`)''
              ''no --port found; defaulting to 8000'' 8000 [] env tag (jget nrm ''port'')
              (dget nrm ''host'' (JStr ''localhost'')) (jget nrm ''served_model_name'')
              (dpop ''served_model_name'' (dpop ''host'' (dpop ''port'' nrm)))))"

definition parse_vllm_command :: "texts \<Rightarrow> string \<Rightarrow> parse_err + parsed" where
  "parse_vllm_command tx command =
     (if str_strip command = [] then Inl ValueErr
      else case shlex_split command of None \<Rightarrow> Inl ValueErr | Some words \<Rightarrow> parse_vllm_words tx words)"

definition sglang_flag_names :: "string list" where
  "sglang_flag_names = [''lora-paths'', ''lora_paths'']"

definition sglang_reverse_map :: "(string \<times> string) list" where
  "sglang_reverse_map =
     [(''context_length'', ''max_model_len''), (''mem_fraction_static'', ''gpu_memory_utilization''),
      (''tp_size'', ''tensor_parallel_size'')]"

definition neutral_keys :: "(string, jval) dict \<Rightarrow> (string, jval) dict" where
  "neutral_keys nrm =
     fold (\<lambda>(sgl, neutral) d. if dhas d sgl then dset neutral (jget d sgl) (dpop sgl d) else d) sglang_reverse_map nrm"

definition parse_sglang_words :: "texts \<Rightarrow> string list \<Rightarrow> parse_err + parsed" where
  "parse_sglang_words tx words =
     (case take_env [] words of (env, tokens) \<Rightarrow>
        (let nrm = snake_keys (scan_flags tx sglang_flag_names [(''enable_lora'', JBool True)] (drop_words tokens) []);
             norm1 = dpop ''model_path'' nrm;
             by_path = truthy (jget nrm ''model_path'');
             tag = (if by_path then jget nrm ''model_path'' else jget norm1 ''model'');
             norm2 = (if by_path then norm1 else dpop ''model'' norm1)
         in finish_parse ''could not detect a model tag (expected `--model-path <model>`)''
              ''no --port found; defaulting to 30000'' 30000 [(''engine'', JStr ''sglang'')] env tag (jget norm2 ''port'')
              (dget norm2 ''host'' (JStr ''localhost'')) (jget norm2 ''served_model_name'')
              (neutral_keys (dpop ''served_model_name'' (dpop ''host'' (dpop ''port'' norm2))))))"

definition parse_sglang_command :: "texts \<Rightarrow> string \<Rightarrow> parse_err + parsed" where
  "parse_sglang_command tx command =
     (if str_strip command = [] then Inl ValueErr
      else case shlex_split command of None \<Rightarrow> Inl ValueErr | Some words \<Rightarrow> parse_sglang_words tx words)"

definition str_contains :: "string \<Rightarrow> string \<Rightarrow> bool" where
  "str_contains pat s = fst (snd (str_partition pat s))"

definition parse_command :: "texts \<Rightarrow> string \<Rightarrow> string option \<Rightarrow> parse_err + parsed" where
  "parse_command tx command engine =
     (let eng0 = str_lower (str_strip (case engine of None \<Rightarrow> [] | Some e \<Rightarrow> e));
          eng = (if eng0 = [] then (if str_contains ''sglang'' (str_lower command) then ''sglang'' else ''vllm'') else eng0)
      in if eng = ''sglang'' then parse_sglang_command tx command else parse_vllm_command tx command)"

section \<open>The endpoint\<close>

text \<open>\<open>POST /models/parse\<close>: the form's fields and what they would collide with; \<open>port in used\<close> compares as Python does.\<close>

fun port_taken :: "int list \<Rightarrow> jval \<Rightarrow> bool" where
  "port_taken used (JInt p) = (p \<in> set used)"
| "port_taken used (JFloat r) = (\<exists>p\<in>set used. of_int p = r)"
| "port_taken used (JBool b) = ((if b then 1 else 0) \<in> set used)"
| "port_taken used _ = False"

datatype parse_reply = Parsed parsed bool bool | Bad_Request | Server_Error

definition parse_endpoint :: "texts \<Rightarrow> string \<Rightarrow> string option \<Rightarrow> node \<Rightarrow> parse_reply" where
  "parse_endpoint tx command engine n =
     (case parse_command tx command engine of
        Inl ValueErr \<Rightarrow> Bad_Request
      | Inl AttributeErr \<Rightarrow> Server_Error
      | Inr p \<Rightarrow> Parsed p (reg_get (nd_reg n) (jtext (ps_group p) @ sep2 @ ps_id p) \<noteq> None)
                   (port_taken (used_ports n) (ps_port p)))"

section \<open>Words that need no quoting\<close>

definition plain_char :: "char \<Rightarrow> bool" where
  "plain_char c = (\<not> sh_space c \<and> \<not> sh_quote c \<and> c \<noteq> backslash)"

definition plain_word :: "string \<Rightarrow> bool" where
  "plain_word w = (w \<noteq> [] \<and> list_all plain_char w)"

lemma shlex_word_plain:
  "list_all plain_char w \<Longrightarrow> shlex_go Word q tok (w @ s) = shlex_go Word q (tok @ w) s"
  by (induction w arbitrary: tok) (auto simp: plain_char_def)

lemma shlex_gap_plain: "plain_word w \<Longrightarrow> shlex_go Gap q tok (w @ s) = shlex_go Word False w s"
  by (cases w) (auto simp: plain_word_def plain_char_def shlex_word_plain)

lemma shlex_plain: "list_all plain_word ws \<Longrightarrow> shlex_split (join_with '' '' ws) = Some ws"
proof (induction ws rule: induct_list012)
  case (2 w)
  then show ?case
    using shlex_gap_plain [of w False "[]" "[]"] by (simp add: shlex_split_def)
next
  case (3 v w ws)
  then show ?case
    by (simp add: shlex_split_def shlex_gap_plain sh_space_def)
qed (simp add: shlex_split_def)

section \<open>Numbers read back\<close>

lemma show_digit: "n < 10 \<Longrightarrow> is_digit (char_of (48 + n)) \<and> of_char (char_of (48 + n)) = (48 + n :: nat)"
  by (simp add: is_digit_def Let_def)

lemma read_show_nat:
  "read_digits b acc (show_nat n @ s) = read_digits True (acc * 10 ^ length (show_nat n) + n) s"
proof (induction n arbitrary: b acc s rule: show_nat.induct)
  case (1 n)
  show ?case
  proof (cases "n < 10")
    case True
    then show ?thesis
      using show_digit [of n] by (simp add: show_nat.simps [of n] mult.commute)
  next
    case False
    have "n mod 10 < 10" by simp
    then show ?thesis
      using False 1 show_digit [of "n mod 10"]
      by (simp add: show_nat.simps [of n] algebra_simps)
  qed
qed

lemma show_nat_digits: "list_all is_digit (show_nat n) \<and> show_nat n \<noteq> []"
proof (induction n rule: show_nat.induct)
  case (1 n)
  have "n mod 10 < 10" by simp
  then show ?case
    using 1 show_digit [of n] show_digit [of "n mod 10"]
    by (cases "n < 10") (auto simp: show_nat.simps [of n])
qed

lemma digit_facts:
  assumes "is_digit c"
  shows "\<not> is_space c" "c \<noteq> CHR ''-''" "c \<noteq> CHR ''+''" "char_lower c = c" "plain_char c" "c \<noteq> CHR ''t''" "c \<noteq> CHR ''f''"
  using assms
  by (auto simp: is_digit_def is_space_def char_lower_def plain_char_def sh_space_def sh_quote_def backslash_def Let_def)

lemma py_int_digits:
  assumes "list_all is_digit s" "s \<noteq> []"
  shows "py_int s = map_option int (unsigned_int s)"
proof -
  have "str_strip s = s"
    using assms(1) by (intro strip_all_nonspace) (auto simp: list_all_iff digit_facts)
  then show ?thesis
    using assms by (cases s) (auto simp: py_int_def dest: digit_facts)
qed

lemma coerce_show_nat:
  assumes "length (show_nat n) \<le> max_str_digits"
  shows "coerce tx (show_nat n) = JInt (int n)"
proof -
  have d: "list_all is_digit (show_nat n)" "show_nat n \<noteq> []"
    using show_nat_digits by auto
  have "filter is_digit (show_nat n) = show_nat n"
    using d by (simp add: list_all_iff)
  moreover have "read_digits False 0 (show_nat n) = Some n"
    using read_show_nat [of False 0 n "[]"] by simp
  ultimately have py: "py_int (show_nat n) = Some (int n)"
    using py_int_digits [OF d] assms by simp
  have low: "str_lower (show_nat n) = show_nat n"
    using d(1) digit_facts(4) by (simp add: str_lower_def list_all_iff map_idI)
  have "hd (show_nat n) \<noteq> CHR ''t''" "hd (show_nat n) \<noteq> CHR ''f''"
    using d by (metis digit_facts(6,7) hd_in_set list_all_iff)+
  then have "show_nat n \<noteq> ''true''" "show_nat n \<noteq> ''false''"
    by auto
  then show ?thesis
    using py low by (simp add: coerce_def)
qed

section \<open>Reading a built command back\<close>

lemma kebab_facts:
  "CHR ''-'' \<notin> set k \<Longrightarrow> snake (kebab k) = k" "CHR ''_'' \<notin> set (kebab k)"
  "CHR ''='' \<notin> set k \<Longrightarrow> CHR ''='' \<notin> set (kebab k)"
  by (induction k) (auto simp: kebab_def snake_def)

lemma flag_word: "is_flag (''--'' @ s)" "drop 2 (''--'' @ s) = s" "starts_with ''-'' (''--'' @ s)"
  by (simp_all add: is_flag_def starts_with_def)

lemma not_dash_not_flag: "\<not> starts_with ''-'' t \<Longrightarrow> \<not> is_flag t"
  by (cases t) (auto simp: is_flag_def starts_with_def)

text \<open>The words after a flag's own are a new flag, or nothing.\<close>

definition at_flag :: "string list \<Rightarrow> bool" where
  "at_flag rest = (case rest of [] \<Rightarrow> True | t # _ \<Rightarrow> is_flag t)"

lemma at_flag_while:
  "at_flag rest \<Longrightarrow> \<forall>t\<in>set vs. \<not> is_flag t \<Longrightarrow>
     takeWhile (\<lambda>t. \<not> is_flag t) (vs @ rest) = vs \<and> dropWhile (\<lambda>t. \<not> is_flag t) (vs @ rest) = rest"
  by (induction vs) (auto simp: at_flag_def split: list.splits)

lemma at_flag_dash: "at_flag (v # rest) \<Longrightarrow> starts_with ''-'' v"
  using not_dash_not_flag by (auto simp: at_flag_def)

lemma dumped_module_text:
  assumes "clean_module m = Some v"
  obtains x d where "json_dumps fl v = ''{'' @ x @ ''}''" "v = JObj d" "truthy (jget d ''name'')"
  using assms by (cases m) (auto simp: Let_def split: if_splits)

lemma strip_braces: "str_strip (''{'' @ x @ ''}'') = ''{'' @ x @ ''}''"
  by (simp add: str_strip_def str_lstrip_def is_space_def)

lemma parse_dumped_module:
  assumes "clean_module m = Some v" "tx_json tx (json_dumps fl v) = Some v"
  shows "parse_lora_module tx (json_dumps fl v) = v \<and> \<not> is_flag (json_dumps fl v)"
proof -
  obtain x d where d: "json_dumps fl v = ''{'' @ x @ ''}''" "v = JObj d" "truthy (jget d ''name'')"
    using assms(1) by (rule dumped_module_text [of m v fl])
  have "str_strip (json_dumps fl v) = json_dumps fl v"
    unfolding d(1) by (rule strip_braces)
  moreover have "starts_with ''{'' (json_dumps fl v)" "\<not> is_flag (json_dumps fl v)"
    unfolding d(1) by (simp_all add: starts_with_def is_flag_def)
  ultimately show ?thesis
    using assms(2) d(2,3) by (simp add: parse_lora_module_def Let_def)
qed

text \<open>
  The settings whose text reads back: a switch that is on, a scalar whose text coerces to it and does
  not start with a dash; no \<open>-\<close> or \<open>=\<close> in a key.  \<open>cli_kept\<close> is what the command line carries.
\<close>

fun cli_value :: "texts \<Rightarrow> (real \<Rightarrow> string) \<Rightarrow> jval \<Rightarrow> bool" where
  "cli_value tx fl (JBool b) = b"
| "cli_value tx fl (JList _) = False"
| "cli_value tx fl (JObj _) = False"
| "cli_value tx fl v = (\<not> starts_with ''-'' (py_str fl v) \<and> coerce tx (py_str fl v) = v)"

fun cli_modules :: "texts \<Rightarrow> (real \<Rightarrow> string) \<Rightarrow> jval \<Rightarrow> bool" where
  "cli_modules tx fl (JList ms) = list_all (\<lambda>v. tx_json tx (json_dumps fl v) = Some v) (List.map_filter clean_module ms)"
| "cli_modules tx fl _ = False"

fun cli_entry :: "texts \<Rightarrow> (real \<Rightarrow> string) \<Rightarrow> string \<times> jval \<Rightarrow> bool" where
  "cli_entry tx fl (k, v) =
     (k \<in> set skip_cli_keys \<or> v = JNull \<or>
      CHR ''-'' \<notin> set k \<and> CHR ''='' \<notin> set k \<and> k \<noteq> ''served_model_name'' \<and>
      (if k = ''lora_modules'' then cli_modules tx fl v else cli_value tx fl v))"

fun cli_kept :: "string \<times> jval \<Rightarrow> (string, jval) dict" where
  "cli_kept (k, v) =
     (if k \<in> set skip_cli_keys \<or> v = JNull then []
      else if k = ''lora_modules'' then
        (case v of JList ms \<Rightarrow> let mods = List.map_filter clean_module ms in if mods = [] then [] else [(k, JList mods)]
         | _ \<Rightarrow> [])
      else [(k, v)])"

lemma kebab_names: "CHR ''-'' \<notin> set k \<Longrightarrow> kebab k \<in> set vllm_flag_names \<longleftrightarrow> k = ''lora_modules''"
proof
  assume a: "CHR ''-'' \<notin> set k" and "kebab k \<in> set vllm_flag_names"
  then have "kebab k = ''lora-modules''"
    using kebab_facts(2) [of k] by (auto simp: vllm_flag_names_def)
  then have "snake (kebab k) = ''lora_modules''"
    by (simp add: snake_def)
  then show "k = ''lora_modules''"
    using kebab_facts(1) [OF a] by simp
qed (simp add: kebab_def vllm_flag_names_def)

text \<open>The LoRA list is stored under its own name, every other flag under its spelling.\<close>

definition flag_key :: "string \<Rightarrow> string" where
  "flag_key k = (if k = ''lora_modules'' then k else kebab k)"

definition put_flags :: "(string, jval) dict \<Rightarrow> (string, jval) dict \<Rightarrow> (string, jval) dict" where
  "put_flags kept flags = fold (\<lambda>(k, v). dset (flag_key k) v) kept flags"

lemma snake_flag_key: "CHR ''-'' \<notin> set k \<Longrightarrow> snake (flag_key k) = k"
  using kebab_facts(1) [of k] by (auto simp: flag_key_def snake_def)

lemma scan_scalar:
  assumes "CHR ''-'' \<notin> set k" "CHR ''='' \<notin> set k" "k \<noteq> ''lora_modules''" "\<not> starts_with ''-'' t"
  shows "scan_flags tx vllm_flag_names [] ((''--'' @ kebab k) # t # rest) flags =
           scan_flags tx vllm_flag_names [] rest (dset (kebab k) (coerce tx t) flags)"
  using assms kebab_names [of k] kebab_facts(3) [of k] by (simp add: scan_flags.simps(2) flag_word [simplified] Let_def)

lemma scan_switch:
  assumes "CHR ''-'' \<notin> set k" "CHR ''='' \<notin> set k" "k \<noteq> ''lora_modules''" "at_flag rest"
  shows "scan_flags tx vllm_flag_names [] ((''--'' @ kebab k) # rest) flags =
           scan_flags tx vllm_flag_names [] rest (dset (kebab k) (JBool True) flags)"
  using assms kebab_names [of k] kebab_facts(3) [of k] at_flag_dash
  by (cases rest) (auto simp: scan_flags.simps(2) flag_word [simplified] Let_def)

lemma scan_modules:
  assumes "cli_modules tx fl (JList ms)" "at_flag rest"
  shows "scan_flags tx vllm_flag_names [] ((''--'' @ kebab ''lora_modules'') # map (json_dumps fl) (List.map_filter clean_module ms) @ rest) flags =
           scan_flags tx vllm_flag_names [] rest (dset ''lora_modules'' (JList (List.map_filter clean_module ms)) flags)"
proof -
  let ?mods = "List.map_filter clean_module ms"
  have each: "parse_lora_module tx (json_dumps fl v) = v \<and> \<not> is_flag (json_dumps fl v)" if "v \<in> set ?mods" for v
    using that assms(1) parse_dumped_module by (fastforce simp: map_filter_def list_all_iff)
  have "map (parse_lora_module tx) (map (json_dumps fl) ?mods) = ?mods"
    using each by (simp add: map_idI)
  moreover have "\<forall>t\<in>set (map (json_dumps fl) ?mods). \<not> is_flag t"
    using each by auto
  ultimately show ?thesis
    using at_flag_while [OF assms(2), of "map (json_dumps fl) ?mods"]
    by (simp add: scan_flags.simps(2) flag_word [simplified] kebab_def vllm_flag_names_def Let_def dupdate_def)
qed

text \<open>One setting, then a whole configuration.\<close>

lemma vllm_flag_start: "at_flag rest \<Longrightarrow> at_flag (vllm_flag fl p @ rest)"
  by (cases p) (auto simp: at_flag_def flag_word [simplified] Let_def split: jval.splits)

lemma scan_entry:
  assumes "cli_entry tx fl p" "at_flag rest"
  shows "scan_flags tx vllm_flag_names [] (vllm_flag fl p @ rest) flags =
           scan_flags tx vllm_flag_names [] rest (put_flags (cli_kept p) flags)"
proof -
  obtain k v where p: "p = (k, v)" by (cases p)
  consider (skip) "k \<in> set skip_cli_keys \<or> v = JNull"
    | (mods) "k \<notin> set skip_cli_keys" "v \<noteq> JNull" "k = ''lora_modules''"
    | (val) "k \<notin> set skip_cli_keys" "v \<noteq> JNull" "k \<noteq> ''lora_modules''" by blast
  then show ?thesis
  proof cases
    case skip
    then show ?thesis by (auto simp: p put_flags_def)
  next
    case mods
    then obtain ms where ms: "v = JList ms" "cli_modules tx fl (JList ms)"
      using assms(1) by (cases v) (auto simp: p)
    then show ?thesis
      using mods scan_modules [OF ms(2) assms(2)] by (simp add: p put_flags_def flag_key_def Let_def)
  next
    case val
    then have key: "CHR ''-'' \<notin> set k" "CHR ''='' \<notin> set k" and v: "cli_value tx fl v"
      using assms(1) by (auto simp: p)
    show ?thesis
      using val v scan_scalar [OF key val(3)] scan_switch [OF key val(3) assms(2)]
      by (cases v) (simp_all add: p put_flags_def flag_key_def)
  qed
qed

lemma scan_built:
  "list_all (cli_entry tx fl) cfg \<Longrightarrow>
     scan_flags tx vllm_flag_names [] (concat (map (vllm_flag fl) cfg)) flags = put_flags (concat (map cli_kept cfg)) flags
     \<and> at_flag (concat (map (vllm_flag fl) cfg))"
proof (induction cfg arbitrary: flags)
  case Nil
  then show ?case by (simp add: put_flags_def at_flag_def)
next
  case (Cons p cfg)
  then show ?case
    using scan_entry [of tx fl p "concat (map (vllm_flag fl) cfg)" flags] vllm_flag_start
    by (simp add: put_flags_def)
qed

lemma kept_keys:
  "set (map fst (concat (map cli_kept cfg))) \<subseteq> fst ` set cfg - set skip_cli_keys"
  "distinct (map fst cfg) \<Longrightarrow> distinct (map fst (concat (map cli_kept cfg)))"
proof -
  have one: "map fst (cli_kept p) = [] \<or> map fst (cli_kept p) = [fst p] \<and> fst p \<notin> set skip_cli_keys" for p
    by (cases p) (auto simp: Let_def split: jval.splits)
  show sub: "set (map fst (concat (map cli_kept cfg))) \<subseteq> fst ` set cfg - set skip_cli_keys" for cfg
  proof (induction cfg)
    case (Cons p cfg)
    then show ?case using one [of p] by auto
  qed simp
  show "distinct (map fst cfg) \<Longrightarrow> distinct (map fst (concat (map cli_kept cfg)))"
  proof (induction cfg)
    case (Cons p cfg)
    let ?X = "map fst (concat (map cli_kept cfg))"
    have fresh: "fst p \<notin> set ?X" and ih: "distinct ?X"
      using Cons sub [of cfg] by (auto simp only: list.map distinct.simps list.set_map)
    have "distinct (ys @ ?X)" if "ys = [] \<or> ys = [fst p] \<and> fst p \<notin> set skip_cli_keys" for ys
      using that fresh ih by (elim disjE conjE) (simp_all only: append_Nil append_Cons distinct.simps simp_thms)
    from this [OF one] show ?case
      by (simp only: list.map concat.simps map_append)
  qed simp
qed

lemma kept_plain:
  "list_all (cli_entry tx fl) cfg \<Longrightarrow> k \<in> fst ` set (concat (map cli_kept cfg)) \<Longrightarrow>
     CHR ''-'' \<notin> set k \<and> k \<noteq> ''served_model_name''"
  by (induction cfg) (auto split: if_splits jval.splits simp: Let_def)

lemma snake_put_flags:
  assumes "distinct (map fst kept)" "\<And>k. k \<in> fst ` set kept \<Longrightarrow> CHR ''-'' \<notin> set k"
  shows "snake_keys (put_flags kept []) = kept"
proof -
  have reads: "snake (flag_key (fst p)) = fst p" if "p \<in> set kept" for p
    using that assms(2) by (simp add: snake_flag_key)
  have inj: "inj_on (flag_key \<circ> fst) (set kept)"
  proof (rule inj_onI)
    fix p q assume m: "p \<in> set kept" "q \<in> set kept" "(flag_key \<circ> fst) p = (flag_key \<circ> fst) q"
    then have "fst p = fst q" using reads by (metis comp_apply)
    then show "p = q" using m(1,2) assms(1) by (simp add: distinct_map inj_on_def)
  qed
  then have "put_flags kept [] = map (\<lambda>(k, v). (flag_key k, v)) kept"
    using assms(1) fold_dset_fresh [of flag_key kept "[]"] by (simp add: put_flags_def distinct_map dhas_def)
  moreover have "map (\<lambda>(k, v). (snake k, v)) (map (\<lambda>(k, v). (flag_key k, v)) kept) = kept"
    using reads by (auto intro!: map_idI)
  ultimately show ?thesis
    using fold_dset_fresh [of snake "map (\<lambda>(k, v). (flag_key k, v)) kept" "[]"] assms(1) reads
    by (simp add: snake_keys_def dhas_def comp_def case_prod_beta map_idI cong: map_cong)
qed

lemma shlex_chars:
  "shlex_go st q tok s = Some ws \<Longrightarrow> w \<in> set ws \<Longrightarrow> set w \<subseteq> insert backslash (set tok \<union> set s)"
proof (induction st q tok s arbitrary: ws w rule: shlex_go.induct)
  case (6 q tok c s)
  then show ?case
    by (fastforce split: if_splits)
qed (fastforce split: if_splits option.splits)+

lemma words_not_blank:
  assumes "shlex_split s = Some (''vllm'' # ws)"
  shows "str_strip s \<noteq> []"
proof
  assume "str_strip s = []"
  then have "dropWhile is_space (rev (dropWhile is_space s)) = []"
    by (simp only: str_strip_def str_lstrip_def rev_is_Nil_conv)
  then have "dropWhile is_space s = []"
    using hd_dropWhile [of is_space s] hd_in_set [of "dropWhile is_space s"]
    by (simp only: dropWhile_eq_Nil_conv [of is_space "rev (dropWhile is_space s)"] set_rev) blast
  then have "\<forall>c\<in>set s. is_space c"
    by (simp only: dropWhile_eq_Nil_conv)
  moreover have "CHR ''v'' \<in> insert backslash (set s)"
    using shlex_chars [of Gap False "[]" s "''vllm'' # ws" "''vllm''"] assms by (auto simp: shlex_split_def)
  moreover have "\<not> is_space (CHR ''v'')" "CHR ''v'' \<noteq> backslash"
    by (simp_all add: backslash_def is_space_def)
  ultimately show False
    by blast
qed

lemma lora_headroom_entries:
  assumes "dict_ok cfg" "list_all (cli_entry tx fl) cfg"
  shows "dict_ok (lora_headroom cfg) \<and> list_all (cli_entry tx fl) (lora_headroom cfg)"
proof -
  have four: "show_nat 4 = ''4''"
    by code_simp
  have "coerce tx ''4'' = JInt 4"
    using coerce_show_nat [of 4 tx] by (simp add: four max_str_digits_def)
  then have "list_all (cli_entry tx fl) (lora_headroom cfg)"
    using assms(2) by (auto simp: lora_headroom_def dset_absent show_int_def four starts_with_def)
  then show ?thesis
    using assms(1) by (simp add: lora_headroom_def)
qed

text \<open>What a launch command carries of the merged configuration.\<close>

definition carried :: "(string, jval) dict \<Rightarrow> (string, jval) dict" where
  "carried cfg = concat (map cli_kept (lora_headroom cfg))"

lemma carried_facts:
  assumes "dict_ok cfg" "list_all (cli_entry tx fl) cfg"
  shows "dict_ok (carried cfg)" "\<not> dhas (carried cfg) ''model_tag''" "\<not> dhas (carried cfg) ''served_model_name''"
    and "\<And>k. dhas (carried cfg) k \<Longrightarrow> CHR ''-'' \<notin> set k"
proof -
  have ok: "dict_ok (lora_headroom cfg)" "list_all (cli_entry tx fl) (lora_headroom cfg)"
    using lora_headroom_entries [OF assms] by auto
  show "dict_ok (carried cfg)"
    using kept_keys(2) ok(1) by (simp add: carried_def dict_ok_def)
  show "\<not> dhas (carried cfg) ''model_tag''"
    using kept_keys(1) [of "lora_headroom cfg"] by (auto simp: carried_def dhas_iff_keys dkeys_def skip_cli_keys_def simp del: cli_kept.simps)
  show "\<not> dhas (carried cfg) ''served_model_name''" "dhas (carried cfg) k \<Longrightarrow> CHR ''-'' \<notin> set k" for k
    using kept_plain [OF ok(2)] by (auto simp: carried_def dhas_iff_keys dkeys_def simp del: cli_kept.simps)
qed

lemma group_is_text: "finish_parse tw pw dp extra env tag port host served nrm = Inr p \<Longrightarrow> \<exists>s. ps_group p = JStr s"
  by (cases tag; cases served)
    (auto simp: finish_parse_def group_of_def id_of_def split: sum.splits if_splits)

lemma parse_built_words:
  assumes "build_vllm_cli_args fl cfg = Some args" "jget cfg ''model_tag'' = JStr t" "\<not> starts_with ''-'' t"
    and ok: "dict_ok cfg" "list_all (cli_entry tx fl) cfg"
  shows "parse_vllm_words tx (''vllm'' # args) =
    Inr \<lparr>ps_group = JStr (last_segment t), ps_id = slug (last_segment t) @ ''-1'',
         ps_host = dget (carried cfg) ''host'' (JStr ''localhost''),
         ps_port = (if jget (carried cfg) ''port'' = JNull then JInt 8000 else jget (carried cfg) ''port''), ps_cuda = None,
         ps_model_config = (''model_tag'', JStr t) # dpop ''host'' (dpop ''port'' (carried cfg)),
         ps_warnings = (if jget (carried cfg) ''port'' = JNull then [''no --port found; defaulting to 8000''] else [])\<rparr>"
proof -
  note cf = carried_facts [OF ok]
  have t: "truthy (JStr t)" and args: "args = ''serve'' # t # concat (map (vllm_flag fl) (lora_headroom cfg))"
    using assms(1,2) by (auto simp: build_vllm_cli_args_def Let_def split: if_splits)
  have env: "take_env [] (''vllm'' # args) = ([], ''vllm'' # args)"
    by (simp add: is_alnum_def is_alpha_def is_digit_def)
  have strip: "strip_command (''vllm'' # args) = (JStr t, concat (map (vllm_flag fl) (lora_headroom cfg)))"
    using assms(3) by (simp add: strip_command_def args)
  have scan: "scan_flags tx vllm_flag_names [] (concat (map (vllm_flag fl) (lora_headroom cfg))) [] = put_flags (carried cfg) []"
    using scan_built lora_headroom_entries [OF ok] by (simp add: carried_def)
  have nrm: "snake_keys (put_flags (carried cfg) []) = carried cfg"
    using cf(1,4) by (intro snake_put_flags) (simp_all add: dict_ok_def dhas_iff_keys dkeys_def)
  have noserved: "jget (carried cfg) ''served_model_name'' = JNull"
    using cf(3) by (simp add: jget_def dget_def dhas_def)
  have pop: "dpop ''served_model_name'' (dpop ''host'' (dpop ''port'' (carried cfg))) = dpop ''host'' (dpop ''port'' (carried cfg))"
    by (rule dpop_absent) (simp add: cf(3))
  have "dupdate [(''model_tag'', JStr t)] (dpop ''host'' (dpop ''port'' (carried cfg)))
          = (''model_tag'', JStr t) # dpop ''host'' (dpop ''port'' (carried cfg))"
    using cf(1,2) by (subst dupdate_fresh) (auto simp: dhas_def split: if_splits)
  then show ?thesis
    using t by (simp add: parse_vllm_words_def env strip scan nrm noserved pop Let_def finish_parse_def cuda_of_def group_of_def id_of_def)
qed

section \<open>Properties\<close>

text \<open>
  C37: A command line that the launcher builds for a vLLM instance, pasted back with any quoting that the shell
  accepts, is read as the configuration it was built from: the model tag, the host and the port, and every
  other setting the command line carries, in order and with its value (\<open>carried\<close>: all but the router-only
  keys and nulls, with the LoRA headroom the launcher adds).  Proved for configurations whose model tag does
  not start with a dash and whose settings are all \<open>cli_entry\<close>: switches that are on, and numbers and texts
  that do not begin with a dash and that the parser's coercion gives back, besides the LoRA modules; no
  switches that are off, no other lists or objects, no negative numbers, no \<open>served_model_name\<close>
  (\<open>off_switch_renamed\<close> and \<open>negative_value_lost\<close> show why).\<close>

theorem launch_command_reads_back:
  assumes "build_vllm_cli_args fl cfg = Some args" "shlex_split command = Some (''vllm'' # args)"
    and "jget cfg ''model_tag'' = JStr t" "\<not> starts_with ''-'' t"
    and "dict_ok cfg" "list_all (cli_entry tx fl) cfg"
  shows "parse_vllm_command tx command =
    Inr \<lparr>ps_group = JStr (last_segment t), ps_id = slug (last_segment t) @ ''-1'',
         ps_host = dget (carried cfg) ''host'' (JStr ''localhost''),
         ps_port = (if jget (carried cfg) ''port'' = JNull then JInt 8000 else jget (carried cfg) ''port''), ps_cuda = None,
         ps_model_config = (''model_tag'', JStr t) # dpop ''host'' (dpop ''port'' (carried cfg)),
         ps_warnings = (if jget (carried cfg) ''port'' = JNull then [''no --port found; defaulting to 8000''] else [])\<rparr>"
  using parse_built_words [OF assms(1,3,4,5,6)] words_not_blank [OF assms(2)] assms(2)
  by (simp add: parse_vllm_command_def)

definition demo_fl :: "real \<Rightarrow> string" where "demo_fl r = ''0''"

definition demo_module :: jval where
  "demo_module = JObj [(''name'', JStr ''sql''), (''path'', JStr ''repo/sql'')]"

definition demo_texts :: texts where
  "demo_texts = \<lparr>tx_float = (\<lambda>s. None), tx_json = (\<lambda>s. if s = json_dumps demo_fl demo_module then Some demo_module else None)\<rparr>"

definition demo_cfg :: "(string, jval) dict" where
  "demo_cfg = [(''model_tag'', JStr ''org/m''), (''engine'', JStr ''vllm''), (''dtype'', JNull), (''max_model_len'', JInt 4096),
     (''lora_modules'', JList [demo_module]), (''enable_lora'', JBool True), (''host'', JStr ''0.0.0.0''), (''port'', JInt 8001)]"

definition demo_command :: string where
  "demo_command = ''vllm serve org/m --max-model-len 4096 --lora-modules '' @ [CHR 0x27] @ json_dumps demo_fl demo_module @
     [CHR 0x27] @ ''  --enable-lora --host 0.0.0.0 --port 8001 --max-loras 4''"

lemma digit_chars:
  "char_of (48 :: nat) = CHR ''0''" "char_of (49 :: nat) = CHR ''1''" "char_of (52 :: nat) = CHR ''4''"
  "char_of (54 :: nat) = CHR ''6''" "char_of (56 :: nat) = CHR ''8''" "char_of (57 :: nat) = CHR ''9''"
  by code_simp+

lemma demo_numbers: "show_nat 4 = ''4''" "show_nat 4096 = ''4096''" "show_nat 8001 = ''8001''"
  by (simp_all add: show_nat.simps digit_chars)

lemma demo_build: "build_vllm_cli_args demo_fl demo_cfg = Some [''serve'', ''org/m'', ''--max-model-len'', ''4096'', ''--lora-modules'',
    json_dumps demo_fl demo_module, ''--enable-lora'', ''--host'', ''0.0.0.0'', ''--port'', ''8001'', ''--max-loras'', ''4'']"
  by (simp add: build_vllm_cli_args_def demo_cfg_def lora_headroom_def jget_def dget_def dhas_def dset_def skip_cli_keys_def
      router_only_keys_def kebab_def List.map_filter_simps show_int_def demo_numbers demo_module_def del: json_dumps.simps)

lemma demo_words: "shlex_split demo_command = Some [''vllm'', ''serve'', ''org/m'', ''--max-model-len'', ''4096'', ''--lora-modules'',
    json_dumps demo_fl demo_module, ''--enable-lora'', ''--host'', ''0.0.0.0'', ''--port'', ''8001'', ''--max-loras'', ''4'']"
  by code_simp

lemma demo_entries: "list_all (cli_entry demo_texts demo_fl) demo_cfg"
  using coerce_show_nat [of 4096 demo_texts] coerce_show_nat [of 8001 demo_texts]
  by (simp add: demo_cfg_def skip_cli_keys_def router_only_keys_def List.map_filter_simps demo_texts_def show_int_def demo_numbers
      max_str_digits_def starts_with_def) code_simp

lemma demo_carried: "carried demo_cfg = [(''max_model_len'', JInt 4096), (''lora_modules'', JList [demo_module]),
    (''enable_lora'', JBool True), (''host'', JStr ''0.0.0.0''), (''port'', JInt 8001), (''max_loras'', JInt 4)]"
  by code_simp

lemma demo_read:
  "last_segment ''org/m'' = ''m''" "slug ''m'' = ''m''" "jget demo_cfg ''model_tag'' = JStr ''org/m''"
  "\<not> starts_with ''-'' ''org/m''" "dict_ok demo_cfg"
  by code_simp+

lemma launch_command_reads_back_witness:
  "parse_vllm_command demo_texts demo_command =
    Inr \<lparr>ps_group = JStr ''m'', ps_id = ''m-1'', ps_host = JStr ''0.0.0.0'', ps_port = JInt 8001, ps_cuda = None,
         ps_model_config = [(''model_tag'', JStr ''org/m''), (''max_model_len'', JInt 4096), (''lora_modules'', JList [demo_module]),
           (''enable_lora'', JBool True), (''max_loras'', JInt 4)], ps_warnings = []\<rparr>"
  using launch_command_reads_back [OF demo_build demo_words demo_read(3,4,5) demo_entries]
  by (simp add: demo_carried demo_read jget_def dget_def dpop_def)

text \<open>
  Where the text does not read back.  A negative number: the parser takes its dash for a flag's and
  stores a switch.  A switch that is off becomes a new key.  \<open>--lora-modules=x\<close> never reaches the branch
  written for it, and stays a string.  A number for the served name is not a string to \<open>slug\<close>.
\<close>

lemma negative_value_lost:
  "map_option ps_model_config (case parse_vllm_words tx [''vllm'', ''serve'', ''m'', ''--seed'', ''-1''] of Inl _ \<Rightarrow> None | Inr p \<Rightarrow> Some p)
     = Some [(''model_tag'', JStr ''m''), (''seed'', JBool True)]"
  by code_simp

lemma off_switch_renamed:
  "vllm_flag fl (''enable_prefix_caching'', JBool False) = [''--no-enable-prefix-caching'']"
  "map_option ps_model_config (case parse_vllm_words tx [''vllm'', ''serve'', ''m'', ''--no-enable-prefix-caching''] of Inl _ \<Rightarrow> None | Inr p \<Rightarrow> Some p)
     = Some [(''model_tag'', JStr ''m''), (''no_enable_prefix_caching'', JBool True)]"
  by code_simp+

lemma lora_equals_is_text:
  "map_option ps_model_config (case parse_vllm_words demo_texts [''vllm'', ''serve'', ''m'', ''--lora-modules=a=b''] of Inl _ \<Rightarrow> None | Inr p \<Rightarrow> Some p)
     = Some [(''model_tag'', JStr ''m''), (''lora_modules'', JStr ''a=b'')]"
  by code_simp

lemma numeric_served_name_crashes:
  "parse_endpoint tx ''vllm serve m --served-model-name 4'' None n = Server_Error"
proof -
  have "parse_command tx ''vllm serve m --served-model-name 4'' None = Inl AttributeErr"
    by code_simp
  then show ?thesis by (simp add: parse_endpoint_def)
qed

text \<open>An instance id made by \<open>slug\<close> has letters, digits and dashes only, never the separator of a registry key.\<close>

lemma squash_chars: "set (squash r s) \<subseteq> {c. is_alnum c} \<union> {CHR ''-''}"
  by (induction r s rule: squash.induct) auto

lemma strip_dashes_subset: "set (strip_dashes s) \<subseteq> set s"
proof -
  have "set (dropWhile P xs) \<subseteq> set xs" for P and xs :: string
    using set_dropWhileD by (metis subsetI)
  then show ?thesis
    unfolding strip_dashes_def by (metis order_trans set_rev)
qed

lemma slug_chars: "set (slug s) \<subseteq> {c. is_alnum c} \<union> {CHR ''-''}"
proof -
  let ?x = "strip_dashes (squash False (str_lower (str_strip s)))"
  have "set ''inst'' \<subseteq> {c. is_alnum c} \<union> {CHR ''-''}"
    by (simp add: is_alnum_def is_alpha_def)
  moreover have "set ?x \<subseteq> {c. is_alnum c} \<union> {CHR ''-''}"
    by (rule order_trans [OF strip_dashes_subset squash_chars])
  moreover have "slug s = (if ?x = [] then ''inst'' else ?x)"
    by (simp only: slug_def Let_def)
  ultimately show ?thesis
    by presburger
qed

lemma slug_nonempty: "slug s \<noteq> []"
  by (simp add: slug_def Let_def)

end
