(* ===== verification/Alert_Tests.thy ===== *)
theory Alert_Tests
  imports Lifecycle
begin

text \<open>
  The test push of apps/backend/app/llmops/notifier.py (\<open>send_test\<close>) and its endpoint in api/alerts.py:
  a synthetic alert to one sink of the store or to all active ones.  The answer of a sink is a parameter.
\<close>

text \<open>What a post to a sink brings: a status of any kind, or an exception with its text.\<close>

datatype post_answer = Answered int | Post_Failed string

definition test_alert :: "string \<Rightarrow> alert" where
  "test_alert detail = \<lparr>al_event = ''test_alert'', al_severity = ''info'', al_model = ''(test)'', al_kind = ''-'', al_detail = Some detail, al_restarts = 0\<rparr>"

record test_result =
  te_type :: string
  te_ok :: bool
  te_error :: "string option"

definition send_one :: "(sink \<Rightarrow> post_answer) \<Rightarrow> sink \<Rightarrow> test_result" where
  "send_one post sk =
     (case post sk of
        Answered _ \<Rightarrow> \<lparr>te_type = si_type sk, te_ok = True, te_error = None\<rparr>
      | Post_Failed t \<Rightarrow> \<lparr>te_type = si_type sk, te_ok = False, te_error = Some t\<rparr>)"

definition send_test :: "(sink \<Rightarrow> post_answer) \<Rightarrow> sink list option \<Rightarrow> notifier \<Rightarrow> test_result list" where
  "send_test post sinks n = map (send_one post) (case sinks of None \<Rightarrow> no_sinks n | Some ss \<Rightarrow> ss)"

definition get_alert_sink_of :: "store option \<Rightarrow> int \<Rightarrow> sink option" where
  "get_alert_sink_of st i =
     (case st of None \<Rightarrow> None
      | Some s \<Rightarrow> map_option (\<lambda>r. \<lparr>si_type = sk_type r, si_url = sk_url r, si_min = sk_min_severity r\<rparr>) (get_alert_sink i s))"

text \<open>\<open>POST /alerts/test\<close>: \<open>Inl\<close> the status of a refusal.\<close>

definition test_sinks :: "(sink \<Rightarrow> post_answer) \<Rightarrow> int option \<Rightarrow> node \<Rightarrow> nat + test_result list" where
  "test_sinks post sid n =
     (case nd_notifier n of
        None \<Rightarrow> Inl 503
      | Some nt \<Rightarrow>
          (case sid of
             Some i \<Rightarrow> (case get_alert_sink_of (nd_store n) i of None \<Rightarrow> Inl 404 | Some sk \<Rightarrow> Inr (send_test post (Some [sk]) nt))
           | None \<Rightarrow> if no_sinks nt = [] then Inl 400 else Inr (send_test post None nt)))"

end
