(* ===== verification/Control_API.thy ===== *)
theory Control_API
  imports Model_Manager Run_Managers Control_Auth Autoscaler Downloads Vllm_Command Alert_Tests
begin

text \<open>
  The POST, PUT, PATCH and DELETE endpoints of the backend (apps/backend/app/api/*.py) behind the
  guards of core/auth.py and inside the two middlewares of core/audit.py and
  core/config_versioning.py; the one such endpoint without a guard, the logout of api/sso.py, only
  clears a cookie and is left out.  A \<open>route\<close> is an endpoint with its validated parameters; serving
  it is a function on the backend's state: the node of \<open>Model_Manager\<close> and the run managers of
  \<open>Run_Managers\<close> over one store, and the disk with the download managers of \<open>Downloads\<close>.  A reply
  is its status code; an exception that no handler catches is \<open>Crash\<close> (the server's 500, which the
  middlewares do not see).
\<close>

section \<open>Endpoints\<close>

datatype route =
    AuthVerify
  | CreateKey string "int option" "int option" string
  | RevokeKey int
  | CreateOperator string role
  | UpdateOperator int role
  | RotateOperator int
  | RevokeOperator int
  | CreateSink string string string
  | DeleteSink int
  | SetPrice string real real "string option"
  | DeletePrice string
  | ImportConfig root_cfg bool
  | RollbackConfig int bool
  | CreateModel string inst_cfg "(string, jval) dict" "(string, jval) dict option"
  | UpdateModel string inst_cfg "(string, jval) dict"
  | DeleteModel string
  | LoadLora string string string "string option"
  | UnloadLora string string
  | StartModel string bool
  | StopModel string
  | SleepModel string
  | WakeModel string
  | SetAutoscale string bool "(string, jval) dict"
  | SetFallback string "string list"
  | UpdateEmbedding string string "(string, jval) dict"
  | StartEval "(string, jval) dict"
  | CancelEval int
  | DeleteEval int
  | SetBudget int
  | StartPerf "(string, jval) dict"
  | CancelPerf int
  | DeletePerf int
  | TestSinks "int option"
  | ParseModel string "string option"
  | DownloadWeights string
  | DeleteCached string
  | DownloadDataset string
  | DeleteDataset string
  | DownloadAdapter string "string option"
  | DeleteAdapter string

text \<open>The method and the path of the request.\<close>

fun route_line :: "route \<Rightarrow> string \<times> string" where
  "route_line AuthVerify = (''POST'', ''/api/auth/verify'')"
| "route_line (CreateKey _ _ _ _) = (''POST'', ''/api/keys'')"
| "route_line (RevokeKey i) = (''DELETE'', ''/api/keys/'' @ show_int i)"
| "route_line (CreateOperator _ _) = (''POST'', ''/api/operators'')"
| "route_line (UpdateOperator i _) = (''PATCH'', ''/api/operators/'' @ show_int i)"
| "route_line (RotateOperator i) = (''POST'', ''/api/operators/'' @ show_int i @ ''/rotate'')"
| "route_line (RevokeOperator i) = (''DELETE'', ''/api/operators/'' @ show_int i)"
| "route_line (CreateSink _ _ _) = (''POST'', ''/api/alerts/sinks'')"
| "route_line (DeleteSink i) = (''DELETE'', ''/api/alerts/sinks/'' @ show_int i)"
| "route_line (SetPrice m _ _ _) = (''PUT'', ''/api/cost/prices/'' @ m)"
| "route_line (DeletePrice m) = (''DELETE'', ''/api/cost/prices/'' @ m)"
| "route_line (ImportConfig _ _) = (''POST'', ''/api/config/import'')"
| "route_line (RollbackConfig i _) = (''POST'', ''/api/config/versions/'' @ show_int i @ ''/rollback'')"
| "route_line (CreateModel _ _ _ _) = (''POST'', ''/api/models'')"
| "route_line (UpdateModel k _ _) = (''PUT'', ''/api/models/'' @ k)"
| "route_line (DeleteModel k) = (''DELETE'', ''/api/models/'' @ k)"
| "route_line (LoadLora k _ _ _) = (''POST'', ''/api/models/'' @ k @ ''/lora'')"
| "route_line (UnloadLora k a) = (''DELETE'', ''/api/models/'' @ k @ ''/lora/'' @ a)"
| "route_line (StartModel k _) = (''POST'', ''/api/models/'' @ k @ ''/start'')"
| "route_line (StopModel k) = (''POST'', ''/api/models/'' @ k @ ''/stop'')"
| "route_line (SleepModel k) = (''POST'', ''/api/models/'' @ k @ ''/sleep'')"
| "route_line (WakeModel k) = (''POST'', ''/api/models/'' @ k @ ''/wake'')"
| "route_line (SetAutoscale g _ _) = (''PUT'', ''/api/models/'' @ g @ ''/autoscale'')"
| "route_line (SetFallback g _) = (''PUT'', ''/api/models/'' @ g @ ''/fallback'')"
| "route_line (UpdateEmbedding _ _ _) = (''PUT'', ''/api/embedding/models'')"
| "route_line (StartEval _) = (''POST'', ''/api/eval'')"
| "route_line (CancelEval i) = (''POST'', ''/api/eval/'' @ show_int i @ ''/cancel'')"
| "route_line (DeleteEval i) = (''DELETE'', ''/api/eval/'' @ show_int i)"
| "route_line (SetBudget _) = (''PATCH'', ''/api/eval/config'')"
| "route_line (StartPerf _) = (''POST'', ''/api/perf'')"
| "route_line (CancelPerf i) = (''POST'', ''/api/perf/'' @ show_int i @ ''/cancel'')"
| "route_line (DeletePerf i) = (''DELETE'', ''/api/perf/'' @ show_int i)"
| "route_line (TestSinks _) = (''POST'', ''/api/alerts/test'')"
| "route_line (ParseModel _ _) = (''POST'', ''/api/models/parse'')"
| "route_line (DownloadWeights _) = (''POST'', ''/api/downloads'')"
| "route_line (DeleteCached repo) = (''DELETE'', ''/api/cache/'' @ repo)"
| "route_line (DownloadDataset _) = (''POST'', ''/api/datasets/download'')"
| "route_line (DeleteDataset k) = (''DELETE'', ''/api/datasets/'' @ k)"
| "route_line (DownloadAdapter _ _) = (''POST'', ''/api/lora/downloads'')"
| "route_line (DeleteAdapter name) = (''DELETE'', ''/api/lora/'' @ name)"

text \<open>The \<open>Depends(require_...)\<close> of the endpoint.\<close>

fun min_role :: "route \<Rightarrow> role" where
  "min_role AuthVerify = ADMIN"
| "min_role (CreateKey _ _ _ _) = ADMIN"
| "min_role (RevokeKey _) = ADMIN"
| "min_role (CreateOperator _ _) = ADMIN"
| "min_role (UpdateOperator _ _) = ADMIN"
| "min_role (RotateOperator _) = ADMIN"
| "min_role (RevokeOperator _) = ADMIN"
| "min_role (CreateSink _ _ _) = ADMIN"
| "min_role (DeleteSink _) = ADMIN"
| "min_role (SetPrice _ _ _ _) = ADMIN"
| "min_role (DeletePrice _) = ADMIN"
| "min_role (ImportConfig _ _) = ADMIN"
| "min_role (RollbackConfig _ _) = ADMIN"
| "min_role (TestSinks _) = ADMIN"
| "min_role _ = OPERATOR"

section \<open>Handlers\<close>

datatype reply = Reply nat | Crash

text \<open>
  The disk with the data sets and the adapters, the hub's cache as its scan finds it (\<open>None\<close>: the
  scan raises), and the three managers of background downloads.
\<close>

record depot =
  sh_files :: fsys
  sh_hub :: "cached_repo list option"
  sh_weights :: dlm
  sh_adapters :: dlm
  sh_datasets :: dlm

record backend =
  bk_node :: node
  bk_runs :: bench
  bk_depot :: depot

record api_env =
  ap_env :: env
  ap_ctl :: ctl_env
  ap_bench :: bench_env
  ap_texts :: texts
  ap_lora_root :: path
  ap_data_root :: path

text \<open>What the outside answers during the request.\<close>

record world =
  wd_random :: string
  wd_spawn :: bool
  wd_call :: bool
  wd_drain :: "string \<Rightarrow> drain_answer list"
  wd_load :: "string \<Rightarrow> post"
  wd_unload :: "string \<Rightarrow> post"
  wd_sink :: "sink \<Rightarrow> post_answer"
  wd_prune :: "string list \<Rightarrow> cached_repo list \<Rightarrow> cached_repo list option"

text \<open>\<open>request.app.state.store\<close> without one is an attribute error.\<close>

definition with_store :: "(store \<Rightarrow> reply \<times> store) \<Rightarrow> node \<Rightarrow> reply \<times> node" where
  "with_store f n =
     (case nd_store n of None \<Rightarrow> (Crash, n) | Some s \<Rightarrow> (case f s of (r, s1) \<Rightarrow> (r, n\<lparr>nd_store := Some s1\<rparr>)))"

definition found :: "nat \<Rightarrow> bool \<times> store \<Rightarrow> reply \<times> store" where
  "found ok r = (if fst r then Reply ok else Reply 404, snd r)"

text \<open>The exceptions each endpoint turns into a status; \<open>any\<close>: the others too.\<close>

definition caught :: "(mgr_err \<times> nat) list \<Rightarrow> nat option \<Rightarrow> nat \<Rightarrow> 'a res \<Rightarrow> reply \<times> node" where
  "caught statuses any ok r =
     (case r of
        (Inr _, n) \<Rightarrow> (Reply ok, n)
      | (Inl er, n) \<Rightarrow> (case map_of statuses er of
            Some c \<Rightarrow> (Reply c, n)
          | None \<Rightarrow> (case any of Some c \<Rightarrow> (Reply c, n) | None \<Rightarrow> (Crash, n))))"

definition is_autoscaled :: "node \<Rightarrow> string \<Rightarrow> bool" where
  "is_autoscaled n key =
     (case map_of (rc_engines (nd_config n)) (key_group key) of
        None \<Rightarrow> False
      | Some g \<Rightarrow> (case autoscale_of g of None \<Rightarrow> False | Some a \<Rightarrow> au_enabled a))"

definition by_hand :: "node \<Rightarrow> string \<Rightarrow> reply \<times> node \<Rightarrow> reply \<times> node" where
  "by_hand n key r = (if is_autoscaled n key then (Reply 409, n) else r)"

definition create_key :: "ctl_env \<Rightarrow> real \<Rightarrow> string \<Rightarrow> string \<Rightarrow> int option \<Rightarrow> int option \<Rightarrow> string \<Rightarrow> store \<Rightarrow> reply \<times> store" where
  "create_key ce now rnd name rpm quota period s =
     (case generate_api_key ce rnd of
        (plaintext, h, prefix) \<Rightarrow>
          (case create_api_key now (str_strip name) h prefix rpm quota (if quota = None then None else Some period) None s of
             None \<Rightarrow> (Crash, s) | Some (i, s1) \<Rightarrow> (Reply 201, s1)))"

definition mint_operator :: "ctl_env \<Rightarrow> real \<Rightarrow> string \<Rightarrow> string \<Rightarrow> role \<Rightarrow> store \<Rightarrow> reply \<times> store" where
  "mint_operator ce now rnd label r s =
     (case generate_operator_token ce rnd of
        (plaintext, h, prefix) \<Rightarrow>
          (case create_operator now (str_strip label) h prefix (role_text r) None s of
             None \<Rightarrow> (Crash, s) | Some (i, s1) \<Rightarrow> (Reply 201, s1)))"

definition rotate_operator :: "ctl_env \<Rightarrow> string \<Rightarrow> int \<Rightarrow> store \<Rightarrow> reply \<times> store" where
  "rotate_operator ce rnd i s =
     (case generate_operator_token ce rnd of
        (plaintext, h, prefix) \<Rightarrow>
          (case rotate_operator_token i h prefix s of None \<Rightarrow> (Crash, s) | Some r \<Rightarrow> found 200 r))"

text \<open>A change of the sinks refreshes the live notifier.\<close>

definition reload_sinks :: "env \<Rightarrow> reply \<times> node \<Rightarrow> reply \<times> node" where
  "reload_sinks e r =
     (case r of (rep, n) \<Rightarrow>
        (rep, if rep = Reply 404 \<or> rep = Crash then n
              else n\<lparr>nd_notifier := map_option (refresh_sinks (en_set e) (nd_store n)) (nd_notifier n)\<rparr>))"

text \<open>The payload of the autoscale form: the switch, the floor, and the fields that were given.\<close>

definition autoscale_payload :: "bool \<Rightarrow> (string, jval) dict \<Rightarrow> (string, jval) dict option" where
  "autoscale_payload enabled body =
     (if \<not> enabled then None
      else Some ([(''enabled'', JBool True), (''min_ready'', dget body ''min_ready'' (JInt 1))] @
        List.map_filter (\<lambda>f. if jget body f = JNull then None else Some (f, jget body f))
          [''max_ready'', ''min_warm'', ''scale_up_waiting'', ''scale_up_window_s'', ''sleep_after_s'', ''stop_after_s'', ''cooldown_s'']))"

definition on_runs :: "api_env \<Rightarrow> (bench_env \<Rightarrow> bench \<Rightarrow> reply \<times> bench) \<Rightarrow> backend \<Rightarrow> reply \<times> backend" where
  "on_runs ap f bk =
     (case nd_store (bk_node bk) of
        None \<Rightarrow> (Crash, bk)
      | Some s \<Rightarrow>
          (case f ((ap_bench ap)\<lparr>be_config := nd_config (bk_node bk)\<rparr>) ((bk_runs bk)\<lparr>bm_store := s\<rparr>) of
             (r, b) \<Rightarrow> (r, bk\<lparr>bk_node := (bk_node bk)\<lparr>nd_store := Some (bm_store b)\<rparr>, bk_runs := b\<rparr>)))"

definition started :: "(bench_err + int) \<times> bench \<Rightarrow> reply \<times> bench" where
  "started r = (case r of (Inr _, b) \<Rightarrow> (Reply 202, b) | (Inl Busy, b) \<Rightarrow> (Reply 409, b) | (Inl _, b) \<Rightarrow> (Reply 400, b))"

definition cancelled :: "bool \<times> bench \<Rightarrow> reply \<times> bench" where
  "cancelled r = (if fst r then Reply 200 else Reply 409, snd r)"

definition delete_row :: "(store \<Rightarrow> bool \<times> store) \<Rightarrow> bench \<Rightarrow> reply \<times> bench" where
  "delete_row f b = (case f (bm_store b) of (hit, s) \<Rightarrow> (if hit then Reply 204 else Reply 404, b\<lparr>bm_store := s\<rparr>))"

definition on_node :: "(node \<Rightarrow> reply \<times> node) \<Rightarrow> backend \<Rightarrow> reply \<times> backend" where
  "on_node f bk = (case f (bk_node bk) of (r, n) \<Rightarrow> (r, bk\<lparr>bk_node := n\<rparr>))"

definition on_depot :: "(depot \<Rightarrow> nat \<times> depot) \<Rightarrow> backend \<Rightarrow> reply \<times> backend" where
  "on_depot f bk = (case f (bk_depot bk) of (c, sh) \<Rightarrow> (Reply c, bk\<lparr>bk_depot := sh\<rparr>))"

text \<open>One definition per handler.\<close>

definition create_sink :: "env \<Rightarrow> real \<Rightarrow> string \<Rightarrow> string \<Rightarrow> string \<Rightarrow> node \<Rightarrow> reply \<times> node" where
  "create_sink e now ty url sev n =
     reload_sinks e (with_store (\<lambda>s. (Reply 201, snd (create_alert_sink now ty (str_strip url) sev None s))) n)"

definition delete_sink :: "env \<Rightarrow> int \<Rightarrow> node \<Rightarrow> reply \<times> node" where
  "delete_sink e i n = reload_sinks e (with_store (\<lambda>s. found 204 (delete_alert_sink i s)) n)"

definition set_price :: "ctl_settings \<Rightarrow> real \<Rightarrow> string \<Rightarrow> real \<Rightarrow> real \<Rightarrow> string option \<Rightarrow> node \<Rightarrow> reply \<times> node" where
  "set_price c now m inp outp cur n =
     (if nd_store n = None then (Reply 503, n)
      else with_store (\<lambda>s. (Reply 200, set_model_price now m inp outp
             (case cur of None \<Rightarrow> cs_currency c | Some x \<Rightarrow> if x = [] then cs_currency c else x) None s)) n)"

definition delete_price :: "string \<Rightarrow> node \<Rightarrow> reply \<times> node" where
  "delete_price m n = (if nd_store n = None then (Reply 503, n) else with_store (\<lambda>s. found 204 (delete_model_price m s)) n)"

definition request_text :: "route \<Rightarrow> string" where
  "request_text rt = fst (route_line rt) @ '' '' @ snd (route_line rt)"

definition import_config ::
  "env \<Rightarrow> real \<Rightarrow> (string \<Rightarrow> drain_answer list) \<Rightarrow> string option \<Rightarrow> string option \<Rightarrow> root_cfg \<Rightarrow> bool \<Rightarrow> node \<Rightarrow> reply \<times> node" where
  "import_config e now drain actor r ov force n =
     caught [(ConfigInvalid, 400), (ModelConflict, 409)] None 200
       (import_overlay e now drain force actor r (Some (request_text (ImportConfig ov force))) ov n)"

definition rollback_version ::
  "env \<Rightarrow> real \<Rightarrow> (string \<Rightarrow> drain_answer list) \<Rightarrow> string option \<Rightarrow> string option \<Rightarrow> int \<Rightarrow> bool \<Rightarrow> node \<Rightarrow> reply \<times> node" where
  "rollback_version e now drain actor r i force n =
     (case nd_store n of
        None \<Rightarrow> (Reply 503, n)
      | Some s \<Rightarrow>
          (case get_config_version i s of
             None \<Rightarrow> (Reply 404, n)
           | Some v \<Rightarrow>
               caught [(ConfigInvalid, 400), (ModelConflict, 409)] None 200
                 (import_overlay e now drain force actor r (Some (request_text (RollbackConfig i force))) (en_parse e (cv_overlay v)) n)))"

definition create_model ::
  "env \<Rightarrow> real \<Rightarrow> string \<Rightarrow> inst_cfg \<Rightarrow> (string, jval) dict \<Rightarrow> (string, jval) dict option \<Rightarrow> node \<Rightarrow> reply \<times> node" where
  "create_model e now grp i mc auto n =
     (if \<not> truthy (jget mc ''model_tag'') then (Reply 400, n)
      else caught [(ModelConflict, 409)] (Some 400) 201 (create_overlay_model e now grp i mc auto n))"

definition update_model :: "env \<Rightarrow> real \<Rightarrow> string \<Rightarrow> inst_cfg \<Rightarrow> (string, jval) dict \<Rightarrow> node \<Rightarrow> reply \<times> node" where
  "update_model e now key i mc n =
     (if \<not> truthy (jget mc ''model_tag'') then (Reply 400, n)
      else caught [(ModelNotFound, 404), (ModelConflict, 409)] (Some 400) 200 (update_overlay_model e now key i mc n))"

definition delete_model :: "env \<Rightarrow> string \<Rightarrow> node \<Rightarrow> reply \<times> node" where
  "delete_model e key n = caught [(ModelNotFound, 404), (ModelConflict, 409)] None 204 (delete_overlay_model e key n)"

definition load_lora_endpoint :: "env \<Rightarrow> world \<Rightarrow> string \<Rightarrow> string \<Rightarrow> string \<Rightarrow> string option \<Rightarrow> node \<Rightarrow> reply \<times> node" where
  "load_lora_endpoint e w key name path base n =
     caught [(ModelNotFound, 404), (ModelConflict, 409), (LoraRuntimeError, 502)] None 200
       (load_lora e (wd_load w) (wd_unload w) (key_group key) name path base n)"

definition unload_lora_endpoint :: "env \<Rightarrow> world \<Rightarrow> string \<Rightarrow> string \<Rightarrow> node \<Rightarrow> reply \<times> node" where
  "unload_lora_endpoint e w key name n =
     caught [(ModelNotFound, 404), (ModelConflict, 409)] None 200 (unload_lora e (wd_unload w) (key_group key) name n)"

definition start_model :: "env \<Rightarrow> real \<Rightarrow> bool \<Rightarrow> bool \<Rightarrow> string \<Rightarrow> node \<Rightarrow> reply \<times> node" where
  "start_model e now force spawn_ok key n =
     by_hand n key (caught [(ModelNotFound, 404), (ModelAlreadyRunning, 409), (VRAMInsufficient, 409), (GpuUnavailable, 409)] None 202
       (start e now force True spawn_ok key n))"

definition stop_model :: "env \<Rightarrow> real \<Rightarrow> (string \<Rightarrow> drain_answer list) \<Rightarrow> string \<Rightarrow> node \<Rightarrow> reply \<times> node" where
  "stop_model e now drain key n = by_hand n key (caught [(ModelNotFound, 404)] None 202 (stop e now (drain key) key n))"

definition sleep_model :: "env \<Rightarrow> real \<Rightarrow> bool \<Rightarrow> string \<Rightarrow> node \<Rightarrow> reply \<times> node" where
  "sleep_model e now call_ok key n =
     by_hand n key (caught [(ModelNotFound, 404), (ModelConflict, 409), (SleepError, 502)] None 200 (sleep e now call_ok key n))"

definition wake_model :: "env \<Rightarrow> real \<Rightarrow> bool \<Rightarrow> string \<Rightarrow> node \<Rightarrow> reply \<times> node" where
  "wake_model e now call_ok key n =
     by_hand n key (caught [(ModelNotFound, 404), (ModelConflict, 409), (SleepError, 502)] None 200 (wake e now call_ok key n))"

definition set_group_autoscale :: "env \<Rightarrow> string \<Rightarrow> bool \<Rightarrow> (string, jval) dict \<Rightarrow> node \<Rightarrow> reply \<times> node" where
  "set_group_autoscale e g enabled body n =
     caught [(ModelNotFound, 404)] (Some 400) 200 (set_autoscale e g (autoscale_payload enabled body) n)"

definition set_group_fallback :: "env \<Rightarrow> string \<Rightarrow> string list \<Rightarrow> node \<Rightarrow> reply \<times> node" where
  "set_group_fallback e g names n =
     caught [(ModelNotFound, 404), (ModelConflict, 409)] (Some 400) 200 (set_fallback e g names n)"

definition edit_embedding :: "env \<Rightarrow> string \<Rightarrow> string \<Rightarrow> (string, jval) dict \<Rightarrow> node \<Rightarrow> reply \<times> node" where
  "edit_embedding e ty name params n =
     caught [(ModelNotFound, 404), (ModelConflict, 409)] (Some 400) 200 (update_embedding_model e ty name params n)"

definition start_eval :: "real \<Rightarrow> (string, jval) dict \<Rightarrow> bench_env \<Rightarrow> bench \<Rightarrow> reply \<times> bench" where
  "start_eval now req be b = (if eval_refusal req \<noteq> None then (Reply 400, b) else started (eval_start be now req b))"

definition set_config :: "real \<Rightarrow> int \<Rightarrow> bench_env \<Rightarrow> bench \<Rightarrow> reply \<times> bench" where
  "set_config now k be b = (case set_budget be now k b of (None, b1) \<Rightarrow> (Reply 200, b1) | (Some _, b1) \<Rightarrow> (Crash, b1))"

definition start_perf :: "real \<Rightarrow> (string, jval) dict \<Rightarrow> bench_env \<Rightarrow> bench \<Rightarrow> reply \<times> bench" where
  "start_perf now req be b = (if perf_refusal req \<noteq> None then (Reply 400, b) else started (perf_start be now req b))"

text \<open>The lookup of a sink without a store is an attribute error.\<close>

definition test_alerts :: "(sink \<Rightarrow> post_answer) \<Rightarrow> int option \<Rightarrow> node \<Rightarrow> reply \<times> node" where
  "test_alerts post sid n =
     (if nd_notifier n \<noteq> None \<and> sid \<noteq> None \<and> nd_store n = None then (Crash, n)
      else (case test_sinks post sid n of Inl c \<Rightarrow> (Reply c, n) | Inr _ \<Rightarrow> (Reply 200, n)))"

definition parse_model :: "texts \<Rightarrow> string \<Rightarrow> string option \<Rightarrow> node \<Rightarrow> reply \<times> node" where
  "parse_model tx command engine n =
     (case parse_endpoint tx command engine n of
        Parsed _ _ _ \<Rightarrow> (Reply 200, n) | Bad_Request \<Rightarrow> (Reply 400, n) | Server_Error \<Rightarrow> (Crash, n))"

definition start_weights_download :: "real \<Rightarrow> string \<Rightarrow> depot \<Rightarrow> nat \<times> depot" where
  "start_weights_download now repo sh =
     (case download_status (start_weights now repo (sh_weights sh)) of (c, m) \<Rightarrow> (c, sh\<lparr>sh_weights := m\<rparr>))"

definition start_dataset_download :: "real \<Rightarrow> string \<Rightarrow> depot \<Rightarrow> nat \<times> depot" where
  "start_dataset_download now key sh =
     (case download_status (start_dataset now key (sh_datasets sh)) of (c, m) \<Rightarrow> (c, sh\<lparr>sh_datasets := m\<rparr>))"

definition start_adapter_download :: "real \<Rightarrow> path \<Rightarrow> string \<Rightarrow> string option \<Rightarrow> depot \<Rightarrow> nat \<times> depot" where
  "start_adapter_download now base repo name sh =
     (case download_status (start_adapter now base repo name (sh_adapters sh)) of (c, m) \<Rightarrow> (c, sh\<lparr>sh_adapters := m\<rparr>))"

text \<open>\<open>prune\<close>: what the hub's \<open>delete_revisions\<close> leaves of its cache, \<open>None\<close> when it raises.\<close>

definition delete_cached_model ::
  "(string list \<Rightarrow> cached_repo list \<Rightarrow> cached_repo list option) \<Rightarrow> string \<Rightarrow> depot \<Rightarrow> nat \<times> depot" where
  "delete_cached_model prune repo sh =
     (case sh_hub sh of
        None \<Rightarrow> (500, sh)
      | Some rs \<Rightarrow>
          (let hashes = repo_revisions repo rs in
           if hashes = [] then (404, sh)
           else case prune hashes rs of None \<Rightarrow> (500, sh) | Some rs' \<Rightarrow> (204, sh\<lparr>sh_hub := Some rs'\<rparr>)))"

definition remove_dataset :: "path \<Rightarrow> string \<Rightarrow> depot \<Rightarrow> nat \<times> depot" where
  "remove_dataset base key sh = (case delete_dataset_status base key (sh_files sh) of (c, fs) \<Rightarrow> (c, sh\<lparr>sh_files := fs\<rparr>))"

definition remove_adapter :: "path \<Rightarrow> string \<Rightarrow> depot \<Rightarrow> nat \<times> depot" where
  "remove_adapter base name sh = (case delete_adapter_status base name (sh_files sh) of (c, fs) \<Rightarrow> (c, sh\<lparr>sh_files := fs\<rparr>))"

lemmas endpoint_defs = create_sink_def delete_sink_def set_price_def delete_price_def import_config_def rollback_version_def
  create_model_def update_model_def delete_model_def load_lora_endpoint_def unload_lora_endpoint_def start_model_def
  stop_model_def sleep_model_def wake_model_def set_group_autoscale_def set_group_fallback_def edit_embedding_def

text \<open>The dispatch.\<close>

fun serve_node ::
  "api_env \<Rightarrow> world \<Rightarrow> real \<Rightarrow> string option \<Rightarrow> string option \<Rightarrow> route \<Rightarrow> node \<Rightarrow> reply \<times> node" where
  "serve_node ap w now actor r AuthVerify n = (Reply 200, n)"
| "serve_node ap w now actor r (CreateKey name rpm quota period) n =
     with_store (create_key (ap_ctl ap) now (wd_random w) name rpm quota period) n"
| "serve_node ap w now actor r (RevokeKey i) n = with_store (\<lambda>s. found 204 (revoke_api_key i s)) n"
| "serve_node ap w now actor r (CreateOperator label ro) n =
     with_store (mint_operator (ap_ctl ap) now (wd_random w) label ro) n"
| "serve_node ap w now actor r (UpdateOperator i ro) n = with_store (\<lambda>s. found 200 (set_operator_role i (role_text ro) s)) n"
| "serve_node ap w now actor r (RotateOperator i) n = with_store (rotate_operator (ap_ctl ap) (wd_random w) i) n"
| "serve_node ap w now actor r (RevokeOperator i) n = with_store (\<lambda>s. found 204 (revoke_operator i s)) n"
| "serve_node ap w now actor r (CreateSink ty url sev) n = create_sink (ap_env ap) now ty url sev n"
| "serve_node ap w now actor r (DeleteSink i) n = delete_sink (ap_env ap) i n"
| "serve_node ap w now actor r (SetPrice m inp outp cur) n = set_price (ce_set (ap_ctl ap)) now m inp outp cur n"
| "serve_node ap w now actor r (DeletePrice m) n = delete_price m n"
| "serve_node ap w now actor r (ImportConfig ov force) n = import_config (ap_env ap) now (wd_drain w) actor r ov force n"
| "serve_node ap w now actor r (RollbackConfig i force) n = rollback_version (ap_env ap) now (wd_drain w) actor r i force n"
| "serve_node ap w now actor r (CreateModel grp i mc auto) n = create_model (ap_env ap) now grp i mc auto n"
| "serve_node ap w now actor r (UpdateModel key i mc) n = update_model (ap_env ap) now key i mc n"
| "serve_node ap w now actor r (DeleteModel key) n = delete_model (ap_env ap) key n"
| "serve_node ap w now actor r (LoadLora key name path base) n = load_lora_endpoint (ap_env ap) w key name path base n"
| "serve_node ap w now actor r (UnloadLora key name) n = unload_lora_endpoint (ap_env ap) w key name n"
| "serve_node ap w now actor r (StartModel key force) n = start_model (ap_env ap) now force (wd_spawn w) key n"
| "serve_node ap w now actor r (StopModel key) n = stop_model (ap_env ap) now (wd_drain w) key n"
| "serve_node ap w now actor r (SleepModel key) n = sleep_model (ap_env ap) now (wd_call w) key n"
| "serve_node ap w now actor r (WakeModel key) n = wake_model (ap_env ap) now (wd_call w) key n"
| "serve_node ap w now actor r (SetAutoscale g enabled body) n = set_group_autoscale (ap_env ap) g enabled body n"
| "serve_node ap w now actor r (SetFallback g names) n = set_group_fallback (ap_env ap) g names n"
| "serve_node ap w now actor r (UpdateEmbedding ty name params) n = edit_embedding (ap_env ap) ty name params n"
| "serve_node ap w now actor r (TestSinks sid) n = test_alerts (wd_sink w) sid n"
| "serve_node ap w now actor r (ParseModel command engine) n = parse_model (ap_texts ap) command engine n"
| "serve_node ap w now actor r _ n = (Crash, n)"

text \<open>The endpoints of the runs and of the disk; the others are the node's.\<close>

fun serve :: "api_env \<Rightarrow> world \<Rightarrow> real \<Rightarrow> string option \<Rightarrow> string option \<Rightarrow> route \<Rightarrow> backend \<Rightarrow> reply \<times> backend" where
  "serve ap w now actor r (StartEval req) bk = on_runs ap (start_eval now req) bk"
| "serve ap w now actor r (CancelEval i) bk = on_runs ap (\<lambda>be b. cancelled (eval_cancel now i b)) bk"
| "serve ap w now actor r (DeleteEval i) bk = on_runs ap (\<lambda>be. delete_row (delete_eval_run i)) bk"
| "serve ap w now actor r (SetBudget k) bk = on_runs ap (set_config now k) bk"
| "serve ap w now actor r (StartPerf req) bk = on_runs ap (start_perf now req) bk"
| "serve ap w now actor r (CancelPerf i) bk = on_runs ap (\<lambda>be b. cancelled (perf_cancel i b)) bk"
| "serve ap w now actor r (DeletePerf i) bk = on_runs ap (\<lambda>be. delete_row (delete_perf_run i)) bk"
| "serve ap w now actor r (DownloadWeights repo) bk = on_depot (start_weights_download now repo) bk"
| "serve ap w now actor r (DeleteCached repo) bk = on_depot (delete_cached_model (wd_prune w) repo) bk"
| "serve ap w now actor r (DownloadDataset key) bk = on_depot (start_dataset_download now key) bk"
| "serve ap w now actor r (DeleteDataset key) bk = on_depot (remove_dataset (ap_data_root ap) key) bk"
| "serve ap w now actor r (DownloadAdapter repo name) bk = on_depot (start_adapter_download now (ap_lora_root ap) repo name) bk"
| "serve ap w now actor r (DeleteAdapter name) bk = on_depot (remove_adapter (ap_lora_root ap) name) bk"
| "serve ap w now actor r rt bk = on_node (serve_node ap w now actor r rt) bk"

section \<open>The request\<close>

definition bk_store :: "backend \<Rightarrow> store option" where
  "bk_store bk = nd_store (bk_node bk)"

definition set_store :: "store option \<Rightarrow> backend \<Rightarrow> backend" where
  "set_store st bk = bk\<lparr>bk_node := (bk_node bk)\<lparr>nd_store := st\<rparr>\<rparr>"

text \<open>Guard, then handler; the identity is what the guard left on the request.\<close>

definition guarded ::
  "api_env \<Rightarrow> world \<Rightarrow> real \<Rightarrow> web_request \<Rightarrow> route \<Rightarrow> backend \<Rightarrow> reply \<times> (string option \<times> role option) \<times> backend" where
  "guarded ap w now rq rt bk =
     (case require_role (ap_ctl ap) now (min_role rt) rq (bk_store bk) of
        (Inl x, who, st) \<Rightarrow> (Reply (hx_status x), who, set_store st bk)
      | (Inr _, who, st) \<Rightarrow>
          (case serve ap w now (fst who) (map_option role_text (snd who)) rt (set_store st bk) of
             (r, bk1) \<Rightarrow> (r, who, bk1)))"

definition MUTATING :: "string list" where
  "MUTATING = [''POST'', ''PUT'', ''PATCH'', ''DELETE'']"

definition recorded :: "string \<Rightarrow> string \<Rightarrow> bool" where
  "recorded meth path = (meth \<in> set MUTATING \<and> starts_with ''/api/'' path \<and> path \<noteq> ''/api/auth/verify'')"

definition actor_name :: "string option \<Rightarrow> string" where
  "actor_name a = (case a of None \<Rightarrow> ''anonymous'' | Some s \<Rightarrow> if s = [] then ''anonymous'' else s)"

definition audited ::
  "api_env \<Rightarrow> world \<Rightarrow> real \<Rightarrow> web_request \<Rightarrow> route \<Rightarrow> backend \<Rightarrow> reply \<times> (string option \<times> role option) \<times> backend" where
  "audited ap w now rq rt bk =
     (case route_line rt of (meth, path) \<Rightarrow>
      case guarded ap w now rq rt bk of
        (Crash, who, bk1) \<Rightarrow> (Crash, who, bk1)
      | (Reply c, who, bk1) \<Rightarrow>
          (Reply c, who,
           if recorded meth path then
             bk1\<lparr>bk_node := on_store (record_audit now None
               \<lparr>au_ts = 0, au_actor = actor_name (fst who), au_role = map_option role_text (snd who), au_method = meth,
                au_path = path, au_target = extract_target path, au_status = int c,
                au_detail = redact_body (ap_ctl ap) (wr_body rq) (wr_type rq), au_ip = wr_ip rq\<rparr>) (bk_node bk1)\<rparr>
           else bk1))"

definition overlay_hash :: "env \<Rightarrow> node \<Rightarrow> string" where
  "overlay_hash e n = en_sha e (en_dump e (nd_overlay n))"

text \<open>The outermost middleware: a version of the overlay for every request that changed it.\<close>

definition handle :: "api_env \<Rightarrow> world \<Rightarrow> real \<Rightarrow> web_request \<Rightarrow> route \<Rightarrow> backend \<Rightarrow> reply \<times> backend" where
  "handle ap w now rq rt bk =
     (case route_line rt of (meth, path) \<Rightarrow>
      case audited ap w now rq rt bk of
        (Crash, who, bk1) \<Rightarrow> (Crash, bk1)
      | (Reply c, who, bk1) \<Rightarrow>
          (Reply c,
           if meth \<in> set MUTATING \<and> starts_with ''/api/'' path \<and> c < 400 \<and>
              overlay_hash (ap_env ap) (bk_node bk1) \<noteq> overlay_hash (ap_env ap) (bk_node bk)
           then bk1\<lparr>bk_node := on_store (snapshot_overlay (ap_env ap) now (Some (actor_name (fst who)))
                  (map_option role_text (snd who)) (Some (meth @ '' '' @ path)) (nd_overlay (bk_node bk1))) (bk_node bk1)\<rparr>
           else bk1))"

end
