(* ===== verification/Control_Trail.thy ===== *)
theory Control_Trail
  imports Control_API
begin

text \<open>
  What the guards and the two middlewares of the control API guarantee: a request without the role of
  its endpoint changes nothing but the audit log, every answered change is audited once under the
  caller's name, and the version history follows the overlay.
\<close>

section \<open>Handlers leave the two histories alone\<close>

definition histories :: "node \<Rightarrow> (audit_row table \<times> version_row table) option" where
  "histories n = map_option (\<lambda>s. (so_audit s, so_versions s)) (nd_store n)"

named_theorems trail

lemma histories_fields [simp]:
  "histories (n\<lparr>nd_reg := a\<rparr>) = histories n" "histories (n\<lparr>nd_procs := b\<rparr>) = histories n"
  "histories (n\<lparr>nd_next_pid := c\<rparr>) = histories n" "histories (n\<lparr>nd_notifier := d\<rparr>) = histories n"
  "histories (n\<lparr>nd_config := f\<rparr>) = histories n" "histories (n\<lparr>nd_overlay := g\<rparr>) = histories n"
  "histories (n\<lparr>nd_log := h\<rparr>) = histories n"
  by (simp_all add: histories_def)

definition quiet_on :: "(store \<Rightarrow> store) \<Rightarrow> bool" where
  "quiet_on f = (\<forall>s. so_audit (f s) = so_audit s \<and> so_versions (f s) = so_versions s)"

lemma histories_on_store: "quiet_on f \<Longrightarrow> histories (on_store f n) = histories n"
  by (cases "nd_store n") (simp_all add: histories_def on_store_def quiet_on_def)

lemma quiet_ops [simp]:
  "quiet_on (record_model_event now k kd a b d ts)"
  "quiet_on (\<lambda>s. if c then delete_assignment k (set_instance_desired now k v ts s) else set_instance_desired now k v ts s)"
  "quiet_on (\<lambda>s. if c then set_assignment now k x ts2 (set_instance_desired now k v ts s) else set_instance_desired now k v ts s)"
  "quiet_on (\<lambda>s. delete_assignment k (delete_instance_desired k s))"
  by (simp_all add: quiet_on_def record_model_event_def set_instance_desired_def delete_assignment_def
      set_assignment_def delete_instance_desired_def Let_def)

lemma histories_steps [simp]:
  "histories (on_inst key g n) = histories n"
  "histories (log_call c n) = histories n"
  "histories (emit_transition se now key frm to_state detail n) = histories n"
  "histories (persist_desired e now key d n) = histories n"
  "histories (defer_to_owner now key d n) = histories n"
  "histories (terminate_process_group pid n) = histories n"
  "histories (trigger_router_reload e n) = histories n"
  "histories (undrain_instance e key n) = histories n"
  by (simp_all add: on_inst_def log_call_def emit_transition_def persist_desired_def defer_to_owner_def
      terminate_process_group_def trigger_router_reload_def undrain_instance_def histories_on_store Let_def
      split: option.split)

lemma histories_drain [simp]: "histories (drain_instance e key now answers n) = histories n"
proof -
  have "histories ((log_call c ^^ k) n) = histories n" for c k by (induction k) simp_all
  then show ?thesis by (simp add: drain_instance_def)
qed

lemma histories_spawn [simp]: "spawn_process key n = (pid, n1) \<Longrightarrow> histories n1 = histories n"
  by (auto simp: spawn_process_def)

lemma histories_start [trail]: "histories (snd (start e now force reset ok key n)) = histories n"
  by (auto simp: start_def start_begin_def start_finish_def start_failed_def split: option.split sum.split prod.split)

lemma histories_stop [trail]: "histories (snd (stop e now answers key n)) = histories n"
  by (auto simp: stop_def stop_begin_def stop_kill_def stop_finish_def Let_def split: option.split prod.split)

lemma histories_sleep [trail]: "histories (snd (sleep e now ok key n)) = histories n"
  by (auto simp: sleep_def sleep_begin_def sleep_failed_def sleep_finish_def split: option.split sum.split prod.split)

lemma histories_wake [trail]: "histories (snd (wake e now ok key n)) = histories n"
  by (auto simp: wake_def wake_begin_def wake_failed_def wake_finish_def split: option.split sum.split prod.split)

lemma histories_commit: "commit_overlay e ov n = Some n1 \<Longrightarrow> histories n1 = histories n"
  by (auto simp: commit_overlay_def)

lemma histories_autoscale [trail]: "histories (snd (set_autoscale e g pol n)) = histories n"
  by (auto simp: set_autoscale_def Let_def histories_commit split: option.split)

lemma histories_fallback [trail]: "histories (snd (set_fallback e g names n)) = histories n"
  by (auto simp: set_fallback_def Let_def histories_commit split: option.split)

lemma histories_create [trail]: "histories (snd (create_overlay_model e now g i mc a n)) = histories n"
  by (auto simp: create_overlay_model_def Let_def histories_commit split: option.split sum.split)

lemma histories_update [trail]: "histories (snd (update_overlay_model e now key i mc n)) = histories n"
  by (auto simp: update_overlay_model_def Let_def histories_commit split: option.split sum.split)

lemma histories_delete [trail]: "histories (snd (delete_overlay_model e key n)) = histories n"
  by (auto simp: delete_overlay_model_def Let_def histories_on_store split: option.split)

lemma histories_embedding [trail]: "histories (snd (update_embedding_model e ty name params n)) = histories n"
  by (auto simp: update_embedding_model_def Let_def histories_commit split: option.split)

lemma histories_load_all: "load_all name out is loaded n = (r, n1) \<Longrightarrow> histories n1 = histories n"
  by (induction name out "is" loaded n rule: load_all.induct) (auto split: post.splits)

lemma histories_unload_each [simp]: "histories (unload_each name out ks n) = histories n"
  unfolding unload_each_def by (induction ks arbitrary: n) auto

lemma histories_persist_lora: "persist_lora e g name entry n = Some n1 \<Longrightarrow> histories n1 = histories n"
  by (auto simp: persist_lora_def Let_def histories_commit split: option.splits)

lemma histories_load_lora [trail]: "histories (snd (load_lora e out undo g name path base n)) = histories n"
proof -
  obtain loaded er n1 where l: "load_all name out (ready_lora_targets g n) [] n = ((loaded, er), n1)" by (metis prod.exhaust)
  then have h: "histories n1 = histories n" by (rule histories_load_all)
  show ?thesis
  proof (cases er)
    case None
    then show ?thesis by (auto simp: load_lora_def Let_def l h dest: histories_persist_lora split: option.split)
  next
    case (Some x)
    then show ?thesis by (cases x) (simp_all add: load_lora_def Let_def l h split: option.split)
  qed
qed

lemma histories_unload_lora [trail]: "histories (snd (unload_lora e out g name n)) = histories n"
  by (auto simp: unload_lora_def Let_def dest: histories_persist_lora split: option.split)

lemma histories_resync: "resync_registry e now cfg n = (r, n1) \<Longrightarrow> histories n1 = histories n \<and> nd_overlay n1 = nd_overlay n"
  by (auto simp: resync_registry_def Let_def split: option.splits)

lemma histories_stops: "histories (fold (\<lambda>k m. snd (stop e now (answers k) k m)) ks n) = histories n"
  by (induction ks arbitrary: n) (simp_all add: trail)

text \<open>An import keeps the audit log; the versions it leaves are the old ones or those with its overlay recorded.\<close>

definition version_step :: "env \<Rightarrow> node \<Rightarrow> node \<Rightarrow> bool" where
  "version_step e n n1 =
     (map_option so_audit (nd_store n1) = map_option so_audit (nd_store n) \<and>
      (map_option so_versions (nd_store n1) = map_option so_versions (nd_store n) \<or>
       (\<exists>now a r t s. nd_store n = Some s \<and>
          map_option so_versions (nd_store n1) = Some (so_versions (snapshot_overlay e now a r t (nd_overlay n1) s)))))"

lemma histories_step: "histories n1 = histories n \<Longrightarrow> version_step e n n1"
  by (cases "nd_store n"; cases "nd_store n1") (auto simp: histories_def version_step_def)

lemma snapshot_same_versions:
  "so_versions s = so_versions s' \<Longrightarrow>
   so_versions (snapshot_overlay e now a r t ov s) = so_versions (snapshot_overlay e now a r t ov s')"
  "so_audit (snapshot_overlay e now a r t ov s) = so_audit s"
  by (auto simp: snapshot_overlay_def record_config_version_def latest_config_version_hash_def tinsert_def Let_def)

lemma version_step_cong:
  assumes "histories n2 = histories n1" "nd_overlay n2 = nd_overlay n1" "version_step e n n1"
  shows "version_step e n n2"
  using assms by (cases "nd_store n1"; cases "nd_store n2") (auto simp: histories_def version_step_def)

lemma version_step_from:
  assumes "histories n' = histories n" "version_step e n' n1"
  shows "version_step e n n1"
proof (cases "nd_store n")
  case (Some s)
  then obtain s' where s': "nd_store n' = Some s'" "so_audit s' = so_audit s" "so_versions s' = so_versions s"
    using assms(1) by (cases "nd_store n'") (auto simp: histories_def)
  have "so_versions (snapshot_overlay e now a r t ov s') = so_versions (snapshot_overlay e now a r t ov s)" for now a r t ov
    using s'(3) by (rule snapshot_same_versions)
  then show ?thesis using assms(2) Some s' by (simp add: version_step_def)
qed (use assms in \<open>auto simp: histories_def version_step_def\<close>)

lemma recorded_step:
  assumes "histories m = histories n"
  shows "version_step e n (on_store (snapshot_overlay e now a r t (nd_overlay m)) m)"
proof (cases "nd_store m")
  case (Some s)
  then obtain s' where s': "nd_store n = Some s'" "so_audit s = so_audit s'" "so_versions s = so_versions s'"
    using assms by (cases "nd_store n") (auto simp: histories_def)
  have "so_versions (snapshot_overlay e now a r t (nd_overlay m) s) = so_versions (snapshot_overlay e now a r t (nd_overlay m) s')"
    using s'(3) by (rule snapshot_same_versions)
  then show ?thesis using Some s' by (auto simp: version_step_def on_store_def snapshot_same_versions(2))
qed (use assms in \<open>auto simp: histories_def version_step_def on_store_def\<close>)

lemma import_step:
  assumes "import_overlay e now answers force actor r summary ov n = (res, n1)"
  shows "version_step e n n1"
proof -
  define stopped where "stopped busy cfg = (fold (\<lambda>k m. snd (stop e now (answers k) k m)) busy n)\<lparr>nd_overlay := ov, nd_config := cfg\<rparr>"
    for busy cfg
  have h: "histories (stopped busy cfg) = histories n" "nd_overlay (stopped busy cfg) = ov" for busy cfg
    by (simp_all add: stopped_def histories_stops)
  define snapped where "snapped busy cfg =
      (if nd_pg n then on_store (snapshot_overlay e now actor r summary ov) (stopped busy cfg) else stopped busy cfg)" for busy cfg
  have step: "version_step e n (snapped busy cfg)" for busy cfg
    using recorded_step [OF h(1) [of busy cfg]] histories_step [OF h(1) [of busy cfg]] by (simp add: snapped_def h(2))
  have "version_step e n m" if "resync_registry e now cfg (snapped busy cfg) = (x, m)" for busy cfg x m
    using histories_resync [OF that] step by (blast intro: version_step_cong)
  moreover have "version_step e n (trigger_router_reload e m)" if "version_step e n m" for m
    using that by (rule version_step_cong [rotated 2]) (simp_all add: trigger_router_reload_def log_call_def)
  moreover have "import_overlay e now answers force actor r summary ov n =
      (case build_merged_config (en_valid e) (en_base e) ov of
         None \<Rightarrow> (Inl ConfigInvalid, n)
       | Some cfg \<Rightarrow>
           (case resolve_specs e cfg of
              None \<Rightarrow> (Inl LauncherKeyError, n)
            | Some want \<Rightarrow>
                if import_busy want n \<noteq> [] \<and> \<not> force then (Inl ModelConflict, n)
                else (case resync_registry e now cfg (snapped (import_busy want n) cfg) of
                        (Inl er, n4) \<Rightarrow> (Inl er, n4)
                      | (Inr sy, n4) \<Rightarrow> (Inr sy, trigger_router_reload e n4))))"
    unfolding import_overlay_def snapped_def stopped_def Let_def by (rule refl)
  ultimately show ?thesis
    using assms histories_step [OF refl, of e n]
    by (auto split: option.splits if_split_asm prod.splits sum.splits)
qed

section \<open>Every endpoint\<close>

lemma caught_node [simp]: "snd (caught statuses any ok r) = snd r"
  by (cases r; cases "fst r") (auto simp: caught_def split: option.split)

lemma by_hand_step: "version_step e n (snd r) \<Longrightarrow> version_step e n (snd (by_hand n key r))"
  by (simp add: by_hand_def histories_step)

lemma with_store_histories:
  assumes "\<And>s. so_audit (snd (f s)) = so_audit s \<and> so_versions (snd (f s)) = so_versions s"
  shows "histories (snd (with_store f n)) = histories n"
  using assms by (auto simp: with_store_def histories_def split: option.split prod.split) (metis snd_conv)+

lemma reload_histories [simp]: "histories (snd (reload_sinks e r)) = histories (snd r)"
  by (auto simp: reload_sinks_def split: prod.split)

lemma store_histories:
  "so_audit (snd (create_key ce now rnd name rpm quota period s)) = so_audit s \<and>
   so_versions (snd (create_key ce now rnd name rpm quota period s)) = so_versions s"
  "so_audit (snd (mint_operator ce now rnd label ro s)) = so_audit s \<and>
   so_versions (snd (mint_operator ce now rnd label ro s)) = so_versions s"
  "so_audit (snd (rotate_operator ce rnd i s)) = so_audit s \<and> so_versions (snd (rotate_operator ce rnd i s)) = so_versions s"
  "so_audit (snd (found c (revoke_api_key i s))) = so_audit s \<and> so_versions (snd (found c (revoke_api_key i s))) = so_versions s"
  "so_audit (snd (found c (set_operator_role i x s))) = so_audit s \<and>
   so_versions (snd (found c (set_operator_role i x s))) = so_versions s"
  "so_audit (snd (found c (revoke_operator i s))) = so_audit s \<and> so_versions (snd (found c (revoke_operator i s))) = so_versions s"
  "so_audit (snd (found c (delete_alert_sink i s))) = so_audit s \<and> so_versions (snd (found c (delete_alert_sink i s))) = so_versions s"
  "so_audit (snd (found c (delete_model_price x s))) = so_audit s \<and>
   so_versions (snd (found c (delete_model_price x s))) = so_versions s"
  by (auto simp: create_key_def generate_api_key_def create_api_key_def mint_operator_def generate_operator_token_def
      create_operator_def rotate_operator_def rotate_operator_token_def found_def revoke_api_key_def set_operator_role_def
      revoke_operator_def delete_alert_sink_def delete_model_price_def Let_def case_prod_unfold)

lemma read_only_endpoints [simp]:
  "snd (test_alerts post sid n) = n" "snd (parse_model tx command engine n) = n"
  by (auto simp: test_alerts_def parse_model_def split: sum.split parse_reply.split)

lemma serve_node_step: "version_step (ap_env ap) n (snd (serve_node ap w now actor r rt n))"
proof (cases rt)
  case (ImportConfig ov force)
  then show ?thesis by (auto simp: import_config_def intro: import_step prod.collapse [symmetric])
next
  case (RollbackConfig i force)
  then show ?thesis
    by (auto simp: rollback_version_def histories_step intro: import_step prod.collapse [symmetric] split: option.split)
qed (auto intro!: histories_step by_hand_step
    simp: endpoint_defs trail with_store_histories store_histories create_alert_sink_def set_model_price_def Let_def case_prod_unfold)

definition bench_logs :: "bench \<Rightarrow> audit_row table \<times> version_row table" where
  "bench_logs b = (so_audit (bm_store b), so_versions (bm_store b))"

lemma logs_fields [simp]:
  "bench_logs (b\<lparr>bm_budget := k\<rparr>) = bench_logs b" "bench_logs (b\<lparr>bm_procs := x\<rparr>) = bench_logs b"
  "bench_logs (b\<lparr>bm_queued := x\<rparr>) = bench_logs b" "bench_logs (b\<lparr>bm_pending := p\<rparr>) = bench_logs b"
  "bench_logs (b\<lparr>bm_batch := t\<rparr>) = bench_logs b" "bench_logs (b\<lparr>bm_cancelled := x\<rparr>) = bench_logs b"
  "bench_logs (b\<lparr>bm_current := c\<rparr>) = bench_logs b" "bench_logs (b\<lparr>bm_perf_procs := x\<rparr>) = bench_logs b"
  "bench_logs (b\<lparr>bm_perf_cancelled := x\<rparr>) = bench_logs b" "bench_logs (b\<lparr>bm_runs := rs\<rparr>) = bench_logs b"
  by (simp_all add: bench_logs_def)

lemma logs_launch: "bench_logs (snd (eval_launch be now rid b)) = bench_logs b"
  by (auto simp: eval_launch_def Let_def bench_logs_def start_eval_run_def split: option.split sum.split)

lemma logs_pump: "bench_logs (snd (eval_pump be now b)) = bench_logs b"
proof (induction be now b rule: eval_pump.induct)
  case (1 be now b)
  show ?case
  proof (cases "bm_queued b")
    case (Cons rid rest)
    obtain er b1 where l: "eval_launch be now rid (b\<lparr>bm_queued := rest\<rparr>) = (er, b1)" by (metis prod.exhaust)
    then have "bench_logs b1 = bench_logs b" using logs_launch [of be now rid "b\<lparr>bm_queued := rest\<rparr>"] by simp
    then show ?thesis using 1 Cons l by (cases er) (auto simp: eval_pump.simps [of be now b])
  qed (simp add: eval_pump.simps [of be now b])
qed

lemma logs_store: "bench_logs (b\<lparr>bm_store := s\<rparr>) = (so_audit s, so_versions s)"
  by (simp add: bench_logs_def)

lemma logs_runs:
  "bench_logs (snd (eval_start be now req b)) = bench_logs b"
  "bench_logs (snd (eval_cancel now i b)) = bench_logs b"
  "bench_logs (snd (set_budget be now k b)) = bench_logs b"
  "bench_logs (snd (perf_start be now req b)) = bench_logs b"
  "bench_logs (snd (perf_cancel i b)) = bench_logs b"
  "bench_logs (snd (delete_row (delete_eval_run i) b)) = bench_logs b"
  "bench_logs (snd (delete_row (delete_perf_run i) b)) = bench_logs b"
proof -
  have pumped: "snd (case p of (Some er, b1) \<Rightarrow> (Inl er, b1) | (None, b1) \<Rightarrow> (Inr i, b1)) = snd p"
    for p :: "bench_err option \<times> bench" and i :: int
    by (cases p; cases "fst p") auto
  show "bench_logs (snd (eval_start be now req b)) = bench_logs b"
    by (auto simp: eval_start_def create_eval_run_def Let_def logs_pump pumped split: sum.split prod.split)
      (auto simp: bench_logs_def)
  show "bench_logs (snd (set_budget be now k b)) = bench_logs b" by (simp add: set_budget_def logs_pump)
  show "bench_logs (snd (perf_start be now req b)) = bench_logs b"
    by (auto simp: perf_start_def perf_begin_def perf_launch_def create_perf_run_def Let_def case_prod_unfold bench_logs_def
        split: sum.split option.split)
qed (auto simp: eval_cancel_def finish_eval_run_def perf_cancel_def delete_row_def delete_eval_run_def delete_perf_run_def
      bench_logs_def Let_def case_prod_unfold)

lemma on_runs_step:
  assumes "\<And>be b. bench_logs (snd (f be b)) = bench_logs b"
  shows "version_step e (bk_node bk) (bk_node (snd (on_runs ap f bk)))"
proof (cases "nd_store (bk_node bk)")
  case (Some s)
  obtain r b where f: "f ((ap_bench ap)\<lparr>be_config := nd_config (bk_node bk)\<rparr>) ((bk_runs bk)\<lparr>bm_store := s\<rparr>) = (r, b)"
    by (metis prod.exhaust)
  then have "bench_logs b = (so_audit s, so_versions s)" using assms by (metis logs_store snd_conv)
  then show ?thesis using Some f by (simp add: on_runs_def histories_step histories_def bench_logs_def)
qed (simp add: on_runs_def histories_step)

lemma started_logs [simp]: "snd (started r) = snd r" "snd (cancelled c) = snd c"
  by (auto simp: started_def cancelled_def split: prod.split sum.split bench_err.split)

lemma on_node_step: "version_step e (bk_node bk) (snd (f (bk_node bk))) \<Longrightarrow> version_step e (bk_node bk) (bk_node (snd (on_node f bk)))"
  by (simp add: on_node_def case_prod_unfold)

lemma on_depot_node [simp]: "bk_node (snd (on_depot f bk)) = bk_node bk"
  by (simp add: on_depot_def split: prod.split)

lemma serve_step: "version_step (ap_env ap) (bk_node bk) (bk_node (snd (serve ap w now actor r rt bk)))"
proof (cases rt)
  case (SetBudget k)
  have "bench_logs (snd (set_config now k be b)) = bench_logs b"
    for be b using logs_runs(3) [of be now k b]
    by (cases "set_budget be now k b"; cases "fst (set_budget be now k b)") (auto simp: set_config_def)
  then show ?thesis using SetBudget by (simp add: on_runs_step)
qed (auto intro!: on_runs_step on_node_step serve_node_step simp: histories_step logs_runs start_eval_def start_perf_def)

section \<open>The request\<close>

text \<open>Everything but the audit log and the operators' last use.\<close>

definition forget_log :: "store \<Rightarrow> store" where
  "forget_log s = (forget_use s)\<lparr>so_audit := empty_table\<rparr>"

definition unlogged :: "backend \<Rightarrow> backend" where
  "unlogged bk = set_store (map_option forget_log (bk_store bk)) bk"

lemma forget_log_use: "forget_use s = forget_use s' \<Longrightarrow> forget_log s = forget_log s'"
  by (simp add: forget_log_def)

lemma forget_log_record [simp]: "forget_log (record_audit now ts row s) = forget_log s"
  by (simp add: forget_log_def forget_use_def record_audit_def)

lemma unlogged_touch:
  assumes "map_option forget_use st = map_option forget_use (bk_store bk)"
  shows "unlogged (set_store st bk) = unlogged bk"
  using assms
  by (cases st; cases "bk_store bk")
    (auto simp: unlogged_def set_store_def bk_store_def dest: forget_log_use)

lemma unlogged_audit: "unlogged (bk\<lparr>bk_node := on_store (record_audit now ts row) (bk_node bk)\<rparr>) = unlogged bk"
  by (cases "nd_store (bk_node bk)") (simp_all add: unlogged_def set_store_def bk_store_def on_store_def)

text \<open>
  C33: No guarded POST, PUT, PATCH or DELETE endpoint can be reached without its role: a request that carries no
  credential good for the endpoint's role is answered 401 or 403 and leaves everything as it was but the audit log
  and the last use of the operators (an operator whose role is too low is still seen).
\<close>

theorem denied_untouched:
  assumes "\<not> entitled (ap_ctl ap) now rq (bk_store bk) (min_role rt)"
  shows "\<exists>c bk1. handle ap w now rq rt bk = (Reply c, bk1) \<and> (c = 401 \<or> c = 403) \<and> unlogged bk1 = unlogged bk"
proof -
  let ?g = "require_role (ap_ctl ap) now (min_role rt) rq (bk_store bk)"
  obtain c m who st where g: "?g = (Inl (mk_exc c m), who, st)" and c: "c = 401 \<or> c = 403"
    using guard_entitled assms by (cases rule: require_role_cases [of "ap_ctl ap" now "min_role rt" rq "bk_store bk"]) auto
  have st: "unlogged (set_store st bk) = unlogged bk"
    using guard_store [of "ap_ctl ap" now "min_role rt" rq "bk_store bk"] g by (intro unlogged_touch) simp
  have "\<exists>bk1. audited ap w now rq rt bk = (Reply c, who, bk1) \<and> unlogged bk1 = unlogged bk"
    using st by (auto simp: audited_def guarded_def g unlogged_audit split: prod.split)
  then show ?thesis using c by (auto simp: handle_def split: prod.split)
qed

lemma route_recorded: "rt \<noteq> AuthVerify \<Longrightarrow> recorded (fst (route_line rt)) (snd (route_line rt))"
  by (cases rt) (simp_all add: recorded_def MUTATING_def starts_with_def)

lemma route_watched: "fst (route_line rt) \<in> set MUTATING \<and> starts_with ''/api/'' (snd (route_line rt))"
  by (cases rt) (simp_all add: MUTATING_def starts_with_def)

text \<open>The state the handler leaves, seen from before the request.\<close>

lemma guarded_step:
  assumes "guarded ap w now rq rt bk = (rep, who, bk1)"
  shows "version_step (ap_env ap) (bk_node bk) (bk_node bk1)"
    "fst (snd (require_role (ap_ctl ap) now (min_role rt) rq (bk_store bk))) = who"
proof -
  let ?g = "require_role (ap_ctl ap) now (min_role rt) rq (bk_store bk)"
  obtain v who' st where g: "?g = (v, who', st)" by (metis prod.exhaust)
  have "map_option forget_use st = map_option forget_use (bk_store bk)" using guard_store g by (metis snd_conv)
  then have h: "histories (bk_node (set_store st bk)) = histories (bk_node bk)"
    by (cases st; cases "bk_store bk") (auto simp: histories_def set_store_def bk_store_def forget_use_def
        dest: arg_cong [where f = so_audit] arg_cong [where f = so_versions])
  show "version_step (ap_env ap) (bk_node bk) (bk_node bk1)"
  proof (cases v)
    case (Inl x)
    then show ?thesis using assms g h by (auto simp: guarded_def histories_step)
  next
    case (Inr u)
    then have "bk1 = snd (serve ap w now (fst who') (map_option role_text (snd who')) rt (set_store st bk))"
      using assms g by (auto simp: guarded_def split: prod.splits)
    then have "version_step (ap_env ap) (bk_node (set_store st bk)) (bk_node bk1)" by (simp add: serve_step)
    then show ?thesis by (rule version_step_from [OF h])
  qed
  show "fst (snd ?g) = who" using assms g by (cases v) (auto simp: guarded_def split: prod.splits)
qed

lemma snapshot_audit [simp]:
  "map_option so_audit (nd_store (on_store (snapshot_overlay e now a r t ov) n)) = map_option so_audit (nd_store n)"
  by (cases "nd_store n") (simp_all add: on_store_def snapshot_same_versions)

text \<open>
  C34: With a store that can be reached, every request to a guarded POST, PUT, PATCH or DELETE endpoint that is
  answered by its guard or its handler leaves exactly one audit row, with its status, its line, the identity the guard saw and the redacted body, and never
  touches an older row; the check of a token is the one endpoint left out, and a request whose handler raises leaves
  none (\<open>load_crash_unaudited\<close>).
\<close>

theorem audit_complete:
  assumes "handle ap w now rq rt bk = (Reply c, bk1)" "rt \<noteq> AuthVerify" "bk_store bk = Some s"
  shows "\<exists>s1 row. bk_store bk1 = Some s1 \<and> tb_rows (so_audit s1) = tb_rows (so_audit s) @ [(tb_next (so_audit s), row)] \<and>
    au_status row = int c \<and> (au_method row, au_path row) = route_line rt \<and>
    au_actor row = actor_name (fst (fst (snd (require_role (ap_ctl ap) now (min_role rt) rq (bk_store bk))))) \<and>
    au_detail row = redact_body (ap_ctl ap) (wr_body rq) (wr_type rq)"
proof -
  obtain meth path where line: "route_line rt = (meth, path)" by (metis prod.exhaust)
  then have rec: "recorded meth path" using route_recorded [OF assms(2)] by simp
  obtain rep who bk2 where g: "guarded ap w now rq rt bk = (rep, who, bk2)" by (metis prod.exhaust)
  have rep: "rep = Reply c" using assms(1) g line
    by (cases rep) (auto simp: handle_def audited_def split: if_splits prod.splits)
  obtain s2 where s2: "nd_store (bk_node bk2) = Some s2" "so_audit s2 = so_audit s"
    using guarded_step(1) [OF g] assms(3) by (cases "nd_store (bk_node bk2)") (auto simp: version_step_def bk_store_def)
  have who: "fst (snd (require_role (ap_ctl ap) now (min_role rt) rq (bk_store bk))) = who" by (rule guarded_step(2) [OF g])
  define row where "row = \<lparr>au_ts = or_now None now, au_actor = actor_name (fst who), au_role = map_option role_text (snd who), au_method = meth,
      au_path = path, au_target = extract_target path, au_status = int c,
      au_detail = redact_body (ap_ctl ap) (wr_body rq) (wr_type rq), au_ip = wr_ip rq\<rparr>"
  have "map_option so_audit (bk_store bk1) = Some (snd (tinsert row (so_audit s)))"
    using assms(1) g line rec rep s2
    by (auto simp: handle_def audited_def bk_store_def row_def record_audit_def on_store_def snapshot_same_versions split: if_splits)
  then obtain s1 where "bk_store bk1 = Some s1" "so_audit s1 = snd (tinsert row (so_audit s))" by (cases "bk_store bk1") auto
  then show ?thesis using line who by (auto simp: tinsert_def row_def)
qed

text \<open>A handler that raises is not audited, whatever it has done before.\<close>

lemma crash_unaudited:
  "guarded ap w now rq rt bk = (Crash, who, bk1) \<Longrightarrow> handle ap w now rq rt bk = (Crash, bk1)"
  by (simp add: handle_def audited_def split: prod.split)

section \<open>Versions follow the overlay\<close>

lemma latest_hash_versions:
  "so_versions s = so_versions s' \<Longrightarrow> latest_config_version_hash s = latest_config_version_hash s'"
  by (simp add: latest_config_version_hash_def)

lemma snapshot_latest: "latest_config_version_hash (snapshot_overlay e now a r t ov s) = Some (en_sha e (en_dump e ov))"
  by (auto simp: snapshot_overlay_def record_config_version_def Let_def tinsert_def latest_config_version_hash_def tselect_latest simp del: One_nat_def)

text \<open>
  C35: The version history never lags: if the newest version was the overlay in force, it still is after any request that
  is answered below 400, so the version to roll back to is always there.
\<close>

theorem versions_follow:
  assumes "handle ap w now rq rt bk = (Reply c, bk1)" "c < 400" "bk_store bk = Some s"
    and "latest_config_version_hash s = Some (overlay_hash (ap_env ap) (bk_node bk))"
  shows "\<exists>s1. bk_store bk1 = Some s1 \<and> latest_config_version_hash s1 = Some (overlay_hash (ap_env ap) (bk_node bk1))"
proof -
  let ?e = "ap_env ap"
  obtain meth path where line: "route_line rt = (meth, path)" by (metis prod.exhaust)
  then have watched: "meth \<in> set MUTATING" "starts_with ''/api/'' path" using route_watched [of rt] by simp_all
  obtain rep who bk2 where g: "guarded ap w now rq rt bk = (rep, who, bk2)" by (metis prod.exhaust)
  have rep: "rep = Reply c" using assms(1) g line
    by (cases rep) (auto simp: handle_def audited_def split: if_splits prod.splits)
  obtain bk3 where a: "audited ap w now rq rt bk = (Reply c, who, bk3)" and ov: "nd_overlay (bk_node bk3) = nd_overlay (bk_node bk2)"
    and versions: "map_option so_versions (nd_store (bk_node bk3)) = map_option so_versions (nd_store (bk_node bk2))"
    using g rep line
    by (cases "nd_store (bk_node bk2)") (auto simp: audited_def on_store_def record_audit_def)
  obtain s2 where s2: "nd_store (bk_node bk2) = Some s2"
    using guarded_step(1) [OF g] assms(3) by (cases "nd_store (bk_node bk2)") (auto simp: version_step_def bk_store_def)
  then obtain s3 where s3: "nd_store (bk_node bk3) = Some s3" "so_versions s3 = so_versions s2"
    using versions by (cases "nd_store (bk_node bk3)") auto
  show ?thesis
  proof (cases "overlay_hash ?e (bk_node bk3) = overlay_hash ?e (bk_node bk)")
    case True
    have "latest_config_version_hash s2 = Some (overlay_hash ?e (bk_node bk))"
      using guarded_step(1) [OF g] assms(3,4) s2 True
      by (auto simp: version_step_def bk_store_def overlay_hash_def ov snapshot_latest dest!: latest_hash_versions)
    then show ?thesis
      using assms(1) a line s3 True latest_hash_versions [OF s3(2)] by (auto simp: handle_def bk_store_def)
  next
    case False
    then show ?thesis
      using assms(1,2) a line watched s3 by (auto simp: handle_def bk_store_def on_store_def overlay_hash_def snapshot_latest)
  qed
qed

section \<open>Operators\<close>

lemma handle_operators:
  assumes "handle ap w now rq rt bk = (Reply c, bk1)" "guarded ap w now rq rt bk = (rep, who, bk2)"
  shows "rep = Reply c" "map_option so_operators (bk_store bk1) = map_option so_operators (bk_store bk2)"
proof -
  obtain meth path where line: "route_line rt = (meth, path)" by (metis prod.exhaust)
  show rep: "rep = Reply c" using assms line
    by (cases rep) (auto simp: handle_def audited_def split: if_splits prod.splits)
  have "so_operators (record_audit now ts row s) = so_operators s" for ts row s by (simp add: record_audit_def)
  moreover have "so_operators (snapshot_overlay e now a r t ov s) = so_operators s" for e a r t ov s
    by (auto simp: snapshot_overlay_def record_config_version_def Let_def case_prod_unfold)
  ultimately show "map_option so_operators (bk_store bk1) = map_option so_operators (bk_store bk2)"
    using assms line rep
    by (cases "nd_store (bk_node bk2)") (auto simp: handle_def audited_def bk_store_def on_store_def split: if_splits)
qed

lemma lookup_member:
  "get_active_operator_by_hash s h = Some (i, r) \<Longrightarrow> (i, r) \<in> set (tb_rows (so_operators s)) \<and> \<not> op_revoked r \<and> op_hash r = h"
  by (auto simp: get_active_operator_by_hash_def split: option.splits if_splits dest: find_mem)

lemma guarded_pass:
  assumes "guarded ap w now rq rt bk = (Reply c, who, bk1)" "c \<noteq> 401" "c \<noteq> 403"
  obtains st where "serve ap w now (fst who) (map_option role_text (snd who)) rt (set_store st bk) = (Reply c, bk1)"
  using assms
  by (cases rule: require_role_cases [of "ap_ctl ap" now "min_role rt" rq "bk_store bk"])
    (auto simp: guarded_def split: prod.splits)

lemma operator_of_cong: "map_option so_operators st = map_option so_operators st' \<Longrightarrow> operator_of ce t st = operator_of ce t st'"
  by (cases st; cases st') (simp_all add: operator_of_def get_active_operator_by_hash_def)

lemma with_store_reply:
  "with_store f n = (Reply c, n1) \<longleftrightarrow> (\<exists>s s1. nd_store n = Some s \<and> f s = (Reply c, s1) \<and> n1 = n\<lparr>nd_store := Some s1\<rparr>)"
  by (auto simp: with_store_def split: option.splits prod.splits)

text \<open>
  C36: Administration of operators takes effect with the answer: after a revocation no token resolves to the operator, after
  a rotation only the new token does, after a role change every token of the operator carries the new role.
\<close>

theorem operator_changes_bind:
  assumes "handle ap w now rq rt bk = (Reply c, bk1)" "c < 400" "operator_of (ap_ctl ap) t (bk_store bk1) = Some (i, r)"
  shows "rt \<noteq> RevokeOperator i \<and>
    (rt = RotateOperator i \<longrightarrow> ce_hash (ap_ctl ap) t = ce_hash (ap_ctl ap) (OPERATOR_PREFIX @ wd_random w)) \<and>
    (\<forall>ro. rt = UpdateOperator i ro \<longrightarrow> operator_role r = ro)"
proof -
  obtain rep who bk2 where g: "guarded ap w now rq rt bk = (rep, who, bk2)" by (metis prod.exhaust)
  note h = handle_operators [OF assms(1) g]
  have op: "operator_of (ap_ctl ap) t (bk_store bk2) = Some (i, r)" using assms(3) operator_of_cong [OF h(2)] by simp
  then obtain s2 where s2: "bk_store bk2 = Some s2" "(i, r) \<in> set (tb_rows (so_operators s2))" "\<not> op_revoked r"
      "op_hash r = ce_hash (ap_ctl ap) t"
    by (auto simp: operator_of_def dest: lookup_member split: option.splits)
  obtain st where serve: "serve ap w now (fst who) (map_option role_text (snd who)) rt (set_store st bk) = (Reply c, bk2)"
    using guarded_pass [of ap w now rq rt bk c who bk2] g h(1) assms(2) by auto
  have "rt \<noteq> RevokeOperator i"
    using serve s2 by (auto simp: on_node_def with_store_reply found_def revoke_operator_def tupdate_def Let_def bk_store_def split: if_splits prod.splits)
  moreover have "ce_hash (ap_ctl ap) t = ce_hash (ap_ctl ap) (OPERATOR_PREFIX @ wd_random w)" if "rt = RotateOperator i"
    using serve s2 that
    by (auto simp: on_node_def with_store_reply rotate_operator_def generate_operator_token_def rotate_operator_token_def found_def
        tupdate_def Let_def bk_store_def split: if_splits prod.splits option.splits)
  moreover have "operator_role r = ro" if "rt = UpdateOperator i ro" for ro
    using serve s2 that
    by (auto simp: on_node_def with_store_reply found_def set_operator_role_def tupdate_def Let_def bk_store_def operator_role_def
        split: if_splits prod.splits)
  ultimately show ?thesis by blast
qed

text \<open>A load of an adapter that gets no answer has already reached some replicas, and nobody records it.\<close>

lemma load_crash_unaudited:
  assumes "load_lora (ap_env ap) (wd_load w) (wd_unload w) (key_group k) name path base (bk_node (set_store st bk)) = (Inl TransportError, n1)"
    and "require_role (ap_ctl ap) now OPERATOR rq (bk_store bk) = (Inr (), who, st)"
  shows "handle ap w now rq (LoadLora k name path base) bk = (Crash, (set_store st bk)\<lparr>bk_node := n1\<rparr>)"
  using assms
  by (intro crash_unaudited [of _ _ _ _ _ _ who]) (simp add: guarded_def on_node_def caught_def load_lora_endpoint_def)

section \<open>Witnesses\<close>

definition desk_settings :: ctl_settings where
  "desk_settings = sso_settings\<lparr>cs_admin_token := ''root'', cs_oidc_issuer := []\<rparr>"

definition desk_api :: api_env where
  "desk_api = \<lparr>ap_env = mgr_env, ap_ctl = sso_env\<lparr>ce_set := desk_settings\<rparr>, ap_bench = bench_demo,
     ap_texts = demo_texts, ap_lora_root = [], ap_data_root = []\<rparr>"

definition desk_operator :: operator_row where
  "desk_operator = \<lparr>op_label = ''bob'', op_hash = ''bobs'', op_prefix = [], op_role = ''viewer'', op_created = 1, op_last_used = None,
     op_revoked = False\<rparr>"

definition desk_store :: store where
  "desk_store = snapshot_overlay mgr_env 1 None None None no_overlay
     (init_store\<lparr>so_operators := \<lparr>tb_rows = [(1, desk_operator)], tb_next = 2\<rparr>\<rparr>)"

definition desk :: backend where
  "desk = \<lparr>bk_node = mgr_node\<lparr>nd_store := Some desk_store, nd_overlay := no_overlay\<rparr>, bk_runs = bench_boot 8 init_store,
     bk_depot = \<lparr>sh_files = \<lparr>fs_files = [], fs_dirs = []\<rparr>, sh_hub = None, sh_weights = idle_dlm, sh_adapters = idle_dlm, sh_datasets = idle_dlm\<rparr>\<rparr>"

definition desk_world :: world where
  "desk_world = \<lparr>wd_random = ''x'', wd_spawn = True, wd_call = True, wd_drain = (\<lambda>_. []), wd_load = (\<lambda>_. PostOk), wd_unload = (\<lambda>_. PostOk),
     wd_sink = (\<lambda>_. Answered 200), wd_prune = (\<lambda>_ rs. Some rs)\<rparr>"

definition sent_by :: "string \<Rightarrow> web_request" where
  "sent_by token = \<lparr>wr_auth = None, wr_xadmin = Some token, wr_cookie = None, wr_body = [], wr_type = None, wr_ip = None\<rparr>"

lemma desk_tokens: "extract_token None (Some ''bobs'') = Some ''bobs''" "extract_token None (Some ''root'') = Some ''root''"
  by code_simp+

lemma desk_operators: "so_operators desk_store = \<lparr>tb_rows = [(1, desk_operator)], tb_next = 2\<rparr>"
  by (simp add: desk_store_def snapshot_overlay_def record_config_version_def Let_def case_prod_unfold)

lemmas desk_defs = desk_api_def desk_settings_def sso_settings_def sso_env_def desk_def bk_store_def sent_by_def
  open_mode_def auth_enabled_def sso_enabled_def session_identity_def operator_of_def get_active_operator_by_hash_def

lemma denied_untouched_witness:
  "\<exists>c bk1. handle desk_api desk_world 5 (sent_by ''bobs'') (StartModel ''q::a'' False) desk = (Reply c, bk1) \<and>
     (c = 401 \<or> c = 403) \<and> unlogged bk1 = unlogged desk"
proof (rule denied_untouched)
  have "role_of ''viewer'' = Some VIEWER" by code_simp
  then show "\<not> entitled (ap_ctl desk_api) 5 (sent_by ''bobs'') (bk_store desk) (min_role (StartModel ''q::a'' False))"
    by (auto simp: entitled_def desk_defs desk_tokens desk_operators desk_operator_def operator_role_def less_eq_role_def)
qed

lemma desk_guard:
  "require_role (ap_ctl desk_api) 5 ADMIN (sent_by ''root'') (bk_store desk) = (Inr (), (Some ''admin'', Some ADMIN), bk_store desk)"
  by (simp add: require_role_def resolve_actor_def desk_defs desk_tokens desk_operators desk_operator_def Let_def)

lemma desk_promotes:
  "guarded desk_api desk_world 5 (sent_by ''root'') (UpdateOperator 1 OPERATOR) desk =
     (Reply 200, (Some ''admin'', Some ADMIN),
      set_store (Some (desk_store\<lparr>so_operators := \<lparr>tb_rows = [(1, desk_operator\<lparr>op_role := ''operator''\<rparr>)], tb_next = 2\<rparr>\<rparr>)) desk)"
  using desk_guard
  by (simp add: guarded_def on_node_def with_store_def found_def set_operator_role_def tupdate_def
      set_store_def desk_operators desk_operator_def desk_def bk_store_def Let_def case_prod_unfold)

lemma desk_answers:
  obtains bk1 where "handle desk_api desk_world 5 (sent_by ''root'') (UpdateOperator 1 OPERATOR) desk = (Reply 200, bk1)"
    "map_option so_operators (bk_store bk1) = Some \<lparr>tb_rows = [(1, desk_operator\<lparr>op_role := ''operator''\<rparr>)], tb_next = 2\<rparr>"
proof -
  obtain bk1 where bk1: "handle desk_api desk_world 5 (sent_by ''root'') (UpdateOperator 1 OPERATOR) desk = (Reply 200, bk1)"
    using desk_promotes by (auto simp: handle_def audited_def)
  from handle_operators(2) [OF this desk_promotes] bk1 show thesis
    by (intro that) (simp_all add: bk_store_def set_store_def)
qed

lemma desk_versions: "latest_config_version_hash desk_store = Some (overlay_hash (ap_env desk_api) (bk_node desk))"
  by (simp add: desk_store_def snapshot_latest overlay_hash_def desk_api_def desk_def)

lemma desk_has_store: "bk_store desk = Some desk_store"
  by (simp add: desk_def bk_store_def)

lemma audit_complete_witness:
  "\<exists>bk1 s1 row. handle desk_api desk_world 5 (sent_by ''root'') (UpdateOperator 1 OPERATOR) desk = (Reply 200, bk1) \<and>
     bk_store bk1 = Some s1 \<and> tb_rows (so_audit s1) = tb_rows (so_audit desk_store) @ [(tb_next (so_audit desk_store), row)] \<and>
     au_status row = 200 \<and> au_actor row = ''admin''"
proof -
  obtain bk1 where h: "handle desk_api desk_world 5 (sent_by ''root'') (UpdateOperator 1 OPERATOR) desk = (Reply 200, bk1)"
    by (rule desk_answers)
  from audit_complete [OF h _ desk_has_store] show ?thesis
    using h desk_guard by (auto simp: actor_name_def)
qed

lemma versions_follow_witness:
  "\<exists>bk1 s1. handle desk_api desk_world 5 (sent_by ''root'') (UpdateOperator 1 OPERATOR) desk = (Reply 200, bk1) \<and>
     bk_store bk1 = Some s1 \<and> latest_config_version_hash s1 = Some (overlay_hash mgr_env (bk_node bk1))"
proof -
  obtain bk1 where h: "handle desk_api desk_world 5 (sent_by ''root'') (UpdateOperator 1 OPERATOR) desk = (Reply 200, bk1)"
    by (rule desk_answers)
  from versions_follow [OF h _ desk_has_store desk_versions] h show ?thesis by (auto simp: desk_api_def)
qed

lemma operator_changes_bind_witness:
  "\<exists>bk1 r. operator_of (ap_ctl desk_api) ''bobs'' (bk_store bk1) = Some (1, r) \<and> operator_role r = OPERATOR"
proof -
  obtain bk1 where h: "handle desk_api desk_world 5 (sent_by ''root'') (UpdateOperator 1 OPERATOR) desk = (Reply 200, bk1)"
    "map_option so_operators (bk_store bk1) = Some \<lparr>tb_rows = [(1, desk_operator\<lparr>op_role := ''operator''\<rparr>)], tb_next = 2\<rparr>"
    by (rule desk_answers)
  then have op: "operator_of (ap_ctl desk_api) ''bobs'' (bk_store bk1) = Some (1, desk_operator\<lparr>op_role := ''operator''\<rparr>)"
    by (cases "bk_store bk1") (auto simp: desk_defs desk_operator_def)
  from operator_changes_bind [OF h(1) _ op] op show ?thesis by auto
qed

end
