(* ===== verification/Backend_Main.thy ===== *)
theory Backend_Main
  imports Control_Trail
begin

text \<open>
  The backend as a whole: apps/backend/app/main.py (what the application does before it serves, when it becomes
  the leader and when it ends) and services/prometheus_targets.py (the list of scrape targets it keeps).
  Here the components meet: the boot establishes the invariants that the theorems of the node, of the runs
  and of the control API start from, and the shutdown ends what the node has started.
\<close>

section \<open>Scrape targets\<close>

record sd_target =
  sd_address :: string
  sd_group :: string
  sd_instance :: string
  sd_tag :: string
  sd_engine :: string

definition target_of :: "string \<Rightarrow> minst \<Rightarrow> sd_target" where
  "target_of node_host i =
     \<lparr>sd_address = (if node_host = [] then mi_host i else node_host) @ '':'' @ show_int (mi_port i),
      sd_group = key_group (mi_key i), sd_instance = key_instance (mi_key i),
      sd_tag = (case mi_model_tag i of None \<Rightarrow> [] | Some t \<Rightarrow> t), sd_engine = mi_engine i\<rparr>"

definition scraped :: "minst \<Rightarrow> bool" where
  "scraped i = (mi_kind i = LLM \<and> mi_state i = READY)"

definition build_targets :: "string \<Rightarrow> minst list \<Rightarrow> sd_target list" where
  "build_targets node_host instances = sort_key sd_address (map (target_of node_host) (filter scraped instances))"

text \<open>\<open>json.dumps(targets, indent=2, sort_keys=True)\<close>\<close>

definition nl :: string where "nl = [CHR 0x0A]"

definition json_field :: "string \<Rightarrow> string \<Rightarrow> string" where
  "json_field k v = ''      '' @ json_string k @ '': '' @ json_string v"

definition render_target :: "sd_target \<Rightarrow> string" where
  "render_target t =
     ''  {'' @ nl @ ''    '' @ json_string ''labels'' @ '': {'' @ nl @
     join_with ('','' @ nl) [json_field ''engine'' (sd_engine t), json_field ''group'' (sd_group t),
       json_field ''instance_id'' (sd_instance t), json_field ''model_tag'' (sd_tag t)] @ nl @
     ''    },'' @ nl @ ''    '' @ json_string ''targets'' @ '': ['' @ nl @ ''      '' @ json_string (sd_address t) @ nl @ ''    ]'' @ nl @ ''  }''"

definition render_targets :: "sd_target list \<Rightarrow> string" where
  "render_targets ts = (if ts = [] then ''[]'' else ''['' @ nl @ join_with ('','' @ nl) (map render_target ts) @ nl @ '']'')"

text \<open>The file on disk, \<open>None\<close> when it is missing or unreadable; the replacement is atomic.\<close>

definition write_targets_file :: "string option \<Rightarrow> sd_target list \<Rightarrow> bool \<times> string option" where
  "write_targets_file disk_file ts =
     (let payload = render_targets ts in if disk_file = Some payload then (False, disk_file) else (True, Some payload))"

definition write_prometheus_targets :: "env \<Rightarrow> string \<Rightarrow> string option \<Rightarrow> node \<Rightarrow> bool \<times> string option" where
  "write_prometheus_targets e sd_path disk_file n =
     (if sd_path = [] then (False, disk_file)
      else write_targets_file disk_file (build_targets (se_node_host (en_set e)) (reg_values (nd_reg n))))"

section \<open>The life of the application\<close>

definition build_notifier :: "settings \<Rightarrow> real \<Rightarrow> notifier" where
  "build_notifier se cooldown = \<lparr>no_sinks = env_sinks se, no_cooldown = cooldown, no_last = [], no_sent = []\<rparr>"

text \<open>What the boot finds: store, overlay file, target file, answers of the health probes.\<close>

record site =
  at_store :: store
  at_overlay :: root_cfg
  at_postgres :: bool
  at_sd_path :: string
  at_sd_file :: "string option"
  at_probes :: observation
  at_budget :: int
  at_cooldown :: real
  at_files :: fsys
  at_hub :: "cached_repo list option"

text \<open>The download managers begin empty.\<close>

definition fresh_depot :: "fsys \<Rightarrow> cached_repo list option \<Rightarrow> depot" where
  "fresh_depot fs hub =
     (let idle = \<lparr>dm_jobs = [], dm_tasks = [], dm_next = 0\<rparr>
      in \<lparr>sh_files = fs, sh_hub = hub, sh_weights = idle, sh_adapters = idle, sh_datasets = idle\<rparr>)"

text \<open>\<open>None\<close>: the boot raises (the merged configuration is invalid, or a launcher cannot build a key).\<close>

definition boot :: "env \<Rightarrow> real \<Rightarrow> site \<Rightarrow> (backend \<times> string option) option" where
  "boot e now st =
     (let n0 = \<lparr>nd_reg = [], nd_procs = [], nd_next_pid = 0, nd_store = Some (at_store st), nd_notifier = None,
                nd_config = en_base e, nd_overlay = at_overlay st, nd_pg = at_postgres st, nd_log = []\<rparr>;
          n1 = snd (hydrate_overlay e n0)
      in case build_merged_config (en_valid e) (en_base e) (nd_overlay n1) of
           None \<Rightarrow> None
         | Some cfg \<Rightarrow>
             (case build_registry now cfg (en_launchers e) [] of
                None \<Rightarrow> None
              | Some r \<Rightarrow>
                  (let runs = bench_boot (at_budget st) (at_store st);
                       se = en_set e;
                       n2 = n1\<lparr>nd_reg := r, nd_config := cfg, nd_store := Some (bm_store runs),
                               nd_notifier := Some (refresh_sinks se (Some (bm_store runs)) (build_notifier se (at_cooldown st)))\<rparr>;
                       n3 = on_store (snapshot_overlay e now (Some ''system'') None (Some ''startup baseline'') (nd_overlay n2)) n2;
                       n4 = adopt_running e (at_probes st) now n3
                   in Some (\<lparr>bk_node = n4, bk_runs = runs, bk_depot = fresh_depot (at_files st) (at_hub st)\<rparr>,
                            snd (write_prometheus_targets e (at_sd_path st) (at_sd_file st) n4)))))"

definition on_acquire :: "env \<Rightarrow> bool \<Rightarrow> real \<Rightarrow> (string \<Rightarrow> bool) \<Rightarrow> node \<Rightarrow> node" where
  "on_acquire e replay now spawn_ok n = (if replay then replay_desired e now spawn_ok n else n)"

definition shutdown :: "node \<Rightarrow> node" where
  "shutdown n = stop_all n"

text \<open>\<open>/healthz\<close>: how many instances are in each state.\<close>

definition health_counts :: "node \<Rightarrow> (string, nat) dict" where
  "health_counts n = fold (\<lambda>i d. dset (state_value (mi_state i)) (Suc (dget d (state_value (mi_state i)) 0)) d) (reg_values (nd_reg n)) []"

section \<open>The targets follow the fleet\<close>

lemma targets_set: "set (build_targets h is) = target_of h ` {i \<in> set is. scraped i}"
  by (simp add: build_targets_def)

text \<open>
  Monitoring scrapes exactly the fleet: the target list names exactly the READY LLM instances, in the
  order of their addresses, and as long as those instances stay the same the file is not written again, in whatever
  order the registry lists them.
\<close>

theorem targets_follow_fleet:
  assumes "distinct xs" "distinct ys" "{i \<in> set xs. scraped i} = {i \<in> set ys. scraped i}"
    and "inj_on (\<lambda>i. sd_address (target_of h i)) {i \<in> set xs. scraped i}"
  shows "set (build_targets h xs) = target_of h ` {i \<in> set xs. scraped i} \<and> sorted (map sd_address (build_targets h xs)) \<and>
    write_targets_file (Some (render_targets (build_targets h xs))) (build_targets h ys) = (False, Some (render_targets (build_targets h xs)))"
proof -
  have d: "distinct (map sd_address (build_targets h zs))" if "distinct zs" "{i \<in> set xs. scraped i} = {i \<in> set zs. scraped i}" for zs
  proof -
    have "distinct (map sd_address (map (target_of h) (filter scraped zs)))"
      using that assms(4) by (simp add: distinct_map comp_def inj_on_def)
    moreover have "mset (map sd_address (build_targets h zs)) = mset (map sd_address (map (target_of h) (filter scraped zs)))"
      by (simp only: build_targets_def mset_map mset_sort)
    ultimately show ?thesis by (metis mset_eq_imp_distinct_iff)
  qed
  have "build_targets h xs = build_targets h ys"
  proof (rule map_sorted_distinct_set_unique [of sd_address])
    show "inj_on sd_address (set (build_targets h xs) \<union> set (build_targets h ys))"
      using assms(3,4) by (auto simp: targets_set inj_on_def)
  qed (use d [of xs] d [of ys] assms(1-3) targets_set in \<open>auto simp: build_targets_def\<close>)
  moreover have "sorted (map sd_address (build_targets h xs))" by (simp add: build_targets_def)
  ultimately show ?thesis using assms(3) by (simp only: targets_set write_targets_file_def Let_def if_True simp_thms)
qed

section \<open>Boot\<close>

definition fresh :: "registry \<Rightarrow> bool" where
  "fresh r = (reg_ok r \<and> (\<forall>(k, i) \<in> set r. mi_proc i = None))"

lemma fresh_get: "fresh r \<longleftrightarrow> reg_ok r \<and> (\<forall>k i. reg_get r k = Some i \<longrightarrow> mi_proc i = None)"
proof (cases "reg_ok r")
  case True
  then have "(k, i) \<in> set r \<longleftrightarrow> reg_get r k = Some i" for k i
    by (auto simp: reg_ok_def dict_ok_def reg_get_def)
  then show ?thesis using True by (simp add: fresh_def split_paired_Ball_Sigma Ball_def)
qed (simp add: fresh_def)

lemma fresh_add: "fresh r \<Longrightarrow> mi_proc i = None \<Longrightarrow> fresh (reg_add i r)"
  unfolding fresh_get by (simp add: reg_ok_add)

lemma add_keys_fresh: "add_keys now config l ks r = Some r' \<Longrightarrow> fresh r \<Longrightarrow> fresh r'"
proof (induction ks arbitrary: r)
  case (Cons k ks)
  then obtain sp where "add_keys now config l ks (reg_add (instance_of now k (la_kind l) sp) r) = Some r'"
    by (auto split: option.splits)
  moreover have "fresh (reg_add (instance_of now k (la_kind l) sp) r)"
    using Cons.prems(2) by (simp add: fresh_add instance_of_def new_instance_def)
  ultimately show ?case by (rule Cons.IH)
qed simp

lemma build_registry_fresh: "build_registry now config ls r = Some r' \<Longrightarrow> fresh r \<Longrightarrow> fresh r'"
proof (induction ls arbitrary: r)
  case (Cons l ls)
  then show ?case by (auto dest: add_keys_fresh split: option.splits)
qed simp

text \<open>Adoption marks records, it starts nothing.\<close>

definition calm :: "node \<Rightarrow> node \<Rightarrow> bool" where
  "calm n n' = (nd_procs n' = nd_procs n \<and> nd_overlay n' = nd_overlay n \<and> nd_config n' = nd_config n \<and>
     map_option so_desired (nd_store n') = map_option so_desired (nd_store n) \<and>
     map_option so_versions (nd_store n') = map_option so_versions (nd_store n) \<and> (fresh (nd_reg n) \<longrightarrow> fresh (nd_reg n')))"

lemma calm_trans: "calm a b \<Longrightarrow> calm b c \<Longrightarrow> calm a c"
  by (auto simp: calm_def)

lemma fresh_upd: "fresh r \<Longrightarrow> (\<And>i. mi_key (f i) = mi_key i \<and> mi_proc (f i) = mi_proc i) \<Longrightarrow> fresh (reg_upd k f r)"
  unfolding fresh_get by (simp add: reg_ok_upd) fastforce

lemma emit_calm: "calm n (emit_transition se t k a b d n)"
proof -
  have "map_option so_versions (nd_store (emit_transition se t k a b d n)) = map_option so_versions (nd_store n)"
    "map_option so_desired (nd_store (emit_transition se t k a b d n)) = map_option so_desired (nd_store n)"
    by (simp_all add: emit_transition_def Let_def record_model_event_def option.map_comp comp_def split: option.split prod.split)
  then show ?thesis by (auto simp: calm_def intro: fresh_upd)
qed

lemma adopt_key_calm: "calm n (snd (adopt_key ob now key (ts, n)))"
  by (auto simp: adopt_key_def calm_def set_state_def Let_def intro!: fresh_upd split: option.split)

lemma adopt_fold_calm: "calm n (snd (fold (adopt_key ob now) ks (ts, n)))"
proof (induction ks arbitrary: ts n)
  case (Cons k ks)
  obtain ts1 n1 where k: "adopt_key ob now k (ts, n) = (ts1, n1)" by (metis prod.exhaust)
  then have "calm n n1" using adopt_key_calm [of n ob now k ts] by simp
  with Cons.IH [of n1 ts1] k show ?case by (simp add: calm_trans)
qed (simp add: calm_def)

lemma persist_calm: "calm n (persist_transitions se now ts n)"
proof (induction ts arbitrary: n)
  case (Cons t ts)
  show ?case
    using calm_trans [OF emit_calm Cons.IH] by (simp add: persist_transitions_def)
qed (simp add: persist_transitions_def calm_def)

lemma adopt_running_calm: "calm n (adopt_running e ob now n)"
  using calm_trans [OF adopt_fold_calm persist_calm] by (simp add: adopt_running_def case_prod_beta)

lemma boot_shape:
  assumes "boot e now st = Some (bk, sd)"
  obtains cfg r n3 where "build_registry now cfg (en_launchers e) [] = Some r"
    "bk_runs bk = bench_boot (at_budget st) (at_store st)" "calm n3 (bk_node bk)"
    "nd_procs n3 = []" "nd_reg n3 = r"
    "nd_store n3 = Some (snapshot_overlay e now (Some ''system'') None (Some ''startup baseline'') (nd_overlay n3) (bm_store (bk_runs bk)))"
    "sd = snd (write_prometheus_targets e (at_sd_path st) (at_sd_file st) (bk_node bk))"
proof -
  define n0 where "n0 = \<lparr>nd_reg = [], nd_procs = [], nd_next_pid = 0, nd_store = Some (at_store st), nd_notifier = None,
    nd_config = en_base e, nd_overlay = at_overlay st, nd_pg = at_postgres st, nd_log = []\<rparr>"
  define n1 where "n1 = snd (hydrate_overlay e n0)"
  have p: "nd_procs n1 = []" by (auto simp: n1_def n0_def hydrate_overlay_def split: option.split)
  obtain cfg r where c: "build_merged_config (en_valid e) (en_base e) (nd_overlay n1) = Some cfg"
    and r: "build_registry now cfg (en_launchers e) [] = Some r"
    using assms by (auto simp: boot_def Let_def n1_def n0_def split: option.splits)
  define runs where "runs = bench_boot (at_budget st) (at_store st)"
  define n2 where "n2 = n1\<lparr>nd_reg := r, nd_config := cfg, nd_store := Some (bm_store runs),
    nd_notifier := Some (refresh_sinks (en_set e) (Some (bm_store runs)) (build_notifier (en_set e) (at_cooldown st)))\<rparr>"
  define n3 where "n3 = on_store (snapshot_overlay e now (Some ''system'') None (Some ''startup baseline'') (nd_overlay n2)) n2"
  have "(bk, sd) = (\<lparr>bk_node = adopt_running e (at_probes st) now n3, bk_runs = runs, bk_depot = fresh_depot (at_files st) (at_hub st)\<rparr>,
      snd (write_prometheus_targets e (at_sd_path st) (at_sd_file st) (adopt_running e (at_probes st) now n3)))"
    using assms c r unfolding boot_def Let_def n0_def [symmetric] n1_def [symmetric]
    by (simp add: n3_def n2_def runs_def)
  then show thesis
    using that [of cfg r n3] p r adopt_running_calm [of n3 e "at_probes st" now]
    by (simp add: n3_def n2_def runs_def)
qed

lemma boot_node:
  assumes "boot e now st = Some (bk, sd)" "dict_ok (so_desired (at_store st))"
  shows "booted (bk_node bk)"
    "\<exists>s. nd_store (bk_node bk) = Some s \<and> latest_config_version_hash s = Some (overlay_hash e (bk_node bk))"
proof -
  from assms(1) obtain cfg r n3 where b: "build_registry now cfg (en_launchers e) [] = Some r"
    "bk_runs bk = bench_boot (at_budget st) (at_store st)" "calm n3 (bk_node bk)" "nd_procs n3 = []" "nd_reg n3 = r"
    "nd_store n3 = Some (snapshot_overlay e now (Some ''system'') None (Some ''startup baseline'') (nd_overlay n3) (bm_store (bk_runs bk)))"
    by (rule boot_shape) blast
  have "fresh r" by (rule build_registry_fresh [OF b(1)]) (simp add: fresh_def reg_ok_def)
  then have reg: "fresh (nd_reg (bk_node bk))" "nd_procs (bk_node bk) = []" using b by (auto simp: calm_def)
  have des: "so_desired (snapshot_overlay e now a ro t ov (bm_store (bk_runs bk))) = so_desired (at_store st)" for a ro t ov
    by (auto simp: snapshot_overlay_def record_config_version_def b(2) bench_boot_def mark_stale_eval_runs_def mark_stale_perf_runs_def Let_def
        split: prod.split)
  obtain s where s: "nd_store (bk_node bk) = Some s" "so_desired s = so_desired (at_store st)"
    "so_versions s = so_versions (snapshot_overlay e now (Some ''system'') None (Some ''startup baseline'') (nd_overlay n3) (bm_store (bk_runs bk)))"
    using b(3,6) des by (cases "nd_store (bk_node bk)") (auto simp: calm_def)
  show "booted (bk_node bk)" using reg s assms(2) by (simp add: booted_def fresh_def store_ok_def)
  have "latest_config_version_hash s = Some (overlay_hash e (bk_node bk))"
    using snapshot_latest [of e now "Some ''system''" None "Some ''startup baseline''" "nd_overlay n3" "bm_store (bk_runs bk)"] b(3) s(3)
    by (simp add: latest_config_version_hash_def overlay_hash_def calm_def)
  with s(1) show "\<exists>s. nd_store (bk_node bk) = Some s \<and> latest_config_version_hash s = Some (overlay_hash e (bk_node bk))" by blast
qed

text \<open>
  C19: the boot establishes what the other theorems start from.  Whatever the store holds and whatever the probes find,
  a backend that comes up has records without handles and no process of its own, its runs tell the truth, the
  newest configuration version is the overlay in force, and the target file names the instances it adopted.
\<close>

theorem boot_establishes:
  assumes "boot e now st = Some (bk, sd)" "dict_ok (so_desired (at_store st))"
    and "table_ok (so_eval (at_store st))" "table_ok (so_perf (at_store st))"
  shows "booted (bk_node bk) \<and> truthful be (bk_runs bk) \<and>
    (\<exists>s. bk_store bk = Some s \<and> latest_config_version_hash s = Some (overlay_hash e (bk_node bk))) \<and>
    (at_sd_path st = [] \<or> sd = Some (render_targets (build_targets (se_node_host (en_set e)) (reg_values (nd_reg (bk_node bk))))))"
proof -
  from assms(1) have "bk_runs bk = bench_boot (at_budget st) (at_store st)"
    "sd = snd (write_prometheus_targets e (at_sd_path st) (at_sd_file st) (bk_node bk))"
    by (rule boot_shape, blast)+
  then show ?thesis
    using boot_node [OF assms(1,2)] boot_truthful [OF assms(3,4), of be "at_budget st"]
    by (auto simp: bk_store_def write_prometheus_targets_def write_targets_file_def Let_def)
qed

section \<open>Leadership and shutdown\<close>

lemma reach_trans: "node_reach e a b \<Longrightarrow> node_reach e b c \<Longrightarrow> node_reach e a c"
  by (rotate_tac, induction rule: node_reach.induct) (auto intro: reach_step)

text \<open>The replay of the wishes at the moment of leadership consists of starts the node allows.\<close>

lemma acquire_reach:
  assumes "node_reach e n0 n"
  shows "node_reach e n0 (on_acquire e replay now ok n)"
proof (cases "nd_store n")
  case (Some s)
  have "node_reach e n0 (replay_desired e now ok n)"
    unfolding replay_desired_def Some option.case Let_def
  proof (rule fold_invariant [where I = "node_reach e n0", OF assms], goal_cases)
    case (1 kw m)
    have "node_reach e n0 (snd (start e now False True w k m))" if "reg_get (nd_reg m) k = Some i" "mi_state i = STOPPED \<or> mi_state i = FAILED" for k i w
      by (rule reach_step [OF 1(2) step_start]) (use that in auto)
    with 1(2) show ?case by (auto split: prod.split option.split)
  qed
  with assms show ?thesis by (simp add: on_acquire_def)
qed (use assms in \<open>simp add: on_acquire_def replay_desired_def\<close>)

definition kill_own :: "minst \<Rightarrow> node \<Rightarrow> node" where
  "kill_own i m = (case mi_proc i of Some pid \<Rightarrow> if mi_managed i \<and> poll m pid = None then terminate_process_group pid m else m | None \<Rightarrow> m)"

lemma kill_own_facts:
  "nd_reg (kill_own i m) = nd_reg m" "nd_store (kill_own i m) = nd_store m"
  "alive (kill_own i m) p = (alive m p \<and> \<not> (mi_managed i \<and> mi_proc i = Some p))"
  by (auto simp: kill_own_def simp flip: alive_poll split: option.split)

lemma kill_all_facts:
  "nd_reg (fold kill_own is m) = nd_reg m" "nd_store (fold kill_own is m) = nd_store m"
  "alive (fold kill_own is m) p = (alive m p \<and> \<not> (\<exists>i \<in> set is. mi_managed i \<and> mi_proc i = Some p))"
  by (induction "is" arbitrary: m) (auto simp: kill_own_facts)

lemma stop_all_kills: "stop_all n = fold kill_own (reg_values (nd_reg n)) n"
  by (simp add: stop_all_def kill_own_def [abs_def])

text \<open>
  C18: no process outlives the backend.  From the boot on, whatever steps of \<open>node_step\<close> follow (handlers, passes, edits,
  alignments and exits one after the other, under its provisos: no start of an instance that is asleep or stopping, no
  alignment that removes a live instance), and whether or not the leadership was gained on the way, once the shutdown is
  through no inference process the backend spawned is left, while registry and store, and with them the wishes for the
  next boot, are as they were.
\<close>

theorem no_process_outlives_backend:
  assumes "boot e now st = Some (bk, sd)" "dict_ok (so_desired (at_store st))"
    and "node_reach e (bk_node bk) m" "node_reach e (on_acquire e replay t ok m) n"
  shows "\<not> alive (shutdown n) p \<and> nd_reg (shutdown n) = nd_reg n \<and> nd_store (shutdown n) = nd_store n"
proof -
  have "node_reach e (bk_node bk) n"
    using acquire_reach [OF assms(3)] assms(4) by (rule reach_trans)
  then have o: "owned n" using boot_node(1) [OF assms(1,2)] by (rule node_reach_owned)
  have "\<exists>i \<in> set (reg_values (nd_reg n)). mi_managed i \<and> mi_proc i = Some p" if a: "alive n p"
  proof -
    obtain k i where i: "reg_get (nd_reg n) k = Some i" "mi_proc i = Some p" using o a unfolding owned_def by blast
    then have "i \<in> set (reg_values (nd_reg n))"
      using reg_values_iff [OF owned_reg_ok [OF o], of i] reg_ok_key [OF owned_reg_ok [OF o] i(1)] by simp
    with i o show ?thesis unfolding owned_def by blast
  qed
  then show ?thesis by (auto simp: shutdown_def stop_all_kills kill_all_facts)
qed

section \<open>Health\<close>

lemma count_sum: "dict_ok d \<Longrightarrow> sum_list (map snd (dset k (Suc (dget d k 0)) d)) = Suc (sum_list (map snd d))"
  by (induction d) (auto simp: dset_def dget_def dict_ok_def split: option.splits dest: weak_map_of_SomeI)

lemma health_counts_total: "sum_list (map snd (health_counts n)) = length (nd_reg n)"
proof -
  let ?f = "\<lambda>i d. dset (state_value (mi_state i)) (Suc (dget d (state_value (mi_state i)) 0)) d"
  have run: "dict_ok d \<Longrightarrow> sum_list (map snd (fold ?f is d)) = length is + sum_list (map snd d)" for "is" d
    by (induction "is" arbitrary: d) (simp_all add: count_sum)
  show ?thesis using run [OF dict_ok_Nil, of "reg_values (nd_reg n)"] by (simp add: health_counts_def reg_values_def)
qed

section \<open>Witnesses\<close>

definition quiet_probes :: observation where
  "quiet_probes = \<lparr>ob_ready = \<lambda>_. False, ob_log_size = \<lambda>_. None, ob_tail = \<lambda>_. [], ob_spawn_ok = \<lambda>_. True, ob_call_ok = \<lambda>_. True, ob_answers = \<lambda>_. []\<rparr>"

definition new_site :: site where
  "new_site = \<lparr>at_store = init_store, at_overlay = no_overlay, at_postgres = False, at_sd_path = ''sd.json'', at_sd_file = None,
     at_probes = quiet_probes, at_budget = 16, at_cooldown = 300,
     at_files = \<lparr>fs_files = [], fs_dirs = []\<rparr>, at_hub = None\<rparr>"

lemma site_boots: "\<exists>bk sd. boot mgr_env 0 new_site = Some (bk, sd)"
proof -
  have "build_registry 0 mgr_config (en_launchers mgr_env) [] = Some (reg_add (instance_of 0 ''q::a'' LLM (mgr_spec ''q::a'')) [])"
    by (simp add: mgr_env_def mgr_launcher_def mgr_config_def dhas_def)
  then show ?thesis by (simp add: boot_def Let_def hydrate_overlay_def new_site_def mgr_merge)
qed

lemma site_store: "dict_ok (so_desired (at_store new_site))" "table_ok (so_eval (at_store new_site))" "table_ok (so_perf (at_store new_site))"
  by (simp_all add: new_site_def init_store_def empty_table_def table_ok_def)

lemma boot_establishes_witness: "\<exists>bk sd. boot mgr_env 0 new_site = Some (bk, sd) \<and> booted (bk_node bk)"
  using site_boots boot_establishes [OF _ site_store] by blast

lemma no_process_outlives_backend_witness:
  "\<exists>bk sd. boot mgr_env 0 new_site = Some (bk, sd) \<and>
     \<not> alive (shutdown (reconcile_once mgr_env quiet_probes 4 (on_acquire mgr_env True 1 (\<lambda>_. True) (bk_node bk)))) 0"
proof -
  obtain bk sd where b: "boot mgr_env 0 new_site = Some (bk, sd)" using site_boots by blast
  have "node_reach mgr_env (on_acquire mgr_env True 1 (\<lambda>_. True) (bk_node bk))
      (reconcile_once mgr_env quiet_probes 4 (on_acquire mgr_env True 1 (\<lambda>_. True) (bk_node bk)))"
    by (rule reach_step [OF reach_boot step_pass])
  with no_process_outlives_backend [OF b site_store(1) reach_boot] b show ?thesis by blast
qed

lemma targets_follow_fleet_witness:
  "build_targets ''h'' [mgr_inst\<lparr>mi_state := READY\<rparr>] \<noteq> [] \<and>
   write_targets_file (Some (render_targets (build_targets ''h'' [mgr_inst\<lparr>mi_state := READY\<rparr>])))
     (build_targets ''h'' [mgr_inst, mgr_inst\<lparr>mi_state := READY\<rparr>]) =
   (False, Some (render_targets (build_targets ''h'' [mgr_inst\<lparr>mi_state := READY\<rparr>])))"
proof -
  let ?r = "mgr_inst\<lparr>mi_state := READY\<rparr>"
  have s: "scraped ?r" "\<not> scraped mgr_inst" by (simp_all add: scraped_def mgr_inst_def new_instance_def)
  then have ne: "mgr_inst \<noteq> ?r" by metis
  have "{i \<in> set [?r]. scraped i} = {?r}" "{i \<in> set [mgr_inst, ?r]. scraped i} = {?r}" using s by auto
  then show ?thesis
    using targets_follow_fleet [of "[?r]" "[mgr_inst, ?r]" "''h''"] ne s by (auto simp: build_targets_def)
qed

end
