(* ===== verification/Eval_Reports.thy ===== *)
theory Eval_Reports
  imports Launchers "HOL-Library.Monad_Syntax" "HOL-Library.List_Lexorder" "HOL-Library.Char_ord"
begin

text \<open>
  The detail of an evaluation run, parsed on demand: apps/backend/app/services/eval_reports.py and the
  read endpoints of api/eval.py.  A run directory is a dictionary from (folder, model, file) to the text
  of the file, \<open>None\<close> for one that cannot be read; \<open>loads\<close> is \<open>json.loads\<close>, \<open>fl\<close> the rendering of a float.
  A result \<open>None\<close> is an exception nobody catches (a method of a dictionary on another JSON value).  The
  data set of a request is a plain name: it has neither a slash nor the wildcards of \<open>glob\<close>.
\<close>

section \<open>JSON access\<close>

text \<open>\<open>d.get(k) or {}\<close> and \<open>d.get(k) or []\<close>, used as an object and as a list of objects.\<close>

fun obj_of :: "jval \<Rightarrow> (string, jval) dict option" where
  "obj_of (JObj d) = Some d"
| "obj_of _ = None"

definition obj_or :: "(string, jval) dict \<Rightarrow> string \<Rightarrow> (string, jval) dict option" where
  "obj_or d k = (if truthy (jget d k) then obj_of (jget d k) else Some [])"

definition objs_or :: "(string, jval) dict \<Rightarrow> string \<Rightarrow> (string, jval) dict list option" where
  "objs_or d k =
     (if \<not> truthy (jget d k) then Some []
      else case jget d k of JList xs \<Rightarrow> those (map obj_of xs) | _ \<Rightarrow> None)"

text \<open>The horizontal ellipsis, as UTF-8; the texts that are cut are taken to be ASCII, a character of them one \<open>char\<close>.\<close>

definition ellipsis :: string where
  "ellipsis = [CHR 0xE2, CHR 0x80, CHR 0xA6]"

definition truncate_text :: "(real \<Rightarrow> string) \<Rightarrow> jval \<Rightarrow> string option" where
  "truncate_text fl v =
     (if v = JNull then None
      else let s = str_strip (py_str fl v) in Some (if length s \<le> 240 then s else take 240 s @ ellipsis))"

fun as_text :: "(real \<Rightarrow> string) \<Rightarrow> jval \<Rightarrow> string" where
  "as_text fl (JStr s) = s"
| "as_text fl v = json_dumps fl v"

section \<open>The summary of a run\<close>

definition projected_perf :: "jval \<Rightarrow> jval option" where
  "projected_perf pm =
     (if \<not> truthy pm then Some JNull
      else do {
        d \<leftarrow> obj_of pm;
        s \<leftarrow> obj_or d ''summary'';
        lat \<leftarrow> obj_or s ''latency'';
        usage \<leftarrow> obj_or s ''usage'';
        tput \<leftarrow> obj_or s ''throughput'';
        inp \<leftarrow> obj_or usage ''input_tokens'';
        outp \<leftarrow> obj_or usage ''output_tokens'';
        Some (JObj
          [(''n_samples'', jget s ''n_samples''),
           (''latency'', JObj [(''mean'', jget lat ''mean''), (''p50'', jget lat ''50%''), (''p99'', jget lat ''99%''), (''max'', jget lat ''max'')]),
           (''output_tps'', jget tput ''avg_output_tps''), (''req_ps'', jget tput ''avg_req_ps''),
           (''input_tokens_mean'', jget inp ''mean''), (''output_tokens_mean'', jget outp ''mean'')])
      })"

definition projected_metric :: "(string, jval) dict \<Rightarrow> jval option" where
  "projected_metric m =
     do {
       cats \<leftarrow> objs_or m ''categories'';
       subs \<leftarrow> those (map (\<lambda>c. objs_or c ''subsets'') cats);
       Some (JObj
         [(''name'', jget m ''name''), (''score'', jget m ''score''), (''num'', jget m ''num''),
          (''subsets'', JList (map (\<lambda>s. JObj [(''name'', jget s ''name''), (''score'', jget s ''score''), (''num'', jget s ''num'')])
             (filter (\<lambda>s. \<not> truthy (jget s ''is_aggregate'')) (concat subs))))])
     }"

definition report_row :: "jval \<Rightarrow> jval option" where
  "report_row v =
     do {
       rep \<leftarrow> obj_of v;
       ms \<leftarrow> objs_or rep ''metrics'';
       metrics \<leftarrow> those (map projected_metric ms);
       perf \<leftarrow> projected_perf (jget rep ''perf_metrics'');
       Some (JObj
         [(''dataset'', jget rep ''dataset_name''),
          (''pretty'', jor (jget rep ''dataset_pretty_name'') (jget rep ''dataset_name'')),
          (''description'', jget rep ''dataset_description''), (''score'', jget rep ''score''), (''num'', jget rep ''num''),
          (''metrics'', JList metrics), (''perf'', perf)])
     }"

section \<open>The files of a run\<close>

type_synonym run_fs = "(string \<times> string \<times> string, string option) dict"

definition ends_with :: "string \<Rightarrow> string \<Rightarrow> bool" where
  "ends_with suf s = starts_with (rev suf) (rev s)"

fun run_path :: "string \<times> string \<times> string \<Rightarrow> string" where
  "run_path (folder, model, name) = folder @ ''/'' @ model @ ''/'' @ name"

definition glob_run :: "string \<Rightarrow> (string \<Rightarrow> bool) \<Rightarrow> run_fs \<Rightarrow> (string \<times> string \<times> string) list" where
  "glob_run folder pat fs =
     sort_key run_path (filter (\<lambda>(d, model, name). d = folder \<and> \<not> starts_with ''.'' model \<and> pat name) (dkeys fs))"

definition report_file :: "string \<Rightarrow> bool" where
  "report_file name = (ends_with ''.json'' name \<and> \<not> starts_with ''.'' name)"

text \<open>\<open>f"{dataset}_*.jsonl"\<close> and \<open>f"{dataset}.jsonl"\<close>\<close>

definition dataset_file :: "string \<Rightarrow> string \<Rightarrow> bool" where
  "dataset_file dataset name =
     (starts_with (dataset @ ''_'') name \<and> ends_with ''.jsonl'' name \<and> length dataset + 7 \<le> length name \<or> name = dataset @ ''.jsonl'')"

definition read_file :: "run_fs \<Rightarrow> string \<times> string \<times> string \<Rightarrow> string option" where
  "read_file fs p = Option.bind (map_of fs p) (\<lambda>c. c)"

definition report :: "(string \<Rightarrow> jval option) \<Rightarrow> run_fs \<Rightarrow> jval list option" where
  "report loads fs =
     those (map report_row (List.map_filter (\<lambda>p. Option.bind (read_file fs p) loads) (glob_run ''reports'' report_file fs)))"

definition review_files :: "string \<Rightarrow> run_fs \<Rightarrow> (string \<times> string \<times> string) list" where
  "review_files dataset fs = glob_run ''reviews'' (dataset_file dataset) fs"

definition pred_files :: "string \<Rightarrow> run_fs \<Rightarrow> (string \<times> string \<times> string) list" where
  "pred_files dataset fs = glob_run ''predictions'' (dataset_file dataset) fs"

fun text_lines :: "string \<Rightarrow> string \<Rightarrow> string list" where
  "text_lines cur [] = (if cur = [] then [] else [cur])"
| "text_lines cur (c # s) = (if c = CHR 0x0A \<or> c = CHR 0x0D then cur # text_lines [] s else text_lines (cur @ [c]) s)"

section \<open>Rows\<close>

fun score_num :: "jval \<Rightarrow> real option" where
  "score_num (JBool b) = Some (if b then 1 else 0)"
| "score_num (JInt i) = Some (of_int i)"
| "score_num (JFloat r) = Some r"
| "score_num _ = None"

definition score_of :: "(string, jval) dict \<Rightarrow> ((string, jval) dict \<times> real option \<times> bool) option" where
  "score_of review =
     do {
       ss \<leftarrow> obj_or review ''sample_score'';
       sc \<leftarrow> obj_or ss ''score'';
       value \<leftarrow> obj_or sc ''value'';
       let nums = List.map_filter score_num (map snd value);
       let mean = (if nums = [] then None else Some (sum_list nums / real (length nums)));
       Some (value, mean, case mean of None \<Rightarrow> False | Some m \<Rightarrow> m \<ge> 1 / 2)
     }"

record compact_row =
  cr_index :: jval
  cr_subset :: string
  cr_scores :: "(string, jval) dict"
  cr_score :: "real option"
  cr_correct :: bool
  cr_extracted :: "string option"
  cr_target :: "string option"
  cr_preview :: "string option"

definition compact_row :: "(real \<Rightarrow> string) \<Rightarrow> string \<Rightarrow> jval \<Rightarrow> compact_row option" where
  "compact_row fl sub v =
     do {
       r \<leftarrow> obj_of v;
       ss \<leftarrow> obj_or r ''sample_score'';
       sc \<leftarrow> obj_or ss ''score'';
       (value, mean, correct) \<leftarrow> score_of r;
       Some \<lparr>cr_index = jget r ''index'', cr_subset = sub, cr_scores = value, cr_score = mean, cr_correct = correct,
         cr_extracted = truncate_text fl (jget sc ''extracted_prediction''),
         cr_target = truncate_text fl (JStr (as_text fl (jget r ''target''))),
         cr_preview = truncate_text fl (jget sc ''prediction'')\<rparr>
     }"

text \<open>The rows of one file: a line that is no JSON ends the file, keeping what came before.\<close>

fun file_rows :: "(string \<Rightarrow> jval option) \<Rightarrow> (real \<Rightarrow> string) \<Rightarrow> string \<Rightarrow> string list \<Rightarrow> compact_row list option" where
  "file_rows loads fl sub [] = Some []"
| "file_rows loads fl sub (raw # rest) =
     (let line = str_strip raw in
      if line = [] then file_rows loads fl sub rest
      else case loads line of
             None \<Rightarrow> Some []
           | Some v \<Rightarrow>
               (case compact_row fl sub v of
                  None \<Rightarrow> None
                | Some row \<Rightarrow> map_option ((#) row) (file_rows loads fl sub rest)))"

definition subset_of_file :: "string \<Rightarrow> string" where
  "subset_of_file name = take (length name - 6) name"

definition rows_in :: "(string \<Rightarrow> jval option) \<Rightarrow> (real \<Rightarrow> string) \<Rightarrow> run_fs \<Rightarrow> string \<times> string \<times> string \<Rightarrow> compact_row list option" where
  "rows_in loads fl fs p =
     (case read_file fs p of
        None \<Rightarrow> Some []
      | Some text \<Rightarrow> file_rows loads fl (subset_of_file (snd (snd p))) (text_lines [] text))"

definition compact_rows :: "(string \<Rightarrow> jval option) \<Rightarrow> (real \<Rightarrow> string) \<Rightarrow> run_fs \<Rightarrow> string \<Rightarrow> compact_row list option" where
  "compact_rows loads fl fs dataset = map_option concat (those (map (rows_in loads fl fs) (review_files dataset fs)))"

text \<open>\<open>functools.lru_cache(maxsize=16)\<close>: newest last, keyed by the arguments; an exception is not kept.\<close>

type_synonym row_cache = "(string \<times> string, compact_row list) dict"

definition cache_size :: nat where "cache_size = 16"

definition cached_rows ::
  "(string \<Rightarrow> jval option) \<Rightarrow> (real \<Rightarrow> string) \<Rightarrow> run_fs \<Rightarrow> string \<Rightarrow> string \<Rightarrow> row_cache \<Rightarrow> compact_row list option \<times> row_cache" where
  "cached_rows loads fl fs run_dir dataset cache =
     (case map_of cache (run_dir, dataset) of
        Some rows \<Rightarrow> (Some rows, dpop (run_dir, dataset) cache @ [((run_dir, dataset), rows)])
      | None \<Rightarrow>
          (case compact_rows loads fl fs dataset of
             None \<Rightarrow> (None, cache)
           | Some rows \<Rightarrow>
               (let c = cache @ [((run_dir, dataset), rows)]
                in (Some rows, if cache_size < length c then tl c else c))))"

section \<open>Pages\<close>

record sample_page =
  sp_total :: nat
  sp_total_all :: nat
  sp_total_correct :: nat
  sp_page :: nat
  sp_page_size :: nat
  sp_samples :: "compact_row list"

datatype sample_filter = All_Rows | Correct_Rows | Wrong_Rows

fun keeps :: "sample_filter \<Rightarrow> compact_row \<Rightarrow> bool" where
  "keeps All_Rows r = True"
| "keeps Correct_Rows r = cr_correct r"
| "keeps Wrong_Rows r = (\<not> cr_correct r)"

definition page_of :: "compact_row list \<Rightarrow> sample_filter \<Rightarrow> nat \<Rightarrow> nat \<Rightarrow> sample_page" where
  "page_of rows filt page page_size =
     (let kept = filter (keeps filt) rows; p = max 1 page
      in \<lparr>sp_total = length kept, sp_total_all = length rows, sp_total_correct = length (filter cr_correct rows),
          sp_page = p, sp_page_size = page_size, sp_samples = take page_size (drop ((p - 1) * page_size) kept)\<rparr>)"

definition samples ::
  "(string \<Rightarrow> jval option) \<Rightarrow> (real \<Rightarrow> string) \<Rightarrow> run_fs \<Rightarrow> string \<Rightarrow> string \<Rightarrow> sample_filter \<Rightarrow> nat \<Rightarrow> nat \<Rightarrow> row_cache \<Rightarrow>
     sample_page option \<times> row_cache" where
  "samples loads fl fs run_dir dataset filt page page_size cache =
     (case cached_rows loads fl fs run_dir dataset cache of
        (rows, c) \<Rightarrow> (map_option (\<lambda>rs. page_of rs filt page page_size) rows, c))"

section \<open>One sample\<close>

fun jint_eq :: "jval \<Rightarrow> int \<Rightarrow> bool" where
  "jint_eq (JInt j) i = (j = i)"
| "jint_eq (JFloat r) i = (r = of_int i)"
| "jint_eq (JBool b) i = ((if b then 1 else 0) = i)"
| "jint_eq _ i = False"

text \<open>\<open>Some None\<close>: no such row in this file; \<open>None\<close>: an exception.\<close>

fun find_line :: "(string \<Rightarrow> jval option) \<Rightarrow> int \<Rightarrow> string list \<Rightarrow> (string, jval) dict option option" where
  "find_line loads i [] = Some None"
| "find_line loads i (raw # rest) =
     (let line = str_strip raw in
      if line = [] then find_line loads i rest
      else case loads line of
             None \<Rightarrow> Some None
           | Some v \<Rightarrow>
               (case obj_of v of
                  None \<Rightarrow> None
                | Some r \<Rightarrow> if jint_eq (jget r ''index'') i then Some (Some r) else find_line loads i rest))"

fun find_row :: "(string \<Rightarrow> jval option) \<Rightarrow> run_fs \<Rightarrow> int \<Rightarrow> (string \<times> string \<times> string) list \<Rightarrow> (string, jval) dict option option" where
  "find_row loads fs i [] = Some None"
| "find_row loads fs i (p # ps) =
     (case (case read_file fs p of None \<Rightarrow> Some None | Some text \<Rightarrow> find_line loads i (text_lines [] text)) of
        None \<Rightarrow> None
      | Some (Some r) \<Rightarrow> Some (Some r)
      | Some None \<Rightarrow> find_row loads fs i ps)"

text \<open>\<open>pred["model_output"]["choices"][0]["message"]\<close>; then methods of the message.\<close>

definition pred_message :: "(string, jval) dict \<Rightarrow> jval option" where
  "pred_message pred =
     do {
       mo \<leftarrow> map_of pred ''model_output'';
       d \<leftarrow> obj_of mo;
       cs \<leftarrow> map_of d ''choices'';
       c \<leftarrow> (case cs of JList (x # _) \<Rightarrow> Some x | _ \<Rightarrow> None);
       cd \<leftarrow> obj_of c;
       map_of cd ''message''
     }"

definition answer_and_perf :: "(string, jval) dict option \<Rightarrow> (jval \<times> jval) option" where
  "answer_and_perf pred =
     (case pred of
        None \<Rightarrow> Some (JNull, JNull)
      | Some p \<Rightarrow>
          if p = [] then Some (JNull, JNull)
          else (case pred_message p of
             None \<Rightarrow> Some (JNull, JNull)
           | Some m \<Rightarrow>
               do {
                 msg \<leftarrow> obj_of m;
                 pm \<leftarrow> obj_or msg ''perf_metrics'';
                 Some (jget msg ''content'',
                   if pm = [] then JNull
                   else JObj [(''latency'', jget pm ''latency''), (''ttft'', jget pm ''ttft''),
                     (''input_tokens'', jget pm ''input_tokens''), (''output_tokens'', jget pm ''output_tokens'')])
               }))"

definition sample :: "(string \<Rightarrow> jval option) \<Rightarrow> (real \<Rightarrow> string) \<Rightarrow> run_fs \<Rightarrow> string \<Rightarrow> int \<Rightarrow> jval option option" where
  "sample loads fl fs dataset i =
     do {
       review \<leftarrow> find_row loads fs i (review_files dataset fs);
       pred \<leftarrow> find_row loads fs i (pred_files dataset fs);
       (if review = None \<and> pred = None then Some None
        else let rv = (case review of None \<Rightarrow> [] | Some d \<Rightarrow> d); pd = (case pred of None \<Rightarrow> [] | Some d \<Rightarrow> d) in
          do {
            (answer, perf) \<leftarrow> answer_and_perf pred;
            (value, mean, correct) \<leftarrow> score_of rv;
            Some (Some (JObj
              [(''index'', JInt i), (''prompt'', jor (jget pd ''messages'') (jor (jget rv ''messages'') (JList []))),
               (''answer'', answer),
               (''target'', if jget rv ''target'' = JNull then JNull else JStr (as_text fl (jget rv ''target''))),
               (''scores'', JObj value), (''correct'', JBool correct), (''perf'', perf)]))
          })
     }"

section \<open>The endpoints\<close>

text \<open>\<open>run.get("output_dir") or os.path.join(eval_root, str(run_id))\<close>\<close>

definition run_dir_of :: "string \<Rightarrow> int \<Rightarrow> string option \<Rightarrow> string" where
  "run_dir_of eval_root i output_dir =
     (case output_dir of None \<Rightarrow> eval_root @ ''/'' @ show_int i | Some d \<Rightarrow> if d = [] then eval_root @ ''/'' @ show_int i else d)"

definition get_run_samples ::
  "(string \<Rightarrow> jval option) \<Rightarrow> (real \<Rightarrow> string) \<Rightarrow> run_fs \<Rightarrow> string \<Rightarrow> string \<Rightarrow> sample_filter \<Rightarrow> int \<Rightarrow> int \<Rightarrow> row_cache \<Rightarrow>
     sample_page option \<times> row_cache" where
  "get_run_samples loads fl fs run_dir dataset filt page page_size cache =
     samples loads fl fs run_dir dataset filt (nat page) (nat (max 1 (min page_size 200))) cache"

text \<open>\<open>lines[-tail:]\<close>\<close>

definition log_tail :: "int \<Rightarrow> 'a list \<Rightarrow> 'a list" where
  "log_tail tail lines =
     (if tail \<le> 0 then drop (nat (- tail)) lines else drop (length lines - nat tail) lines)"

section \<open>The pages of a list\<close>

lemma pages_cover: "concat (map (\<lambda>p. take n (drop (p * n) xs)) [0..<k]) = take (k * n) xs"
proof (induction k)
  case (Suc k)
  then show ?case
    by (simp add: take_add [symmetric] add.commute)
qed simp

lemma page_samples: "sp_samples (page_of rows filt (Suc p) n) = take n (drop (p * n) (filter (keeps filt) rows))"
  by (simp add: page_of_def Let_def)

text \<open>
  Going through the pages of a sample list, for any filter and page size, shows every row that passes the
  filter exactly once and in order; the counts of every page are those of the whole list, and the right and
  the wrong rows together are all rows.
\<close>

theorem sample_pages_cover:
  assumes "0 < n" "length (filter (keeps filt) rows) \<le> k * n"
  shows "concat (map (\<lambda>p. sp_samples (page_of rows filt (Suc p) n)) [0..<k]) = filter (keeps filt) rows \<and>
    (\<forall>p. sp_total (page_of rows filt p n) = length (filter (keeps filt) rows)) \<and>
    (\<forall>p. sp_total (page_of rows Correct_Rows p n) + sp_total (page_of rows Wrong_Rows p n) = sp_total_all (page_of rows filt p n)) \<and>
    (\<forall>p. sp_total_correct (page_of rows filt p n) = sp_total (page_of rows Correct_Rows p n))"
proof -
  have "length (filter cr_correct rows) + length (filter (\<lambda>r. \<not> cr_correct r) rows) = length rows"
    by (rule sum_length_filter_compl)
  moreover have "filter (keeps Correct_Rows) rows = filter cr_correct rows" "filter (keeps Wrong_Rows) rows = filter (\<lambda>r. \<not> cr_correct r) rows"
    by (simp_all cong: filter_cong)
  ultimately show ?thesis
    using assms(2) by (simp add: page_samples pages_cover) (simp add: page_of_def Let_def)
qed

section \<open>The cache\<close>

lemma dpop_length: "dict_ok d \<Longrightarrow> dhas d k \<Longrightarrow> Suc (length (dpop k d)) = length d"
proof (induction d)
  case (Cons p d)
  show ?case
  proof (cases "fst p = k")
    case True
    then have "\<not> dhas d k"
      using Cons.prems(1) by (auto simp: dict_ok_def dhas_iff_keys dkeys_def)
    then have "dpop k (p # d) = d"
      using True dpop_absent [of d k] by (cases p) (simp add: dpop_def)
    then show ?thesis by simp
  next
    case False
    then have "dpop k (p # d) = p # dpop k d" "dhas d k" "dict_ok d"
      using Cons.prems by (cases p; auto simp: dpop_def dhas_def dict_ok_def)+
    then show ?thesis using Cons.IH by simp
  qed
qed (simp add: dhas_def)

lemma cached_rows_ok:
  assumes "dict_ok c" "length c \<le> cache_size"
  shows "dict_ok (snd (cached_rows loads fl fs d ds c)) \<and> length (snd (cached_rows loads fl fs d ds c)) \<le> cache_size"
proof (cases "map_of c (d, ds)")
  case (Some rows)
  then have h: "dhas c (d, ds)" by (simp add: dhas_def)
  have "(d, ds) \<notin> fst ` set (dpop (d, ds) c)"
    by (auto simp: dpop_def AList.delete_eq)
  then have "dict_ok (dpop (d, ds) c @ [((d, ds), rows)])"
    using dict_ok_dpop [OF assms(1), of "(d, ds)"] by (auto simp: dict_ok_def)
  then show ?thesis
    using dpop_length [OF assms(1) h] assms(2) by (simp add: cached_rows_def Some)
next
  case None
  then have "dict_ok (c @ [((d, ds), rows)])" for rows
    using assms(1) by (auto simp: dict_ok_def map_of_eq_None_iff)
  then show ?thesis
    using assms None by (cases c)
      (auto simp: cached_rows_def Let_def dict_ok_def cache_size_def split: option.split)
qed

text \<open>
  What was cached answers every later request of the pair, whatever the files hold by then.  The endpoint
  serves runs that still write their files, so a look at a running evaluation freezes its sample list.
\<close>

lemma samples_frozen:
  assumes "fst (cached_rows loads fl fs d ds c) = Some rows" "dict_ok c" "length c \<le> cache_size"
  shows "fst (samples loads fl fs' d ds filt p n (snd (cached_rows loads fl fs d ds c))) = Some (page_of rows filt p n)"
proof -
  have "map_of (snd (cached_rows loads fl fs d ds c)) (d, ds) = Some rows"
  proof (cases "map_of c (d, ds)")
    case (Some r)
    moreover have "map_of (dpop (d, ds) c) (d, ds) = None" by simp
    ultimately show ?thesis
      using assms(1) by (simp add: cached_rows_def map_add_def)
  next
    case None
    then obtain r where r: "compact_rows loads fl fs ds = Some r"
      using assms(1) by (cases "compact_rows loads fl fs ds") (simp_all add: cached_rows_def)
    show ?thesis
      using None r assms(1) by (cases c) (auto simp: cached_rows_def Let_def cache_size_def map_add_def split: if_splits option.splits)
  qed
  then show ?thesis
    by (simp add: samples_def cached_rows_def)
qed

section \<open>Witnesses and what goes wrong\<close>

definition demo_row :: "int \<Rightarrow> bool \<Rightarrow> compact_row" where
  "demo_row i ok = \<lparr>cr_index = JInt i, cr_subset = ''gsm8k_main'', cr_scores = [], cr_score = None, cr_correct = ok,
     cr_extracted = None, cr_target = None, cr_preview = None\<rparr>"

lemma sample_pages_cover_witness:
  "concat (map (\<lambda>p. sp_samples (page_of [demo_row 1 True, demo_row 2 False, demo_row 3 False] Wrong_Rows (Suc p) 1)) [0..<2])
     = [demo_row 2 False, demo_row 3 False] \<and>
   sp_total_correct (page_of [demo_row 1 True, demo_row 2 False, demo_row 3 False] Wrong_Rows 2 1) = 1"
  using sample_pages_cover [of 1 Wrong_Rows "[demo_row 1 True, demo_row 2 False, demo_row 3 False]" 2]
  by (simp add: demo_row_def page_of_def)

text \<open>The directory is the same before and after the run stores it.\<close>

lemma run_dir_stable: "run_dir_of evals i None = run_dir_of evals i (Some (evals @ ''/'' @ show_int i))"
  by (simp add: run_dir_of_def)

lemma running_list_frozen:
  "fst (samples loads fl fs' d ''gsm8k'' All_Rows 1 50 (snd (cached_rows loads fl [] d ''gsm8k'' []))) = Some (page_of [] All_Rows 1 50)"
proof -
  have "fst (cached_rows loads fl [] d ''gsm8k'' []) = Some []"
    by (simp add: cached_rows_def compact_rows_def review_files_def glob_run_def dkeys_def Let_def)
  then show ?thesis
    by (rule samples_frozen) (simp_all add: dict_ok_def)
qed

text \<open>The pattern of a data set also matches the files of one whose name continues it.\<close>

definition pro_line :: "string \<Rightarrow> jval option" where
  "pro_line s = Some (JObj [(''index'', JInt 1)])"

lemma sibling_files_mixed: "dataset_file ''mmlu'' ''mmlu_pro_all.jsonl'' \<and> dataset_file ''mmlu'' ''mmlu_redux_all.jsonl''"
  by code_simp

lemma sibling_rows_mixed:
  "map_option (map cr_subset) (compact_rows pro_line fl [((''reviews'', ''m'', ''mmlu_pro_all.jsonl''), Some ''x'')] ''mmlu'') = Some [''mmlu_pro_all'']"
proof -
  have f: "review_files ''mmlu'' [((''reviews'', ''m'', ''mmlu_pro_all.jsonl''), Some ''x'')] = [(''reviews'', ''m'', ''mmlu_pro_all.jsonl'')]"
    using sibling_files_mixed by (simp add: review_files_def glob_run_def dkeys_def starts_with_def)
  have "subset_of_file ''mmlu_pro_all.jsonl'' = ''mmlu_pro_all''" "str_strip ''x'' = ''x''"
    by code_simp+
  then show ?thesis
    by (simp add: compact_rows_def f rows_in_def read_file_def pro_line_def compact_row_def score_of_def obj_or_def jget_def dget_def
        List.map_filter_simps)
qed

text \<open>
  The detail takes the first row of a number in any file of the data set: where two subsets number their rows
  alike, only those of the first can be opened.
\<close>

lemma sample_shadowed:
  assumes "find_row loads fs i ps = Some (Some r)"
  shows "find_row loads fs i (ps @ qs) = Some (Some r)"
  using assms by (induction ps) (auto split: option.splits)

end
