(* ===== verification/Cost_Report.thy ===== *)
theory Cost_Report
  imports Ops_Store "HOL-Library.List_Lexorder" "HOL-Library.Char_ord"
begin

text \<open>
  Spend per model and per API key: apps/backend/app/services/cost.py and the summary endpoint of
  api/cost.py, on the token sums of the store.  Floats are reals; \<open>round(x, 6)\<close> rounds half to even.
\<close>

section \<open>Prices\<close>

definition PER :: real where "PER = 1000000"

definition list_model_prices :: "store \<Rightarrow> (string \<times> price_row) list" where
  "list_model_prices s = sort_key fst (so_prices s)"

definition price_rate :: "price_row option \<Rightarrow> real \<Rightarrow> real \<Rightarrow> real \<times> real" where
  "price_rate price default_in default_out =
     (case price of None \<Rightarrow> (default_in, default_out) | Some p \<Rightarrow> (pr_input p, pr_output p))"

definition line_cost :: "int \<Rightarrow> int \<Rightarrow> price_row option \<Rightarrow> real \<Rightarrow> real \<Rightarrow> real" where
  "line_cost prompt completion price default_in default_out =
     (case price_rate price default_in default_out of
        (pin, pout) \<Rightarrow> of_int prompt / PER * pin + of_int completion / PER * pout)"

definition round6 :: "real \<Rightarrow> real" where
  "round6 x = of_int (round_half_even (x * 1000000)) / 1000000"

section \<open>The summary\<close>

record model_cost =
  mc_model :: string
  mc_usage :: usage_row
  mc_input_price :: real
  mc_output_price :: real
  mc_priced :: bool
  mc_cost :: real

record key_cost =
  kc_name :: string
  kc_usage :: usage_row
  kc_cost :: real

record cost_summary =
  cs_currency :: string
  cs_total :: real
  cs_default_in :: real
  cs_default_out :: real
  cs_any_unpriced :: bool
  cs_by_model :: "model_cost list"
  cs_by_key :: "key_cost list"

definition price_by_model :: "(string \<times> price_row) list \<Rightarrow> string \<Rightarrow> price_row option" where
  "price_by_model prices = map_of (fold (\<lambda>(m, p) d. dset m p d) prices [])"

definition row_cost :: "(string \<times> price_row) list \<Rightarrow> real \<Rightarrow> real \<Rightarrow> string \<Rightarrow> usage_row \<Rightarrow> real" where
  "row_cost prices din dout m u = line_cost (us_prompt u) (us_completion u) (price_by_model prices m) din dout"

definition model_line :: "(string \<times> price_row) list \<Rightarrow> real \<Rightarrow> real \<Rightarrow> string \<times> usage_row \<Rightarrow> model_cost" where
  "model_line prices din dout = (\<lambda>(m, u).
     \<lparr>mc_model = m, mc_usage = u, mc_input_price = fst (price_rate (price_by_model prices m) din dout),
      mc_output_price = snd (price_rate (price_by_model prices m) din dout),
      mc_priced = (price_by_model prices m \<noteq> None), mc_cost = round6 (row_cost prices din dout m u)\<rparr>)"

definition no_usage :: usage_row where
  "no_usage = \<lparr>us_requests = 0, us_prompt = 0, us_completion = 0, us_total = 0\<rparr>"

definition add_usage :: "usage_row \<Rightarrow> usage_row \<Rightarrow> usage_row" where
  "add_usage a b = \<lparr>us_requests = us_requests a + us_requests b, us_prompt = us_prompt a + us_prompt b,
     us_completion = us_completion a + us_completion b, us_total = us_total a + us_total b\<rparr>"

text \<open>The running totals of a key, not yet rounded.\<close>

definition charge ::
  "(string \<times> price_row) list \<Rightarrow> real \<Rightarrow> real \<Rightarrow> ('n \<times> string) \<times> usage_row \<Rightarrow> ('n, usage_row \<times> real) dict \<Rightarrow> ('n, usage_row \<times> real) dict" where
  "charge prices din dout = (\<lambda>((name, m), u) keys.
     let (u0, c0) = dget keys name (no_usage, 0)
     in dset name (add_usage u0 u, c0 + row_cost prices din dout m u) keys)"

definition key_costs ::
  "(string \<times> price_row) list \<Rightarrow> real \<Rightarrow> real \<Rightarrow> (('n \<times> string) \<times> usage_row) list \<Rightarrow> ('n, usage_row \<times> real) dict" where
  "key_costs prices din dout by_key = fold (charge prices din dout) by_key []"

definition model_total :: "(string \<times> price_row) list \<Rightarrow> real \<Rightarrow> real \<Rightarrow> (string \<times> usage_row) list \<Rightarrow> real" where
  "model_total prices din dout by_model = fold (\<lambda>(m, u) t. t + row_cost prices din dout m u) by_model 0"

definition build_summary ::
  "(string \<times> usage_row) list \<Rightarrow> ((string \<times> string) \<times> usage_row) list \<Rightarrow> (string \<times> price_row) list \<Rightarrow>
   real \<Rightarrow> real \<Rightarrow> string \<Rightarrow> cost_summary" where
  "build_summary by_model by_key prices din dout currency =
     (let models = map (model_line prices din dout) by_model
      in \<lparr>cs_currency = currency, cs_total = round6 (model_total prices din dout by_model),
          cs_default_in = din, cs_default_out = dout, cs_any_unpriced = list_ex (\<lambda>m. \<not> mc_priced m) models,
          cs_by_model = models,
          cs_by_key = sort_key (\<lambda>r. - kc_cost r)
            (map (\<lambda>(n, u, c). \<lparr>kc_name = n, kc_usage = u, kc_cost = round6 c\<rparr>) (key_costs prices din dout by_key))\<rparr>)"

text \<open>The rows of \<open>token_usage_by_key\<close> name a key, \<open>NULL\<close> is filtered in SQL.\<close>

definition named_usage :: "((string option \<times> string) \<times> usage_row) list \<Rightarrow> ((string \<times> string) \<times> usage_row) list" where
  "named_usage rows = map (\<lambda>((n, m), u). ((the n, m), u)) rows"

definition cost_report :: "real \<Rightarrow> real \<Rightarrow> string \<Rightarrow> real option \<Rightarrow> real option \<Rightarrow> store \<Rightarrow> cost_summary" where
  "cost_report din dout currency since until s =
     build_summary (token_usage_by_model since until s) (named_usage (token_usage_by_key since until s))
       (list_model_prices s) din dout currency"

section \<open>What a request costs\<close>

text \<open>The reference: every logged request is charged by itself, at the price of its model.\<close>

definition request_cost :: "(string \<times> price_row) list \<Rightarrow> real \<Rightarrow> real \<Rightarrow> request_row \<Rightarrow> real" where
  "request_cost prices din dout r =
     line_cost (case rr_prompt r of None \<Rightarrow> 0 | Some n \<Rightarrow> n) (case rr_completion r of None \<Rightarrow> 0 | Some n \<Rightarrow> n)
       (price_by_model prices (rr_model r)) din dout"

definition logged :: "real option \<Rightarrow> real option \<Rightarrow> store \<Rightarrow> request_row list" where
  "logged since until s = filter (\<lambda>r. in_ts_window since until (rr_ts r)) (map snd (tb_rows (so_requests s)))"

section \<open>Grouping loses nothing\<close>

lemma indicator_sum:
  fixes x :: "'b::comm_monoid_add"
  shows "distinct ks \<Longrightarrow> k \<in> set ks \<Longrightarrow> sum_list (map (\<lambda>j. if k = j then x else 0) ks) = x"
proof (induction ks)
  case (Cons j ks)
  have "k \<notin> set ks \<Longrightarrow> sum_list (map (\<lambda>j. if k = j then x else 0) ks) = 0" by (induction ks) auto
  with Cons show ?case by auto
qed simp

lemma group_sum:
  fixes f :: "'r \<Rightarrow> 'b::comm_monoid_add"
  assumes "distinct ks" "key ` set rs \<subseteq> set ks"
  shows "sum_list (map (\<lambda>k. sum_list (map f (filter (\<lambda>r. key r = k) rs))) ks) = sum_list (map f rs)"
  using assms(2)
proof (induction rs)
  case (Cons r rs)
  have "sum_list (map (\<lambda>k. sum_list (map f (filter (\<lambda>q. key q = k) (r # rs)))) ks) =
      sum_list (map (\<lambda>k. (if key r = k then f r else 0) + sum_list (map f (filter (\<lambda>q. key q = k) rs))) ks)"
    by (intro arg_cong [of _ _ sum_list] map_cong) auto
  also have "\<dots> = f r + sum_list (map f rs)"
    using Cons assms(1) by (simp add: sum_list_addf indicator_sum)
  finally show ?case by simp
qed simp

lemma osum_sum: "osum (map f rs) = sum_list (map (\<lambda>r. case f r of None \<Rightarrow> 0 | Some n \<Rightarrow> n) rs)"
  by (simp add: osum_def comp_def)

lemma osum_Cons: "osum (x # xs) = (case x of None \<Rightarrow> 0 | Some n \<Rightarrow> n) + osum xs" "osum [] = 0"
  by (simp_all add: osum_def)

lemma row_cost_usage:
  "(\<And>r. r \<in> set rs \<Longrightarrow> rr_model r = m) \<Longrightarrow> row_cost prices din dout m (usage_of rs) = sum_list (map (request_cost prices din dout) rs)"
proof (induction rs)
  case (Cons r rs)
  then have ih: "row_cost prices din dout m (usage_of rs) = sum_list (map (request_cost prices din dout) rs)" by simp
  have "row_cost prices din dout m (usage_of (r # rs)) = request_cost prices din dout r + row_cost prices din dout m (usage_of rs)"
    using Cons.prems by (simp add: row_cost_def line_cost_def usage_of_def request_cost_def osum_Cons add_divide_distrib distrib_right case_prod_beta)
  with ih show ?case by simp
qed (simp add: row_cost_def line_cost_def usage_of_def osum_Cons case_prod_beta)

lemma fold_add: "fold (\<lambda>(m, u) t. t + g m u) xs (t::real) = t + sum_list (map (\<lambda>(m, u). g m u) xs)"
  by (induction xs arbitrary: t) auto

lemma logged_by_model: "set (token_usage_by_model since until s) = set (group_usage rr_model (logged since until s))"
  by (simp add: token_usage_by_model_def logged_def)

lemma sum_list_sort_key: "sum_list (map (f :: _ \<Rightarrow> real) (sort_key k xs)) = sum_list (map f xs)"
  by (metis mset_map mset_sort sum_mset_sum_list)

lemma model_total_requests:
  "model_total prices din dout (token_usage_by_model since until s) = sum_list (map (request_cost prices din dout) (logged since until s))"
proof -
  let ?L = "logged since until s"
  have "model_total prices din dout (token_usage_by_model since until s) =
      sum_list (map (\<lambda>(m, u). row_cost prices din dout m u) (group_usage rr_model ?L))"
    by (simp add: model_total_def fold_add token_usage_by_model_def logged_def sum_list_sort_key)
  also have "\<dots> = sum_list (map (\<lambda>m. sum_list (map (request_cost prices din dout) (filter (\<lambda>r. rr_model r = m) ?L))) (remdups (map rr_model ?L)))"
    unfolding group_usage_def map_map
    by (intro arg_cong [of _ _ sum_list] map_cong refl) (auto intro: row_cost_usage)
  also have "\<dots> = sum_list (map (request_cost prices din dout) ?L)" by (rule group_sum) auto
  finally show ?thesis .
qed

lemma charge_fold:
  "map_of (fold (charge prices din dout) rows keys) n =
     (let rs = filter (\<lambda>x. fst (fst x) = n) rows; z = dget keys n (no_usage, 0)
      in if rs = [] then map_of keys n
         else Some (fold (\<lambda>u t. add_usage t u) (map snd rs) (fst z), snd z + sum_list (map (\<lambda>x. row_cost prices din dout (snd (fst x)) (snd x)) rs)))"
proof (induction rows arbitrary: keys)
  case (Cons row rows)
  have "map_of (charge prices din dout row keys) n =
      (if fst (fst row) = n then Some (add_usage (fst (dget keys n (no_usage, 0))) (snd row),
         snd (dget keys n (no_usage, 0)) + row_cost prices din dout (snd (fst row)) (snd row)) else map_of keys n)"
    by (simp add: charge_def case_prod_beta map_of_dset)
  then show ?case
    using Cons.IH [of "charge prices din dout row keys"] by (simp add: Let_def dget_def)
qed (simp add: Let_def)

lemma fold_add_usage:
  "fold (\<lambda>v t. add_usage t v) us u = \<lparr>us_requests = us_requests u + sum_list (map us_requests us), us_prompt = us_prompt u + sum_list (map us_prompt us),
     us_completion = us_completion u + sum_list (map us_completion us), us_total = us_total u + sum_list (map us_total us)\<rparr>"
  by (induction us arbitrary: u) (simp_all add: add_usage_def)

lemma usage_of_sums:
  "us_requests (usage_of rs) = sum_list (map (\<lambda>_. 1) rs)" "us_prompt (usage_of rs) = sum_list (map (\<lambda>r. case rr_prompt r of None \<Rightarrow> 0 | Some n \<Rightarrow> n) rs)"
  "us_completion (usage_of rs) = sum_list (map (\<lambda>r. case rr_completion r of None \<Rightarrow> 0 | Some n \<Rightarrow> n) rs)"
  "us_total (usage_of rs) = sum_list (map (\<lambda>r. case rr_total r of None \<Rightarrow> 0 | Some n \<Rightarrow> n) rs)"
  by (simp_all add: usage_of_def osum_sum sum_list_triv)

text \<open>The rows of one key, and the requests behind them.\<close>

definition key_models :: "string \<Rightarrow> request_row list \<Rightarrow> string list" where
  "key_models n rs = remdups (map rr_model (filter (\<lambda>r. rr_key r = Some n) rs))"

lemma remdups_pair: "remdups (map (\<lambda>r. (c, f r)) xs) = map (Pair c) (remdups (map f xs))"
  by (induction xs) auto

lemma key_rows:
  "filter (\<lambda>x. fst (fst x) = n) (named_usage (token_usage_by_key since until s)) =
   map (\<lambda>m. ((n, m), usage_of (filter (\<lambda>r. rr_model r = m) (filter (\<lambda>r. rr_key r = Some n) (logged since until s)))))
     (key_models n (logged since until s))"
proof -
  let ?L = "filter (\<lambda>r. rr_key r \<noteq> None) (logged since until s)"
  let ?k = "\<lambda>r. (rr_key r, rr_model r)"
  have named: "fst k \<noteq> None" if "k \<in> set (remdups (map ?k ?L))" for k using that by auto
  have "filter (\<lambda>k. fst k = Some n) (remdups (map ?k ?L)) = remdups (map ?k (filter (\<lambda>r. rr_key r = Some n) (logged since until s)))"
  proof -
    have "filter (\<lambda>r. rr_key r = Some n) ?L = filter (\<lambda>r. rr_key r = Some n) (logged since until s)"
      by (auto intro: filter_cong)
    then show ?thesis by (simp only: remdups_filter [symmetric] filter_map comp_def fst_conv)
  qed
  also have "map ?k (filter (\<lambda>r. rr_key r = Some n) rs) = map (\<lambda>r. (Some n, rr_model r)) (filter (\<lambda>r. rr_key r = Some n) rs)" for rs
    by auto
  finally have keys: "filter (\<lambda>k. fst k = Some n) (remdups (map ?k ?L)) = map (Pair (Some n)) (key_models n (logged since until s))"
    by (simp add: remdups_pair key_models_def)
  have rows: "token_usage_by_key since until s = group_usage ?k ?L"
    by (simp add: token_usage_by_key_def logged_def conj_commute)
  have "filter (\<lambda>x. fst (fst x) = n) (named_usage (group_usage ?k ?L)) =
      map (\<lambda>k. ((the (fst k), snd k), usage_of (filter (\<lambda>r. ?k r = k) ?L))) (filter (\<lambda>k. the (fst k) = n) (remdups (map ?k ?L)))"
    by (simp add: named_usage_def group_usage_def filter_map comp_def case_prod_beta)
  also have "filter (\<lambda>k. the (fst k) = n) (remdups (map ?k ?L)) = filter (\<lambda>k. fst k = Some n) (remdups (map ?k ?L))"
  proof (intro filter_cong refl)
    fix k assume "k \<in> set (remdups (map ?k ?L))"
    then have "fst k \<noteq> None" by (rule named)
    then show "(the (fst k) = n) = (fst k = Some n)" by auto
  qed
  finally show ?thesis
    unfolding rows keys by (simp add: comp_def) (intro ballI arg_cong [of _ _ usage_of] filter_cong refl, auto)
qed

section \<open>The report\<close>

lemma key_models_groups: "rr_model ` set (filter (\<lambda>r. rr_key r = Some n) rs) \<subseteq> set (key_models n rs)"
  by (auto simp: key_models_def)

lemma key_total:
  defines "K n rs \<equiv> filter (\<lambda>r. rr_key r = Some n) rs"
  shows "map_of (key_costs prices din dout (named_usage (token_usage_by_key since until s))) n =
    (if K n (logged since until s) = [] then None
     else Some (usage_of (K n (logged since until s)), sum_list (map (request_cost prices din dout) (K n (logged since until s)))))"
proof -
  let ?R = "K n (logged since until s)" and ?ms = "key_models n (logged since until s)"
  have empty: "?ms = [] \<longleftrightarrow> ?R = []" by (simp add: key_models_def K_def)
  have grp: "sum_list (map (\<lambda>m. sum_list (map f (filter (\<lambda>r. rr_model r = m) ?R))) ?ms) = sum_list (map f ?R)" for f :: "request_row \<Rightarrow> 'x::comm_monoid_add"
    by (rule group_sum) (use key_models_groups in \<open>auto simp: key_models_def K_def\<close>)
  have cost: "sum_list (map (\<lambda>m. row_cost prices din dout m (usage_of (filter (\<lambda>r. rr_model r = m) ?R))) ?ms) =
      sum_list (map (request_cost prices din dout) ?R)"
  proof -
    have "map (\<lambda>m. row_cost prices din dout m (usage_of (filter (\<lambda>r. rr_model r = m) ?R))) ?ms =
        map (\<lambda>m. sum_list (map (request_cost prices din dout) (filter (\<lambda>r. rr_model r = m) ?R))) ?ms"
      by (intro map_cong refl row_cost_usage) auto
    then show ?thesis by (simp only: grp)
  qed
  have usage: "fold (\<lambda>v t. add_usage t v) (map (\<lambda>m. usage_of (filter (\<lambda>r. rr_model r = m) ?R)) ?ms) no_usage = usage_of ?R"
    by (rule usage_row.equality) (simp_all only: fold_add_usage map_map comp_def usage_row.simps usage_of_sums grp no_usage_def add_0, simp)
  show ?thesis
    unfolding key_costs_def charge_fold Let_def key_rows K_def [symmetric]
    using empty cost usage by (simp add: comp_def dget_def)
qed

lemma charge_dict: "dict_ok keys \<Longrightarrow> dict_ok (fold (charge prices din dout) rows keys)"
  by (induction rows arbitrary: keys) (auto simp: charge_def case_prod_beta)

text \<open>
  C24: The cost page adds up.  Its total is the sum of what every logged request of the window costs
  at the price of its model, its model lines are exactly the models asked for, each charged its own requests,
  and its key lines are exactly the keys used, each with the usage and the cost of all its requests
  over all models; amounts are rounded only once, when they are shown.  Amounts are exact reals here,
  Python floats in the code.
\<close>

theorem cost_report_exact:
  "cs_total (cost_report din dout cur since until s) =
     round6 (sum_list (map (request_cost (list_model_prices s) din dout) (logged since until s))) \<and>
   (\<lambda>m. (mc_model m, mc_cost m)) ` set (cs_by_model (cost_report din dout cur since until s)) =
     (\<lambda>m. (m, round6 (sum_list (map (request_cost (list_model_prices s) din dout) (filter (\<lambda>r. rr_model r = m) (logged since until s))))))
       ` rr_model ` set (logged since until s) \<and>
   set (cs_by_key (cost_report din dout cur since until s)) =
     (\<lambda>n. \<lparr>kc_name = n, kc_usage = usage_of (filter (\<lambda>r. rr_key r = Some n) (logged since until s)),
            kc_cost = round6 (sum_list (map (request_cost (list_model_prices s) din dout) (filter (\<lambda>r. rr_key r = Some n) (logged since until s))))\<rparr>)
       ` {n. Some n \<in> rr_key ` set (logged since until s)} \<and>
   distinct (map kc_name (cs_by_key (cost_report din dout cur since until s)))"
proof (intro conjI)
  let ?L = "logged since until s" and ?p = "list_model_prices s"
  let ?kr = "key_costs ?p din dout (named_usage (token_usage_by_key since until s))"
  have ok: "dict_ok ?kr" by (simp add: key_costs_def charge_dict)
  show "cs_total (cost_report din dout cur since until s) = round6 (sum_list (map (request_cost ?p din dout) ?L))"
    by (simp add: cost_report_def build_summary_def Let_def model_total_requests)
  have line: "round6 (row_cost ?p din dout m (usage_of (filter (\<lambda>r. rr_model r = m) ?L))) =
      round6 (sum_list (map (request_cost ?p din dout) (filter (\<lambda>r. rr_model r = m) ?L)))" for m
    by (rule arg_cong [OF row_cost_usage]) simp
  show "(\<lambda>m. (mc_model m, mc_cost m)) ` set (cs_by_model (cost_report din dout cur since until s)) =
      (\<lambda>m. (m, round6 (sum_list (map (request_cost ?p din dout) (filter (\<lambda>r. rr_model r = m) ?L))))) ` rr_model ` set ?L"
    by (simp add: cost_report_def build_summary_def Let_def model_line_def logged_by_model group_usage_def image_image line)
  have "set ?kr = {(n, v). map_of ?kr n = Some v}"
    using ok by (auto simp: dict_ok_def map_of_eq_Some_iff)
  also have "\<dots> = (\<lambda>n. (n, usage_of (filter (\<lambda>r. rr_key r = Some n) ?L),
      sum_list (map (request_cost ?p din dout) (filter (\<lambda>r. rr_key r = Some n) ?L)))) ` {n. Some n \<in> rr_key ` set ?L}"
    by (auto simp: key_total filter_empty_conv image_iff split: if_splits) metis
  finally have rows: "set ?kr = \<dots>" .
  show "set (cs_by_key (cost_report din dout cur since until s)) =
      (\<lambda>n. \<lparr>kc_name = n, kc_usage = usage_of (filter (\<lambda>r. rr_key r = Some n) ?L),
             kc_cost = round6 (sum_list (map (request_cost ?p din dout) (filter (\<lambda>r. rr_key r = Some n) ?L)))\<rparr>)
        ` {n. Some n \<in> rr_key ` set ?L}"
    by (simp add: cost_report_def build_summary_def Let_def rows image_image case_prod_beta)
  have name: "kc_name (case x of (n, u, c) \<Rightarrow> \<lparr>kc_name = n, kc_usage = u, kc_cost = round6 c\<rparr>) = fst x" for x :: "string \<times> usage_row \<times> real"
    by (cases x) simp
  have "mset (map kc_name (cs_by_key (cost_report din dout cur since until s))) = mset (map fst ?kr)"
    by (simp add: cost_report_def build_summary_def Let_def image_mset.compositionality comp_def name)
  then show "distinct (map kc_name (cs_by_key (cost_report din dout cur since until s)))"
    using ok by (metis dict_ok_def mset_eq_imp_distinct_iff)
qed

end
