(* ===== verification/Embedding_Server.thy ===== *)
theory Embedding_Server
  imports Downloads Vllm_Command Eval_Reports
begin

text \<open>
  The embedding and reranking server: apps/router-server/src/embedding_reranker, the builder that downloads
  and loads the configured models (generator.py, baseinferencer.py), the batched inference loops of the five
  model classes (embed_rerank.py) and the endpoints (embedding_reranker_launcher.py).

  What torch and transformers compute is the record \<open>runtime\<close>: the last hidden state and the logits of
  a batch, the token counts, the length limit of a tokenizer, whether weights load, and what a download writes.
  \<open>None\<close> is an exception.  The float scores are reals; \<open>math.exp\<close> overflows as Python's does.
  The builder keeps its models as attributes of itself under their configured names, as the code does, so
  \<open>bd_attrs\<close> holds what \<open>setattr\<close> stored; a read of one of the builder's own attributes finds a model
  that took its name.
\<close>

section \<open>Models and the libraries they call\<close>

datatype engine_class = Embedder | JinaEmbedder | OnnxEmbedder | Reranker | OnnxReranker

record loaded =
  lm_class :: engine_class
  lm_name :: string
  lm_weights :: path
  lm_tokenizer :: path
  lm_max_length :: nat
  lm_half :: bool

type_synonym pair = "string \<times> string"

record runtime =
  rt_hidden :: "loaded \<Rightarrow> string list \<Rightarrow> real list list list option"
  rt_logits :: "loaded \<Rightarrow> pair list \<Rightarrow> real list list option"
  rt_tokens :: "loaded \<Rightarrow> string list + pair list \<Rightarrow> nat list option"
  rt_tok_max :: "path \<Rightarrow> nat option"
  rt_weights :: "engine_class \<Rightarrow> path \<Rightarrow> fsys \<Rightarrow> bool"
  rt_cuda :: bool

text \<open>An embedding as \<open>emb.tolist()\<close> answers it: one vector, or a vector for every token.\<close>

datatype embedding = Vec "real list" | Mat "real list list"

section \<open>The batched loops\<close>

text \<open>\<open>range(0, n, b)\<close> and the slices \<open>xs[i:i+b]\<close>.\<close>

definition batch_starts :: "nat \<Rightarrow> nat \<Rightarrow> nat list" where
  "batch_starts b n = map (\<lambda>j. j * b) [0..<(n + b - 1) div b]"

definition chunk :: "nat \<Rightarrow> nat \<Rightarrow> 'a list \<Rightarrow> 'a list" where
  "chunk i b xs = take b (drop i xs)"

fun batch_loop :: "('a list \<Rightarrow> 'b list option) \<Rightarrow> nat \<Rightarrow> 'a list \<Rightarrow> nat list \<Rightarrow> 'b list \<Rightarrow> 'b list option" where
  "batch_loop f b xs [] acc = Some acc"
| "batch_loop f b xs (i # is) acc =
     (case f (chunk i b xs) of None \<Rightarrow> None | Some ys \<Rightarrow> batch_loop f b xs is (acc @ ys))"

definition batch_size :: "engine_class \<Rightarrow> nat" where
  "batch_size c = (case c of OnnxEmbedder \<Rightarrow> 16 | OnnxReranker \<Rightarrow> 16 | _ \<Rightarrow> 8)"

text \<open>\<open>logits.view(-1,)\<close>: the rows of the batch one after the other.\<close>

definition score_batch :: "runtime \<Rightarrow> loaded \<Rightarrow> string \<Rightarrow> string list \<Rightarrow> real list option" where
  "score_batch rt m query batch_docs =
     map_option concat (rt_logits rt m (map (\<lambda>d. (query, d)) batch_docs))"

definition rerank_call :: "runtime \<Rightarrow> loaded \<Rightarrow> string \<Rightarrow> string list \<Rightarrow> real list option" where
  "rerank_call rt m query documents =
     (let b = batch_size (lm_class m) in
      if lm_class m \<in> {Reranker, OnnxReranker}
      then batch_loop (score_batch rt m query) b documents (batch_starts b (length documents)) []
      else None)"

text \<open>\<open>last_hidden_state[:, 0, :]\<close> of a batch; an empty sequence has no position 0.\<close>

definition cls_batch :: "runtime \<Rightarrow> loaded \<Rightarrow> string list \<Rightarrow> real list list option" where
  "cls_batch rt m texts =
     (case rt_hidden rt m texts of
        None \<Rightarrow> None
      | Some hs \<Rightarrow> if [] \<in> set hs then None else Some (map hd hs))"

text \<open>\<open>torch.cat\<close> refuses an empty list of tensors.\<close>

definition cls_embeddings :: "runtime \<Rightarrow> loaded \<Rightarrow> string list \<Rightarrow> embedding list option" where
  "cls_embeddings rt m texts =
     (let b = batch_size (lm_class m) in
      if texts = [] then None
      else map_option (map Vec) (batch_loop (cls_batch rt m) b texts (batch_starts b (length texts)) []))"

fun jina_embeddings :: "runtime \<Rightarrow> loaded \<Rightarrow> string list \<Rightarrow> embedding list \<Rightarrow> embedding list option" where
  "jina_embeddings rt m [] acc = Some acc"
| "jina_embeddings rt m (t # ts) acc =
     (case rt_hidden rt m [t] of
        None \<Rightarrow> None
      | Some [] \<Rightarrow> None
      | Some (h # _) \<Rightarrow> jina_embeddings rt m ts (acc @ [Mat h]))"

text \<open>A reranker has no \<open>get_embeddings\<close>.\<close>

definition get_embeddings :: "runtime \<Rightarrow> loaded \<Rightarrow> string list \<Rightarrow> embedding list option" where
  "get_embeddings rt m texts =
     (case lm_class m of
        Embedder \<Rightarrow> cls_embeddings rt m texts
      | OnnxEmbedder \<Rightarrow> cls_embeddings rt m texts
      | JinaEmbedder \<Rightarrow> jina_embeddings rt m texts []
      | Reranker \<Rightarrow> None
      | OnnxReranker \<Rightarrow> None)"

section \<open>The builder\<close>

text \<open>An entry of the configuration file as \<open>yaml.safe_load\<close> reads it: a missing key is \<open>None\<close>.\<close>

record entry_cfg =
  ec_model_name :: "string option"
  ec_model_path :: "path option"
  ec_tokenizer_path :: "path option"
  ec_max_length :: "nat option"
  ec_use_gpu :: "bool option"
  ec_use_float16 :: "bool option"

record builder =
  bd_embedding :: "(string, entry_cfg) dict"
  bd_reranking :: "(string, entry_cfg) dict"
  bd_names :: "string list"
  bd_attrs :: "(string, loaded) dict"

definition shadowed :: "builder \<Rightarrow> string \<Rightarrow> bool" where
  "shadowed b a = dhas (bd_attrs b) a"

definition makedirs :: "path \<Rightarrow> fsys \<Rightarrow> fsys option" where
  "makedirs d fs =
     (let ancestors = map (\<lambda>k. take k d) [1..<Suc (length d)] in
      if d = [] \<or> list_ex (is_file fs) ancestors then None
      else Some (fs\<lparr>fs_dirs := fs_dirs fs @ filter (\<lambda>p. \<not> is_dir fs p) ancestors\<rparr>))"

definition path_exists :: "fsys \<Rightarrow> path \<Rightarrow> bool" where
  "path_exists fs p = (is_file fs p \<or> is_dir fs p)"

definition listdir :: "fsys \<Rightarrow> path \<Rightarrow> string list" where
  "listdir fs d = map last (filter (\<lambda>p. under d p \<and> length p = Suc (length d)) (dkeys (fs_files fs) @ fs_dirs fs))"

text \<open>\<open>None\<close>: the path is no directory, or its parent cannot be made; \<open>Some None\<close>: no .onnx file.\<close>

definition search_onnxfile :: "path \<Rightarrow> fsys \<Rightarrow> string option option \<times> fsys" where
  "search_onnxfile p fs =
     (if \<not> path_exists fs p
      then (case makedirs (butlast p) fs of None \<Rightarrow> (None, fs) | Some fs1 \<Rightarrow> (Some None, fs1))
      else if \<not> is_dir fs p then (None, fs)
      else (Some (find (ends_with ''.onnx'') (listdir fs p)), fs))"

text \<open>\<open>from_pretrained\<close> and \<open>save_pretrained\<close>: \<open>hub\<close> gives the files of a repository; a failure is logged.\<close>

definition save_into :: "path \<Rightarrow> (string \<times> nat) list \<Rightarrow> fsys \<Rightarrow> fsys" where
  "save_into d files fs =
     (case makedirs d fs of
        None \<Rightarrow> fs
      | Some fs1 \<Rightarrow> fs1\<lparr>fs_files := fold (\<lambda>(n, k). dset (d @ [n]) k) files (fs_files fs1)\<rparr>)"

definition download_part :: "(string \<Rightarrow> (string \<times> nat) list option) \<Rightarrow> string option \<Rightarrow> path \<Rightarrow> fsys \<Rightarrow> fsys" where
  "download_part hub name p fs =
     (if path_exists fs p then fs
      else case name of
             None \<Rightarrow> fs
           | Some n \<Rightarrow> (case hub n of None \<Rightarrow> fs | Some files \<Rightarrow> save_into p files fs))"

text \<open>One entry of the download loop; \<open>jina\<close> entries are left alone in the loop over the embedding models.\<close>

definition download_entry :: "bool \<Rightarrow> (string \<Rightarrow> (string \<times> nat) list option) \<Rightarrow> string \<times> entry_cfg \<Rightarrow> fsys \<Rightarrow> fsys option" where
  "download_entry embeds hub kc fs =
     (case kc of (key, c) \<Rightarrow>
       (case ec_model_path c of
          None \<Rightarrow> None
        | Some mp \<Rightarrow>
            (case search_onnxfile mp fs of
               (None, _) \<Rightarrow> None
             | (Some (Some _), fs1) \<Rightarrow> Some fs1
             | (Some None, fs1) \<Rightarrow>
                 if embeds \<and> str_contains ''jina'' key then Some fs1
                 else (case ec_tokenizer_path c of
                         None \<Rightarrow> None
                       | Some tp \<Rightarrow>
                           (case makedirs (butlast mp) fs1 of
                              None \<Rightarrow> None
                            | Some fs2 \<Rightarrow>
                                (case makedirs (butlast tp) fs2 of
                                   None \<Rightarrow> None
                                 | Some fs3 \<Rightarrow>
                                     Some (download_part hub (ec_model_name c) tp (download_part hub (ec_model_name c) mp fs3))))))))"

fun download_all :: "bool \<Rightarrow> (string \<Rightarrow> (string \<times> nat) list option) \<Rightarrow> (string \<times> entry_cfg) list \<Rightarrow> fsys \<Rightarrow> fsys option" where
  "download_all embeds hub [] fs = Some fs"
| "download_all embeds hub (kc # kcs) fs =
     (case download_entry embeds hub kc fs of None \<Rightarrow> None | Some fs1 \<Rightarrow> download_all embeds hub kcs fs1)"

definition download_models :: "(string \<Rightarrow> (string \<times> nat) list option) \<Rightarrow> builder \<Rightarrow> fsys \<Rightarrow> fsys option" where
  "download_models hub b fs =
     (case download_all True hub (bd_embedding b) fs of
        None \<Rightarrow> None
      | Some fs1 \<Rightarrow> download_all False hub (bd_reranking b) fs1)"

text \<open>
  The constructors: the tokenizer is loaded and bounds the length, then the weights.  A Jina model is not
  given the configured length and takes its default of 512.
\<close>

definition construct :: "runtime \<Rightarrow> fsys \<Rightarrow> engine_class \<Rightarrow> string \<Rightarrow> path \<Rightarrow> path \<Rightarrow> nat \<Rightarrow> bool \<Rightarrow> loaded option" where
  "construct rt fs c name mp tp n half =
     (case rt_tok_max rt tp of
        None \<Rightarrow> None
      | Some k \<Rightarrow>
          if n \<le> k \<and> rt_weights rt c mp fs
          then Some \<lparr>lm_class = c, lm_name = name, lm_weights = mp, lm_tokenizer = tp, lm_max_length = n, lm_half = half\<rparr>
          else None)"

definition construct_onnx :: "runtime \<Rightarrow> fsys \<Rightarrow> engine_class \<Rightarrow> string \<Rightarrow> path \<Rightarrow> entry_cfg \<Rightarrow> loaded option" where
  "construct_onnx rt fs c key mp e =
     (case (ec_tokenizer_path e, ec_max_length e) of
        (Some tp, Some n) \<Rightarrow> construct rt fs c key mp tp n False
      | _ \<Rightarrow> None)"

definition construct_torch :: "runtime \<Rightarrow> fsys \<Rightarrow> engine_class \<Rightarrow> string \<Rightarrow> path \<Rightarrow> entry_cfg \<Rightarrow> loaded option" where
  "construct_torch rt fs c key mp e =
     (case (ec_tokenizer_path e, ec_use_gpu e, ec_use_float16 e, ec_max_length e) of
        (Some tp, Some gpu, Some half, Some n) \<Rightarrow> construct rt fs c key mp tp n (half \<and> gpu \<and> rt_cuda rt)
      | _ \<Rightarrow> None)"

definition construct_jina :: "runtime \<Rightarrow> fsys \<Rightarrow> path \<Rightarrow> entry_cfg \<Rightarrow> loaded option" where
  "construct_jina rt fs mp e =
     (case (ec_model_name e, ec_tokenizer_path e, ec_use_gpu e, ec_use_float16 e) of
        (Some name, Some tp, Some gpu, Some half) \<Rightarrow> construct rt fs JinaEmbedder name mp tp 512 (half \<and> gpu \<and> rt_cuda rt)
      | _ \<Rightarrow> None)"

definition build_model :: "runtime \<Rightarrow> bool \<Rightarrow> string \<Rightarrow> entry_cfg \<Rightarrow> fsys \<Rightarrow> loaded option \<times> fsys" where
  "build_model rt embeds key e fs =
     (case ec_model_path e of
        None \<Rightarrow> (None, fs)
      | Some mp \<Rightarrow>
          (case search_onnxfile mp fs of
             (None, fs1) \<Rightarrow> (None, fs1)
           | (Some (Some _), fs1) \<Rightarrow>
               (construct_onnx rt fs1 (if embeds then OnnxEmbedder else OnnxReranker) key mp e, fs1)
           | (Some None, fs1) \<Rightarrow>
               if embeds \<and> str_contains ''jina'' key then (construct_jina rt fs1 mp e, fs1)
               else (construct_torch rt fs1 (if embeds then Embedder else Reranker) key mp e, fs1)))"

text \<open>
  One turn of the load loop.  It logs, searches, builds, stores the model as an attribute and appends to
  \<open>self.model_name\<close>; a model that took the name of one of these makes the turn raise.
\<close>

definition load_entry :: "runtime \<Rightarrow> bool \<Rightarrow> string \<times> entry_cfg \<Rightarrow> builder \<times> fsys \<Rightarrow> (builder \<times> fsys) option" where
  "load_entry rt embeds kc st =
     (case (kc, st) of ((key, e), (b, fs)) \<Rightarrow>
       if shadowed b ''logger'' \<or> shadowed b ''search_onnxfile'' then None
       else (case build_model rt embeds key e fs of
               (None, _) \<Rightarrow> None
             | (Some m, fs1) \<Rightarrow>
                 (let b1 = b\<lparr>bd_attrs := dset key m (bd_attrs b)\<rparr> in
                  if shadowed b1 ''model_name'' then None
                  else Some (b1\<lparr>bd_names := bd_names b1 @ [key]\<rparr>, fs1))))"

fun load_entries :: "runtime \<Rightarrow> bool \<Rightarrow> (string \<times> entry_cfg) list \<Rightarrow> builder \<times> fsys \<Rightarrow> (builder \<times> fsys) option" where
  "load_entries rt embeds [] st = Some st"
| "load_entries rt embeds (kc # kcs) st =
     (case load_entry rt embeds kc st of None \<Rightarrow> None | Some st1 \<Rightarrow> load_entries rt embeds kcs st1)"

definition load_models :: "runtime \<Rightarrow> builder \<times> fsys \<Rightarrow> (builder \<times> fsys) option" where
  "load_models rt st =
     (case load_entries rt True (bd_embedding (fst st)) st of
        None \<Rightarrow> None
      | Some st1 \<Rightarrow>
          if shadowed (fst st1) ''reranking_model_configs'' then None
          else load_entries rt False (bd_reranking (fst st)) st1)"

definition build :: "runtime \<Rightarrow> (string \<Rightarrow> (string \<times> nat) list option) \<Rightarrow> string \<Rightarrow>
     (string, entry_cfg) dict \<Rightarrow> (string, entry_cfg) dict \<Rightarrow> fsys \<Rightarrow> (builder \<times> fsys) option" where
  "build rt hub config_path emb rer fs =
     (let b = \<lparr>bd_embedding = emb, bd_reranking = rer, bd_names = [], bd_attrs = []\<rparr> in
      if \<not> (ends_with ''yaml'' config_path \<or> ends_with ''yml'' config_path) then None
      else case download_models hub b fs of None \<Rightarrow> None | Some fs1 \<Rightarrow> load_models rt (b, fs1))"

section \<open>The endpoints\<close>

definition math_exp :: "real \<Rightarrow> real option" where
  "math_exp x = (if exp x < 2 ^ 1024 - 2 ^ 970 then Some (exp x) else None)"

definition sigmoid :: "real \<Rightarrow> real option" where
  "sigmoid x = map_option (\<lambda>e. 1 / (1 + e)) (math_exp (- x))"

definition count_tokens :: "runtime \<Rightarrow> loaded \<Rightarrow> string list + pair list \<Rightarrow> nat" where
  "count_tokens rt m texts = (case rt_tokens rt m texts of None \<Rightarrow> 0 | Some ns \<Rightarrow> sum_list ns)"

definition all_some :: "'a option list \<Rightarrow> 'a list option" where
  "all_some xs = (if None \<in> set xs then None else Some (map the xs))"

definition rerank_scores :: "runtime \<Rightarrow> loaded \<Rightarrow> string \<Rightarrow> string list \<Rightarrow> real list option" where
  "rerank_scores rt m query documents =
     (case rerank_call rt m query documents of None \<Rightarrow> None | Some raw \<Rightarrow> all_some (map sigmoid raw))"

text \<open>\<open>Inl\<close> the HTTP error; a builder that is not there, or an attribute read that fails, is an unhandled 500.\<close>

definition unhandled :: http_exc where
  "unhandled = mk_exc 500 ''unhandled''"

definition health_check :: "builder option \<Rightarrow> http_exc + string" where
  "health_check b = (if b = None then Inl (mk_exc 503 ''models still loading'') else Inr ''ok'')"

definition configured :: "(string, entry_cfg) dict \<Rightarrow> string option \<Rightarrow> bool" where
  "configured cs name = (case name of None \<Rightarrow> False | Some n \<Rightarrow> dhas cs n)"

definition resolve_reranker :: "builder option \<Rightarrow> string option \<Rightarrow> http_exc + loaded" where
  "resolve_reranker bo name =
     (case bo of
        None \<Rightarrow> Inl unhandled
      | Some b \<Rightarrow>
          if shadowed b ''reranking_model_configs'' then Inl unhandled
          else if \<not> configured (bd_reranking b) name then Inl (mk_exc 404 ''Re-ranking model not found'')
          else (case map_of (bd_attrs b) (the name) of None \<Rightarrow> Inl unhandled | Some m \<Rightarrow> Inr m))"

datatype one_or_many = One string | Many "string list"

record emb_reply =
  er_data :: "(nat \<times> embedding) list"
  er_model :: "string option"
  er_tokens :: nat

definition create_embeddings :: "runtime \<Rightarrow> builder option \<Rightarrow> one_or_many \<Rightarrow> string option \<Rightarrow> http_exc + emb_reply" where
  "create_embeddings rt bo input name =
     (case bo of
        None \<Rightarrow> Inl unhandled
      | Some b \<Rightarrow>
          if shadowed b ''embedding_model_configs'' then Inl unhandled
          else if \<not> configured (bd_embedding b) name then Inl (mk_exc 404 ''Embedding model not found'')
          else (let inputs = (case input of One t \<Rightarrow> [t] | Many ts \<Rightarrow> ts);
                    failed = Inl (mk_exc 500 ''Error generating embeddings'') in
                case map_of (bd_attrs b) (the name) of
                  None \<Rightarrow> failed
                | Some m \<Rightarrow>
                    (case get_embeddings rt m inputs of
                       None \<Rightarrow> failed
                     | Some es \<Rightarrow>
                         Inr \<lparr>er_data = List.enumerate 0 es, er_model = name, er_tokens = count_tokens rt m (Inl inputs)\<rparr>)))"

record rerank_request =
  rq_query :: string
  rq_documents :: "string list"
  rq_model :: "string option"
  rq_top_n :: "int option"
  rq_return_documents :: bool

record rerank_item =
  ri_index :: nat
  ri_score :: real
  ri_document :: "string option"

record rerank_reply =
  rk_model :: "string option"
  rk_results :: "rerank_item list"
  rk_tokens :: nat

text \<open>\<open>xs[:k]\<close>: a negative \<open>k\<close> counts from the end.\<close>

definition py_prefix :: "int \<Rightarrow> 'a list \<Rightarrow> 'a list" where
  "py_prefix k xs = (if 0 \<le> k then take (nat k) xs else take (nat (int (length xs) + k)) xs)"

text \<open>\<open>request.documents[idx]\<close> raises past the end.\<close>

definition rerank_item_of :: "rerank_request \<Rightarrow> nat \<times> real \<Rightarrow> rerank_item option" where
  "rerank_item_of rq p =
     (case p of (idx, s) \<Rightarrow>
       if \<not> rq_return_documents rq then Some \<lparr>ri_index = idx, ri_score = s, ri_document = None\<rparr>
       else if idx < length (rq_documents rq)
       then Some \<lparr>ri_index = idx, ri_score = s, ri_document = Some (rq_documents rq ! idx)\<rparr>
       else None)"

definition rerank_results :: "rerank_request \<Rightarrow> real list \<Rightarrow> rerank_item list option" where
  "rerank_results rq scores =
     (case all_some (map (rerank_item_of rq) (List.enumerate 0 scores)) of
        None \<Rightarrow> None
      | Some items \<Rightarrow>
          (let sorted_items = sort_key (\<lambda>r. - ri_score r) items in
           Some (case rq_top_n rq of None \<Rightarrow> sorted_items | Some k \<Rightarrow> py_prefix k sorted_items)))"

definition rerank :: "runtime \<Rightarrow> builder option \<Rightarrow> rerank_request \<Rightarrow> http_exc + rerank_reply" where
  "rerank rt bo rq =
     (case resolve_reranker bo (rq_model rq) of
        Inl e \<Rightarrow> Inl e
      | Inr m \<Rightarrow>
          if rq_documents rq = [] then Inl (mk_exc 400 ''documents must be non-empty'')
          else (case Option.bind (rerank_scores rt m (rq_query rq) (rq_documents rq)) (rerank_results rq) of
                  None \<Rightarrow> Inl (mk_exc 500 ''Error reranking'')
                | Some rs \<Rightarrow>
                    Inr \<lparr>rk_model = rq_model rq, rk_results = rs,
                         rk_tokens = count_tokens rt m (Inr (map (\<lambda>d. (rq_query rq, d)) (rq_documents rq)))\<rparr>))"

record score_request =
  sq_text_1 :: one_or_many
  sq_text_2 :: one_or_many
  sq_model :: "string option"

fun text_pairs :: "one_or_many \<Rightarrow> one_or_many \<Rightarrow> pair list option" where
  "text_pairs (One a) (One b) = Some [(a, b)]"
| "text_pairs (One a) (Many bs) = Some (map (\<lambda>b. (a, b)) bs)"
| "text_pairs (Many as) (One b) = Some (map (\<lambda>a. (a, b)) as)"
| "text_pairs (Many as) (Many bs) = (if length as \<noteq> length bs then None else Some (zip as bs))"

definition group_by_left :: "pair list \<Rightarrow> (string, nat list) dict" where
  "group_by_left pairs =
     fold (\<lambda>(i, p) d. dset (fst p) (dget d (fst p) [] @ [i]) d) (List.enumerate 0 pairs) []"

fun score_groups :: "runtime \<Rightarrow> loaded \<Rightarrow> pair list \<Rightarrow> (string, nat list) dict \<Rightarrow> real list \<Rightarrow> real list option" where
  "score_groups rt m pairs [] scores = Some scores"
| "score_groups rt m pairs ((left, idxs) # rest) scores =
     (case rerank_scores rt m left (map (\<lambda>i. snd (pairs ! i)) idxs) of
        None \<Rightarrow> None
      | Some ls \<Rightarrow> score_groups rt m pairs rest (fold (\<lambda>(i, s) xs. xs[i := s]) (zip idxs ls) scores))"

definition pair_scores :: "runtime \<Rightarrow> loaded \<Rightarrow> pair list \<Rightarrow> real list option" where
  "pair_scores rt m pairs = score_groups rt m pairs (group_by_left pairs) (replicate (length pairs) 0)"

record score_reply =
  sr_model :: "string option"
  sr_data :: "(nat \<times> real) list"
  sr_tokens :: nat

definition score :: "runtime \<Rightarrow> builder option \<Rightarrow> score_request \<Rightarrow> http_exc + score_reply" where
  "score rt bo sq =
     (case resolve_reranker bo (sq_model sq) of
        Inl e \<Rightarrow> Inl e
      | Inr m \<Rightarrow>
          (case text_pairs (sq_text_1 sq) (sq_text_2 sq) of
             None \<Rightarrow> Inl (mk_exc 400 ''text_1 and text_2 must be equal length when both are lists'')
           | Some pairs \<Rightarrow>
               if pairs = [] then Inl (mk_exc 400 ''no text pairs to score'')
               else (case pair_scores rt m pairs of
                       None \<Rightarrow> Inl (mk_exc 500 ''Error scoring'')
                     | Some ss \<Rightarrow>
                         Inr \<lparr>sr_model = sq_model sq, sr_data = List.enumerate 0 ss,
                              sr_tokens = count_tokens rt m (Inr pairs)\<rparr>)))"


section \<open>Batching does not show\<close>

lemma chunks_prefix: "concat (map (\<lambda>j. chunk (j * b) b xs) [0..<n]) = take (n * b) xs"
proof (induction n)
  case (Suc n)
  have "take (Suc n * b) xs = take (n * b) xs @ take b (drop (n * b) xs)"
    using take_add [of "n * b" b xs] by (simp only: mult_Suc add.commute [of b])
  then show ?case using Suc.IH by (simp add: chunk_def del: mult_Suc)
qed simp

lemma chunks_all:
  assumes "0 < b"
  shows "concat (map (\<lambda>i. chunk i b xs) (batch_starts b (length xs))) = xs"
proof -
  have "length xs \<le> (length xs + b - 1) div b * b"
    using assms div_mult_mod_eq [of "length xs + b - 1" b] mod_less_divisor [of b "length xs + b - 1"] by linarith
  then show ?thesis
    using chunks_prefix [of b xs "(length xs + b - 1) div b"] by (simp add: batch_starts_def comp_def)
qed

lemma set_chunk: "set (chunk i b xs) \<subseteq> set xs"
  unfolding chunk_def by (meson dual_order.trans set_drop_subset set_take_subset)

lemma chunk_starts_nonempty: "i \<in> set (batch_starts b (length xs)) \<Longrightarrow> 0 < b \<Longrightarrow> chunk i b xs \<noteq> []"
proof -
  assume "i \<in> set (batch_starts b (length xs))" and b: "0 < b"
  then obtain j where j: "i = j * b" "j < (length xs + b - 1) div b" by (auto simp: batch_starts_def)
  then have "Suc j * b \<le> length xs + b - 1" by (metis Suc_leI less_eq_div_iff_mult_less_eq b)
  then have "i < length xs" using j(1) b by simp
  then show ?thesis using b by (simp add: chunk_def)
qed

lemma batch_loop_pure:
  assumes "\<And>i. i \<in> set is \<Longrightarrow> f (chunk i b xs) = Some (map h (chunk i b xs))"
  shows "batch_loop f b xs is acc = Some (acc @ map h (concat (map (\<lambda>i. chunk i b xs) is)))"
  using assms by (induction "is" arbitrary: acc) auto

lemma batch_loop_map:
  assumes "0 < b" and "\<And>ys. ys \<noteq> [] \<Longrightarrow> set ys \<subseteq> set xs \<Longrightarrow> f ys = Some (map h ys)"
  shows "batch_loop f b xs (batch_starts b (length xs)) [] = Some (map h xs)"
proof -
  have "batch_loop f b xs (batch_starts b (length xs)) [] =
      Some ([] @ map h (concat (map (\<lambda>i. chunk i b xs) (batch_starts b (length xs)))))"
    by (rule batch_loop_pure) (simp add: assms set_chunk chunk_starts_nonempty)
  then show ?thesis by (simp add: chunks_all assms(1))
qed

lemma batch_size_pos: "0 < batch_size c"
  by (cases c) (simp_all add: batch_size_def)

text \<open>
  What transformers documents: a cross-encoder with one label gives a pair the same logit in every batch; an
  encoder gives a text the same first state in every batch.
\<close>

definition scores_pairwise :: "runtime \<Rightarrow> loaded \<Rightarrow> (pair \<Rightarrow> real) \<Rightarrow> bool" where
  "scores_pairwise rt m f = (\<forall>ps. rt_logits rt m ps = Some (map (\<lambda>p. [f p]) ps))"

definition encodes_textwise :: "runtime \<Rightarrow> loaded \<Rightarrow> (string \<Rightarrow> real list) \<Rightarrow> bool" where
  "encodes_textwise rt m g =
     (\<forall>ts. \<exists>hs. rt_hidden rt m ts = Some hs \<and> [] \<notin> set hs \<and> map hd hs = map g ts)"

definition is_reranker :: "loaded \<Rightarrow> bool" where
  "is_reranker m = (lm_class m = Reranker \<or> lm_class m = OnnxReranker)"

lemma rerank_call_pairwise:
  assumes "scores_pairwise rt m f" "is_reranker m"
  shows "rerank_call rt m q docs = Some (map (\<lambda>d. f (q, d)) docs)"
proof -
  have "score_batch rt m q ys = Some (map (\<lambda>d. f (q, d)) ys)" for ys
    using assms(1) by (simp add: score_batch_def scores_pairwise_def comp_def concat_map_singleton)
  then show ?thesis
    using assms(2) batch_loop_map [OF batch_size_pos, of docs "score_batch rt m q" "\<lambda>d. f (q, d)"]
    by (simp add: rerank_call_def is_reranker_def Let_def)
qed

lemma rerank_scores_pairwise:
  assumes "scores_pairwise rt m f" "is_reranker m"
  shows "rerank_scores rt m q docs = all_some (map (\<lambda>d. sigmoid (f (q, d))) docs)"
  by (simp add: rerank_scores_def rerank_call_pairwise [OF assms] comp_def)

lemma cls_embeddings_textwise:
  assumes "encodes_textwise rt m g" "texts \<noteq> []"
  shows "cls_embeddings rt m texts = Some (map (\<lambda>t. Vec (g t)) texts)"
proof -
  have "cls_batch rt m ys = Some (map g ys)" for ys
    using assms(1) by (auto simp: cls_batch_def encodes_textwise_def split: option.splits) (metis option.inject)+
  then show ?thesis
    using assms(2) batch_loop_map [OF batch_size_pos, of texts "cls_batch rt m" g]
    by (simp add: cls_embeddings_def Let_def)
qed

section \<open>The scores\<close>

lemma sigmoid_value: "sigmoid x = Some s \<Longrightarrow> s = 1 / (1 + exp (- x))"
  by (auto simp: sigmoid_def math_exp_def split: if_splits)

lemma sigmoid_bounds: "sigmoid x = Some s \<Longrightarrow> 0 < s \<and> s < 1"
  by (drule sigmoid_value) (simp add: add_pos_pos)

lemma sigmoid_order: "sigmoid x = Some s \<Longrightarrow> sigmoid y = Some t \<Longrightarrow> s \<le> t \<longleftrightarrow> x \<le> y"
  by (drule sigmoid_value, drule sigmoid_value) (simp add: add_pos_pos frac_le_eq divide_le_cancel field_simps)

lemma sigmoid_defined: "- 600 \<le> x \<Longrightarrow> sigmoid x \<noteq> None"
proof -
  assume "- 600 \<le> x"
  then have "exp (- x) \<le> exp (600::real)" by simp
  also have "exp (600::real) = exp 1 ^ 600" by (simp add: exp_of_nat_mult [symmetric])
  also have "\<dots> \<le> 3 ^ 600" by (rule power_mono) (use exp_le in auto)
  also have "\<dots> < 2 ^ 1024 - 2 ^ 970" by simp
  finally show ?thesis by (simp add: sigmoid_def math_exp_def)
qed

lemma all_some_map: "all_some (map f xs) = (if \<exists>x\<in>set xs. f x = None then None else Some (map (\<lambda>x. the (f x)) xs))"
proof -
  have "None \<in> set (map f xs) \<longleftrightarrow> (\<exists>x\<in>set xs. f x = None)" by (simp add: image_iff eq_commute)
  then show ?thesis by (simp only: all_some_def map_map comp_def)
qed


section \<open>The endpoints against pairwise scoring\<close>

text \<open>The groups of \<open>score\<close>: every position once under its left text.\<close>

definition grouped :: "pair list \<Rightarrow> (string, nat list) dict \<Rightarrow> bool" where
  "grouped pairs d = (\<forall>(l, is) \<in> set d. \<forall>i\<in>set is. i < length pairs \<and> fst (pairs ! i) = l)"

definition positions :: "(string, nat list) dict \<Rightarrow> nat set" where
  "positions d = (\<Union>(l, is) \<in> set d. set is)"

lemma dget_in_positions: "dict_ok d \<Longrightarrow> i \<in> set (dget d l []) \<Longrightarrow> \<exists>is. (l, is) \<in> set d \<and> i \<in> set is"
  by (auto simp: dget_def split: option.splits dest: map_of_SomeD [OF sym])

lemma positions_dset:
  assumes "dict_ok d"
  shows "positions (dset l (dget d l [] @ [i]) d) = insert i (positions d)"
proof -
  have ok: "dict_ok (dset l (dget d l [] @ [i]) d)" using assms by simp
  have mem: "x \<in> positions e \<longleftrightarrow> (\<exists>k is. map_of e k = Some is \<and> x \<in> set is)" if "dict_ok e" for x e
    using that by (force simp: positions_def dict_ok_def)
  have "x \<in> positions (dset l (dget d l [] @ [i]) d) \<longleftrightarrow> x \<in> insert i (positions d)" for x
    unfolding insert_iff mem [OF ok] mem [OF assms] by (cases "map_of d l") (auto simp: dget_def split: if_splits, (metis option.distinct(1) option.inject)+)
  then show ?thesis by blast
qed

lemma group_by_left_ok:
  "dict_ok (group_by_left ps) \<and> grouped ps (group_by_left ps) \<and> positions (group_by_left ps) = {..<length ps}"
proof -
  let ?step = "\<lambda>(i, p) d. dset (fst p) (dget d (fst p) [] @ [i]) d :: (string, nat list) dict"
  have "dict_ok (fold ?step (List.enumerate 0 xs) []) \<and> grouped ps (fold ?step (List.enumerate 0 xs) []) \<and>
      positions (fold ?step (List.enumerate 0 xs) []) = {..<length xs}" if "\<exists>ys. ps = xs @ ys" for xs
    using that
  proof (induction xs rule: rev_induct)
    case Nil
    then show ?case by (simp add: grouped_def positions_def)
  next
    case (snoc p xs)
    let ?d = "fold ?step (List.enumerate 0 xs) []"
    have IH: "dict_ok ?d" "grouped ps ?d" "positions ?d = {..<length xs}" using snoc by auto
    have p: "length xs < length ps" "ps ! length xs = p" using snoc.prems by (auto simp: nth_append)
    have e: "fold ?step (List.enumerate 0 (xs @ [p])) [] = dset (fst p) (dget ?d (fst p) [] @ [length xs]) ?d"
      by (simp add: enumerate_append_eq)
    have "grouped ps (dset (fst p) (dget ?d (fst p) [] @ [length xs]) ?d)"
      unfolding grouped_def
    proof (clarify)
      fix l "is" i
      assume m: "(l, is) \<in> set (dset (fst p) (dget ?d (fst p) [] @ [length xs]) ?d)" and i: "i \<in> set is"
      then consider "l = fst p" "is = dget ?d (fst p) [] @ [length xs]" | "(l, is) \<in> set ?d"
        using set_dset_subset by fastforce
      then show "i < length ps \<and> fst (ps ! i) = l"
        using i p IH(2) dget_in_positions [OF IH(1), of i l] by cases (auto simp: grouped_def)
    qed
    then show ?case using IH(1,3) unfolding e by (simp add: positions_dset lessThan_Suc)
  qed
  from this [of ps] show ?thesis by (simp add: group_by_left_def)
qed

lemma update_all:
  "(\<forall>i\<in>set is. i < length xs) \<Longrightarrow> fold (\<lambda>(i, s) xs. xs[i := s]) (zip is (map h is)) xs =
     map (\<lambda>i. if i \<in> set is then h i else xs ! i) [0..<length xs]"
proof (induction "is" arbitrary: xs)
  case Nil
  then show ?case by (simp add: map_nth)
next
  case (Cons i "is")
  then show ?case by (auto simp: nth_list_update)
qed

text \<open>The reference: every pair on its own, in order.\<close>

definition reference_scores :: "(pair \<Rightarrow> real) \<Rightarrow> pair list \<Rightarrow> real list option" where
  "reference_scores f pairs = all_some (map (\<lambda>p. sigmoid (f p)) pairs)"

lemma score_groups_pairwise:
  assumes "scores_pairwise rt m f" "is_reranker m" "grouped pairs d" "length scores = length pairs"
  shows "score_groups rt m pairs d scores =
    (if \<exists>i\<in>positions d. sigmoid (f (pairs ! i)) = None then None
     else Some (map (\<lambda>i. if i \<in> positions d then the (sigmoid (f (pairs ! i))) else scores ! i) [0..<length pairs]))"
  using assms(3,4)
proof (induction d arbitrary: scores)
  case Nil
  then show ?case by (simp add: positions_def) (metis map_nth)
next
  case (Cons g d)
  obtain l "is" where g: "g = (l, is)" by (cases g)
  have own: "\<forall>i\<in>set is. i < length pairs \<and> fst (pairs ! i) = l" and rest: "grouped pairs d"
    using Cons.prems by (auto simp: g grouped_def)
  have pos: "positions (g # d) = set is \<union> positions d" by (simp add: positions_def g)
  have pe: "(l, snd (pairs ! i)) = pairs ! i" if "i \<in> set is" for i
    using own that by (metis prod.collapse)
  have call: "rerank_scores rt m l (map (\<lambda>i. snd (pairs ! i)) is) =
      (if \<exists>i\<in>set is. sigmoid (f (pairs ! i)) = None then None else Some (map (\<lambda>i. the (sigmoid (f (pairs ! i)))) is))"
    using pe by (auto simp: rerank_scores_pairwise [OF assms(1,2)] all_some_map comp_def)
  show ?case
  proof (cases "\<exists>i\<in>set is. sigmoid (f (pairs ! i)) = None")
    case True
    then show ?thesis using call pos by (auto simp: g)
  next
    case False
    have upd: "fold (\<lambda>(i, s) xs. xs[i := s]) (zip is (map (\<lambda>i. the (sigmoid (f (pairs ! i)))) is)) scores =
        map (\<lambda>i. if i \<in> set is then the (sigmoid (f (pairs ! i))) else scores ! i) [0..<length pairs]"
      using own Cons.prems(2) by (simp add: update_all)
    show ?thesis
      using False call pos by (simp add: g upd Cons.IH [OF rest]) auto
  qed
qed

lemma pair_scores_reference:
  assumes "scores_pairwise rt m f" "is_reranker m"
  shows "pair_scores rt m pairs = reference_scores f pairs"
proof -
  have "pair_scores rt m pairs = (if \<exists>i<length pairs. sigmoid (f (pairs ! i)) = None then None
      else Some (map (\<lambda>i. the (sigmoid (f (pairs ! i)))) [0..<length pairs]))"
    using group_by_left_ok [of pairs] by (auto simp: pair_scores_def score_groups_pairwise [OF assms])
  moreover have "map (\<lambda>i. the (sigmoid (f (pairs ! i)))) [0..<length pairs] = map (\<lambda>p. the (sigmoid (f p))) pairs"
    by (rule nth_equalityI) simp_all
  moreover have "(\<exists>i<length pairs. sigmoid (f (pairs ! i)) = None) \<longleftrightarrow> (\<exists>p\<in>set pairs. sigmoid (f p) = None)"
    by (metis in_set_conv_nth)
  ultimately show ?thesis by (simp add: reference_scores_def all_some_map)
qed


text \<open>
  The score endpoint answers what scoring every pair on its own gives, in the order of the request, whatever the
  grouping by left text and the batches: the scores of the pairs, or a 500 when one of them has no score.
\<close>

theorem score_is_pairwise:
  assumes "resolve_reranker bo (sq_model sq) = Inr m" "scores_pairwise rt m f" "is_reranker m"
    and "text_pairs (sq_text_1 sq) (sq_text_2 sq) = Some pairs" "pairs \<noteq> []"
  shows "score rt bo sq =
    (case reference_scores f pairs of
       None \<Rightarrow> Inl (mk_exc 500 ''Error scoring'')
     | Some ss \<Rightarrow> Inr \<lparr>sr_model = sq_model sq, sr_data = List.enumerate 0 ss, sr_tokens = count_tokens rt m (Inr pairs)\<rparr>)"
  using assms by (simp add: score_def pair_scores_reference)

definition demo_model :: loaded where
  "demo_model = \<lparr>lm_class = Reranker, lm_name = ''r'', lm_weights = [''r''], lm_tokenizer = [''r''], lm_max_length = 512, lm_half = False\<rparr>"

definition demo_entry :: entry_cfg where
  "demo_entry = \<lparr>ec_model_name = Some ''org/r'', ec_model_path = Some [''m'', ''r''], ec_tokenizer_path = Some [''m'', ''r''],
     ec_max_length = Some 512, ec_use_gpu = Some True, ec_use_float16 = Some True\<rparr>"

definition demo_builder :: builder where
  "demo_builder = \<lparr>bd_embedding = [], bd_reranking = [(''r'', demo_entry)], bd_names = [''r''], bd_attrs = [(''r'', demo_model)]\<rparr>"

text \<open>A cross-encoder with one label, whose logit is 0 for equal texts and 1 otherwise.\<close>

definition demo_logit :: "pair \<Rightarrow> real" where
  "demo_logit p = (if fst p = snd p then 0 else 1)"

definition demo_runtime :: runtime where
  "demo_runtime = \<lparr>rt_hidden = \<lambda>m ts. Some (map (\<lambda>t. [[real (length t)]]) ts), rt_logits = \<lambda>m ps. Some (map (\<lambda>p. [demo_logit p]) ps),
     rt_tokens = \<lambda>m ts. None, rt_tok_max = \<lambda>p. Some 512, rt_weights = \<lambda>c p fs. True, rt_cuda = False\<rparr>"

lemma demo_inputs:
  "resolve_reranker (Some demo_builder) (Some ''r'') = Inr demo_model" "scores_pairwise demo_runtime m demo_logit"
  "is_reranker demo_model"
  by (simp_all add: resolve_reranker_def demo_builder_def shadowed_def dhas_def configured_def scores_pairwise_def
      demo_runtime_def is_reranker_def demo_model_def)

lemma sigmoid_0: "sigmoid 0 = Some (1 / 2)"
  by (simp add: sigmoid_def math_exp_def)

lemma score_is_pairwise_witness:
  "score demo_runtime (Some demo_builder) \<lparr>sq_text_1 = One ''a'', sq_text_2 = Many [''a'', ''a''], sq_model = Some ''r''\<rparr> =
     Inr \<lparr>sr_model = Some ''r'', sr_data = [(0, 1 / 2), (1, 1 / 2)], sr_tokens = 0\<rparr>"
  using score_is_pairwise [OF _ demo_inputs(2,3), of "Some demo_builder" "\<lparr>sq_text_1 = One ''a'', sq_text_2 = Many [''a'', ''a''], sq_model = Some ''r''\<rparr>"]
  by (simp add: demo_inputs reference_scores_def all_some_def demo_logit_def sigmoid_0 count_tokens_def demo_runtime_def)

section \<open>Reranking\<close>

definition item_for :: "(pair \<Rightarrow> real) \<Rightarrow> rerank_request \<Rightarrow> nat \<Rightarrow> rerank_item" where
  "item_for f rq i =
     \<lparr>ri_index = i, ri_score = the (sigmoid (f (rq_query rq, rq_documents rq ! i))),
      ri_document = (if rq_return_documents rq then Some (rq_documents rq ! i) else None)\<rparr>"

lemma insort_stable_order:
  fixes key :: "'a \<Rightarrow> real" and idx :: "'a \<Rightarrow> nat"
  assumes "sorted_wrt (\<lambda>a b. key a < key b \<or> (key a = key b \<and> idx a < idx b)) ys" "\<forall>y\<in>set ys. idx x < idx y"
  shows "sorted_wrt (\<lambda>a b. key a < key b \<or> (key a = key b \<and> idx a < idx b)) (insort_key key x ys)"
  using assms by (induction ys) (fastforce simp: set_insort_key)+

lemma sort_stable_order:
  fixes key :: "'a \<Rightarrow> real" and idx :: "'a \<Rightarrow> nat"
  assumes "sorted_wrt (\<lambda>a b. idx a < idx b) xs"
  shows "sorted_wrt (\<lambda>a b. key a < key b \<or> (key a = key b \<and> idx a < idx b)) (sort_key key xs)"
  using assms by (induction xs) (simp_all add: insort_stable_order)

lemma rerank_items:
  assumes "ss = map (\<lambda>d. the (sigmoid (f (rq_query rq, d)))) (rq_documents rq)"
  shows "all_some (map (rerank_item_of rq) (List.enumerate 0 ss)) = Some (map (item_for f rq) [0..<length (rq_documents rq)])"
proof -
  have "map (rerank_item_of rq) (List.enumerate 0 ss) = map (\<lambda>i. Some (item_for f rq i)) [0..<length (rq_documents rq)]"
    using assms by (intro nth_equalityI) (auto simp: nth_enumerate_eq rerank_item_of_def item_for_def)
  then show ?thesis by (simp add: all_some_def image_iff comp_def)
qed

text \<open>
  Reranking scores every document on its own, whatever the batches, and orders them: the answer is, up to
  \<open>top_n\<close>, a list with one item per document, carrying its position, its own score and its own text, sorted by
  descending score with equal scores in the order of the request.
\<close>

theorem rerank_is_ranking:
  assumes "resolve_reranker bo (rq_model rq) = Inr m" "scores_pairwise rt m f" "is_reranker m"
    and "rq_documents rq \<noteq> []" "\<And>d. d \<in> set (rq_documents rq) \<Longrightarrow> sigmoid (f (rq_query rq, d)) \<noteq> None"
  shows "\<exists>full tokens. rerank rt bo rq = Inr \<lparr>rk_model = rq_model rq,
      rk_results = (case rq_top_n rq of None \<Rightarrow> full | Some k \<Rightarrow> py_prefix k full), rk_tokens = tokens\<rparr> \<and>
    mset full = mset (map (item_for f rq) [0..<length (rq_documents rq)]) \<and>
    sorted_wrt (\<lambda>a b. ri_score b < ri_score a \<or> (ri_score a = ri_score b \<and> ri_index a < ri_index b)) full"
proof -
  let ?items = "map (item_for f rq) [0..<length (rq_documents rq)]"
  let ?full = "sort_key (\<lambda>r. - ri_score r) ?items"
  have scores: "rerank_scores rt m (rq_query rq) (rq_documents rq) = Some (map (\<lambda>d. the (sigmoid (f (rq_query rq, d)))) (rq_documents rq))"
    using assms(5) by (auto simp: rerank_scores_pairwise [OF assms(2,3)] all_some_map)
  have "rerank rt bo rq = Inr \<lparr>rk_model = rq_model rq,
      rk_results = (case rq_top_n rq of None \<Rightarrow> ?full | Some k \<Rightarrow> py_prefix k ?full),
      rk_tokens = count_tokens rt m (Inr (map (\<lambda>d. (rq_query rq, d)) (rq_documents rq)))\<rparr>"
    using assms(1,4) by (simp add: rerank_def scores rerank_results_def rerank_items [OF refl] Let_def)
  moreover have "sorted_wrt (\<lambda>a b. ri_score b < ri_score a \<or> (ri_score a = ri_score b \<and> ri_index a < ri_index b)) ?full"
    using sort_stable_order [of ri_index ?items "\<lambda>r. - ri_score r"]
    by (simp add: item_for_def sorted_wrt_map)
  ultimately show ?thesis by (intro exI [of _ ?full] exI conjI) (assumption, simp_all only: mset_sort)
qed


lemma rerank_is_ranking_witness:
  "\<exists>full tokens. rerank demo_runtime (Some demo_builder)
      \<lparr>rq_query = ''a'', rq_documents = [''a'', ''b''], rq_model = Some ''r'', rq_top_n = Some 1, rq_return_documents = True\<rparr>
    = Inr \<lparr>rk_model = Some ''r'', rk_results = py_prefix 1 full, rk_tokens = tokens\<rparr> \<and>
    mset full = mset (map (item_for demo_logit
      \<lparr>rq_query = ''a'', rq_documents = [''a'', ''b''], rq_model = Some ''r'', rq_top_n = Some 1, rq_return_documents = True\<rparr>) [0, 1]) \<and>
    sorted_wrt (\<lambda>a b. ri_score b < ri_score a \<or> (ri_score a = ri_score b \<and> ri_index a < ri_index b)) full"
  using rerank_is_ranking [OF _ demo_inputs(2,3), of "Some demo_builder"
      "\<lparr>rq_query = ''a'', rq_documents = [''a'', ''b''], rq_model = Some ''r'', rq_top_n = Some 1, rq_return_documents = True\<rparr>"]
  by (simp add: demo_inputs sigmoid_defined demo_logit_def upt_rec)

text \<open>A negative \<open>top_n\<close> is a slice from the end: \<open>-1\<close> answers all but the worst, where nothing or an error is expected.\<close>

lemma negative_top_n_drops_last: "xs \<noteq> [] \<Longrightarrow> py_prefix (- 1) xs = butlast xs"
  by (simp add: py_prefix_def butlast_conv_take nat_diff_distrib')

text \<open>
  A cross-encoder with two labels gives two logits per document, and \<open>view(-1,)\<close> lines them up: the second
  document is answered with the second label of the first.
\<close>

definition two_labels :: "(pair \<Rightarrow> real) \<Rightarrow> (pair \<Rightarrow> real) \<Rightarrow> runtime" where
  "two_labels g h = demo_runtime\<lparr>rt_logits := \<lambda>m ps. Some (map (\<lambda>p. [g p, h p]) ps)\<rparr>"

lemma two_labels_shift:
  assumes "sigmoid (g (q, x)) = Some s" "sigmoid (h (q, x)) = Some t"
    and "sigmoid (g (q, y)) = Some u" "sigmoid (h (q, y)) = Some v"
  shows "pair_scores (two_labels g h) demo_model [(q, x), (q, y)] = Some [s, t]"
proof -
  have g: "group_by_left [(q, x), (q, y)] = [(q, [0, 1])]"
    by (simp add: group_by_left_def dset_def dget_def)
  have "rerank_scores (two_labels g h) demo_model q [x, y] = Some [s, t, u, v]"
    using assms by (simp add: rerank_scores_def rerank_call_def demo_model_def batch_size_def batch_starts_def score_batch_def
        two_labels_def chunk_def all_some_def)
  then show ?thesis by (simp add: pair_scores_def g)
qed

section \<open>Embeddings\<close>

text \<open>
  An encoder answers one vector per input, in order: the first state of each text on its own, whatever the
  batches.  No input is a 500.
\<close>

theorem embeddings_are_textwise:
  assumes "\<not> shadowed b ''embedding_model_configs''" "dhas (bd_embedding b) n" "map_of (bd_attrs b) n = Some m"
    and "lm_class m = Embedder \<or> lm_class m = OnnxEmbedder" "encodes_textwise rt m g"
  shows "create_embeddings rt (Some b) (Many texts) (Some n) =
    (if texts = [] then Inl (mk_exc 500 ''Error generating embeddings'')
     else Inr \<lparr>er_data = List.enumerate 0 (map (\<lambda>t. Vec (g t)) texts), er_model = Some n, er_tokens = count_tokens rt m (Inl texts)\<rparr>)"
proof -
  have "get_embeddings rt m texts = (if texts = [] then None else Some (map (\<lambda>t. Vec (g t)) texts))"
    using assms(4) cls_embeddings_textwise [OF assms(5)] by (auto simp: get_embeddings_def cls_embeddings_def Let_def)
  then show ?thesis using assms(1-3) by (simp add: create_embeddings_def configured_def)
qed

lemma embeddings_are_textwise_witness:
  "create_embeddings demo_runtime (Some \<lparr>bd_embedding = [(''e'', demo_entry)], bd_reranking = [], bd_names = [''e''],
       bd_attrs = [(''e'', demo_model\<lparr>lm_class := Embedder\<rparr>)]\<rparr>) (Many [''ab'', ''c'']) (Some ''e'') =
     Inr \<lparr>er_data = [(0, Vec [2]), (1, Vec [1])], er_model = Some ''e'', er_tokens = 0\<rparr>"
  by (subst embeddings_are_textwise [where m = "demo_model\<lparr>lm_class := Embedder\<rparr>" and g = "\<lambda>t. [real (length t)]"])
    (simp_all add: shadowed_def dhas_def encodes_textwise_def demo_runtime_def count_tokens_def comp_def image_iff)

text \<open>A Jina model answers the states of all tokens, a matrix, where the other models answer one vector.\<close>

lemma jina_answers_matrix:
  "lm_class m = JinaEmbedder \<Longrightarrow> rt_hidden rt m [t] = Some [h] \<Longrightarrow> get_embeddings rt m [t] = Some [Mat h]"
  by (simp add: get_embeddings_def)

section \<open>What the builder serves\<close>

definition class_fits :: "bool \<Rightarrow> loaded \<Rightarrow> bool" where
  "class_fits embeds m = (lm_class m \<in> (if embeds then {Embedder, JinaEmbedder, OnnxEmbedder} else {Reranker, OnnxReranker}))"

lemma construct_class: "construct rt fs c name mp tp n half = Some m \<Longrightarrow> lm_class m = c"
  by (auto simp: construct_def split: option.splits if_splits)

lemma build_model_class: "build_model rt embeds key e fs = (Some m, fs1) \<Longrightarrow> class_fits embeds m"
  by (auto simp: build_model_def construct_onnx_def construct_jina_def construct_torch_def class_fits_def
      split: option.splits prod.splits if_splits dest: construct_class)

lemma load_entry_attrs:
  assumes "load_entry rt embeds (key, e) (b, fs) = Some (b', fs')"
  shows "\<exists>m. class_fits embeds m \<and> b' = b\<lparr>bd_attrs := dset key m (bd_attrs b), bd_names := bd_names b @ [key]\<rparr>"
proof -
  from assms obtain m fs1 where "build_model rt embeds key e fs = (Some m, fs1)"
    "b' = b\<lparr>bd_attrs := dset key m (bd_attrs b), bd_names := bd_names b @ [key]\<rparr>"
    by (auto simp: load_entry_def Let_def split: if_splits prod.splits option.splits)
  then show ?thesis using build_model_class by blast
qed

lemma load_entries_attrs:
  "load_entries rt embeds kcs (b, fs) = Some (b', fs') \<Longrightarrow>
     bd_embedding b' = bd_embedding b \<and> bd_reranking b' = bd_reranking b \<and> bd_names b' = bd_names b @ map fst kcs \<and>
     (\<forall>k. if k \<in> set (map fst kcs) then \<exists>m. map_of (bd_attrs b') k = Some m \<and> class_fits embeds m
          else map_of (bd_attrs b') k = map_of (bd_attrs b) k)"
proof (induction kcs arbitrary: b fs)
  case (Cons kc kcs)
  obtain key e where kc: "kc = (key, e)" by (cases kc)
  obtain b1 fs1 where l: "load_entry rt embeds (key, e) (b, fs) = Some (b1, fs1)" "load_entries rt embeds kcs (b1, fs1) = Some (b', fs')"
    using Cons.prems by (auto simp: kc split: option.splits)
  obtain m where m: "class_fits embeds m" "b1 = b\<lparr>bd_attrs := dset key m (bd_attrs b), bd_names := bd_names b @ [key]\<rparr>"
    using load_entry_attrs [OF l(1)] by blast
  note IH = Cons.IH [OF l(2)]
  have "if k \<in> set (map fst (kc # kcs)) then \<exists>m. map_of (bd_attrs b') k = Some m \<and> class_fits embeds m
      else map_of (bd_attrs b') k = map_of (bd_attrs b) k" for k
    using IH m by (cases "k \<in> set (map fst kcs)") (auto simp: kc dest!: spec [of _ k])
  then show ?case using IH m by (simp add: kc)
qed simp

text \<open>
  A builder that comes up has loaded every configured model under its name with a class that can do its
  work, provided no name is both an embedding and a reranking model and none is that of a configuration
  attribute: then the endpoints answer 404 exactly for the names that are not configured.
\<close>

theorem built_models_serve:
  assumes "build rt hub cp emb rer fs = Some (b, fs')" "fst ` set emb \<inter> fst ` set rer = {}"
    and "''embedding_model_configs'' \<notin> fst ` set emb \<union> fst ` set rer" "''reranking_model_configs'' \<notin> fst ` set rer"
  shows "bd_names b = map fst emb @ map fst rer \<and>
    (\<forall>n. (case resolve_reranker (Some b) (Some n) of
            Inl e \<Rightarrow> n \<notin> fst ` set rer \<and> hx_status e = 404
          | Inr m \<Rightarrow> n \<in> fst ` set rer \<and> is_reranker m) \<and>
         (if n \<in> fst ` set emb
          then \<exists>m. map_of (bd_attrs b) n = Some m \<and> class_fits True m \<and>
             (\<forall>input. create_embeddings rt (Some b) input (Some n) \<noteq> Inl (mk_exc 404 ''Embedding model not found''))
          else \<forall>input. create_embeddings rt (Some b) input (Some n) = Inl (mk_exc 404 ''Embedding model not found'')))"
proof -
  let ?b0 = "\<lparr>bd_embedding = emb, bd_reranking = rer, bd_names = [], bd_attrs = []\<rparr>"
  obtain fs1 where "load_models rt (?b0, fs1) = Some (b, fs')"
    using assms(1) by (auto simp: build_def Let_def split: if_splits option.splits)
  then obtain b1 fs2 where l: "load_entries rt True emb (?b0, fs1) = Some (b1, fs2)" "load_entries rt False rer (b1, fs2) = Some (b, fs')"
    "\<not> shadowed b1 ''reranking_model_configs''"
    by (auto simp: load_models_def split: option.splits if_splits)
  note a = load_entries_attrs [OF l(1)] and c = load_entries_attrs [OF l(2)]
  have cfg: "bd_embedding b = emb" "bd_reranking b = rer" "bd_names b = map fst emb @ map fst rer" using a c by simp_all
  have rer: "\<exists>m. map_of (bd_attrs b) n = Some m \<and> class_fits False m" if "n \<in> fst ` set rer" for n
    using c that by (metis list.set_map)
  have none: "map_of (bd_attrs b) n = map_of (bd_attrs b1) n" if "n \<notin> fst ` set rer" for n
    using c that by (metis list.set_map)
  have emb: "\<exists>m. map_of (bd_attrs b) n = Some m \<and> class_fits True m" if "n \<in> fst ` set emb" for n
  proof -
    have "n \<notin> fst ` set rer" using that assms(2) by blast
    then show ?thesis using a that none [of n] by (metis list.set_map)
  qed
  have un: "map_of (bd_attrs b) n = None" if "n \<notin> fst ` set emb \<union> fst ` set rer" for n
    using a none [of n] that by (simp add: image_iff)
  have "\<not> shadowed b ''embedding_model_configs''" "\<not> shadowed b ''reranking_model_configs''"
    using un [OF assms(3)] none [OF assms(4)] l(3) by (simp_all add: shadowed_def dhas_def)
  note open_cfg = this
  have keys: "dhas emb n \<longleftrightarrow> n \<in> fst ` set emb" "dhas rer n \<longleftrightarrow> n \<in> fst ` set rer" for n
    by (simp_all add: dhas_iff_keys dkeys_def)
  have one: "case resolve_reranker (Some b) (Some n) of Inl e \<Rightarrow> n \<notin> fst ` set rer \<and> hx_status e = 404
      | Inr m \<Rightarrow> n \<in> fst ` set rer \<and> is_reranker m" for n
  proof (cases "n \<in> fst ` set rer")
    case True
    then obtain m where "map_of (bd_attrs b) n = Some m" "class_fits False m" using rer by blast
    then show ?thesis using True open_cfg(2)
      by (simp add: resolve_reranker_def configured_def cfg keys class_fits_def is_reranker_def)
  next
    case False
    then show ?thesis using open_cfg(2) by (simp add: resolve_reranker_def configured_def cfg keys)
  qed
  have two: "create_embeddings rt (Some b) input (Some n) = Inl (mk_exc 404 ''Embedding model not found'')" if "n \<notin> fst ` set emb" for n input
    using that open_cfg(1) by (simp add: create_embeddings_def configured_def cfg keys)
  have three: "create_embeddings rt (Some b) input (Some n) \<noteq> Inl (mk_exc 404 ''Embedding model not found'')" if "n \<in> fst ` set emb" for n input
    using that emb [OF that] open_cfg(1)
    by (auto simp: create_embeddings_def configured_def cfg keys Let_def mk_exc_def split: option.splits)
  show ?thesis using cfg(3) one two three emb by simp
qed


definition demo_fs :: fsys where
  "demo_fs = \<lparr>fs_files = [], fs_dirs = [[''m''], [''m'', ''r'']]\<rparr>"

definition demo_built :: builder where
  "demo_built = \<lparr>bd_embedding = [], bd_reranking = [(''r'', demo_entry)], bd_names = [''r''],
     bd_attrs = [(''r'', \<lparr>lm_class = Reranker, lm_name = ''r'', lm_weights = [''m'', ''r''], lm_tokenizer = [''m'', ''r''],
        lm_max_length = 512, lm_half = False\<rparr>)]\<rparr>"

lemma demo_builds: "build demo_runtime (\<lambda>r. None) ''c.yaml'' [] [(''r'', demo_entry)] demo_fs = Some (demo_built, demo_fs)"
  by (simp add: build_def demo_entry_def demo_fs_def demo_built_def Let_def download_models_def download_entry_def load_models_def
      load_entry_def build_model_def search_onnxfile_def path_exists_def is_dir_def is_file_def listdir_def under_def dkeys_def
      construct_torch_def construct_def demo_runtime_def shadowed_def makedirs_def download_part_def dset_def dhas_def
      ends_with_def starts_with_def upt_rec numeral_2_eq_2)

lemma built_models_serve_witness:
  "bd_names demo_built = map fst ([] :: (string, entry_cfg) dict) @ map fst [(''r'', demo_entry)] \<and>
   (case resolve_reranker (Some demo_built) (Some ''r'') of Inl e \<Rightarrow> False | Inr m \<Rightarrow> is_reranker m) \<and>
   create_embeddings demo_runtime (Some demo_built) (One ''x'') (Some ''r'') = Inl (mk_exc 404 ''Embedding model not found'')"
proof -
  have p: "fst ` set ([] :: (string, entry_cfg) dict) \<inter> fst ` set [(''r'', demo_entry)] = {}"
    "''embedding_model_configs'' \<notin> fst ` set ([] :: (string, entry_cfg) dict) \<union> fst ` set [(''r'', demo_entry)]"
    "''reranking_model_configs'' \<notin> fst ` set [(''r'', demo_entry)]"
    by simp_all
  note s = built_models_serve [OF demo_builds p]
  show ?thesis
    using s [THEN conjunct1] s [THEN conjunct2, rule_format, of "''r''"] by (simp split: sum.splits)
qed

text \<open>
  An embedding and a reranking model of the same name: the second \<open>setattr\<close> replaces the first model, and
  every embeddings request for the name is a 500.
\<close>

lemma same_name_embeddings_fail:
  assumes "build rt hub cp emb rer fs = Some (b, fs')" "n \<in> fst ` set emb" "n \<in> fst ` set rer"
    and "\<not> shadowed b ''embedding_model_configs''"
  shows "create_embeddings rt (Some b) input (Some n) = Inl (mk_exc 500 ''Error generating embeddings'')"
proof -
  let ?b0 = "\<lparr>bd_embedding = emb, bd_reranking = rer, bd_names = [], bd_attrs = []\<rparr>"
  obtain fs1 where "load_models rt (?b0, fs1) = Some (b, fs')"
    using assms(1) by (auto simp: build_def Let_def split: if_splits option.splits)
  then obtain b1 fs2 where l: "load_entries rt True emb (?b0, fs1) = Some (b1, fs2)" "load_entries rt False rer (b1, fs2) = Some (b, fs')"
    by (auto simp: load_models_def split: option.splits if_splits)
  note a = load_entries_attrs [OF l(1)] and c = load_entries_attrs [OF l(2)]
  obtain m where m: "map_of (bd_attrs b) n = Some m" "class_fits False m"
    using c assms(3) by (metis list.set_map)
  have "dhas (bd_embedding b) n" using a c assms(2) by (simp add: dhas_iff_keys dkeys_def)
  moreover have "get_embeddings rt m texts = None" for texts
    using m(2) by (auto simp: class_fits_def get_embeddings_def)
  ultimately show ?thesis using m(1) assms(4) by (simp add: create_embeddings_def configured_def Let_def)
qed

text \<open>The schema gives the length and the device flags defaults; the builder reads the file and has none.\<close>

lemma defaults_not_applied:
  "ec_max_length e = None \<Longrightarrow> \<not> (embeds \<and> str_contains ''jina'' key) \<Longrightarrow> fst (build_model rt embeds key e fs) = None"
  by (auto simp: build_model_def construct_onnx_def construct_torch_def split: option.splits prod.splits)

text \<open>A Jina entry's length is not read: the model always cuts at 512 tokens.\<close>

lemma jina_length_ignored:
  "construct_jina rt fs mp e = Some m \<Longrightarrow> lm_max_length m = 512"
  by (auto simp: construct_jina_def construct_def split: option.splits if_splits)

text \<open>The server listens only after the builder is there, so the 503 of the health check is never answered.\<close>

lemma health_after_build: "health_check (Some b) = Inr ''ok''"
  by (simp add: health_check_def)

end
