(* ===== verification/Store_Drivers.thy ===== *)
theory Store_Drivers
  imports Router_Metrics Vllm_Command Run_Managers
begin

text \<open>
  Below the store: packages/llmops-store/_driver.py (the SQL text the two drivers send, their cursor, the
  connection retries, the schema initialisation and the column migrations) and migrate_sqlite_to_pg.py (the
  one-time copy of a SQLite store into an empty Postgres).

  The engines are parameters: what a statement answers and does to the database is a function of its text,
  its parameters and the database; \<open>None\<close> is an exception.  The schema is the text of \<open>_SCHEMA\<close>, line
  by line, its comments apart from its code.
\<close>

section \<open>Placeholders\<close>

fun translate_from :: "nat \<Rightarrow> string \<Rightarrow> string" where
  "translate_from n [] = []"
| "translate_from n (ch # s) =
     (if ch = CHR ''?'' then ''$'' @ show_nat (n + 1) @ translate_from (n + 1) s else ch # translate_from n s)"

definition translate_placeholders :: "string \<Rightarrow> string" where
  "translate_placeholders sql = translate_from 0 sql"

text \<open>
  What the engines document: SQLite takes the \<open>n\<close>-th \<open>?\<close> outside a literal for parameter \<open>n\<close>, Postgres a
  dollar sign with a number.  A statement is read as characters and references to parameters; \<open>q\<close> says
  that the scan is inside a literal.
\<close>

datatype piece = Txt char | Param nat

fun sqlite_reads :: "bool \<Rightarrow> nat \<Rightarrow> string \<Rightarrow> piece list" where
  "sqlite_reads q n [] = []"
| "sqlite_reads q n (c # s) =
     (if q then Txt c # sqlite_reads (c \<noteq> CHR 0x27) n s
      else if c = CHR ''?'' then Param (n + 1) # sqlite_reads False (n + 1) s
      else Txt c # sqlite_reads (c = CHR 0x27) n s)"

function pg_reads :: "bool \<Rightarrow> string \<Rightarrow> piece list" where
  "pg_reads q [] = []"
| "pg_reads q (c # s) =
     (if q then Txt c # pg_reads (c \<noteq> CHR 0x27) s
      else if c = CHR ''$'' \<and> takeWhile is_digit s \<noteq> [] then Param (parse_nat (takeWhile is_digit s)) # pg_reads False (dropWhile is_digit s)
      else Txt c # pg_reads (c = CHR 0x27) s)"
  by pat_completeness auto

termination
  by (relation "measure (\<lambda>(q, s). length s)") (auto simp: le_imp_less_Suc length_dropWhile_le)

fun clean_sql :: "bool \<Rightarrow> string \<Rightarrow> bool" where
  "clean_sql q [] = True"
| "clean_sql q (c # s) =
     (if q then c \<noteq> CHR ''?'' \<and> clean_sql (c \<noteq> CHR 0x27) s
      else if c = CHR ''?'' then \<not> is_digit (hd (s @ '' '')) \<and> clean_sql False s
      else c \<noteq> CHR ''$'' \<and> clean_sql (c = CHR 0x27) s)"

section \<open>The schema in the Postgres dialect\<close>

definition word_char :: "char \<Rightarrow> bool" where
  "word_char c = (is_alnum c \<or> c = CHR ''_'')"

text \<open>\<open>re.sub(r"\bREAL\b", ...)\<close>; \<open>prev\<close>: the character before is of a word.\<close>

function sub_word :: "string \<Rightarrow> string \<Rightarrow> bool \<Rightarrow> string \<Rightarrow> string" where
  "sub_word w new prev [] = []"
| "sub_word w new prev (c # s) =
     (if w \<noteq> [] \<and> \<not> prev \<and> starts_with w (c # s) \<and> \<not> word_char (hd (drop (length w) (c # s) @ '' ''))
      then new @ sub_word w new (word_char (last w)) (drop (length w) (c # s))
      else c # sub_word w new (word_char c) s)"
  by pat_completeness auto

termination
  by (relation "measure (\<lambda>(w, new, prev, s). length s)") (auto simp: Suc_le_eq)

definition dialectize_schema_pg :: "string \<Rightarrow> string" where
  "dialectize_schema_pg script =
     sub_word ''REAL'' ''DOUBLE PRECISION'' False
       (str_replace ''INTEGER PRIMARY KEY AUTOINCREMENT'' ''BIGINT GENERATED BY DEFAULT AS IDENTITY PRIMARY KEY'' script)"

section \<open>Statements\<close>

definition no_comments :: "string \<Rightarrow> string" where
  "no_comments script = join_lines (map (\<lambda>line. fst (str_partition ''--'' line)) (split_lines [] script))"

definition split_statements :: "string \<Rightarrow> string list" where
  "split_statements script = filter (\<lambda>s. s \<noteq> []) (map str_strip (split_on (CHR '';'') (no_comments script)))"

definition char_upper :: "char \<Rightarrow> char" where
  "char_upper c = (let n = of_char c :: nat in if 97 \<le> n \<and> n \<le> 122 then char_of (n - 32) else c)"

definition str_upper :: "string \<Rightarrow> string" where
  "str_upper s = map char_upper s"

definition returns_rows :: "string \<Rightarrow> bool" where
  "returns_rows sql =
     (starts_with ''SELECT'' (str_upper (take 6 (str_lstrip sql))) \<or> str_contains ''RETURNING'' (str_upper sql))"

definition pg_type :: "string \<Rightarrow> string" where
  "pg_type decl = (if str_upper (str_strip decl) = ''REAL'' then ''DOUBLE PRECISION'' else decl)"

fun words_of :: "string \<Rightarrow> string \<Rightarrow> string list" where
  "words_of w [] = (if w = [] then [] else [rev w])"
| "words_of w (c # s) =
     (if is_space c then (if w = [] then words_of [] s else rev w # words_of [] s) else words_of (c # w) s)"

definition rowcount_from_status :: "string \<Rightarrow> int" where
  "rowcount_from_status status =
     (case rev (words_of [] status) of
        [] \<Rightarrow> 0
      | w # _ \<Rightarrow> (case py_int w of None \<Rightarrow> 0 | Some n \<Rightarrow> n))"

section \<open>The schema\<close>

text \<open>
  A script as the lines of its statements, each the code and, after two dashes, a comment; the semicolon
  that ends a statement comes after the code of its last line.
\<close>

type_synonym ddl_line = "string \<times> string option"

definition comment_text :: "string option \<Rightarrow> string" where
  "comment_text m = (case m of None \<Rightarrow> [] | Some t \<Rightarrow> ''--'' @ t)"

definition line_text :: "ddl_line \<Rightarrow> string" where
  "line_text l = fst l @ comment_text (snd l) @ [CHR 0x0A]"

definition closed_lines :: "ddl_line list \<Rightarrow> ddl_line list" where
  "closed_lines ls = butlast ls @ [(fst (last ls) @ '';'', snd (last ls))]"

definition script_text :: "ddl_line list list \<Rightarrow> string" where
  "script_text sts = concat (map line_text (concat (map closed_lines sts)))"

text \<open>\<open>_SCHEMA\<close>; dashes and ellipses of its comments are in ASCII.\<close>

definition core_ddl :: "ddl_line list list" where
  \<open>core_ddl =
    [
     [([], None),
      (''CREATE TABLE IF NOT EXISTS model_events ('', None),
      (''    id         INTEGER PRIMARY KEY AUTOINCREMENT,'', None),
      (''    ts         REAL    NOT NULL,'', None),
      (''    key        TEXT    NOT NULL,'', None),
      (''    kind       TEXT    NOT NULL,'', None),
      (''    from_state TEXT,'', None),
      (''    to_state   TEXT    NOT NULL,'', None),
      (''    detail     TEXT'', None),
      ('')'', None)],
     [(''CREATE INDEX IF NOT EXISTS idx_model_events_key_ts ON model_events(key, ts)'', None)],
     [([], None),
      (''CREATE TABLE IF NOT EXISTS request_logs ('', None),
      (''    id               INTEGER PRIMARY KEY AUTOINCREMENT,'', None),
      (''    ts               REAL    NOT NULL,'', None),
      (''    model_key        TEXT    NOT NULL,'', None),
      (''    instance_id      TEXT,'', None),
      (''    path             TEXT    NOT NULL,'', None),
      (''    status_code      INTEGER,'', None),
      (''    latency_ms       REAL,'', None),
      (''    prompt_tokens    INTEGER,'', None),
      (''    completion_tokens INTEGER,'', None),
      (''    total_tokens     INTEGER,'', None),
      (''    error            TEXT,'', None),
      (''    api_key_name     TEXT'', None),
      ('')'', None)],
     [(''CREATE INDEX IF NOT EXISTS idx_request_logs_model_ts ON request_logs(model_key, ts)'', None)],
     [([], None),
      (''CREATE TABLE IF NOT EXISTS api_keys ('', None),
      (''    id           INTEGER PRIMARY KEY AUTOINCREMENT,'', None),
      (''    name         TEXT    NOT NULL,'', None),
      (''    key_hash     TEXT    NOT NULL UNIQUE,'', None),
      (''    prefix       TEXT    NOT NULL,'', None),
      (''    created_at   REAL    NOT NULL,'', None),
      (''    last_used_at REAL,'', None),
      (''    revoked      INTEGER NOT NULL DEFAULT 0,'', None),
      (''    rpm_limit    INTEGER,'', None),
      (''    token_quota  INTEGER,            '', Some '' max total_tokens per quota_period; NULL = unlimited''),
      (''    quota_period TEXT                '', Some '' 'total' | 'daily' | 'monthly' (NULL == 'total')''),
      ('')'', None)],
     [(''CREATE INDEX IF NOT EXISTS idx_api_keys_hash ON api_keys(key_hash)'', None)],
     [([], None),
      (''CREATE TABLE IF NOT EXISTS perf_runs ('', None),
      (''    id          INTEGER PRIMARY KEY AUTOINCREMENT,'', None),
      (''    created_at  REAL    NOT NULL,'', None),
      (''    name        TEXT,'', None),
      (''    model       TEXT    NOT NULL,'', None),
      (''    target_url  TEXT    NOT NULL,'', None),
      (''    status      TEXT    NOT NULL,   '', Some '' running | completed | failed | cancelled''),
      (''    params      TEXT,               '', Some '' JSON of the launch config''),
      (''    result      TEXT,               '', Some '' JSON: parsed summary points''),
      (''    output_dir  TEXT,               '', Some '' evalscope raw output directory''),
      (''    error       TEXT,'', None),
      (''    started_at  REAL,'', None),
      (''    finished_at REAL'', None),
      ('')'', None)],
     [(''CREATE INDEX IF NOT EXISTS idx_perf_runs_created ON perf_runs(created_at)'', None)],
     [([], None),
      (''CREATE TABLE IF NOT EXISTS eval_runs ('', None),
      (''    id          INTEGER PRIMARY KEY AUTOINCREMENT,'', None),
      (''    created_at  REAL    NOT NULL,'', None),
      (''    name        TEXT,'', None),
      (''    model       TEXT    NOT NULL,'', None),
      (''    target_url  TEXT    NOT NULL,'', None),
      (''    datasets    TEXT    NOT NULL,      '', Some '' JSON list of dataset ids''),
      (''    status      TEXT    NOT NULL,      '', Some '' queued | running | completed | failed | cancelled''),
      (''    params      TEXT,                  '', Some '' JSON of the launch config''),
      (''    result      TEXT,                  '', Some '' JSON: {dataset: {metric: score, ...}, ...}''),
      (''    output_dir  TEXT,                  '', Some '' evalscope raw output directory''),
      (''    error       TEXT,'', None),
      (''    started_at  REAL,'', None),
      (''    finished_at REAL'', None),
      ('')'', None)],
     [(''CREATE INDEX IF NOT EXISTS idx_eval_runs_created ON eval_runs(created_at)'', None)],
     [([], None),
      (''CREATE TABLE IF NOT EXISTS operators ('', None),
      (''    id           INTEGER PRIMARY KEY AUTOINCREMENT,'', None),
      (''    label        TEXT    NOT NULL,            '', Some '' display name + DiceBear avatar seed''),
      (''    token_hash   TEXT    NOT NULL UNIQUE,     '', Some '' SHA-256 only; plaintext shown once''),
      (''    prefix       TEXT    NOT NULL,            '', Some '' display prefix sk-op-xxxx...last4''),
      (''    role         TEXT    NOT NULL,            '', Some '' viewer | operator | admin''),
      (''    created_at   REAL    NOT NULL,'', None),
      (''    last_used_at REAL,'', None),
      (''    revoked      INTEGER NOT NULL DEFAULT 0'', None),
      ('')'', None)],
     [(''CREATE INDEX IF NOT EXISTS idx_operators_hash ON operators(token_hash)'', None)],
     [([], None),
      (''CREATE TABLE IF NOT EXISTS audit_log ('', None),
      (''    id          INTEGER PRIMARY KEY AUTOINCREMENT,'', None),
      (''    ts          REAL    NOT NULL,'', None),
      (''    actor       TEXT    NOT NULL,      '', Some ('' operator label / 'admin' / 'local-dev'' @ [CHR 0x27])),
      (''    role        TEXT,                  '', Some '' viewer | operator | admin''),
      (''    method      TEXT    NOT NULL,      '', Some '' POST/PUT/DELETE/PATCH''),
      (''    path        TEXT    NOT NULL,      '', Some '' /api/models/Qwen3-0.6B/autoscale''),
      (''    target      TEXT,                  '', Some '' subject extracted from the path''),
      (''    status      INTEGER NOT NULL,      '', Some '' response HTTP status code''),
      (''    detail      TEXT,                  '', Some '' redacted request summary (JSON)''),
      (''    source_ip   TEXT'', None),
      ('')'', None)],
     [(''CREATE INDEX IF NOT EXISTS idx_audit_ts ON audit_log(ts)'', None)],
     [(''CREATE INDEX IF NOT EXISTS idx_audit_actor ON audit_log(actor)'', None)],
     [([], None),
      (''CREATE TABLE IF NOT EXISTS alert_sinks ('', None),
      (''    id           INTEGER PRIMARY KEY AUTOINCREMENT,'', None),
      (''    type         TEXT    NOT NULL,            '', Some '' slack | discord | webhook''),
      (''    url          TEXT    NOT NULL,'', None),
      (''    min_severity TEXT    NOT NULL DEFAULT 'info','', None),
      (''    created_at   REAL    NOT NULL'', None),
      ('')'', None)],
     [([], None),
      (''CREATE TABLE IF NOT EXISTS model_prices ('', None),
      (''    model         TEXT    PRIMARY KEY,       '', Some '' route/group name (request_logs.model_key)''),
      (''    input_price   REAL    NOT NULL,          '', Some '' price per 1M prompt tokens''),
      (''    output_price  REAL    NOT NULL,          '', Some '' price per 1M completion tokens''),
      (''    currency      TEXT    NOT NULL DEFAULT 'USD','', None),
      (''    updated_at    REAL    NOT NULL'', None),
      ('')'', None)],
     [([], None),
      (''CREATE TABLE IF NOT EXISTS config_versions ('', None),
      (''    id        INTEGER PRIMARY KEY AUTOINCREMENT,'', None),
      (''    ts        REAL    NOT NULL,'', None),
      (''    actor     TEXT,                  '', Some ('' operator label / 'admin' / 'local-dev'' @ [CHR 0x27])),
      (''    role      TEXT,                  '', Some '' viewer | operator | admin''),
      (''    summary   TEXT,                  '', Some ('' trigger, e.g. 'PUT /api/models/Qwen/autoscale'' @ [CHR 0x27])),
      (''    sha256    TEXT    NOT NULL,      '', Some '' overlay content hash (skip if == latest)''),
      (''    overlay   TEXT    NOT NULL       '', Some '' full overlay JSON snapshot''),
      ('')'', None)],
     [(''CREATE INDEX IF NOT EXISTS idx_config_versions_ts ON config_versions(ts)'', None)],
     [([], None),
      (''CREATE TABLE IF NOT EXISTS instance_desired ('', None),
      (''    key        TEXT    PRIMARY KEY,       '', Some '' "group::instance_id"''),
      (''    desired    TEXT    NOT NULL,          '', Some '' running | asleep | stopped''),
      (''    updated_at REAL    NOT NULL'', None),
      ('')'', None)],
     [([], None),
      (''CREATE TABLE IF NOT EXISTS leader_lease ('', None),
      (''    name        TEXT    PRIMARY KEY,      '', Some ('' the elected role, e.g. 'control-plane'' @ [CHR 0x27])),
      (''    holder      TEXT    NOT NULL,         '', Some '' replica id holding the lease''),
      (''    expires_at  REAL    NOT NULL          '', Some '' epoch; a peer may steal it once past''),
      ('')'', None)],
     [([], None),
      (''CREATE TABLE IF NOT EXISTS draining ('', None),
      (''    key         TEXT    PRIMARY KEY,      '', Some '' "group::instance_id" being drained''),
      (''    expires_at  REAL    NOT NULL          '', Some '' epoch; self-expires so a stale mark heals''),
      ('')'', None)]
    ]\<close>

definition ha_ddl :: "ddl_line list list" where
  \<open>ha_ddl =
    [
     [([], None),
      ([], Some '' HA Phase 3a: live, routable address of each running instance. The node-agent''),
      ([], Some '' (collapsed into the backend on a single host) upserts the address + observed''),
      ([], Some '' state of every READY instance here; routers read it to route over the network''),
      ([], Some '' instead of assuming the backend's localhost/shared-netns. config = "which''),
      ([], Some '' instances should exist", instances_live = "where they actually are now". A TTL''),
      ([], Some '' (heartbeated each reconcile pass) self-heals stale rows if an agent dies.''),
      (''CREATE TABLE IF NOT EXISTS instances_live ('', None),
      (''    key         TEXT    PRIMARY KEY,      '', Some '' "group::instance_id"''),
      (''    group_key   TEXT    NOT NULL,         '', Some '' model group (router's model_key)''),
      (''    instance_id TEXT    NOT NULL,'', None),
      (''    node_id     TEXT,                     '', Some '' agent/replica that owns the process''),
      (''    host        TEXT    NOT NULL,         '', Some '' routable host (127.0.0.1 when collapsed)''),
      (''    port        INTEGER NOT NULL,'', None),
      (''    state       TEXT,                     '', Some ('' observed state, e.g. 'ready'' @ [CHR 0x27])),
      (''    expires_at  REAL    NOT NULL          '', Some '' epoch; self-expires so a stale row heals''),
      ('')'', None)],
     [([], None),
      ([], Some '' HA Phase 3b: each node-agent (one per GPU host; collapsed into the backend on a''),
      ([], Some '' single host) heartbeats its identity + capacity here. The scheduler reads it to''),
      ([], Some '' place instances; a node whose heartbeat lapses is treated as gone. Runtime''),
      ([], Some '' table, self-healing via the TTL - skipped by the sqlite->pg migration.''),
      (''CREATE TABLE IF NOT EXISTS nodes ('', None),
      (''    node_id     TEXT    PRIMARY KEY,      '', Some '' agent/replica id (== leader holder id)''),
      (''    hostname    TEXT,'', None),
      (''    capacity    TEXT,                     '', Some '' JSON: GPU inventory (index/name/mem)''),
      (''    engines     TEXT,                     '', Some '' JSON list of engines this node can run''),
      (''                                          '', Some '' (NULL = unspecified => runs any engine)''),
      (''    api_url     TEXT,                     '', Some '' this node's backend API base URL, for''),
      (''                                          '', Some '' proxying node-local requests (logs/metrics)''),
      (''    expires_at  REAL    NOT NULL          '', Some '' epoch; lapsed => node considered down''),
      ('')'', None)],
     [([], None),
      ([], Some '' HA Phase 3b: which node is responsible for running each instance. The control''),
      ([], Some '' plane writes the assignment; the owning node-agent actuates it (collapsed: the''),
      ([], Some '' single local node owns everything, so this mirrors the registry). Survives like''),
      ([], Some '' desired state is per-deployment, so it is rebuilt on start - skipped by migration.''),
      (''CREATE TABLE IF NOT EXISTS assignments ('', None),
      (''    key         TEXT    PRIMARY KEY,      '', Some '' "group::instance_id"''),
      (''    node_id     TEXT    NOT NULL,         '', Some '' node responsible for this instance''),
      (''    updated_at  REAL    NOT NULL'', None),
      ('')'', None)],
     [([], None),
      ([], Some '' HA Phase 3d: full observed state of every instance, backfilled each reconcile''),
      ([], Some '' pass by the owning node-agent. Lets any control-plane replica assemble the same''),
      ([], Some '' fleet view from the shared DB instead of its own in-memory registry. `view` is''),
      ([], Some '' the JSON model view; `state` is denormalized for filters. Runtime/self-healing''),
      ([], Some '' (TTL) - skipped by the migration.''),
      (''CREATE TABLE IF NOT EXISTS instance_observed ('', None),
      (''    key         TEXT    PRIMARY KEY,      '', Some '' "group::instance_id"''),
      (''    node_id     TEXT,                     '', Some '' node-agent that backfilled it''),
      (''    state       TEXT,                     '', Some '' observed state (denormalized)''),
      (''    view        TEXT    NOT NULL,         '', Some '' JSON snapshot of the model view''),
      (''    expires_at  REAL    NOT NULL          '', Some '' epoch; lapsed => stale, self-heals''),
      ('')'', None)]
    ]\<close>

definition schema_ddl :: "ddl_line list list" where
  "schema_ddl = core_ddl @ ha_ddl"

definition SCHEMA :: string where
  "SCHEMA = script_text schema_ddl"

section \<open>The drivers\<close>

datatype dialect = Sqlite string | Postgres string

text \<open>\<open>make_driver(db_path, db_url)\<close> and the store's choice between the arguments and the environment.\<close>

definition text_or :: "string option \<Rightarrow> string option \<Rightarrow> string option" where
  "text_or a b = (case a of None \<Rightarrow> b | Some s \<Rightarrow> if s = [] then b else a)"

definition make_driver :: "string \<Rightarrow> string option \<Rightarrow> dialect" where
  "make_driver db_path db_url =
     (case db_url of None \<Rightarrow> Sqlite db_path | Some u \<Rightarrow> if u = [] then Sqlite db_path else Postgres u)"

definition get_db_url :: "string option \<Rightarrow> string option" where
  "get_db_url env = (case env of None \<Rightarrow> None | Some s \<Rightarrow> if str_strip s = [] then None else Some (str_strip s))"

definition get_db_path :: "string \<Rightarrow> string option \<Rightarrow> string" where
  "get_db_path default_path env = (case env of None \<Rightarrow> default_path | Some s \<Rightarrow> s)"

definition store_driver :: "string \<Rightarrow> string option \<Rightarrow> string option \<Rightarrow> string option \<Rightarrow> string option \<Rightarrow> dialect" where
  "store_driver default_path path_env url_env db_path db_url =
     make_driver (the (text_or db_path (Some (get_db_path default_path path_env)))) (text_or db_url (get_db_url url_env))"

text \<open>
  \<open>PgDriver.connect\<close>: the outcomes of the attempts to make a pool.  \<open>Refused\<close> is an \<open>OSError\<close> or a
  \<open>PostgresError\<close>, which is retried; anything else leaves at once.  The answer counts the sleeps.
\<close>

datatype attempt = Made | Refused | Broken

datatype connection = Connected | Gave_Up | Failed_With_Other

fun connect_from :: "nat \<Rightarrow> nat \<Rightarrow> (nat \<Rightarrow> attempt) \<Rightarrow> nat \<Rightarrow> connection \<times> nat" where
  "connect_from 0 i out sleeps = (Gave_Up, sleeps)"
| "connect_from (Suc left) i out sleeps =
     (case out i of
        Made \<Rightarrow> (Connected, sleeps)
      | Broken \<Rightarrow> (Failed_With_Other, sleeps)
      | Refused \<Rightarrow> connect_from left (Suc i) out (if left = 0 then sleeps else Suc sleeps))"

definition pg_connect :: "nat \<Rightarrow> (nat \<Rightarrow> attempt) \<Rightarrow> connection \<times> nat" where
  "pg_connect retries out = connect_from retries 1 out 0"

record 'r cursor =
  cu_rows :: "'r list"
  cu_rowcount :: int

definition fetchone :: "'r cursor \<Rightarrow> 'r option" where
  "fetchone cu = (case cu_rows cu of [] \<Rightarrow> None | r # _ \<Rightarrow> Some r)"

definition pg_execute :: "(string \<Rightarrow> 'v list \<Rightarrow> 'db \<Rightarrow> ('r list \<times> 'db) option) \<Rightarrow>
     (string \<Rightarrow> 'v list \<Rightarrow> 'db \<Rightarrow> (string \<times> 'db) option) \<Rightarrow> string \<Rightarrow> 'v list \<Rightarrow> 'db \<Rightarrow> ('r cursor \<times> 'db) option" where
  "pg_execute rows_of run sql params db =
     (let tsql = translate_placeholders sql in
      if returns_rows sql
      then map_option (\<lambda>(rows, db1). (\<lparr>cu_rows = rows, cu_rowcount = int (length rows)\<rparr>, db1)) (rows_of tsql params db)
      else map_option (\<lambda>(status, db1). (\<lparr>cu_rows = [], cu_rowcount = rowcount_from_status status\<rparr>, db1)) (run tsql params db))"

definition rstrip_by :: "(char \<Rightarrow> bool) \<Rightarrow> string \<Rightarrow> string" where
  "rstrip_by P s = rev (dropWhile P (rev s))"

definition insert_text :: "string \<Rightarrow> string" where
  "insert_text sql =
     (let tsql = translate_placeholders sql in
      if str_contains ''RETURNING'' (str_upper sql) then tsql
      else rstrip_by (\<lambda>c. c = CHR '';'') (rstrip_by is_space tsql) @ '' RETURNING id'')"

definition pg_insert :: "(string \<Rightarrow> 'v list \<Rightarrow> 'db \<Rightarrow> ('r list \<times> 'db) option) \<Rightarrow> string \<Rightarrow> 'v list \<Rightarrow> 'db \<Rightarrow> ('r option \<times> 'db) option" where
  "pg_insert rows_of sql params db =
     map_option (\<lambda>(rows, db1). (case rows of [] \<Rightarrow> None | r # _ \<Rightarrow> Some r, db1)) (rows_of (insert_text sql) params db)"

text \<open>
  \<open>PgDriver.executescript\<close>: the commands sent, in order, whether they all ran, and the database.  The
  unlock is in a \<open>finally\<close>.
\<close>

datatype command = Lock | Run string | Unlock

fun run_statements :: "(string \<Rightarrow> 'db \<Rightarrow> 'db option) \<Rightarrow> string list \<Rightarrow> 'db \<Rightarrow> command list \<Rightarrow> bool \<times> 'db \<times> command list" where
  "run_statements run [] db sent = (True, db, sent)"
| "run_statements run (stmt # stmts) db sent =
     (case run stmt db of
        None \<Rightarrow> (False, db, sent @ [Run stmt])
      | Some db1 \<Rightarrow> run_statements run stmts db1 (sent @ [Run stmt]))"

definition pg_executescript :: "(string \<Rightarrow> 'db \<Rightarrow> 'db option) \<Rightarrow> string \<Rightarrow> 'db \<Rightarrow> bool \<times> 'db \<times> command list" where
  "pg_executescript run script db =
     (case run_statements run (split_statements (dialectize_schema_pg script)) db [Lock] of
        (ok, db1, sent) \<Rightarrow> (ok, db1, sent @ [Unlock]))"

text \<open>\<open>ensure_column\<close> on the tables with their columns; \<open>None\<close>: there is no such table.\<close>

type_synonym tables = "(string, (string, string) dict) dict"

definition sqlite_ensure_column :: "string \<times> string \<times> string \<Rightarrow> tables \<Rightarrow> tables option" where
  "sqlite_ensure_column m d =
     (case m of (table, column, decl) \<Rightarrow>
       (case map_of d table of
          None \<Rightarrow> None
        | Some cols \<Rightarrow> Some (if dhas cols column then d else dset table (cols @ [(column, decl)]) d)))"

definition pg_ensure_column :: "string \<times> string \<times> string \<Rightarrow> tables \<Rightarrow> tables option" where
  "pg_ensure_column m d = (case m of (table, column, decl) \<Rightarrow> sqlite_ensure_column (table, column, pg_type decl) d)"

definition MIGRATIONS :: "(string \<times> string \<times> string) list" where
  "MIGRATIONS =
     [(''request_logs'', ''api_key_name'', ''TEXT''),
      (''api_keys'', ''rpm_limit'', ''INTEGER''),
      (''api_keys'', ''token_quota'', ''INTEGER''),
      (''api_keys'', ''quota_period'', ''TEXT''),
      (''nodes'', ''engines'', ''TEXT''),
      (''nodes'', ''api_url'', ''TEXT'')]"

fun migrate_columns :: "(string \<times> string \<times> string \<Rightarrow> tables \<Rightarrow> tables option) \<Rightarrow> (string \<times> string \<times> string) list \<Rightarrow> tables \<Rightarrow> tables option" where
  "migrate_columns ensure [] d = Some d"
| "migrate_columns ensure (m # ms) d = (case ensure m d of None \<Rightarrow> None | Some d1 \<Rightarrow> migrate_columns ensure ms d1)"

section \<open>The copy of a SQLite store\<close>

datatype sqlval = SNull | SInt int | SReal real | SText string

type_synonym sql_row = "(string, sqlval) dict"

record src_table =
  sc_cols :: "string list"
  sc_rows :: "sql_row list"

text \<open>\<open>pt_next\<close>: the next value of the identity column, \<open>None\<close> when the table has none.\<close>

record pg_table =
  pt_cols :: "(string, string) dict"
  pt_rows :: "sql_row list"
  pt_next :: "int option"

definition SKIP_TABLES :: "string list" where
  "SKIP_TABLES = [''leader_lease'', ''draining'', ''instances_live'', ''nodes'', ''assignments'', ''instance_observed'']"

text \<open>\<open>float(text)\<close> is read without \<open>inf\<close>, \<open>nan\<close> and underscores.\<close>

definition pg_coerce :: "sqlval \<Rightarrow> string \<Rightarrow> sqlval option" where
  "pg_coerce v pgtype =
     (let t = str_lower pgtype in
      if v = SNull then Some SNull
      else if str_contains ''double'' t \<or> str_contains ''real'' t \<or> str_contains ''numeric'' t
      then (case v of SInt i \<Rightarrow> Some (SReal (of_int i)) | SText s \<Rightarrow> map_option SReal (number_text (str_strip s)) | _ \<Rightarrow> Some v)
      else if str_contains ''int'' t
      then (case v of SReal r \<Rightarrow> Some (SInt (py_trunc r)) | SText s \<Rightarrow> map_option SInt (py_int s) | _ \<Rightarrow> Some v)
      else Some v)"

definition sqlite_tables :: "(string, src_table) dict \<Rightarrow> string list" where
  "sqlite_tables src = sort (filter (\<lambda>t. \<not> (starts_with ''sqlite'' (str_lower t) \<and> 6 < length t)) (dkeys src))"

definition tables_to_copy :: "(string, src_table) dict \<Rightarrow> (string, pg_table) dict \<Rightarrow> string list" where
  "tables_to_copy src tgt =
     filter (\<lambda>t. case map_of tgt t of None \<Rightarrow> False | Some p \<Rightarrow> pt_cols p \<noteq> [])
       (filter (\<lambda>t. t \<notin> set SKIP_TABLES) (sqlite_tables src))"

definition coerce_row :: "(string, string) dict \<Rightarrow> string list \<Rightarrow> sql_row \<Rightarrow> sql_row option" where
  "coerce_row tcols cols r =
     those (map (\<lambda>c. map_option (Pair c) (pg_coerce (dget r c SNull) (dget tcols c []))) cols)"

text \<open>\<open>accepts\<close>: whether Postgres takes the row (types and constraints).\<close>

fun insert_rows :: "(string \<Rightarrow> sql_row \<Rightarrow> bool) \<Rightarrow> string \<Rightarrow> string list \<Rightarrow> sql_row list \<Rightarrow> pg_table \<Rightarrow> bool \<times> pg_table" where
  "insert_rows accepts t cols [] p = (True, p)"
| "insert_rows accepts t cols (r # rs) p =
     (case coerce_row (pt_cols p) cols r of
        None \<Rightarrow> (False, p)
      | Some vals \<Rightarrow>
          if accepts t vals then insert_rows accepts t cols rs (p\<lparr>pt_rows := pt_rows p @ [vals]\<rparr>) else (False, p))"

definition row_ids :: "sql_row list \<Rightarrow> int list" where
  "row_ids rows = List.map_filter (\<lambda>r. case dget r ''id'' SNull of SInt i \<Rightarrow> Some i | _ \<Rightarrow> None) rows"

definition set_sequence :: "pg_table \<Rightarrow> pg_table" where
  "set_sequence p =
     (if dhas (pt_cols p) ''id'' \<and> pt_next p \<noteq> None
      then p\<lparr>pt_next := Some (max (fold max (row_ids (pt_rows p)) 0) 1 + 1)\<rparr> else p)"

definition copy_table :: "(string \<Rightarrow> sql_row \<Rightarrow> bool) \<Rightarrow> string \<Rightarrow> src_table \<Rightarrow> pg_table \<Rightarrow> bool \<times> pg_table" where
  "copy_table accepts t s p =
     (let cols = filter (dhas (pt_cols p)) (sc_cols s) in
      if sc_rows s = [] then (True, p)
      else if cols = [] then (False, p)
      else case insert_rows accepts t cols (sc_rows s) p of
             (ok, p1) \<Rightarrow> if ok then (True, set_sequence p1) else (False, p1))"

fun copy_tables :: "(string \<Rightarrow> sql_row \<Rightarrow> bool) \<Rightarrow> (string, src_table) dict \<Rightarrow> string list \<Rightarrow> (string, pg_table) dict \<Rightarrow> nat \<Rightarrow> nat option \<times> (string, pg_table) dict" where
  "copy_tables accepts src [] tgt copied = (Some copied, tgt)"
| "copy_tables accepts src (t # ts) tgt copied =
     (case (map_of src t, map_of tgt t) of
        (Some s, Some p) \<Rightarrow>
          (case copy_table accepts t s p of
             (ok, p1) \<Rightarrow>
               if ok then copy_tables accepts src ts (dset t p1 tgt) (copied + length (sc_rows s))
               else (None, dset t p1 tgt))
      | _ \<Rightarrow> (None, tgt))"

definition truncate_table :: "pg_table \<Rightarrow> pg_table" where
  "truncate_table p = p\<lparr>pt_rows := [], pt_next := map_option (\<lambda>_. 1) (pt_next p)\<rparr>"

definition wipe_tables :: "string list \<Rightarrow> (string, pg_table) dict \<Rightarrow> (string, pg_table) dict" where
  "wipe_tables ts tgt = map (\<lambda>(t, p). (t, if t \<in> set ts then truncate_table p else p)) tgt"

datatype migration = No_Source | Has_Data | Copy_Failed | Migrated nat nat

text \<open>\<open>migrate\<close>, on the target as \<open>init\<close> leaves it.\<close>

definition migrate :: "(string \<Rightarrow> sql_row \<Rightarrow> bool) \<Rightarrow> (string, src_table) dict option \<Rightarrow> bool \<Rightarrow> (string, pg_table) dict \<Rightarrow> migration \<times> (string, pg_table) dict" where
  "migrate accepts source wipe tgt =
     (case source of
        None \<Rightarrow> (No_Source, tgt)
      | Some src \<Rightarrow>
          (let ts = tables_to_copy src tgt in
           if \<not> wipe \<and> list_ex (\<lambda>t. case map_of tgt t of None \<Rightarrow> False | Some p \<Rightarrow> pt_rows p \<noteq> []) ts then (Has_Data, tgt)
           else case copy_tables accepts src ts (if wipe then wipe_tables ts tgt else tgt) 0 of
                  (None, tgt1) \<Rightarrow> (Copy_Failed, tgt1)
                | (Some copied, tgt1) \<Rightarrow> (Migrated copied (length ts), tgt1)))"

section \<open>Both engines read the same parameters\<close>

lemma translate_head_no_digit:
  "(s \<noteq> [] \<Longrightarrow> \<not> is_digit (hd s)) \<Longrightarrow> takeWhile is_digit (translate_from n s) = []"
  by (cases s) (auto simp: is_digit_def)

lemma take_shown: "takeWhile is_digit s = [] \<Longrightarrow> takeWhile is_digit (show_nat n @ s) = show_nat n \<and> dropWhile is_digit (show_nat n @ s) = s"
  using shown_digits [of n] by (cases s) (auto simp: takeWhile_append2 dropWhile_append2 list_all_iff)

lemma pg_reads_translation:
  "clean_sql q s \<Longrightarrow> pg_reads q (translate_from n s) = sqlite_reads q n s"
proof (induction s arbitrary: q n)
  case (Cons c s)
  show ?case
  proof (cases "\<not> q \<and> c = CHR ''?''")
    case True
    then have nd: "takeWhile is_digit (translate_from (n + 1) s) = []"
      using Cons.prems by (intro translate_head_no_digit) (cases s; simp)
    note t = take_shown [OF nd, of "n + 1"]
    have "pg_reads False (translate_from (n + 1) s) = sqlite_reads False (n + 1) s"
      using Cons True by simp
    then show ?thesis
      using True t shown_digits [of "n + 1"] by (simp del: show_nat.simps)
  next
    case False
    then have "c \<noteq> CHR ''?''" using Cons.prems by (cases q) auto
    then show ?thesis using Cons False by (auto split: if_splits)
  qed
qed simp

text \<open>
  The store's statements mean the same on both engines: Postgres finds in the translated text, at every position,
  the parameter that SQLite takes there, and the rest of the text is untouched, for a statement without a
  dollar sign outside literals, a question mark inside one or a digit after one.
\<close>

theorem placeholders_agree:
  assumes "clean_sql False sql"
  shows "pg_reads False (translate_placeholders sql) = sqlite_reads False 0 sql"
  using pg_reads_translation [OF assms] by (simp add: translate_placeholders_def)

lemma placeholders_agree_witness:
  "pg_reads False (translate_placeholders ''a=? AND b=?'') = sqlite_reads False 0 ''a=? AND b=?''"
  by (rule placeholders_agree) (simp add: is_digit_def)


section \<open>Comments and statements\<close>

definition code_char :: "char \<Rightarrow> bool" where
  "code_char c = (c \<noteq> CHR '';'' \<and> c \<noteq> CHR ''-'' \<and> \<not> line_break c)"

definition line_ok :: "ddl_line \<Rightarrow> bool" where
  "line_ok l = (list_all code_char (fst l) \<and> (case snd l of None \<Rightarrow> True | Some t \<Rightarrow> list_all (\<lambda>c. \<not> line_break c) t))"

definition script_ok :: "ddl_line list list \<Rightarrow> bool" where
  "script_ok sts = list_all (\<lambda>ls. ls \<noteq> [] \<and> list_all line_ok ls) sts"

lemma starts_with_step [code]:
  "starts_with [] s = True"
  "starts_with (p # ps) [] = False"
  "starts_with (p # ps) (c # s) = (if p = c then starts_with ps s else False)"
  by (simp_all add: starts_with_def)

lemma starts_with_cut: "x \<notin> set p \<Longrightarrow> starts_with p (a @ x # b) = starts_with p a"
proof (induction p arbitrary: a)
  case (Cons q ps)
  then show ?case by (cases a) (auto simp: starts_with_step)
qed (simp add: starts_with_step)

lemma starts_with_length: "starts_with p a \<Longrightarrow> length p \<le> length a"
  unfolding starts_with_def by (metis length_take min.cobounded1)

lemma drop_cut: "starts_with p (c # a) \<Longrightarrow> drop (length p) (c # a @ x # b) = drop (length p) (c # a) @ x # b"
  using starts_with_length [of p "c # a"] drop_append [of "length p" "c # a" "x # b"] by simp

lemma replace_cut:
  shows "x \<notin> set old \<Longrightarrow> str_replace old new (a @ x # b) = str_replace old new a @ x # str_replace old new b"
proof (induction old new a rule: str_replace.induct)
  case (1 old new)
  have "\<not> starts_with old (x # b) \<or> old = []"
    using starts_with_cut [OF 1, of "[]" b] starts_with_length [of old "[]"] by auto
  then show ?case by auto
next
  case (2 old new c a)
  then show ?case
    using starts_with_cut [OF 2(3), of "c # a" b] drop_cut [of old c a x b] by (cases "old = []") auto
qed


lemma sub_word_cut:
  "x \<notin> set w \<Longrightarrow> \<not> word_char x \<Longrightarrow> sub_word w new prev (a @ x # b) = sub_word w new prev a @ x # sub_word w new False b"
proof (induction w new prev a rule: sub_word.induct)
  case (1 w new prev)
  have "\<not> starts_with w (x # b) \<or> w = []"
    using starts_with_cut [OF 1(1), of "[]" b] starts_with_length [of w "[]"] by auto
  then show ?case using 1 by auto
next
  case (2 w new prev c a)
  have cut: "starts_with w (c # a @ x # b) = starts_with w (c # a)"
    using starts_with_cut [OF 2(3), of "c # a" b] by simp
  have e: "word_char (hd (drop (length w) (c # a @ x # b) @ '' '')) = word_char (hd (drop (length w) (c # a) @ '' ''))"
    if "starts_with w (c # a)"
    using 2(4) drop_cut [OF that, of x b] by (cases "drop (length w) (c # a)") (simp_all add: word_char_def is_alnum_def is_alpha_def is_digit_def)
  show ?case
  proof (cases "w \<noteq> [] \<and> \<not> prev \<and> starts_with w (c # a) \<and> \<not> word_char (hd (drop (length w) (c # a) @ '' ''))")
    case True
    then show ?thesis using 2 e cut drop_cut [of w c a x b] by (simp del: drop_append)
  next
    case False
    then have "\<not> (w \<noteq> [] \<and> \<not> prev \<and> starts_with w (c # a @ x # b) \<and> \<not> word_char (hd (drop (length w) (c # a @ x # b) @ '' '')))"
      using e cut by blast
    then show ?thesis using 2(2) [OF False 2(3,4)] False by (simp only: append_Cons sub_word.simps if_False)
  qed
qed

definition dialect_line :: "ddl_line \<Rightarrow> ddl_line" where
  "dialect_line l = (dialectize_schema_pg (fst l), map_option dialectize_schema_pg (snd l))"


lemma dialect_cut: "\<not> word_char x \<Longrightarrow> x \<noteq> CHR '' '' \<Longrightarrow> dialectize_schema_pg (a @ x # b) = dialectize_schema_pg a @ x # dialectize_schema_pg b"
proof -
  assume x: "\<not> word_char x" "x \<noteq> CHR '' ''"
  have words: "list_all (\<lambda>c. word_char c \<or> c = CHR '' '') ''INTEGER PRIMARY KEY AUTOINCREMENT''" "list_all (\<lambda>c. word_char c \<or> c = CHR '' '') ''REAL''"
    by code_simp+
  from x have n: "x \<notin> set ''INTEGER PRIMARY KEY AUTOINCREMENT''" "x \<notin> set ''REAL''"
    using words by (auto simp: list_all_iff)
  show ?thesis unfolding dialectize_schema_pg_def replace_cut [OF n(1)] sub_word_cut [OF n(2) x(1)] ..
qed

lemma dialect_Nil [simp]: "dialectize_schema_pg [] = []"
  by (simp add: dialectize_schema_pg_def)

text \<open>The rewriting goes line by line, and leaves the code and the comment of a line apart.\<close>

lemma dialect_line_text: "dialectize_schema_pg (line_text l @ s) = line_text (dialect_line l) @ dialectize_schema_pg s"
proof -
  have x: "\<not> word_char (CHR 0x0A)" "\<not> word_char (CHR ''-'')"
    by (simp_all add: word_char_def is_alnum_def is_alpha_def is_digit_def)
  have "dialectize_schema_pg (CHR 0x0A # s) = CHR 0x0A # dialectize_schema_pg s"
    using dialect_cut [OF x(1), of "[]" s] by simp
  moreover have "dialectize_schema_pg (c @ CHR ''-'' # t) = dialectize_schema_pg c @ CHR ''-'' # dialectize_schema_pg t" for c t
    by (rule dialect_cut) (simp_all add: x)
  note this = this this [of "[]", simplified]
  ultimately show ?thesis
    by (cases "snd l") (simp_all add: line_text_def comment_text_def dialect_line_def dialect_cut x)
qed

lemma dialect_lines: "dialectize_schema_pg (concat (map line_text ls)) = concat (map line_text (map dialect_line ls))"
  by (induction ls) (simp_all add: dialect_line_text)

lemma dialect_closed: "ls \<noteq> [] \<Longrightarrow> map dialect_line (closed_lines ls) = closed_lines (map dialect_line ls)"
proof -
  assume "ls \<noteq> []"
  moreover have "\<not> word_char (CHR '';'')" by (simp add: word_char_def is_alnum_def is_alpha_def is_digit_def)
  ultimately show ?thesis
    using dialect_cut [of "CHR '';''" "fst (last ls)" "[]"]
    by (simp add: closed_lines_def map_butlast last_map dialect_line_def)
qed

lemma dialect_script:
  assumes "\<forall>ls\<in>set sts. ls \<noteq> []"
  shows "dialectize_schema_pg (script_text sts) = script_text (map (map dialect_line) sts)"
proof -
  have "map dialect_line (concat (map closed_lines sts)) = concat (map closed_lines (map (map dialect_line) sts))"
    using assms by (induction sts) (simp_all add: dialect_closed)
  then show ?thesis by (simp only: script_text_def dialect_lines)
qed

lemma list_all_drop: "list_all P s \<Longrightarrow> list_all P (drop n s)"
  by (metis append_take_drop_id list_all_append)

lemma replace_keeps: "list_all P new \<Longrightarrow> list_all P s \<Longrightarrow> list_all P (str_replace old new s)"
proof (induction old new s rule: str_replace.induct)
  case (2 old new c s)
  have "list_all P (drop (length old) (c # s))" using 2(4) by (rule list_all_drop)
  then show ?case using 2 by (simp del: drop.simps)
qed simp

lemma sub_word_keeps: "list_all P new \<Longrightarrow> list_all P s \<Longrightarrow> list_all P (sub_word w new prev s)"
proof (induction w new prev s rule: sub_word.induct)
  case (2 w new prev c s)
  have "list_all P (drop (length w) (c # s))" using 2(4) by (rule list_all_drop)
  then show ?case using 2 by (simp del: drop.simps)
qed simp

lemma dialect_keeps_code: "list_all code_char s \<Longrightarrow> list_all code_char (dialectize_schema_pg s)"
  unfolding dialectize_schema_pg_def by (intro sub_word_keeps replace_keeps) (simp_all add: code_char_def line_break_def)

lemma dialect_keeps_line: "list_all (\<lambda>c. \<not> line_break c) s \<Longrightarrow> list_all (\<lambda>c. \<not> line_break c) (dialectize_schema_pg s)"
  unfolding dialectize_schema_pg_def by (intro sub_word_keeps replace_keeps) (simp_all add: line_break_def)

lemma dialect_line_ok: "line_ok l \<Longrightarrow> line_ok (dialect_line l)"
  by (cases "snd l") (simp_all add: line_ok_def dialect_line_def dialect_keeps_code dialect_keeps_line)

lemma dialect_ok: "script_ok sts \<Longrightarrow> script_ok (map (map dialect_line) sts)"
  unfolding script_ok_def by (simp add: list.pred_map comp_def) (metis (mono_tags, lifting) dialect_line_ok list.pred_mono_strong)

text \<open>Comments are gone and each statement is one piece.\<close>

lemma before_comment: "list_all (\<lambda>c. c \<noteq> CHR ''-'') code \<Longrightarrow> fst (str_partition ''--'' (code @ comment_text m)) = code"
proof (induction code)
  case Nil
  then show ?case by (cases m) (simp_all add: comment_text_def starts_with_step)
next
  case (Cons c code)
  then show ?case by (auto simp: starts_with_step split: prod.splits)
qed


definition line_clean :: "ddl_line \<Rightarrow> bool" where
  "line_clean l = (list_all (\<lambda>c. c \<noteq> CHR ''-'') (fst l) \<and> list_all (\<lambda>c. \<not> line_break c) (fst l) \<and>
     (case snd l of None \<Rightarrow> True | Some t \<Rightarrow> list_all (\<lambda>c. \<not> line_break c) t))"

lemma no_breaks: "\<not> line_break (CHR ''-'')" "\<not> line_break (CHR '';'')"
  by (simp_all add: line_break_def)

lemma no_comments_lines: "list_all line_clean ls \<Longrightarrow> no_comments (concat (map line_text ls)) = join_lines (map fst ls)"
proof -
  assume ok: "list_all line_clean ls"
  have "split_lines [] (concat (map line_text ls)) = map (\<lambda>l. fst l @ comment_text (snd l)) ls"
    using ok
  proof (induction ls)
    case (Cons l ls)
    have "list_all (\<lambda>c. \<not> line_break c) (fst l @ comment_text (snd l))"
      using Cons.prems by (cases "snd l") (simp_all add: line_clean_def comment_text_def no_breaks)
    then show ?case using Cons split_line [of "fst l @ comment_text (snd l)" "[]"] by (simp add: line_text_def)
  qed simp
  moreover have "map (\<lambda>line. fst (str_partition ''--'' line)) (map (\<lambda>l. fst l @ comment_text (snd l)) ls) = map fst ls"
    using ok by (induction ls) (simp_all add: line_clean_def before_comment)
  ultimately show ?thesis by (simp only: no_comments_def)
qed

lemma code_clean: "list_all code_char s \<Longrightarrow> list_all (\<lambda>c. c \<noteq> CHR ''-'') s \<and> list_all (\<lambda>c. \<not> line_break c) s"
  by (induction s) (simp_all add: code_char_def)

lemma closed_clean:
  assumes "ls \<noteq> []" "list_all line_ok ls"
  shows "list_all line_clean (closed_lines ls)"
proof -
  obtain ks l where ls: "ls = ks @ [l]" using assms(1) by (metis append_butlast_last_id)
  have "list_all line_clean ls" using assms(2) by (induction ls) (simp_all add: line_ok_def line_clean_def code_clean)
  then show ?thesis by (simp add: ls closed_lines_def line_clean_def no_breaks)
qed

lemma join_lines_append: "xs \<noteq> [] \<Longrightarrow> ys \<noteq> [] \<Longrightarrow> join_lines (xs @ ys) = join_lines xs @ CHR 0x0A # join_lines ys"
  by (induction xs rule: join_lines.induct) (auto simp: neq_Nil_conv)

lemma join_closed: "ls \<noteq> [] \<Longrightarrow> join_lines (map fst (closed_lines ls)) = join_lines (map fst ls) @ '';''"
proof (induction ls rule: rev_induct)
  case (snoc l ls)
  then show ?case by (cases "ls = []") (simp_all add: closed_lines_def join_lines_append)
qed simp

lemma split_on_cut: "c \<notin> set a \<Longrightarrow> split_on c (a @ c # b) = a # split_on c b"
  by (induction a) auto

lemma join_code: "list_all line_ok ls \<Longrightarrow> CHR '';'' \<notin> set (join_lines (map fst ls))"
proof -
  have "c \<in> set (join_lines xs) \<Longrightarrow> c = CHR 0x0A \<or> (\<exists>x\<in>set xs. c \<in> set x)" for c xs
    by (induction xs rule: join_lines.induct) auto
  moreover assume "list_all line_ok ls"
  ultimately show ?thesis by (fastforce simp: list_all_iff line_ok_def code_char_def)
qed

lemma strip_newline: "str_strip (CHR 0x0A # s) = str_strip s"
  by (simp add: str_strip_def str_lstrip_def is_space_def)

lemma split_script_on:
  assumes "script_ok sts" "pre = [] \<or> pre = [CHR 0x0A]"
  shows "filter (\<lambda>s. s \<noteq> []) (map str_strip (split_on (CHR '';'') (pre @ join_lines (map fst (concat (map closed_lines sts)))))) =
    filter (\<lambda>s. s \<noteq> []) (map (\<lambda>ls. str_strip (join_lines (map fst ls))) sts)"
  using assms
proof (induction sts arbitrary: pre)
  case Nil
  then show ?case by (auto simp: str_strip_def str_lstrip_def is_space_def)
next
  case (Cons ls sts)
  let ?J = "join_lines (map fst ls)"
  have ls: "ls \<noteq> []" "list_all line_ok ls" and rest: "script_ok sts" using Cons.prems by (auto simp: script_ok_def)
  have J: "CHR '';'' \<notin> set (pre @ ?J)" using join_code [OF ls(2)] Cons.prems(2) by auto
  have strip: "str_strip (pre @ ?J) = str_strip ?J" using Cons.prems(2) strip_newline by auto
  show ?case
  proof (cases "sts = []")
    case True
    then show ?thesis
      using split_on_cut [OF J, of "[]"] strip by (simp add: join_closed ls) (simp add: str_strip_def str_lstrip_def)
  next
    case False
    then have ne: "concat (map closed_lines sts) \<noteq> []" "closed_lines ls \<noteq> []"
      by (auto simp: closed_lines_def neq_Nil_conv)
    have "pre @ join_lines (map fst (concat (map closed_lines (ls # sts)))) =
        (pre @ ?J) @ CHR '';'' # [CHR 0x0A] @ join_lines (map fst (concat (map closed_lines sts)))"
      using ne by (simp add: join_lines_append join_closed ls)
    then show ?thesis
      using Cons.IH [OF rest, of "[CHR 0x0A]"] strip by (simp only: split_on_cut [OF J]) simp
  qed
qed

text \<open>
  Splitting a script gives its statements, one each, whatever its comments hold, semicolons and dashes included:
  the code of the statement's lines, joined and stripped.
\<close>

theorem split_exact:
  assumes "script_ok sts"
  shows "split_statements (script_text sts) = filter (\<lambda>s. s \<noteq> []) (map (\<lambda>ls. str_strip (join_lines (map fst ls))) sts)"
proof -
  have "list_all line_clean (concat (map closed_lines sts))"
    using assms closed_clean by (fastforce simp: script_ok_def list_all_iff)
  then show ?thesis
    using split_script_on [OF assms, of "[]"] by (simp add: split_statements_def script_text_def no_comments_lines)
qed

lemma split_exact_witness:
  "split_statements (script_text [[(''a ('', Some '' x; y''), ('')'', None)], [(''b'', None)]]) = [''a ('' @ [CHR 0x0A] @ '')'', ''b'']"
  by (subst split_exact)
    (simp_all add: script_ok_def line_ok_def code_char_def line_break_def str_strip_def str_lstrip_def is_space_def)

section \<open>Connecting, initialising\<close>

lemma connect_from_outcome:
  "connect_from left i out k = (r, n) \<Longrightarrow>
    (case r of
       Connected \<Rightarrow> \<exists>j\<ge>i. j < i + left \<and> out j = Made \<and> (\<forall>m. i \<le> m \<and> m < j \<longrightarrow> out m = Refused) \<and> n = k + (j - i)
     | Gave_Up \<Rightarrow> (\<forall>m. i \<le> m \<and> m < i + left \<longrightarrow> out m = Refused) \<and> n = k + (left - 1)
     | Failed_With_Other \<Rightarrow> \<exists>j\<ge>i. j < i + left \<and> out j = Broken \<and> (\<forall>m. i \<le> m \<and> m < j \<longrightarrow> out m = Refused))"
proof (induction left arbitrary: i k)
  case (Suc left)
  show ?case
  proof (cases "out i")
    case Refused
    have step: "(\<forall>m. i \<le> m \<and> m < j \<longrightarrow> out m = Refused) \<longleftrightarrow> (\<forall>m. Suc i \<le> m \<and> m < j \<longrightarrow> out m = Refused)" for j
      using Refused by (metis Suc_leD le_neq_implies_less Suc_leI)
    have c: "connect_from left (Suc i) out (if left = 0 then k else Suc k) = (r, n)" using Suc.prems Refused by simp
    show ?thesis
    proof (cases "left = 0")
      case True
      then show ?thesis using c Refused by (auto simp: less_Suc_eq_le intro: le_antisym)
    next
      case False
      then show ?thesis using Suc.IH [OF c] unfolding step by (cases r) (auto intro: exI [of _ "_ :: nat"] Suc_leD)
    qed
  qed (use Suc.prems in auto)
qed auto


text \<open>
  The connection: it is made exactly when an attempt within the allowed number succeeds and those before it were
  refused; every sleep lies between two attempts, so giving up costs one sleep less than attempts.
\<close>

lemma pg_connect_outcome:
  assumes "pg_connect retries out = (r, n)"
  shows "case r of
       Connected \<Rightarrow> \<exists>j\<ge>1. j \<le> retries \<and> out j = Made \<and> (\<forall>m. 1 \<le> m \<and> m < j \<longrightarrow> out m = Refused) \<and> n = j - 1
     | Gave_Up \<Rightarrow> (\<forall>m. 1 \<le> m \<and> m \<le> retries \<longrightarrow> out m = Refused) \<and> n = retries - 1
     | Failed_With_Other \<Rightarrow> \<exists>j\<ge>1. j \<le> retries \<and> out j = Broken \<and> (\<forall>m. 1 \<le> m \<and> m < j \<longrightarrow> out m = Refused)"
  using connect_from_outcome [OF assms [unfolded pg_connect_def]] by (cases r) (auto simp: less_Suc_eq_le)

lemma run_statements_log:
  "run_statements run stmts db sent = (ok, db1, sent1) \<Longrightarrow>
     \<exists>k. sent1 = sent @ map Run (take k stmts) \<and> (ok \<longrightarrow> k = length stmts)"
proof (induction stmts arbitrary: db sent)
  case (Cons stmt stmts)
  show ?case
  proof (cases "run stmt db")
    case None
    then show ?thesis using Cons.prems by (auto intro: exI [of _ 1])
  next
    case (Some d)
    then obtain k where "sent1 = (sent @ [Run stmt]) @ map Run (take k stmts)" "ok \<longrightarrow> k = length stmts"
      using Cons.IH [of d "sent @ [Run stmt]"] Cons.prems by auto
    then show ?thesis by (intro exI [of _ "Suc k"]) simp
  qed
qed simp

text \<open>
  Initialising a Postgres schema takes the advisory lock first and gives it back last, also when a
  statement fails, and in between sends the statements of the script in order, up to the first that fails.
\<close>

theorem schema_under_lock:
  assumes "script_ok sts"
  shows "\<exists>ok db1 k. pg_executescript run (script_text sts) db =
      (ok, db1, [Lock] @ map Run (take k (filter (\<lambda>s. s \<noteq> [])
         (map (\<lambda>ls. str_strip (join_lines (map (\<lambda>l. dialectize_schema_pg (fst l)) ls))) sts))) @ [Unlock]) \<and>
    (ok \<longrightarrow> length sts \<le> k)"
proof -
  let ?stmts = "filter (\<lambda>s. s \<noteq> []) (map (\<lambda>ls. str_strip (join_lines (map (\<lambda>l. dialectize_schema_pg (fst l)) ls))) sts)"
  have "\<forall>ls\<in>set sts. ls \<noteq> []" using assms by (auto simp: script_ok_def list_all_iff)
  then have "split_statements (dialectize_schema_pg (script_text sts)) = ?stmts"
    by (simp add: dialect_script split_exact [OF dialect_ok [OF assms]] comp_def dialect_line_def)
  moreover obtain ok db1 sent where r: "run_statements run ?stmts db [Lock] = (ok, db1, sent)"
    by (metis prod_cases3)
  moreover obtain k where k: "sent = [Lock] @ map Run (take k ?stmts)" "ok \<longrightarrow> k = length ?stmts"
    using run_statements_log [OF r] by blast
  moreover have "take (if ok then max k (length sts) else k) ?stmts = take k ?stmts"
    using k(2) length_filter_le [of "\<lambda>s. s \<noteq> []" "map (\<lambda>ls. str_strip (join_lines (map (\<lambda>l. dialectize_schema_pg (fst l)) ls))) sts"] by auto
  ultimately show ?thesis
    by (intro exI [of _ ok] exI [of _ db1] exI [of _ "if ok then max k (length sts) else k"]) (simp add: pg_executescript_def)
qed

lemma schema_under_lock_witness:
  "\<exists>ok db1 k. pg_executescript (\<lambda>stmt db. Some (db + 1)) (script_text [[(''a REAL'', Some '' x; y'')], [(''b'', None)]]) (0 :: nat) =
      (ok, db1, [Lock] @ map Run (take k [''a DOUBLE PRECISION'', ''b'']) @ [Unlock]) \<and> (ok \<longrightarrow> 2 \<le> k)"
proof -
  have "script_ok [[(''a REAL'', Some '' x; y'')], [(''b'', None)]]"
    by (simp add: script_ok_def line_ok_def code_char_def line_break_def)
  from schema_under_lock [OF this, of "\<lambda>stmt db. Some (db + 1)" "0 :: nat"] show ?thesis
    by (simp add: dialectize_schema_pg_def starts_with_step word_char_def is_alnum_def is_alpha_def is_digit_def
        str_strip_def str_lstrip_def is_space_def numeral_2_eq_2)
qed

text \<open>The schema of the store is such a script, of 26 statements.\<close>

lemma schema_ok: "script_ok schema_ddl"
  by code_simp

lemma schema_code: "list_all (\<lambda>ls. list_ex (\<lambda>l. list_ex (\<lambda>c. \<not> is_space c) (fst l)) ls) schema_ddl \<and> length schema_ddl = 26"
  by code_simp

lemma strip_empty: "str_strip s = [] \<longleftrightarrow> (\<forall>c\<in>set s. is_space c)"
proof -
  have "(\<forall>c\<in>set (dropWhile is_space s). is_space c) \<longleftrightarrow> (\<forall>c\<in>set s. is_space c)"
    by (induction s) auto
  then show ?thesis by (simp add: str_strip_def str_lstrip_def dropWhile_eq_Nil_conv)
qed

lemma in_join_lines: "c \<in> set x \<Longrightarrow> x \<in> set xs \<Longrightarrow> c \<in> set (join_lines xs)"
  by (induction xs rule: join_lines.induct) auto

lemma schema_splits: "split_statements SCHEMA = map (\<lambda>ls. str_strip (join_lines (map fst ls))) schema_ddl"
proof -
  have "str_strip (join_lines (map fst ls)) \<noteq> []" if "ls \<in> set schema_ddl" for ls
  proof -
    have "list_ex (\<lambda>l. list_ex (\<lambda>c. \<not> is_space c) (fst l)) ls"
      using schema_code that by (simp add: list_all_iff)
    then obtain l c where "l \<in> set ls" "c \<in> set (fst l)" "\<not> is_space c"
      unfolding list_ex_iff by blast
    moreover then have "c \<in> set (join_lines (map fst ls))" by (intro in_join_lines [of c "fst l"]) auto
    ultimately show ?thesis unfolding strip_empty by blast
  qed
  then show ?thesis
    by (simp add: SCHEMA_def split_exact [OF schema_ok] filter_id_conv)
qed

section \<open>Column migrations\<close>

definition same_columns :: "tables \<Rightarrow> tables \<Rightarrow> bool" where
  "same_columns d e = list_all2 (\<lambda>(t, cs) (u, ds). t = u \<and> map fst cs = map fst ds) d e"

lemma same_columns_lookup:
  "same_columns d e \<Longrightarrow> rel_option (\<lambda>cs ds. map fst cs = map fst ds) (map_of d t) (map_of e t)"
  unfolding same_columns_def by (induction rule: list_all2_induct) auto

lemma same_columns_dset:
  "same_columns d e \<Longrightarrow> map fst cs = map fst ds \<Longrightarrow> same_columns (dset t cs d) (dset t ds e)"
  unfolding same_columns_def by (induction rule: list_all2_induct) (auto simp: dset_def)

lemma ensure_same: "same_columns d e \<Longrightarrow> rel_option same_columns (sqlite_ensure_column m d) (pg_ensure_column m e)"
proof -
  assume d: "same_columns d e"
  obtain t c ty where m: "m = (t, c, ty)" by (cases m)
  show ?thesis
  proof (cases "map_of d t")
    case None
    then show ?thesis using same_columns_lookup [OF d, of t] by (cases "map_of e t") (auto simp: m pg_ensure_column_def sqlite_ensure_column_def)
  next
    case (Some cs)
    then obtain ds where ds: "map_of e t = Some ds" "map fst cs = map fst ds"
      using same_columns_lookup [OF d, of t] by (cases "map_of e t") auto
    then have "dhas cs c = dhas ds c" by (simp add: dhas_iff_keys dkeys_def)
    then show ?thesis using d ds Some by (auto simp: m pg_ensure_column_def sqlite_ensure_column_def same_columns_dset)
  qed
qed

text \<open>
  Whatever columns are declared to be added, the migrations of the SQLite driver and of the Postgres driver
  take the same tables to the same columns, or fail alike, and what the first leaves a second run does not change.
\<close>

theorem migrations_agree:
  assumes "same_columns d e"
  shows "rel_option same_columns (migrate_columns sqlite_ensure_column ms d) (migrate_columns pg_ensure_column ms e) \<and>
    pred_option (\<lambda>d1. migrate_columns sqlite_ensure_column ms d1 = Some d1) (migrate_columns sqlite_ensure_column ms d)"
proof -
  have "rel_option same_columns (migrate_columns sqlite_ensure_column ms d) (migrate_columns pg_ensure_column ms e)"
    using assms
  proof (induction ms arbitrary: d e)
    case (Cons m ms)
    show ?case
      using ensure_same [OF Cons.prems, of m] Cons.IH
      by (cases "sqlite_ensure_column m d"; cases "pg_ensure_column m e") auto
  qed simp
  moreover have "migrate_columns sqlite_ensure_column ms d1 = Some d1" if "migrate_columns sqlite_ensure_column ms d = Some d1" for d1
  proof -
    define has where "has m x = (case m of (t, c, ty) \<Rightarrow> \<exists>cs. map_of x t = Some cs \<and> dhas cs c)" for m :: "string \<times> string \<times> string" and x :: tables
    have keep: "sqlite_ensure_column m x = Some y \<Longrightarrow> has k x \<Longrightarrow> has k y" and est: "sqlite_ensure_column m x = Some y \<Longrightarrow> has m y"
      and noop: "has m x \<Longrightarrow> sqlite_ensure_column m x = Some x" for m k x y
      by (auto simp: has_def sqlite_ensure_column_def dhas_def map_add_def split: prod.splits option.splits if_splits)
    have keeps: "migrate_columns sqlite_ensure_column ks x = Some y \<Longrightarrow> has k x \<Longrightarrow> has k y" for ks k x y
      by (induction ks arbitrary: x) (auto split: option.splits dest: keep)
    have "migrate_columns sqlite_ensure_column ks x = Some y \<Longrightarrow> \<forall>m\<in>set ks. has m y" for ks x y
      by (induction ks arbitrary: x) (auto split: option.splits intro: keeps est)
    then have all: "\<forall>m\<in>set ms. has m d1" using that by blast
    then show ?thesis by (induction ms) (simp_all add: noop)
  qed
  ultimately show ?thesis by (auto simp: option.pred_set)
qed

lemma migrations_agree_witness:
  "rel_option same_columns (migrate_columns sqlite_ensure_column [(''t'', ''b'', ''REAL'')] [(''t'', [(''a'', ''TEXT'')])])
      (migrate_columns pg_ensure_column [(''t'', ''b'', ''REAL'')] [(''t'', [(''a'', ''TEXT'')])]) \<and>
   pred_option (\<lambda>d1. migrate_columns sqlite_ensure_column [(''t'', ''b'', ''REAL'')] d1 = Some d1)
      (migrate_columns sqlite_ensure_column [(''t'', ''b'', ''REAL'')] [(''t'', [(''a'', ''TEXT'')])])"
  by (rule migrations_agree) (simp add: same_columns_def)


section \<open>The copy is exact\<close>

lemma coerce_keeps:
  "pg_coerce (SText s) ''text'' = Some (SText s)" "pg_coerce (SInt i) ''bigint'' = Some (SInt i)" "pg_coerce (SInt i) ''integer'' = Some (SInt i)"
  "pg_coerce (SReal r) ''double precision'' = Some (SReal r)" "pg_coerce (SInt i) ''double precision'' = Some (SReal (of_int i))"
  by (simp_all add: pg_coerce_def Let_def str_lower_def char_lower_def str_contains_def starts_with_step split: prod.splits)

lemma insert_rows_exact:
  "insert_rows accepts t cols rs p = (ok, p1) \<Longrightarrow>
     \<exists>new. p1 = p\<lparr>pt_rows := pt_rows p @ new\<rparr> \<and> (ok \<longrightarrow> map Some new = map (coerce_row (pt_cols p) cols) rs)"
proof (induction rs arbitrary: p)
  case Nil
  then show ?case by auto
next
  case (Cons r rs)
  show ?case
  proof (cases "coerce_row (pt_cols p) cols r")
    case None
    then show ?thesis using Cons.prems by (auto intro: exI [of _ "[]"])
  next
    case (Some vals)
    show ?thesis
    proof (cases "accepts t vals")
      case True
      then obtain new where "p1 = p\<lparr>pt_rows := pt_rows p @ [vals] @ new\<rparr>" "ok \<longrightarrow> map Some new = map (coerce_row (pt_cols p) cols) rs"
        using Cons.IH [of "p\<lparr>pt_rows := pt_rows p @ [vals]\<rparr>"] Cons.prems Some by auto
      then show ?thesis using Some by (intro exI [of _ "vals # new"]) auto
    next
      case False
      then show ?thesis using Cons.prems Some by (auto intro: exI [of _ "[]"])
    qed
  qed
qed

lemma fold_max: "(i :: int) \<in> set xs \<or> i \<le> n \<Longrightarrow> i \<le> fold max xs n"
  by (induction xs arbitrary: n) fastforce+

text \<open>What a table holds after it was copied into an empty one.\<close>

definition copied_from :: "src_table \<Rightarrow> pg_table \<Rightarrow> pg_table \<Rightarrow> bool" where
  "copied_from s p p1 =
     (pt_cols p1 = pt_cols p \<and>
      map Some (pt_rows p1) = map (coerce_row (pt_cols p) (filter (dhas (pt_cols p)) (sc_cols s))) (sc_rows s) \<and>
      (case pt_next p1 of None \<Rightarrow> True | Some n \<Rightarrow> dhas (pt_cols p) ''id'' \<longrightarrow> list_all (\<lambda>i. i < n) (row_ids (pt_rows p1))))"

lemma copy_table_exact:
  assumes "copy_table accepts t s p = (True, p1)" "pt_rows p = []"
  shows "copied_from s p p1"
proof (cases "sc_rows s = []")
  case True
  then show ?thesis using assms by (auto simp: copy_table_def copied_from_def row_ids_def map_filter_simps split: option.splits)
next
  case False
  let ?cols = "filter (dhas (pt_cols p)) (sc_cols s)"
  obtain ok p2 where i: "insert_rows accepts t ?cols (sc_rows s) p = (ok, p2)" by fastforce
  then have ok: "ok" "p1 = set_sequence p2"
    using assms(1) False by (auto simp: copy_table_def Let_def split: if_splits)
  obtain new where "p2 = p\<lparr>pt_rows := pt_rows p @ new\<rparr>" "map Some new = map (coerce_row (pt_cols p) ?cols) (sc_rows s)"
    using insert_rows_exact [OF i] ok(1) by blast
  moreover have "list_all (\<lambda>i. i < max (fold max xs 0) 1 + 1) xs" for xs :: "int list"
    using fold_max [of _ xs 0] by (fastforce simp: list_all_iff)
  ultimately show ?thesis
    using ok(2) assms(2) by (auto simp: set_sequence_def copied_from_def split: option.splits)
qed

lemma copied_cong: "pt_cols p = pt_cols q \<Longrightarrow> copied_from s p = copied_from s q"
  by (simp add: copied_from_def fun_eq_iff split: option.split)

lemma copy_tables_exact:
  assumes "copy_tables accepts src ts tgt k = (Some n, tgt1)" "distinct ts"
    and "\<And>t p. t \<in> set ts \<Longrightarrow> map_of tgt t = Some p \<Longrightarrow> pt_rows p = []"
  shows "if t \<in> set ts then \<exists>s p p1. map_of src t = Some s \<and> map_of tgt t = Some p \<and> map_of tgt1 t = Some p1 \<and> copied_from s p p1
         else map_of tgt1 t = map_of tgt t"
  using assms
proof (induction ts arbitrary: tgt k)
  case (Cons u ts)
  obtain s p p1 where u: "map_of src u = Some s" "map_of tgt u = Some p" "copy_table accepts u s p = (True, p1)"
    and rest: "copy_tables accepts src ts (dset u p1 tgt) (k + length (sc_rows s)) = (Some n, tgt1)"
    using Cons.prems(1) by (auto split: option.splits prod.splits if_splits)
  have c: "copied_from s p p1" by (rule copy_table_exact [OF u(3)]) (use Cons.prems(3) [of u p] u(2) in simp)
  have "pt_rows q = []" if "v \<in> set ts" "map_of (dset u p1 tgt) v = Some q" for v q
    using that Cons.prems(2,3) by (auto split: if_splits)
  note IH = Cons.IH [OF rest _ this]
  show ?case
  proof (cases "t = u")
    case True
    then show ?thesis using IH Cons.prems(2) u(1,2) c by auto
  next
    case False
    then show ?thesis using IH Cons.prems(2) by auto
  qed
qed simp

lemma wiped_lookup: "map_of (wipe_tables ts tgt) t = map_option (\<lambda>p. if t \<in> set ts then truncate_table p else p) (map_of tgt t)"
  by (induction tgt) (auto simp: wipe_tables_def)

text \<open>
  C26: A migration that ends well has copied every table of the source that it does not skip and that the target has,
  row for row and in order: the shared columns, each value as the column's type takes it; the next identity is
  above every copied one; all other tables are as they were.
\<close>

theorem migration_copies:
  assumes "migrate accepts (Some src) wipe tgt = (Migrated n k, tgt1)" "dict_ok src"
  shows "if t \<in> set (tables_to_copy src tgt)
    then \<exists>s p p1. map_of src t = Some s \<and> map_of tgt t = Some p \<and> map_of tgt1 t = Some p1 \<and> copied_from s p p1
    else map_of tgt1 t = map_of tgt t"
proof -
  let ?ts = "tables_to_copy src tgt"
  let ?tgt = "if wipe then wipe_tables ?ts tgt else tgt"
  have c: "copy_tables accepts src ?ts ?tgt 0 = (Some n, tgt1)"
    using assms(1) by (auto simp: migrate_def Let_def split: if_splits prod.splits option.splits)
  have d: "distinct ?ts"
    using assms(2) by (simp add: tables_to_copy_def sqlite_tables_def dict_ok_def dkeys_def)
  have e: "pt_rows p = []" if "u \<in> set ?ts" "map_of ?tgt u = Some p" for u p
  proof (cases wipe)
    case True
    then show ?thesis using that by (auto simp: wiped_lookup truncate_table_def)
  next
    case False
    then show ?thesis using assms(1) that by (force simp: migrate_def Let_def list_ex_iff split: if_splits option.splits prod.splits)
  qed
  have x: "if t \<in> set ?ts then \<exists>s p p1. map_of src t = Some s \<and> map_of ?tgt t = Some p \<and> map_of tgt1 t = Some p1 \<and> copied_from s p p1
      else map_of tgt1 t = map_of ?tgt t"
    by (rule copy_tables_exact [OF c d]) (rule e)
  show ?thesis
  proof (cases "t \<in> set ?ts")
    case True
    then obtain s p p1 where p: "map_of src t = Some s" "map_of ?tgt t = Some p" "map_of tgt1 t = Some p1" "copied_from s p p1"
      using x by auto
    obtain q where "map_of tgt t = Some q" "pt_cols p = pt_cols q"
      using p(2) by (cases wipe) (auto simp: wiped_lookup truncate_table_def)
    then show ?thesis using p True copied_cong by metis
  next
    case False
    then have "map_of ?tgt t = map_of tgt t" by (cases "map_of tgt t") (simp_all add: wiped_lookup)
    then show ?thesis using x False by simp
  qed
qed

lemma migration_copies_witness:
  "\<exists>p1. map_of (snd (migrate (\<lambda>t vals. True) (Some [(''ks'', \<lparr>sc_cols = [''id'', ''x''], sc_rows = [[(''id'', SInt 4), (''x'', SInt 1)]]\<rparr>)]) False
      [(''ks'', \<lparr>pt_cols = [(''id'', ''bigint'')], pt_rows = [], pt_next = Some 1\<rparr>)])) ''ks'' = Some p1 \<and>
    copied_from \<lparr>sc_cols = [''id'', ''x''], sc_rows = [[(''id'', SInt 4), (''x'', SInt 1)]]\<rparr>
      \<lparr>pt_cols = [(''id'', ''bigint'')], pt_rows = [], pt_next = Some 1\<rparr> p1"
proof -
  let ?src = "[(''ks'', \<lparr>sc_cols = [''id'', ''x''], sc_rows = [[(''id'', SInt 4), (''x'', SInt 1)]]\<rparr>)]"
  let ?tgt = "[(''ks'', \<lparr>pt_cols = [(''id'', ''bigint'')], pt_rows = [], pt_next = Some (1 :: int)\<rparr>)]"
  have ts: "tables_to_copy ?src ?tgt = [''ks'']"
    by (simp add: tables_to_copy_def sqlite_tables_def dkeys_def SKIP_TABLES_def starts_with_def str_lower_def char_lower_def)
  have m: "migrate (\<lambda>t vals. True) (Some ?src) False ?tgt =
      (Migrated 1 1, [(''ks'', \<lparr>pt_cols = [(''id'', ''bigint'')], pt_rows = [[(''id'', SInt 4)]], pt_next = Some 5\<rparr>)])"
    by (simp add: migrate_def ts copy_table_def Let_def dhas_def coerce_row_def coerce_keeps dget_def dset_def set_sequence_def
        row_ids_def map_filter_simps)
  show ?thesis using migration_copies [OF m, of "''ks''"] m by (simp add: dict_ok_def ts)
qed

text \<open>Without \<open>--wipe\<close> a target that holds anything is refused and left as it is.\<close>

lemma migration_refuses:
  assumes "t \<in> set (tables_to_copy src tgt)" "map_of tgt t = Some p" "pt_rows p \<noteq> []"
  shows "migrate accepts (Some src) False tgt = (Has_Data, tgt)"
  using assms by (force simp: migrate_def Let_def list_ex_iff)

text \<open>The copy is no transaction: a value that Postgres refuses leaves the tables before it, and part of its own, committed.\<close>

lemma failed_copy_leaves_rows:
  "migrate (\<lambda>t vals. dget vals ''a'' SNull \<noteq> SInt 2) (Some [(''t'', \<lparr>sc_cols = [''a''], sc_rows = [[(''a'', SInt 1)], [(''a'', SInt 2)]]\<rparr>)]) False
     [(''t'', \<lparr>pt_cols = [(''a'', ''bigint'')], pt_rows = [], pt_next = None\<rparr>)] =
   (Copy_Failed, [(''t'', \<lparr>pt_cols = [(''a'', ''bigint'')], pt_rows = [[(''a'', SInt 1)]], pt_next = None\<rparr>)])"
  by (simp add: migrate_def tables_to_copy_def sqlite_tables_def dkeys_def SKIP_TABLES_def starts_with_def copy_table_def Let_def dhas_def
      coerce_row_def coerce_keeps dget_def dset_def)

text \<open>Any URL, whatever its scheme, selects the Postgres driver.\<close>

lemma any_url_is_postgres: "u \<noteq> [] \<Longrightarrow> make_driver p (Some u) = Postgres u"
  by (simp add: make_driver_def)

end
