(* ===== verification/Observability.thy ===== *)
theory Observability
  imports Alert_Tests Autoscaler Eval_Reports Vllm_Command Router_Metrics "HOL-Library.Product_Lexorder"
begin

text \<open>
  What the backend shows: api/observability.py (events, usage, logs, the live stream, the relay to the node
  that owns an instance), services/vllm_metrics.py (start-up figures read out of an engine log), api/metrics.py (the
  Prometheus page), services/gpu_service.py (nvidia-smi), services/config_service.py (the summary of the
  configuration), and the sending side of alerts: the payloads of llmops/notifier.py and api/alerts.py.

  Files and other processes are arguments: the text of a log, the output of nvidia-smi, the answer of another
  node or of a webhook; \<open>None\<close> is a failure.  \<open>fl\<close> is Python's \<open>repr\<close> of a float.  The symbols of an
  alert's text that are not ASCII are a parameter, one \<open>char\<close> each.
\<close>

section \<open>The live stream of the fleet\<close>

text \<open>The fields of \<open>ModelView\<close>, in the sorted order of \<open>json.dumps(..., sort_keys=True)\<close>.\<close>

definition opt_json :: "('a \<Rightarrow> jval) \<Rightarrow> 'a option \<Rightarrow> jval" where
  "opt_json f x = (case x of None \<Rightarrow> JNull | Some a \<Rightarrow> f a)"

definition model_view :: "observed_view \<times> string option \<Rightarrow> jval" where
  "model_view vn =
     (case vn of (v, nid) \<Rightarrow>
       JObj [(''desired'', JStr (ov_desired v)), (''engine'', JStr (ov_engine v)), (''host'', JStr (ov_host v)),
         (''key'', JStr (ov_key v)), (''kind'', JStr (ov_kind v)), (''last_error'', opt_json JStr (ov_error v)),
         (''managed'', JBool (ov_managed v)), (''model_tag'', opt_json JStr (ov_model_tag v)), (''node_id'', opt_json JStr nid),
         (''pid'', opt_json (\<lambda>p. JInt (int p)) (ov_pid v)), (''port'', JInt (ov_port v)), (''ready_at'', opt_json JFloat (ov_ready v)),
         (''restart_count'', JInt (int (ov_restarts v))), (''started_at'', opt_json JFloat (ov_started v)),
         (''state'', JStr (ov_state v)), (''updated_at'', JFloat (ov_updated v))])"

definition fleet_signature :: "(real \<Rightarrow> string) \<Rightarrow> env \<Rightarrow> real \<Rightarrow> node \<Rightarrow> string" where
  "fleet_signature fl e now n =
     json_dumps fl (JList (map model_view
       (sort_key (\<lambda>vn. ov_key (fst vn)) (map snd (fleet_views e now (prefer_store_view n) n)))))"

record sse_state =
  ss_last :: "string option"
  ss_since :: real

datatype sse = Data string | Heartbeat

definition sse_init :: sse_state where
  "sse_init = \<lparr>ss_last = None, ss_since = 0\<rparr>"

text \<open>One turn of the loop of \<open>model_snapshot_stream\<close>, up to its sleep.\<close>

definition sse_step :: "real \<Rightarrow> real \<Rightarrow> string \<Rightarrow> sse_state \<Rightarrow> sse option \<times> sse_state" where
  "sse_step interval heartbeat_every sig st =
     (if Some sig \<noteq> ss_last st then (Some (Data sig), \<lparr>ss_last = Some sig, ss_since = 0\<rparr>)
      else let since = ss_since st + interval in
        if since \<ge> heartbeat_every then (Some Heartbeat, st\<lparr>ss_since := 0\<rparr>)
        else (None, st\<lparr>ss_since := since\<rparr>))"

fun sse_run :: "real \<Rightarrow> real \<Rightarrow> string list \<Rightarrow> sse_state \<Rightarrow> sse option list \<times> sse_state" where
  "sse_run interval hb [] st = ([], st)"
| "sse_run interval hb (sig # sigs) st =
     (case sse_step interval hb sig st of (ev, st1) \<Rightarrow>
       (case sse_run interval hb sigs st1 of (evs, st2) \<Rightarrow> (ev # evs, st2)))"

definition sse_text :: "sse \<Rightarrow> string" where
  "sse_text ev = (case ev of Data sig \<Rightarrow> ''data: '' @ sig @ [CHR 0x0A, CHR 0x0A] | Heartbeat \<Rightarrow> '': heartbeat'' @ [CHR 0x0A, CHR 0x0A])"

section \<open>Logs and histories\<close>

text \<open>\<open>quote(key, safe="")\<close>, for ASCII keys.\<close>

definition upper_hex :: "nat \<Rightarrow> char" where
  "upper_hex n = (if n < 10 then char_of (48 + n) else char_of (55 + n))"

definition url_quote :: "string \<Rightarrow> string" where
  "url_quote s =
     concat (map (\<lambda>c. if is_alnum c \<or> c \<in> {CHR ''_'', CHR ''.'', CHR ''-'', CHR ''~''} then [c]
       else let n = of_char c :: nat in [CHR ''%'', upper_hex (n div 16), upper_hex (n mod 16)]) s)"

definition owner_url :: "string \<Rightarrow> string \<Rightarrow> string \<Rightarrow> string" where
  "owner_url api_url key suffix = api_url @ ''/api/models/'' @ url_quote key @ ''/'' @ suffix"

text \<open>
  What another node answers: nothing, a page that is JSON, or one that is not, which \<open>resp.json()\<close> refuses
  outside the \<open>try\<close>.
\<close>

datatype node_answer = No_Answer | Json_Page int jval | Other_Page int

text \<open>\<open>Page\<close>: the answer with its status; \<open>Raised\<close>: an exception that no handler turns into an answer.\<close>

datatype page = Page int jval | Unhandled

definition proxy_to_owner :: "env \<Rightarrow> real \<Rightarrow> (string \<Rightarrow> node_answer) \<Rightarrow> string \<Rightarrow> string \<Rightarrow> node \<Rightarrow> page option" where
  "proxy_to_owner e now asks key suffix n =
     (case owning_node_api_url e now key n of
        None \<Rightarrow> None
      | Some u \<Rightarrow>
          (case asks (owner_url u key suffix) of
             No_Answer \<Rightarrow> Some (Page 502 (JStr ''failed to reach owning node''))
           | Json_Page status body \<Rightarrow> Some (Page status body)
           | Other_Page _ \<Rightarrow> Some Unhandled))"

definition not_found :: "string \<Rightarrow> page" where
  "not_found detail = Page 404 (JStr detail)"

text \<open>\<open>"".join(f.readlines()[-n:])\<close> on the lines of the file with their ends.\<close>

fun keep_lines :: "string \<Rightarrow> string \<Rightarrow> string list" where
  "keep_lines cur [] = (if cur = [] then [] else [cur])"
| "keep_lines cur (c # s) = (if c = CHR 0x0A then (cur @ [c]) # keep_lines [] s else keep_lines (cur @ [c]) s)"

definition read_log_lines :: "(string \<Rightarrow> string option) \<Rightarrow> string option \<Rightarrow> int \<Rightarrow> string option" where
  "read_log_lines files log_path n =
     (case log_path of
        None \<Rightarrow> None
      | Some p \<Rightarrow> if p = [] then None else map_option (\<lambda>t. concat (log_tail n (keep_lines [] t))) (files p))"

definition read_log_head :: "(string \<Rightarrow> string option) \<Rightarrow> string option \<Rightarrow> string option" where
  "read_log_head files log_path =
     (case log_path of None \<Rightarrow> None | Some p \<Rightarrow> if p = [] then None else map_option (take 65536) (files p))"

definition model_logs :: "env \<Rightarrow> real \<Rightarrow> (string \<Rightarrow> node_answer) \<Rightarrow> (string \<Rightarrow> string option) \<Rightarrow> string \<Rightarrow> int \<Rightarrow> node \<Rightarrow> page" where
  "model_logs e now asks files key tail n =
     (case proxy_to_owner e now asks key ''logs'' n of
        Some p \<Rightarrow> p
      | None \<Rightarrow>
          (case reg_get (nd_reg n) key of
             None \<Rightarrow> not_found ''unknown model''
           | Some i \<Rightarrow>
               (case read_log_lines files (mi_log i) tail of
                  None \<Rightarrow> not_found ''no log file''
                | Some content \<Rightarrow>
                    Page 200 (JObj [(''key'', JStr key), (''log_path'', opt_json JStr (mi_log i)), (''content'', JStr content)]))))"

definition model_events :: "string \<Rightarrow> nat \<Rightarrow> store \<Rightarrow> node \<Rightarrow> (int \<times> event_row) list option" where
  "model_events key limit s n = (if reg_get (nd_reg n) key = None then None else Some (recent_events (Some key) limit s))"

section \<open>Start-up figures\<close>

text \<open>
  The patterns of vllm_metrics.py.  In each of them what may follow a run is no character of the run, so the
  greedy match is the only one and the pattern is read without backtracking.
\<close>

datatype pat = Lit string | Blanks | Grab "char \<Rightarrow> bool" | Skip "char \<Rightarrow> bool" | Decimal

definition digit_comma :: "char \<Rightarrow> bool" where
  "digit_comma c = (is_digit c \<or> c = CHR '','')"

definition digit_dot :: "char \<Rightarrow> bool" where
  "digit_dot c = (is_digit c \<or> c = CHR ''.'')"

definition decimal_run :: "string \<Rightarrow> string" where
  "decimal_run s =
     (let whole = takeWhile is_digit s; rest = dropWhile is_digit s in
      if rest \<noteq> [] \<and> hd rest = CHR ''.'' \<and> takeWhile is_digit (tl rest) \<noteq> [] then whole @ [CHR ''.''] @ takeWhile is_digit (tl rest)
      else whole)"

fun match_here :: "pat list \<Rightarrow> string \<Rightarrow> string option \<Rightarrow> string option option" where
  "match_here [] s got = Some got"
| "match_here (Lit t # ps) s got = (if starts_with t s then match_here ps (drop (length t) s) got else None)"
| "match_here (Blanks # ps) s got = match_here ps (dropWhile is_space s) got"
| "match_here (Grab P # ps) s got =
     (let t = takeWhile P s in if t = [] then None else match_here ps (dropWhile P s) (Some t))"
| "match_here (Skip P # ps) s got = (if takeWhile P s = [] then None else match_here ps (dropWhile P s) got)"
| "match_here (Decimal # ps) s got =
     (let t = decimal_run s in if t = [] then None else match_here ps (drop (length t) s) (Some t))"

fun search :: "pat list \<Rightarrow> string \<Rightarrow> string option" where
  "search ps [] = (case match_here ps [] None of Some (Some t) \<Rightarrow> Some t | _ \<Rightarrow> None)"
| "search ps (c # s) = (case match_here ps (c # s) None of Some (Some t) \<Rightarrow> Some t | _ \<Rightarrow> search ps s)"

text \<open>\<open>float(text)\<close> for digits and dots.\<close>

definition float_of :: "string \<Rightarrow> real option" where
  "float_of s =
     (let whole = takeWhile is_digit s; rest = dropWhile is_digit s; frac = tl rest in
      if rest = [] then (if whole = [] then None else Some (real (parse_nat whole)))
      else if hd rest = CHR ''.'' \<and> list_all is_digit frac \<and> whole @ frac \<noteq> []
      then Some (real (parse_nat (whole @ frac)) / 10 ^ length frac) else None)"

definition log_num :: "pat list \<Rightarrow> string \<Rightarrow> real option" where
  "log_num ps text = Option.bind (search ps text) (\<lambda>t. float_of (filter (\<lambda>c. c \<noteq> CHR '','') t))"

record startup_metrics =
  su_kv_tokens :: "int option"
  su_max_concurrency :: "real option"
  su_req_tokens :: "int option"
  su_kv_gib :: "real option"
  su_model_gib :: "real option"
  su_cudagraph_gib :: "real option"
  su_weights_s :: "real option"
  su_load_s :: "real option"
  su_compile_s :: "real option"
  su_warmup_s :: "real option"
  su_gmu_current :: "real option"
  su_gmu_effective :: "real option"
  su_gmu_suggested :: "real option"

definition parse_startup_metrics :: "string \<Rightarrow> startup_metrics" where
  "parse_startup_metrics text =
     \<lparr>su_kv_tokens = map_option py_trunc (log_num [Lit ''GPU KV cache size:'', Blanks, Grab digit_comma, Blanks, Lit ''tokens''] text),
      su_max_concurrency = log_num [Lit ''Maximum concurrency for '', Skip digit_comma, Lit '' tokens per request:'', Blanks, Grab digit_dot, Lit ''x''] text,
      su_req_tokens = map_option py_trunc (log_num [Lit ''Maximum concurrency for '', Grab digit_comma, Lit '' tokens per request''] text),
      su_kv_gib = log_num [Lit ''Available KV cache memory:'', Blanks, Grab digit_dot, Blanks, Lit ''GiB''] text,
      su_model_gib = log_num [Lit ''Model loading took '', Grab digit_dot, Lit '' GiB''] text,
      su_cudagraph_gib = log_num [Lit ''Estimated CUDA graph memory:'', Blanks, Grab digit_dot, Blanks, Lit ''GiB''] text,
      su_weights_s = log_num [Lit ''Loading weights took '', Grab digit_dot, Lit '' seconds''] text,
      su_load_s = log_num [Lit ''Model loading took '', Skip digit_dot, Lit '' GiB memory and '', Grab digit_dot, Lit '' seconds''] text,
      su_compile_s = log_num [Lit ''torch.compile took '', Grab digit_dot, Lit '' s''] text,
      su_warmup_s = log_num [Lit ''warmup run took '', Grab digit_dot, Lit '' s''] text,
      su_gmu_current = log_num [Lit ''current --gpu-memory-utilization='', Decimal] text,
      su_gmu_effective = log_num [Lit ''equivalent to --gpu-memory-utilization='', Decimal] text,
      su_gmu_suggested = log_num [Lit ''increase --gpu-memory-utilization to '', Decimal] text\<rparr>"

definition has_any :: "startup_metrics \<Rightarrow> bool" where
  "has_any m =
     (su_kv_tokens m \<noteq> None \<or> su_max_concurrency m \<noteq> None \<or> su_req_tokens m \<noteq> None \<or> su_kv_gib m \<noteq> None \<or>
      su_model_gib m \<noteq> None \<or> su_cudagraph_gib m \<noteq> None \<or> su_weights_s m \<noteq> None \<or> su_load_s m \<noteq> None \<or>
      su_compile_s m \<noteq> None \<or> su_warmup_s m \<noteq> None \<or> su_gmu_current m \<noteq> None \<or> su_gmu_effective m \<noteq> None \<or>
      su_gmu_suggested m \<noteq> None)"

datatype metrics_view = Relayed page | Unknown_Model | Not_Ready | No_Log | Figures startup_metrics

definition model_metrics :: "env \<Rightarrow> real \<Rightarrow> (string \<Rightarrow> node_answer) \<Rightarrow> (string \<Rightarrow> string option) \<Rightarrow> string \<Rightarrow> node \<Rightarrow> metrics_view" where
  "model_metrics e now asks files key n =
     (case proxy_to_owner e now asks key ''metrics'' n of
        Some p \<Rightarrow> Relayed p
      | None \<Rightarrow>
          (case reg_get (nd_reg n) key of
             None \<Rightarrow> Unknown_Model
           | Some i \<Rightarrow>
               if mi_state i \<noteq> READY then Not_Ready
               else (case read_log_head files (mi_log i) of None \<Rightarrow> No_Log | Some t \<Rightarrow> Figures (parse_startup_metrics t))))"

section \<open>The Prometheus page\<close>

definition label_escape :: "string \<Rightarrow> string" where
  "label_escape v =
     concat (map (\<lambda>c. if c = CHR 0x5C then [CHR 0x5C, CHR 0x5C] else if c = CHR 0x22 then [CHR 0x5C, CHR 0x22]
       else if c = CHR 0x0A then [CHR 0x5C, CHR ''n''] else [c]) v)"

definition sample_line :: "string \<Rightarrow> (string \<times> string) list \<Rightarrow> string \<Rightarrow> string" where
  "sample_line metric labels value =
     metric @ ''{'' @ join_with '','' (map (\<lambda>(k, v). k @ [CHR ''='', CHR 0x22] @ label_escape v @ [CHR 0x22]) labels) @ ''} '' @ value"

definition gauges :: "(string \<times> (group_load \<Rightarrow> real) \<times> string) list" where
  "gauges =
     [(''llmops_group_ready_replicas'', \<lambda>l. real (gl_ready l), ''Ready (serving) replicas in the group''),
      (''llmops_group_asleep_replicas'', \<lambda>l. real (gl_asleep l), ''Level-1 asleep replicas (VRAM freed)''),
      (''llmops_group_stopped_replicas'', \<lambda>l. real (gl_stopped l), ''Stopped replicas''),
      (''llmops_group_waiting_total'', gl_waiting, ''Queued (waiting) requests across ready replicas''),
      (''llmops_group_running_total'', gl_running, ''In-flight (running) requests across ready replicas''),
      (''llmops_group_waiting_per_replica'', gl_per_replica, ''Queue depth per ready replica (scale-up signal)''),
      (''llmops_group_kv_cache_avg'', gl_kv, ''Mean KV-cache utilisation over ready replicas (0..1)'')]"

definition help_line :: "string \<Rightarrow> string \<Rightarrow> string" where
  "help_line metric text = ''# HELP '' @ metric @ '' '' @ text"

definition type_line :: "string \<Rightarrow> string \<Rightarrow> string" where
  "type_line metric kind = ''# TYPE '' @ metric @ '' '' @ kind"

definition sorted_items :: "('k::linorder, 'v) dict \<Rightarrow> ('k \<times> 'v) list" where
  "sorted_items d = sort_key fst d"

definition gauge_lines :: "(real \<Rightarrow> string) \<Rightarrow> (string, group_load) dict \<Rightarrow> string list" where
  "gauge_lines fl loads =
     concat (map (\<lambda>(metric, fld, help). [help_line metric help, type_line metric ''gauge''] @
       map (\<lambda>(grp, l). sample_line metric [(''group'', grp)] (fl (fld l))) (sorted_items loads)) gauges)"

definition enabled_lines :: "(string, autoscale_cfg option) dict \<Rightarrow> string list" where
  "enabled_lines policies =
     [help_line ''llmops_group_autoscale_enabled'' ''Autoscaling enabled (1) or off (0)'', type_line ''llmops_group_autoscale_enabled'' ''gauge''] @
     map (\<lambda>(grp, a). sample_line ''llmops_group_autoscale_enabled'' [(''group'', grp)]
       (if (case a of None \<Rightarrow> False | Some c \<Rightarrow> au_enabled c) then ''1'' else ''0'')) (sorted_items policies)"

definition bounds :: "(string \<times> (autoscale_cfg \<Rightarrow> real option)) list" where
  "bounds =
     [(''llmops_group_min_ready'', \<lambda>c. Some (of_int (au_min_ready c))),
      (''llmops_group_max_ready'', \<lambda>c. map_option of_int (au_max_ready c)),
      (''llmops_group_scale_up_waiting'', \<lambda>c. Some (au_up_waiting c))]"

definition bound_lines :: "(real \<Rightarrow> string) \<Rightarrow> (string, autoscale_cfg option) dict \<Rightarrow> string list" where
  "bound_lines fl policies =
     concat (map (\<lambda>(metric, fld). type_line metric ''gauge'' #
       List.map_filter (\<lambda>(grp, a). map_option (\<lambda>r. sample_line metric [(''group'', grp)] (fl r)) (Option.bind a fld)) (sorted_items policies)) bounds)"

definition verb_text :: "verb \<Rightarrow> string" where
  "verb_text v = (case v of Wake \<Rightarrow> ''wake'' | Start \<Rightarrow> ''start'' | Sleep \<Rightarrow> ''sleep'' | Stop \<Rightarrow> ''stop'')"

definition counter_lines :: "string \<Rightarrow> string \<Rightarrow> string \<Rightarrow> (string \<times> string, nat) dict \<Rightarrow> string list" where
  "counter_lines metric help label counts =
     [help_line metric help, type_line metric ''counter''] @
     map (\<lambda>((grp, what), n). sample_line metric [(''group'', grp), (label, what)] (show_nat n)) (sorted_items counts)"

definition metric_lines :: "(real \<Rightarrow> string) \<Rightarrow> (string, group_load) dict \<Rightarrow> (string, autoscale_cfg option) dict \<Rightarrow>
     (string \<times> string, nat) dict \<Rightarrow> (string \<times> string, nat) dict \<Rightarrow> string list" where
  "metric_lines fl loads policies actions blocked =
     gauge_lines fl loads @ enabled_lines policies @ bound_lines fl policies @
     counter_lines ''llmops_autoscale_actions_total'' ''Autoscaler actions taken'' ''action'' actions @
     counter_lines ''llmops_autoscale_blocked_total'' ''Scale-up attempts blocked (e.g. by VRAM preflight)'' ''reason'' blocked"

definition render_metrics :: "(real \<Rightarrow> string) \<Rightarrow> (string, group_load) dict \<Rightarrow> (string, autoscale_cfg option) dict \<Rightarrow>
     (string \<times> string, nat) dict \<Rightarrow> (string \<times> string, nat) dict \<Rightarrow> string" where
  "render_metrics fl loads policies actions blocked = join_lines (metric_lines fl loads policies actions blocked) @ [CHR 0x0A]"

definition metrics_page :: "(real \<Rightarrow> string) \<Rightarrow> (string, group_load) dict \<Rightarrow> root_cfg \<Rightarrow> autoscaler option \<Rightarrow> string" where
  "metrics_page fl loads config a =
     render_metrics fl loads (map (\<lambda>(grp, g). (grp, autoscale_of g)) (rc_engines config))
       (case a of None \<Rightarrow> [] | Some x \<Rightarrow> map (\<lambda>((grp, v), n). ((grp, verb_text v), n)) (as_actions x))
       (case a of None \<Rightarrow> [] | Some x \<Rightarrow> as_blocked x)"

section \<open>GPUs\<close>

record gpu_row =
  gr_index :: int
  gr_name :: string
  gr_used :: int
  gr_total :: int
  gr_util :: int

text \<open>\<open>s.split(sep)\<close> with a separator of one or more characters.\<close>

function split_str :: "string \<Rightarrow> string \<Rightarrow> string \<Rightarrow> string list" where
  "split_str sep cur [] = [cur]"
| "split_str sep cur (c # s) =
     (if sep \<noteq> [] \<and> starts_with sep (c # s) then cur # split_str sep [] (drop (length sep) (c # s))
      else split_str sep (cur @ [c]) s)"
  by pat_completeness auto

termination
  by (relation "measure (\<lambda>(sep, cur, s). length s)") (auto simp: Suc_le_eq)

definition gpu_of_line :: "string \<Rightarrow> gpu_row option" where
  "gpu_of_line line =
     (case split_str '', '' [] line of
        [i, name, used, tot, util] \<Rightarrow>
          (case (py_int i, py_int used, py_int tot, py_int util) of
             (Some a, Some b, Some c, Some d) \<Rightarrow> Some \<lparr>gr_index = a, gr_name = name, gr_used = b, gr_total = c, gr_util = d\<rparr>
           | _ \<Rightarrow> None)
      | _ \<Rightarrow> None)"

definition get_gpu_info :: "string option \<Rightarrow> gpu_row list" where
  "get_gpu_info output =
     (case output of
        None \<Rightarrow> []
      | Some t \<Rightarrow> (case those (map gpu_of_line (split_on (CHR 0x0A) (str_strip t))) of None \<Rightarrow> [] | Some rs \<Rightarrow> rs))"

text \<open>What \<open>psutil\<close> says of a process.\<close>

datatype proc_info = Known string string "string list" string | Gone | Denied string

record gpu_process =
  gq_pid :: int
  gq_name :: string
  gq_used :: "int option"
  gq_info :: proc_info

text \<open>\<open>csv.reader\<close> on the text: fields between commas, quoted ones with doubled quotes; a record ends with its line.\<close>

datatype csv_state = Field_Start | In_Field | In_Quotes | Quote_Seen

fun csv_rows :: "csv_state \<Rightarrow> string \<Rightarrow> string list \<Rightarrow> string \<Rightarrow> string list list" where
  "csv_rows st fld row [] = (if row = [] \<and> fld = [] \<and> st = Field_Start then [] else [row @ [fld]])"
| "csv_rows st fld row (c # s) =
     (if st = In_Quotes then (if c = CHR 0x22 then csv_rows Quote_Seen fld row s else csv_rows In_Quotes (fld @ [c]) row s)
      else if c = CHR '','' then csv_rows Field_Start [] (row @ [fld]) s
      else if c = CHR 0x0A \<or> c = CHR 0x0D then
        (if row = [] \<and> fld = [] \<and> st = Field_Start
         then (if c = CHR 0x0A then [] # csv_rows Field_Start [] [] s else csv_rows Field_Start [] [] s)
         else (row @ [fld]) # csv_rows Field_Start [] [] (if c = CHR 0x0D \<and> s \<noteq> [] \<and> hd s = CHR 0x0A then tl s else s))
      else if c = CHR 0x22 \<and> st = Field_Start then csv_rows In_Quotes fld row s
      else if c = CHR 0x22 \<and> st = Quote_Seen then csv_rows In_Quotes (fld @ [c]) row s
      else csv_rows In_Field (fld @ [c]) row s)"

definition process_of_row :: "(int \<Rightarrow> proc_info) \<Rightarrow> string list \<Rightarrow> gpu_process option" where
  "process_of_row info row =
     (case row of
        [p, name, mem] \<Rightarrow>
          (case py_int (str_strip p) of
             None \<Rightarrow> None
           | Some pid \<Rightarrow> Some \<lparr>gq_pid = pid, gq_name = str_strip name, gq_used = py_int (str_strip mem), gq_info = info pid\<rparr>)
      | _ \<Rightarrow> None)"

definition used_or_zero :: "gpu_process \<Rightarrow> int" where
  "used_or_zero p = (case gq_used p of None \<Rightarrow> 0 | Some n \<Rightarrow> n)"

text \<open>\<open>output\<close>: the text, \<open>None\<close> for a return code other than 0.\<close>

definition get_gpu_processes :: "(int \<Rightarrow> proc_info) \<Rightarrow> string option \<Rightarrow> gpu_process list" where
  "get_gpu_processes info output =
     (case output of
        None \<Rightarrow> []
      | Some t \<Rightarrow> sort_key (\<lambda>p. (gq_used p = None, - used_or_zero p)) (List.map_filter (process_of_row info) (csv_rows Field_Start [] [] t)))"

section \<open>The summary of the configuration\<close>

definition settings_extra :: "group_cfg \<Rightarrow> (string, jval) dict" where
  "settings_extra g = filter (\<lambda>(k, v). \<not> dhas mc_defaults k) (group_mc g)"

definition inst_extra :: "inst_cfg \<Rightarrow> (string, jval) dict" where
  "inst_extra i = filter (\<lambda>(k, v). k \<noteq> ''cuda_device'') (ic_extra i)"

definition autoscale_defaults :: "(string, jval) dict" where
  "autoscale_defaults =
     [(''enabled'', JBool False), (''min_ready'', JInt 1), (''min_warm'', JInt 1), (''max_ready'', JNull),
      (''scale_up_waiting'', JFloat 4), (''scale_up_window_s'', JFloat 20), (''sleep_after_s'', JFloat 180),
      (''stop_after_s'', JFloat 900), (''cooldown_s'', JFloat 60)]"

definition entry_defaults :: "(string, jval) dict" where
  "entry_defaults =
     [(''model_name'', JNull), (''model_path'', JNull), (''tokenizer_path'', JNull), (''max_length'', JInt 512),
      (''use_gpu'', JBool True), (''use_float16'', JBool True)]"

definition tool_parser :: "group_cfg \<Rightarrow> inst_cfg \<Rightarrow> jval" where
  "tool_parser g i =
     jor (jget (settings_extra g) ''tool-call-parser'')
       (jor (jget (inst_extra i) ''reasoning_parser'')
         (jor (jget (settings_extra g) ''reasoning_parser'') (JStr ''unknown'')))"

definition instance_summary :: "group_cfg \<Rightarrow> inst_cfg \<Rightarrow> jval" where
  "instance_summary g i =
     JObj [(''host'', JStr (inst_host i)), (''port'', JInt (ic_port i)), (''cuda_device'', jget (ic_extra i) ''cuda_device''),
       (''max_model_len'', jget (group_mc g) ''max_model_len''), (''gpu_memory_utilization'', jget (group_mc g) ''gpu_memory_utilization''),
       (''tool_parser'', tool_parser g i), (''settings'', JObj (dupdate (settings_dump g) (inst_extra i))),
       (''autoscale'', case gc_autoscale g of Val d \<Rightarrow> JObj (dump_with autoscale_defaults d) | _ \<Rightarrow> JNull),
       (''fallback'', case gc_fallback g of Val (f # fs) \<Rightarrow> JList (map JStr (f # fs)) | _ \<Rightarrow> JNull)]"

definition engines_summary :: "root_cfg \<Rightarrow> (string, jval) dict" where
  "engines_summary config =
     fold (\<lambda>(name, g) d. fold (\<lambda>i. dset (name @ sep2 @ ic_id i) (instance_summary g i)) (group_instances g) d) (rc_engines config) []"

fun entry_summary :: "jval \<Rightarrow> jval" where
  "entry_summary (JObj d) = JObj (dump_with entry_defaults d)"
| "entry_summary v = v"

fun models_summary :: "jval \<Rightarrow> jval" where
  "models_summary (JObj ms) = JObj (map (\<lambda>(name, v). (name, entry_summary v)) ms)"
| "models_summary v = JObj []"

definition embedding_summary :: "root_cfg \<Rightarrow> (string, jval) dict" where
  "embedding_summary config =
     (case rc_embedding config of
        Val emb \<Rightarrow>
          [(''host'', dget emb ''host'' (JStr ''localhost'')), (''port'', jget emb ''port''), (''cuda_device'', jget emb ''cuda_device''),
           (''embedding_models'', models_summary (jget emb ''embedding_models'')),
           (''reranking_models'', models_summary (jget emb ''reranking_models''))]
      | _ \<Rightarrow>
          [(''host'', JNull), (''port'', JNull), (''cuda_device'', JNull), (''embedding_models'', JObj []), (''reranking_models'', JObj [])])"

definition summarize_config :: "root_cfg \<Rightarrow> (string, jval) dict" where
  "summarize_config config =
     [(''server'', jget (rc_rest config) ''server''), (''LLM_engines'', JObj (engines_summary config)),
      (''embedding_server'', JObj (embedding_summary config))]"

section \<open>Alerts\<close>

text \<open>The symbols of a message: the emoji of a severity, the dash and the dot.\<close>

record symbols =
  sy_emoji :: "string \<Rightarrow> string"
  sy_dash :: string
  sy_dot :: string

definition alert_summary :: "symbols \<Rightarrow> alert \<Rightarrow> string" where
  "alert_summary sy ev =
     sy_emoji sy (al_severity ev) @ '' '' @ al_event ev @ '' '' @ sy_dash sy @ '' '' @ al_model ev @ '' ('' @ al_kind ev @ '')'' @
     (if al_restarts ev \<noteq> 0 then ''  '' @ sy_dot sy @ '' restarts='' @ show_nat (al_restarts ev) else [])"

definition detail_block :: "string option \<Rightarrow> string" where
  "detail_block d =
     (case d of None \<Rightarrow> [] | Some t \<Rightarrow> if t = [] then [] else [CHR 0x0A] @ ''```'' @ take 1500 t @ ''```'')"

definition format_payload :: "symbols \<Rightarrow> string \<Rightarrow> real \<Rightarrow> alert \<Rightarrow> jval" where
  "format_payload sy sink_type ts ev =
     (if sink_type = ''slack'' then JObj [(''text'', JStr (''*'' @ alert_summary sy ev @ ''*'' @ detail_block (al_detail ev)))]
      else if sink_type = ''discord'' then JObj [(''content'', JStr (take 1900 (alert_summary sy ev @ detail_block (al_detail ev))))]
      else JObj [(''event'', JStr (al_event ev)), (''severity'', JStr (al_severity ev)), (''model'', JStr (al_model ev)),
                 (''kind'', JStr (al_kind ev)), (''detail'', opt_json JStr (al_detail ev)), (''restart_count'', JInt (int (al_restarts ev))),
                 (''ts'', JFloat ts), (''error'', opt_json JStr (al_detail ev))])"

text \<open>
  \<open>urlparse\<close>: control characters and blanks go, the scheme ends at the first colon if it is one, the network
  location follows two slashes up to the path, the query or the fragment; unbalanced brackets raise.
\<close>

definition scheme_char :: "char \<Rightarrow> bool" where
  "scheme_char c = (is_alnum c \<or> c \<in> {CHR ''+'', CHR ''-'', CHR ''.''})"

definition clean_url :: "string \<Rightarrow> string" where
  "clean_url u =
     filter (\<lambda>c. c \<notin> {CHR 0x09, CHR 0x0A, CHR 0x0D}) (dropWhile (\<lambda>c. (of_char c :: nat) \<le> 32) u)"

definition url_scheme :: "string \<Rightarrow> string \<times> string" where
  "url_scheme u =
     (case str_partition '':'' u of
        (h, found, t) \<Rightarrow> if found \<and> h \<noteq> [] \<and> is_alpha (hd h) \<and> list_all scheme_char h then (str_lower h, t) else ([], u))"

definition url_netloc :: "string \<Rightarrow> string" where
  "url_netloc rest =
     (if starts_with ''//'' rest then takeWhile (\<lambda>c. c \<notin> {CHR ''/'', CHR ''?'', CHR ''#''}) (drop 2 rest) else [])"

definition mask_url :: "string \<Rightarrow> string" where
  "mask_url url =
     (case url_scheme (clean_url url) of
        (scheme, rest) \<Rightarrow>
          (let netloc = url_netloc rest in
           if (CHR ''['' \<in> set netloc) \<noteq> (CHR '']'' \<in> set netloc) then ellipsis
           else scheme @ ''://'' @ (if netloc = [] then ''?'' else netloc) @ ''/'' @ ellipsis @
             (if length url > 4 then drop (length url - 4) url else ''****'')))"

record sink_view =
  sv_id :: "int option"
  sv_type :: string
  sv_preview :: string
  sv_min :: string

definition list_sinks :: "settings \<Rightarrow> store \<Rightarrow> sink_view list" where
  "list_sinks se s =
     map (\<lambda>k. \<lparr>sv_id = None, sv_type = si_type k, sv_preview = mask_url (si_url k), sv_min = si_min k\<rparr>) (env_sinks se) @
     map (\<lambda>(i, r). \<lparr>sv_id = Some i, sv_type = sk_type r, sv_preview = mask_url (sk_url r), sv_min = sk_min_severity r\<rparr>) (list_alert_sinks s)"


section \<open>The stream follows the fleet\<close>

definition payloads :: "sse option list \<Rightarrow> string list" where
  "payloads evs = List.map_filter (\<lambda>ev. case ev of Some (Data sig) \<Rightarrow> Some sig | _ \<Rightarrow> None) evs"

lemma sse_payloads:
  "payloads (fst (sse_run i hb sigs st)) = (case ss_last st of None \<Rightarrow> remdups_adj sigs | Some s \<Rightarrow> tl (remdups_adj (s # sigs)))"
proof (induction sigs arbitrary: st)
  case (Cons sig sigs)
  obtain ev st1 where s: "sse_step i hb sig st = (ev, st1)" by fastforce
  have l: "ss_last st1 = Some sig" using s by (auto simp: sse_step_def Let_def split: if_splits)
  have e: "payloads (ev # evs) = (if ss_last st = Some sig then payloads evs else sig # payloads evs)" for evs
    using s by (auto simp: sse_step_def Let_def payloads_def map_filter_simps split: if_splits)
  have t: "sig # tl (remdups_adj (sig # sigs)) = remdups_adj (sig # sigs)"
    by (metis hd_remdups_adj list.collapse list.distinct(1) list.sel(1) remdups_adj_Nil_iff)
  show ?case
    using Cons.IH [of st1] t by (auto simp: s e l split: prod.splits option.splits)
qed (auto simp: payloads_def map_filter_simps split: option.splits)

lemma sse_run_snd: "snd (sse_run i hb (sig # sigs) st) = snd (sse_run i hb sigs (snd (sse_step i hb sig st)))"
  by (simp split: prod.splits)

lemma sse_last: "sigs \<noteq> [] \<Longrightarrow> ss_last (snd (sse_run i hb sigs st)) = Some (last sigs)"
proof (induction sigs arbitrary: st)
  case (Cons sig sigs)
  have "ss_last (snd (sse_step i hb sig st)) = Some sig" by (simp add: sse_step_def Let_def)
  then show ?case using Cons.IH by (cases "sigs = []") (simp_all add: sse_run_snd del: sse_run.simps(2))
qed simp

lemma sse_silent:
  assumes "0 \<le> ss_since st" "0 < i" "0 < hb" "list_all (\<lambda>ev. ev = None) (fst (sse_run i hb sigs st))" "sigs \<noteq> []"
  shows "ss_since st + real (length sigs) * i < hb"
  using assms
proof (induction sigs arbitrary: st)
  case (Cons sig sigs)
  obtain ev st1 where s: "sse_step i hb sig st = (ev, st1)" by fastforce
  have n: "ev = None" "list_all (\<lambda>ev. ev = None) (fst (sse_run i hb sigs st1))"
    using Cons.prems(4) s by (auto split: prod.splits)
  then have st1: "ss_since st1 = ss_since st + i" "ss_since st + i < hb"
    using s by (auto simp: sse_step_def Let_def split: if_splits)
  show ?case
  proof (cases "sigs = []")
    case True
    then show ?thesis using st1 by simp
  next
    case False
    then have "ss_since st1 + real (length sigs) * i < hb"
      using Cons.IH [of st1] n st1 Cons.prems(1-3) by simp
    then show ?thesis using st1 by (simp add: algebra_simps)
  qed
qed simp

lemma sse_run_append:
  "sse_run i hb (a @ b) st = (case sse_run i hb a st of (x, st1) \<Rightarrow> case sse_run i hb b st1 of (y, st2) \<Rightarrow> (x @ y, st2))"
  by (induction a arbitrary: st) (auto split: prod.splits)

lemma sse_run_length: "length (fst (sse_run i hb sigs st)) = length sigs"
  by (induction sigs arbitrary: st) (auto split: prod.splits, metis fst_conv)

lemma sse_since: "0 \<le> ss_since st \<Longrightarrow> 0 < i \<Longrightarrow> 0 \<le> ss_since (snd (sse_run i hb sigs st))"
proof (induction sigs arbitrary: st)
  case (Cons sig sigs)
  obtain ev st1 where s: "sse_step i hb sig st = (ev, st1)" by fastforce
  have "0 \<le> ss_since st1" using s Cons.prems by (auto simp: sse_step_def Let_def split: if_splits)
  then show ?case using Cons.IH [OF _ Cons.prems(2)] s by (simp add: case_prod_beta)
qed simp

text \<open>
  A subscriber of the live stream sees every state of the fleet that differs from the one before, in order and once
  each, the last of them the present one, and is never left without a line for the heartbeat time: a silent stretch
  of the loop is shorter than it.
\<close>

theorem stream_follows_fleet:
  assumes "0 < interval" "0 < hb" "sse_run interval hb sigs sse_init = (evs, st)"
  shows "payloads evs = remdups_adj sigs \<and>
    (sigs \<noteq> [] \<longrightarrow> ss_last st = Some (last sigs)) \<and>
    (\<forall>k m. k + m \<le> length sigs \<and> m \<noteq> 0 \<and> list_all (\<lambda>ev. ev = None) (take m (drop k evs)) \<longrightarrow> real m * interval < hb)"
proof -
  have "real m * interval < hb"
    if km: "k + m \<le> length sigs" "m \<noteq> 0" and silent: "list_all (\<lambda>ev. ev = None) (take m (drop k evs))" for k m
  proof -
    define a b c where "a = take k sigs" "b = take m (drop k sigs)" "c = drop m (drop k sigs)"
    then have sigs: "sigs = a @ b @ c" "length a = k" "length b = m"
      using km(1) by (simp_all only: append_take_drop_id) simp_all
    obtain x st1 where x: "sse_run interval hb a sse_init = (x, st1)" by fastforce
    obtain y st2 where y: "sse_run interval hb b st1 = (y, st2)" by fastforce
    have "evs = x @ y @ fst (sse_run interval hb c st2)"
      using assms(3) by (simp add: sigs(1) sse_run_append x y split: prod.splits)
    moreover have "length x = k" "length y = m"
      using sse_run_length [of interval hb a sse_init] sse_run_length [of interval hb b st1] x y sigs by simp_all
    ultimately have "take m (drop k evs) = y" by simp
    moreover have "0 \<le> ss_since st1"
      using sse_since [of sse_init interval hb a] x assms(1) by (simp add: sse_init_def)
    moreover have "b \<noteq> []" using sigs km by auto
    ultimately show ?thesis
      using sse_silent [of st1 interval hb b] y assms(1,2) silent sigs(3) by simp
  qed
  then show ?thesis
    using sse_payloads [of interval hb sigs sse_init] sse_last [of sigs interval hb sse_init] assms(3)
    by (auto simp: sse_init_def)
qed

lemma stream_follows_fleet_witness:
  "payloads (fst (sse_run 1 2 [''a'', ''a'', ''a'', ''b''] sse_init)) = [''a'', ''b'']"
proof -
  obtain evs st where "sse_run 1 2 [''a'', ''a'', ''a'', ''b''] sse_init = (evs, st)" by fastforce
  from stream_follows_fleet [OF _ _ this] this show ?thesis by simp
qed

section \<open>The page reads back\<close>

text \<open>The exposition format: a metric name, labels in braces, the value after a blank.\<close>

fun read_quoted :: "string \<Rightarrow> (string \<times> string) option" where
  "read_quoted [] = None"
| "read_quoted [c] = (if c = CHR 0x22 then Some ([], []) else None)"
| "read_quoted (c # d # s) =
     (if c = CHR 0x22 then Some ([], d # s)
      else if c = CHR 0x5C then map_option (\<lambda>(v, r). ((if d = CHR ''n'' then CHR 0x0A else d) # v, r)) (read_quoted s)
      else map_option (\<lambda>(v, r). (c # v, r)) (read_quoted (d # s)))"

lemma label_escape_simps [simp]:
  "label_escape [] = []"
  "label_escape (c # v) = (if c = CHR 0x5C then [CHR 0x5C, CHR 0x5C] else if c = CHR 0x22 then [CHR 0x5C, CHR 0x22]
     else if c = CHR 0x0A then [CHR 0x5C, CHR ''n''] else [c]) @ label_escape v"
  by (simp_all add: label_escape_def)

lemma read_escaped: "read_quoted (label_escape v @ CHR 0x22 # s) = Some (v, s)"
proof (induction v)
  case Nil
  then show ?case by (cases s) simp_all
next
  case (Cons c v)
  obtain d r where t: "label_escape v @ CHR 0x22 # s = d # r" by (cases "label_escape v") auto
  show ?case using Cons t by auto
qed

function read_labels :: "string \<Rightarrow> ((string \<times> string) list \<times> string) option" where
  "read_labels s =
     (let k = takeWhile (\<lambda>c. c \<noteq> CHR ''='') s in
      case drop (Suc (length k)) s of
        [] \<Rightarrow> None
      | q # t \<Rightarrow>
          (case read_quoted t of
             None \<Rightarrow> None
           | Some (v, r) \<Rightarrow>
               if length r < length s \<and> r \<noteq> [] \<and> hd r = CHR '','' then map_option (\<lambda>(ls, r2). ((k, v) # ls, r2)) (read_labels (tl r))
               else Some ([(k, v)], r)))"
  by pat_completeness auto

termination
  by (relation "measure length") auto

declare read_labels.simps [simp del]

definition read_sample :: "string \<Rightarrow> (string \<times> (string \<times> string) list \<times> string) option" where
  "read_sample line =
     (if line = [] \<or> hd line = CHR ''#'' then None
      else let m = takeWhile (\<lambda>c. c \<noteq> CHR ''{'') line in
        case read_labels (drop (Suc (length m)) line) of None \<Rightarrow> None | Some (ls, r) \<Rightarrow> Some (m, ls, drop 2 r))"


definition label_ok :: "string \<Rightarrow> bool" where
  "label_ok k = (CHR ''='' \<notin> set k)"

fun labels_text :: "(string \<times> string) list \<Rightarrow> string" where
  "labels_text ls = join_with '','' (map (\<lambda>(k, v). k @ [CHR ''='', CHR 0x22] @ label_escape v @ [CHR 0x22]) ls)"

lemma take_name: "CHR ''='' \<notin> set k \<Longrightarrow> takeWhile (\<lambda>c. c \<noteq> CHR ''='') (k @ CHR ''='' # s) = k"
  by (induction k) auto

lemma read_one_label:
  assumes "label_ok k"
  shows "read_labels (k @ [CHR ''='', CHR 0x22] @ label_escape v @ CHR 0x22 # r) =
    (if r \<noteq> [] \<and> hd r = CHR '','' then map_option (\<lambda>(ls, r2). ((k, v) # ls, r2)) (read_labels (tl r)) else Some ([(k, v)], r))"
  using assms by (subst read_labels.simps) (simp add: label_ok_def take_name read_escaped Let_def)

lemma read_label_list:
  "ls \<noteq> [] \<Longrightarrow> list_all (\<lambda>(k, v). label_ok k) ls \<Longrightarrow> read_labels (labels_text ls @ ''} '' @ value) = Some (ls, ''} '' @ value)"
proof (induction ls)
  case (Cons p ls)
  obtain k v where p: "p = (k, v)" by (cases p)
  have k: "label_ok k" using Cons.prems p by simp
  show ?case
  proof (cases ls)
    case Nil
    then show ?thesis using read_one_label [OF k, of v "''} '' @ value"] by (simp add: p)
  next
    case (Cons q qs)
    have e: "labels_text (p # ls) @ ''} '' @ value = k @ [CHR ''='', CHR 0x22] @ label_escape v @ CHR 0x22 # (CHR '','' # labels_text ls @ ''} '' @ value)"
      using Cons by (simp add: p)
    show ?thesis
      unfolding e read_one_label [OF k] using Cons.IH Cons.prems Cons p by simp
  qed
qed simp

lemma read_back:
  assumes "metric \<noteq> []" "hd metric \<noteq> CHR ''#''" "CHR ''{'' \<notin> set metric" "ls \<noteq> []" "list_all (\<lambda>(k, v). label_ok k) ls"
  shows "read_sample (sample_line metric ls value) = Some (metric, ls, value)"
proof -
  have "takeWhile (\<lambda>c. c \<noteq> CHR ''{'') (metric @ CHR ''{'' # s) = metric" for s
    using assms(3) by (induction metric) auto
  moreover have "drop (Suc (length metric)) (metric @ c # s) = s" for c and s :: string by (induction metric) auto
  ultimately show ?thesis
    using assms(1,2) read_label_list [OF assms(4,5), of "value"]
    by (simp add: read_sample_def sample_line_def Let_def)
qed


type_synonym prom_sample = "string \<times> (string \<times> string) list \<times> string"

text \<open>The table the page is to convey.\<close>

definition gauge_samples :: "(real \<Rightarrow> string) \<Rightarrow> (string, group_load) dict \<Rightarrow> prom_sample list" where
  "gauge_samples fl loads =
     concat (map (\<lambda>(metric, fld, help). map (\<lambda>(grp, l). (metric, [(''group'', grp)], fl (fld l))) (sorted_items loads)) gauges)"

definition policy_samples :: "(real \<Rightarrow> string) \<Rightarrow> (string, autoscale_cfg option) dict \<Rightarrow> prom_sample list" where
  "policy_samples fl policies =
     map (\<lambda>(grp, a). (''llmops_group_autoscale_enabled'', [(''group'', grp)],
       if (case a of None \<Rightarrow> False | Some c \<Rightarrow> au_enabled c) then ''1'' else ''0'')) (sorted_items policies) @
     concat (map (\<lambda>(metric, fld). List.map_filter (\<lambda>(grp, a). map_option (\<lambda>r. (metric, [(''group'', grp)], fl r)) (Option.bind a fld))
       (sorted_items policies)) bounds)"

definition counter_samples :: "string \<Rightarrow> string \<Rightarrow> (string \<times> string, nat) dict \<Rightarrow> prom_sample list" where
  "counter_samples metric label counts = map (\<lambda>((grp, what), n). (metric, [(''group'', grp), (label, what)], show_nat n)) (sorted_items counts)"

definition page_table :: "(real \<Rightarrow> string) \<Rightarrow> (string, group_load) dict \<Rightarrow> (string, autoscale_cfg option) dict \<Rightarrow>
     (string \<times> string, nat) dict \<Rightarrow> (string \<times> string, nat) dict \<Rightarrow> prom_sample list" where
  "page_table fl loads policies actions blocked =
     gauge_samples fl loads @ policy_samples fl policies @
     counter_samples ''llmops_autoscale_actions_total'' ''action'' actions @
     counter_samples ''llmops_autoscale_blocked_total'' ''reason'' blocked"

definition one_line :: "string \<Rightarrow> bool" where
  "one_line s = (CHR 0x0A \<notin> set s)"

lemma one_line_append [simp]: "one_line (a @ b) = (one_line a \<and> one_line b)" "one_line []" "one_line (c # s) = (c \<noteq> CHR 0x0A \<and> one_line s)"
  by (auto simp: one_line_def)

lemma one_line_escape [simp]: "one_line (label_escape v)"
  by (induction v) auto

lemma one_line_nat [simp]: "one_line (show_nat n)"
  using shown_digits [of n] by (auto simp: one_line_def list_all_iff is_digit_def)

lemma one_line_sample: "one_line metric \<Longrightarrow> one_line value \<Longrightarrow> one_line (sample_line metric [(''group'', grp)] value)"
  "one_line metric \<Longrightarrow> one_line value \<Longrightarrow> one_line label \<Longrightarrow> one_line (sample_line metric [(''group'', grp), (label, w)] value)"
  by (simp_all add: sample_line_def)

lemma read_group: "metric \<noteq> [] \<Longrightarrow> hd metric \<noteq> CHR ''#'' \<Longrightarrow> CHR ''{'' \<notin> set metric \<Longrightarrow>
    read_sample (sample_line metric [(''group'', grp)] value) = Some (metric, [(''group'', grp)], value)"
  by (rule read_back) (simp_all add: label_ok_def)

lemma read_comment [simp]: "read_sample (help_line m t) = None" "read_sample (type_line m t) = None"
  by (simp_all add: help_line_def type_line_def read_sample_def)

lemma samples_append: "List.map_filter f (xs @ ys) = List.map_filter f xs @ List.map_filter f ys"
  by (simp add: List.map_filter_def)

lemma samples_concat: "List.map_filter f (concat xss) = concat (map (List.map_filter f) xss)"
  by (induction xss) (simp_all add: samples_append map_filter_simps)

lemma samples_map: "(\<And>x. x \<in> set xs \<Longrightarrow> f (g x) = Some (h x)) \<Longrightarrow> List.map_filter f (map g xs) = map h xs"
  by (induction xs) (simp_all add: map_filter_simps)

lemma samples_group:
  assumes "metric \<noteq> []" "hd metric \<noteq> CHR ''#''" "CHR ''{'' \<notin> set metric"
  shows "List.map_filter read_sample (map (\<lambda>(grp, x). sample_line metric [(''group'', grp)] (h x)) xs) =
      map (\<lambda>(grp, x). (metric, [(''group'', grp)], h x)) xs"
    and "List.map_filter read_sample (List.map_filter (\<lambda>(grp, x). map_option (\<lambda>r. sample_line metric [(''group'', grp)] (fl r)) (k x)) xs) =
      List.map_filter (\<lambda>(grp, x). map_option (\<lambda>r. (metric, [(''group'', grp)], fl r)) (k x)) xs"
  using assms by (induction xs) (auto simp: map_filter_simps read_group split: option.splits)

lemma split_joined:
  "ls \<noteq> [] \<Longrightarrow> list_all one_line ls \<Longrightarrow> split_on (CHR 0x0A) (join_lines ls @ [CHR 0x0A]) = ls @ [[]]"
proof -
  have cut: "CHR 0x0A \<notin> set a \<Longrightarrow> split_on (CHR 0x0A) (a @ CHR 0x0A # b) = a # split_on (CHR 0x0A) b" for a b
    by (induction a) auto
  show "ls \<noteq> [] \<Longrightarrow> list_all one_line ls \<Longrightarrow> split_on (CHR 0x0A) (join_lines ls @ [CHR 0x0A]) = ls @ [[]]"
    by (induction ls rule: join_lines.induct) (simp_all add: one_line_def cut)
qed

lemma gauge_part: "List.map_filter read_sample (gauge_lines fl loads) = gauge_samples fl loads"
  by (simp add: gauge_lines_def gauge_samples_def gauges_def samples_append map_filter_simps samples_group)

lemma policy_part: "List.map_filter read_sample (enabled_lines policies @ bound_lines fl policies) = policy_samples fl policies"
  by (simp add: enabled_lines_def bound_lines_def policy_samples_def bounds_def samples_append map_filter_simps samples_group)

lemma counter_part: "metric \<noteq> [] \<Longrightarrow> hd metric \<noteq> CHR ''#'' \<Longrightarrow> CHR ''{'' \<notin> set metric \<Longrightarrow> label_ok label \<Longrightarrow>
    List.map_filter read_sample (counter_lines metric help label counts) = counter_samples metric label counts"
  unfolding counter_lines_def counter_samples_def samples_append
  by (subst samples_map [where h = "\<lambda>((grp, what), n). (metric, [(''group'', grp), (label, what)], show_nat n)"])
    (auto simp: map_filter_simps read_back label_ok_def)

lemma gauge_one_line: "(\<And>r. one_line (fl r)) \<Longrightarrow> list_all one_line (gauge_lines fl loads)"
  by (auto simp: gauge_lines_def gauges_def list_all_iff help_line_def type_line_def one_line_sample)

lemma policy_one_line: "(\<And>r. one_line (fl r)) \<Longrightarrow> list_all one_line (enabled_lines policies @ bound_lines fl policies)"
  by (auto simp: enabled_lines_def bound_lines_def bounds_def list_all_iff help_line_def type_line_def one_line_sample List.map_filter_def)

lemma counter_one_line: "one_line metric \<Longrightarrow> one_line help \<Longrightarrow> one_line label \<Longrightarrow> list_all one_line (counter_lines metric help label counts)"
  by (auto simp: counter_lines_def list_all_iff help_line_def type_line_def one_line_sample)

text \<open>
  The Prometheus page conveys its table: read line by line by the exposition format it gives back every sample
  with its metric, labels and value, in order and nothing else, whatever characters the names of groups and
  reasons hold.
\<close>

theorem page_reads_back:
  assumes "\<And>r. one_line (fl r)"
  shows "List.map_filter read_sample (split_on (CHR 0x0A) (render_metrics fl loads policies actions blocked)) =
    page_table fl loads policies actions blocked"
proof -
  let ?ls = "metric_lines fl loads policies actions blocked"
  have ok: "list_all one_line ?ls"
    using gauge_one_line [OF assms, where loads = loads] policy_one_line [OF assms, where policies = policies]
    by (simp add: metric_lines_def counter_one_line)
  have "?ls \<noteq> []" by (simp add: metric_lines_def enabled_lines_def)
  then have "split_on (CHR 0x0A) (render_metrics fl loads policies actions blocked) = ?ls @ [[]]"
    using split_joined [OF _ ok] by (simp add: render_metrics_def)
  moreover have "List.map_filter read_sample ?ls = page_table fl loads policies actions blocked"
    unfolding metric_lines_def page_table_def
    using policy_part [of policies fl] by (simp add: samples_append gauge_part counter_part label_ok_def)
  ultimately show ?thesis by (simp add: samples_append map_filter_simps read_sample_def)
qed

lemma page_reads_back_witness:
  "List.map_filter read_sample (split_on (CHR 0x0A) (render_metrics (\<lambda>r. ''0.0'') [(''a'', new_load ''a'')] [] [((''a'', ''wake''), 2)] [])) =
     page_table (\<lambda>r. ''0.0'') [(''a'', new_load ''a'')] [] [((''a'', ''wake''), 2)] []"
  by (rule page_reads_back) simp


section \<open>Logs, GPUs, the configuration\<close>

lemma kept_lines_whole: "concat (keep_lines cur s) = cur @ s"
  by (induction cur s rule: keep_lines.induct) auto

text \<open>\<open>tail=0\<close> is the slice \<open>[-0:]\<close>, the whole log.\<close>

lemma tail_zero_is_whole_log: "p \<noteq> [] \<Longrightarrow> read_log_lines files (Some p) 0 = files p"
  by (cases "files p") (simp_all add: read_log_lines_def log_tail_def kept_lines_whole)

text \<open>An owner that answers no JSON, a proxy's error page for one, is an exception and not the 502 of a node that is away.\<close>

lemma other_page_unhandled:
  "owning_node_api_url e now key n = Some u \<Longrightarrow> asks (owner_url u key ''logs'') = Other_Page c \<Longrightarrow>
     model_logs e now asks files key tail n = Unhandled"
  by (simp add: model_logs_def proxy_to_owner_def)

text \<open>One GPU whose utilisation nvidia-smi cannot tell hides all.\<close>

lemma one_unknown_hides_all:
  "get_gpu_info (Some (''0, A, 1, 2, 3'' @ [CHR 0x0A] @ ''1, B, 1, 2, [N/A]'')) = []"
  "get_gpu_info (Some ''0, A, 1, 2, 3'') = [\<lparr>gr_index = 0, gr_name = ''A'', gr_used = 1, gr_total = 2, gr_util = 3\<rparr>]"
  by code_simp+

text \<open>
  The processes are those of the lines with three fields and a number first, each once, the greatest memory
  first and those of unknown memory last.
\<close>

lemma gpu_processes_ranked:
  "mset (get_gpu_processes info (Some t)) = mset (List.map_filter (process_of_row info) (csv_rows Field_Start [] [] t))"
  "sorted_wrt (\<lambda>p q. gq_used q = None \<or> (gq_used p \<noteq> None \<and> used_or_zero q \<le> used_or_zero p)) (get_gpu_processes info (Some t))"
proof -
  let ?key = "\<lambda>p. (gq_used p = None, - used_or_zero p)"
  have "sorted (map ?key (get_gpu_processes info (Some t)))"
    by (simp add: get_gpu_processes_def)
  then have "sorted_wrt (\<lambda>p q. ?key p \<le> ?key q) (get_gpu_processes info (Some t))"
    by (simp add: sorted_wrt_map)
  then show "sorted_wrt (\<lambda>p q. gq_used q = None \<or> (gq_used p \<noteq> None \<and> used_or_zero q \<le> used_or_zero p)) (get_gpu_processes info (Some t))"
    by (rule sorted_wrt_mono_rel [rotated]) (auto simp: less_eq_prod_def)
qed (simp add: get_gpu_processes_def)

text \<open>The lines vLLM prints, read back.\<close>

lemma startup_example:
  "search [Lit ''GPU KV cache size:'', Blanks, Grab digit_comma, Blanks, Lit ''tokens''] ''I GPU KV cache size: 12,345 tokens'' = Some ''12,345''"
  "search [Lit ''Maximum concurrency for '', Skip digit_comma, Lit '' tokens per request:'', Blanks, Grab digit_dot, Lit ''x'']
     ''Maximum concurrency for 4,096 tokens per request: 3.01x'' = Some ''3.01''"
  "search [Lit ''increase --gpu-memory-utilization to '', Decimal] ''increase --gpu-memory-utilization to 0.8374.'' = Some ''0.8374''"
  by code_simp+

text \<open>
  The summary looks for the tool parser under a name with dashes, while the configuration, the launcher and the
  command parser write it with underscores: such a parser is shown as unknown.
\<close>

lemma tool_parser_unknown:
  "gc_model_config g = Some [(''tool_call_parser'', JStr ''hermes'')] \<Longrightarrow> ic_extra i = [] \<Longrightarrow> tool_parser g i = JStr ''unknown''"
  by (simp add: tool_parser_def settings_extra_def inst_extra_def group_mc_def mc_defaults_def dhas_def jget_def dget_def jor_def)

lemma engines_fold:
  "dhas (fold (\<lambda>i. dset (name @ sep2 @ ic_id i) (f i)) is d) k \<longleftrightarrow> dhas d k \<or> (\<exists>i\<in>set is. k = name @ sep2 @ ic_id i)"
  by (induction "is" arbitrary: d) auto

text \<open>The summary has an entry for exactly the configured instances.\<close>

lemma summary_keys:
  "dhas (engines_summary config) k \<longleftrightarrow> (\<exists>(name, g) \<in> set (rc_engines config). \<exists>i\<in>set (group_instances g). k = name @ sep2 @ ic_id i)"
proof -
  have "dhas (fold (\<lambda>(name, g) d. fold (\<lambda>i. dset (name @ sep2 @ ic_id i) (instance_summary g i)) (group_instances g) d) gs d) k \<longleftrightarrow>
      dhas d k \<or> (\<exists>(name, g) \<in> set gs. \<exists>i\<in>set (group_instances g). k = name @ sep2 @ ic_id i)" for gs d
    by (induction gs arbitrary: d) (auto simp: engines_fold)
  from this [of "rc_engines config" "[]"] show ?thesis by (simp add: engines_summary_def dhas_def)
qed

section \<open>What an alert shows\<close>

lemma url_chars: "list_all scheme_char s \<Longrightarrow> CHR '':'' \<notin> set s"
  by (auto simp: list_all_iff scheme_char_def is_alnum_def is_alpha_def is_digit_def)

lemma cut_at_colon: "CHR '':'' \<notin> set a \<Longrightarrow> str_partition '':'' (a @ CHR '':'' # b) = (a, True, b)"
  by (induction a) (auto simp: starts_with_def split: prod.splits)

definition plain_url_char :: "char \<Rightarrow> bool" where
  "plain_url_char c = (32 < (of_char c :: nat))"

definition host_char :: "char \<Rightarrow> bool" where
  "host_char c = (plain_url_char c \<and> c \<notin> {CHR ''/'', CHR ''?'', CHR ''#'', CHR ''['', CHR '']''})"

lemma clean_plain: "list_all plain_url_char u \<Longrightarrow> clean_url u = u"
proof -
  assume p: "list_all plain_url_char u"
  then have "dropWhile (\<lambda>c. (of_char c :: nat) \<le> 32) u = u"
    by (cases u) (auto simp: plain_url_char_def)
  moreover have "filter (\<lambda>c. c \<notin> {CHR 0x09, CHR 0x0A, CHR 0x0D}) u = u"
    using p by (auto simp: filter_id_conv list_all_iff plain_url_char_def)
  ultimately show ?thesis by (simp add: clean_url_def)
qed

text \<open>
  The masked form of a sink's URL shows the scheme, the network location and the last four characters, and
  nothing else of the path, the query and the fragment, where a webhook keeps its secret.
\<close>

theorem mask_hides_path:
  assumes "sch \<noteq> []" "is_alpha (hd sch)" "list_all scheme_char sch" "list_all host_char net" "net \<noteq> []"
    and "list_all plain_url_char path"
  shows "mask_url (sch @ ''://'' @ net @ ''/'' @ path) =
    str_lower sch @ ''://'' @ net @ ''/'' @ ellipsis @ drop (length (sch @ ''://'' @ net @ ''/'' @ path) - 4) (sch @ ''://'' @ net @ ''/'' @ path)"
proof -
  have "scheme_char c \<Longrightarrow> plain_url_char c" for c
    by (auto simp: scheme_char_def is_alnum_def is_alpha_def is_digit_def plain_url_char_def Let_def)
  then have "list_all plain_url_char sch" using assms(3) by (auto simp: list_all_iff)
  moreover have "list_all plain_url_char net" using assms(4) by (auto simp: list_all_iff host_char_def)
  ultimately have c: "clean_url (sch @ ''://'' @ net @ ''/'' @ path) = sch @ ''://'' @ net @ ''/'' @ path"
    using assms(6) by (intro clean_plain) (simp add: plain_url_char_def)
  have s: "url_scheme (sch @ ''://'' @ net @ ''/'' @ path) = (str_lower sch, ''//'' @ net @ ''/'' @ path)"
    using assms(1-3) cut_at_colon [OF url_chars [OF assms(3)], of "''//'' @ net @ ''/'' @ path"] by (simp add: url_scheme_def)
  have "takeWhile (\<lambda>c. c \<notin> {CHR ''/'', CHR ''?'', CHR ''#''}) (net @ ''/'' @ path) = net"
    using assms(4) by (induction net) (auto simp: host_char_def)
  then have n: "url_netloc (''//'' @ net @ ''/'' @ path) = net"
    by (simp add: url_netloc_def starts_with_def numeral_2_eq_2)
  have "CHR ''['' \<notin> set net" "CHR '']'' \<notin> set net" using assms(4) by (auto simp: list_all_iff host_char_def)
  moreover have "4 < length (sch @ ''://'' @ net @ ''/'' @ path)" using assms(1,5) by (cases sch; cases net) auto
  ultimately show ?thesis using assms(5) by (simp only: mask_url_def c s n Let_def prod.case if_True if_False) simp
qed

lemma mask_hides_path_witness:
  "mask_url ''https://h.io/services/T0/secret'' = ''https://h.io/'' @ ellipsis @ ''cret''"
  using mask_hides_path [of "''https''" "''h.io''" "''services/T0/secret''"]
  by (simp add: scheme_char_def host_char_def plain_url_char_def is_alnum_def is_alpha_def is_digit_def str_lower_def char_lower_def)

text \<open>Credentials in front of the host belong to the network location and are shown.\<close>

lemma mask_shows_credentials:
  "mask_url ''https://bot:pw@h.io/hook'' = ''https://bot:pw@h.io/'' @ ellipsis @ ''hook''"
  by code_simp

lemma discord_bounded: "format_payload sy ''discord'' ts ev = JObj [(''content'', JStr t)] \<Longrightarrow> length t \<le> 1900"
  by (auto simp: format_payload_def)

text \<open>A test alert reports every target once; only a post that raises is a failure, so a webhook that answers 404 reads as delivered.\<close>

lemma refused_post_reads_ok: "post sk = Answered 404 \<Longrightarrow> send_test post (Some [sk]) n = [\<lparr>te_type = si_type sk, te_ok = True, te_error = None\<rparr>]"
  by (simp add: send_test_def send_one_def)

lemma test_reaches_all: "nd_notifier n = Some nt \<Longrightarrow> no_sinks nt \<noteq> [] \<Longrightarrow>
    \<exists>rs. test_sinks post None n = Inr rs \<and> map te_type rs = map si_type (no_sinks nt) \<and>
      map te_ok rs = map (\<lambda>sk. case post sk of Answered _ \<Rightarrow> True | Post_Failed _ \<Rightarrow> False) (no_sinks nt)"
  by (auto simp: test_sinks_def send_test_def send_one_def split: post_answer.splits)

end
