(* ===== verification/Bench_Runners.thy ===== *)
theory Bench_Runners
  imports Run_Managers Embedding_Server
begin

text \<open>
  The subprocesses that execute the benchmarks: apps/backend/app/eval/runner.py, app/perf/runner.py, the plugin
  for the project's own rerank endpoint (app/perf/rerank_plugin.py) and the liveness lines of both
  (app/runners_common.py).

  What evalscope computes is an argument: the reports it wrote, the results it returned, the criteria it parsed
  and how it checks them, the tokenizer.  \<open>None\<close> is an exception.  A run directory is the dictionary of
  Eval_Reports.  The result file a runner writes is the JSON value; the managers of Run_Managers read it back.
\<close>

section \<open>The plugin for /v1/rerank\<close>

text \<open>\<open>m if isinstance(m, str) else m.get('content', '')\<close>\<close>

fun content_of :: "jval \<Rightarrow> jval option" where
  "content_of (JStr s) = Some (JStr s)"
| "content_of (JObj d) = Some (dget d ''content'' (JStr []))"
| "content_of _ = None"

fun plugin_inputs :: "jval \<Rightarrow> (jval \<times> jval) option" where
  "plugin_inputs (JObj d) =
     (let ds = dget d ''documents'' (JList [])
      in Some (dget d ''query'' (JStr []), case ds of JStr s \<Rightarrow> JList [ds] | _ \<Rightarrow> ds))"
| "plugin_inputs (JList (m # ms)) =
     Option.bind (content_of m) (\<lambda>q. Option.bind (those (map content_of ms)) (\<lambda>ds. Some (q, JList ds)))"
| "plugin_inputs (JStr s) = Some (JStr s, JList [JStr ''This is a test document for reranking.''])"
| "plugin_inputs _ = Some (JStr [], JList [])"

definition dataset_knobs :: "string list" where
  "dataset_knobs = [''num_documents'', ''document_length_ratio'', ''batch_size'']"

text \<open>A failure to read the messages is logged and answered with \<open>None\<close>, as an empty list of documents is.\<close>

definition build_request :: "string \<Rightarrow> (string, jval) dict \<Rightarrow> jval \<Rightarrow> (string, jval) dict option" where
  "build_request model extra messages =
     (case plugin_inputs messages of
        None \<Rightarrow> None
      | Some (query, documents) \<Rightarrow>
          if \<not> truthy documents then None
          else Some (dupdate [(''query'', query), (''documents'', documents), (''model'', JStr model)]
                 (filter (\<lambda>(k, v). k \<notin> set dataset_knobs) extra)))"

text \<open>\<open>usage.get('prompt_tokens') or usage.get('total_tokens', 0)\<close>\<close>

definition usage_tokens :: "jval \<Rightarrow> jval option" where
  "usage_tokens u = map_option (\<lambda>d. jor (jget d ''prompt_tokens'') (dget d ''total_tokens'' (JInt 0))) (as_obj u)"

definition estimate :: "(jval \<Rightarrow> nat option) \<Rightarrow> jval \<Rightarrow> nat option" where
  "estimate encode req =
     Option.bind (as_obj req) (\<lambda>d.
     Option.bind (iterate (dget d ''documents'' (JList []))) (\<lambda>ds.
       map_option sum_list (those (map encode (filter truthy (dget d ''query'' (JStr []) # ds))))))"

definition parse_responses ::
  "(jval \<Rightarrow> nat option) option \<Rightarrow> (string \<Rightarrow> jval option) \<Rightarrow> jval list \<Rightarrow> string option \<Rightarrow> jval \<times> nat" where
  "parse_responses tokenizer loads responses request =
     (let last_one = (if responses = [] then JObj [] else last responses);
          usage = (case last_one of JObj d \<Rightarrow> jget d ''usage'' | _ \<Rightarrow> JNull)
      in (if truthy usage then (case usage_tokens usage of None \<Rightarrow> JInt 0 | Some n \<Rightarrow> n)
          else case (tokenizer, request) of
                 (Some encode, Some text) \<Rightarrow>
                   if text = [] then JInt 0
                   else (case Option.bind (loads text) (estimate encode) of None \<Rightarrow> JInt 0 | Some n \<Rightarrow> JInt (int n))
               | _ \<Rightarrow> JInt 0, 0))"

text \<open>What a POST meets: an answer whose body is JSON, is only text, or cannot be read; or a broken connection.\<close>

datatype reply_body = Json_Body jval | Text_Body string | Broken_Body string

datatype post_result = Answered int reply_body string | Unanswered string

record bench_data =
  bd_request :: string
  bd_start :: real
  bd_completed :: "real option"
  bd_latency :: "real option"
  bd_first_chunk :: "real option"
  bd_text :: string
  bd_prompt :: jval
  bd_completion :: jval
  bd_messages :: "jval list"
  bd_success :: bool
  bd_status :: "int option"
  bd_error :: string

definition raised :: "string \<Rightarrow> bench_data \<Rightarrow> bench_data" where
  "raised trace out = out\<lparr>bd_success := False, bd_error := trace\<rparr>"

fun py_len :: "jval \<Rightarrow> nat option" where
  "py_len (JStr s) = Some (length s)"
| "py_len (JList xs) = Some (length xs)"
| "py_len (JObj d) = Some (length d)"
| "py_len _ = None"

text \<open>The branch of an object body; \<open>trace\<close> is the text of a traceback.\<close>

definition read_object :: "string \<Rightarrow> (string, jval) dict \<Rightarrow> bench_data \<Rightarrow> bench_data" where
  "read_object trace d out =
     (let results = dget d ''results'' (JList []); usage = jget d ''usage'' in
      case (if truthy results then py_len results else Some 0) of
        None \<Rightarrow> raised trace out
      | Some n \<Rightarrow>
          (let out1 = (if truthy results then out\<lparr>bd_text := ''num_results='' @ show_int (int n)\<rparr> else out) in
           case (if truthy usage then usage_tokens usage else Some JNull) of
             None \<Rightarrow> raised trace out1
           | Some tokens \<Rightarrow>
               (let out2 = (if truthy usage then out1\<lparr>bd_prompt := tokens, bd_completion := JInt 0\<rparr> else out1)
                in out2\<lparr>bd_messages := bd_messages out2 @ [JObj d], bd_success := True\<rparr>)))"

definition process_request ::
  "(real \<Rightarrow> string) \<Rightarrow> bench_data \<Rightarrow> (string, jval) dict \<Rightarrow> real \<Rightarrow> real \<Rightarrow> string \<Rightarrow> post_result \<Rightarrow> bench_data" where
  "process_request fl blank body st ts trace result =
     (let out = blank\<lparr>bd_start := st, bd_request := json_dumps fl (JObj body)\<rparr> in
      case result of
        Unanswered why \<Rightarrow> raised why out
      | Answered status reply reason \<Rightarrow>
          (let out1 = out\<lparr>bd_completed := Some ts, bd_latency := Some (ts - st), bd_first_chunk := Some (ts - st)\<rparr> in
           if status = 200 then
             (case reply of
                Json_Body (JObj d) \<Rightarrow> read_object trace d out1
              | Json_Body v \<Rightarrow> out1\<lparr>bd_text := py_str fl v, bd_success := True\<rparr>
              | Text_Body s \<Rightarrow> out1\<lparr>bd_text := s, bd_success := True\<rparr>
              | Broken_Body why \<Rightarrow> raised why out1)
           else
             out1\<lparr>bd_status := Some status, bd_success := False,
                  bd_error := (case reply of Json_Body v \<Rightarrow> json_dumps fl v | Text_Body s \<Rightarrow> s | Broken_Body why \<Rightarrow> reason)\<rparr>))"

definition request_headers :: "(string, string) dict \<Rightarrow> (string, string) dict" where
  "request_headers headers = dupdate [(''Content-Type'', ''application/json'')] headers"

section \<open>The liveness lines of a runner\<close>

definition byte_lines :: "string \<Rightarrow> nat" where
  "byte_lines s = length (filter (\<lambda>c. c = CHR 0x0A) s) + (if s = [] \<or> last s = CHR 0x0A then 0 else 1)"

definition rows_done :: "(string \<times> (string \<Rightarrow> bool)) option \<Rightarrow> run_fs \<Rightarrow> nat" where
  "rows_done count_glob fs =
     (case count_glob of
        None \<Rightarrow> 0
      | Some (folder, pat) \<Rightarrow>
          sum_list (map (\<lambda>p. case dget fs p None of None \<Rightarrow> 0 | Some text \<Rightarrow> byte_lines text) (glob_run folder pat fs)))"

definition predictions_glob :: "string \<times> (string \<Rightarrow> bool)" where
  "predictions_glob = (''predictions'', \<lambda>name. ends_with ''.jsonl'' name \<and> \<not> starts_with ''.'' name)"

definition whole_seconds :: "real \<Rightarrow> int" where
  "whole_seconds d = (if 0 \<le> d then floor d else ceiling d)"

definition beat_line :: "real \<Rightarrow> real \<Rightarrow> nat \<Rightarrow> string" where
  "beat_line started now n =
     ''[runner] running'' @ ellipsis @ '' '' @ show_int (whole_seconds (now - started)) @ ''s elapsed'' @
     (if n = 0 then [] else '', '' @ show_int (int n) @ '' samples completed'')"

text \<open>The thread waits, or counts and prints; leaving the context sets the event and does not join the thread.\<close>

datatype hb_phase = Waiting | Counting | Ended

datatype hb_event = Wake | Print real run_fs | Leave

record heart =
  hb_stop :: bool
  hb_phase :: hb_phase
  hb_lines :: "string list"

definition new_heart :: heart where
  "new_heart = \<lparr>hb_stop = False, hb_phase = Waiting, hb_lines = []\<rparr>"

fun hb_step :: "(string \<times> (string \<Rightarrow> bool)) option \<Rightarrow> real \<Rightarrow> hb_event \<Rightarrow> heart \<Rightarrow> heart" where
  "hb_step g started Wake h =
     (if hb_phase h = Waiting then h\<lparr>hb_phase := (if hb_stop h then Ended else Counting)\<rparr> else h)"
| "hb_step g started (Print now fs) h =
     (if hb_phase h = Counting
      then h\<lparr>hb_phase := Waiting, hb_lines := hb_lines h @ [beat_line started now (rows_done g fs)]\<rparr> else h)"
| "hb_step g started Leave h = h\<lparr>hb_stop := True\<rparr>"

definition heartbeat_run :: "(string \<times> (string \<Rightarrow> bool)) option \<Rightarrow> real \<Rightarrow> hb_event list \<Rightarrow> heart \<Rightarrow> heart" where
  "heartbeat_run g started evs h = fold (hb_step g started) evs h"

section \<open>The evaluation runner\<close>

record metric_row =
  mr_name :: string
  mr_score :: jval
  mr_macro :: jval
  mr_num :: jval

record eval_report =
  rp_dataset :: string
  rp_pretty :: "string option"
  rp_score :: jval
  rp_num :: jval
  rp_metrics :: "metric_row list"

definition metric_json :: "metric_row \<Rightarrow> jval" where
  "metric_json m = JObj [(''name'', JStr (mr_name m)), (''score'', mr_score m), (''macro_score'', mr_macro m), (''num'', mr_num m)]"

definition report_json :: "eval_report \<Rightarrow> jval" where
  "report_json rep = JObj
     [(''dataset'', JStr (rp_dataset rep)),
      (''pretty'', JStr (case rp_pretty rep of None \<Rightarrow> rp_dataset rep | Some p \<Rightarrow> if p = [] then rp_dataset rep else p)),
      (''score'', rp_score rep), (''num'', rp_num rep), (''metrics'', JList (map metric_json (rp_metrics rep)))]"

type_synonym run_file = "string \<times> string \<times> string"

definition collect_reports :: "(run_file \<Rightarrow> eval_report option) \<Rightarrow> run_fs \<Rightarrow> jval list" where
  "collect_reports read fs = map report_json (List.map_filter read (glob_run ''reports'' report_file fs))"

text \<open>\<open>main\<close>: its exit code and the value of result.json; \<open>finished\<close>: the configuration was read and the task returned.\<close>

definition eval_runner :: "bool \<Rightarrow> (run_file \<Rightarrow> eval_report option) \<Rightarrow> run_fs \<Rightarrow> int \<times> jval option" where
  "eval_runner finished read fs =
     (if \<not> finished then (1, None)
      else let datasets = collect_reports read fs
           in (if datasets = [] then 1 else 0, Some (JObj [(''datasets'', JList datasets)])))"

section \<open>The load test runner\<close>

text \<open>A summary: none, an object of evalscope's (its dump), or an aliased dictionary, which \<open>from\<close> coerces.\<close>

datatype summary = No_Summary | Typed jval | Plain jval

fun norm_summary :: "(jval \<Rightarrow> jval option) \<Rightarrow> summary \<Rightarrow> jval option" where
  "norm_summary from No_Summary = Some JNull"
| "norm_summary from (Typed v) = Some v"
| "norm_summary from (Plain v) = from v"

definition resolve_tokenizer :: "(string \<Rightarrow> bool) \<Rightarrow> (string \<Rightarrow> string option) \<Rightarrow> (string, jval) dict \<Rightarrow> (string, jval) dict" where
  "resolve_tokenizer isdir snapshot cfg =
     (if jget cfg ''api'' \<notin> {JStr ''openai_embedding'', JStr ''llmops_rerank''} then cfg
      else case jget cfg ''tokenizer_path'' of
             JStr tok \<Rightarrow>
               if tok = [] \<or> isdir tok then cfg
               else (case snapshot tok of None \<Rightarrow> cfg | Some local \<Rightarrow> dset ''tokenizer_path'' (JStr local) cfg)
           | _ \<Rightarrow> cfg)"

text \<open>\<open>key.rsplit("_", 1)[1]\<close>\<close>

definition after_last :: "char \<Rightarrow> string \<Rightarrow> string option" where
  "after_last c s = (if c \<in> set s then Some (rev (takeWhile (\<lambda>x. x \<noteq> c) (rev s))) else None)"

definition val_from_key :: "string \<Rightarrow> int option" where
  "val_from_key key = Option.bind (after_last (CHR ''_'') key) py_int"

datatype crit_kind = Crit_Max | Crit_Min | Crit_Bound

record ('c, 'r) sla_env =
  se_kind :: "'c \<Rightarrow> crit_kind"
  se_cond :: "'c \<Rightarrow> string"
  se_check :: "'r \<Rightarrow> (string, 'c) dict \<Rightarrow> bool"
  se_values :: "'r \<Rightarrow> (string, real) dict"
  se_fmt :: "real \<Rightarrow> string"

record sla_point =
  sp_val :: "int option"
  sp_passed :: bool
  sp_rps :: "real option"
  sp_tps :: "real option"
  sp_metrics :: "(string, real option) dict"

record sla_verdict =
  sv_criteria :: string
  sv_variable :: jval
  sv_max :: "int option"
  sv_note :: string
  sv_points :: "sla_point list"

definition sla_items :: "(string, 'r) dict \<Rightarrow> (int option \<times> 'r) list" where
  "sla_items results =
     sort_key (\<lambda>x. case fst x of None \<Rightarrow> 0 | Some v \<Rightarrow> v) (map (\<lambda>(k, r). (val_from_key k, r)) results)"

definition sla_point_of :: "('c, 'r) sla_env \<Rightarrow> (string, 'c) dict \<Rightarrow> int option \<times> 'r \<Rightarrow> sla_point" where
  "sla_point_of se grp item =
     (let vals = map_of (se_values se (snd item))
      in \<lparr>sp_val = fst item, sp_passed = se_check se (snd item) grp, sp_rps = vals ''rps'', sp_tps = vals ''tps'',
          sp_metrics = map (\<lambda>(m, c). (m, vals m)) grp\<rparr>)"

definition is_opt :: "('c, 'r) sla_env \<Rightarrow> (string, 'c) dict \<Rightarrow> bool" where
  "is_opt se grp = list_ex (\<lambda>(m, c). se_kind se c \<noteq> Crit_Bound) grp"

text \<open>\<open>max(xs, key=f)\<close> and \<open>min(xs, key=f)\<close>: the first of the best.\<close>

fun first_best :: "('a \<Rightarrow> 'a \<Rightarrow> bool) \<Rightarrow> 'a \<Rightarrow> 'a list \<Rightarrow> 'a" where
  "first_best better b [] = b"
| "first_best better b (x # xs) = first_best better (if better x b then x else b) xs"

definition valid_points :: "string \<Rightarrow> sla_point list \<Rightarrow> (int option \<times> real) list" where
  "valid_points metric pts =
     concat (map (\<lambda>p. case dget (sp_metrics p) metric None of None \<Rightarrow> [] | Some v \<Rightarrow> [(sp_val p, v)]) pts)"

definition opt_verdict :: "('c, 'r) sla_env \<Rightarrow> string \<Rightarrow> 'c \<Rightarrow> sla_point list \<Rightarrow> int option \<times> string" where
  "opt_verdict se metric c pts =
     (let better = (if se_kind se c = Crit_Max then (\<lambda>x y. snd y < snd x) else (\<lambda>x y. snd x < snd y)) in
      case valid_points metric pts of
        [] \<Rightarrow> (None, ''No data'')
      | v # vs \<Rightarrow>
          (let best = first_best better v vs in (fst best, ''Best '' @ metric @ '': '' @ se_fmt se (snd best))))"

definition passing_vals :: "sla_point list \<Rightarrow> int list" where
  "passing_vals pts = concat (map (\<lambda>p. case sp_val p of None \<Rightarrow> [] | Some v \<Rightarrow> if sp_passed p then [v] else []) pts)"

definition bound_verdict :: "sla_point list \<Rightarrow> int option \<times> string" where
  "bound_verdict pts =
     (case passing_vals pts of
        [] \<Rightarrow> (None, ''Failed'')
      | v # vs \<Rightarrow> (Some (fold max vs v), ''Satisfied''))"

definition group_verdict :: "('c, 'r) sla_env \<Rightarrow> jval \<Rightarrow> (string, 'r) dict \<Rightarrow> (string, 'c) dict \<Rightarrow> sla_verdict" where
  "group_verdict se variable results grp =
     (let pts = map (sla_point_of se grp) (sla_items results);
          verdict = (if is_opt se grp then opt_verdict se (fst (hd grp)) (snd (hd grp)) pts else bound_verdict pts)
      in \<lparr>sv_criteria = join_with '' AND '' (map (\<lambda>(m, c). m @ '' '' @ se_cond se c) grp), sv_variable = variable,
          sv_max = fst verdict, sv_note = snd verdict, sv_points = pts\<rparr>)"

definition compute_sla ::
  "('c, 'r) sla_env \<Rightarrow> (jval \<Rightarrow> (string, 'c) dict list option) \<Rightarrow> (string, jval) dict \<Rightarrow> (string, 'r) dict option \<Rightarrow>
   sla_verdict list option" where
  "compute_sla se parse cfg results =
     Option.bind (map_of cfg ''sla_params'') (\<lambda>params.
     Option.bind (parse params) (\<lambda>grps.
     Option.bind results (\<lambda>rs. Some (map (group_verdict se (dget cfg ''sla_variable'' (JStr ''parallel'')) rs) grps))))"

fun opt_float :: "real option \<Rightarrow> jval" where
  "opt_float None = JNull"
| "opt_float (Some r) = JFloat r"

fun opt_int :: "int option \<Rightarrow> jval" where
  "opt_int None = JNull"
| "opt_int (Some i) = JInt i"

definition point_json :: "sla_point \<Rightarrow> jval" where
  "point_json p = JObj [(''val'', opt_int (sp_val p)), (''passed'', JBool (sp_passed p)), (''rps'', opt_float (sp_rps p)),
     (''tps'', opt_float (sp_tps p)), (''metrics'', JObj (map (\<lambda>(m, v). (m, opt_float v)) (sp_metrics p)))]"

definition verdict_json :: "sla_verdict \<Rightarrow> jval" where
  "verdict_json v = JObj [(''criteria'', JStr (sv_criteria v)), (''variable'', sv_variable v), (''max_satisfied'', opt_int (sv_max v)),
     (''note'', JStr (sv_note v)), (''points'', JList (map point_json (sv_points v)))]"

text \<open>
  One entry of the benchmark's results: its metrics, its percentiles, and the entry as the criteria see it.
  \<open>mfrom\<close> and \<open>pfrom\<close> coerce aliased dictionaries; \<open>bench\<close> is the benchmark itself on the resolved
  configuration: \<open>None\<close> raises, \<open>Some None\<close> returned nothing.
\<close>

record 'r perf_entry =
  pe_metrics :: summary
  pe_percentiles :: summary
  pe_raw :: 'r

definition norm_entry :: "(jval \<Rightarrow> jval option) \<Rightarrow> (jval \<Rightarrow> jval option) \<Rightarrow> 'r perf_entry \<Rightarrow> jval option" where
  "norm_entry mfrom pfrom e =
     Option.bind (norm_summary mfrom (pe_metrics e)) (\<lambda>m.
     Option.bind (norm_summary pfrom (pe_percentiles e)) (\<lambda>p.
       Some (JObj [(''metrics'', m), (''percentiles'', p)])))"

definition norm_points ::
  "(jval \<Rightarrow> jval option) \<Rightarrow> (jval \<Rightarrow> jval option) \<Rightarrow> (string, 'r perf_entry) dict \<Rightarrow> (string, jval) dict option" where
  "norm_points mfrom pfrom results = those (map (\<lambda>(k, e). map_option (Pair k) (norm_entry mfrom pfrom e)) results)"

definition perf_runner ::
  "('c, 'r) sla_env \<Rightarrow> (jval \<Rightarrow> (string, 'c) dict list option) \<Rightarrow> (jval \<Rightarrow> jval option) \<Rightarrow> (jval \<Rightarrow> jval option) \<Rightarrow>
   (string \<Rightarrow> bool) \<Rightarrow> (string \<Rightarrow> string option) \<Rightarrow>
   ((string, jval) dict \<Rightarrow> (string, 'r perf_entry) dict option option) \<Rightarrow> (string, jval) dict \<Rightarrow> int \<times> jval option" where
  "perf_runner se parse mfrom pfrom isdir snapshot bench cfg0 =
     (let cfg = resolve_tokenizer isdir snapshot cfg0 in
      case Option.bind (bench cfg) (\<lambda>results.
             Option.bind (norm_points mfrom pfrom (case results of None \<Rightarrow> [] | Some rs \<Rightarrow> rs)) (\<lambda>points.
             Option.bind (if truthy (jget cfg ''sla_auto_tune'')
                          then map_option (\<lambda>vs. JList (map verdict_json vs))
                                 (compute_sla se parse cfg (map_option (map (\<lambda>(k, e). (k, pe_raw e))) results))
                          else Some JNull) (\<lambda>sla.
               Some (JObj [(''points'', JObj points), (''sla'', sla)])))) of
        None \<Rightarrow> (1, None)
      | Some v \<Rightarrow> (0, Some v))"


section \<open>The plugin against the project's server\<close>

text \<open>The request the server reads in the plugin's body, and the body it answers; \<open>u\<close> is the random identifier.\<close>

definition asked :: "string \<Rightarrow> string \<Rightarrow> string list \<Rightarrow> rerank_request" where
  "asked model q ds = \<lparr>rq_query = q, rq_documents = ds, rq_model = Some model, rq_top_n = None, rq_return_documents = True\<rparr>"

fun opt_str :: "string option \<Rightarrow> jval" where
  "opt_str None = JNull"
| "opt_str (Some s) = JStr s"

definition item_json :: "rerank_item \<Rightarrow> jval" where
  "item_json it = JObj ([(''index'', JInt (int (ri_index it))), (''relevance_score'', JFloat (ri_score it))] @
     (case ri_document it of None \<Rightarrow> [] | Some t \<Rightarrow> [(''document'', JObj [(''text'', JStr t)])]))"

definition reply_json :: "string \<Rightarrow> rerank_reply \<Rightarrow> (string, jval) dict" where
  "reply_json u rep =
     [(''id'', JStr (''rerank-'' @ u)), (''model'', opt_str (rk_model rep)), (''results'', JList (map item_json (rk_results rep))),
      (''usage'', JObj [(''prompt_tokens'', JInt (int (rk_tokens rep))), (''total_tokens'', JInt (int (rk_tokens rep)))])]"

lemma build_request_plain:
  assumes "ds \<noteq> []"
  shows "build_request model [] (JObj [(''query'', JStr q), (''documents'', JList (map JStr ds))]) =
    Some [(''query'', JStr q), (''documents'', JList (map JStr ds)), (''model'', JStr model)]"
  using assms by (simp add: build_request_def Let_def dget_def dupdate_def)

lemma read_reply:
  "rk_results rep \<noteq> [] \<Longrightarrow>
   read_object trace (reply_json u rep) out =
     out\<lparr>bd_text := ''num_results='' @ show_int (int (length (rk_results rep))), bd_prompt := JInt (int (rk_tokens rep)),
         bd_completion := JInt 0, bd_messages := bd_messages out @ [JObj (reply_json u rep)], bd_success := True\<rparr>"
  by (auto simp: read_object_def reply_json_def dget_def jget_def usage_tokens_def jor_def Let_def)

lemma rerank_answers_all:
  assumes "resolve_reranker bo (Some model) = Inr m" "scores_pairwise rt m f" "is_reranker m"
    and "ds \<noteq> []" "\<And>d. d \<in> set ds \<Longrightarrow> sigmoid (f (q, d)) \<noteq> None"
  shows "\<exists>rep. rerank rt bo (asked model q ds) = Inr rep \<and> length (rk_results rep) = length ds \<and>
    rk_tokens rep = count_tokens rt m (Inr (map (\<lambda>d. (q, d)) ds))"
proof -
  let ?rq = "asked model q ds"
  have scores: "rerank_scores rt m q ds = Some (map (\<lambda>d. the (sigmoid (f (q, d)))) ds)"
    using assms(5) by (auto simp: rerank_scores_pairwise [OF assms(2,3)] all_some_map)
  have items: "all_some (map (rerank_item_of ?rq) (List.enumerate 0 (map (\<lambda>d. the (sigmoid (f (q, d)))) ds))) =
      Some (map (item_for f ?rq) [0..<length ds])"
    using rerank_items [of "map (\<lambda>d. the (sigmoid (f (q, d)))) ds" f ?rq] by (simp add: asked_def)
  show ?thesis
    using assms(1,4) by (simp add: rerank_def asked_def scores rerank_results_def items [unfolded asked_def] Let_def)
qed

text \<open>
  A query and its documents, sent by the load test to the project's own server, count as one success: the
  plugin builds the body the server reads as that request, the server answers one result per document, and the plugin
  records that number and the server's own token count.
\<close>

theorem plugin_meets_server:
  assumes "resolve_reranker bo (Some model) = Inr m" "scores_pairwise rt m f" "is_reranker m"
    and "ds \<noteq> []" "\<And>d. d \<in> set ds \<Longrightarrow> sigmoid (f (q, d)) \<noteq> None"
  shows "\<exists>body rep. build_request model [] (JObj [(''query'', JStr q), (''documents'', JList (map JStr ds))]) = Some body \<and>
    body = [(''query'', JStr q), (''documents'', JList (map JStr ds)), (''model'', JStr model)] \<and>
    rerank rt bo (asked model q ds) = Inr rep \<and>
    (let out = process_request fl blank body st ts trace (Answered 200 (Json_Body (JObj (reply_json u rep))) reason) in
      bd_success out \<and> bd_text out = ''num_results='' @ show_int (int (length ds)) \<and>
      bd_prompt out = JInt (int (count_tokens rt m (Inr (map (\<lambda>d. (q, d)) ds)))) \<and> bd_completion out = JInt 0 \<and>
      bd_latency out = Some (ts - st))"
proof -
  obtain rep where rep: "rerank rt bo (asked model q ds) = Inr rep" "length (rk_results rep) = length ds"
    "rk_tokens rep = count_tokens rt m (Inr (map (\<lambda>d. (q, d)) ds))"
    using rerank_answers_all [OF assms] by blast
  from rep(2) assms(4) have "rk_results rep \<noteq> []" by auto
  with rep show ?thesis
    by (intro exI [of _ "[(''query'', JStr q), (''documents'', JList (map JStr ds)), (''model'', JStr model)]"] exI [of _ rep])
      (simp add: build_request_plain [OF assms(4)] process_request_def read_reply Let_def)
qed

definition blank_data :: bench_data where
  "blank_data = \<lparr>bd_request = [], bd_start = 0, bd_completed = None, bd_latency = None, bd_first_chunk = None, bd_text = [],
     bd_prompt = JNull, bd_completion = JNull, bd_messages = [], bd_success = False, bd_status = None, bd_error = []\<rparr>"

lemma plugin_meets_server_witness:
  "\<exists>body rep. build_request ''r'' [] (JObj [(''query'', JStr ''a''), (''documents'', JList (map JStr [''a'', ''b'']))]) = Some body \<and>
    body = [(''query'', JStr ''a''), (''documents'', JList (map JStr [''a'', ''b''])), (''model'', JStr ''r'')] \<and>
    rerank demo_runtime (Some demo_builder) (asked ''r'' ''a'' [''a'', ''b'']) = Inr rep \<and>
    (let out = process_request (\<lambda>r. ''0.5'') blank_data body 1 3 [] (Answered 200 (Json_Body (JObj (reply_json ''7f'' rep))) []) in
      bd_success out \<and> bd_text out = ''num_results='' @ show_int (int 2) \<and>
      bd_prompt out = JInt (int (count_tokens demo_runtime demo_model (Inr [(''a'', ''a''), (''a'', ''b'')]))) \<and>
      bd_completion out = JInt 0 \<and> bd_latency out = Some (3 - 1))"
  using plugin_meets_server [OF _ demo_inputs(2,3), where bo = "Some demo_builder" and model = "''r''" and ds = "[''a'', ''b'']"
      and q = "''a''" and fl = "\<lambda>r. ''0.5''" and blank = blank_data and st = 1 and ts = 3 and trace = "[]" and u = "''7f''" and reason = "[]"]
  by (simp add: demo_inputs sigmoid_defined demo_logit_def)

text \<open>An extra argument of the load test replaces any field of the body, the query and the model as well.\<close>

lemma extra_args_override:
  assumes "ds \<noteq> []" "k \<notin> set dataset_knobs"
  shows "map_option (\<lambda>b. map_of b k) (build_request model [(k, v)] (JObj [(''query'', JStr q), (''documents'', JList (map JStr ds))])) =
    Some (Some v)"
  using assms by (simp add: build_request_def Let_def dget_def dupdate_def)

text \<open>An answer whose counts are both zero is counted as zero tokens: the tokenizer is not asked.\<close>

lemma zero_usage_is_final:
  "parse_responses tokenizer loads [JObj [(''usage'', JObj [(''prompt_tokens'', JInt 0), (''total_tokens'', JInt 0)])]] request = (JInt 0, 0)"
  by (simp add: parse_responses_def jget_def dget_def usage_tokens_def jor_def)

section \<open>The liveness lines end\<close>

definition late_lines :: "heart \<Rightarrow> nat" where
  "late_lines h = (if hb_phase h = Counting then 1 else 0)"

lemma stopped_step:
  "hb_stop h \<Longrightarrow> hb_stop (hb_step g started ev h) \<and>
     (\<exists>extra. hb_lines (hb_step g started ev h) = hb_lines h @ extra \<and>
              length extra + late_lines (hb_step g started ev h) \<le> late_lines h)"
  by (cases ev) (auto simp: late_lines_def)

lemma stopped_run:
  "hb_stop h \<Longrightarrow> \<exists>extra. hb_lines (heartbeat_run g started evs h) = hb_lines h @ extra \<and> length extra \<le> late_lines h"
proof (induction evs arbitrary: h)
  case (Cons ev evs)
  obtain e1 where e1: "hb_stop (hb_step g started ev h)" "hb_lines (hb_step g started ev h) = hb_lines h @ e1"
    "length e1 + late_lines (hb_step g started ev h) \<le> late_lines h"
    using stopped_step [OF Cons.prems] by blast
  obtain e2 where e2: "hb_lines (heartbeat_run g started evs (hb_step g started ev h)) = hb_lines (hb_step g started ev h) @ e2"
    "length e2 \<le> late_lines (hb_step g started ev h)"
    using Cons.IH [OF e1(1)] by blast
  show ?case using e1 e2 by (intro exI [of _ "e1 @ e2"]) (simp add: heartbeat_run_def)
qed (simp add: heartbeat_run_def)

text \<open>
  The liveness thread ends with the run: whatever it printed stays, and once the context is left at most one more
  line is printed, the one it was counting for.
\<close>

theorem heartbeat_stops:
  "\<exists>extra. hb_lines (heartbeat_run g started (before @ Leave # after) new_heart) =
     hb_lines (heartbeat_run g started before new_heart) @ extra \<and> length extra \<le> 1"
proof -
  let ?h = "heartbeat_run g started before new_heart\<lparr>hb_stop := True\<rparr>"
  have "heartbeat_run g started (before @ Leave # after) new_heart = heartbeat_run g started after ?h"
    by (simp add: heartbeat_run_def)
  then show ?thesis using stopped_run [of ?h g started after] by (force simp: late_lines_def split: if_splits)
qed

section \<open>Evaluations end as their reports say\<close>

lemma collected_none: "collect_reports read fs = [] \<longleftrightarrow> (\<forall>p \<in> set (glob_run ''reports'' report_file fs). read p = None)"
  by (induction "glob_run ''reports'' report_file fs" arbitrary: fs)
    (auto simp: collect_reports_def List.map_filter_def filter_empty_conv)

text \<open>
  An evaluation is recorded as what its reports say.  If the task returned and some report can be read, the run
  is completed with one row per readable report, in the order of the paths; in every other case it is failed.
\<close>

theorem eval_run_recorded:
  "(case eval_runner finished read fs of
      (rc, content) \<Rightarrow> eval_outcome fl rc (map_option Some content) note) =
   (if finished \<and> (\<exists>p \<in> set (glob_run ''reports'' report_file fs). read p \<noteq> None)
    then Outcome Completed (Some (json_dumps fl (JObj [(''datasets'', JList (collect_reports read fs))]))) None
    else Outcome Failed None (Some (''runner exited rc=1'' @
      (case note of None \<Rightarrow> ''; see run.log'' | Some d \<Rightarrow> if d = [] then ''; see run.log'' else '': '' @ d))))"
proof -
  have "show_int 1 = ''1''" by code_simp
  then show ?thesis
    using collected_none [of read fs] by (auto simp: eval_runner_def eval_outcome_def Let_def split: option.splits)
qed

section \<open>The verdicts\<close>

lemma passing_set:
  "set (passing_vals (map (sla_point_of se grp) (sla_items results))) =
     {v. \<exists>(key, r) \<in> set results. val_from_key key = Some v \<and> se_check se r grp}"
  by (force simp: passing_vals_def sla_items_def sla_point_of_def Let_def split: option.splits if_splits)

text \<open>
  The verdict on a group of bounds is the largest load that passes: the number in the key of a result that meets
  the group, at least that of every other such result, and none exactly when no numbered result meets it.
\<close>

theorem bound_verdict_exact:
  assumes "\<not> is_opt se grp"
  shows "case sv_max (group_verdict se variable results grp) of
      None \<Rightarrow> {v. \<exists>(key, r) \<in> set results. val_from_key key = Some v \<and> se_check se r grp} = {}
    | Some k \<Rightarrow> k \<in> {v. \<exists>(key, r) \<in> set results. val_from_key key = Some v \<and> se_check se r grp} \<and>
        (\<forall>v \<in> {v. \<exists>(key, r) \<in> set results. val_from_key key = Some v \<and> se_check se r grp}. v \<le> k)"
proof -
  let ?vs = "passing_vals (map (sla_point_of se grp) (sla_items results))"
  have largest: "fold max xs x = Max (insert x (set xs))" for x :: int and xs
    using Max.set_eq_fold [of x xs] by simp
  have "sv_max (group_verdict se variable results grp) = (if ?vs = [] then None else Some (Max (set ?vs)))"
    using assms by (auto simp: group_verdict_def Let_def bound_verdict_def largest split: list.split)
  then show ?thesis
    unfolding passing_set [where se = se and grp = grp and results = results, symmetric] by auto
qed

definition two_loads :: "(string, real) dict" where
  "two_loads = [(''parallel_8'', 3), (''parallel_2'', 1), (''parallel_4'', 2), (''warm'', 1)]"

text \<open>A criterion is a metric's kind and bound; a result is the latency.\<close>

definition demo_sla :: "(crit_kind \<times> real, real) sla_env" where
  "demo_sla = \<lparr>se_kind = fst, se_cond = \<lambda>c. ''<= 2'', se_check = \<lambda>r grp. list_all (\<lambda>(m, c). r \<le> snd c) grp,
     se_values = \<lambda>r. [(''latency'', r)], se_fmt = \<lambda>r. ''x''\<rparr>"

lemma key_vals [simp]:
  "val_from_key ''parallel_8'' = Some 8" "val_from_key ''parallel_2'' = Some 2" "val_from_key ''parallel_4'' = Some 4"
  "val_from_key ''warm'' = None"
  by code_simp+

lemma demo_bound: "sv_max (group_verdict demo_sla (JStr ''parallel'') two_loads [(''latency'', Crit_Bound, 2)]) = Some 4"
  by (simp add: group_verdict_def demo_sla_def two_loads_def is_opt_def sla_items_def sla_point_of_def bound_verdict_def passing_vals_def
      Let_def insort_key.simps)

lemma bound_verdict_exact_witness:
  "(4::int) \<in> {v. \<exists>(key, r) \<in> set two_loads. val_from_key key = Some v \<and> se_check demo_sla r [(''latency'', Crit_Bound, 2)]}"
  using bound_verdict_exact [where se = demo_sla and grp = "[(''latency'', Crit_Bound, 2)]" and variable = "JStr ''parallel''" and results = two_loads]
  unfolding demo_bound by (simp add: is_opt_def demo_sla_def)

lemma first_best_sound:
  fixes key :: "'a \<Rightarrow> real"
  shows "first_best (\<lambda>x y. key y < key x) b xs \<in> set (b # xs) \<and>
    (\<forall>x \<in> set (b # xs). key x \<le> key (first_best (\<lambda>x y. key y < key x) b xs))"
proof (induction xs arbitrary: b)
  case (Cons x xs)
  show ?case
  proof (cases "key b < key x")
    case True
    then show ?thesis using Cons.IH [of x] by auto
  next
    case False
    then show ?thesis using Cons.IH [of b] by auto
  qed
qed simp

lemma items_ex: "(\<exists>it \<in> set (sla_items results). P (fst it) (snd it)) \<longleftrightarrow> (\<exists>(k, r) \<in> set results. P (val_from_key k) r)"
  by (simp add: sla_items_def case_prod_beta)

lemma valid_set:
  "(v, y) \<in> set (valid_points metric (map (sla_point_of se grp) (sla_items results))) \<longleftrightarrow>
     metric \<in> fst ` set grp \<and> (\<exists>(key, r) \<in> set results. val_from_key key = v \<and> map_of (se_values se r) metric = Some y)"
proof -
  have "dget (map (\<lambda>(m, c). (m, g m)) grp) metric None = (if metric \<in> fst ` set grp then g metric else None)" for g :: "string \<Rightarrow> real option"
    by (induction grp) (auto simp: dget_def)
  then have point: "dget (sp_metrics (sla_point_of se grp it)) metric None =
      (if metric \<in> fst ` set grp then map_of (se_values se (snd it)) metric else None)" for it
    by (simp add: sla_point_of_def Let_def)
  have "(v, y) \<in> set (valid_points metric (map (sla_point_of se grp) (sla_items results))) \<longleftrightarrow>
      (\<exists>it \<in> set (sla_items results). sp_val (sla_point_of se grp it) = v \<and> dget (sp_metrics (sla_point_of se grp it)) metric None = Some y)"
    by (force simp: valid_points_def split: option.splits)
  also have "\<dots> \<longleftrightarrow> metric \<in> fst ` set grp \<and> (\<exists>it \<in> set (sla_items results). fst it = v \<and> map_of (se_values se (snd it)) metric = Some y)"
    unfolding point by (auto simp: sla_point_of_def Let_def)
  finally show ?thesis unfolding items_ex [where P = "\<lambda>a r. a = v \<and> map_of (se_values se r) metric = Some y"] .
qed

text \<open>
  The verdict of a group to optimise rests on its first metric alone: the load of a result whose value of it is
  the best of all results that have one, whether or not that result meets the rest of the group.
\<close>

theorem opt_verdict_best:
  assumes "is_opt se ((metric, c) # grp)" "\<exists>(key, r) \<in> set results. map_of (se_values se r) metric \<noteq> None"
  shows "\<exists>(key, r) \<in> set results. sv_max (group_verdict se variable results ((metric, c) # grp)) = val_from_key key \<and>
    (\<exists>best. map_of (se_values se r) metric = Some best \<and>
      (\<forall>(key', r') \<in> set results. case map_of (se_values se r') metric of
         None \<Rightarrow> True | Some x \<Rightarrow> (if se_kind se c = Crit_Max then x \<le> best else best \<le> x)))"
proof -
  let ?pts = "map (sla_point_of se ((metric, c) # grp)) (sla_items results)"
  let ?vs = "valid_points metric ?pts"
  define key :: "int option \<times> real \<Rightarrow> real" where "key = (\<lambda>p. if se_kind se c = Crit_Max then snd p else - snd p)"
  have better: "(if se_kind se c = Crit_Max then (\<lambda>x y. snd y < snd x) else (\<lambda>x y. snd x < snd y)) = (\<lambda>x y. key y < key x)"
    by (auto simp: key_def)
  from assms(2) obtain k0 r0 x0 where "(k0, r0) \<in> set results" "map_of (se_values se r0) metric = Some x0" by auto
  then have "(val_from_key k0, x0) \<in> set ?vs" unfolding valid_set by auto
  then have "?vs \<noteq> []" by (metis list.set(1) empty_iff)
  then obtain v vs where vs: "?vs = v # vs" by (cases ?vs) auto
  let ?best = "first_best (\<lambda>x y. key y < key x) v vs"
  have max: "sv_max (group_verdict se variable results ((metric, c) # grp)) = fst ?best"
    using assms(1) by (simp add: group_verdict_def Let_def opt_verdict_def vs better)
  have in_best: "(fst ?best, snd ?best) \<in> set ?vs" using first_best_sound [of key v vs] by (simp add: vs)
  have top: "key (val_from_key k', x) \<le> key ?best" if "(k', r') \<in> set results" "map_of (se_values se r') metric = Some x" for k' r' x
  proof -
    have "(val_from_key k', x) \<in> set ?vs" using that by (auto simp: valid_set)
    then show ?thesis using first_best_sound [of key v vs] vs by auto
  qed
  from in_best obtain k r where kr: "(k, r) \<in> set results" "val_from_key k = fst ?best" "map_of (se_values se r) metric = Some (snd ?best)"
    unfolding valid_set by auto
  show ?thesis
  proof (intro bexI [OF _ kr(1)], simp only: prod.case, intro conjI exI [of _ "snd ?best"])
    show "\<forall>(key', r') \<in> set results. case map_of (se_values se r') metric of
         None \<Rightarrow> True | Some x \<Rightarrow> (if se_kind se c = Crit_Max then x \<le> snd ?best else snd ?best \<le> x)"
      using top by (fastforce simp: key_def split: option.split if_splits)
  qed (simp_all add: kr max)
qed

lemma demo_opt:
  "sv_max (group_verdict demo_sla (JStr ''parallel'') two_loads [(''latency'', Crit_Max, 0), (''ttft'', Crit_Bound, 2)]) = Some 8"
  by (simp add: group_verdict_def demo_sla_def two_loads_def is_opt_def sla_items_def sla_point_of_def opt_verdict_def valid_points_def
      dget_def Let_def insort_key.simps)

lemma opt_verdict_best_witness:
  "\<exists>(key, r) \<in> set two_loads. Some 8 = val_from_key key \<and>
    (\<exists>best. map_of (se_values demo_sla r) ''latency'' = Some best \<and>
      (\<forall>(key', r') \<in> set two_loads. case map_of (se_values demo_sla r') ''latency'' of None \<Rightarrow> True | Some x \<Rightarrow> x \<le> best))"
  using opt_verdict_best [where se = demo_sla and metric = "''latency''" and c = "(Crit_Max, 0)" and grp = "[(''ttft'', Crit_Bound, 2)]"
      and results = two_loads and variable = "JStr ''parallel''"]
  unfolding demo_opt by (simp add: is_opt_def demo_sla_def two_loads_def)

text \<open>
  A bound stated first makes its own metric the one that is minimised, and the metric to maximise is ignored: the
  verdict is the result of the least latency, here one whose key has no number, although the loads 2 and 4 pass.
\<close>

lemma bound_first_minimises:
  "sv_max (group_verdict demo_sla (JStr ''parallel'') two_loads [(''latency'', Crit_Bound, 2), (''tps'', Crit_Max, 9)]) = None \<and>
   sv_note (group_verdict demo_sla (JStr ''parallel'') two_loads [(''latency'', Crit_Bound, 2), (''tps'', Crit_Max, 9)]) = ''Best latency: x'' \<and>
   passing_vals (sv_points (group_verdict demo_sla (JStr ''parallel'') two_loads [(''latency'', Crit_Bound, 2), (''tps'', Crit_Max, 9)])) = [2, 4]"
  by (simp add: group_verdict_def demo_sla_def two_loads_def is_opt_def sla_items_def sla_point_of_def opt_verdict_def valid_points_def
      passing_vals_def dget_def Let_def insort_key.simps)

section \<open>A load test ends as its results say\<close>

text \<open>An empty result is a run with no points, but with a verdict asked for it is a crash.\<close>

lemma no_results_no_points:
  "bench (resolve_tokenizer isdir snapshot cfg) = Some None \<Longrightarrow>
   perf_runner se parse mfrom pfrom isdir snapshot bench cfg =
     (if truthy (jget (resolve_tokenizer isdir snapshot cfg) ''sla_auto_tune'') then (1, None)
      else (0, Some (JObj [(''points'', JObj []), (''sla'', JNull)])))"
  by (auto simp: perf_runner_def Let_def norm_points_def compute_sla_def bind_eq_None_conv split: option.split bind_splits)

text \<open>Summaries of the documented shape: objects with numeric levels and percentile rows that are objects.\<close>

fun metrics_ok :: "jval \<Rightarrow> bool" where
  "metrics_ok JNull = True"
| "metrics_ok (JObj m) = (load_level (jget m ''concurrency'') \<noteq> None \<and> load_level (jget m ''request_rate'') \<noteq> None)"
| "metrics_ok _ = False"

fun rows_ok :: "jval \<Rightarrow> bool" where
  "rows_ok (JList rows) = list_all (\<lambda>r. as_obj r \<noteq> None) rows"
| "rows_ok _ = False"

fun percentiles_ok :: "jval \<Rightarrow> bool" where
  "percentiles_ok JNull = True"
| "percentiles_ok (JObj ps) = rows_ok (dget ps ''rows'' (JList []))"
| "percentiles_ok _ = False"

lemma find_pct_total: "list_all (\<lambda>r. as_obj r \<noteq> None) rows \<Longrightarrow> \<exists>d. find_pct fl wanted rows = Some d"
  by (induction rows) auto

lemma pct_total: "rows_ok (dget ps ''rows'' (JList [])) \<Longrightarrow> \<exists>d. pct fl ps wanted = Some d"
  by (cases "dget ps ''rows'' (JList [])") (auto simp: pct_def find_pct_total)

lemma pct_empty: "pct fl [] wanted = Some []"
  by (simp add: pct_def dget_def)

definition point_levels_ok :: "(string, jval) dict \<Rightarrow> bool" where
  "point_levels_ok p = (load_level (jget p ''concurrency'') \<noteq> None \<and> load_level (jget p ''rate'') \<noteq> None)"

lemma perf_point_total:
  assumes "metrics_ok m" "percentiles_ok ps"
  shows "\<exists>p. perf_point fl (k, JObj [(''metrics'', m), (''percentiles'', ps)]) = Some p \<and> point_levels_ok p"
proof -
  have or_self: "as_obj (jor (JObj d) (JObj [])) = Some d" "as_obj (jor JNull (JObj [])) = Some []" for d
    by (simp_all add: jor_def)
  obtain md where md: "as_obj (jor m (JObj [])) = Some md" "load_level (jget md ''concurrency'') \<noteq> None" "load_level (jget md ''request_rate'') \<noteq> None"
    using assms(1) or_self by (cases m) (auto simp: jget_def dget_def)
  obtain pd where pd: "as_obj (jor ps (JObj [])) = Some pd" "rows_ok (dget pd ''rows'' (JList []))"
    using assms(2) or_self by (cases ps) (auto simp: dget_def)
  obtain a b c where "pct fl pd [''50%'', ''p50'', ''50''] = Some a" "pct fl pd [''99%'', ''p99'', ''99''] = Some b" "pct fl pd [''max''] = Some c"
    using pct_total [OF pd(2)] by metis
  moreover have "jget [(''metrics'', m), (''percentiles'', ps)] ''metrics'' = m" "jget [(''metrics'', m), (''percentiles'', ps)] ''percentiles'' = ps"
    by (simp_all add: jget_def dget_def)
  ultimately show ?thesis
    using md pd(1) by (simp add: perf_point_def point_levels_ok_def) (simp add: jget_def dget_def)
qed

lemma those_total: "(\<And>x. x \<in> set xs \<Longrightarrow> \<exists>y. f x = Some y \<and> P y) \<Longrightarrow> \<exists>ys. those (map f xs) = Some ys \<and> (\<forall>y\<in>set ys. P y)"
  by (induction xs) fastforce+

definition summaries_ok :: "(jval \<Rightarrow> jval option) \<Rightarrow> (jval \<Rightarrow> jval option) \<Rightarrow> 'r perf_entry \<Rightarrow> bool" where
  "summaries_ok mfrom pfrom e =
     ((case norm_summary mfrom (pe_metrics e) of None \<Rightarrow> True | Some m \<Rightarrow> metrics_ok m) \<and>
      (case norm_summary pfrom (pe_percentiles e) of None \<Rightarrow> True | Some p \<Rightarrow> percentiles_ok p))"

definition shaped :: "jval \<Rightarrow> bool" where
  "shaped v \<longleftrightarrow> (\<exists>m ps. v = JObj [(''metrics'', m), (''percentiles'', ps)] \<and> metrics_ok m \<and> percentiles_ok ps)"

lemma norm_points_shape:
  assumes "norm_points mfrom pfrom results = Some points" "list_all (\<lambda>(k, e). summaries_ok mfrom pfrom e) results"
  shows "length points = length results \<and> list_all (\<lambda>(k, v). shaped v) points"
  using assms
proof (induction results arbitrary: points)
  case (Cons x results)
  obtain k e where x: "x = (k, e)" by (cases x)
  obtain v rest where v: "norm_entry mfrom pfrom e = Some v" "norm_points mfrom pfrom results = Some rest" "points = (k, v) # rest"
    using Cons.prems(1) by (auto simp: norm_points_def x split: option.splits)
  moreover have "shaped v"
    using v(1) Cons.prems(2) by (auto simp: norm_entry_def summaries_ok_def x bind_eq_Some_conv shaped_def)
  moreover have "length rest = length results \<and> list_all (\<lambda>(k, v). shaped v) rest"
    using Cons.prems(2) by (intro Cons.IH [OF v(2)]) simp
  ultimately show ?case by simp
qed (simp add: norm_points_def)

lemma parse_points_total:
  assumes "list_all (\<lambda>(k, v). shaped v) points"
  shows "\<exists>ps. parse_result fl (JObj [(''points'', JObj points), (''sla'', sla)]) =
      Some (JObj [(''points'', JList (map JObj ps)), (''sla'', sla)]) \<and> length ps = length points"
proof -
  have "\<exists>p. perf_point fl x = Some p \<and> point_levels_ok p" if "x \<in> set points" for x
    using assms that perf_point_total by (cases x) (fastforce simp: shaped_def list_all_iff)
  then obtain qs where qs: "those (map (perf_point fl) points) = Some qs" "\<forall>q \<in> set qs. point_levels_ok q"
    using those_total [of points "perf_point fl" point_levels_ok] by blast
  from qs(1) have len: "length qs = length points"
    by (induction points arbitrary: qs) (auto split: option.splits)
  have "sort_points qs = Some (sort_key (level_of ''concurrency'') (sort_key (level_of ''rate'') qs))"
    using qs(2) by (auto simp: sort_points_def point_levels_ok_def)
  then have "parse_result fl (JObj [(''points'', JObj points), (''sla'', sla)]) =
      Some (JObj [(''points'', JList (map JObj (sort_key (level_of ''concurrency'') (sort_key (level_of ''rate'') qs)))), (''sla'', sla)])"
    using qs(1) by (simp add: parse_result_def dget_def jget_def)
  then show ?thesis using len by (intro exI conjI) (assumption, simp)
qed

text \<open>
  What a load test returned reaches its record: if the runner ends with code 0 and the summaries have the shape
  evalscope documents, the manager reads the file back and completes the run with one point per result and the verdicts.
\<close>

theorem perf_run_completes:
  assumes "bench (resolve_tokenizer isdir snapshot cfg) = Some (Some results)"
    and "perf_runner se parse mfrom pfrom isdir snapshot bench cfg = (0, content)"
    and "list_all (\<lambda>(k, e). summaries_ok mfrom pfrom e) results"
  shows "\<exists>ps sla. perf_outcome fl 0 (map_option Some content) =
      Outcome Completed (Some (json_dumps fl (JObj [(''points'', JList (map JObj ps)), (''sla'', sla)]))) None \<and>
    length ps = length results"
proof -
  obtain points sla where points: "norm_points mfrom pfrom results = Some points"
    and content: "content = Some (JObj [(''points'', JObj points), (''sla'', sla)])"
    using assms(1,2) by (auto simp: perf_runner_def Let_def split: option.splits bind_splits if_splits)
  note shape = norm_points_shape [OF points assms(3)]
  obtain ps where "parse_result fl (JObj [(''points'', JObj points), (''sla'', sla)]) =
      Some (JObj [(''points'', JList (map JObj ps)), (''sla'', sla)])" "length ps = length points"
    using parse_points_total [OF conjunct2 [OF shape], where fl = fl and sla = sla] by blast
  moreover have "length points = length results" using shape by simp
  ultimately show ?thesis by (auto simp: perf_outcome_def content)
qed

definition one_result :: "(string, real perf_entry) dict" where
  "one_result = [(''parallel_2'', \<lparr>pe_metrics = Typed (JObj [(''concurrency'', JInt 2)]), pe_percentiles = No_Summary, pe_raw = 1\<rparr>)]"

lemma perf_run_completes_witness:
  "\<exists>ps sla. perf_outcome (\<lambda>r. ''x'') 0 (map_option Some (snd (perf_runner demo_sla (\<lambda>v. None) Some Some (\<lambda>t. False) (\<lambda>t. None)
       (\<lambda>c. Some (Some one_result)) []))) =
      Outcome Completed (Some (json_dumps (\<lambda>r. ''x'') (JObj [(''points'', JList (map JObj ps)), (''sla'', sla)]))) None \<and>
    length ps = 1"
proof -
  let ?run = "perf_runner demo_sla (\<lambda>v. None) Some Some (\<lambda>t. False) (\<lambda>t. None) (\<lambda>c. Some (Some one_result)) []"
  have "fst ?run = 0"
    by (simp add: perf_runner_def Let_def resolve_tokenizer_def jget_def dget_def norm_points_def one_result_def norm_entry_def)
  then have run: "?run = (0, snd ?run)" by (metis prod.collapse)
  have ok: "list_all (\<lambda>(k, e). summaries_ok Some Some e) one_result"
    by (simp add: one_result_def summaries_ok_def jget_def dget_def)
  have "length one_result = 1" by (simp add: one_result_def)
  then show ?thesis
    using perf_run_completes [where bench = "\<lambda>c. Some (Some one_result)", OF refl run ok, where fl = "\<lambda>r. ''x''"] by simp
qed

end
