(* ===== verification/Dataset_Previews.thy ===== *)
theory Dataset_Previews
  imports Downloads Eval_Reports Embedding_Server
begin

text \<open>
  The inspector of the evaluation data sets: the second half of apps/backend/app/services/dataset_service.py
  (metadata, previews, the cache root and its volume) and the endpoints of api/eval.py and api/datasets.py that
  answer it.

  What evalscope and ModelScope do is a parameter: the registry of benchmarks, the loading of a subset, the
  download.  The values a sample carries are any Python values, finite or not: \<open>pyval\<close> is a codatatype, so
  that an object that contains itself is a value of it.
\<close>

section \<open>Python values\<close>

codatatype pyval =
    PNone
  | PBool bool
  | PInt int
  | PFloat real
  | PStr string
  | PSeq "pyval list"
  | PDict "(pyval \<times> pyval) list"
  | PObject string

definition py_true :: "pyval \<Rightarrow> bool" where
  "py_true v =
     (case v of PNone \<Rightarrow> False | PBool b \<Rightarrow> b | PInt n \<Rightarrow> n \<noteq> 0 | PFloat r \<Rightarrow> r \<noteq> 0 | PStr s \<Rightarrow> s \<noteq> []
      | PSeq xs \<Rightarrow> xs \<noteq> [] | PDict d \<Rightarrow> d \<noteq> [] | PObject s \<Rightarrow> True)"

section \<open>A bounded JSON tree\<close>

text \<open>
  \<open>_json_safe\<close>, with the levels that are left: the code counts its depth up to six.  \<open>str\<close> is Python's.
\<close>

primrec json_safe_at :: "(pyval \<Rightarrow> string) \<Rightarrow> nat \<Rightarrow> pyval \<Rightarrow> jval" where
  "json_safe_at str 0 obj = JStr (str obj)"
| "json_safe_at str (Suc k) obj =
     (case obj of
        PNone \<Rightarrow> JNull
      | PBool b \<Rightarrow> JBool b
      | PInt n \<Rightarrow> JInt n
      | PFloat r \<Rightarrow> JFloat r
      | PStr s \<Rightarrow> JStr s
      | PDict d \<Rightarrow> JObj (fold (\<lambda>(key, v). dset (str key) (json_safe_at str k v)) (take 50 d) [])
      | PSeq xs \<Rightarrow> JList (map (json_safe_at str k) (take 50 xs))
      | PObject s \<Rightarrow> JStr (str obj))"

definition json_safe :: "(pyval \<Rightarrow> string) \<Rightarrow> pyval \<Rightarrow> jval" where
  "json_safe str obj = json_safe_at str 6 obj"

section \<open>Benchmark metadata\<close>

text \<open>An entry of a metric list: a name, a dictionary of options by name, or something else.\<close>

datatype metric_spec = Metric string | Metric_Opts "string list" | Metric_Other

fun metric_list_names :: "metric_spec list \<Rightarrow> string list" where
  "metric_list_names [] = []"
| "metric_list_names (Metric m # ms) = m # metric_list_names ms"
| "metric_list_names (Metric_Opts ks # ms) = ks @ metric_list_names ms"
| "metric_list_names (Metric_Other # ms) = metric_list_names ms"

definition registry_name :: "string \<Rightarrow> string" where
  "registry_name key = (if key = ''chinese_simple_qa'' then ''chinese_simpleqa'' else key)"

text \<open>A benchmark as evalscope registers it; a missing attribute has its default here, as \<open>getattr\<close> gives it.\<close>

record benchmark =
  bn_description :: "string option"
  bn_subsets :: "string list"
  bn_default_subset :: string
  bn_few_shot :: int
  bn_eval_split :: "string option"
  bn_metrics :: "metric_spec list"
  bn_tags :: "string list"
  bn_pretty :: "string option"
  bn_paper :: "string option"

record bench_meta =
  me_subsets :: "string list"
  me_default_subset :: string
  me_few_shot :: int
  me_eval_split :: "string option"
  me_metric :: "string list"
  me_tags :: "string list"
  me_pretty :: "string option"
  me_description :: string
  me_paper :: "string option"

text \<open>The registry is \<open>None\<close> where evalscope cannot be imported.\<close>

definition eval_dataset_meta :: "(string \<Rightarrow> benchmark option) option \<Rightarrow> string \<Rightarrow> bench_meta option" where
  "eval_dataset_meta registry key =
     (case registry of
        None \<Rightarrow> None
      | Some reg \<Rightarrow>
          map_option (\<lambda>b.
            \<lparr>me_subsets = bn_subsets b, me_default_subset = bn_default_subset b, me_few_shot = bn_few_shot b,
             me_eval_split = bn_eval_split b, me_metric = metric_list_names (bn_metrics b), me_tags = bn_tags b,
             me_pretty = bn_pretty b,
             me_description = take 1200 (str_strip (case bn_description b of None \<Rightarrow> [] | Some d \<Rightarrow> d)),
             me_paper = bn_paper b\<rparr>) (reg (registry_name key)))"

section \<open>Previews\<close>

text \<open>
  The content of a chat message: a text, the texts of its parts, or something else (none at all among it).
  An input is a text, a list of messages with what \<open>str\<close> makes of it, or another value.
\<close>

datatype content = Plain_Text string | Parts "string option list" | Opaque

type_synonym message = "string \<times> content"

datatype sample_input = Prompt string | Chat string "message list" | Other_Input bool string

fun first_text :: "message list \<Rightarrow> string option" where
  "first_text [] = None"
| "first_text ((role, Plain_Text s) # ms) = Some s"
| "first_text ((role, Parts ps) # ms) = Some (join_with '' '' (map (\<lambda>p. case p of None \<Rightarrow> [] | Some t \<Rightarrow> t) ps))"
| "first_text ((role, Opaque) # ms) = first_text ms"

fun sample_question :: "sample_input \<Rightarrow> string" where
  "sample_question (Prompt s) = s"
| "sample_question (Chat shown ms) =
     (if ms = [] then [] else case first_text (rev ms) of Some s \<Rightarrow> s | None \<Rightarrow> shown)"
| "sample_question (Other_Input given shown) = (if given then shown else [])"

record eval_sample =
  es_input :: sample_input
  es_choices :: "pyval list option"
  es_target :: pyval
  es_metadata :: pyval

record preview_row =
  pr_question :: string
  pr_choices :: jval
  pr_target :: jval
  pr_metadata :: jval

record preview =
  pv_subset :: string
  pv_count :: nat
  pv_rows :: "preview_row list"
  pv_truncated :: bool
  pv_pretty :: "string option"
  pv_description :: "string option"
  pv_tags :: "string list"
  pv_metric :: "string list"
  pv_subsets :: "string list"

definition preview_row_of :: "(pyval \<Rightarrow> string) \<Rightarrow> eval_sample \<Rightarrow> preview_row" where
  "preview_row_of str s =
     \<lparr>pr_question = take 4000 (sample_question (es_input s)),
      pr_choices = json_safe str (PSeq (case es_choices s of None \<Rightarrow> [] | Some cs \<Rightarrow> cs)),
      pr_target = json_safe str (es_target s),
      pr_metadata = json_safe str (if py_true (es_metadata s) then es_metadata s else PDict [])\<rparr>"

definition chosen_subset :: "bench_meta option \<Rightarrow> string option \<Rightarrow> string" where
  "chosen_subset meta wanted =
     (let known = (case meta of None \<Rightarrow> [] | Some m \<Rightarrow> me_subsets m);
          subsets = (if known = [] then [''default''] else known)
      in case wanted of
           Some s \<Rightarrow> if s \<noteq> [] then s else
             (case meta of Some m \<Rightarrow> if me_default_subset m \<in> set subsets then me_default_subset m else hd subsets | None \<Rightarrow> hd subsets)
         | None \<Rightarrow>
             (case meta of Some m \<Rightarrow> if me_default_subset m \<in> set subsets then me_default_subset m else hd subsets | None \<Rightarrow> hd subsets))"

definition clamp_rows :: "int \<Rightarrow> nat" where
  "clamp_rows n = nat (max 1 (min n 50))"

text \<open>
  \<open>load\<close> builds the benchmark for a registry name, a subset and a limit and loads it: the samples by split, or an
  exception.  \<open>None\<close>: an exception.
\<close>

definition eval_dataset_preview ::
  "(pyval \<Rightarrow> string) \<Rightarrow> (string \<Rightarrow> benchmark option) option \<Rightarrow>
   (string \<Rightarrow> string \<Rightarrow> nat \<Rightarrow> (string, eval_sample list) dict option) \<Rightarrow> string \<Rightarrow> string option \<Rightarrow> int \<Rightarrow> preview option" where
  "eval_dataset_preview str registry load key wanted n =
     (let meta = eval_dataset_meta registry key; sub = chosen_subset meta wanted; k = clamp_rows n in
      case load (registry_name key) sub k of
        None \<Rightarrow> None
      | Some dd \<Rightarrow>
          if dd = [] then None
          else let split = (if sub \<in> set (dkeys dd) then sub else hd (dkeys dd)); ds = dget dd split []
           in Some \<lparr>pv_subset = split, pv_count = length ds, pv_rows = map (preview_row_of str) (take k ds),
                    pv_truncated = (k \<le> length ds), pv_pretty = Option.bind meta me_pretty,
                    pv_description = map_option me_description meta,
                    pv_tags = (case meta of None \<Rightarrow> [] | Some m \<Rightarrow> me_tags m),
                    pv_metric = (case meta of None \<Rightarrow> [] | Some m \<Rightarrow> me_metric m),
                    pv_subsets = (case meta of None \<Rightarrow> [] | Some m \<Rightarrow> me_subsets m)\<rparr>)"

section \<open>The cache and its volume\<close>

text \<open>\<open>os.path.expanduser\<close>: \<open>homes\<close> gives the home directory of a user, the empty name the own one.\<close>

definition expanduser :: "(string \<Rightarrow> path option) \<Rightarrow> path \<Rightarrow> path" where
  "expanduser homes p =
     (case p of
        (c # user) # rest \<Rightarrow> if c = CHR 0x7E then (case homes user of None \<Rightarrow> p | Some h \<Rightarrow> h @ rest) else p
      | _ \<Rightarrow> p)"

definition cache_root :: "(string \<Rightarrow> path option) \<Rightarrow> path option \<Rightarrow> path" where
  "cache_root homes modelscope_cache =
     (let base = (case modelscope_cache of
                    None \<Rightarrow> expanduser homes [[CHR 0x7E]] @ [''.cache'', ''modelscope'', ''hub'']
                  | Some p \<Rightarrow> p)
      in expanduser homes base @ [''datasets''])"

definition dir_size :: "path \<Rightarrow> fsys \<Rightarrow> dataset \<Rightarrow> nat" where
  "dir_size base fs e = tree_size fs (dataset_dir base e)"

text \<open>\<open>hub\<close> downloads a repository, or the files of it that match the patterns, and answers the directory.\<close>

definition download_dataset :: "(string \<Rightarrow> string list option \<Rightarrow> path option) \<Rightarrow> dataset \<Rightarrow> path option" where
  "download_dataset hub e =
     (case ds_file e of
        Some f \<Rightarrow> if f \<noteq> [] then map_option (\<lambda>local. local @ path_parts [] f) (hub (ds_repo e) (Some [f])) else hub (ds_repo e) None
      | None \<Rightarrow> hub (ds_repo e) None)"

record volume =
  vo_total :: nat
  vo_used :: nat
  vo_free :: nat

definition dataset_disk_usage :: "(path \<Rightarrow> volume) \<Rightarrow> path \<Rightarrow> fsys \<Rightarrow> volume" where
  "dataset_disk_usage statvfs base fs = statvfs (probe_path fs (rev base))"

section \<open>The endpoints\<close>

definition list_datasets :: "(path \<Rightarrow> volume) \<Rightarrow> path \<Rightarrow> fsys \<Rightarrow> volume \<times> (dataset \<times> bool \<times> nat) list" where
  "list_datasets statvfs base fs = (dataset_disk_usage statvfs base fs, scan_datasets base fs)"

definition list_eval_datasets :: "(string \<Rightarrow> benchmark option) option \<Rightarrow> (dataset \<times> bench_meta option) list" where
  "list_eval_datasets registry = map (\<lambda>d. (d, eval_dataset_meta registry (ds_key d))) eval_catalog"

text \<open>The preview endpoint: a status and, with 200, the preview.\<close>

definition preview_eval_dataset ::
  "(pyval \<Rightarrow> string) \<Rightarrow> (string \<Rightarrow> benchmark option) option \<Rightarrow>
   (string \<Rightarrow> string \<Rightarrow> nat \<Rightarrow> (string, eval_sample list) dict option) \<Rightarrow> path \<Rightarrow> fsys \<Rightarrow>
   string \<Rightarrow> string option \<Rightarrow> int \<Rightarrow> nat + preview" where
  "preview_eval_dataset str registry load base fs key wanted n =
     (case preview_refusal base fs key of
        Some code \<Rightarrow> Inl code
      | None \<Rightarrow> (case eval_dataset_preview str registry load key wanted n of None \<Rightarrow> Inl 422 | Some p \<Rightarrow> Inr p))"

section \<open>Every answer is a bounded tree\<close>

fun jdepth :: "jval \<Rightarrow> nat" where
  "jdepth (JList xs) = Suc (Max (insert 0 (jdepth ` set xs)))"
| "jdepth (JObj d) = Suc (Max (insert 0 ((\<lambda>kv. jdepth (snd kv)) ` set d)))"
| "jdepth _ = 0"

fun jwidth :: "jval \<Rightarrow> nat" where
  "jwidth (JList xs) = Max (insert (length xs) (jwidth ` set xs))"
| "jwidth (JObj d) = Max (insert (length d) ((\<lambda>kv. jwidth (snd kv)) ` set d))"
| "jwidth _ = 0"

lemma dset_length: "length (dset k v d) \<le> Suc (length d)"
  by (induction d) (auto simp: dset_def)

lemma dset_values: "snd ` set (dset k v d) \<subseteq> insert v (snd ` set d)"
  by (induction d) (auto simp: dset_def)

lemma comprehension_length: "length (fold (\<lambda>(k, v). dset (f k) (g v)) xs d) \<le> length d + length xs"
proof (induction xs arbitrary: d)
  case (Cons x xs)
  obtain k v where x: "x = (k, v)" by (cases x)
  have "length (fold (\<lambda>(k, v). dset (f k) (g v)) xs (dset (f k) (g v) d)) \<le> length (dset (f k) (g v) d) + length xs"
    by (rule Cons.IH)
  also have "\<dots> \<le> Suc (length d) + length xs" by (simp add: dset_length)
  finally show ?case by (simp add: x)
qed simp

lemma comprehension_values: "snd ` set (fold (\<lambda>(k, v). dset (f k) (g v)) xs d) \<subseteq> snd ` set d \<union> g ` snd ` set xs"
proof (induction xs arbitrary: d)
  case (Cons x xs)
  obtain k v where x: "x = (k, v)" by (cases x)
  have "snd ` set (fold (\<lambda>(k, v). dset (f k) (g v)) xs (dset (f k) (g v) d)) \<subseteq> snd ` set (dset (f k) (g v) d) \<union> g ` snd ` set xs"
    by (rule Cons.IH)
  also have "\<dots> \<subseteq> insert (g v) (snd ` set d) \<union> g ` snd ` set xs" using dset_values by (rule Un_mono) simp
  finally show ?case by (simp add: x)
qed simp

lemma comprehension_bounds:
  "length (fold (\<lambda>(k, v). dset (f k) (g v)) xs d) \<le> length d + length xs \<and>
   snd ` set (fold (\<lambda>(k, v). dset (f k) (g v)) xs d) \<subseteq> snd ` set d \<union> g ` snd ` set xs"
  using comprehension_length comprehension_values by (rule conjI)

lemma json_safe_at_depth: "jdepth (json_safe_at str k v) \<le> k"
proof (induction k arbitrary: v)
  case (Suc k)
  have dict: "jdepth (JObj (fold (\<lambda>(key, v). dset (str key) (json_safe_at str k v)) d [])) \<le> Suc k" for d
    using comprehension_bounds [of str "json_safe_at str k" d "[]"] Suc.IH by (auto simp: image_iff subset_iff)
  show ?case by (cases v) (auto simp: Suc.IH dict simp del: jdepth.simps(2))
qed simp

lemma json_safe_at_width: "jwidth (json_safe_at str k v) \<le> 50"
proof (induction k arbitrary: v)
  case (Suc k)
  have dict: "jwidth (JObj (fold (\<lambda>(key, v). dset (str key) (json_safe_at str k v)) (take 50 d) [])) \<le> 50" for d
  proof -
    let ?o = "fold (\<lambda>(key, v). dset (str key) (json_safe_at str k v)) (take 50 d) []"
    have "length ?o \<le> 50" "snd ` set ?o \<subseteq> json_safe_at str k ` snd ` set (take 50 d)"
      using comprehension_bounds [of str "json_safe_at str k" "take 50 d" "[]"] by auto
    then show ?thesis using Suc.IH by (auto simp: image_iff subset_iff)
  qed
  show ?case by (cases v) (auto simp: Suc.IH dict simp del: jwidth.simps(2))
qed simp

text \<open>
  Whatever a sample carries, a value that contains itself among it, the preview answers a JSON tree at most six
  levels deep and at most fifty wide.
\<close>

theorem json_safe_bounded: "jdepth (json_safe str v) \<le> 6 \<and> jwidth (json_safe str v) \<le> 50"
  by (simp add: json_safe_def json_safe_at_depth json_safe_at_width)

text \<open>A list that contains itself.\<close>

primcorec ouroboros :: "unit \<Rightarrow> pyval" where
  "ouroboros u = PSeq (map ouroboros [u])"

lemma ouroboros_safe:
  "json_safe (\<lambda>v. ''[...]'') (ouroboros ()) = JList [JList [JList [JList [JList [JList [JStr ''[...]'']]]]]]"
proof -
  have "ouroboros () = PSeq [ouroboros ()]" by (subst ouroboros.code) simp
  then have "json_safe_at (\<lambda>v. ''[...]'') (Suc k) (ouroboros ()) = JList [json_safe_at (\<lambda>v. ''[...]'') k (ouroboros ())]" for k
    by (metis (no_types, lifting) json_safe_at.simps(2) list.simps(8,9) pyval.case(6) take_Cons_numeral take_Nil)
  then show ?thesis by (simp add: json_safe_def numeral_eq_Suc)
qed

text \<open>The Python value of a JSON tree.\<close>

fun py_of :: "jval \<Rightarrow> pyval" where
  "py_of JNull = PNone"
| "py_of (JBool b) = PBool b"
| "py_of (JInt n) = PInt n"
| "py_of (JFloat r) = PFloat r"
| "py_of (JStr s) = PStr s"
| "py_of (JList xs) = PSeq (map py_of xs)"
| "py_of (JObj d) = PDict (map (\<lambda>(k, v). (PStr k, py_of v)) d)"

fun keys_once :: "jval \<Rightarrow> bool" where
  "keys_once (JList xs) = list_all keys_once xs"
| "keys_once (JObj d) = (distinct (map fst d) \<and> list_all (\<lambda>(k, v). keys_once v) d)"
| "keys_once v = True"

lemma dset_new: "k \<notin> fst ` set d \<Longrightarrow> dset k v d = d @ [(k, v)]"
  by (induction d) (auto simp: dset_def)

lemma comprehension_identity:
  assumes "\<And>k. str (PStr k) = k" "\<And>k v. (k, v) \<in> set d \<Longrightarrow> g (py_of v) = v" "distinct (map fst (acc @ d))"
  shows "fold (\<lambda>(key, v). dset (str key) (g v)) (map (\<lambda>(k, v). (PStr k, py_of v)) d) acc = acc @ d"
  using assms(2,3)
proof (induction d arbitrary: acc)
  case (Cons x d)
  obtain k v where x: "x = (k, v)" by (cases x)
  have "dset k (g (py_of v)) acc = acc @ [(k, v)]"
    using Cons.prems by (auto simp: x dset_new)
  moreover have "fold (\<lambda>(key, v). dset (str key) (g v)) (map (\<lambda>(k, v). (PStr k, py_of v)) d) (acc @ [(k, v)]) = (acc @ [(k, v)]) @ d"
    by (rule Cons.IH) (use Cons.prems in \<open>auto simp: x\<close>)
  ultimately show ?case by (simp add: x assms(1))
qed simp

lemma json_safe_at_identity:
  assumes "\<And>k. str (PStr k) = k"
  shows "jdepth v < k \<Longrightarrow> jwidth v \<le> 50 \<Longrightarrow> keys_once v \<Longrightarrow> json_safe_at str k (py_of v) = v"
proof (induction v arbitrary: k rule: py_of.induct)
  case (6 xs)
  obtain j where k: "k = Suc j" using 6(2) by (cases k) auto
  have "json_safe_at str j (py_of x) = x" if "x \<in> set xs" for x
    using 6 that by (auto simp: k list_all_iff)
  moreover have "length xs \<le> 50" using 6(3) by simp
  ultimately show ?case by (simp add: k map_idI)
next
  case (7 d)
  obtain j where k: "k = Suc j" using 7(2) by (cases k) auto
  have "json_safe_at str j (py_of v) = v" if "(key, v) \<in> set d" for key v
    using 7(1) [OF that refl, of j] 7(2-) that by (force simp: k list_all_iff)
  moreover have "length d \<le> 50" using 7(3) by simp
  ultimately show ?case
    using comprehension_identity [OF assms, where d = d and g = "json_safe_at str j" and acc = "[]"] 7(4) by (simp add: k)
next
  case 1 then show ?case by (cases k) auto
next
  case 2 then show ?case by (cases k) auto
next
  case 3 then show ?case by (cases k) auto
next
  case 4 then show ?case by (cases k) auto
next
  case 5 then show ?case by (cases k) auto
qed

text \<open>
  A value that is such a tree already, with less than six levels of lists and objects, is shown as it is.
\<close>

theorem json_safe_identity:
  assumes "\<And>k. str (PStr k) = k" "jdepth v < 6" "jwidth v \<le> 50" "keys_once v"
  shows "json_safe str (py_of v) = v"
  unfolding json_safe_def by (rule json_safe_at_identity) (use assms in auto)

definition shown :: "pyval \<Rightarrow> string" where
  "shown v = (case v of PStr s \<Rightarrow> s | _ \<Rightarrow> ''?'')"

lemma json_safe_identity_witness:
  "json_safe shown (py_of (JObj [(''id'', JInt 7), (''tags'', JList [JStr ''a''])])) = JObj [(''id'', JInt 7), (''tags'', JList [JStr ''a''])]"
  by (rule json_safe_identity) (simp_all add: shown_def)

text \<open>The sixth level is shown as text: a number becomes a string.\<close>

lemma sixth_level_is_text:
  "json_safe str (PSeq [PSeq [PSeq [PSeq [PSeq [PSeq [PInt 7]]]]]]) = JList [JList [JList [JList [JList [JList [JStr (str (PInt 7))]]]]]]"
  by (simp add: json_safe_def numeral_eq_Suc)

section \<open>What a preview shows\<close>

lemma preview_split:
  assumes "eval_dataset_preview str registry load key wanted n = Some p"
  shows "\<exists>dd ds. load (registry_name key) (chosen_subset (eval_dataset_meta registry key) wanted) (clamp_rows n) = Some dd \<and>
      map_of dd (pv_subset p) = Some ds \<and> pv_count p = length ds \<and>
      pv_rows p = map (preview_row_of str) (take (clamp_rows n) ds)"
proof -
  let ?sub = "chosen_subset (eval_dataset_meta registry key) wanted"
  obtain dd where dd: "load (registry_name key) ?sub (clamp_rows n) = Some dd" "dd \<noteq> []"
    using assms by (auto simp: eval_dataset_preview_def Let_def split: option.splits if_splits)
  let ?split = "if ?sub \<in> set (dkeys dd) then ?sub else hd (dkeys dd)"
  have "?split \<in> fst ` set dd" using dd(2) by (auto simp: dkeys_def hd_map)
  then obtain ds where ds: "map_of dd ?split = Some ds" by (cases "map_of dd ?split") (auto simp: map_of_eq_None_iff)
  have "pv_subset p = ?split" "pv_count p = length ds" "pv_rows p = map (preview_row_of str) (take (clamp_rows n) ds)"
    using assms dd ds by (auto simp: eval_dataset_preview_def Let_def dget_def)
  with dd ds show ?thesis by auto
qed

lemma clamp_at_most: "clamp_rows n \<le> 50"
  by (simp add: clamp_rows_def)

text \<open>
  A preview answers the first samples of the split it names, at most fifty of them and as many as asked for and
  loaded; every question is cut at 4000 characters and every other field is a bounded tree.
\<close>

theorem preview_rows:
  assumes "eval_dataset_preview str registry load key wanted n = Some p"
  shows "\<exists>dd ds. load (registry_name key) (chosen_subset (eval_dataset_meta registry key) wanted) (clamp_rows n) = Some dd \<and>
      map_of dd (pv_subset p) = Some ds \<and> pv_count p = length ds \<and>
      pv_rows p = map (preview_row_of str) (take (clamp_rows n) ds) \<and> length (pv_rows p) \<le> 50 \<and>
      list_all (\<lambda>r. length (pr_question r) \<le> 4000 \<and> jdepth (pr_target r) \<le> 6 \<and> jdepth (pr_choices r) \<le> 6 \<and>
         jdepth (pr_metadata r) \<le> 6 \<and> jwidth (pr_metadata r) \<le> 50) (pv_rows p)"
  using preview_split [OF assms] clamp_at_most [of n]
  by (auto simp: preview_row_of_def list_all_iff json_safe_def json_safe_at_depth json_safe_at_width)

definition arc_sample :: eval_sample where
  "arc_sample = \<lparr>es_input = Chat ''[...]'' [(''user'', Plain_Text ''2 + 2?'')], es_choices = Some [PStr ''3'', PStr ''4''],
     es_target = PStr ''B'', es_metadata = PNone\<rparr>"

definition arc_load :: "string \<Rightarrow> string \<Rightarrow> nat \<Rightarrow> (string, eval_sample list) dict option" where
  "arc_load name sub k = Some [(sub, take k [arc_sample, arc_sample, arc_sample])]"

lemma arc_preview:
  "eval_dataset_preview shown None arc_load ''arc'' None 2 =
     Some \<lparr>pv_subset = ''default'', pv_count = 2, pv_rows = map (preview_row_of shown) [arc_sample, arc_sample], pv_truncated = True,
       pv_pretty = None, pv_description = None, pv_tags = [], pv_metric = [], pv_subsets = []\<rparr>"
  by (simp add: eval_dataset_preview_def eval_dataset_meta_def chosen_subset_def arc_load_def clamp_rows_def dkeys_def dget_def Let_def)

lemma preview_rows_witness:
  "\<exists>dd ds. arc_load (registry_name ''arc'') (chosen_subset (eval_dataset_meta None ''arc'') None) (clamp_rows 2) = Some dd \<and>
      map_of dd ''default'' = Some ds \<and> 2 = length ds \<and>
      map (preview_row_of shown) [arc_sample, arc_sample] = map (preview_row_of shown) (take (clamp_rows 2) ds)"
  using preview_rows [OF arc_preview] by auto

text \<open>
  The size it reports is what the limit let through, not the size of the subset; a subset that has exactly as many
  samples as asked for is reported as cut.
\<close>

lemma count_is_clipped:
  assumes "\<And>name sub k dd split ds. load name sub k = Some dd \<Longrightarrow> map_of dd split = Some ds \<Longrightarrow> length ds \<le> k"
    and "eval_dataset_preview str registry load key wanted n = Some p"
  shows "pv_count p \<le> 50"
proof -
  obtain dd ds where "load (registry_name key) (chosen_subset (eval_dataset_meta registry key) wanted) (clamp_rows n) = Some dd"
    "map_of dd (pv_subset p) = Some ds" "pv_count p = length ds"
    using preview_split [OF assms(2)] by blast
  with assms(1) have "pv_count p \<le> clamp_rows n" by metis
  then show ?thesis by (simp add: clamp_rows_def)
qed

lemma exact_fit_reads_truncated:
  "map_option (\<lambda>p. (pv_count p, pv_truncated p)) (eval_dataset_preview shown None arc_load ''arc'' None 3) = Some (3, True)"
  by (simp add: eval_dataset_preview_def eval_dataset_meta_def chosen_subset_def arc_load_def clamp_rows_def dkeys_def dget_def Let_def)

text \<open>The question is the last message with a text, whoever said it.\<close>

lemma last_turn_of_any_role:
  "sample_question (Chat str [(''user'', Plain_Text q), (''assistant'', Plain_Text a)]) = a"
  by simp

text \<open>Only a downloaded evaluation data set is ever loaded.\<close>

lemma preview_needs_cache:
  "preview_eval_dataset str registry load base fs key wanted n = Inr p \<Longrightarrow>
     \<exists>e. get_entry key = Some e \<and> ds_eval e \<and> 0 < cached_size base fs e"
  by (auto simp: preview_eval_dataset_def preview_refusal_def split: option.splits if_splits)

section \<open>The volume\<close>

lemma probe_exists:
  "probe_path fs d = [] \<or> is_dir fs (probe_path fs d) \<or> is_file fs (probe_path fs d)"
  by (induction d) auto

lemma probe_nearest:
  "\<exists>k. probe_path fs d = rev (drop k d) \<and> (\<forall>j<k. \<not> is_dir fs (rev (drop j d)) \<and> \<not> is_file fs (rev (drop j d)))"
proof (induction d)
  case (Cons c d)
  show ?case
  proof (cases "is_dir fs (rev (c # d)) \<or> is_file fs (rev (c # d))")
    case True
    then show ?thesis by (intro exI [of _ 0]) auto
  next
    case False
    obtain k where k: "probe_path fs d = rev (drop k d)" "\<forall>j<k. \<not> is_dir fs (rev (drop j d)) \<and> \<not> is_file fs (rev (drop j d))"
      using Cons.IH by blast
    have "\<forall>j < Suc k. \<not> is_dir fs (rev (drop j (c # d))) \<and> \<not> is_file fs (rev (drop j (c # d)))"
      using False k(2) by (auto simp: less_Suc_eq_0_disj)
    then show ?thesis using False k(1) by (intro exI [of _ "Suc k"]) auto
  qed
next
  case Nil
  show ?case by (rule exI [of _ 0]) simp
qed

text \<open>
  The volume whose free space is shown is that of the nearest ancestor of the cache that exists: the cache itself
  when it is there, and the root when nothing above it is.
\<close>

theorem disk_usage_nearest:
  "\<exists>k. dataset_disk_usage statvfs base fs = statvfs (take k base) \<and>
     (take k base = [] \<or> is_dir fs (take k base) \<or> is_file fs (take k base)) \<and>
     {j. k < j \<and> j \<le> length base \<and> (is_dir fs (take j base) \<or> is_file fs (take j base))} = {}"
proof -
  obtain k where k: "probe_path fs (rev base) = rev (drop k (rev base))"
    "\<forall>j<k. \<not> is_dir fs (rev (drop j (rev base))) \<and> \<not> is_file fs (rev (drop j (rev base)))"
    using probe_nearest by blast
  have drop: "rev (drop j (rev base)) = take (length base - j) base" for j by (simp add: drop_rev)
  have "\<not> is_dir fs (take j base) \<and> \<not> is_file fs (take j base)" if "length base - k < j" "j \<le> length base" for j
  proof -
    have "length base - j < k" "length base - (length base - j) = j" using that by arith+
    then show ?thesis using k(2) [unfolded drop] by metis
  qed
  then show ?thesis
    using probe_exists [of fs "rev base"] k(1) unfolding dataset_disk_usage_def drop
    by (intro exI [of _ "length base - k"]) auto
qed

end
