(* ===== verification/Settings_Env.thy ===== *)
theory Settings_Env
  imports Control_Auth Lifecycle Router_Proxy Observability
begin

text \<open>
  The backend's settings, read from the environment (apps/backend/app/core/settings.py), and the environment a model
  is started with (env_setup of apps/backend/app/llmops/process.py).

  The environment is a dictionary of texts; \<open>rd\<close> is \<open>float(str)\<close>, which accepts infinities and NaN, and
  \<open>None\<close> from it is a ValueError.  \<open>host_pid\<close> is the text of host name and process id.  \<open>ctl_of\<close> is the
  part the control plane reads.
\<close>

section \<open>Reading a variable\<close>

datatype pyfloat = Finite real | Infinite bool | Not_A_Number

type_synonym environ = "(string, string) dict"

definition env_float :: "(string \<Rightarrow> pyfloat option) \<Rightarrow> environ \<Rightarrow> string \<Rightarrow> real \<Rightarrow> pyfloat" where
  "env_float rd env name dflt =
     (case map_of env name of
        None \<Rightarrow> Finite dflt
      | Some s \<Rightarrow> (case rd s of None \<Rightarrow> Finite dflt | Some f \<Rightarrow> f))"

definition env_bool :: "environ \<Rightarrow> string \<Rightarrow> bool \<Rightarrow> bool" where
  "env_bool env name dflt =
     (case map_of env name of
        None \<Rightarrow> dflt
      | Some v \<Rightarrow> str_lower (str_strip v) \<in> {''1'', ''true'', ''yes'', ''on''})"

definition env_csv :: "environ \<Rightarrow> string \<Rightarrow> string list" where
  "env_csv env name = map str_strip (filter (\<lambda>s. str_strip s \<noteq> []) (split_on (CHR '','') (dget env name [])))"

text \<open>\<open>os.environ.get(name, default).strip()\<close>, the same with \<open>or default\<close>, and \<open>rstrip("/")\<close>.\<close>

definition env_text :: "environ \<Rightarrow> string \<Rightarrow> string" where
  "env_text env name = str_strip (dget env name [])"

definition env_text_or :: "environ \<Rightarrow> string \<Rightarrow> string \<Rightarrow> string" where
  "env_text_or env name dflt = (let s = str_strip (dget env name dflt) in if s = [] then dflt else s)"

definition strip_slashes :: "string \<Rightarrow> string" where
  "strip_slashes s = rev (dropWhile (\<lambda>c. c = CHR ''/'') (rev s))"

text \<open>\<open>int(float)\<close> truncates; an infinity or NaN raises.\<close>

fun int_of_float :: "pyfloat \<Rightarrow> int option" where
  "int_of_float (Finite r) = Some (if 0 \<le> r then floor r else ceiling r)"
| "int_of_float _ = None"

section \<open>The settings\<close>

record backend_settings =
  bs_poll_interval :: pyfloat
  bs_start_timeout :: pyfloat
  bs_stop_timeout :: pyfloat
  bs_drain_timeout :: pyfloat
  bs_drain_poll_interval :: pyfloat
  bs_gpu_poll_interval :: pyfloat
  bs_load_poll_interval :: pyfloat
  bs_autoscale_interval :: pyfloat
  bs_db_path :: "string option"
  bs_audit_max_rows :: int
  bs_config_versions_max :: int
  bs_default_input_price :: pyfloat
  bs_default_output_price :: pyfloat
  bs_price_currency :: string
  bs_vram_guard :: bool
  bs_replay_desired :: bool
  bs_auto_restart :: bool
  bs_max_restarts :: int
  bs_restart_backoff_base :: pyfloat
  bs_admin_token :: string
  bs_alert_webhook :: string
  bs_alert_slack_webhook :: string
  bs_alert_discord_webhook :: string
  bs_alert_min_severity :: string
  bs_alert_cooldown_s :: pyfloat
  bs_prometheus_sd_path :: string
  bs_eval_concurrency_budget :: int
  bs_oidc_issuer :: string
  bs_oidc_client_id :: string
  bs_oidc_client_secret :: string
  bs_oidc_redirect_url :: string
  bs_oidc_scopes :: string
  bs_oidc_groups_claim :: string
  bs_oidc_admin_emails :: "string list"
  bs_oidc_admin_groups :: "string list"
  bs_oidc_operator_groups :: "string list"
  bs_oidc_viewer_groups :: "string list"
  bs_oidc_default_role :: string
  bs_session_secret :: string
  bs_session_ttl :: int
  bs_instance_id :: string
  bs_leader_lease_ttl :: pyfloat
  bs_node_host :: string
  bs_live_ttl :: pyfloat
  bs_node_engines :: "string list"
  bs_node_api_url :: string
  bs_node_heartbeat_interval :: pyfloat
  bs_node_ttl :: pyfloat
  bs_schedule_interval :: pyfloat

text \<open>The defaults of the fields of the class.\<close>

definition default_settings :: backend_settings where
  "default_settings =
     \<lparr>bs_poll_interval = Finite 2, bs_start_timeout = Finite 300, bs_stop_timeout = Finite 10, bs_drain_timeout = Finite 30,
      bs_drain_poll_interval = Finite 1, bs_gpu_poll_interval = Finite 5, bs_load_poll_interval = Finite 5,
      bs_autoscale_interval = Finite 5, bs_db_path = None, bs_audit_max_rows = 50000, bs_config_versions_max = 500,
      bs_default_input_price = Finite 0, bs_default_output_price = Finite 0, bs_price_currency = ''USD'',
      bs_vram_guard = True, bs_replay_desired = True, bs_auto_restart = True, bs_max_restarts = 3,
      bs_restart_backoff_base = Finite 5, bs_admin_token = [], bs_alert_webhook = [], bs_alert_slack_webhook = [],
      bs_alert_discord_webhook = [], bs_alert_min_severity = ''error'', bs_alert_cooldown_s = Finite 300,
      bs_prometheus_sd_path = [], bs_eval_concurrency_budget = 32, bs_oidc_issuer = [], bs_oidc_client_id = [],
      bs_oidc_client_secret = [], bs_oidc_redirect_url = [], bs_oidc_scopes = ''openid email profile'',
      bs_oidc_groups_claim = ''groups'', bs_oidc_admin_emails = [], bs_oidc_admin_groups = [],
      bs_oidc_operator_groups = [], bs_oidc_viewer_groups = [], bs_oidc_default_role = ''viewer'',
      bs_session_secret = [], bs_session_ttl = 28800, bs_instance_id = [], bs_leader_lease_ttl = Finite 15,
      bs_node_host = [], bs_live_ttl = Finite 30, bs_node_engines = [], bs_node_api_url = [],
      bs_node_heartbeat_interval = Finite 10, bs_node_ttl = Finite 30, bs_schedule_interval = Finite 10\<rparr>"

definition from_env :: "(string \<Rightarrow> pyfloat option) \<Rightarrow> string \<Rightarrow> environ \<Rightarrow> backend_settings option" where
  "from_env rd host_pid env =
     (let num = env_float rd env; text = env_text env in
      Option.bind (int_of_float (num ''LLMOPS_CONFIG_VERSIONS_MAX'' 500)) (\<lambda>versions.
      Option.bind (int_of_float (num ''LLMOPS_SESSION_TTL'' 28800)) (\<lambda>ttl.
      Option.bind (int_of_float (num ''LLMOPS_MAX_RESTARTS'' 3)) (\<lambda>restarts.
      Option.bind (int_of_float (num ''LLMOPS_EVAL_CONCURRENCY_BUDGET'' 32)) (\<lambda>budget. Some
        (default_settings
          \<lparr>bs_admin_token := text ''LLMOPS_ADMIN_TOKEN'',
           bs_alert_webhook := text ''LLMOPS_ALERT_WEBHOOK'',
           bs_alert_slack_webhook := text ''LLMOPS_ALERT_SLACK_WEBHOOK'',
           bs_alert_discord_webhook := text ''LLMOPS_ALERT_DISCORD_WEBHOOK'',
           bs_alert_min_severity := env_text_or env ''LLMOPS_ALERT_MIN_SEVERITY'' ''error'',
           bs_alert_cooldown_s := num ''LLMOPS_ALERT_COOLDOWN_S'' 300,
           bs_prometheus_sd_path := text ''LLMOPS_PROMETHEUS_SD_PATH'',
           bs_poll_interval := num ''LLMOPS_POLL_INTERVAL'' 2,
           bs_start_timeout := num ''LLMOPS_START_TIMEOUT'' 300,
           bs_stop_timeout := num ''LLMOPS_STOP_TIMEOUT'' 10,
           bs_drain_timeout := num ''LLMOPS_DRAIN_TIMEOUT'' 30,
           bs_drain_poll_interval := num ''LLMOPS_DRAIN_POLL_INTERVAL'' 1,
           bs_gpu_poll_interval := num ''LLMOPS_GPU_POLL_INTERVAL'' 5,
           bs_load_poll_interval := num ''LLMOPS_LOAD_POLL_INTERVAL'' 5,
           bs_autoscale_interval := num ''LLMOPS_AUTOSCALE_INTERVAL'' 5,
           bs_db_path := map_of env ''LLMOPS_DB_PATH'',
           bs_config_versions_max := versions,
           bs_oidc_issuer := strip_slashes (text ''LLMOPS_OIDC_ISSUER''),
           bs_oidc_client_id := text ''LLMOPS_OIDC_CLIENT_ID'',
           bs_oidc_client_secret := text ''LLMOPS_OIDC_CLIENT_SECRET'',
           bs_oidc_redirect_url := text ''LLMOPS_OIDC_REDIRECT_URL'',
           bs_oidc_scopes := env_text_or env ''LLMOPS_OIDC_SCOPES'' ''openid email profile'',
           bs_oidc_groups_claim := env_text_or env ''LLMOPS_OIDC_GROUPS_CLAIM'' ''groups'',
           bs_oidc_admin_emails := env_csv env ''LLMOPS_OIDC_ADMIN_EMAILS'',
           bs_oidc_admin_groups := env_csv env ''LLMOPS_OIDC_ADMIN_GROUPS'',
           bs_oidc_operator_groups := env_csv env ''LLMOPS_OIDC_OPERATOR_GROUPS'',
           bs_oidc_viewer_groups := env_csv env ''LLMOPS_OIDC_VIEWER_GROUPS'',
           bs_oidc_default_role := str_strip (dget env ''LLMOPS_OIDC_DEFAULT_ROLE'' ''viewer''),
           bs_session_secret := text ''LLMOPS_SESSION_SECRET'',
           bs_session_ttl := ttl,
           bs_instance_id := (let s = text ''LLMOPS_INSTANCE_ID'' in if s = [] then host_pid else s),
           bs_leader_lease_ttl := num ''LLMOPS_LEADER_LEASE_TTL'' 15,
           bs_node_host := text ''LLMOPS_NODE_HOST'',
           bs_node_engines := env_csv env ''LLMOPS_NODE_ENGINES'',
           bs_node_api_url := strip_slashes (text ''LLMOPS_NODE_API_URL''),
           bs_live_ttl := num ''LLMOPS_LIVE_TTL'' 30,
           bs_node_heartbeat_interval := num ''LLMOPS_NODE_HEARTBEAT_INTERVAL'' 10,
           bs_node_ttl := num ''LLMOPS_NODE_TTL'' 30,
           bs_schedule_interval := num ''LLMOPS_SCHEDULE_INTERVAL'' 10,
           bs_default_input_price := num ''LLMOPS_DEFAULT_INPUT_PRICE'' 0,
           bs_default_output_price := num ''LLMOPS_DEFAULT_OUTPUT_PRICE'' 0,
           bs_price_currency := env_text_or env ''LLMOPS_PRICE_CURRENCY'' ''USD'',
           bs_vram_guard := env_bool env ''LLMOPS_VRAM_GUARD'' True,
           bs_replay_desired := env_bool env ''LLMOPS_REPLAY_DESIRED'' True,
           bs_auto_restart := env_bool env ''LLMOPS_AUTO_RESTART'' True,
           bs_max_restarts := restarts,
           bs_restart_backoff_base := num ''LLMOPS_RESTART_BACKOFF'' 5,
           bs_eval_concurrency_budget := budget\<rparr>))))))"

text \<open>The control plane's part; \<open>rnd\<close> is the secret drawn when the module is loaded.\<close>

definition ctl_of :: "string \<Rightarrow> backend_settings \<Rightarrow> ctl_settings" where
  "ctl_of rnd bs =
     \<lparr>cs_admin_token = bs_admin_token bs, cs_oidc_issuer = bs_oidc_issuer bs, cs_oidc_client = bs_oidc_client_id bs,
      cs_oidc_secret = bs_oidc_client_secret bs, cs_redirect_url = bs_oidc_redirect_url bs,
      cs_groups_claim = bs_oidc_groups_claim bs, cs_admin_emails = bs_oidc_admin_emails bs,
      cs_admin_groups = bs_oidc_admin_groups bs, cs_operator_groups = bs_oidc_operator_groups bs,
      cs_viewer_groups = bs_oidc_viewer_groups bs, cs_default_role = bs_oidc_default_role bs,
      cs_session_secret = bs_session_secret bs, cs_session_ttl = bs_session_ttl bs, cs_random_secret = rnd,
      cs_currency = bs_price_currency bs\<rparr>"

section \<open>The environment of a model\<close>

text \<open>\<open>proc_version\<close> is the text of /proc/version, \<open>None\<close> where it cannot be read.\<close>

definition is_wsl :: "string option \<Rightarrow> bool" where
  "is_wsl proc_version = (case proc_version of None \<Rightarrow> False | Some s \<Rightarrow> Control_Auth.contains ''microsoft'' (str_lower s))"

definition spawn_defaults :: environ where
  "spawn_defaults = [(''VLLM_WORKER_MULTIPROC_METHOD'', ''spawn''), (''PYTHONUNBUFFERED'', ''1'')]"

definition wsl_compat :: environ where
  "wsl_compat = [(''VLLM_USE_V2_MODEL_RUNNER'', ''0''), (''VLLM_USE_FLASHINFER_SAMPLER'', ''0''), (''VLLM_ATTENTION_BACKEND'', ''FLASH_ATTN'')]"

definition set_defaults :: "environ \<Rightarrow> environ \<Rightarrow> environ" where
  "set_defaults new env = fold (\<lambda>(k, v). dsetdefault k v) new env"

definition compat_on :: "string option \<Rightarrow> environ \<Rightarrow> bool" where
  "compat_on proc_version env =
     (let compat = str_lower (dget env ''LLM_ROUTER_VLLM_COMPAT'' ''auto'')
      in compat = ''on'' \<or> (compat = ''auto'' \<and> is_wsl proc_version))"

definition env_setup :: "string option \<Rightarrow> environ \<Rightarrow> environ" where
  "env_setup proc_version env =
     (let env1 = set_defaults spawn_defaults env
      in if compat_on proc_version env1 then set_defaults wsl_compat env1 else env1)"

definition child_env :: "string option \<Rightarrow> environ \<Rightarrow> environ \<Rightarrow> environ" where
  "child_env proc_version spec_env env = dupdate (env_setup proc_version env) spec_env"

section \<open>The defaults are written twice, and agree\<close>

lemma empty_env [simp]:
  "env_float rd [] name d = Finite d" "env_text [] name = []" "env_csv [] name = []" "env_bool [] name b = b"
  by (simp_all add: env_float_def env_text_def env_csv_def env_bool_def dget_def str_strip_def str_lstrip_def)

lemma default_texts [simp]:
  "env_text_or [] name ''error'' = ''error''" "env_text_or [] name ''openid email profile'' = ''openid email profile''"
  "env_text_or [] name ''groups'' = ''groups''" "env_text_or [] name ''USD'' = ''USD''" "str_strip ''viewer'' = ''viewer''"
proof -
  have "str_strip ''error'' = ''error''" "str_strip ''openid email profile'' = ''openid email profile''" "str_strip ''groups'' = ''groups''"
    "str_strip ''USD'' = ''USD''" "str_strip ''viewer'' = ''viewer''" by code_simp+
  then show "env_text_or [] name ''error'' = ''error''" "env_text_or [] name ''openid email profile'' = ''openid email profile''"
    "env_text_or [] name ''groups'' = ''groups''" "env_text_or [] name ''USD'' = ''USD''" "str_strip ''viewer'' = ''viewer''"
    by (simp_all add: env_text_or_def dget_def Let_def)
qed

text \<open>
  Every default is written twice, in the class and where the environment is read, and the two agree: with nothing
  set the settings are the defaults of the class, except for the instance id, which becomes host and process.
\<close>

theorem empty_environment_is_default:
  "from_env rd host_pid [] = Some (default_settings\<lparr>bs_instance_id := host_pid\<rparr>)"
  by (simp add: from_env_def default_settings_def dget_def strip_slashes_def Let_def)

section \<open>What the environment can break\<close>

definition int_variables :: "string list" where
  "int_variables = [''LLMOPS_CONFIG_VERSIONS_MAX'', ''LLMOPS_SESSION_TTL'', ''LLMOPS_MAX_RESTARTS'', ''LLMOPS_EVAL_CONCURRENCY_BUDGET'']"

definition unbounded :: "(string \<Rightarrow> pyfloat option) \<Rightarrow> environ \<Rightarrow> string \<Rightarrow> bool" where
  "unbounded rd env name = (case Option.bind (map_of env name) rd of None \<Rightarrow> False | Some (Finite r) \<Rightarrow> False | Some _ \<Rightarrow> True)"

lemma trunc_none: "int_of_float (env_float rd env name d) = None \<longleftrightarrow> unbounded rd env name"
  by (auto simp: env_float_def unbounded_def split: option.split pyfloat.split)

text \<open>
  The backend comes up with every environment but one: a whole number that reads as an infinity or NaN is not
  replaced by its default, as an unreadable one is, but ends the start.
\<close>

theorem from_env_fails_iff:
  "from_env rd host_pid env = None \<longleftrightarrow> list_ex (unbounded rd env) int_variables"
  by (simp add: from_env_def Let_def bind_eq_None_conv int_variables_def trunc_none)

lemma from_env_some:
  assumes "from_env rd host_pid env = Some bs"
  shows "bs_admin_token bs = env_text env ''LLMOPS_ADMIN_TOKEN''"
    "bs_oidc_issuer bs = strip_slashes (env_text env ''LLMOPS_OIDC_ISSUER'')"
    "bs_oidc_client_id bs = env_text env ''LLMOPS_OIDC_CLIENT_ID''"
    "bs_oidc_client_secret bs = env_text env ''LLMOPS_OIDC_CLIENT_SECRET''"
    "bs_oidc_scopes bs = env_text_or env ''LLMOPS_OIDC_SCOPES'' ''openid email profile''"
    "bs_oidc_groups_claim bs = env_text_or env ''LLMOPS_OIDC_GROUPS_CLAIM'' ''groups''"
    "bs_price_currency bs = env_text_or env ''LLMOPS_PRICE_CURRENCY'' ''USD''"
    "bs_alert_min_severity bs = env_text_or env ''LLMOPS_ALERT_MIN_SEVERITY'' ''error''"
    "bs_instance_id bs = (let s = env_text env ''LLMOPS_INSTANCE_ID'' in if s = [] then host_pid else s)"
    "bs_audit_max_rows bs = 50000"
    "bs_oidc_admin_emails bs = env_csv env ''LLMOPS_OIDC_ADMIN_EMAILS''"
    "bs_session_ttl bs = the (int_of_float (env_float rd env ''LLMOPS_SESSION_TTL'' 28800))"
    "bs_session_secret bs = env_text env ''LLMOPS_SESSION_SECRET''"
  using assms by (auto simp: from_env_def Let_def bind_eq_Some_conv default_settings_def)

text \<open>The cap on the audit log has no variable.\<close>

lemma audit_cap_fixed: "from_env rd host_pid env = Some bs \<Longrightarrow> bs_audit_max_rows bs = 50000"
  by (rule from_env_some)

lemma strip_blank: "str_strip s = [] \<longleftrightarrow> list_all is_space s"
proof -
  have "str_strip s = [] \<longleftrightarrow> list_all is_space (str_lstrip s)"
    by (simp add: str_strip_def str_lstrip_def dropWhile_eq_Nil_conv list_all_iff)
  also have "\<dots> \<longleftrightarrow> list_all is_space s"
    by (induction s) (auto simp: str_lstrip_def)
  finally show ?thesis .
qed

lemma text_given: "env_text env name \<noteq> [] \<longleftrightarrow> list_ex (\<lambda>c. \<not> is_space c) (dget env name [])"
  by (auto simp: env_text_def strip_blank list_ex_iff list_all_iff)

text \<open>
  A blank secret is none: authentication is on exactly when the admin token has a character that is not blank,
  single sign-on when client, secret and issuer have one (the issuer besides its trailing slashes), and cookies are
  signed with the session secret, else with one made from the token, else with the one of the process.
\<close>

theorem blank_secrets_are_none:
  assumes "from_env rd host_pid env = Some bs"
  shows "auth_enabled (ctl_of rnd bs) = list_ex (\<lambda>c. \<not> is_space c) (dget env ''LLMOPS_ADMIN_TOKEN'' [])"
    and "sso_enabled (ctl_of rnd bs) =
      (strip_slashes (env_text env ''LLMOPS_OIDC_ISSUER'') \<noteq> [] \<and>
       list_ex (\<lambda>c. \<not> is_space c) (dget env ''LLMOPS_OIDC_CLIENT_ID'' []) \<and>
       list_ex (\<lambda>c. \<not> is_space c) (dget env ''LLMOPS_OIDC_CLIENT_SECRET'' []))"
    and "signing_secret (ctl_of rnd bs) =
      (if list_ex (\<lambda>c. \<not> is_space c) (dget env ''LLMOPS_SESSION_SECRET'' []) then env_text env ''LLMOPS_SESSION_SECRET''
       else if list_ex (\<lambda>c. \<not> is_space c) (dget env ''LLMOPS_ADMIN_TOKEN'' []) then ''sess:'' @ env_text env ''LLMOPS_ADMIN_TOKEN''
       else rnd)"
  unfolding auth_enabled_def sso_enabled_def signing_secret_def ctl_of_def ctl_settings.simps from_env_some [OF assms] text_given
  by (rule refl)+

lemma blank_secrets_are_none_witness:
  "\<not> auth_enabled (ctl_of ''r'' (the (from_env (\<lambda>s. None) ''h:1'' [(''LLMOPS_ADMIN_TOKEN'', ''  '')]))) \<and>
   signing_secret (ctl_of ''r'' (the (from_env (\<lambda>s. None) ''h:1'' [(''LLMOPS_ADMIN_TOKEN'', ''  '')]))) = ''r''"
proof -
  let ?env = "[(''LLMOPS_ADMIN_TOKEN'', ''  '')]"
  have "from_env (\<lambda>s. None) ''h:1'' ?env \<noteq> None"
    by (simp add: from_env_def Let_def env_float_def)
  then obtain bs where bs: "from_env (\<lambda>s. None) ''h:1'' ?env = Some bs" by blast
  have "list_ex (\<lambda>c. \<not> is_space c) (dget ?env ''LLMOPS_ADMIN_TOKEN'' []) = False"
    "list_ex (\<lambda>c. \<not> is_space c) (dget ?env ''LLMOPS_SESSION_SECRET'' []) = False" by code_simp+
  with blank_secrets_are_none [OF bs, of "''r''"] bs show ?thesis by simp
qed

text \<open>The items of a list variable: in order, without blanks around them, none empty and none with a comma.\<close>

lemma split_on_clean: "x \<in> set (split_on c s) \<Longrightarrow> c \<notin> set x"
  by (induction s arbitrary: x) (auto split: if_splits list.splits)

lemma strip_subset: "set (str_strip s) \<subseteq> set s"
proof
  fix x assume "x \<in> set (str_strip s)"
  then have "x \<in> set (dropWhile is_space (rev (dropWhile is_space s)))" by (simp add: str_strip_def str_lstrip_def)
  then have "x \<in> set (rev (dropWhile is_space s))" by (rule set_dropWhileD)
  then show "x \<in> set s" by (auto dest: set_dropWhileD)
qed

lemma env_csv_items:
  assumes "x \<in> set (env_csv env name)"
  shows "x \<noteq> [] \<and> CHR '','' \<notin> set x"
  using assms split_on_clean strip_subset by (fastforce simp: env_csv_def)

section \<open>The operator's exports win\<close>

lemma set_defaults_lookup:
  "distinct (map fst new) \<Longrightarrow> map_of (set_defaults new env) k = (case map_of env k of Some v \<Rightarrow> Some v | None \<Rightarrow> map_of new k)"
proof (induction new arbitrary: env)
  case (Cons x new)
  obtain j v where x: "x = (j, v)" by (cases x)
  have "map_of (dsetdefault j v env) k = (case map_of env k of Some w \<Rightarrow> Some w | None \<Rightarrow> if k = j then Some v else None)"
    by (auto simp: dsetdefault_def dhas_def split: option.splits)
  moreover have "map_of (set_defaults new (dsetdefault j v env)) k =
      (case map_of (dsetdefault j v env) k of Some w \<Rightarrow> Some w | None \<Rightarrow> map_of new k)"
    by (rule Cons.IH) (use Cons.prems in auto)
  ultimately show ?case using Cons.prems by (auto simp: set_defaults_def x split: option.splits) 
qed (simp add: set_defaults_def split: option.split)

text \<open>
  A model is started with the launcher's own variables on top, then the operator's exports, then the defaults; the
  workaround for WSL is among the defaults exactly when it is switched on, or left to decide on a WSL kernel.
\<close>

theorem child_environment:
  assumes "distinct (map fst spec_env)"
  shows "map_of (child_env pv spec_env env) k =
    (case map_of spec_env k of Some v \<Rightarrow> Some v
     | None \<Rightarrow> (case map_of env k of Some v \<Rightarrow> Some v
       | None \<Rightarrow> (case map_of spawn_defaults k of Some v \<Rightarrow> Some v
         | None \<Rightarrow> if compat_on pv env then map_of wsl_compat k else None)))"
proof -
  let ?env1 = "set_defaults spawn_defaults env"
  have base: "map_of ?env1 j = (case map_of env j of Some v \<Rightarrow> Some v | None \<Rightarrow> map_of spawn_defaults j)" for j
    by (rule set_defaults_lookup) (simp add: spawn_defaults_def)
  have "map_of spawn_defaults ''LLM_ROUTER_VLLM_COMPAT'' = None" by (simp add: spawn_defaults_def)
  then have "dget ?env1 ''LLM_ROUTER_VLLM_COMPAT'' ''auto'' = dget env ''LLM_ROUTER_VLLM_COMPAT'' ''auto''"
    unfolding dget_def base by (simp split: option.split)
  then have compat: "compat_on pv ?env1 = compat_on pv env" by (simp add: compat_on_def)
  have wsl: "map_of (set_defaults wsl_compat ?env1) k = (case map_of ?env1 k of Some v \<Rightarrow> Some v | None \<Rightarrow> map_of wsl_compat k)"
    by (rule set_defaults_lookup) (simp add: wsl_compat_def)
  have looked: "map_of (env_setup pv env) k = (case map_of env k of Some v \<Rightarrow> Some v
       | None \<Rightarrow> (case map_of spawn_defaults k of Some v \<Rightarrow> Some v | None \<Rightarrow> if compat_on pv env then map_of wsl_compat k else None))"
    by (simp add: env_setup_def Let_def compat wsl base split: option.split)
  have "dict_ok spec_env" using assms by (simp add: dict_ok_def)
  then show ?thesis by (simp only: child_env_def map_of_dupdate map_add_def looked)
qed

lemma child_environment_witness:
  "map_of (child_env (Some ''Linux microsoft-standard'') [(''CUDA_VISIBLE_DEVICES'', ''0'')] [(''VLLM_ATTENTION_BACKEND'', ''XFORMERS'')])
     ''VLLM_ATTENTION_BACKEND'' = Some ''XFORMERS'' \<and>
   map_of (child_env (Some ''Linux microsoft-standard'') [(''CUDA_VISIBLE_DEVICES'', ''0'')] [(''VLLM_ATTENTION_BACKEND'', ''XFORMERS'')])
     ''VLLM_USE_V2_MODEL_RUNNER'' = Some ''0''"
proof -
  have wsl: "is_wsl (Some ''Linux microsoft-standard'')" "str_lower ''auto'' = ''auto''" by code_simp+
  have "distinct (map fst [(''CUDA_VISIBLE_DEVICES'', ''0'')])" by simp
  from child_environment [OF this, of "Some ''Linux microsoft-standard''" "[(''VLLM_ATTENTION_BACKEND'', ''XFORMERS'')]"] show ?thesis
    by (simp add: spawn_defaults_def wsl_compat_def dget_def wsl compat_on_def)
qed

end
