(* ===== verification/Sso_Flow.thy ===== *)
theory Sso_Flow
  imports Settings_Env
begin

text \<open>
  The round trip of a single sign-on around the callback's checks of Control_Auth: the discovery document and its
  cache, PKCE, the redirect to the provider, the exchange of the code and the check of the identity token
  (apps/backend/app/core/oidc.py), and the two endpoints that sequence them (apps/backend/app/api/sso.py).

  The provider is a parameter: the answer to a GET of its discovery document, to a POST of its token endpoint, and the
  verification of a signature.  \<open>None\<close> is an exception.  SHA-256 and base64 are parameters; the query string is
  written out.  Texts are sequences of bytes.
\<close>

section \<open>PKCE and redirects\<close>

definition rstrip_char :: "char \<Rightarrow> string \<Rightarrow> string" where
  "rstrip_char c s = rev (dropWhile (\<lambda>x. x = c) (rev s))"

definition generate_pkce :: "(string \<Rightarrow> string) \<Rightarrow> (string \<Rightarrow> string) \<Rightarrow> string \<Rightarrow> string \<times> string" where
  "generate_pkce sha256 b64 verifier = (verifier, rstrip_char (CHR ''='') (b64 (sha256 verifier)))"

text \<open>The headers of a request by their lower-case names, and the scheme of its URL.\<close>

record sso_request =
  sr_headers :: "(string, string) dict"
  sr_scheme :: string
  sr_next :: "string option"

definition forwarded_proto :: "sso_request \<Rightarrow> string" where
  "forwarded_proto rq = dget (sr_headers rq) ''x-forwarded-proto'' (sr_scheme rq)"

definition redirect_uri :: "ctl_settings \<Rightarrow> sso_request \<Rightarrow> string" where
  "redirect_uri c rq =
     (if cs_redirect_url c \<noteq> [] then cs_redirect_url c
      else let forwarded = dget (sr_headers rq) ''x-forwarded-host'' [];
               host = (if forwarded \<noteq> [] then forwarded else dget (sr_headers rq) ''host'' ''None'')
           in forwarded_proto rq @ ''://'' @ host @ ''/api/auth/sso/callback'')"

definition is_https :: "sso_request \<Rightarrow> bool" where
  "is_https rq = (forwarded_proto rq = ''https'')"

section \<open>Query strings\<close>

definition hex_upper :: "nat \<Rightarrow> char" where
  "hex_upper n = ''0123456789ABCDEF'' ! n"

definition quote_char :: "char \<Rightarrow> string" where
  "quote_char c =
     (if is_alnum c \<or> c \<in> {CHR ''_'', CHR ''.'', CHR ''-'', CHR 0x7E} then [c]
      else if c = CHR '' '' then ''+''
      else [CHR 0x25, hex_upper (of_char c div 16), hex_upper (of_char c mod 16)])"

definition quote_plus :: "string \<Rightarrow> string" where
  "quote_plus s = concat (map quote_char s)"

definition urlencode :: "(string \<times> string) list \<Rightarrow> string" where
  "urlencode params = join_with ''&'' (map (\<lambda>(k, v). quote_plus k @ ''='' @ quote_plus v) params)"

section \<open>The provider\<close>

type_synonym discovery_doc = "(string, jval) dict"

type_synonym discovery_cache = "(string, real \<times> discovery_doc) dict"

definition discovery_ttl :: real where "discovery_ttl = 3600"

text \<open>\<open>ask\<close> is the GET and its JSON; the clock is read before the look-up and after the answer.\<close>

definition get_discovery ::
  "(string \<Rightarrow> discovery_doc option) \<Rightarrow> string \<Rightarrow> real \<Rightarrow> real \<Rightarrow> discovery_cache \<Rightarrow> discovery_doc option \<times> discovery_cache" where
  "get_discovery ask iss now answered cache =
     (case map_of cache iss of
        Some (since, doc) \<Rightarrow>
          if now - since < discovery_ttl then (Some doc, cache)
          else (case ask (iss @ ''/.well-known/openid-configuration'') of
                  None \<Rightarrow> (None, cache) | Some d \<Rightarrow> (Some d, dset iss (answered, d) cache))
      | None \<Rightarrow>
          (case ask (iss @ ''/.well-known/openid-configuration'') of
             None \<Rightarrow> (None, cache) | Some d \<Rightarrow> (Some d, dset iss (answered, d) cache)))"

definition authorize_params :: "ctl_settings \<Rightarrow> string \<Rightarrow> string \<Rightarrow> string \<Rightarrow> string \<Rightarrow> string \<Rightarrow> (string \<times> string) list" where
  "authorize_params c scopes state nonce challenge redirect =
     [(''response_type'', ''code''), (''client_id'', cs_oidc_client c), (''redirect_uri'', redirect), (''scope'', scopes),
      (''state'', state), (''nonce'', nonce), (''code_challenge'', challenge), (''code_challenge_method'', ''S256'')]"

definition build_authorize_url ::
  "(real \<Rightarrow> string) \<Rightarrow> ctl_settings \<Rightarrow> string \<Rightarrow> discovery_doc \<Rightarrow> string \<Rightarrow> string \<Rightarrow> string \<Rightarrow> string \<Rightarrow> string option" where
  "build_authorize_url fl c scopes doc state nonce challenge redirect =
     map_option (\<lambda>endpoint. py_str fl endpoint @ ''?'' @ urlencode (authorize_params c scopes state nonce challenge redirect))
       (map_of doc ''authorization_endpoint'')"

text \<open>\<open>post\<close> is the POST of a form to a URL and its JSON.\<close>

definition exchange_code ::
  "(jval \<Rightarrow> (string, jval) dict \<Rightarrow> (string, jval) dict option) \<Rightarrow> ctl_settings \<Rightarrow> discovery_doc \<Rightarrow> string \<Rightarrow> jval \<Rightarrow> jval \<Rightarrow>
   (string, jval) dict option" where
  "exchange_code post c doc code verifier redirect =
     Option.bind (map_of doc ''token_endpoint'') (\<lambda>endpoint.
       post endpoint
         [(''grant_type'', JStr ''authorization_code''), (''code'', JStr code), (''redirect_uri'', redirect),
          (''client_id'', JStr (cs_oidc_client c)), (''client_secret'', JStr (cs_oidc_secret c)), (''code_verifier'', verifier)])"

text \<open>\<open>jwt\<close> verifies a token with the keys of a URL, for an audience and an issuer, and answers its claims.\<close>

definition verify_id_token ::
  "(jval \<Rightarrow> jval \<Rightarrow> string \<Rightarrow> string \<Rightarrow> (string, jval) dict option) \<Rightarrow> ctl_settings \<Rightarrow> discovery_doc \<Rightarrow> jval \<Rightarrow> jval \<Rightarrow>
   (string, jval) dict option" where
  "verify_id_token jwt c doc id_token nonce =
     Option.bind (map_of doc ''jwks_uri'') (\<lambda>uri.
     Option.bind (jwt uri id_token (cs_oidc_client c) (cs_oidc_issuer c)) (\<lambda>claims.
       if nonce \<noteq> JNull \<and> jget claims ''nonce'' \<noteq> nonce then None else Some claims))"

section \<open>The endpoints\<close>

record sso_world =
  sw_fetch :: "string \<Rightarrow> discovery_doc option"
  sw_post :: "jval \<Rightarrow> (string, jval) dict \<Rightarrow> (string, jval) dict option"
  sw_jwt :: "jval \<Rightarrow> jval \<Rightarrow> string \<Rightarrow> string \<Rightarrow> (string, jval) dict option"
  sw_sha256 :: "string \<Rightarrow> string"
  sw_b64 :: "string \<Rightarrow> string"

record drawn =
  dr_state :: string
  dr_nonce :: string
  dr_verifier :: string

text \<open>The redirect: its URL, the transaction cookie and whether the cookie is for https only.\<close>

definition login_endpoint ::
  "ctl_env \<Rightarrow> sso_world \<Rightarrow> string \<Rightarrow> drawn \<Rightarrow> real \<Rightarrow> real \<Rightarrow> sso_request \<Rightarrow> discovery_cache \<Rightarrow>
   (http_exc + string \<times> string \<times> bool) \<times> discovery_cache" where
  "login_endpoint ce w scopes dr now answered rq cache =
     (let c = ce_set ce in
      if \<not> sso_enabled c then (Inl (mk_exc 404 ''SSO is not configured''), cache)
      else case get_discovery (sw_fetch w) (cs_oidc_issuer c) now answered cache of
        (None, cache1) \<Rightarrow> (Inl (mk_exc 502 ''OIDC provider unreachable''), cache1)
      | (Some doc, cache1) \<Rightarrow>
          (let (verifier, challenge) = generate_pkce (sw_sha256 w) (sw_b64 w) (dr_verifier dr);
               redirect = redirect_uri c rq;
               tx = make_tx ce answered [(''state'', JStr (dr_state dr)), (''nonce'', JStr (dr_nonce dr)), (''verifier'', JStr verifier),
                 (''next'', JStr (safe_next (sr_next rq))), (''redirect'', JStr redirect)]
           in (case build_authorize_url (ce_fl ce) c scopes doc (dr_state dr) (dr_nonce dr) challenge redirect of
                 None \<Rightarrow> Inl (mk_exc 500 ''KeyError'')
               | Some url \<Rightarrow> Inr (url, tx, is_https rq), cache1)))"

text \<open>What the provider gives for a code: the claims of a token that verifies, its nonce checked by the callback.\<close>

definition provider_claims ::
  "sso_world \<Rightarrow> ctl_settings \<Rightarrow> discovery_doc \<Rightarrow> string \<Rightarrow> jval \<Rightarrow> jval \<Rightarrow> (string, jval) dict option" where
  "provider_claims w c doc code verifier redirect =
     Option.bind (exchange_code (sw_post w) c doc code verifier redirect) (\<lambda>tokens.
     Option.bind (map_of tokens ''id_token'') (\<lambda>id_token. verify_id_token (sw_jwt w) c doc id_token JNull))"

text \<open>
  The discovery of the callback comes after the checks of the transaction and outside the handler of the exchange:
  with an exchange that always answers, \<open>sso_callback\<close> gets past those checks exactly when it is reached.
\<close>

definition checks_pass :: "ctl_env \<Rightarrow> real \<Rightarrow> sso_query \<Rightarrow> string option \<Rightarrow> bool" where
  "checks_pass ce now q tx_cookie =
     (case sso_callback ce now (\<lambda>code verifier redirect. None) q tx_cookie of
        Inl e \<Rightarrow> hx_status e = 401
      | Inr r \<Rightarrow> True)"

definition callback_endpoint ::
  "ctl_env \<Rightarrow> sso_world \<Rightarrow> real \<Rightarrow> real \<Rightarrow> sso_query \<Rightarrow> string option \<Rightarrow> discovery_cache \<Rightarrow>
   (http_exc + string \<times> string) \<times> discovery_cache" where
  "callback_endpoint ce w now answered q tx_cookie cache =
     (if \<not> checks_pass ce now q tx_cookie then (sso_callback ce now (\<lambda>code verifier redirect. None) q tx_cookie, cache)
      else case get_discovery (sw_fetch w) (cs_oidc_issuer (ce_set ce)) now answered cache of
        (None, cache1) \<Rightarrow> (Inl (mk_exc 500 ''unhandled''), cache1)
      | (Some doc, cache1) \<Rightarrow> (sso_callback ce now (provider_claims w (ce_set ce) doc) q tx_cookie, cache1))"

section \<open>The cache of the discovery document\<close>

text \<open>
  Within an hour of a fetched discovery document it is answered from the cache, the provider is not asked and the
  cache stays what it is.
\<close>

theorem discovery_cached:
  assumes "get_discovery ask iss now answered cache = (Some doc, cache1)" "ask' = (\<lambda>u. None)"
    and "map_of cache iss = None" "later - answered < 3600"
  shows "get_discovery ask' iss later answered' cache1 = (Some doc, cache1)"
  using assms by (auto simp: get_discovery_def discovery_ttl_def split: option.splits)

lemma discovery_cached_witness:
  "get_discovery (\<lambda>u. None) ''i'' 3000 3001 (snd (get_discovery (\<lambda>u. Some [(''jwks_uri'', JStr ''k'')]) ''i'' 1 2 [])) =
     (Some [(''jwks_uri'', JStr ''k'')], [(''i'', (2, [(''jwks_uri'', JStr ''k'')]))])"
proof -
  have "get_discovery (\<lambda>u. Some [(''jwks_uri'', JStr ''k'')]) ''i'' 1 2 [] = (Some [(''jwks_uri'', JStr ''k'')], [(''i'', (2, [(''jwks_uri'', JStr ''k'')]))])"
    by (simp add: get_discovery_def dset_def)
  from discovery_cached [OF this refl, of 3000 3001] show ?thesis
    by (simp add: get_discovery_def dset_def)
qed

text \<open>A document without an authorization endpoint is cached like any other, and breaks every login of the hour.\<close>

lemma wrong_document_breaks_login:
  assumes "sso_enabled (ce_set ce)" "map_of cache (cs_oidc_issuer (ce_set ce)) = Some (since, [])" "now - since < 3600"
  shows "login_endpoint ce w scopes dr now answered rq cache = (Inl (mk_exc 500 ''KeyError''), cache)"
  using assms by (simp add: login_endpoint_def get_discovery_def discovery_ttl_def build_authorize_url_def generate_pkce_def Let_def)

section \<open>The provider reads what was sent\<close>

text \<open>The decoding of a query string, as the other side does it.\<close>

definition unhex :: "char \<Rightarrow> nat" where
  "unhex c = length (takeWhile (\<lambda>x. x \<noteq> c) ''0123456789ABCDEF'')"

fun unquote_plus :: "string \<Rightarrow> string" where
  "unquote_plus [] = []"
| "unquote_plus (c # s) =
     (if c = CHR 0x25 then (case s of a # b # t \<Rightarrow> char_of (16 * unhex a + unhex b) # unquote_plus t | _ \<Rightarrow> c # unquote_plus s)
      else if c = CHR ''+'' then CHR '' '' # unquote_plus s
      else c # unquote_plus s)"

definition parse_query :: "string \<Rightarrow> (string \<times> string) list" where
  "parse_query s = map (\<lambda>p. case str_partition ''='' p of (k, _, v) \<Rightarrow> (unquote_plus k, unquote_plus v)) (split_on (CHR ''&'') s)"

lemma unhex_upper: "n < 16 \<Longrightarrow> unhex (hex_upper n) = n"
proof -
  have "list_all (\<lambda>n. unhex (hex_upper n) = n) [0..<16]" by code_simp
  then show "n < 16 \<Longrightarrow> unhex (hex_upper n) = n" by (simp add: list_all_iff)
qed

lemma hex_plain: "n < 16 \<Longrightarrow> is_alnum (hex_upper n)"
proof -
  have "list_all (\<lambda>n. is_alnum (hex_upper n)) [0..<16]" by code_simp
  then show "n < 16 \<Longrightarrow> is_alnum (hex_upper n)" by (simp add: list_all_iff)
qed

lemma unquote_char: "unquote_plus (quote_char c @ s) = c # unquote_plus s"
proof -
  have alnum: "\<not> is_alnum (CHR 0x25)" "\<not> is_alnum (CHR ''+'')" "\<not> is_alnum (CHR ''&'')" "\<not> is_alnum (CHR ''='')" by code_simp+
  have hex: "of_char c div 16 < (16 :: nat)" "of_char c mod 16 < (16 :: nat)"
    using nat_of_char_less_256 [of c] by (auto simp: less_mult_imp_div_less)
  have decoded: "char_of (16 * unhex (hex_upper (of_char c div 16)) + unhex (hex_upper (of_char c mod 16))) = c"
    by (simp only: unhex_upper [OF hex(1)] unhex_upper [OF hex(2)] mult_div_mod_eq char_of_char)
  consider (plain) "is_alnum c \<or> c \<in> {CHR ''_'', CHR ''.'', CHR ''-'', CHR 0x7E}" | (blank) "c = CHR '' ''"
    | (coded) "\<not> (is_alnum c \<or> c \<in> {CHR ''_'', CHR ''.'', CHR ''-'', CHR 0x7E})" "c \<noteq> CHR '' ''" by blast
  then show ?thesis
  proof cases
    case plain
    then have "quote_char c = [c]" "c \<noteq> CHR 0x25" "c \<noteq> CHR ''+''" using alnum by (auto simp: quote_char_def)
    then show ?thesis by simp
  next
    case blank
    moreover have "quote_char (CHR '' '') = ''+''" by code_simp
    ultimately show ?thesis by simp
  next
    case coded
    then have "quote_char c = [CHR 0x25, hex_upper (of_char c div 16), hex_upper (of_char c mod 16)]"
      unfolding quote_char_def by (simp only: if_False)
    then show ?thesis by (simp only: append.simps unquote_plus.simps if_True list.case decoded refl)
  qed
qed

lemma unquote_quote: "unquote_plus (quote_plus s) = s"
proof -
  have "unquote_plus (quote_plus s @ t) = s @ unquote_plus t" for t
    by (induction s) (simp_all add: quote_plus_def unquote_char)
  from this [of "[]"] show ?thesis by simp
qed

lemma quote_chars: "c \<in> set (quote_char x) \<Longrightarrow> is_alnum c \<or> c \<in> {CHR ''_'', CHR ''.'', CHR ''-'', CHR 0x7E, CHR ''+'', CHR 0x25}"
proof -
  have "of_char x div 16 < (16 :: nat)" "of_char x mod 16 < (16 :: nat)"
    using nat_of_char_less_256 [of x] by (auto simp: less_mult_imp_div_less)
  then show "c \<in> set (quote_char x) \<Longrightarrow> is_alnum c \<or> c \<in> {CHR ''_'', CHR ''.'', CHR ''-'', CHR 0x7E, CHR ''+'', CHR 0x25}"
    by (auto simp: quote_char_def hex_plain split: if_splits)
qed

lemma quote_plain: "c \<in> set (quote_plus s) \<Longrightarrow> c \<noteq> CHR ''&'' \<and> c \<noteq> CHR ''='' \<and> c \<noteq> CHR ''?''"
proof -
  have "\<not> is_alnum (CHR ''&'')" "\<not> is_alnum (CHR ''='')" "\<not> is_alnum (CHR ''?'')" by code_simp+
  then show "c \<in> set (quote_plus s) \<Longrightarrow> c \<noteq> CHR ''&'' \<and> c \<noteq> CHR ''='' \<and> c \<noteq> CHR ''?''"
    using quote_chars by (fastforce simp: quote_plus_def)
qed

lemma split_at_none: "c \<notin> set s \<Longrightarrow> split_on c s = [s]"
  by (induction s) auto

lemma split_at_cut: "c \<notin> set s \<Longrightarrow> split_on c (s @ c # t) = s # split_on c t"
  by (induction s) auto

lemma split_at_join: "\<forall>x \<in> set xs. c \<notin> set x \<Longrightarrow> xs \<noteq> [] \<Longrightarrow> split_on c (join_with [c] xs) = xs"
  by (induction xs rule: induct_list012) (auto simp: split_at_none split_at_cut)

lemma partition_at_cut: "c \<notin> set k \<Longrightarrow> str_partition [c] (k @ c # v) = (k, True, v)"
  by (induction k) (auto simp: starts_with_def)

text \<open>
  The provider decodes the redirect's query to exactly the parameters that were meant, whatever bytes the state,
  the scopes and the redirect address have.
\<close>

theorem parse_urlencode:
  assumes "params \<noteq> []"
  shows "parse_query (urlencode params) = params"
proof -
  let ?pair = "\<lambda>(k, v). quote_plus k @ ''='' @ quote_plus v"
  have "split_on (CHR ''&'') (urlencode params) = map ?pair params"
    unfolding urlencode_def using assms quote_plain by (intro split_at_join) auto
  moreover have "str_partition ''='' (?pair p) = (quote_plus (fst p), True, quote_plus (snd p))" for p
    using partition_at_cut [of "CHR ''=''" "quote_plus (fst p)"] quote_plain by (auto simp: case_prod_beta)
  ultimately show ?thesis by (simp add: parse_query_def unquote_quote comp_def)
qed

lemma parse_urlencode_witness:
  "parse_query (urlencode [(''scope'', ''openid email''), (''redirect_uri'', ''https://h/cb?x=1&y'')]) =
     [(''scope'', ''openid email''), (''redirect_uri'', ''https://h/cb?x=1&y'')]"
  by (rule parse_urlencode) simp

section \<open>The round trip\<close>

text \<open>
  A callback belongs to its login: with the transaction cookie of a login it asks the provider only for that
  login's state, and then with that login's verifier and redirect address; any other state is refused before the
  provider hears of it, discovery included.
\<close>

theorem callback_belongs_to_login:
  assumes "sso_enabled (ce_set ce)" "\<not> given (sq_error q)" "tx \<noteq> []"
    and "ce_decode ce now tx (signing_secret (ce_set ce)) =
      Some [(''state'', JStr st), (''nonce'', JStr nc), (''verifier'', JStr v), (''next'', JStr nx), (''redirect'', JStr rd), (''exp'', JInt e)]"
  shows "(sq_state q \<noteq> Some st \<longrightarrow> callback_endpoint ce w now answered q (Some tx) cache = (Inl (mk_exc 400 ''state mismatch''), cache)) \<and>
    (sq_state q = Some st \<and> st \<noteq> [] \<and> sq_code q = Some code \<and> code \<noteq> [] \<longrightarrow>
      callback_endpoint ce w now answered q (Some tx) cache =
        (case get_discovery (sw_fetch w) (cs_oidc_issuer (ce_set ce)) now answered cache of
           (None, cache1) \<Rightarrow> (Inl (mk_exc 500 ''unhandled''), cache1)
         | (Some doc, cache1) \<Rightarrow>
             (case provider_claims w (ce_set ce) doc code (JStr v) (JStr rd) of
                None \<Rightarrow> Inl (mk_exc 401 ''SSO token exchange/verification failed'')
              | Some claims \<Rightarrow> sso_callback ce now (\<lambda>c v r. Some claims) q (Some tx), cache1)))"
proof -
  let ?tx = "[(''state'', JStr st), (''nonce'', JStr nc), (''verifier'', JStr v), (''next'', JStr nx), (''redirect'', JStr rd), (''exp'', JInt e)]"
  have tx: "read_tx ce now (Some tx) = Some ?tx"
    using assms(3,4) by (simp add: read_tx_def read_session_def)
  have keys: "dhas ?tx ''state''" "jget ?tx ''state'' = JStr st" "jget ?tx ''verifier'' = JStr v" "jget ?tx ''redirect'' = JStr rd"
    by (simp_all add: dhas_def jget_def dget_def)
  have st: "sso_callback ce now ex q (Some tx) = Inl (mk_exc 400 ''state mismatch'')" if "sq_state q \<noteq> Some st" for ex
    using that assms(1,2) by (auto simp: sso_callback_def tx keys given_def)
  have go: "sso_callback ce now ex q (Some tx) = (case ex code (JStr v) (JStr rd) of
      None \<Rightarrow> Inl (mk_exc 401 ''SSO token exchange/verification failed'')
    | Some claims \<Rightarrow> sso_callback ce now (\<lambda>c v r. Some claims) q (Some tx))"
    if "sq_state q = Some st" "st \<noteq> []" "sq_code q = Some code" "code \<noteq> []" for ex
  proof -
    have "given (sq_state q)" "given (sq_code q)" using that by (simp_all add: given_def)
    then show ?thesis
      using that(1,3) assms(1,2) by (simp add: sso_callback_def tx keys split: option.split)
  qed
  show ?thesis
    using st go by (auto simp: callback_endpoint_def checks_pass_def split: prod.split option.split)
qed

definition demo_login :: ctl_env where
  "demo_login = sso_env\<lparr>ce_decode := \<lambda>t tok k. Some
     [(''state'', JStr ''st''), (''nonce'', JStr ''n''), (''verifier'', JStr ''v''), (''next'', JStr ''/''), (''redirect'', JStr ''r''), (''exp'', JInt 99)]\<rparr>"

lemma callback_belongs_to_login_witness:
  "callback_endpoint demo_login w 5 6 \<lparr>sq_error = None, sq_state = Some ''no'', sq_code = Some ''c''\<rparr> (Some ''tx'') [] =
     (Inl (mk_exc 400 ''state mismatch''), []) \<and>
   fst (callback_endpoint demo_login (w\<lparr>sw_fetch := \<lambda>u. None\<rparr>) 5 6 \<lparr>sq_error = None, sq_state = Some ''st'', sq_code = Some ''c''\<rparr> (Some ''tx'') []) =
     Inl (mk_exc 500 ''unhandled'')"
proof -
  have on: "sso_enabled (ce_set demo_login)" by (simp add: demo_login_def sso_env_def sso_settings_def sso_enabled_def)
  have cookie: "ce_decode demo_login 5 ''tx'' (signing_secret (ce_set demo_login)) = Some
     [(''state'', JStr ''st''), (''nonce'', JStr ''n''), (''verifier'', JStr ''v''), (''next'', JStr ''/''), (''redirect'', JStr ''r''), (''exp'', JInt 99)]"
    by (simp add: demo_login_def)
  have "\<not> given (sq_error \<lparr>sq_error = None, sq_state = s, sq_code = Some ''c''\<rparr>)" for s by (simp add: given_def)
  note p = callback_belongs_to_login [OF on this _ cookie, where answered = 6 and cache = "[]" and code = "''c''"]
  show ?thesis
    using p [of "Some ''no''" w] p [of "Some ''st''" "w\<lparr>sw_fetch := \<lambda>u. None\<rparr>"] by (simp add: get_discovery_def)
qed

end
