(* ===== verification/Spec2Isabelle.thy ===== *)
theory Spec2Isabelle
  imports Router_Metrics Scheduler Leader Backend_Main Vllm_Command Eval_Reports Cost_Report Embedding_Server Store_Drivers Observability Bench_Runners Dataset_Previews Sso_Flow
begin

text \<open>
  A model of the vLLMux control plane and router (LLM-Router-Server-Dashboard): the Python code under
  src/apps/router-server, src/apps/backend and src/packages, as definitions of HOL with the theorems
  that make it correct.

  \<^bold>\<open>The program.\<close>  A \<^emph>\<open>router\<close> takes OpenAI-style requests, authenticates them, resolves the model to a
  chain of groups, picks a replica and proxies, with failover.  One or more \<^emph>\<open>backends\<close> run the
  inference processes: each keeps a registry of instances, starts, stops, puts to sleep and wakes
  them, and a reconciler derives their state from process and health probe.  A shared \<^emph>\<open>store\<close> holds
  desired state, assignments, leases, live addresses, keys and telemetry; through it the backends
  elect a leader, whose autoscaler and scheduler decide how many replicas run and where.  The
  configuration file is merged with an overlay that the dashboard edits.

  \<^bold>\<open>The theories.\<close>
    \<^item> \<open>Py_Prelude\<close>: Python dictionaries as association lists in insertion order, string functions, the
      table interface, generic lemmas.
    \<^item> \<open>Router_State\<close> (backend_runtime_state.py), \<open>Group_Config\<close> (schema.py, lora.py, both overlay.py),
      \<open>Routing_Strategies\<close> (routing_strategies.py, backend_selector.py), \<open>Router_Auth\<close> (auth.py),
      \<open>Router_Proxy\<close> (router.py), \<open>Router_Metrics\<close> (vllm_metrics_client.py, metrics_poller.py, the routes): the router.  A proxied request is a function of the answers the
      backends would give; its state is the record of in-flight counts, cooldowns and drain marks.
    \<^item> \<open>Ops_Store\<close> (llmops_store.py): every table of the store as a list of rows with its identity
      counter or as a dictionary, every statement as a function on them; the interfaces of leased
      rows and of the leader lease are locales, interpreted on the store's own operations.
    \<^item> \<open>Lifecycle\<close> (state.py, instance.py, registry.py, events.py, notifier.py): the instance record, the
      registry, the alert gate (an instance of the locale \<open>spaced\<close>), and the \<open>node\<close>: a registry, the
      operating system's processes, the store, the configuration and the log of outgoing calls.
    \<^item> \<open>Launchers\<close> (launchers.py): command lines and launch specs.  \<open>Model_Manager\<close> (manager.py): every
      handler, in the segments between its await points.  \<open>Reconciler\<close> (reconciler.py): the pass, and
      the step relation \<open>node_step\<close> of all handlers, passes and process exits with its invariant.
    \<^item> \<open>Load_Monitor\<close>, \<open>Autoscaler\<close> (load_monitor.py, autoscaler.py), \<open>Scheduler\<close> (scheduler.py,
      node_agent.py), \<open>Leader\<close> (leader.py): the control loops.
    \<^item> \<open>Run_Managers\<close> (eval/manager.py, perf/manager.py): the evaluation queue and the load tests, as three
      relations: \<open>bench_step\<close> of one backend (the configuration of each step is free, the start of a load
      test is two steps, split at its await), \<open>solo_reach\<close> where that await is never interleaved, and
      \<open>fixed_step\<close> for a configuration that does not change.  \<open>Bench_Runners\<close> (eval/runner.py,
      perf/runner.py, rerank_plugin.py, runners_common.py): the two child processes of a run.
    \<^item> \<open>Control_Auth\<close> (core/auth.py, core/oidc.py, api/sso.py): credentials, roles, sign-on, redaction.
      \<open>Sso_Flow\<close>: discovery, PKCE, redirect and code exchange around it.  \<open>Control_API\<close> (api/*.py,
      core/audit.py, core/config_versioning.py): every guarded POST, PUT, PATCH and DELETE endpoint as a
      \<open>route\<close>, its guard, its handler and the two middlewares; \<open>Control_Trail\<close>: what they guarantee.  The
      one mutating endpoint without a guard, the single sign-on logout, deletes a cookie and is not a route.
    \<^item> \<open>Downloads\<close> (downloads.py, dataset_downloads.py, lora_downloads.py, dataset_service.py, lora_service.py,
      hf_service.py): the file system, the catalogue of data sets, adapters, deletion, and the managers
      of background downloads.  \<open>Dataset_Previews\<close>: previews and metadata of the benchmark data sets.
      \<open>Eval_Reports\<close> (eval_reports.py): what is read from a run's directory.
    \<^item> \<open>Alert_Tests\<close> (notifier.py, api/alerts.py): test alerts.  \<open>Observability\<close> (api/observability.py,
      api/metrics.py, gpu_service.py, vllm_metrics.py, config_service.py): the live stream, logs, metric
      pages, GPU listings, payloads and masks of alerts.
    \<^item> \<open>Store_Drivers\<close> (_driver.py, migrate_sqlite_to_pg.py): the SQL text of the two drivers, schema
      initialisation, retries and the copy of a SQLite store.
    \<^item> \<open>Embedding_Server\<close> (embedding_reranker/): the builder, the model classes and the four endpoints.
    \<^item> \<open>Settings_Env\<close> (core/settings.py, process.py): settings from the environment, the environment of a model.
    \<^item> \<open>Backend_Main\<close> (main.py, prometheus_targets.py): boot, leadership, shutdown, scrape targets: where
      the components meet.  \<open>Cost_Report\<close> (cost.py): spend per model and key.
    \<^item> \<open>Vllm_Command\<close> (services/vllm_command.py): pasted command lines, the inverse of \<open>Launchers\<close>.
    \<^item> This theory: what spans the scheduler, the reconcilers and the router.

  \<^bold>\<open>How state and effects are modelled.\<close>  Every operation is a function on explicit state; the clock is
  a parameter \<open>now\<close>, so are random draws.  Python floats are reals.  Exceptions are values (\<open>http_exc\<close>
  in the router, \<open>mgr_err\<close> in the manager).  The answers of other processes (probes, replicas, drain
  polls, adapter calls, whether a spawn succeeds) are oracle arguments, quantified in the theorems.
  Third-party code is a parameter: hashing, JWT verification, JSON parsing of stored documents,
  pydantic validation of a merged configuration (\<open>en_valid\<close>).  A store that cannot be reached is \<open>None\<close>.
  An operation runs atomically except where its segments are separate definitions.  The step relation
  \<open>node_step\<close> of a node has three provisos: handlers are not interleaved at their awaits
  (\<open>start_stop_race\<close> shows what that breaks), a start is not asked for a SLEEPING or STOPPING instance
  (\<open>start_orphans_sleeper\<close>), and a forced import or an alignment with the store drops no instance that
  has a process, \<open>drops_live\<close>.  The properties over it state them.

  \<^bold>\<open>What is shown.\<close>  Router: in-flight counts are balanced, failover serves the first healthy answer
  within a bounded number of attempts, a poll caches what each replica's page says, requests go where
  the write-back says the replica lives, strategies choose only eligible replicas and keep their
  promises (fairness, stickiness within a margin), credentials are checked soundly and revocation
  takes effect, rate limits hold in every window, both services merge the overlay alike.  Store: one
  leader at a time, revoked keys stay revoked, the current overlay is the last recorded one.  Node:
  no process without exactly one owner, bounded crash loops, exact alerts, convergence to the wish,
  write-back of exactly the routable addresses once the own rows are consistent, all-or-nothing adapter
  loading as far as the rollback calls succeed, round trips of the overlay edits, and divergences where the code does not do what it says.  Control loops: floors,
  ceilings and cooldowns of the autoscaler, its ticks as legal handler steps, placement on live
  matching nodes, one actuator per instance, one control plane per lease.  Runs: their rows tell
  the truth, a load test has the machine for itself unless two starts are interleaved, evaluations
  are admitted in order.  Control API:
  nothing changes without the endpoint's role, every change answered by its handler is audited once, the newest version
  is the overlay in force, changes to operators bind at once, a login's session carries its role.  Command lines: what the
  launcher writes for options that coerce back, the parser reads back.  Costs: the page adds up to
  what the logged requests cost.  Drivers: a migration copies every table.  The backend as a whole: the boot establishes the invariants the
  other theorems start from, and no inference process outlives the shutdown.  Files: a deletion removes what was named and nothing else, a
  download ends and its job tells the truth, the pages of a run cover its samples.

  \<^bold>\<open>Fuel.\<close>  None: loops are structural recursion on lists; the drain loop recurses on the router's
  answers, and a run of passes is a list of passes.

  \<^bold>\<open>Idealisations.\<close>  Prometheus samples and prices are exact reals, and a page is split at ASCII white
  space.  The router merges the overlay onto the validated dump of the file, the backend onto its raw
  YAML; \<open>merges_agree\<close> compares the two merges on the same base.

  \<^bold>\<open>Not modelled.\<close>  The database engines and their pragmas, request validation, the remaining read-only
  listings, the wiring of the two applications, the ONNX export script, the dashboard and the tests;
  they are listed in the manifest with the reason.
\<close>

section \<open>Scheduler and reconcilers: one actuator per instance\<close>

lemma foreign_iff:
  assumes "nd_store n = Some s" "map_of (list_assignments None s) k = Some nid" "map_of (list_nodes now None s) nid = Some r"
    and "nid \<noteq> se_instance_id (en_set e)"
  shows "k \<in> set (foreign_assignments e now n)"
proof -
  have "(k, nid) \<in> set (list_assignments None s)" "nid \<in> set (dkeys (list_nodes now None s))"
    using assms(2,3) by (auto simp: dkeys_def dest: map_of_SomeD intro: rev_image_eqI)
  then show ?thesis using assms(1,4) by (force simp: foreign_assignments_def Let_def)
qed

lemma converge_leaves_foreign:
  assumes "k \<in> set fs"
  shows "same_at k n (converge_desired e ob now fs n)"
proof (cases "nd_store n")
  case (Some s)
  have "same_at k m (converge_key e ob now fs st kw m)" for kw m st
  proof (cases "fst kw = k")
    case True
    then show ?thesis using assms by (cases kw) (simp add: converge_key_def)
  next
    case False
    then show ?thesis by (rule elsewhere_same_at [OF converge_key_elsewhere])
  qed
  then show ?thesis by (simp add: converge_desired_def Some Let_def fold_same_at)
qed (simp add: converge_desired_def)

text \<open>
  C32: one actuator.  Let a scheduling pass have run, and take an instance that is wished running and
  that some live node can run.  Of two backends that then see this store, the convergence pass of at
  most one acts on it: that of the other leaves its record, its wish and its processes alone.  (The
  automatic restart of crashed instances is a pass of its own.)
\<close>

theorem one_actuator:
  assumes "dict_ok (so_desired s)" "dict_ok (so_nodes s)" "reschedule_once pj now reg (Some s) = (ch, Some s')"
    and "k \<in> set (wished_running s)" "(m, q) \<in> set (list_nodes now None s)" "node_supports pj q (engine_of reg k)"
    and "nd_store n1 = Some s'" "nd_store n2 = Some s'" "se_instance_id (en_set e1) \<noteq> se_instance_id (en_set e2)"
  shows "same_at k n1 (converge_desired e1 ob1 now (foreign_assignments e1 now n1) n1) \<or>
     same_at k n2 (converge_desired e2 ob2 now (foreign_assignments e2 now n2) n2)"
proof -
  obtain nid r where p: "map_of (list_assignments None s') k = Some nid" "map_of (list_nodes now None s') nid = Some r"
    using reschedule_well_placed [OF assms(1-6)] by (auto simp: well_placed_def)
  show ?thesis
  proof (cases "nid = se_instance_id (en_set e1)")
    case True
    then have "k \<in> set (foreign_assignments e2 now n2)" using foreign_iff [OF assms(8) p] assms(9) by simp
    then show ?thesis by (simp add: converge_leaves_foreign)
  next
    case False
    then have "k \<in> set (foreign_assignments e1 now n1)" using foreign_iff [OF assms(7) p] by simp
    then show ?thesis by (simp add: converge_leaves_foreign)
  qed
qed

lemma one_actuator_witness:
  "\<exists>s'. snd (reschedule_once free_pj 5 None (Some two_nodes)) = Some s' \<and>
    (same_at ''q::a'' (mgr_node\<lparr>nd_store := Some s'\<rparr>) (converge_desired mgr_env quiet 5
       (foreign_assignments mgr_env 5 (mgr_node\<lparr>nd_store := Some s'\<rparr>)) (mgr_node\<lparr>nd_store := Some s'\<rparr>)) \<or>
     same_at ''q::a'' (mgr_node\<lparr>nd_store := Some s'\<rparr>) (converge_desired (mgr_env\<lparr>en_set := mgr_settings\<lparr>se_instance_id := ''n2''\<rparr>\<rparr>) quiet 5
       (foreign_assignments (mgr_env\<lparr>en_set := mgr_settings\<lparr>se_instance_id := ''n2''\<rparr>\<rparr>) 5 (mgr_node\<lparr>nd_store := Some s'\<rparr>))
       (mgr_node\<lparr>nd_store := Some s'\<rparr>)))"
proof -
  obtain ch s' where r: "reschedule_once free_pj 5 None (Some two_nodes) = (ch, Some s')"
    by (simp add: reschedule_once_def Let_def)
  have "(''n1'', \<lparr>nd_hostname = None, nd_capacity = None, nd_engines = None, nd_api_url = None, nd_expires = 90\<rparr>)
      \<in> set (list_nodes 5 None two_nodes)"
    by (simp add: two_nodes_inputs) (simp add: two_nodes_def)
  note p = one_actuator [OF two_nodes_inputs(1,2) r, of "''q::a''", OF _ this,
      of "mgr_node\<lparr>nd_store := Some s'\<rparr>" "mgr_node\<lparr>nd_store := Some s'\<rparr>" mgr_env "mgr_env\<lparr>en_set := mgr_settings\<lparr>se_instance_id := ''n2''\<rparr>\<rparr>"
      quiet quiet]
  show ?thesis
    by (intro exI [of _ s'] conjI p)
      (simp_all add: r two_nodes_inputs node_supports_def mgr_env_def mgr_settings_def)
qed

section \<open>Write-back and routing: a request goes where the instance lives\<close>

text \<open>The addresses as a router's poll reads them, and the form of the keys they are filed under.\<close>

definition live_rows :: "real \<Rightarrow> store \<Rightarrow> ((string \<times> string) \<times> (string \<times> int)) list" where
  "live_rows now s = map (\<lambda>(k, r). ((lv_group r, lv_instance r), (lv_host r, lv_port r))) (list_instances_live now None s)"

definition joined :: "string \<Rightarrow> bool" where
  "joined k = (k = key_group k @ sep2 @ key_instance k)"

definition live_keys_ok :: "store \<Rightarrow> bool" where
  "live_keys_ok s = (\<forall>(k, r) \<in> set (so_live s). joined k \<and> lv_group r = key_group k \<and> lv_instance r = key_instance k)"

lemma live_table:
  assumes "dict_ok (so_live s)" "live_keys_ok s" and True: "joined k"
  shows "map_of (fold (\<lambda>(k, addr). dset k addr) (live_rows now s) []) (key_group k, key_instance k) =
    map_option (\<lambda>r. (lv_host r, lv_port r)) (map_of (list_instances_live now None s) k)"
proof -
  let ?L = "list_instances_live now None s"
  let ?f = "\<lambda>p. (lv_group (snd p), lv_instance (snd p))"
  have sub: "set ?L \<subseteq> set (so_live s)" and ok: "dict_ok ?L"
    using assms(1) by (auto simp: list_instances_live_def dict_ok_filter)
  have key: "joined (fst p) \<and> ?f p = (key_group (fst p), key_instance (fst p))" if "p \<in> set ?L" for p
    using that sub assms(2) by (force simp: live_keys_ok_def)
  have inj: "fst p = fst q" if "p \<in> set ?L" "q \<in> set ?L" "?f p = ?f q" for p q
    using key [OF that(1)] key [OF that(2)] that(3) by (metis joined_def prod.inject)
  have "distinct ?L" "inj_on fst (set ?L)"
    using ok by (simp_all add: dict_ok_def distinct_map)
  then have d: "distinct (map ?f ?L)"
    using inj by (simp only: distinct_map inj_on_def) blast
  have "fold (\<lambda>(k, addr). dset k addr) (live_rows now s) [] = fold (\<lambda>p d. if True then dset (?f p) (lv_host (snd p), lv_port (snd p)) d else d) ?L []"
    by (simp add: live_rows_def fold_map comp_def case_prod_beta)
  then have tab: "fold (\<lambda>(k, addr). dset k addr) (live_rows now s) [] = map (\<lambda>p. (?f p, (lv_host (snd p), lv_port (snd p)))) ?L"
    using fold_table [OF d, of "\<lambda>_. True"] by simp
  have "map_of (map (\<lambda>p. (?f p, (lv_host (snd p), lv_port (snd p)))) ?L) (key_group k, key_instance k) =
      map_option (\<lambda>r. (lv_host r, lv_port r)) (map_of ?L k)"
  proof (cases "map_of ?L k")
    case None
    have "(key_group k, key_instance k) \<notin> ?f ` set ?L"
    proof
      assume "(key_group k, key_instance k) \<in> ?f ` set ?L"
      then obtain p where p: "p \<in> set ?L" "?f p = (key_group k, key_instance k)" by auto
      then have "fst p = k" using key [OF p(1)] True by (metis joined_def prod.inject)
      then show False using p(1) None by (metis map_of_eq_None_iff image_eqI)
    qed
    then have "map_of (map (\<lambda>p. (?f p, (lv_host (snd p), lv_port (snd p)))) ?L) (key_group k, key_instance k) = None"
      unfolding map_of_eq_None_iff by (simp add: image_image)
    then show ?thesis using None by simp
  next
    case (Some r)
    then have p: "(k, r) \<in> set ?L" by (rule map_of_SomeD)
    have "map_of (map (\<lambda>p. (?f p, (lv_host (snd p), lv_port (snd p)))) ?L) (?f (k, r)) = Some (lv_host r, lv_port r)"
      using map_of_table [OF d p, of "\<lambda>p. (lv_host (snd p), lv_port (snd p))" "\<lambda>_. True"] by simp
    then show ?thesis using Some key [OF p] by simp
  qed
  then show ?thesis by (simp add: tab)
qed

text \<open>
  C5: A backend writes its state back and a router polls before the lease of the address is over.  A request
  that the router then sends to a replica which the backend owns and has READY goes to the host the backend
  advertises and to the replica's own port.
\<close>

theorem ready_replica_is_addressed:
  assumes "reg_ok (nd_reg n)" "nd_store n = Some s" "dict_ok (so_live s)" "live_keys_ok s"
    and "\<And>k i. reg_get (nd_reg n) k = Some i \<Longrightarrow> joined k \<and> mi_key i = k"
    and "t < now + se_live_ttl (en_set e)" "0 < se_live_ttl (en_set e)"
    and "reg_get (nd_reg n) (grp @ sep2 @ ic_id c) = Some i" "mi_state i = READY" "grp @ sep2 @ ic_id c \<notin> set fs"
    and "key_group (grp @ sep2 @ ic_id c) = grp"
  shows "instance_addr (poll_cycle re config (map_option (live_rows t) (nd_store (backfill_node_state e now ts fs n))) drains rs) grp c =
    (if se_node_host (en_set e) = [] then mi_host i else se_node_host (en_set e), mi_port i)"
proof -
  let ?k = "grp @ sep2 @ ic_id c"
  obtain s' where s': "nd_store (backfill_node_state e now ts fs n) = Some s'" "dict_ok (so_live s')"
    and rows: "map_of (so_live s') = (\<lambda>k.
      case reg_get (nd_reg n) k of
         Some i \<Rightarrow> if mi_state i = READY \<and> k \<notin> set fs then Some (live_address e now i)
                   else if left_ready ts k then None else map_of (list_instances_live now None s) k
       | None \<Rightarrow> if left_ready ts k then None else map_of (list_instances_live now None s) k)"
    using writeback_rows [OF assms(1,2,3,7)] by blast
  have "live_keys_ok s'"
    unfolding live_keys_ok_def
  proof (clarify)
    fix k r assume "(k, r) \<in> set (so_live s')"
    then have "map_of (so_live s') k = Some r"
      using s'(2) by (simp add: dict_ok_def)
    then consider i where "reg_get (nd_reg n) k = Some i" "r = live_address e now i" | "(k, r) \<in> set (so_live s)"
      unfolding rows by (auto simp: list_instances_live_def split: option.splits if_splits dest: map_of_SomeD)
    then show "joined k \<and> lv_group r = key_group k \<and> lv_instance r = key_instance k"
      using assms(4,5) by cases (auto simp: live_address_def live_keys_ok_def)
  qed
  note ok = this
  have j: "joined ?k" using assms(5,8) by blast
  note tab = live_table [OF s'(2) ok j, of t]
  then have "key_instance ?k = ic_id c"
    using j [unfolded joined_def] assms(11) by (metis same_append_eq)
  moreover have "map_of (list_instances_live t None s') ?k = Some (live_address e now i)"
    using assms(6,8,9,10) s'(2) rows by (simp add: list_instances_live_def at_time_def map_of_filter_value live_address_def)
  ultimately have "map_of (fold (\<lambda>(k, addr). dset k addr) (live_rows t s') []) (grp, ic_id c) =
      Some (lv_host (live_address e now i), lv_port (live_address e now i))"
    using tab j assms(11) by simp
  then show ?thesis
    by (simp add: instance_addr_def poll_cycle_def Let_def s'(1) live_address_def)
qed

lemma ready_replica_is_addressed_witness:
  "instance_addr (poll_cycle dozing_replicas dozing (map_option (live_rows 6)
       (nd_store (backfill_node_state (mgr_env\<lparr>en_set := mgr_settings\<lparr>se_node_host := ''10.0.0.9''\<rparr>\<rparr>) 5 [] []
         (mgr_node\<lparr>nd_reg := [(''q::a'', mgr_inst\<lparr>mi_state := READY\<rparr>)]\<rparr>)))) None demo_rs) ''q'' (demo_inst ''a'' 1)
     = (''10.0.0.9'', mi_port mgr_inst)"
proof -
  have k: "''q'' @ sep2 @ ic_id (demo_inst ''a'' 1) = ''q::a''"
    by (simp add: sep2_def demo_inst_def)
  have parts: "key_group ''q::a'' = ''q''" "key_instance ''q::a'' = ''a''"
    by code_simp+
  define n where "n = mgr_node\<lparr>nd_reg := [(''q::a'', mgr_inst\<lparr>mi_state := READY\<rparr>)]\<rparr>"
  define e where "e = mgr_env\<lparr>en_set := mgr_settings\<lparr>se_node_host := ''10.0.0.9''\<rparr>\<rparr>"
  have st: "nd_store n = Some init_store" "so_live init_store = []"
    by (simp_all add: n_def mgr_node_def init_store_def)
  have g: "reg_get (nd_reg n) k = (if k = ''q::a'' then Some (mgr_inst\<lparr>mi_state := READY\<rparr>) else None)" for k
    by (simp add: n_def reg_get_def)
  have key: "mi_key (mgr_inst\<lparr>mi_state := READY\<rparr>) = ''q::a''" and ok: "reg_ok (nd_reg n)"
    by (simp_all add: mgr_inst_def new_instance_def n_def reg_ok_def dict_ok_def)
  have e: "se_live_ttl (en_set e) = 15" "se_node_host (en_set e) = ''10.0.0.9''"
    by (simp_all add: e_def mgr_settings_def)
  have "instance_addr (poll_cycle dozing_replicas dozing (map_option (live_rows 6) (nd_store (backfill_node_state e 5 [] [] n)))
      None demo_rs) ''q'' (demo_inst ''a'' 1) = (if se_node_host (en_set e) = [] then mi_host (mgr_inst\<lparr>mi_state := READY\<rparr>)
        else se_node_host (en_set e), mi_port (mgr_inst\<lparr>mi_state := READY\<rparr>))"
    by (rule ready_replica_is_addressed [OF ok st(1)])
      (auto simp: k parts st(2) e g key joined_def live_keys_ok_def dict_ok_def sep2_def split: if_splits)
  then show ?thesis
    by (simp only: e n_def e_def) (simp add: mgr_inst_def)
qed

end
